(* ===== verification/Reach_Prelude.thy ===== *)
theory Reach_Prelude
  imports Complex_Main
begin

text \<open>
  Shared vocabulary of the development: the JSON values the node keeps on disk, the
  timestamps it writes, the files it reads back, the character classes its regular
  expressions use, and the list lemmas the component theories rely on.

  Representation choices that hold everywhere:
  \<^item> A JSON document is a value of type \<open>json\<close>; reading a file yields \<open>Absent\<close> (ENOENT),
    \<open>Unreadable\<close> (any other read error, or text that \<open>JSON.parse\<close> rejects) or the parsed value.
  \<^item> A timestamp string is represented by what \<open>Date.parse\<close> makes of it: \<open>Iso t\<close> is the string
    that \<open>toISOString\<close> prints for the instant \<open>t\<close> (milliseconds), \<open>Other s\<close> is a string that is
    not a timestamp (\<open>Date.parse\<close> is NaN).
  \<^item> A JavaScript number is a rational; the arithmetic the code does on it (sums, comparisons,
    floor) is exact on the integers below \<open>2^53\<close> it is used with.
  \<^item> A thrown error is the left value of a sum.
\<close>

section \<open>Collections of facts\<close>

named_theorems reach_defs \<open>definitions that component proofs unfold together\<close>
named_theorems reach_keeps \<open>what an operation leaves unchanged or preserves\<close>

section \<open>Timestamps\<close>

datatype timestamp = Iso int | Other string

fun date_parse :: "timestamp \<Rightarrow> int option" where
  "date_parse (Iso t) = Some t"
| "date_parse (Other s) = None"

text \<open>The order of the strings: ISO strings of equal width compare as their instants.\<close>

fun ts_key :: "timestamp \<Rightarrow> nat \<times> int" where
  "ts_key (Iso t) = (0, t)"
| "ts_key (Other s) = (1, int (length s))"

section \<open>JSON values and files\<close>

datatype json =
    JNull
  | JBool bool
  | JNum rat
  | JStr string
  | JIso int
  | JArr "json list"
  | JObj "(string \<times> json) list"

datatype 'a stored = Absent | Unreadable | Contents 'a

text \<open>A member of an object; \<open>None\<close> is JavaScript's \<open>undefined\<close>.\<close>

fun jget :: "json \<Rightarrow> string \<Rightarrow> json option" where
  "jget (JObj kvs) k = map_of kvs k"
| "jget _ k = None"

text \<open>\<open>typeof value === 'object'\<close> for a non-null value: objects and arrays.\<close>

fun is_object :: "json \<Rightarrow> bool" where
  "is_object (JObj _) = True"
| "is_object (JArr _) = True"
| "is_object _ = False"

fun is_array :: "json \<Rightarrow> bool" where
  "is_array (JArr _) = True"
| "is_array _ = False"

fun json_string :: "json \<Rightarrow> string option" where
  "json_string (JStr s) = Some s"
| "json_string _ = None"

fun json_stamp :: "json \<Rightarrow> timestamp option" where
  "json_stamp (JIso t) = Some (Iso t)"
| "json_stamp (JStr s) = Some (Other s)"
| "json_stamp _ = None"

fun stamp_json :: "timestamp \<Rightarrow> json" where
  "stamp_json (Iso t) = JIso t"
| "stamp_json (Other s) = JStr s"

fun json_bool :: "json \<Rightarrow> bool option" where
  "json_bool (JBool b) = Some b"
| "json_bool _ = None"

fun json_num :: "json \<Rightarrow> rat option" where
  "json_num (JNum r) = Some r"
| "json_num _ = None"

fun json_list :: "json \<Rightarrow> json list option" where
  "json_list (JArr xs) = Some xs"
| "json_list _ = None"

text \<open>\<open>Number.isInteger\<close>.\<close>

definition is_integer :: "rat \<Rightarrow> bool" where
  "is_integer r = (of_int \<lfloor>r\<rfloor> = r)"

definition json_int :: "json \<Rightarrow> int option" where
  "json_int j = (case json_num j of
      None \<Rightarrow> None
    | Some r \<Rightarrow> if is_integer r then Some \<lfloor>r\<rfloor> else None)"

text \<open>Typed members of an object; a member of another type reads as absent.\<close>

definition field :: "(json \<Rightarrow> 'a option) \<Rightarrow> json \<Rightarrow> string \<Rightarrow> 'a option" where
  "field f j k = (case jget j k of None \<Rightarrow> None | Some v \<Rightarrow> f v)"

abbreviation str_field :: "json \<Rightarrow> string \<Rightarrow> string option" where
  "str_field \<equiv> field json_string"

abbreviation num_field :: "json \<Rightarrow> string \<Rightarrow> rat option" where
  "num_field \<equiv> field json_num"

abbreviation int_field :: "json \<Rightarrow> string \<Rightarrow> int option" where
  "int_field \<equiv> field json_int"

abbreviation arr_field :: "json \<Rightarrow> string \<Rightarrow> json list option" where
  "arr_field \<equiv> field json_list"

abbreviation bool_field :: "json \<Rightarrow> string \<Rightarrow> bool option" where
  "bool_field \<equiv> field json_bool"

abbreviation stamp_field :: "json \<Rightarrow> string \<Rightarrow> timestamp option" where
  "stamp_field \<equiv> field json_stamp"

fun json_opt :: "('a \<Rightarrow> json) \<Rightarrow> 'a option \<Rightarrow> json" where
  "json_opt f None = JNull"
| "json_opt f (Some x) = f x"

text \<open>Decoding every element of an array, refusing the whole array on the first bad one.\<close>

fun decode_all :: "('a \<Rightarrow> 'b option) \<Rightarrow> 'a list \<Rightarrow> 'b list option" where
  "decode_all f [] = Some []"
| "decode_all f (x # xs) =
     (case f x of
        None \<Rightarrow> None
      | Some y \<Rightarrow> (case decode_all f xs of None \<Rightarrow> None | Some ys \<Rightarrow> Some (y # ys)))"

lemma field_JObj [simp]: "field f (JObj kvs) k = (case map_of kvs k of None \<Rightarrow> None | Some v \<Rightarrow> f v)"
  by (simp add: field_def)

lemma is_integer_of_int [simp]: "is_integer (of_int n)"
  by (simp add: is_integer_def)

lemma is_integer_numerals [simp]:
  "is_integer 0" "is_integer 1" "is_integer (numeral k)"
  by (simp_all add: is_integer_def)

lemma json_int_of_int [simp]: "json_int (JNum (of_int n)) = Some n"
  by (simp add: json_int_def)

lemma json_stamp_stamp_json [simp]: "json_stamp (stamp_json t) = Some t"
  by (cases t) simp_all

lemma decode_all_map:
  "(\<And>x. x \<in> set xs \<Longrightarrow> f (g x) = Some x) \<Longrightarrow> decode_all f (map g xs) = Some xs"
  by (induction xs) simp_all

lemma decode_all_length: "decode_all f xs = Some ys \<Longrightarrow> length ys = length xs"
  by (induction xs arbitrary: ys) (auto split: option.splits)

lemma decode_all_set:
  "decode_all f xs = Some ys \<Longrightarrow> y \<in> set ys \<Longrightarrow> \<exists>x \<in> set xs. f x = Some y"
  by (induction xs arbitrary: ys) (auto split: option.splits)

lemma decode_all_list_all:
  "decode_all f xs = Some ys \<Longrightarrow> (\<And>x y. f x = Some y \<Longrightarrow> P y) \<Longrightarrow> list_all P ys"
  by (induction xs arbitrary: ys) (auto split: option.splits)

section \<open>Strings\<close>

abbreviation code_of :: "char \<Rightarrow> nat" where
  "code_of c \<equiv> of_char c"

definition is_digit :: "char \<Rightarrow> bool" where
  "is_digit c = (48 \<le> code_of c \<and> code_of c \<le> 57)"

definition is_lower :: "char \<Rightarrow> bool" where
  "is_lower c = (97 \<le> code_of c \<and> code_of c \<le> 122)"

definition is_upper :: "char \<Rightarrow> bool" where
  "is_upper c = (65 \<le> code_of c \<and> code_of c \<le> 90)"

definition is_alnum :: "char \<Rightarrow> bool" where
  "is_alnum c = (is_digit c \<or> is_lower c \<or> is_upper c)"

definition is_lower_hex :: "char \<Rightarrow> bool" where
  "is_lower_hex c = (is_digit c \<or> (97 \<le> code_of c \<and> code_of c \<le> 102))"

definition is_hex :: "char \<Rightarrow> bool" where
  "is_hex c = (is_lower_hex c \<or> (65 \<le> code_of c \<and> code_of c \<le> 70))"

text \<open>The ASCII white space that trim and the class s of a regular expression match.\<close>

definition is_space :: "char \<Rightarrow> bool" where
  "is_space c = ((9 \<le> code_of c \<and> code_of c \<le> 13) \<or> code_of c = 32)"

definition js_trim :: "string \<Rightarrow> string" where
  "js_trim s = rev (dropWhile is_space (rev (dropWhile is_space s)))"

definition starts_with :: "string \<Rightarrow> string \<Rightarrow> bool" where
  "starts_with s p = (take (length p) s = p)"

fun str_includes :: "string \<Rightarrow> string \<Rightarrow> bool" where
  "str_includes [] p = (p = [])"
| "str_includes (c # s) p = (starts_with (c # s) p \<or> str_includes s p)"

definition lower_char :: "char \<Rightarrow> char" where
  "lower_char c = (if is_upper c then char_of (code_of c + 32) else c)"

definition to_lower :: "string \<Rightarrow> string" where
  "to_lower s = map lower_char s"

text \<open>Splitting at maximal runs of separator characters, empty pieces kept out.\<close>

function split_tokens :: "(char \<Rightarrow> bool) \<Rightarrow> string \<Rightarrow> string list" where
  "split_tokens sep s =
     (let s' = dropWhile sep s in
      if s' = [] then []
      else takeWhile (\<lambda>c. \<not> sep c) s' # split_tokens sep (dropWhile (\<lambda>c. \<not> sep c) s'))"
  by pat_completeness auto
termination
proof (relation "measure (\<lambda>(sep, s). length s)", goal_cases)
  case 1
  show ?case by simp
next
  case (2 sep s s')
  then have ne: "dropWhile sep s \<noteq> []" and s': "s' = dropWhile sep s" by blast+
  then have ne': "s' \<noteq> []" and "\<not> sep (hd s')" by (simp_all add: hd_dropWhile)
  then obtain c r where cr: "s' = c # r" and "\<not> sep c" by (cases s') simp_all
  then have "length (dropWhile (\<lambda>c. \<not> sep c) s') < length s'"
    by (simp add: length_dropWhile_le less_Suc_eq_le)
  moreover have "length s' \<le> length s" by (simp add: s' length_dropWhile_le)
  ultimately show ?case by simp
qed

declare split_tokens.simps [simp del]

lemma starts_with_iff: "starts_with s p \<longleftrightarrow> (\<exists>r. s = p @ r)"
  by (auto simp: starts_with_def) (metis append_take_drop_id)

lemma starts_with_refl [simp]: "starts_with s s"
  by (simp add: starts_with_def)

section \<open>Lists\<close>

text \<open>\<open>Array.prototype.slice(-n)\<close>: the last \<open>n\<close> elements.\<close>

definition take_last :: "nat \<Rightarrow> 'a list \<Rightarrow> 'a list" where
  "take_last n xs = drop (length xs - n) xs"

lemma length_take_last [simp]: "length (take_last n xs) = min n (length xs)"
  by (simp add: take_last_def)

lemma set_take_last: "set (take_last n xs) \<subseteq> set xs"
  by (simp add: take_last_def set_drop_subset)

lemma take_last_snoc: "0 < n \<Longrightarrow> take_last n (xs @ [x]) = take_last (n - 1) xs @ [x]"
  by (cases n) (auto simp: take_last_def)

lemma sorted_wrt_take_last: "sorted_wrt P xs \<Longrightarrow> sorted_wrt P (take_last n xs)"
  unfolding take_last_def by (metis sorted_wrt_append append_take_drop_id)

lemma find_SomeD: "List.find P xs = Some x \<Longrightarrow> x \<in> set xs \<and> P x"
  by (induction xs) (auto split: if_splits)

lemma find_NoneD: "List.find P xs = None \<Longrightarrow> x \<in> set xs \<Longrightarrow> \<not> P x"
  by (induction xs) (auto split: if_splits)

lemma find_None_iff_all: "List.find P xs = None \<longleftrightarrow> (\<forall>x \<in> set xs. \<not> P x)"
  by (induction xs) auto

lemma sum_list_filter_le:
  fixes f :: "'a \<Rightarrow> rat"
  assumes "\<And>x. x \<in> set xs \<Longrightarrow> 0 \<le> f x" and "\<And>x. x \<in> set xs \<Longrightarrow> P x \<Longrightarrow> Q x"
  shows "sum_list (map f (filter P xs)) \<le> sum_list (map f (filter Q xs))"
  using assms
proof (induction xs)
  case (Cons x xs)
  then have "sum_list (map f (filter P xs)) \<le> sum_list (map f (filter Q xs))" "0 \<le> f x"
    by simp_all
  with Cons.prems(2) [of x] show ?case by auto
qed simp

lemma length_filter_mono:
  "(\<And>x. x \<in> set xs \<Longrightarrow> P x \<Longrightarrow> Q x) \<Longrightarrow> length (filter P xs) \<le> length (filter Q xs)"
proof (induction xs)
  case (Cons x xs)
  then have "length (filter P xs) \<le> length (filter Q xs)" by simp
  with Cons.prems [of x] show ?case by auto
qed simp

end
