(* ===== verification/Reach_Protocol.thy ===== *)
theory Reach_Protocol
  imports Reach_Prelude
begin

text \<open>
  The vocabulary of \<open>src/src/shared/protocol.ts\<close> that the policy and task code shares: owner
  access modes, client kinds, execution profiles and the requesting actor, each with its wire
  spelling. Access modes are ordered \<open>off < read-only < on\<close> by the table \<open>RANK\<close> of
  \<open>access.ts\<close>, which makes them a linear order of the library.
\<close>

datatype access_mode = Off | ReadOnly | On

datatype client_kind = Chatgpt | Claude | Smoke | OtherClient

datatype reach_profile =
    ProfReadOnly | ProfWorkspaceSafe | ProfDevelopment | ProfRepositoryMaintenance
  | ProfAndroidAdb | ProfRemoteServer | ProfFullLocal

record request_actor =
  act_kind :: client_kind
  act_clientId :: string
  act_clientName :: string

definition REACH_PROFILES :: "reach_profile list" where
  "REACH_PROFILES = [ProfReadOnly, ProfWorkspaceSafe, ProfDevelopment,
     ProfRepositoryMaintenance, ProfAndroidAdb, ProfRemoteServer, ProfFullLocal]"

definition CLIENT_KINDS :: "client_kind list" where
  "CLIENT_KINDS = [Chatgpt, Claude, Smoke, OtherClient]"

fun RANK :: "access_mode \<Rightarrow> nat" where
  "RANK Off = 0"
| "RANK ReadOnly = 1"
| "RANK On = 2"

fun mode_string :: "access_mode \<Rightarrow> string" where
  "mode_string Off = ''off''"
| "mode_string ReadOnly = ''read-only''"
| "mode_string On = ''on''"

text \<open>\<open>isAccessMode\<close>: the mode a string spells, or \<open>None\<close>.\<close>

definition as_access_mode :: "string \<Rightarrow> access_mode option" where
  "as_access_mode s = List.find (\<lambda>m. mode_string m = s) [Off, ReadOnly, On]"

fun client_string :: "client_kind \<Rightarrow> string" where
  "client_string Chatgpt = ''chatgpt''"
| "client_string Claude = ''claude''"
| "client_string Smoke = ''smoke''"
| "client_string OtherClient = ''other''"

definition as_client_kind :: "string \<Rightarrow> client_kind option" where
  "as_client_kind s = List.find (\<lambda>k. client_string k = s) CLIENT_KINDS"

instantiation access_mode :: linorder
begin

definition less_eq_access_mode :: "access_mode \<Rightarrow> access_mode \<Rightarrow> bool" where
  "a \<le> b \<longleftrightarrow> RANK a \<le> RANK b"

definition less_access_mode :: "access_mode \<Rightarrow> access_mode \<Rightarrow> bool" where
  "a < b \<longleftrightarrow> RANK a < RANK b"

instance
proof
  fix a b :: access_mode
  show "a \<le> b \<Longrightarrow> b \<le> a \<Longrightarrow> a = b"
    by (cases a; cases b) (simp_all add: less_eq_access_mode_def)
qed (auto simp: less_eq_access_mode_def less_access_mode_def)

end

definition minMode :: "access_mode \<Rightarrow> access_mode \<Rightarrow> access_mode" where
  "minMode a b = (if RANK a \<le> RANK b then a else b)"

lemma minMode_min: "minMode a b = min a b"
  by (simp add: minMode_def min_def less_eq_access_mode_def)

lemma mode_le_simps [simp]:
  "Off \<le> m" "m \<le> On" "m \<le> Off \<longleftrightarrow> m = Off" "On \<le> m \<longleftrightarrow> m = On"
  by (cases m; simp add: less_eq_access_mode_def)+

lemma as_access_mode_mode_string [simp]: "as_access_mode (mode_string m) = Some m"
  by (cases m) (simp_all add: as_access_mode_def)

lemma as_client_kind_client_string [simp]: "as_client_kind (client_string k) = Some k"
  by (cases k) (simp_all add: as_client_kind_def CLIENT_KINDS_def)

lemma client_string_inj [simp]: "client_string a = client_string b \<longleftrightarrow> a = b"
  by (metis as_client_kind_client_string option.sel)

lemma CLIENT_KINDS_all [simp]: "k \<in> set CLIENT_KINDS"
  by (cases k) (simp_all add: CLIENT_KINDS_def)

end
