(* ===== verification/Reach_Operations.thy ===== *)
theory Reach_Operations
  imports Reach_Protocol
begin

text \<open>
  The operation catalogue of \<open>src/src/shared/operations.ts\<close>: which operations exist, the
  capability and risk each carries, how a planned commit or a compatibility call resolves to its
  real target, and the authority cost a request is charged. The catalogue is a table, so every
  classification here is a function of the table; the lemmas show that wrappers cannot launder
  risk or cost and that unknown names are refused.
\<close>

section \<open>Capabilities, risk classes and descriptors\<close>

datatype reach_capability =
    CapInspect | CapFileRead | CapFileWrite | CapCheckpoint | CapProcessShell | CapCompat
  | CapSecretUse

definition REACH_CAPABILITIES :: "reach_capability list" where
  "REACH_CAPABILITIES = [CapInspect, CapFileRead, CapFileWrite, CapCheckpoint, CapProcessShell,
     CapCompat, CapSecretUse]"

datatype operation_risk =
    RiskInspect | RiskTypedMutate | RiskShell | RiskNetwork | RiskPrivileged | RiskDestructive

definition OPERATION_RISK_ORDER :: "operation_risk list" where
  "OPERATION_RISK_ORDER = [RiskInspect, RiskTypedMutate, RiskNetwork, RiskShell, RiskPrivileged,
     RiskDestructive]"

datatype checkpoint_strategy = CsNone | CsGitIfAvailable | CsRequired

record operation_descriptor =
  od_operation :: string
  od_capability :: reach_capability
  od_risk :: operation_risk
  od_mutation :: bool
  od_supportsPlan :: bool
  od_readOnlyAllowed :: bool
  od_workspaceSafeAllowed :: bool
  od_checkpointStrategy :: checkpoint_strategy
  od_riskInheritsFromTarget :: bool
  od_workspaceSafeResolvedPerTool :: bool

record compatibility_tool_descriptor =
  ct_tool :: string
  ct_adapter :: string
  ct_capability :: reach_capability
  ct_risk :: operation_risk
  ct_mutation :: bool
  ct_network :: bool
  ct_pathArguments :: "string list"
  ct_remoteBlocked :: bool
  ct_workspaceSafeAllowed :: bool
  ct_supportsPlan :: bool
  ct_checkpointStrategy :: checkpoint_strategy

record authority_cost =
  ac_operations :: rat
  ac_mutations :: rat
  ac_shellCalls :: rat
  ac_requestedWriteBytes :: rat
  ac_requestedProcessMs :: rat

datatype op_error =
    UnknownOperation string
  | UnknownCompatibilityTool string
  | NoRiskClasses
  | UnclassifiableCapability reach_capability
  | NoCapabilities
  | NeedsPlannedTarget string
  | ResolvedPerTool string
  | InvalidInspection

abbreviation opd where
  "opd op c r m p ro ws cs inh pt \<equiv>
     \<lparr>od_operation = op, od_capability = c, od_risk = r, od_mutation = m, od_supportsPlan = p,
      od_readOnlyAllowed = ro, od_workspaceSafeAllowed = ws, od_checkpointStrategy = cs,
      od_riskInheritsFromTarget = inh, od_workspaceSafeResolvedPerTool = pt\<rparr>"

abbreviation ctd where
  "ctd t a c r m n ps rb ws sp cs \<equiv>
     \<lparr>ct_tool = t, ct_adapter = a, ct_capability = c, ct_risk = r, ct_mutation = m,
      ct_network = n, ct_pathArguments = ps, ct_remoteBlocked = rb,
      ct_workspaceSafeAllowed = ws, ct_supportsPlan = sp, ct_checkpointStrategy = cs\<rparr>"

definition DEX_OPERATIONS :: "operation_descriptor list" where
  "DEX_OPERATIONS = [
   opd ''dex.fingerprint'' CapInspect RiskInspect False False True True CsNone False False,
   opd ''dex.trustReport'' CapInspect RiskInspect False False True True CsNone False False,
   opd ''dex.repoInfo'' CapInspect RiskInspect False False True True CsNone False False,
   opd ''dex.adbDevices'' CapInspect RiskInspect False False True True CsNone False False,
   opd ''dex.file.read'' CapFileRead RiskInspect False False True True CsNone False False,
   opd ''dex.result.read'' CapFileRead RiskInspect False False True True CsNone False False,
   opd ''dex.receipts.list'' CapFileRead RiskInspect False False True True CsNone False False,
   opd ''dex.capability.request'' CapInspect RiskInspect False False False True CsNone False False,
   opd ''dex.file.write'' CapFileWrite RiskTypedMutate True True False True CsGitIfAvailable False False,
   opd ''dex.checkpoint'' CapCheckpoint RiskTypedMutate True True False True CsNone False False,
   opd ''dex.plan'' CapInspect RiskTypedMutate False False False True CsGitIfAvailable False False,
   opd ''dex.commitPlan'' CapInspect RiskShell True False False False CsNone True False,
   opd ''dex.process.run'' CapProcessShell RiskShell True True True False CsGitIfAvailable False False,
   opd ''dc.call'' CapCompat RiskShell True True True False CsGitIfAvailable False True]"

definition COMPATIBILITY_TOOLS :: "compatibility_tool_descriptor list" where
  "COMPATIBILITY_TOOLS = [
   ctd ''get_config'' ''desktop-commander'' CapInspect RiskInspect False False [] False True False CsNone,
   ctd ''get_file_info'' ''desktop-commander'' CapFileRead RiskInspect False False [''path''] False True False CsNone,
   ctd ''get_usage_stats'' ''desktop-commander'' CapInspect RiskInspect False False [] False True False CsNone,
   ctd ''list_directory'' ''desktop-commander'' CapFileRead RiskInspect False False [''path''] False True False CsNone,
   ctd ''read_file'' ''desktop-commander'' CapFileRead RiskInspect False True [''path''] False True False CsNone,
   ctd ''read_multiple_files'' ''desktop-commander'' CapFileRead RiskInspect False False [''paths''] False True False CsNone,
   ctd ''start_search'' ''desktop-commander'' CapFileRead RiskInspect False False [''path''] False True False CsNone,
   ctd ''get_more_search_results'' ''desktop-commander'' CapFileRead RiskInspect False False [] False True False CsNone,
   ctd ''list_searches'' ''desktop-commander'' CapInspect RiskInspect False False [] False True False CsNone,
   ctd ''stop_search'' ''desktop-commander'' CapInspect RiskInspect False False [] False True False CsNone,
   ctd ''create_directory'' ''desktop-commander'' CapFileWrite RiskTypedMutate True False [''path''] False True True CsGitIfAvailable,
   ctd ''move_file'' ''desktop-commander'' CapFileWrite RiskTypedMutate True False [''source'', ''destination''] False True True CsGitIfAvailable,
   ctd ''write_file'' ''desktop-commander'' CapFileWrite RiskTypedMutate True False [''path''] False True True CsGitIfAvailable,
   ctd ''write_pdf'' ''desktop-commander'' CapFileWrite RiskTypedMutate True False [''path'', ''outputPath''] False True True CsGitIfAvailable,
   ctd ''edit_block'' ''desktop-commander'' CapFileWrite RiskTypedMutate True False [''file_path''] False True True CsGitIfAvailable,
   ctd ''start_process'' ''desktop-commander'' CapProcessShell RiskShell True False [] False False True CsGitIfAvailable,
   ctd ''interact_with_process'' ''desktop-commander'' CapProcessShell RiskShell True False [] False False True CsGitIfAvailable,
   ctd ''read_process_output'' ''desktop-commander'' CapProcessShell RiskInspect False False [] False False False CsNone,
   ctd ''list_processes'' ''desktop-commander'' CapInspect RiskInspect False False [] False False False CsNone,
   ctd ''list_sessions'' ''desktop-commander'' CapInspect RiskInspect False False [] False False False CsNone,
   ctd ''force_terminate'' ''desktop-commander'' CapProcessShell RiskDestructive True False [] False False False CsNone,
   ctd ''kill_process'' ''desktop-commander'' CapProcessShell RiskDestructive True False [] False False False CsNone,
   ctd ''set_config_value'' ''desktop-commander'' CapCompat RiskPrivileged True False [] True False False CsNone,
   ctd ''get_recent_tool_calls'' ''desktop-commander'' CapCompat RiskPrivileged False False [] True False False CsNone,
   ctd ''give_feedback_to_desktop_commander'' ''desktop-commander'' CapCompat RiskNetwork False True [] True False False CsNone,
   ctd ''get_prompts'' ''desktop-commander'' CapCompat RiskPrivileged False False [] True False False CsNone]"

section \<open>Lookup and classification\<close>

definition describeOperation :: "string \<Rightarrow> operation_descriptor option" where
  "describeOperation op = List.find (\<lambda>d. od_operation d = op) DEX_OPERATIONS"

definition requireOperation :: "string \<Rightarrow> op_error + operation_descriptor" where
  "requireOperation op = (case describeOperation op of
      None \<Rightarrow> Inl (UnknownOperation op)
    | Some d \<Rightarrow> Inr d)"

definition isKnownOperation :: "string \<Rightarrow> bool" where
  "isKnownOperation op = (describeOperation op \<noteq> None)"

definition readOnlyInspectOperations :: "string list" where
  "readOnlyInspectOperations =
     map od_operation (filter (\<lambda>d. od_readOnlyAllowed d \<and> od_risk d = RiskInspect) DEX_OPERATIONS)"

definition readOnlyDelegatedOperations :: "string list" where
  "readOnlyDelegatedOperations =
     map od_operation (filter (\<lambda>d. od_readOnlyAllowed d \<and> od_risk d \<noteq> RiskInspect) DEX_OPERATIONS)"

definition PLAN_TARGET_OPERATIONS :: "string list" where
  "PLAN_TARGET_OPERATIONS = [''dex.file.write'', ''dex.process.run'', ''dex.checkpoint'', ''dc.call'']"

definition plannableOperations :: "string list" where
  "plannableOperations = map od_operation (filter od_supportsPlan DEX_OPERATIONS)"

definition checkpointStrategyFor :: "string \<Rightarrow> checkpoint_strategy" where
  "checkpointStrategyFor op = (case describeOperation op of
      None \<Rightarrow> CsNone
    | Some d \<Rightarrow> od_checkpointStrategy d)"

text \<open>
  An optional planned target; the source tests it with \<open>!plannedTarget\<close>, so an empty string
  counts as absent.
\<close>

definition given :: "string option \<Rightarrow> string option" where
  "given t = (case t of None \<Rightarrow> None | Some s \<Rightarrow> if s = [] then None else Some s)"

definition effectiveRisk :: "string \<Rightarrow> string option \<Rightarrow> op_error + operation_risk" where
  "effectiveRisk op target = (case requireOperation op of
      Inl e \<Rightarrow> Inl e
    | Inr d \<Rightarrow>
        if \<not> od_riskInheritsFromTarget d then Inr (od_risk d)
        else (case given target of
            None \<Rightarrow> Inl (NeedsPlannedTarget op)
          | Some t \<Rightarrow> (case requireOperation t of Inl e \<Rightarrow> Inl e | Inr d' \<Rightarrow> Inr (od_risk d'))))"

text \<open>The index in the severity order; every class of the closed type is in the table.\<close>

fun index_from :: "nat \<Rightarrow> 'a \<Rightarrow> 'a list \<Rightarrow> nat option" where
  "index_from i x [] = None"
| "index_from i x (y # ys) = (if x = y then Some i else index_from (Suc i) x ys)"

definition riskRank :: "operation_risk \<Rightarrow> nat" where
  "riskRank r = (case index_from 0 r OPERATION_RISK_ORDER of None \<Rightarrow> 0 | Some i \<Rightarrow> i)"

definition highestRisk :: "operation_risk list \<Rightarrow> op_error + operation_risk" where
  "highestRisk rs = (case rs of
      [] \<Rightarrow> Inl NoRiskClasses
    | r # rest \<Rightarrow> Inr (foldl (\<lambda>cur nxt. if riskRank nxt > riskRank cur then nxt else cur) r rest))"

definition riskFloorForCapability :: "reach_capability \<Rightarrow> op_error + operation_risk" where
  "riskFloorForCapability c =
     (let ops = filter (\<lambda>d. od_capability d = c \<and> \<not> od_riskInheritsFromTarget d \<and>
                  (c \<noteq> CapInspect \<or> od_risk d = RiskInspect)) DEX_OPERATIONS
      in if ops = [] then Inl (UnclassifiableCapability c) else highestRisk (map od_risk ops))"

definition describeCompatibilityTool :: "string \<Rightarrow> compatibility_tool_descriptor option" where
  "describeCompatibilityTool t = List.find (\<lambda>d. ct_tool d = t) COMPATIBILITY_TOOLS"

definition requireCompatibilityTool :: "string \<Rightarrow> op_error + compatibility_tool_descriptor" where
  "requireCompatibilityTool t = (case describeCompatibilityTool t of
      None \<Rightarrow> Inl (UnknownCompatibilityTool t)
    | Some d \<Rightarrow> Inr d)"

definition compatibilityToolRisk :: "string \<Rightarrow> op_error + operation_risk" where
  "compatibilityToolRisk t = (case requireCompatibilityTool t of
      Inl e \<Rightarrow> Inl e
    | Inr d \<Rightarrow> Inr (ct_risk d))"

definition remoteBlockedCompatibilityTools :: "string list" where
  "remoteBlockedCompatibilityTools = map ct_tool (filter ct_remoteBlocked COMPATIBILITY_TOOLS)"

definition compatibilityToolWorkspaceSafe :: "string \<Rightarrow> op_error + bool" where
  "compatibilityToolWorkspaceSafe t = (case requireCompatibilityTool t of
      Inl e \<Rightarrow> Inl e
    | Inr d \<Rightarrow> Inr (ct_workspaceSafeAllowed d))"

definition workspaceSafeCompatibilityTools :: "string list" where
  "workspaceSafeCompatibilityTools =
     map ct_tool (filter (\<lambda>d. ct_workspaceSafeAllowed d \<and> \<not> ct_remoteBlocked d) COMPATIBILITY_TOOLS)"

definition remoteCompatibilityTools :: "string list" where
  "remoteCompatibilityTools = map ct_tool (filter (\<lambda>d. \<not> ct_remoteBlocked d) COMPATIBILITY_TOOLS)"

text \<open>A string-valued argument; any other value, or none, reads as absent.\<close>

definition string_arg :: "json \<Rightarrow> string \<Rightarrow> string option" where
  "string_arg args k = str_field args k"

fun risk_floors :: "reach_capability list \<Rightarrow> op_error + operation_risk list" where
  "risk_floors [] = Inr []"
| "risk_floors (c # cs) = (case riskFloorForCapability c of
      Inl e \<Rightarrow> Inl e
    | Inr r \<Rightarrow> (case risk_floors cs of Inl e \<Rightarrow> Inl e | Inr rs \<Rightarrow> Inr (r # rs)))"

definition classifyRequestedRisk ::
  "reach_capability list \<Rightarrow> string option \<Rightarrow> json \<Rightarrow> op_error + operation_risk" where
  "classifyRequestedRisk caps operation args = (case given operation of
      Some op \<Rightarrow> (case requireOperation op of
          Inl e \<Rightarrow> Inl e
        | Inr d \<Rightarrow>
            if od_riskInheritsFromTarget d then
              (let target = (case string_arg args ''plannedTarget'' of
                    Some t \<Rightarrow> Some t
                  | None \<Rightarrow> (case string_arg args ''operation'' of
                        Some t \<Rightarrow> if t \<noteq> op then Some t else None
                      | None \<Rightarrow> None))
               in case given target of
                    Some t \<Rightarrow> effectiveRisk op (Some t)
                  | None \<Rightarrow> Inr (od_risk d))
            else if od_workspaceSafeResolvedPerTool d then
              (case given (string_arg args ''tool'') of
                 Some t \<Rightarrow> compatibilityToolRisk t
               | None \<Rightarrow> Inr (od_risk d))
            else Inr (od_risk d))
    | None \<Rightarrow>
        if caps = [] then Inl NoCapabilities
        else (case risk_floors caps of Inl e \<Rightarrow> Inl e | Inr rs \<Rightarrow> highestRisk rs))"

definition workspaceSafeOperations :: "string list" where
  "workspaceSafeOperations =
     map od_operation (filter (\<lambda>d. od_workspaceSafeAllowed d \<and> \<not> od_riskInheritsFromTarget d \<and>
       \<not> od_workspaceSafeResolvedPerTool d) DEX_OPERATIONS)"

function effectiveWorkspaceSafe :: "string \<Rightarrow> string option \<Rightarrow> op_error + bool" where
  "effectiveWorkspaceSafe op target = (case requireOperation op of
      Inl e \<Rightarrow> Inl e
    | Inr d \<Rightarrow>
        if od_workspaceSafeResolvedPerTool d then Inl (ResolvedPerTool op)
        else if \<not> od_riskInheritsFromTarget d then Inr (od_workspaceSafeAllowed d)
        else (case given target of
            None \<Rightarrow> Inl (NeedsPlannedTarget op)
          | Some t \<Rightarrow> effectiveWorkspaceSafe t None))"
  by pat_completeness auto
termination
  by (relation "measure (\<lambda>(op, target). if given target = None then 0 else 1)")
    (auto simp: given_def)

declare effectiveWorkspaceSafe.simps [simp del]

section \<open>Requested authority cost\<close>

text \<open>
  \<open>normalizeCostKey\<close>: an underscore between a lower-case letter or digit and an upper-case
  letter, then lower case. The regular expression's matches never overlap, since the second
  character of a match is upper case.
\<close>

fun split_camel :: "string \<Rightarrow> string" where
  "split_camel (a # b # s) =
     (if (is_lower a \<or> is_digit a) \<and> is_upper b then a # CHR ''_'' # split_camel (b # s)
      else a # split_camel (b # s))"
| "split_camel s = s"

definition normalizeCostKey :: "string \<Rightarrow> string" where
  "normalizeCostKey k = to_lower (split_camel k)"

definition WRITE_PAYLOAD_KEY :: "string \<Rightarrow> bool" where
  "WRITE_PAYLOAD_KEY k = (k \<in> set [''text'', ''content'', ''contents'', ''data'', ''body'', ''new_string''])"

definition TIMEOUT_KEY :: "string \<Rightarrow> bool" where
  "TIMEOUT_KEY k = (k \<in> set [''timeout_ms'', ''timeout''])"

definition utf8_length :: "string \<Rightarrow> rat" where
  "utf8_length s = sum_list (map (\<lambda>c. if code_of c < 128 then 1 else 2) s)"

text \<open>\<open>Number(s)\<close> on a string: decimal, hexadecimal, octal and binary literals.\<close>

fun digit_value :: "char \<Rightarrow> nat option" where
  "digit_value c =
     (if is_digit c then Some (code_of c - 48)
      else if 97 \<le> code_of c \<and> code_of c \<le> 102 then Some (code_of c - 87)
      else if 65 \<le> code_of c \<and> code_of c \<le> 70 then Some (code_of c - 55)
      else None)"

fun digits_value :: "nat \<Rightarrow> nat \<Rightarrow> string \<Rightarrow> nat option" where
  "digits_value b acc [] = Some acc"
| "digits_value b acc (c # s) = (case digit_value c of
      None \<Rightarrow> None
    | Some d \<Rightarrow> if d < b then digits_value b (acc * b + d) s else None)"

definition radix_literal :: "nat \<Rightarrow> string \<Rightarrow> rat option" where
  "radix_literal b s = (if s = [] then None else map_option of_nat (digits_value b 0 s))"

definition exponent_literal :: "string \<Rightarrow> rat option" where
  "exponent_literal s = (case s of
      [] \<Rightarrow> Some 1
    | c # r \<Rightarrow>
        if c \<noteq> CHR ''e'' \<and> c \<noteq> CHR ''E'' then None
        else (let neg = (r \<noteq> [] \<and> hd r = CHR ''-'');
                  ds = (if r \<noteq> [] \<and> (hd r = CHR ''-'' \<or> hd r = CHR ''+'') then tl r else r)
              in if ds = [] then None
                 else map_option (\<lambda>e. if neg then 1 / 10 ^ e else 10 ^ e) (digits_value 10 0 ds)))"

definition decimal_literal :: "string \<Rightarrow> rat option" where
  "decimal_literal s =
     (let ip = takeWhile is_digit s; r1 = dropWhile is_digit s;
          dot = (r1 \<noteq> [] \<and> hd r1 = CHR ''.'');
          fp = (if dot then takeWhile is_digit (tl r1) else []);
          r2 = (if dot then dropWhile is_digit (tl r1) else r1)
      in if ip = [] \<and> fp = [] then None
         else (case (digits_value 10 0 ip, digits_value 10 0 fp, exponent_literal r2) of
             (Some a, Some b, Some e) \<Rightarrow> Some ((of_nat a + of_nat b / 10 ^ length fp) * e)
           | _ \<Rightarrow> None))"

definition js_number :: "string \<Rightarrow> rat option" where
  "js_number s =
     (let t = js_trim s;
          v = (if t = [] then Some 0
               else if starts_with t ''0x'' \<or> starts_with t ''0X'' then radix_literal 16 (drop 2 t)
               else if starts_with t ''0o'' \<or> starts_with t ''0O'' then radix_literal 8 (drop 2 t)
               else if starts_with t ''0b'' \<or> starts_with t ''0B'' then radix_literal 2 (drop 2 t)
               else if hd t = CHR ''-'' then map_option uminus (decimal_literal (tl t))
               else if hd t = CHR ''+'' then decimal_literal (tl t)
               else decimal_literal t)
      in case v of None \<Rightarrow> None | Some r \<Rightarrow> if \<bar>r\<bar> < 2 ^ 1024 then Some r else None)"

text \<open>\<open>Number(v)\<close> on any JSON value; \<open>None\<close> is NaN or an infinity.\<close>

fun js_to_number :: "json \<Rightarrow> rat option" where
  "js_to_number JNull = Some 0"
| "js_to_number (JBool b) = Some (if b then 1 else 0)"
| "js_to_number (JNum r) = Some r"
| "js_to_number (JStr s) = js_number s"
| "js_to_number (JIso t) = None"
| "js_to_number (JArr []) = Some 0"
| "js_to_number (JArr [v]) = (case v of JBool _ \<Rightarrow> None | _ \<Rightarrow> js_to_number v)"
| "js_to_number (JArr (v # w # vs)) = None"
| "js_to_number (JObj kvs) = None"

text \<open>\<open>Number(raw.version) !== 1\<close>: the version check every versioned file starts with.\<close>

definition version_is_1 :: "json \<Rightarrow> bool" where
  "version_is_1 j = (case jget j ''version'' of None \<Rightarrow> False | Some v \<Rightarrow> js_to_number v = Some 1)"

fun requestedWriteBytesIn :: "json \<Rightarrow> string \<Rightarrow> rat"
  and writeBytesList :: "json list \<Rightarrow> string \<Rightarrow> rat"
  and writeBytesFields :: "(string \<times> json) list \<Rightarrow> rat" where
  "requestedWriteBytesIn (JStr s) key =
     (if WRITE_PAYLOAD_KEY (normalizeCostKey key) then utf8_length s else 0)"
| "requestedWriteBytesIn (JIso t) key =
     (if WRITE_PAYLOAD_KEY (normalizeCostKey key) then 24 else 0)"
| "requestedWriteBytesIn (JArr vs) key = writeBytesList vs key"
| "requestedWriteBytesIn (JObj kvs) key = writeBytesFields kvs"
| "requestedWriteBytesIn JNull key = 0"
| "requestedWriteBytesIn (JBool b) key = 0"
| "requestedWriteBytesIn (JNum r) key = 0"
| "writeBytesList [] key = 0"
| "writeBytesList (v # vs) key = requestedWriteBytesIn v key + writeBytesList vs key"
| "writeBytesFields [] = 0"
| "writeBytesFields ((k, v) # kvs) = requestedWriteBytesIn v k + writeBytesFields kvs"

definition timeout_ms :: "string \<Rightarrow> rat option \<Rightarrow> rat" where
  "timeout_ms key v =
     (if \<not> TIMEOUT_KEY (normalizeCostKey key) then 0
      else (case v of None \<Rightarrow> 0 | Some ms \<Rightarrow> if ms > 0 then of_int \<lfloor>ms\<rfloor> else 0))"

fun requestedProcessMsIn :: "json \<Rightarrow> string \<Rightarrow> rat"
  and processMsList :: "json list \<Rightarrow> string \<Rightarrow> rat"
  and processMsFields :: "(string \<times> json) list \<Rightarrow> rat" where
  "requestedProcessMsIn (JNum r) key = timeout_ms key (Some r)"
| "requestedProcessMsIn (JStr s) key = timeout_ms key (js_number s)"
| "requestedProcessMsIn (JIso t) key = 0"
| "requestedProcessMsIn (JArr vs) key = processMsList vs key"
| "requestedProcessMsIn (JObj kvs) key = processMsFields kvs"
| "requestedProcessMsIn JNull key = 0"
| "requestedProcessMsIn (JBool b) key = 0"
| "processMsList [] key = 0"
| "processMsList (v # vs) key = max (requestedProcessMsIn v key) (processMsList vs key)"
| "processMsFields [] = 0"
| "processMsFields ((k, v) # kvs) = max (requestedProcessMsIn v k) (processMsFields kvs)"

definition costFrom :: "bool \<Rightarrow> operation_risk \<Rightarrow> json \<Rightarrow> authority_cost" where
  "costFrom mutation risk args =
     \<lparr>ac_operations = 1,
      ac_mutations = (if mutation then 1 else 0),
      ac_shellCalls = (if risk = RiskShell then 1 else 0),
      ac_requestedWriteBytes = (if mutation then requestedWriteBytesIn args [] else 0),
      ac_requestedProcessMs = (if risk = RiskShell then requestedProcessMsIn args [] else 0)\<rparr>"

text \<open>
  A parsed repository inspection (\<open>repo-inspection.ts\<close>). The schema is checked by the third-party
  package zod, so the parser is a parameter \<open>parse\<close> of the cost functions; \<open>None\<close> is a refused
  document.
\<close>

datatype inspection_op = InspTree | InspSearch nat nat | InspRead

definition inspectionOperationCost ::
  "(json \<Rightarrow> inspection_op list option) \<Rightarrow> json \<Rightarrow> op_error + rat" where
  "inspectionOperationCost parse v = (case parse v of
      None \<Rightarrow> Inl InvalidInspection
    | Some ops \<Rightarrow> Inr (1 + sum_list (map (\<lambda>op. case op of
          InspSearch paths patterns \<Rightarrow> 2 * of_nat paths * of_nat patterns
        | _ \<Rightarrow> 1) ops)))"

record authority_cost_context =
  acx_plannedTarget :: "string option"
  acx_plannedArgs :: "json option"

definition no_context :: authority_cost_context where
  "no_context = \<lparr>acx_plannedTarget = None, acx_plannedArgs = None\<rparr>"

function requestedAuthorityCost ::
  "(json \<Rightarrow> inspection_op list option) \<Rightarrow> string \<Rightarrow> json \<Rightarrow> authority_cost_context
     \<Rightarrow> op_error + authority_cost" where
  "requestedAuthorityCost parse op args cx = (case requireOperation op of
      Inl e \<Rightarrow> Inl e
    | Inr d \<Rightarrow>
        if od_riskInheritsFromTarget d then
          (case given (acx_plannedTarget cx) of
             None \<Rightarrow> Inr (costFrom (od_mutation d) (od_risk d) args)
           | Some t \<Rightarrow> requestedAuthorityCost parse t
               (case acx_plannedArgs cx of None \<Rightarrow> args | Some a \<Rightarrow> a) no_context)
        else (case (if od_workspaceSafeResolvedPerTool d then given (string_arg args ''tool'') else None) of
            Some t \<Rightarrow> (case requireCompatibilityTool t of
                Inl e \<Rightarrow> Inl e
              | Inr td \<Rightarrow> Inr (costFrom (ct_mutation td) (ct_risk td) args))
          | None \<Rightarrow>
              (let cost = costFrom (od_mutation d) (od_risk d) args
               in if op = ''dex.repoInfo'' then
                    (case jget args ''inspection'' of
                       None \<Rightarrow> Inr cost
                     | Some v \<Rightarrow> (case inspectionOperationCost parse v of
                           Inl e \<Rightarrow> Inl e
                         | Inr n \<Rightarrow> Inr (cost\<lparr>ac_operations := n\<rparr>)))
                  else Inr cost)))"
  by pat_completeness auto
termination
  by (relation "measure (\<lambda>(parse, op, args, cx). if given (acx_plannedTarget cx) = None then 0 else 1)")
    (auto simp: given_def no_context_def)

declare requestedAuthorityCost.simps [simp del]

definition addAuthorityCost :: "authority_cost \<Rightarrow> authority_cost \<Rightarrow> authority_cost" where
  "addAuthorityCost a b =
     \<lparr>ac_operations = ac_operations a + ac_operations b,
      ac_mutations = ac_mutations a + ac_mutations b,
      ac_shellCalls = ac_shellCalls a + ac_shellCalls b,
      ac_requestedWriteBytes = ac_requestedWriteBytes a + ac_requestedWriteBytes b,
      ac_requestedProcessMs = ac_requestedProcessMs a + ac_requestedProcessMs b\<rparr>"

definition ZERO_AUTHORITY_COST :: authority_cost where
  "ZERO_AUTHORITY_COST =
     \<lparr>ac_operations = 0, ac_mutations = 0, ac_shellCalls = 0, ac_requestedWriteBytes = 0,
      ac_requestedProcessMs = 0\<rparr>"

section \<open>Facts about the catalogue\<close>

lemma distinct_operations: "distinct (map od_operation DEX_OPERATIONS)"
  by code_simp

lemma distinct_tools: "distinct (map ct_tool COMPATIBILITY_TOOLS)"
  by code_simp

lemma describeOperation_SomeD:
  "describeOperation op = Some d \<Longrightarrow> d \<in> set DEX_OPERATIONS \<and> od_operation d = op"
  by (auto simp: describeOperation_def dest: find_SomeD)

lemma describeCompatibilityTool_SomeD:
  "describeCompatibilityTool t = Some d \<Longrightarrow> d \<in> set COMPATIBILITY_TOOLS \<and> ct_tool d = t"
  by (auto simp: describeCompatibilityTool_def dest: find_SomeD)

lemma requireOperation_InrD: "requireOperation op = Inr d \<Longrightarrow> d \<in> set DEX_OPERATIONS \<and> od_operation d = op"
  by (auto simp: requireOperation_def split: option.splits dest: describeOperation_SomeD)

lemma requireCompatibilityTool_InrD:
  "requireCompatibilityTool t = Inr d \<Longrightarrow> d \<in> set COMPATIBILITY_TOOLS \<and> ct_tool d = t"
  by (auto simp: requireCompatibilityTool_def split: option.splits
      dest: describeCompatibilityTool_SomeD)

lemma only_commitPlan_inherits:
  assumes "d \<in> set DEX_OPERATIONS"
  shows "od_riskInheritsFromTarget d \<longleftrightarrow> od_operation d = ''dex.commitPlan''"
proof -
  have "list_all (\<lambda>d. od_riskInheritsFromTarget d \<longleftrightarrow> od_operation d = ''dex.commitPlan'') DEX_OPERATIONS"
    by code_simp
  with assms show ?thesis by (simp add: list_all_iff)
qed

lemma only_dc_call_per_tool:
  assumes "d \<in> set DEX_OPERATIONS"
  shows "od_workspaceSafeResolvedPerTool d \<longleftrightarrow> od_operation d = ''dc.call''"
proof -
  have "list_all (\<lambda>d. od_workspaceSafeResolvedPerTool d \<longleftrightarrow> od_operation d = ''dc.call'') DEX_OPERATIONS"
    by code_simp
  with assms show ?thesis by (simp add: list_all_iff)
qed

lemma workspace_safe_operation_risk:
  assumes "d \<in> set DEX_OPERATIONS" and "od_workspaceSafeAllowed d"
  shows "od_risk d = RiskInspect \<or> od_risk d = RiskTypedMutate"
proof -
  have "list_all (\<lambda>d. od_workspaceSafeAllowed d \<longrightarrow> od_risk d = RiskInspect \<or> od_risk d = RiskTypedMutate)
     DEX_OPERATIONS" by code_simp
  with assms show ?thesis by (simp add: list_all_iff)
qed

lemma workspace_safe_tool_risk:
  assumes "d \<in> set COMPATIBILITY_TOOLS" and "ct_workspaceSafeAllowed d"
  shows "(ct_risk d = RiskInspect \<or> ct_risk d = RiskTypedMutate) \<and> ct_capability d \<noteq> CapProcessShell
     \<and> \<not> ct_remoteBlocked d"
proof -
  have "list_all (\<lambda>d. ct_workspaceSafeAllowed d \<longrightarrow>
      (ct_risk d = RiskInspect \<or> ct_risk d = RiskTypedMutate) \<and> ct_capability d \<noteq> CapProcessShell
      \<and> \<not> ct_remoteBlocked d) COMPATIBILITY_TOOLS" by code_simp
  with assms show ?thesis by (simp add: list_all_iff)
qed

lemma readOnlyInspectOperations_eq:
  "readOnlyInspectOperations = [''dex.fingerprint'', ''dex.trustReport'', ''dex.repoInfo'',
     ''dex.adbDevices'', ''dex.file.read'', ''dex.result.read'', ''dex.receipts.list'']"
  by code_simp

lemma readOnlyDelegatedOperations_eq:
  "readOnlyDelegatedOperations = [''dex.process.run'', ''dc.call'']"
  by code_simp

section \<open>Risk is a linear order and its maximum is what composition yields\<close>

lemma riskRank_simps [simp]:
  "riskRank RiskInspect = 0" "riskRank RiskTypedMutate = 1" "riskRank RiskNetwork = 2"
  "riskRank RiskShell = 3" "riskRank RiskPrivileged = 4" "riskRank RiskDestructive = 5"
  by (simp_all add: riskRank_def OPERATION_RISK_ORDER_def)

lemma riskRank_inj: "riskRank a = riskRank b \<longleftrightarrow> a = b"
  by (cases a; cases b) simp_all

instantiation operation_risk :: linorder
begin

definition less_eq_operation_risk :: "operation_risk \<Rightarrow> operation_risk \<Rightarrow> bool" where
  "a \<le> b \<longleftrightarrow> riskRank a \<le> riskRank b"

definition less_operation_risk :: "operation_risk \<Rightarrow> operation_risk \<Rightarrow> bool" where
  "a < b \<longleftrightarrow> riskRank a < riskRank b"

instance
  by standard (auto simp: less_eq_operation_risk_def less_operation_risk_def riskRank_inj
      simp flip: riskRank_inj)

end

lemma highestRisk_foldl_max:
  "foldl (\<lambda>cur nxt. if riskRank nxt > riskRank cur then nxt else cur) r rs = foldl max r rs"
proof (rule foldl_cong [OF refl refl])
  fix a b :: operation_risk
  show "(if riskRank b > riskRank a then b else a) = max a b"
    by (auto simp: max_def less_eq_operation_risk_def not_less riskRank_inj order.antisym
        dest: order.antisym)
qed

lemma foldl_max_Max:
  fixes x :: "'a::linorder"
  shows "foldl max x xs = Max (insert x (set xs))"
proof (induction xs arbitrary: x)
  case (Cons y ys)
  have "Max (insert (max x y) (set ys)) = Max (insert x (insert y (set ys)))"
  proof (cases "ys = []")
    case False
    then show ?thesis by (simp add: max.assoc)
  qed simp
  with Cons show ?case by simp
qed simp

lemma highestRisk_Max: "rs \<noteq> [] \<Longrightarrow> highestRisk rs = Inr (Max (set rs))"
  by (cases rs) (simp_all add: highestRisk_def highestRisk_foldl_max foldl_max_Max)

section \<open>Payloads cannot be hidden by nesting\<close>

text \<open>\<open>occurs key v j\<close>: the value \<open>v\<close> sits in \<open>j\<close>, at any depth, under the member name \<open>key\<close>.\<close>

inductive occurs_under :: "string \<Rightarrow> json \<Rightarrow> string \<Rightarrow> json \<Rightarrow> bool" for key v where
  here: "occurs_under key v key v"
| in_array: "occurs_under key v k w \<Longrightarrow> w \<in> set ws \<Longrightarrow> occurs_under key v k (JArr ws)"
| in_object: "occurs_under key v k' w \<Longrightarrow> (k', w) \<in> set kvs \<Longrightarrow> occurs_under key v k (JObj kvs)"

inductive_simps occurs_under_array [simp]: "occurs_under key v k (JArr ws)"
inductive_simps occurs_under_object [simp]: "occurs_under key v k (JObj kvs)"

lemma utf8_length_nonneg [simp]: "0 \<le> utf8_length s"
  unfolding utf8_length_def by (rule sum_list_nonneg) auto

lemma requestedWriteBytesIn_nonneg [simp]:
  "0 \<le> requestedWriteBytesIn j key" "0 \<le> writeBytesList vs key" "0 \<le> writeBytesFields kvs"
  by (induction j key and vs key and kvs
      rule: requestedWriteBytesIn_writeBytesList_writeBytesFields.induct) simp_all

lemma timeout_ms_nonneg [simp]: "0 \<le> timeout_ms k v"
  by (auto simp: timeout_ms_def split: option.splits)

lemma requestedProcessMsIn_nonneg [simp]:
  "0 \<le> requestedProcessMsIn j key" "0 \<le> processMsList vs key" "0 \<le> processMsFields kvs"
  by (induction j key and vs key and kvs
      rule: requestedProcessMsIn_processMsList_processMsFields.induct)
    (simp_all add: le_max_iff_disj)

lemma writeBytesList_member: "v \<in> set vs \<Longrightarrow> requestedWriteBytesIn v key \<le> writeBytesList vs key"
proof (induction vs)
  case (Cons w ws)
  then show ?case
    by (auto intro: add_increasing add_increasing2)
qed simp

lemma writeBytesFields_member: "(k, v) \<in> set kvs \<Longrightarrow> requestedWriteBytesIn v k \<le> writeBytesFields kvs"
proof (induction kvs)
  case (Cons kv kvs)
  then show ?case
    by (cases kv) (auto intro: add_increasing add_increasing2)
qed simp

lemma processMsList_member: "v \<in> set vs \<Longrightarrow> requestedProcessMsIn v key \<le> processMsList vs key"
  by (induction vs) (auto simp: le_max_iff_disj)

lemma processMsFields_member: "(k, v) \<in> set kvs \<Longrightarrow> requestedProcessMsIn v k \<le> processMsFields kvs"
  by (induction kvs) (auto simp: le_max_iff_disj)

lemma occurs_under_writeBytes:
  "occurs_under key v k j \<Longrightarrow> requestedWriteBytesIn v key \<le> requestedWriteBytesIn j k"
proof (induction rule: occurs_under.induct)
  case (in_array k w ws)
  then show ?case using writeBytesList_member [of w ws k] by simp
next
  case (in_object k' w kvs k)
  then show ?case using writeBytesFields_member [of k' w kvs] by simp
qed simp

lemma occurs_under_processMs:
  "occurs_under key v k j \<Longrightarrow> requestedProcessMsIn v key \<le> requestedProcessMsIn j k"
proof (induction rule: occurs_under.induct)
  case (in_array k w ws)
  then show ?case using processMsList_member [of w ws k] by simp
next
  case (in_object k' w kvs k)
  then show ?case using processMsFields_member [of k' w kvs] by simp
qed simp

definition cost_nonneg :: "authority_cost \<Rightarrow> bool" where
  "cost_nonneg c = (0 \<le> ac_operations c \<and> 0 \<le> ac_mutations c \<and> 0 \<le> ac_shellCalls c
     \<and> 0 \<le> ac_requestedWriteBytes c \<and> 0 \<le> ac_requestedProcessMs c)"

lemma costFrom_nonneg [simp]: "cost_nonneg (costFrom m r args)"
  by (simp add: cost_nonneg_def costFrom_def)

lemma inspectionOperationCost_pos: "inspectionOperationCost parse v = Inr n \<Longrightarrow> 1 \<le> n"
  by (auto simp: inspectionOperationCost_def split: option.splits inspection_op.splits
      intro!: sum_list_nonneg)

lemma requestedAuthorityCost_nonneg:
  "requestedAuthorityCost parse op args cx = Inr c \<Longrightarrow> cost_nonneg c"
proof (induction parse op args cx rule: requestedAuthorityCost.induct)
  case (1 parse op args cx)
  from "1.prems" obtain d where d: "requireOperation op = Inr d"
    by (cases "requireOperation op") (simp_all add: requestedAuthorityCost.simps [of parse op args cx])
  note eq = "1.prems" [unfolded requestedAuthorityCost.simps [of parse op args cx] d sum.case Let_def]
  show ?case
  proof (cases "od_riskInheritsFromTarget d")
    case True
    with eq d "1.IH" show ?thesis by (cases "given (acx_plannedTarget cx)") auto
  next
    case False
    have upd: "cost_nonneg (costFrom m r args\<lparr>ac_operations := n\<rparr>)"
      if "inspectionOperationCost parse v = Inr n" for m r n v
      using inspectionOperationCost_pos [OF that] by (simp add: cost_nonneg_def costFrom_def)
    from False eq show ?thesis
      by (auto split: sum.splits option.splits if_splits dest: upd)
  qed
qed

end
