(* ===== verification/Reach_Budget.thy ===== *)
theory Reach_Budget
  imports Reach_Operations
begin

text \<open>
  Owner-configured execution budgets: \<open>src/src/shared/budget-policy.ts\<close> (the rules and their file)
  and \<open>src/src/shared/budget-usage.ts\<close> (the rolling usage ledger and its file). The store of one
  node is the pair of JSON files, read and written under one lock, so each operation is one
  function on that pair. Whether a process is alive is the parameter \<open>alive\<close>; the current time,
  the fresh reservation id and the process id are arguments.
\<close>

section \<open>Rules and policy\<close>

record budget_rule =
  br_id :: string
  br_windowMs :: rat
  br_maxOperations :: "rat option"
  br_maxMutations :: "rat option"
  br_maxShellCalls :: "rat option"
  br_maxRequestedWriteBytes :: "rat option"
  br_maxRequestedProcessMs :: "rat option"
  br_maxConcurrent :: "rat option"

record budget_policy =
  bp_revision :: int
  bp_shared :: "budget_rule option"
  bp_clients :: "client_kind \<Rightarrow> budget_rule option"
  bp_updatedAt :: timestamp

datatype budget_scope = ScopeShared | ScopeClient client_kind

datatype budget_error =
    WindowNotPositive
  | NoCeiling
  | NoSuchBudget string
  | BudgetUsageCorrupt

record budget_policy_inspection =
  bpi_exists :: bool
  bpi_valid :: bool
  bpi_unrestricted :: bool
  bpi_policy :: budget_policy

definition emptyBudgetPolicy :: "int \<Rightarrow> budget_policy" where
  "emptyBudgetPolicy now =
     \<lparr>bp_revision = 0, bp_shared = None, bp_clients = (\<lambda>_. None), bp_updatedAt = Iso now\<rparr>"

definition budgetRuleRestricts :: "budget_rule option \<Rightarrow> bool" where
  "budgetRuleRestricts r = (case r of
      None \<Rightarrow> False
    | Some rule \<Rightarrow> list_ex (\<lambda>v. v \<noteq> None)
        [br_maxOperations rule, br_maxMutations rule, br_maxShellCalls rule,
         br_maxRequestedWriteBytes rule, br_maxRequestedProcessMs rule, br_maxConcurrent rule])"

definition policyRestricts :: "budget_policy \<Rightarrow> bool" where
  "policyRestricts p = (budgetRuleRestricts (bp_shared p) \<or>
     list_ex (\<lambda>k. budgetRuleRestricts (bp_clients p k)) CLIENT_KINDS)"

text \<open>\<open>Some None\<close> is null, \<open>Some (Some n)\<close> a ceiling, \<open>None\<close> the undefined that marks a bad value.\<close>

definition nonNegativeIntOrNull :: "json option \<Rightarrow> rat option option" where
  "nonNegativeIntOrNull v = (case v of
      None \<Rightarrow> Some None
    | Some JNull \<Rightarrow> Some None
    | Some (JNum r) \<Rightarrow> if is_integer r \<and> 0 \<le> r then Some (Some r) else None
    | Some _ \<Rightarrow> None)"

definition decodeRule :: "json option \<Rightarrow> string \<Rightarrow> budget_rule option" where
  "decodeRule v fallbackId = (case v of
      None \<Rightarrow> None
    | Some raw \<Rightarrow>
        if \<not> is_object raw then None
        else (case num_field raw ''windowMs'' of
            Some w \<Rightarrow>
              if \<not> (is_integer w \<and> 0 < w) then None
              else (case (nonNegativeIntOrNull (jget raw ''maxOperations''),
                          nonNegativeIntOrNull (jget raw ''maxMutations''),
                          nonNegativeIntOrNull (jget raw ''maxShellCalls''),
                          nonNegativeIntOrNull (jget raw ''maxRequestedWriteBytes''),
                          nonNegativeIntOrNull (jget raw ''maxRequestedProcessMs''),
                          nonNegativeIntOrNull (jget raw ''maxConcurrent'')) of
                  (Some a, Some b, Some c, Some d, Some e, Some f) \<Rightarrow>
                    Some \<lparr>br_id = (case str_field raw ''id'' of
                              Some i \<Rightarrow> if i = [] then fallbackId else i
                            | None \<Rightarrow> fallbackId),
                          br_windowMs = w, br_maxOperations = a, br_maxMutations = b,
                          br_maxShellCalls = c, br_maxRequestedWriteBytes = d,
                          br_maxRequestedProcessMs = e, br_maxConcurrent = f\<rparr>
                | _ \<Rightarrow> None)
          | None \<Rightarrow> None))"

text \<open>The per-client rules: an entry that is present but does not decode refuses the whole file.\<close>

fun decodeClientRules :: "json \<Rightarrow> client_kind list \<Rightarrow> (client_kind \<Rightarrow> budget_rule option) option" where
  "decodeClientRules raw [] = Some (\<lambda>_. None)"
| "decodeClientRules raw (k # ks) =
     (let v = jget raw (client_string k); rule = decodeRule v (client_string k)
      in if v \<noteq> None \<and> rule = None then None
         else (case decodeClientRules raw ks of
             None \<Rightarrow> None
           | Some m \<Rightarrow> Some (m(k := rule))))"

definition nonneg_int_or_0 :: "json option \<Rightarrow> int" where
  "nonneg_int_or_0 v = (case v of
      None \<Rightarrow> 0
    | Some j \<Rightarrow> (case json_int j of None \<Rightarrow> 0 | Some n \<Rightarrow> if 0 \<le> n then n else 0))"

definition stamp_or_epoch :: "json option \<Rightarrow> timestamp" where
  "stamp_or_epoch v = (case v of
      None \<Rightarrow> Iso 0
    | Some j \<Rightarrow> (case json_stamp j of None \<Rightarrow> Iso 0 | Some t \<Rightarrow> t))"

definition decodePolicy :: "json \<Rightarrow> budget_policy option" where
  "decodePolicy parsed =
     (if \<not> is_object parsed \<or> \<not> version_is_1 parsed then None
      else (case (case jget parsed ''clients'' of
                    Some cl \<Rightarrow> if is_object cl then decodeClientRules cl CLIENT_KINDS else Some (\<lambda>_. None)
                  | None \<Rightarrow> Some (\<lambda>_. None)) of
          None \<Rightarrow> None
        | Some clients \<Rightarrow>
            (let raw_shared = jget parsed ''shared'';
                 sharedPresent = (raw_shared \<noteq> None \<and> raw_shared \<noteq> Some JNull);
                 shared = (if sharedPresent then decodeRule raw_shared ''shared'' else None)
             in if sharedPresent \<and> shared = None then None
                else Some \<lparr>bp_revision = nonneg_int_or_0 (jget parsed ''revision''),
                           bp_shared = shared, bp_clients = clients,
                           bp_updatedAt = stamp_or_epoch (jget parsed ''updatedAt'')\<rparr>)))"

definition encodeRule :: "budget_rule \<Rightarrow> json" where
  "encodeRule r = JObj
     [(''id'', JStr (br_id r)), (''windowMs'', JNum (br_windowMs r)),
      (''maxOperations'', json_opt JNum (br_maxOperations r)),
      (''maxMutations'', json_opt JNum (br_maxMutations r)),
      (''maxShellCalls'', json_opt JNum (br_maxShellCalls r)),
      (''maxRequestedWriteBytes'', json_opt JNum (br_maxRequestedWriteBytes r)),
      (''maxRequestedProcessMs'', json_opt JNum (br_maxRequestedProcessMs r)),
      (''maxConcurrent'', json_opt JNum (br_maxConcurrent r))]"

definition encodeClients :: "(client_kind \<Rightarrow> budget_rule option) \<Rightarrow> json" where
  "encodeClients m = JObj (concat (map (\<lambda>k. case m k of
      None \<Rightarrow> [] | Some r \<Rightarrow> [(client_string k, encodeRule r)]) CLIENT_KINDS))"

definition encodePolicy :: "budget_policy \<Rightarrow> json" where
  "encodePolicy p = JObj
     [(''version'', JNum 1), (''revision'', JNum (of_int (bp_revision p))),
      (''shared'', json_opt encodeRule (bp_shared p)),
      (''clients'', encodeClients (bp_clients p)),
      (''updatedAt'', stamp_json (bp_updatedAt p))]"

definition readPolicyUnlocked :: "json stored \<Rightarrow> int \<Rightarrow> budget_policy_inspection" where
  "readPolicyUnlocked f now = (case f of
      Contents parsed \<Rightarrow> (case decodePolicy parsed of
          None \<Rightarrow> \<lparr>bpi_exists = True, bpi_valid = False, bpi_unrestricted = True,
                   bpi_policy = emptyBudgetPolicy now\<rparr>
        | Some p \<Rightarrow> \<lparr>bpi_exists = True, bpi_valid = True, bpi_unrestricted = \<not> policyRestricts p,
                     bpi_policy = p\<rparr>)
    | Absent \<Rightarrow> \<lparr>bpi_exists = False, bpi_valid = True, bpi_unrestricted = True,
                 bpi_policy = emptyBudgetPolicy now\<rparr>
    | Unreadable \<Rightarrow> \<lparr>bpi_exists = True, bpi_valid = False, bpi_unrestricted = True,
                     bpi_policy = emptyBudgetPolicy now\<rparr>)"

definition rulesForClient :: "budget_policy \<Rightarrow> client_kind \<Rightarrow> budget_rule list" where
  "rulesForClient p c =
     (case bp_shared p of Some r \<Rightarrow> if budgetRuleRestricts (Some r) then [r] else [] | None \<Rightarrow> []) @
     (case bp_clients p c of Some r \<Rightarrow> if budgetRuleRestricts (Some r) then [r] else [] | None \<Rightarrow> [])"

definition makeBudgetRule ::
  "string \<Rightarrow> rat \<Rightarrow> rat option \<Rightarrow> rat option \<Rightarrow> rat option \<Rightarrow> rat option \<Rightarrow> rat option \<Rightarrow> rat option
     \<Rightarrow> budget_error + budget_rule" where
  "makeBudgetRule i w ops muts shells bytes ms conc =
     (if \<not> is_integer w \<or> w \<le> 0 then Inl WindowNotPositive
      else (let rule = \<lparr>br_id = i, br_windowMs = w, br_maxOperations = ops, br_maxMutations = muts,
                        br_maxShellCalls = shells, br_maxRequestedWriteBytes = bytes,
                        br_maxRequestedProcessMs = ms, br_maxConcurrent = conc\<rparr>
            in if \<not> budgetRuleRestricts (Some rule) then Inl NoCeiling else Inr rule))"

section \<open>The store of a node\<close>

record budget_store =
  bs_policy :: "json stored"
  bs_usage :: "json stored"

definition writePolicyUnlocked :: "budget_policy \<Rightarrow> int \<Rightarrow> int \<Rightarrow> budget_store \<Rightarrow> budget_policy \<times> budget_store" where
  "writePolicyUnlocked p revision now st =
     (let nxt = p\<lparr>bp_revision := revision, bp_updatedAt := Iso now\<rparr>
      in (nxt, st\<lparr>bs_policy := Contents (encodePolicy nxt)\<rparr>))"

definition updateBudgetPolicy ::
  "(budget_policy \<Rightarrow> budget_error + budget_policy) \<Rightarrow> int \<Rightarrow> budget_store
     \<Rightarrow> (budget_error + budget_policy) \<times> budget_store" where
  "updateBudgetPolicy mutate now st =
     (let current = bpi_policy (readPolicyUnlocked (bs_policy st) now)
      in case mutate current of
           Inl e \<Rightarrow> (Inl e, st)
         | Inr proposed \<Rightarrow>
             (let (nxt, st') = writePolicyUnlocked proposed (bp_revision current + 1) now st
              in (Inr nxt, st')))"

definition upsertBudgetRule ::
  "budget_scope \<Rightarrow> budget_rule \<Rightarrow> int \<Rightarrow> budget_store \<Rightarrow> (budget_error + budget_policy) \<times> budget_store" where
  "upsertBudgetRule scope rule = updateBudgetPolicy (\<lambda>current. Inr (case scope of
      ScopeShared \<Rightarrow> current\<lparr>bp_shared := Some (rule\<lparr>br_id := ''shared''\<rparr>)\<rparr>
    | ScopeClient k \<Rightarrow> current\<lparr>bp_clients := (bp_clients current)
        (k := Some (rule\<lparr>br_id := client_string k\<rparr>))\<rparr>))"

definition clearBudgetRule :: "string \<Rightarrow> int \<Rightarrow> budget_store \<Rightarrow> (budget_error + budget_policy) \<times> budget_store" where
  "clearBudgetRule i = updateBudgetPolicy (\<lambda>current.
     if i = ''shared'' \<or> map_option br_id (bp_shared current) = Some i
     then Inr (current\<lparr>bp_shared := None\<rparr>)
     else (case List.find (\<lambda>k. client_string k = i \<or> map_option br_id (bp_clients current k) = Some i) CLIENT_KINDS of
         Some k \<Rightarrow> Inr (current\<lparr>bp_clients := (bp_clients current)(k := None)\<rparr>)
       | None \<Rightarrow> Inl (NoSuchBudget i)))"

definition listBudgetRules :: "budget_policy \<Rightarrow> budget_rule list" where
  "listBudgetRules p =
     (case bp_shared p of Some r \<Rightarrow> [r] | None \<Rightarrow> []) @
     concat (map (\<lambda>k. case bp_clients p k of Some r \<Rightarrow> [r] | None \<Rightarrow> []) CLIENT_KINDS)"

section \<open>Usage\<close>

record budget_sample =
  sm_at :: rat
  sm_client :: client_kind
  sm_operations :: rat
  sm_mutations :: rat
  sm_shellCalls :: rat
  sm_requestedWriteBytes :: rat
  sm_requestedProcessMs :: rat

record budget_inflight =
  fl_id :: string
  fl_client :: client_kind
  fl_at :: rat
  fl_pid :: "int option"

record budget_usage =
  us_samples :: "budget_sample list"
  us_inflight :: "budget_inflight list"

definition emptyUsage :: budget_usage where
  "emptyUsage = \<lparr>us_samples = [], us_inflight = []\<rparr>"

definition json_client :: "json \<Rightarrow> client_kind option" where
  "json_client v = (case json_string v of Some s \<Rightarrow> as_client_kind s | None \<Rightarrow> None)"

definition nonneg_num :: "json \<Rightarrow> rat option" where
  "nonneg_num v = (case json_num v of Some r \<Rightarrow> if 0 \<le> r then Some r else None | None \<Rightarrow> None)"

definition decodeSample :: "json \<Rightarrow> budget_sample option" where
  "decodeSample j =
     (if \<not> is_object j then None
      else (case (num_field j ''at'', field json_client j ''client'', field nonneg_num j ''operations'',
                  field nonneg_num j ''mutations'', field nonneg_num j ''shellCalls'',
                  field nonneg_num j ''requestedWriteBytes'', field nonneg_num j ''requestedProcessMs'') of
          (Some t, Some c, Some a, Some b, Some d, Some e, Some f) \<Rightarrow>
            Some \<lparr>sm_at = t, sm_client = c, sm_operations = a, sm_mutations = b, sm_shellCalls = d,
                  sm_requestedWriteBytes = e, sm_requestedProcessMs = f\<rparr>
        | _ \<Rightarrow> None))"

definition decodeInflight :: "json \<Rightarrow> budget_inflight option" where
  "decodeInflight j =
     (if \<not> is_object j then None
      else (case (str_field j ''id'', num_field j ''at'', field json_client j ''client'') of
          (Some i, Some t, Some c) \<Rightarrow>
            if i = [] then None
            else (case jget j ''pid'' of
                None \<Rightarrow> Some \<lparr>fl_id = i, fl_client = c, fl_at = t, fl_pid = None\<rparr>
              | Some v \<Rightarrow> (case json_int v of
                    Some p \<Rightarrow> if 0 < p then Some \<lparr>fl_id = i, fl_client = c, fl_at = t, fl_pid = Some p\<rparr> else None
                  | None \<Rightarrow> None))
        | _ \<Rightarrow> None))"

definition decodeUsage :: "json \<Rightarrow> budget_usage option" where
  "decodeUsage parsed =
     (if \<not> is_object parsed \<or> \<not> version_is_1 parsed then None
      else (case (arr_field parsed ''samples'', arr_field parsed ''inflight'') of
          (Some ss, Some fs) \<Rightarrow>
            (case decode_all decodeSample ss of
               None \<Rightarrow> None
             | Some samples \<Rightarrow> (case decode_all decodeInflight fs of
                   None \<Rightarrow> None
                 | Some inflight \<Rightarrow> Some \<lparr>us_samples = samples, us_inflight = inflight\<rparr>))
        | _ \<Rightarrow> None))"

definition encodeSample :: "budget_sample \<Rightarrow> json" where
  "encodeSample s = JObj
     [(''at'', JNum (sm_at s)), (''client'', JStr (client_string (sm_client s))),
      (''operations'', JNum (sm_operations s)), (''mutations'', JNum (sm_mutations s)),
      (''shellCalls'', JNum (sm_shellCalls s)),
      (''requestedWriteBytes'', JNum (sm_requestedWriteBytes s)),
      (''requestedProcessMs'', JNum (sm_requestedProcessMs s))]"

definition encodeInflight :: "budget_inflight \<Rightarrow> json" where
  "encodeInflight f = JObj
     ([(''id'', JStr (fl_id f)), (''client'', JStr (client_string (fl_client f))), (''at'', JNum (fl_at f))] @
      (case fl_pid f of None \<Rightarrow> [] | Some p \<Rightarrow> [(''pid'', JNum (of_int p))]))"

definition encodeUsage :: "budget_usage \<Rightarrow> json" where
  "encodeUsage u = JObj
     [(''version'', JNum 1), (''samples'', JArr (map encodeSample (us_samples u))),
      (''inflight'', JArr (map encodeInflight (us_inflight u)))]"

text \<open>\<open>readUsageUnlocked\<close>: (usage, exists, valid).\<close>

definition readUsageUnlocked :: "json stored \<Rightarrow> budget_usage \<times> bool \<times> bool" where
  "readUsageUnlocked f = (case f of
      Contents parsed \<Rightarrow> (case decodeUsage parsed of
          None \<Rightarrow> (emptyUsage, True, False)
        | Some u \<Rightarrow> (u, True, True))
    | Absent \<Rightarrow> (emptyUsage, False, True)
    | Unreadable \<Rightarrow> (emptyUsage, True, False))"

definition INFLIGHT_STALE_MS :: rat where
  "INFLIGHT_STALE_MS = 15 * 60000"

definition inflightIsReclaimable :: "(int \<Rightarrow> bool) \<Rightarrow> budget_inflight \<Rightarrow> rat \<Rightarrow> bool" where
  "inflightIsReclaimable alive e now =
     (if now - fl_at e \<le> INFLIGHT_STALE_MS then False
      else (case fl_pid e of None \<Rightarrow> True | Some p \<Rightarrow> \<not> alive p))"

definition policyWindows :: "budget_policy \<Rightarrow> rat list" where
  "policyWindows p = map br_windowMs (listBudgetRules p)"

definition pruneUsage :: "(int \<Rightarrow> bool) \<Rightarrow> budget_usage \<Rightarrow> budget_policy \<Rightarrow> rat \<Rightarrow> budget_usage" where
  "pruneUsage alive u p now =
     (let windows = policyWindows p;
          keepMs = (if windows = [] then 0 else foldr max (tl windows) (hd windows))
      in \<lparr>us_samples = (if keepMs > 0 then filter (\<lambda>s. now - sm_at s < keepMs) (us_samples u) else []),
          us_inflight = filter (\<lambda>e. \<not> inflightIsReclaimable alive e now) (us_inflight u)\<rparr>)"

definition sumCost :: "budget_sample list \<Rightarrow> authority_cost" where
  "sumCost ss =
     \<lparr>ac_operations = sum_list (map sm_operations ss),
      ac_mutations = sum_list (map sm_mutations ss),
      ac_shellCalls = sum_list (map sm_shellCalls ss),
      ac_requestedWriteBytes = sum_list (map sm_requestedWriteBytes ss),
      ac_requestedProcessMs = sum_list (map sm_requestedProcessMs ss)\<rparr>"

datatype budget_dimension = DimOperations | DimMutations | DimShellCalls | DimWriteBytes | DimProcessMs | DimConcurrent

text \<open>A refusal: who was limited (the rule's id), in which dimension, to which ceiling.\<close>

type_synonym budget_refusal = "string \<times> budget_dimension \<times> rat"

definition wouldExceed :: "rat \<Rightarrow> rat \<Rightarrow> rat option \<Rightarrow> bool" where
  "wouldExceed used add m = (case m of None \<Rightarrow> False | Some mx \<Rightarrow> used + add > mx)"

fun first_exceeded :: "string \<Rightarrow> (budget_dimension \<times> rat \<times> rat option \<times> rat) list \<Rightarrow> budget_refusal option" where
  "first_exceeded i [] = None"
| "first_exceeded i ((dm, used, m, add) # cs) =
     (if wouldExceed used add m then Some (i, dm, the m) else first_exceeded i cs)"

definition evaluateRule ::
  "budget_rule \<Rightarrow> budget_sample list \<Rightarrow> budget_inflight list \<Rightarrow> authority_cost \<Rightarrow> client_kind \<Rightarrow> rat
     \<Rightarrow> budget_refusal option" where
  "evaluateRule rule samples inflight cost client now =
     (let scoped = (if br_id rule = ''shared'' then samples else filter (\<lambda>s. sm_client s = client) samples);
          inWindow = filter (\<lambda>s. now - sm_at s < br_windowMs rule) scoped;
          used = sumCost inWindow
      in case first_exceeded (br_id rule)
             [(DimOperations, ac_operations used, br_maxOperations rule, ac_operations cost),
              (DimMutations, ac_mutations used, br_maxMutations rule, ac_mutations cost),
              (DimShellCalls, ac_shellCalls used, br_maxShellCalls rule, ac_shellCalls cost),
              (DimWriteBytes, ac_requestedWriteBytes used, br_maxRequestedWriteBytes rule, ac_requestedWriteBytes cost),
              (DimProcessMs, ac_requestedProcessMs used, br_maxRequestedProcessMs rule, ac_requestedProcessMs cost)] of
           Some r \<Rightarrow> Some r
         | None \<Rightarrow> (case br_maxConcurrent rule of
               None \<Rightarrow> None
             | Some m \<Rightarrow>
                 (let active = (if br_id rule = ''shared'' then length inflight
                                else length (filter (\<lambda>e. fl_client e = client) inflight))
                  in if of_nat active \<ge> m then Some (br_id rule, DimConcurrent, m) else None)))"

fun first_refusal :: "('r \<Rightarrow> 'e option) \<Rightarrow> 'r list \<Rightarrow> 'e option" where
  "first_refusal f [] = None"
| "first_refusal f (r # rs) = (case f r of Some e \<Rightarrow> Some e | None \<Rightarrow> first_refusal f rs)"

datatype reserve_result =
    ReserveAllowed "string option" budget_usage
  | ReserveDenied budget_refusal budget_usage

definition sample_of :: "rat \<Rightarrow> client_kind \<Rightarrow> authority_cost \<Rightarrow> budget_sample" where
  "sample_of now client cost =
     \<lparr>sm_at = now, sm_client = client, sm_operations = ac_operations cost,
      sm_mutations = ac_mutations cost, sm_shellCalls = ac_shellCalls cost,
      sm_requestedWriteBytes = ac_requestedWriteBytes cost,
      sm_requestedProcessMs = ac_requestedProcessMs cost\<rparr>"

definition reserveBudgetUsage ::
  "(int \<Rightarrow> bool) \<Rightarrow> client_kind \<Rightarrow> authority_cost \<Rightarrow> int \<Rightarrow> string \<Rightarrow> int \<Rightarrow> budget_store
     \<Rightarrow> (budget_error + reserve_result) \<times> budget_store" where
  "reserveBudgetUsage alive client cost now uuid pid st =
     (let policy = bpi_policy (readPolicyUnlocked (bs_policy st) now)
      in if \<not> policyRestricts policy then (Inr (ReserveAllowed None emptyUsage), st)
         else (let (usage0, ex, valid) = readUsageUnlocked (bs_usage st)
               in if ex \<and> \<not> valid then (Inl BudgetUsageCorrupt, st)
                  else (let usage = pruneUsage alive usage0 policy (of_int now)
                        in case first_refusal (\<lambda>rule. evaluateRule rule (us_samples usage) (us_inflight usage)
                                  cost client (of_int now)) (rulesForClient policy client) of
                             Some reason \<Rightarrow> (Inr (ReserveDenied reason usage), st)
                           | None \<Rightarrow>
                               (let nxt = \<lparr>us_samples = us_samples usage @ [sample_of (of_int now) client cost],
                                           us_inflight = us_inflight usage @
                                             [\<lparr>fl_id = uuid, fl_client = client, fl_at = of_int now, fl_pid = Some pid\<rparr>]\<rparr>
                                in (Inr (ReserveAllowed (Some uuid) nxt), st\<lparr>bs_usage := Contents (encodeUsage nxt)\<rparr>)))))"

definition releaseBudgetConcurrency :: "string option \<Rightarrow> budget_store \<Rightarrow> budget_store" where
  "releaseBudgetConcurrency rid st = (case given rid of
      None \<Rightarrow> st
    | Some i \<Rightarrow>
        (let (u, ex, valid) = readUsageUnlocked (bs_usage st)
         in if \<not> valid then st
            else if \<not> list_ex (\<lambda>e. fl_id e = i) (us_inflight u) then st
            else st\<lparr>bs_usage := Contents (encodeUsage
                (u\<lparr>us_inflight := filter (\<lambda>e. fl_id e \<noteq> i) (us_inflight u)\<rparr>))\<rparr>))"

definition loadBudgetUsage :: "budget_store \<Rightarrow> budget_error + budget_usage" where
  "loadBudgetUsage st = (let (u, ex, valid) = readUsageUnlocked (bs_usage st)
     in if ex \<and> \<not> valid then Inl BudgetUsageCorrupt else Inr u)"

definition resetBudgetUsage :: "budget_store \<Rightarrow> budget_store" where
  "resetBudgetUsage st = st\<lparr>bs_usage := Contents (encodeUsage emptyUsage)\<rparr>"

definition usedInWindow :: "budget_usage \<Rightarrow> budget_scope \<Rightarrow> rat \<Rightarrow> rat \<Rightarrow> authority_cost" where
  "usedInWindow u scope w now = sumCost (filter (\<lambda>s. now - sm_at s < w \<and>
     (case scope of ScopeShared \<Rightarrow> True | ScopeClient k \<Rightarrow> sm_client s = k)) (us_samples u))"

section \<open>Rolling windows as an interface\<close>

text \<open>The amount charged within the window of width \<open>w\<close> that ends at \<open>now\<close>.\<close>

definition window_sum :: "('s \<Rightarrow> rat) \<Rightarrow> ('s \<Rightarrow> rat) \<Rightarrow> rat \<Rightarrow> rat \<Rightarrow> 's list \<Rightarrow> rat" where
  "window_sum tm amount w now xs = sum_list (map amount (filter (\<lambda>s. now - tm s < w) xs))"

definition capped :: "rat option \<Rightarrow> rat \<Rightarrow> bool" where
  "capped m v = (case m of None \<Rightarrow> True | Some x \<Rightarrow> v \<le> x)"

lemma window_sum_pruned:
  assumes "w \<le> keep" and "now \<le> now'"
  shows "window_sum tm amount w now' (filter (\<lambda>s. now - tm s < keep) xs) = window_sum tm amount w now' xs"
proof -
  have "filter (\<lambda>s. now' - tm s < w) (filter (\<lambda>s. now - tm s < keep) xs) = filter (\<lambda>s. now' - tm s < w) xs"
    using assms by (auto intro: filter_cong)
  then show ?thesis by (simp add: window_sum_def)
qed

text \<open>
  What a rolling ledger needs of its entries: a time and a charge that is never negative for a
  valid entry. Everything a budget promises about windows follows from that.
\<close>

locale rolling_window =
  fixes tm :: "'s \<Rightarrow> rat" and amount :: "'s \<Rightarrow> rat" and valid :: "'s \<Rightarrow> bool"
  assumes amount_nonneg: "valid s \<Longrightarrow> 0 \<le> amount s"
begin

lemma window_sum_antimono:
  assumes "\<And>s. s \<in> set xs \<Longrightarrow> valid s" and "now \<le> now'"
  shows "window_sum tm amount w now' xs \<le> window_sum tm amount w now xs"
  unfolding window_sum_def
  by (rule sum_list_filter_le) (use assms amount_nonneg in auto)

lemma window_sum_snoc_capped:
  assumes "\<And>s. s \<in> set xs \<Longrightarrow> valid s" and "valid x" and "now \<le> now'"
    and "capped m (window_sum tm amount w now xs + amount x)"
  shows "capped m (window_sum tm amount w now' (xs @ [x]))"
proof (cases m)
  case (Some mx)
  have "window_sum tm amount w now' (xs @ [x]) \<le> window_sum tm amount w now' xs + amount x"
    using amount_nonneg [OF assms(2)] by (simp add: window_sum_def)
  also have "\<dots> \<le> window_sum tm amount w now xs + amount x"
    using window_sum_antimono [OF assms(1,3)] by simp
  finally show ?thesis using assms(4) Some by (simp add: capped_def)
qed (simp add: capped_def)

end

definition sample_wf :: "budget_sample \<Rightarrow> bool" where
  "sample_wf s = (0 \<le> sm_operations s \<and> 0 \<le> sm_mutations s \<and> 0 \<le> sm_shellCalls s
     \<and> 0 \<le> sm_requestedWriteBytes s \<and> 0 \<le> sm_requestedProcessMs s)"

definition inflight_wf :: "budget_inflight \<Rightarrow> bool" where
  "inflight_wf e = (fl_id e \<noteq> [] \<and> (case fl_pid e of None \<Rightarrow> True | Some p \<Rightarrow> 0 < p))"

definition usage_wf :: "budget_usage \<Rightarrow> bool" where
  "usage_wf u = (list_all sample_wf (us_samples u) \<and> list_all inflight_wf (us_inflight u))"

interpretation ops: rolling_window sm_at sm_operations sample_wf
  by unfold_locales (simp add: sample_wf_def)

interpretation muts: rolling_window sm_at sm_mutations sample_wf
  by unfold_locales (simp add: sample_wf_def)

interpretation shells: rolling_window sm_at sm_shellCalls sample_wf
  by unfold_locales (simp add: sample_wf_def)

interpretation bytes: rolling_window sm_at sm_requestedWriteBytes sample_wf
  by unfold_locales (simp add: sample_wf_def)

interpretation millis: rolling_window sm_at sm_requestedProcessMs sample_wf
  by unfold_locales (simp add: sample_wf_def)

text \<open>The five rolling dimensions: ceiling of the rule, charge of a sample, cost of a request.\<close>

definition dimensions ::
  "((budget_rule \<Rightarrow> rat option) \<times> (budget_sample \<Rightarrow> rat) \<times> (authority_cost \<Rightarrow> rat)) list" where
  "dimensions =
     [(br_maxOperations, sm_operations, ac_operations),
      (br_maxMutations, sm_mutations, ac_mutations),
      (br_maxShellCalls, sm_shellCalls, ac_shellCalls),
      (br_maxRequestedWriteBytes, sm_requestedWriteBytes, ac_requestedWriteBytes),
      (br_maxRequestedProcessMs, sm_requestedProcessMs, ac_requestedProcessMs)]"

lemma dimensions_rolling: "(m, f, g) \<in> set dimensions \<Longrightarrow> rolling_window f sample_wf"
  by (auto simp: dimensions_def ops.rolling_window_axioms muts.rolling_window_axioms
      shells.rolling_window_axioms bytes.rolling_window_axioms millis.rolling_window_axioms)

lemma dimensions_sample_of: "(m, f, g) \<in> set dimensions \<Longrightarrow> f (sample_of now c cost) = g cost"
  by (auto simp: dimensions_def sample_of_def)

lemma sample_wf_sample_of: "cost_nonneg cost \<Longrightarrow> sample_wf (sample_of now c cost)"
  by (simp add: sample_wf_def sample_of_def cost_nonneg_def)

lemma dimensions_sumCost:
  "(m, f, g) \<in> set dimensions \<Longrightarrow> g (sumCost (filter (\<lambda>s. now - sm_at s < w) xs)) = window_sum sm_at f w now xs"
  by (auto simp: dimensions_def sumCost_def window_sum_def)

section \<open>What an accepted rule means\<close>

definition scope_of :: "budget_rule \<Rightarrow> client_kind \<Rightarrow> budget_sample list \<Rightarrow> budget_sample list" where
  "scope_of rule client xs = (if br_id rule = ''shared'' then xs else filter (\<lambda>s. sm_client s = client) xs)"

definition active_of :: "budget_rule \<Rightarrow> client_kind \<Rightarrow> budget_inflight list \<Rightarrow> nat" where
  "active_of rule client fs = (if br_id rule = ''shared'' then length fs
     else length (filter (\<lambda>e. fl_client e = client) fs))"

lemma wouldExceed_capped: "\<not> wouldExceed used add m \<longleftrightarrow> capped m (used + add)"
  by (auto simp: wouldExceed_def capped_def split: option.splits)

lemma first_exceeded_None_iff:
  "first_exceeded i cs = None \<longleftrightarrow> list_all (\<lambda>(d, used, m, add). capped m (used + add)) cs"
  by (induction i cs rule: first_exceeded.induct) (simp_all add: wouldExceed_capped [symmetric])

lemma evaluateRule_None_iff:
  "evaluateRule rule xs fs cost client now = None \<longleftrightarrow>
     (\<forall>(m, f, g) \<in> set dimensions.
        capped (m rule) (window_sum sm_at f (br_windowMs rule) now (scope_of rule client xs) + g cost))
     \<and> (case br_maxConcurrent rule of None \<Rightarrow> True | Some m \<Rightarrow> of_nat (active_of rule client fs) < m)"
proof -
  let ?w = "filter (\<lambda>s. now - sm_at s < br_windowMs rule) (scope_of rule client xs)"
  let ?cs = "[(DimOperations, ac_operations (sumCost ?w), br_maxOperations rule, ac_operations cost),
              (DimMutations, ac_mutations (sumCost ?w), br_maxMutations rule, ac_mutations cost),
              (DimShellCalls, ac_shellCalls (sumCost ?w), br_maxShellCalls rule, ac_shellCalls cost),
              (DimWriteBytes, ac_requestedWriteBytes (sumCost ?w), br_maxRequestedWriteBytes rule, ac_requestedWriteBytes cost),
              (DimProcessMs, ac_requestedProcessMs (sumCost ?w), br_maxRequestedProcessMs rule, ac_requestedProcessMs cost)]"
  have dims: "first_exceeded (br_id rule) ?cs = None \<longleftrightarrow> (\<forall>(m, f, g) \<in> set dimensions.
      capped (m rule) (window_sum sm_at f (br_windowMs rule) now (scope_of rule client xs) + g cost))"
    unfolding first_exceeded_None_iff dimensions_def by (simp add: sumCost_def window_sum_def)
  have "evaluateRule rule xs fs cost client now = (case first_exceeded (br_id rule) ?cs of
      Some r \<Rightarrow> Some r
    | None \<Rightarrow> (case br_maxConcurrent rule of None \<Rightarrow> None
        | Some m \<Rightarrow> if of_nat (active_of rule client fs) \<ge> m then Some (br_id rule, DimConcurrent, m) else None))"
    unfolding evaluateRule_def Let_def scope_of_def active_of_def by (rule refl)
  then show ?thesis
    unfolding dims [symmetric] by (auto simp: not_le split: option.splits if_splits)
qed

lemma first_refusal_None_iff: "first_refusal f rs = None \<longleftrightarrow> (\<forall>r \<in> set rs. f r = None)"
  by (induction rs) (auto split: option.splits)

section \<open>Round trips of the two files\<close>

definition ceiling_wf :: "rat option \<Rightarrow> bool" where
  "ceiling_wf m = (case m of None \<Rightarrow> True | Some r \<Rightarrow> is_integer r \<and> 0 \<le> r)"

definition rule_wf :: "budget_rule \<Rightarrow> bool" where
  "rule_wf r = (is_integer (br_windowMs r) \<and> 0 < br_windowMs r \<and> br_id r \<noteq> [] \<and>
     list_all ceiling_wf [br_maxOperations r, br_maxMutations r, br_maxShellCalls r,
       br_maxRequestedWriteBytes r, br_maxRequestedProcessMs r, br_maxConcurrent r])"

text \<open>The ids \<open>upsertBudgetRule\<close> writes: the shared rule is named shared, a client rule after its client.\<close>

definition policy_wf :: "budget_policy \<Rightarrow> bool" where
  "policy_wf p = (0 \<le> bp_revision p
     \<and> (case bp_shared p of None \<Rightarrow> True | Some r \<Rightarrow> rule_wf r \<and> br_id r = ''shared'')
     \<and> list_all (\<lambda>k. case bp_clients p k of None \<Rightarrow> True
         | Some r \<Rightarrow> rule_wf r \<and> br_id r = client_string k) CLIENT_KINDS)"

lemma policy_wf_client:
  "policy_wf p \<Longrightarrow> bp_clients p k = Some r \<Longrightarrow> rule_wf r \<and> br_id r = client_string k"
  by (auto simp: policy_wf_def list_all_iff split: option.splits)

lemma client_string_not_shared [simp]: "client_string k \<noteq> ''shared''" "''shared'' \<noteq> client_string k"
  by (cases k; simp)+

lemma nonNegativeIntOrNull_encode [simp]:
  "ceiling_wf m \<Longrightarrow> nonNegativeIntOrNull (Some (json_opt JNum m)) = Some m"
  by (cases m) (simp_all add: nonNegativeIntOrNull_def ceiling_wf_def)

lemma decodeRule_encodeRule [simp]: "rule_wf r \<Longrightarrow> decodeRule (Some (encodeRule r)) i = Some r"
  by (simp add: rule_wf_def decodeRule_def encodeRule_def)

lemma decodeRule_None [simp]: "decodeRule None i = None"
  by (simp add: decodeRule_def)

lemma encodeClients_lookup: "jget (encodeClients m) (client_string k) = map_option encodeRule (m k)"
  by (cases k) (simp_all add: encodeClients_def CLIENT_KINDS_def map_add_def split: option.splits)

lemma decodeClientRules_encode:
  assumes "\<And>k r. m k = Some r \<Longrightarrow> rule_wf r"
  shows "decodeClientRules (encodeClients m) ks = Some (\<lambda>k. if k \<in> set ks then m k else None)"
proof (induction ks)
  case (Cons k ks)
  have "decodeRule (jget (encodeClients m) (client_string k)) i = m k" for i
    using assms by (cases "m k") (simp_all add: encodeClients_lookup)
  with Cons show ?case by (auto simp: encodeClients_lookup Let_def fun_eq_iff)
qed simp

lemma is_object_encode [simp]: "is_object (encodeClients m)" "is_object (encodeRule r)"
  by (simp_all add: encodeClients_def encodeRule_def)

lemma encodeRule_not_null [simp]: "encodeRule r \<noteq> JNull"
  by (simp add: encodeRule_def)

lemma decodePolicy_encodePolicy:
  assumes "policy_wf p"
  shows "decodePolicy (encodePolicy p) = Some p"
proof -
  have "decodeClientRules (encodeClients (bp_clients p)) CLIENT_KINDS = Some (bp_clients p)"
    using decodeClientRules_encode [of "bp_clients p" CLIENT_KINDS] policy_wf_client [OF assms] by simp
  with assms show ?thesis
    by (cases "bp_shared p")
      (simp_all add: decodePolicy_def encodePolicy_def version_is_1_def policy_wf_def
        nonneg_int_or_0_def stamp_or_epoch_def)
qed

lemma decodeSample_encodeSample: "sample_wf s \<Longrightarrow> decodeSample (encodeSample s) = Some s"
  by (simp add: decodeSample_def encodeSample_def sample_wf_def json_client_def nonneg_num_def)

lemma decodeInflight_encodeInflight: "inflight_wf e \<Longrightarrow> decodeInflight (encodeInflight e) = Some e"
  by (cases "fl_pid e")
    (simp_all add: decodeInflight_def encodeInflight_def inflight_wf_def json_client_def)

lemma decodeUsage_encodeUsage: "usage_wf u \<Longrightarrow> decodeUsage (encodeUsage u) = Some u"
  by (simp add: decodeUsage_def encodeUsage_def usage_wf_def version_is_1_def list_all_iff
      decode_all_map decodeSample_encodeSample decodeInflight_encodeInflight)

lemma field_nonneg_num: "field nonneg_num j k = Some r \<Longrightarrow> 0 \<le> r"
  by (auto simp: field_def nonneg_num_def split: option.splits if_splits)

lemma decodeSample_wf: "decodeSample j = Some s \<Longrightarrow> sample_wf s"
  by (auto simp: decodeSample_def sample_wf_def split: if_splits option.splits dest: field_nonneg_num)

lemma decodeInflight_wf: "decodeInflight j = Some e \<Longrightarrow> inflight_wf e"
  by (auto simp: decodeInflight_def inflight_wf_def split: if_splits option.splits)

lemma decodeUsage_wf:
  assumes "decodeUsage j = Some u"
  shows "usage_wf u"
proof -
  have "decode_all decodeSample ss = Some ys \<Longrightarrow> list_all sample_wf ys"
       "decode_all decodeInflight fs = Some zs \<Longrightarrow> list_all inflight_wf zs" for ss ys fs zs
    by (blast intro: decode_all_list_all decodeSample_wf decodeInflight_wf)+
  with assms show ?thesis
    by (auto simp: decodeUsage_def usage_wf_def split: if_splits option.splits)
qed

lemma emptyUsage_wf [simp]: "usage_wf emptyUsage"
  by (simp add: usage_wf_def emptyUsage_def)

lemma readUsageUnlocked_wf: "usage_wf (fst (readUsageUnlocked f))"
  by (auto simp: readUsageUnlocked_def split: stored.splits option.splits intro: decodeUsage_wf)

section \<open>Ceilings hold over every run\<close>

text \<open>Everything a rule bounds, for the usage \<open>u\<close> at time \<open>now\<close>.\<close>

definition rule_scope :: "budget_rule \<Rightarrow> client_kind \<Rightarrow> budget_scope" where
  "rule_scope rule c = (if br_id rule = ''shared'' then ScopeShared else ScopeClient c)"

definition within_rule :: "budget_rule \<Rightarrow> client_kind \<Rightarrow> budget_usage \<Rightarrow> rat \<Rightarrow> bool" where
  "within_rule rule c u now =
     (let used = usedInWindow u (rule_scope rule c) (br_windowMs rule) now
      in capped (br_maxOperations rule) (ac_operations used)
       \<and> capped (br_maxMutations rule) (ac_mutations used)
       \<and> capped (br_maxShellCalls rule) (ac_shellCalls used)
       \<and> capped (br_maxRequestedWriteBytes rule) (ac_requestedWriteBytes used)
       \<and> capped (br_maxRequestedProcessMs rule) (ac_requestedProcessMs used)
       \<and> capped (br_maxConcurrent rule) (of_nat (active_of rule c (us_inflight u))))"

lemma usedInWindow_scope:
  "usedInWindow u (rule_scope rule c) w now =
     sumCost (filter (\<lambda>s. now - sm_at s < w) (scope_of rule c (us_samples u)))"
  by (simp add: usedInWindow_def rule_scope_def scope_of_def conj_commute)

lemma within_rule_alt:
  "within_rule rule c u now \<longleftrightarrow>
     (\<forall>(m, f, g) \<in> set dimensions.
        capped (m rule) (window_sum sm_at f (br_windowMs rule) now (scope_of rule c (us_samples u))))
     \<and> capped (br_maxConcurrent rule) (of_nat (active_of rule c (us_inflight u)))"
  unfolding within_rule_def Let_def usedInWindow_scope
  by (simp add: dimensions_def sumCost_def window_sum_def)

lemma foldr_max_ge: "w \<in> set (x # xs) \<Longrightarrow> w \<le> foldr max xs (x::rat)"
proof (induction xs)
  case (Cons y ys)
  then show ?case by (auto simp: le_max_iff_disj)
qed simp

lemma pruneUsage_samples:
  assumes "r \<in> set (listBudgetRules p)" and "0 < br_windowMs r"
  shows "\<exists>keep \<ge> br_windowMs r. us_samples (pruneUsage alive u p now) = filter (\<lambda>s. now - sm_at s < keep) (us_samples u)"
proof -
  let ?w = "policyWindows p"
  have mem: "br_windowMs r \<in> set ?w" using assms(1) by (simp add: policyWindows_def)
  then have ne: "?w \<noteq> []" by auto
  then have "br_windowMs r \<le> foldr max (tl ?w) (hd ?w)"
    using foldr_max_ge [of "br_windowMs r" "hd ?w" "tl ?w"] mem by simp
  then show ?thesis using ne assms(2) by (auto simp: pruneUsage_def Let_def)
qed

lemma scope_of_filter: "scope_of r c (filter P xs) = filter P (scope_of r c xs)"
  by (simp add: scope_of_def conj_commute)

lemma rulesForClient_listed: "r \<in> set (rulesForClient p c) \<Longrightarrow> r \<in> set (listBudgetRules p)"
  by (cases c)
    (auto simp: rulesForClient_def listBudgetRules_def CLIENT_KINDS_def split: option.splits if_splits)

lemma rulesForClient_wf: "policy_wf p \<Longrightarrow> r \<in> set (rulesForClient p c) \<Longrightarrow> rule_wf r \<and> (br_id r = ''shared'' \<or> br_id r = client_string c)"
  by (auto simp: rulesForClient_def policy_wf_def list_all_iff split: option.splits if_splits)

lemma rule_wf_window: "rule_wf r \<Longrightarrow> 0 < br_windowMs r"
  by (simp add: rule_wf_def)

text \<open>Pruning drops nothing a rule of the policy still counts, at the time of pruning or later.\<close>

lemma window_sum_pruneUsage:
  assumes "r \<in> set (listBudgetRules p)" "0 < br_windowMs r" "now \<le> now'"
  shows "window_sum sm_at f (br_windowMs r) now' (scope_of r c (us_samples (pruneUsage alive u p now)))
       = window_sum sm_at f (br_windowMs r) now' (scope_of r c (us_samples u))"
proof -
  obtain keep where "keep \<ge> br_windowMs r"
    "us_samples (pruneUsage alive u p now) = filter (\<lambda>s. now - sm_at s < keep) (us_samples u)"
    using pruneUsage_samples [OF assms(1,2)] by blast
  then show ?thesis using assms(3) by (simp add: scope_of_filter window_sum_pruned)
qed

lemma usage_wf_pruneUsage: "usage_wf u \<Longrightarrow> usage_wf (pruneUsage alive u p now)"
  by (auto simp: usage_wf_def pruneUsage_def Let_def list_all_iff)

text \<open>The four outcomes of a reservation.\<close>

lemma reserveBudgetUsage_cases:
  assumes "reserveBudgetUsage alive c cost now uuid pid st = (res, st')"
  obtains (unrestricted) "\<not> policyRestricts (bpi_policy (readPolicyUnlocked (bs_policy st) now))"
      "res = Inr (ReserveAllowed None emptyUsage)" "st' = st"
  | (corrupt) "fst (snd (readUsageUnlocked (bs_usage st)))" "\<not> snd (snd (readUsageUnlocked (bs_usage st)))"
      "res = Inl BudgetUsageCorrupt" "st' = st"
  | (denied) r u where "res = Inr (ReserveDenied r u)" "st' = st"
  | (granted) p u v nxt where
      "p = bpi_policy (readPolicyUnlocked (bs_policy st) now)"
      "policyRestricts p" "u = fst (readUsageUnlocked (bs_usage st))"
      "v = pruneUsage alive u p (of_int now)"
      "\<And>r. r \<in> set (rulesForClient p c) \<Longrightarrow> evaluateRule r (us_samples v) (us_inflight v) cost c (of_int now) = None"
      "nxt = \<lparr>us_samples = us_samples v @ [sample_of (of_int now) c cost],
              us_inflight = us_inflight v @ [\<lparr>fl_id = uuid, fl_client = c, fl_at = of_int now, fl_pid = Some pid\<rparr>]\<rparr>"
      "res = Inr (ReserveAllowed (Some uuid) nxt)" "st' = st\<lparr>bs_usage := Contents (encodeUsage nxt)\<rparr>"
proof -
  let ?p = "bpi_policy (readPolicyUnlocked (bs_policy st) now)"
  obtain u ex valid where r: "readUsageUnlocked (bs_usage st) = (u, ex, valid)"
    by (metis prod_cases3)
  let ?v = "pruneUsage alive u ?p (of_int now)"
  let ?f = "first_refusal (\<lambda>rule. evaluateRule rule (us_samples ?v) (us_inflight ?v) cost c (of_int now)) (rulesForClient ?p c)"
  consider "\<not> policyRestricts ?p" | "policyRestricts ?p" "ex \<and> \<not> valid"
    | x where "policyRestricts ?p" "\<not> (ex \<and> \<not> valid)" "?f = Some x"
    | "policyRestricts ?p" "\<not> (ex \<and> \<not> valid)" "?f = None"
    by (cases ?f) blast+
  then show ?thesis
  proof cases
    case 1
    with assms show ?thesis by (intro unrestricted) (simp_all add: reserveBudgetUsage_def)
  next
    case 2
    with assms r show ?thesis by (intro corrupt) (simp_all add: reserveBudgetUsage_def)
  next
    case (3 x)
    with assms r show ?thesis by (intro denied [of x ?v]) (auto simp: reserveBudgetUsage_def Let_def)
  next
    case 4
    with assms r show ?thesis
      by (intro granted [OF refl _ refl refl _ refl]) (simp_all add: reserveBudgetUsage_def Let_def first_refusal_None_iff)
  qed
qed

lemma scope_of_append: "scope_of r c (xs @ ys) = scope_of r c xs @ scope_of r c ys"
  by (simp add: scope_of_def)

lemma within_rule_after_grant:
  assumes "usage_wf v" "cost_nonneg cost" "now \<le> now'"
    and ok: "evaluateRule r (us_samples v) (us_inflight v) cost c now = None"
    and rw: "rule_wf r"
  shows "within_rule r c \<lparr>us_samples = us_samples v @ [sample_of now c cost],
           us_inflight = us_inflight v @ [\<lparr>fl_id = i, fl_client = c, fl_at = now, fl_pid = q\<rparr>]\<rparr> now'"
proof -
  let ?xs = "scope_of r c (us_samples v)" and ?s = "sample_of now c cost"
  have wf: "\<And>s. s \<in> set ?xs \<Longrightarrow> sample_wf s" using assms(1) by (auto simp: usage_wf_def scope_of_def list_all_iff split: if_splits)
  have sc: "scope_of r c (us_samples v @ [?s]) = ?xs @ [?s]"
    by (simp add: scope_of_append) (simp add: scope_of_def sample_of_def)
  have "capped (m r) (window_sum sm_at f (br_windowMs r) now' (?xs @ [?s]))" if d: "(m, f, g) \<in> set dimensions" for m f g
  proof (rule rolling_window.window_sum_snoc_capped [OF dimensions_rolling [OF d] wf sample_wf_sample_of [OF assms(2)] assms(3)])
    show "capped (m r) (window_sum sm_at f (br_windowMs r) now ?xs + f ?s)"
      using ok d by (auto simp: evaluateRule_None_iff dimensions_sample_of [OF d])
  qed
  moreover have "capped (br_maxConcurrent r)
      (of_nat (active_of r c (us_inflight v @ [\<lparr>fl_id = i, fl_client = c, fl_at = now, fl_pid = q\<rparr>])))"
  proof (cases "br_maxConcurrent r")
    case (Some m)
    then have lt: "of_nat (active_of r c (us_inflight v)) < m" using ok by (simp add: evaluateRule_None_iff)
    have "is_integer m" using rw Some by (simp add: rule_wf_def ceiling_wf_def)
    then obtain k where "m = of_int k" unfolding is_integer_def by metis
    then have "of_nat (active_of r c (us_inflight v)) + 1 \<le> m" using lt
      using of_int_less_iff [of "int (active_of r c (us_inflight v))" k, where 'a = rat]
        of_int_le_iff [of "int (active_of r c (us_inflight v)) + 1" k, where 'a = rat] by simp
    then show ?thesis using Some by (simp add: capped_def active_of_def split: if_splits)
  qed (simp add: capped_def)
  ultimately show ?thesis unfolding within_rule_alt by (auto simp: sc)
qed

text \<open>
  A run under one policy: the owner's policy is on disk, no usage has been recorded, and then
  reservations at non-decreasing times, releases and resets follow in any order, from any client,
  with any liveness answers.
\<close>

inductive budget_reach :: "budget_policy \<Rightarrow> int \<Rightarrow> budget_store \<Rightarrow> bool" for p where
  br_start: "policy_wf p \<Longrightarrow> budget_reach p t \<lparr>bs_policy = Contents (encodePolicy p), bs_usage = Absent\<rparr>"
| br_reserve: "budget_reach p t st \<Longrightarrow> t \<le> now \<Longrightarrow> cost_nonneg cost \<Longrightarrow> uuid \<noteq> [] \<Longrightarrow> 0 < pid \<Longrightarrow>
    budget_reach p now (snd (reserveBudgetUsage alive c cost now uuid pid st))"
| br_release: "budget_reach p t st \<Longrightarrow> budget_reach p t (releaseBudgetConcurrency rid st)"
| br_reset: "budget_reach p t st \<Longrightarrow> budget_reach p t (resetBudgetUsage st)"

definition budget_inv :: "budget_policy \<Rightarrow> int \<Rightarrow> budget_store \<Rightarrow> bool" where
  "budget_inv p t st \<longleftrightarrow> policy_wf p \<and> bs_policy st = Contents (encodePolicy p)
     \<and> snd (snd (readUsageUnlocked (bs_usage st)))
     \<and> (\<forall>now \<ge> of_int t. \<forall>c. \<forall>r \<in> set (rulesForClient p c). within_rule r c (fst (readUsageUnlocked (bs_usage st))) now)"

lemma readPolicy_encode: "policy_wf p \<Longrightarrow> bpi_policy (readPolicyUnlocked (Contents (encodePolicy p)) now) = p"
  by (simp add: readPolicyUnlocked_def decodePolicy_encodePolicy)

lemma readUsage_encode: "usage_wf u \<Longrightarrow> readUsageUnlocked (Contents (encodeUsage u)) = (u, True, True)"
  by (simp add: readUsageUnlocked_def decodeUsage_encodeUsage)

lemma ceiling_nonneg: "ceiling_wf m \<Longrightarrow> capped m 0"
  by (cases m) (simp_all add: ceiling_wf_def capped_def)

lemma within_rule_empty: "rule_wf r \<Longrightarrow> within_rule r c emptyUsage now"
  by (simp add: within_rule_alt dimensions_def rule_wf_def ceiling_nonneg emptyUsage_def scope_of_def
      window_sum_def active_of_def)

lemma active_of_filter_le: "active_of r c (filter P fs) \<le> active_of r c fs"
  using length_filter_mono [of fs "\<lambda>e. P e \<and> fl_client e = c" "\<lambda>e. fl_client e = c"]
  by (simp add: active_of_def conj_commute)

lemma capped_mono: "capped m y \<Longrightarrow> x \<le> y \<Longrightarrow> capped m x"
  by (auto simp: capped_def split: option.splits)

lemma within_rule_shrink_inflight:
  assumes "within_rule r c u now"
  shows "within_rule r c (u\<lparr>us_inflight := filter P (us_inflight u)\<rparr>) now"
proof -
  have "capped (br_maxConcurrent r) (of_nat (active_of r c (filter P (us_inflight u))))"
    using assms by (auto simp: within_rule_alt intro: capped_mono [OF _ of_nat_mono [OF active_of_filter_le]])
  then show ?thesis using assms by (simp add: within_rule_alt)
qed

lemma within_rule_prune:
  assumes "within_rule r c u now'" "r \<in> set (listBudgetRules p)" "0 < br_windowMs r" "now \<le> now'"
  shows "within_rule r c (pruneUsage alive u p now) now'"
proof -
  have i: "us_inflight (pruneUsage alive u p now) = filter (\<lambda>e. \<not> inflightIsReclaimable alive e now) (us_inflight u)"
    by (simp add: pruneUsage_def Let_def)
  have "capped (br_maxConcurrent r) (of_nat (active_of r c (us_inflight (pruneUsage alive u p now))))"
    unfolding i using assms(1) by (auto simp: within_rule_alt intro: capped_mono [OF _ of_nat_mono [OF active_of_filter_le]])
  then show ?thesis using assms(1) by (simp add: within_rule_alt window_sum_pruneUsage [OF assms(2-4)])
qed

text \<open>A grant to client \<open>c\<close> leaves the usage that another client's own rule counts as it was.\<close>

lemma within_rule_other_client:
  assumes "within_rule r d v now" "br_id r \<noteq> ''shared''" "c \<noteq> d"
  shows "within_rule r d \<lparr>us_samples = us_samples v @ [sample_of t c cost],
           us_inflight = us_inflight v @ [\<lparr>fl_id = i, fl_client = c, fl_at = t, fl_pid = q\<rparr>]\<rparr> now"
  using assms by (simp add: within_rule_alt scope_of_def active_of_def sample_of_def)

lemma rulesForClient_shared:
  "policy_wf p \<Longrightarrow> r \<in> set (rulesForClient p d) \<Longrightarrow> br_id r = ''shared'' \<Longrightarrow> r \<in> set (rulesForClient p c)"
  by (auto simp: rulesForClient_def policy_wf_def list_all_iff split: option.splits if_splits)

lemma within_rule_shared_client: "br_id r = ''shared'' \<Longrightarrow> within_rule r c u now = within_rule r d u now"
  by (simp add: within_rule_def rule_scope_def active_of_def)

lemma budget_inv_reserve:
  assumes inv: "budget_inv p t st" and t: "t \<le> now" and cost: "cost_nonneg cost" and ids: "uuid \<noteq> []" "0 < pid"
  shows "budget_inv p now (snd (reserveBudgetUsage alive c cost now uuid pid st))"
proof -
  obtain res st' where eq: "reserveBudgetUsage alive c cost now uuid pid st = (res, st')" by fastforce
  have pw: "policy_wf p" and rp: "bpi_policy (readPolicyUnlocked (bs_policy st) now) = p"
    using inv by (simp_all add: budget_inv_def readPolicy_encode)
  let ?u = "fst (readUsageUnlocked (bs_usage st))"
  have was: "within_rule r d ?u m" if "of_int now \<le> m" "r \<in> set (rulesForClient p d)" for r d m
    using inv t that unfolding budget_inv_def by (meson of_int_le_iff order_trans)
  have keep: "budget_inv p now st" using inv was by (simp add: budget_inv_def)
  from eq show ?thesis
  proof (cases rule: reserveBudgetUsage_cases)
    case (granted q u v nxt)
    have q: "q = p" and u: "u = ?u" using granted rp by simp_all
    have vw: "usage_wf v" using granted(4) u by (simp add: usage_wf_pruneUsage readUsageUnlocked_wf)
    then have nw: "usage_wf nxt" using granted(6) ids sample_wf_sample_of [OF cost]
      by (simp add: usage_wf_def inflight_wf_def)
    have "within_rule r d nxt m" if m: "of_int now \<le> m" and r: "r \<in> set (rulesForClient p d)" for r d m
    proof (cases "d = c \<or> br_id r = ''shared''")
      case True
      then have rc: "r \<in> set (rulesForClient p c)" using r rulesForClient_shared [OF pw] by blast
      have "within_rule r c nxt m" unfolding granted(6)
        using granted(5) [of r] rc rulesForClient_wf [OF pw rc] q
        by (intro within_rule_after_grant [OF vw cost m]) simp_all
      then show ?thesis using True within_rule_shared_client by blast
    next
      case False
      have "within_rule r d v m" unfolding granted(4) q u
        using rulesForClient_wf [OF pw r] m
        by (intro within_rule_prune [OF was [OF m r] rulesForClient_listed [OF r] rule_wf_window]) simp_all
      then show ?thesis unfolding granted(6) using False by (intro within_rule_other_client) auto
    qed
    then show ?thesis using granted(8) nw inv eq by (simp add: budget_inv_def readUsage_encode)
  qed (use keep eq in simp_all)
qed

lemma release_read:
  assumes "snd (snd (readUsageUnlocked (bs_usage st)))"
  shows "readUsageUnlocked (bs_usage (releaseBudgetConcurrency (Some i) st)) = readUsageUnlocked (bs_usage st)
       \<or> readUsageUnlocked (bs_usage (releaseBudgetConcurrency (Some i) st)) =
          ((fst (readUsageUnlocked (bs_usage st)))\<lparr>us_inflight :=
             filter (\<lambda>e. fl_id e \<noteq> i) (us_inflight (fst (readUsageUnlocked (bs_usage st))))\<rparr>, True, True)"
proof -
  obtain u ex where r: "readUsageUnlocked (bs_usage st) = (u, ex, True)"
    using assms by (metis prod.collapse)
  then have "usage_wf u" using readUsageUnlocked_wf [of "bs_usage st"] by simp
  then have "usage_wf (u\<lparr>us_inflight := filter (\<lambda>e. fl_id e \<noteq> i) (us_inflight u)\<rparr>)"
    by (auto simp: usage_wf_def list_all_iff)
  then show ?thesis using r
    by (auto simp: releaseBudgetConcurrency_def given_def readUsage_encode split: if_splits option.splits)
qed

lemma budget_inv_release:
  assumes "budget_inv p t st"
  shows "budget_inv p t (releaseBudgetConcurrency rid st)"
proof (cases rid)
  case (Some i)
  have b: "bs_policy (releaseBudgetConcurrency rid st) = bs_policy st"
    by (auto simp: releaseBudgetConcurrency_def Let_def split: option.splits prod.splits)
  have v: "snd (snd (readUsageUnlocked (bs_usage st)))" using assms by (simp add: budget_inv_def)
  show ?thesis using release_read [OF v, of i] assms b unfolding Some
    by (auto simp: budget_inv_def intro!: within_rule_shrink_inflight)
qed (use assms in \<open>simp add: releaseBudgetConcurrency_def given_def\<close>)

lemma budget_inv_empty:
  assumes "policy_wf p" "bs_policy st = Contents (encodePolicy p)" "readUsageUnlocked (bs_usage st) = (emptyUsage, e, True)"
  shows "budget_inv p t st"
  using assms rulesForClient_wf [OF assms(1)] by (auto simp: budget_inv_def intro: within_rule_empty)

lemma budget_reach_inv: "budget_reach p t st \<Longrightarrow> budget_inv p t st"
proof (induction rule: budget_reach.induct)
  case (br_start t)
  then show ?case by (intro budget_inv_empty [where e = False]) (simp_all add: readUsageUnlocked_def)
next
  case (br_reset t st)
  then show ?case
    by (intro budget_inv_empty) (simp_all add: budget_inv_def resetBudgetUsage_def readUsage_encode)
qed (simp_all add: budget_inv_reserve budget_inv_release)

section \<open>Properties\<close>

definition ex_rule :: budget_rule where
  "ex_rule = \<lparr>br_id = ''chatgpt'', br_windowMs = 1000, br_maxOperations = Some 2, br_maxMutations = Some 1,
     br_maxShellCalls = None, br_maxRequestedWriteBytes = None, br_maxRequestedProcessMs = None,
     br_maxConcurrent = Some 2\<rparr>"

definition ex_policy :: budget_policy where
  "ex_policy = \<lparr>bp_revision = 1, bp_shared = None, bp_clients = (\<lambda>_. None)(Chatgpt := Some ex_rule), bp_updatedAt = Iso 0\<rparr>"

definition ex_cost :: authority_cost where
  "ex_cost = \<lparr>ac_operations = 1, ac_mutations = 1, ac_shellCalls = 0, ac_requestedWriteBytes = 10, ac_requestedProcessMs = 0\<rparr>"

definition ex_store :: budget_store where
  "ex_store = \<lparr>bs_policy = Contents (encodePolicy ex_policy), bs_usage = Absent\<rparr>"

lemma ex_facts: "policy_wf ex_policy" "cost_nonneg ex_cost" "set (rulesForClient ex_policy Chatgpt) = {ex_rule}"
  "policyRestricts ex_policy"
  by (simp_all add: policy_wf_def ex_policy_def ex_rule_def CLIENT_KINDS_def rule_wf_def ceiling_wf_def
      cost_nonneg_def ex_cost_def rulesForClient_def budgetRuleRestricts_def policyRestricts_def)

lemma ex_reach: "budget_reach ex_policy 5 (snd (reserveBudgetUsage (\<lambda>_. True) Chatgpt ex_cost 5 ''r1'' 7 ex_store))"
  unfolding ex_store_def by (rule br_reserve [OF br_start [of _ 0]]) (simp_all add: ex_facts)

text \<open>
  C1: Under one owner policy, after any sequence of reservations (at non-decreasing times, by any
  clients), releases and resets, and at any later time, the usage ledger is readable and every rule
  of the policy still holds: in each of the five rolling dimensions the amount consumed inside the
  rule's window (by the clients the rule covers) is at most the ceiling, and no more than
  maxConcurrent reservations are in flight.
\<close>

theorem budget_ceilings_hold:
  assumes "budget_reach p t st" and "of_int t \<le> now" and "r \<in> set (rulesForClient p c)"
  shows "\<exists>u. loadBudgetUsage st = Inr u \<and> within_rule r c u now"
  using budget_reach_inv [OF assms(1)] assms(2,3)
  by (auto simp: budget_inv_def loadBudgetUsage_def split: prod.splits)

theorem budget_ceilings_hold_witness:
  "\<exists>u. loadBudgetUsage (snd (reserveBudgetUsage (\<lambda>_. True) Chatgpt ex_cost 5 ''r1'' 7 ex_store)) = Inr u
     \<and> within_rule ex_rule Chatgpt u 100"
  by (rule budget_ceilings_hold [OF ex_reach]) (simp_all add: ex_facts)

text \<open>
  A reservation against a readable ledger is decided by the ledger itself, not by its pruned
  copy: it is admitted exactly when, for every rule of the client, the amount the rule already
  counts plus the requested cost is within each ceiling, and the slots that are not reclaimable
  number less than maxConcurrent.
\<close>

theorem reserve_admitted_iff:
  assumes "policy_wf p" and "policyRestricts p" and "bs_policy st = Contents (encodePolicy p)"
    and "loadBudgetUsage st = Inr u"
  shows "(\<exists>nxt. fst (reserveBudgetUsage alive c cost now uuid pid st) = Inr (ReserveAllowed (Some uuid) nxt)) \<longleftrightarrow>
     (\<forall>r \<in> set (rulesForClient p c).
        (\<forall>(m, f, g) \<in> set dimensions.
           capped (m r) (g (usedInWindow u (rule_scope r c) (br_windowMs r) (of_int now)) + g cost))
        \<and> (case br_maxConcurrent r of None \<Rightarrow> True | Some k \<Rightarrow>
             of_nat (active_of r c (filter (\<lambda>e. \<not> inflightIsReclaimable alive e (of_int now)) (us_inflight u))) < k))"
    (is "?L \<longleftrightarrow> ?R")
proof -
  obtain ex where rd: "readUsageUnlocked (bs_usage st) = (u, ex, True)"
    using assms(4) by (auto simp: loadBudgetUsage_def readUsageUnlocked_def split: stored.splits option.splits if_splits)
  let ?v = "pruneUsage alive u p (of_int now)"
  have L: "?L \<longleftrightarrow> (\<forall>r \<in> set (rulesForClient p c). evaluateRule r (us_samples ?v) (us_inflight ?v) cost c (of_int now) = None)"
    unfolding first_refusal_None_iff [symmetric] reserveBudgetUsage_def
    using assms(1-3) rd by (auto simp: readPolicy_encode Let_def split: option.splits)
  have fl: "us_inflight ?v = filter (\<lambda>e. \<not> inflightIsReclaimable alive e (of_int now)) (us_inflight u)"
    by (simp add: pruneUsage_def Let_def)
  have "window_sum sm_at f (br_windowMs r) (of_int now) (scope_of r c (us_samples ?v))
      = g (usedInWindow u (rule_scope r c) (br_windowMs r) (of_int now))"
    if "r \<in> set (rulesForClient p c)" "(m, f, g) \<in> set dimensions" for r m f g
    using window_sum_pruneUsage [OF rulesForClient_listed [OF that(1)] rule_wf_window order_refl]
      rulesForClient_wf [OF assms(1) that(1)] dimensions_sumCost [OF that(2)]
    by (simp add: usedInWindow_scope)
  then show ?thesis unfolding L evaluateRule_None_iff fl by fastforce
qed

theorem reserve_admitted_iff_witness:
  "(\<exists>nxt. fst (reserveBudgetUsage (\<lambda>_. True) Chatgpt ex_cost 5 ''r1'' 7 ex_store) = Inr (ReserveAllowed (Some ''r1'') nxt)) \<longleftrightarrow>
     (\<forall>r \<in> set (rulesForClient ex_policy Chatgpt).
        (\<forall>(m, f, g) \<in> set dimensions.
           capped (m r) (g (usedInWindow emptyUsage (rule_scope r Chatgpt) (br_windowMs r) (of_int 5)) + g ex_cost))
        \<and> (case br_maxConcurrent r of None \<Rightarrow> True | Some k \<Rightarrow>
             of_nat (active_of r Chatgpt (filter (\<lambda>e. \<not> inflightIsReclaimable (\<lambda>_. True) e (of_int 5)) (us_inflight emptyUsage))) < k))"
  by (rule reserve_admitted_iff [OF ex_facts(1) ex_facts(4)])
    (simp_all add: ex_store_def loadBudgetUsage_def readUsageUnlocked_def)

text \<open>
  A reservation that is not admitted (refused by a rule, let through because nothing restricts,
  or aborted because the ledger is corrupt) leaves both files as they were; and a corrupt ledger
  under a restricting policy aborts every reservation instead of counting as empty.
\<close>

theorem reserve_unadmitted_keeps_store:
  "((\<nexists>i u. fst (reserveBudgetUsage alive c cost now uuid pid st) = Inr (ReserveAllowed (Some i) u)) \<longrightarrow>
     snd (reserveBudgetUsage alive c cost now uuid pid st) = st)
   \<and> (policyRestricts (bpi_policy (readPolicyUnlocked (bs_policy st) now)) \<and> loadBudgetUsage st = Inl BudgetUsageCorrupt
     \<longrightarrow> reserveBudgetUsage alive c cost now uuid pid st = (Inl BudgetUsageCorrupt, st))"
proof (intro conjI impI)
  obtain res st' where eq: "reserveBudgetUsage alive c cost now uuid pid st = (res, st')" by fastforce
  assume none: "\<nexists>i u. fst (reserveBudgetUsage alive c cost now uuid pid st) = Inr (ReserveAllowed (Some i) u)"
  from eq show "snd (reserveBudgetUsage alive c cost now uuid pid st) = st"
    by (cases rule: reserveBudgetUsage_cases) (use none eq in auto)
next
  assume "policyRestricts (bpi_policy (readPolicyUnlocked (bs_policy st) now)) \<and> loadBudgetUsage st = Inl BudgetUsageCorrupt"
  then show "reserveBudgetUsage alive c cost now uuid pid st = (Inl BudgetUsageCorrupt, st)"
    by (auto simp: loadBudgetUsage_def reserveBudgetUsage_def split: prod.splits if_splits)
qed

theorem reserve_unadmitted_keeps_store_witness:
  "reserveBudgetUsage (\<lambda>_. True) Claude ex_cost 5 ''r1'' 7 (ex_store\<lparr>bs_usage := Unreadable\<rparr>)
     = (Inl BudgetUsageCorrupt, ex_store\<lparr>bs_usage := Unreadable\<rparr>)"
  using reserve_unadmitted_keeps_store [of "\<lambda>_. True" Claude ex_cost 5 "''r1''" 7 "ex_store\<lparr>bs_usage := Unreadable\<rparr>"]
  by (simp add: ex_store_def readPolicy_encode ex_facts loadBudgetUsage_def readUsageUnlocked_def)

text \<open>
  Releasing a reservation removes exactly its in-flight slot and refunds nothing: the rolling
  samples, and every other slot, stay as they were.
\<close>

theorem release_refunds_nothing:
  assumes "loadBudgetUsage st = Inr u"
  shows "loadBudgetUsage (releaseBudgetConcurrency (Some i) st) =
     Inr \<lparr>us_samples = us_samples u, us_inflight = filter (\<lambda>e. fl_id e \<noteq> i) (us_inflight u)\<rparr>"
proof -
  obtain ex where r: "readUsageUnlocked (bs_usage st) = (u, ex, True)"
    using assms by (auto simp: loadBudgetUsage_def readUsageUnlocked_def split: stored.splits option.splits if_splits)
  then have wf: "usage_wf u" using readUsageUnlocked_wf [of "bs_usage st"] by simp
  then have wf': "usage_wf (u\<lparr>us_inflight := filter (\<lambda>e. fl_id e \<noteq> i) (us_inflight u)\<rparr>)"
    by (auto simp: usage_wf_def list_all_iff)
  have rec: "\<lparr>us_samples = us_samples u, us_inflight = fs\<rparr> = u\<lparr>us_inflight := fs\<rparr>" for fs
    by (cases u) simp
  show ?thesis
  proof (cases "i \<noteq> [] \<and> list_ex (\<lambda>e. fl_id e = i) (us_inflight u)")
    case True
    then show ?thesis using r wf' unfolding rec
      by (simp add: releaseBudgetConcurrency_def given_def loadBudgetUsage_def readUsage_encode)
  next
    case False
    then have "filter (\<lambda>e. fl_id e \<noteq> i) (us_inflight u) = us_inflight u"
      using wf by (auto simp: filter_id_conv list_ex_iff usage_wf_def list_all_iff inflight_wf_def)
    moreover have "releaseBudgetConcurrency (Some i) st = st"
      using False r by (auto simp: releaseBudgetConcurrency_def given_def)
    ultimately show ?thesis using assms unfolding rec by simp
  qed
qed

theorem release_refunds_nothing_witness:
  "loadBudgetUsage (releaseBudgetConcurrency (Some ''r1'') ex_store) = Inr \<lparr>us_samples = [], us_inflight = []\<rparr>"
  using release_refunds_nothing [of ex_store emptyUsage "''r1''"]
  by (simp add: ex_store_def loadBudgetUsage_def readUsageUnlocked_def emptyUsage_def)

text \<open>
  Setting a budget rule writes a policy that reads back as valid and as exactly what was
  returned, one revision later, with only the addressed scope replaced, and without touching the
  usage ledger.
\<close>

theorem upsertBudgetRule_reads_back:
  assumes "policy_wf p" and "bs_policy st = Contents (encodePolicy p)" and "rule_wf r"
  shows "\<exists>p' st'. upsertBudgetRule scope r now st = (Inr p', st')
     \<and> policy_wf p' \<and> readPolicyUnlocked (bs_policy st') later =
         \<lparr>bpi_exists = True, bpi_valid = True, bpi_unrestricted = \<not> policyRestricts p', bpi_policy = p'\<rparr>
     \<and> bp_revision p' = bp_revision p + 1 \<and> bs_usage st' = bs_usage st
     \<and> (case scope of
          ScopeShared \<Rightarrow> bp_shared p' = Some (r\<lparr>br_id := ''shared''\<rparr>) \<and> bp_clients p' = bp_clients p
        | ScopeClient k \<Rightarrow> bp_shared p' = bp_shared p
            \<and> bp_clients p' = (bp_clients p)(k := Some (r\<lparr>br_id := client_string k\<rparr>)))"
proof -
  let ?q = "case scope of ScopeShared \<Rightarrow> p\<lparr>bp_shared := Some (r\<lparr>br_id := ''shared''\<rparr>)\<rparr>
    | ScopeClient k \<Rightarrow> p\<lparr>bp_clients := (bp_clients p)(k := Some (r\<lparr>br_id := client_string k\<rparr>))\<rparr>"
  let ?n = "?q\<lparr>bp_revision := bp_revision p + 1, bp_updatedAt := Iso now\<rparr>"
  have id: "client_string k \<noteq> []" for k by (cases k) simp_all
  have wf: "policy_wf ?n"
    using assms(1,3) id by (cases scope) (auto simp: policy_wf_def rule_wf_def list_all_iff)
  have "upsertBudgetRule scope r now st = (Inr ?n, st\<lparr>bs_policy := Contents (encodePolicy ?n)\<rparr>)"
    using assms(1,2) by (simp add: upsertBudgetRule_def updateBudgetPolicy_def writePolicyUnlocked_def Let_def readPolicy_encode)
  with wf show ?thesis
    by (cases scope) (simp_all add: readPolicyUnlocked_def decodePolicy_encodePolicy)
qed

theorem upsertBudgetRule_reads_back_witness:
  "\<exists>p' st'. upsertBudgetRule (ScopeClient Claude) ex_rule 9 ex_store = (Inr p', st')
     \<and> policy_wf p' \<and> readPolicyUnlocked (bs_policy st') 10 =
         \<lparr>bpi_exists = True, bpi_valid = True, bpi_unrestricted = \<not> policyRestricts p', bpi_policy = p'\<rparr>
     \<and> bp_revision p' = 2 \<and> bs_usage st' = Absent
     \<and> bp_clients p' = (bp_clients ex_policy)(Claude := Some (ex_rule\<lparr>br_id := ''claude''\<rparr>))"
  using upsertBudgetRule_reads_back [of ex_policy ex_store ex_rule "ScopeClient Claude" 9 10] ex_facts
  by (auto simp: ex_store_def ex_policy_def ex_rule_def rule_wf_def ceiling_wf_def)

end
