(* ===== verification/Reach_Security.thy ===== *)
theory Reach_Security
  imports Reach_Operations "HOL-Library.Sublist"
begin

text \<open>
  Path scope, command grammar and tool guards of \<open>src/src/shared/security.ts\<close>, the workspace-safe
  refusals of \<open>profiles.ts\<close>, the capability demands of \<open>capabilities.ts\<close> and the request checks of
  \<open>secrets.ts\<close>. The file system enters through one parameter \<open>rp\<close>, the answer of
  \<open>fs.realpathSync.native\<close> for an absolute path; the private state directory is the argument
  \<open>state_dir\<close>. Regular expressions are values of a small expression type with a matcher that
  follows the JavaScript meaning of the constructs the source uses.
\<close>

section \<open>Regular expressions\<close>

text \<open>
  \<open>RxSet p\<close> is one character of a class, \<open>RxMany p\<close> a starred class, \<open>RxLit\<close> literal text. The
  ends of all matches that begin at a position; \<open>test\<close> asks for a match at any position.
\<close>

datatype rx =
    RxLit string
  | RxSet "char \<Rightarrow> bool"
  | RxMany "char \<Rightarrow> bool"
  | RxBos
  | RxEos
  | RxSeq rx rx
  | RxAlt rx rx

fun rx_ends :: "string \<Rightarrow> rx \<Rightarrow> nat \<Rightarrow> nat list" where
  "rx_ends s (RxLit l) i = (if take (length l) (drop i s) = l then [i + length l] else [])"
| "rx_ends s (RxSet p) i = (if i < length s \<and> p (s ! i) then [Suc i] else [])"
| "rx_ends s (RxMany p) i = map (\<lambda>k. i + k) [0..<Suc (length (takeWhile p (drop i s)))]"
| "rx_ends s RxBos i = (if i = 0 then [i] else [])"
| "rx_ends s RxEos i = (if i = length s then [i] else [])"
| "rx_ends s (RxSeq a b) i = concat (map (rx_ends s b) (rx_ends s a i))"
| "rx_ends s (RxAlt a b) i = rx_ends s a i @ rx_ends s b i"

definition rx_test :: "rx \<Rightarrow> string \<Rightarrow> bool" where
  "rx_test r s = list_ex (\<lambda>i. rx_ends s r i \<noteq> []) [0..<Suc (length s)]"

text \<open>The flag i: the literals below are lower case and the subject is lower-cased.\<close>

definition rx_test_i :: "rx \<Rightarrow> string \<Rightarrow> bool" where
  "rx_test_i r s = rx_test r (to_lower s)"

definition rx_seq :: "rx list \<Rightarrow> rx" where
  "rx_seq rs = foldr RxSeq rs (RxLit [])"

definition rx_any :: "string list \<Rightarrow> rx" where
  "rx_any ls = foldr (\<lambda>l r. RxAlt (RxLit l) r) ls (RxSet (\<lambda>_. False))"

definition rx_spaces :: rx where
  "rx_spaces = RxSeq (RxSet is_space) (RxMany is_space)"

definition rx_not_newline :: rx where
  "rx_not_newline = RxMany (\<lambda>c. code_of c \<noteq> 10)"

definition rx_word_start :: rx where
  "rx_word_start = RxAlt RxBos (RxSet is_space)"

definition rx_word_end :: rx where
  "rx_word_end = RxAlt (RxSet is_space) RxEos"

section \<open>Paths\<close>

datatype realpath_result = RpOk string | RpMissing | RpFail

abbreviation slash :: char where
  "slash \<equiv> CHR ''/''"

definition isAbsolute :: "string \<Rightarrow> bool" where
  "isAbsolute p = starts_with p ''/''"

text \<open>\<open>path.resolve\<close> of an absolute path: empty and dot segments vanish, dot-dot drops one.\<close>

fun norm_segs :: "string list \<Rightarrow> string list \<Rightarrow> string list" where
  "norm_segs acc [] = rev acc"
| "norm_segs acc (s # ss) =
     (if s = ''.'' then norm_segs acc ss
      else if s = ''..'' then norm_segs (drop 1 acc) ss
      else norm_segs (s # acc) ss)"

definition path_segs :: "string \<Rightarrow> string list" where
  "path_segs p = norm_segs [] (split_tokens (\<lambda>c. c = slash) p)"

fun seg_join :: "string list \<Rightarrow> string" where
  "seg_join [] = []"
| "seg_join (s # ss) = slash # s @ seg_join ss"

definition abs_path :: "string list \<Rightarrow> string" where
  "abs_path ss = (if ss = [] then ''/'' else seg_join ss)"

text \<open>
  The loop of \<open>canonicalPathForScope\<close>: \<open>rs\<close> holds the cursor's segments, last first, \<open>sfx\<close> the
  segments already stripped; at the root the resolved input itself is returned.
\<close>

fun canonical_loop :: "(string \<Rightarrow> realpath_result) \<Rightarrow> string list \<Rightarrow> string list \<Rightarrow> string option" where
  "canonical_loop rp rs sfx = (case rp (abs_path (rev rs)) of
      RpOk target \<Rightarrow> Some (abs_path (norm_segs [] (split_tokens (\<lambda>c. c = slash) target @ sfx)))
    | RpFail \<Rightarrow> None
    | RpMissing \<Rightarrow> (case rs of
          [] \<Rightarrow> Some (abs_path sfx)
        | b # rs' \<Rightarrow> canonical_loop rp rs' (b # sfx)))"

declare canonical_loop.simps [simp del]

definition canonicalPathForScope :: "(string \<Rightarrow> realpath_result) \<Rightarrow> string \<Rightarrow> string option" where
  "canonicalPathForScope rp v =
     (if \<not> isAbsolute v then None else canonical_loop rp (rev (path_segs v)) [])"

text \<open>\<open>path.resolve\<close> of one argument, against the working directory when it is relative.\<close>

definition resolve_path :: "string \<Rightarrow> string \<Rightarrow> string" where
  "resolve_path cwd p = (if isAbsolute p then abs_path (path_segs p) else abs_path (path_segs (cwd @ ''/'' @ p)))"

definition inside :: "string \<Rightarrow> string \<Rightarrow> bool" where
  "inside base p = (p = base \<or> starts_with p (base @ ''/''))"

definition pathAllowed :: "(string \<Rightarrow> realpath_result) \<Rightarrow> string \<Rightarrow> string \<Rightarrow> string list \<Rightarrow> bool" where
  "pathAllowed rp state_dir candidate roots =
     (case canonicalPathForScope rp candidate of
        None \<Rightarrow> False
      | Some resolved \<Rightarrow>
          if (case canonicalPathForScope rp state_dir of
                Some priv \<Rightarrow> inside priv resolved | None \<Rightarrow> False) then False
          else list_ex (\<lambda>root. case canonicalPathForScope rp root of
                 Some base \<Rightarrow> inside base resolved | None \<Rightarrow> False) roots)"

section \<open>Commands\<close>

definition READ_ONLY_TOOLS :: "string list" where
  "READ_ONLY_TOOLS = [''get_config'', ''read_file'', ''read_multiple_files'', ''list_directory'',
     ''start_search'', ''get_more_search_results'', ''stop_search'', ''list_searches'',
     ''get_file_info'', ''read_process_output'', ''list_sessions'', ''list_processes'', ''get_usage_stats'']"

definition ALWAYS_BLOCKED_COMMANDS :: "rx list" where
  "ALWAYS_BLOCKED_COMMANDS =
     [rx_seq [rx_word_start, RxLit ''sudo'', rx_word_end],
      rx_seq [rx_word_start, RxLit ''rm'', rx_spaces, RxLit ''-'', rx_not_newline, RxLit ''r'', rx_not_newline, RxLit ''f''],
      rx_seq [rx_word_start,
        RxAlt (rx_any [''mkfs'', ''fdisk'', ''parted''])
          (RxAlt (rx_seq [RxLit ''diskutil'', rx_spaces, RxLit ''erase''])
             (rx_any [''shutdown'', ''reboot'', ''halt'', ''poweroff''])),
        rx_word_end],
      rx_seq [rx_word_start, RxLit ''dd'', rx_spaces, rx_not_newline, RxLit ''of=''],
      rx_seq [RxLit ''git'', rx_spaces, RxLit ''reset'', rx_spaces, RxLit ''--hard''],
      rx_seq [RxLit ''git'', rx_spaces, RxLit ''clean'', rx_spaces, RxLit ''-'', rx_not_newline, RxLit ''f''],
      rx_seq [RxLit ''git'', rx_spaces, RxLit ''push'', rx_spaces, rx_not_newline, rx_any [''--force'', ''-f''], rx_word_end]]"

definition READ_ONLY_PROGRAMS :: "string list" where
  "READ_ONLY_PROGRAMS = [''pwd'', ''whoami'', ''id'', ''hostname'', ''uname'', ''which'', ''ls'', ''find'',
     ''rg'', ''grep'', ''cat'', ''head'', ''tail'', ''wc'', ''stat'', ''file'', ''ps'', ''git'', ''node'',
     ''python'', ''python3'', ''npm'', ''npx'']"

definition READ_ONLY_GIT :: "string list" where
  "READ_ONLY_GIT = [''status'', ''diff'', ''log'', ''show'', ''branch'', ''remote'', ''rev-parse'', ''ls-files'']"

text \<open>Semicolon, ampersand, bar, angles, backquote, dollar, brackets of three kinds, newlines, backslash.\<close>

definition SHELL_SYNTAX :: "char \<Rightarrow> bool" where
  "SHELL_SYNTAX c = (code_of c \<in> {59, 38, 124, 62, 60, 96, 36, 40, 41, 123, 125, 91, 93, 10, 13, 92})"

definition is_quote :: "char \<Rightarrow> bool" where
  "is_quote c = (code_of c = 39 \<or> code_of c = 34)"

definition PATH_KEY :: rx where
  "PATH_KEY = rx_seq [RxAlt RxBos (RxLit ''_''),
     rx_any [''cwd'', ''path'', ''paths'', ''file'', ''files'', ''directory'', ''directories'',
       ''destination'', ''destinations'', ''source'', ''sources''], RxEos]"

record readonly_exec =
  re_program :: string
  re_args :: "string list"

definition traversal_word :: "string \<Rightarrow> bool" where
  "traversal_word w = (w = ''..'' \<or> starts_with w ''../'' \<or> str_includes w ''/../'')"

definition parseReadonlyCommand ::
  "(string \<Rightarrow> realpath_result) \<Rightarrow> string \<Rightarrow> string \<Rightarrow> string list \<Rightarrow> readonly_exec option" where
  "parseReadonlyCommand rp state_dir command roots =
     (let v = js_trim command in
      if v = [] \<or> list_ex SHELL_SYNTAX v \<or> list_ex is_quote v then None
      else (case split_tokens is_space v of
          [] \<Rightarrow> None
        | program # words \<Rightarrow>
            if program \<notin> set READ_ONLY_PROGRAMS then None
            else if program = ''git'' \<and> (case words of [] \<Rightarrow> True | sub # _ \<Rightarrow> sub \<notin> set READ_ONLY_GIT) then None
            else if program \<in> set [''node'', ''python'', ''python3'', ''npm'', ''npx''] \<and> words \<noteq> [''--version''] then None
            else if list_ex (\<lambda>w. isAbsolute w \<and> \<not> pathAllowed rp state_dir w roots \<or> traversal_word w) words then None
            else Some \<lparr>re_program = program, re_args = words\<rparr>))"

datatype guard_refusal =
    TargetsPrivateState
  | RequestsCredentials
  | BlockedByPattern nat
  | NotReadonlyCommand
  | NoShellInWorkspaceSafe
  | VendorOnlyTool string
  | UrlReadsDisabled
  | NotInReadOnlyAllowlist string
  | ToolNotWorkspaceSafe string
  | PathOutsideRoots string

definition private_state_pattern :: rx where
  "private_state_pattern = rx_seq
     [RxAlt RxBos (RxSet (\<lambda>c. c = slash \<or> is_space c \<or> is_quote c \<or> code_of c = 36)), RxLit ''.dex-reach'',
      RxAlt (RxSet (\<lambda>c. c = slash \<or> is_space c \<or> is_quote c)) RxEos]"

definition credential_pattern :: rx where
  "credential_pattern = rx_seq [RxLit ''dex_reach_'', rx_any [''node_token'', ''owner_password'', ''env_file'']]"

fun first_match :: "nat \<Rightarrow> rx list \<Rightarrow> string \<Rightarrow> nat option" where
  "first_match i [] s = None"
| "first_match i (r # rs) s = (if rx_test_i r s then Some i else first_match (Suc i) rs s)"

definition commandGuard ::
  "(string \<Rightarrow> realpath_result) \<Rightarrow> string \<Rightarrow> string \<Rightarrow> reach_profile \<Rightarrow> string list \<Rightarrow> guard_refusal option" where
  "commandGuard rp state_dir command profile roots =
     (if str_includes command state_dir \<or> rx_test_i private_state_pattern command then Some TargetsPrivateState
      else if rx_test_i credential_pattern command then Some RequestsCredentials
      else (case first_match 0 ALWAYS_BLOCKED_COMMANDS command of
          Some i \<Rightarrow> Some (BlockedByPattern i)
        | None \<Rightarrow>
            if profile = ProfReadOnly \<and> parseReadonlyCommand rp state_dir command roots = None then Some NotReadonlyCommand
            else if profile = ProfWorkspaceSafe then Some NoShellInWorkspaceSafe
            else None))"

section \<open>Workspace-safe refusals\<close>

datatype profile_refusal =
    UnclassifiedOperation string
  | PlanTargetNotPermitted "string option"
  | OperationNotPermitted string

definition isWorkspaceSafeNode :: "reach_profile \<Rightarrow> bool" where
  "isWorkspaceSafeNode p = (p = ProfWorkspaceSafe)"

definition workspaceSafeOperationRefusal ::
  "reach_profile \<Rightarrow> string \<Rightarrow> string option \<Rightarrow> op_error + profile_refusal option" where
  "workspaceSafeOperationRefusal profile op target =
     (if \<not> isWorkspaceSafeNode profile then Inr None
      else (case describeOperation op of
          None \<Rightarrow> Inr (Some (UnclassifiedOperation op))
        | Some d \<Rightarrow>
            if od_workspaceSafeResolvedPerTool d then Inr None
            else if od_riskInheritsFromTarget d \<and> (case given target of None \<Rightarrow> False | Some t \<Rightarrow>
                (case describeOperation t of None \<Rightarrow> False | Some d' \<Rightarrow> od_workspaceSafeResolvedPerTool d'))
              then Inr None
            else (case effectiveWorkspaceSafe op target of
                Inl e \<Rightarrow> Inl e
              | Inr True \<Rightarrow> Inr None
              | Inr False \<Rightarrow> Inr (Some (if od_riskInheritsFromTarget d then PlanTargetNotPermitted target
                               else OperationNotPermitted op)))))"

definition workspaceSafeToolRefusal :: "reach_profile \<Rightarrow> string \<Rightarrow> op_error + guard_refusal option" where
  "workspaceSafeToolRefusal profile t =
     (if \<not> isWorkspaceSafeNode profile then Inr None
      else (case requireCompatibilityTool t of
          Inl e \<Rightarrow> Inl e
        | Inr d \<Rightarrow> (case compatibilityToolWorkspaceSafe (ct_tool d) of
              Inl e \<Rightarrow> Inl e
            | Inr True \<Rightarrow> Inr None
            | Inr False \<Rightarrow> Inr (Some (ToolNotWorkspaceSafe t)))))"

section \<open>Tool calls\<close>

definition path_key :: "string \<Rightarrow> bool" where
  "path_key k = rx_test_i PATH_KEY (split_camel k)"

fun extractPaths :: "json \<Rightarrow> string \<Rightarrow> string list"
  and extractPathsList :: "json list \<Rightarrow> string \<Rightarrow> string list"
  and extractPathsFields :: "(string \<times> json) list \<Rightarrow> string list" where
  "extractPaths (JStr s) key = (if path_key key then [s] else [])"
| "extractPaths (JArr vs) key = extractPathsList vs key"
| "extractPaths (JObj kvs) key = extractPathsFields kvs"
| "extractPaths (JIso t) key = []"
| "extractPaths JNull key = []"
| "extractPaths (JBool b) key = []"
| "extractPaths (JNum r) key = []"
| "extractPathsList [] key = []"
| "extractPathsList (v # vs) key = extractPaths v key @ extractPathsList vs key"
| "extractPathsFields [] = []"
| "extractPathsFields ((k, v) # kvs) = extractPaths v k @ extractPathsFields kvs"

definition vendor_only_tools :: "string list" where
  "vendor_only_tools = [''set_config_value'', ''get_recent_tool_calls'',
     ''give_feedback_to_desktop_commander'', ''get_prompts'']"

definition toolGuard ::
  "(string \<Rightarrow> realpath_result) \<Rightarrow> string \<Rightarrow> string \<Rightarrow> json \<Rightarrow> reach_profile \<Rightarrow> string list
     \<Rightarrow> op_error + guard_refusal option" where
  "toolGuard rp state_dir t args profile roots =
     (if t \<in> set vendor_only_tools then Inr (Some (VendorOnlyTool t))
      else if t = ''read_file'' \<and> jget args ''isUrl'' = Some (JBool True) then Inr (Some UrlReadsDisabled)
      else if profile = ProfReadOnly \<and> t \<notin> set READ_ONLY_TOOLS then Inr (Some (NotInReadOnlyAllowlist t))
      else (case workspaceSafeToolRefusal profile t of
          Inl e \<Rightarrow> Inl e
        | Inr (Some r) \<Rightarrow> Inr (Some r)
        | Inr None \<Rightarrow>
            (case (if t = ''start_process'' then
                     (case string_arg args ''command'' of
                        Some c \<Rightarrow> commandGuard rp state_dir c profile roots | None \<Rightarrow> None)
                   else None) of
               Some r \<Rightarrow> Inr (Some r)
             | None \<Rightarrow> Inr (map_option PathOutsideRoots
                 (List.find (\<lambda>c. \<not> pathAllowed rp state_dir c roots) (extractPaths args []))))))"

section \<open>Capabilities and secrets a request demands\<close>

lemma jget_size [termination_simp]: "jget j k = Some v \<Longrightarrow> size v < size j"
proof (cases j)
  case (JObj kvs)
  assume "jget j k = Some v"
  then have "(k, v) \<in> set kvs" using JObj by (simp add: map_of_SomeD)
  then have "size v < Suc (size_list (size_prod (\<lambda>x. 0) size) kvs)"
    by (induction kvs) auto
  then show ?thesis using JObj by simp
qed simp_all

function requestNamesSecrets :: "json \<Rightarrow> bool" where
  "requestNamesSecrets args =
     ((case jget args ''secrets'' of None \<Rightarrow> False | Some v \<Rightarrow> v \<noteq> JNull) \<or>
      (case jget args ''arguments'' of
         Some nested \<Rightarrow> if is_object nested \<and> \<not> is_array nested then requestNamesSecrets nested else False
       | None \<Rightarrow> False))"
  by pat_completeness auto
termination
  by (relation "measure size") (auto intro: jget_size)

declare requestNamesSecrets.simps [simp del]

definition SECRET_INJECTING_OPERATIONS :: "string list" where
  "SECRET_INJECTING_OPERATIONS = [''dex.process.run'']"

datatype secret_refusal = CannotInject string | ProfileDoesNotInject reach_profile

definition secretInjectionRefusal :: "string \<Rightarrow> reach_profile \<Rightarrow> json \<Rightarrow> secret_refusal option" where
  "secretInjectionRefusal op profile args =
     (if \<not> requestNamesSecrets args then None
      else if op \<notin> set SECRET_INJECTING_OPERATIONS then Some (CannotInject op)
      else if profile = ProfReadOnly \<or> profile = ProfWorkspaceSafe then Some (ProfileDoesNotInject profile)
      else None)"

definition operationCapability :: "string \<Rightarrow> reach_capability" where
  "operationCapability op = (case describeOperation op of None \<Rightarrow> CapInspect | Some d \<Rightarrow> od_capability d)"

definition push_new :: "'a \<Rightarrow> 'a list \<Rightarrow> 'a list" where
  "push_new x xs = (if x \<in> set xs then xs else xs @ [x])"

definition requiredCapabilities :: "string \<Rightarrow> json \<Rightarrow> reach_capability list" where
  "requiredCapabilities op args =
     (let required = [operationCapability op] @
            (if op = ''dex.repoInfo'' \<and> jget args ''inspection'' \<noteq> None then [CapFileRead] else []);
          secrets = (\<lambda>caps. if requestNamesSecrets args then push_new CapSecretUse caps else caps)
      in if (case describeOperation op of None \<Rightarrow> False | Some d \<Rightarrow> od_workspaceSafeResolvedPerTool d)
         then (case describeCompatibilityTool (case string_arg args ''tool'' of Some t \<Rightarrow> t | None \<Rightarrow> []) of
             None \<Rightarrow> REACH_CAPABILITIES
           | Some known \<Rightarrow> secrets (push_new (ct_capability known) required))
         else secrets required)"

definition requestPaths :: "json \<Rightarrow> string list" where
  "requestPaths args = extractPaths args []"

definition rootsCover :: "(string \<Rightarrow> realpath_result) \<Rightarrow> string \<Rightarrow> string list \<Rightarrow> string list \<Rightarrow> bool" where
  "rootsCover rp state_dir paths roots =
     (if paths = [] then True else list_all (\<lambda>c. pathAllowed rp state_dir c roots) paths)"

text \<open>\<open>looksLikeSecretMaterial\<close> of \<open>work-coordinator.ts\<close>: a long token that mixes cases and digits.\<close>

definition looksLikeSecretMaterial :: "string \<Rightarrow> bool" where
  "looksLikeSecretMaterial v = list_ex (\<lambda>token. 20 \<le> length token \<and>
     list_ex is_lower token \<and> list_ex is_upper token \<and> list_ex is_digit token) (split_tokens (\<lambda>c. \<not> is_alnum c) v)"

section \<open>Scope is containment of segments\<close>

definition good_seg :: "string \<Rightarrow> bool" where
  "good_seg s = (s \<noteq> [] \<and> slash \<notin> set s \<and> s \<noteq> ''.'' \<and> s \<noteq> ''..'')"

definition covers :: "string list \<Rightarrow> string list \<Rightarrow> bool" where
  "covers bs ps = (bs = ps \<or> bs \<noteq> [] \<and> prefix bs ps)"

definition scope_segs :: "(string \<Rightarrow> realpath_result) \<Rightarrow> string \<Rightarrow> string list option" where
  "scope_segs rp v = map_option path_segs (canonicalPathForScope rp v)"

lemma split_tokens_set: "t \<in> set (split_tokens sep s) \<Longrightarrow> t \<noteq> [] \<and> (\<forall>c \<in> set t. \<not> sep c)"
proof (induction sep s rule: split_tokens.induct)
  case (1 sep s)
  define s' where "s' = dropWhile sep s"
  show ?case
  proof (cases "s' = []")
    case True
    with 1(2) show ?thesis by (simp add: split_tokens.simps [of sep s] s'_def)
  next
    case False
    then have "\<not> sep (hd s')" by (simp add: s'_def hd_dropWhile)
    then have hd: "takeWhile (\<lambda>c. \<not> sep c) s' \<noteq> []" using False by (cases s') auto
    have "t = takeWhile (\<lambda>c. \<not> sep c) s' \<or> t \<in> set (split_tokens sep (dropWhile (\<lambda>c. \<not> sep c) s'))"
      using 1(2) False unfolding split_tokens.simps [of sep s] Let_def s'_def [symmetric] by simp
    then show ?thesis
    proof
      assume t: "t = takeWhile (\<lambda>c. \<not> sep c) s'"
      show ?thesis unfolding t using hd set_takeWhileD [of _ "\<lambda>c. \<not> sep c" s'] by blast
    next
      assume "t \<in> set (split_tokens sep (dropWhile (\<lambda>c. \<not> sep c) s'))"
      then show ?thesis by (rule 1(1) [OF s'_def False])
    qed
  qed
qed

lemma norm_segs_good:
  "list_all good_seg acc \<Longrightarrow> (\<And>s. s \<in> set ss \<Longrightarrow> s \<noteq> [] \<and> slash \<notin> set s) \<Longrightarrow> list_all good_seg (norm_segs acc ss)"
proof (induction acc ss rule: norm_segs.induct)
  case (1 acc)
  then show ?case by simp
next
  case (2 acc s ss)
  have "list_all good_seg (drop 1 acc)" using 2(4) by (cases acc) simp_all
  moreover have "s \<noteq> ''.'' \<Longrightarrow> s \<noteq> ''..'' \<Longrightarrow> list_all good_seg (s # acc)"
    using 2(4) 2(5) [of s] by (simp add: good_seg_def [of s])
  ultimately show ?case using 2(1-3,5) 2(4) by simp
qed

lemma norm_segs_id: "list_all good_seg ss \<Longrightarrow> norm_segs acc ss = rev acc @ ss"
  by (induction acc ss rule: norm_segs.induct) (simp_all add: good_seg_def)

lemma path_segs_good [simp]: "list_all good_seg (path_segs p)"
  unfolding path_segs_def by (rule norm_segs_good) (auto dest: split_tokens_set)

lemma split_seg_join: "list_all good_seg ss \<Longrightarrow> split_tokens (\<lambda>c. c = slash) (seg_join ss) = ss"
proof (induction ss)
  case Nil
  show ?case by (simp add: split_tokens.simps [of _ "[]"])
next
  case (Cons s ss)
  then obtain a r where s: "s = a # r" "a \<noteq> slash" "slash \<notin> set r"
    by (cases s) (auto simp: good_seg_def)
  have tw: "takeWhile (\<lambda>c. c \<noteq> slash) (r @ seg_join ss) = r" "dropWhile (\<lambda>c. c \<noteq> slash) (r @ seg_join ss) = seg_join ss"
    using s(3) by (cases ss; auto simp: takeWhile_append dropWhile_append)+
  have "split_tokens (\<lambda>c. c = slash) (slash # a # r @ seg_join ss) = (a # r) # split_tokens (\<lambda>c. c = slash) (seg_join ss)"
    using s by (subst split_tokens.simps) (simp add: tw Let_def)
  then show ?case using Cons s by simp
qed

lemma path_segs_abs_path [simp]: "list_all good_seg ss \<Longrightarrow> path_segs (abs_path ss) = ss"
proof (cases "ss = []")
  case True
  then show ?thesis by (simp add: abs_path_def path_segs_def split_tokens.simps)
qed (simp add: abs_path_def path_segs_def split_seg_join norm_segs_id)

lemma norm_tokens_good:
  "list_all good_seg sfx \<Longrightarrow> list_all good_seg (norm_segs [] (split_tokens (\<lambda>c. c = slash) t @ sfx))"
  by (rule norm_segs_good) (auto simp: list_all_iff good_seg_def dest: split_tokens_set)

lemma canonical_loop_good:
  "canonical_loop rp rs sfx = Some v \<Longrightarrow> list_all good_seg rs \<Longrightarrow> list_all good_seg sfx \<Longrightarrow>
     \<exists>ss. v = abs_path ss \<and> list_all good_seg ss"
proof (induction rs arbitrary: sfx)
  case Nil
  have norm: "list_all good_seg (norm_segs [] (split_tokens (\<lambda>c. c = slash) t @ sfx))" for t
    using Nil(3) by (rule norm_tokens_good)
  show ?case
    by (cases "rp (abs_path (rev []))")
      (use Nil norm in \<open>auto simp: canonical_loop.simps [of rp "[]" sfx]\<close>)
next
  case (Cons b rs)
  have norm: "list_all good_seg (norm_segs [] (split_tokens (\<lambda>c. c = slash) t @ sfx))" for t
    using Cons.prems(3) by (rule norm_tokens_good)
  show ?case
  proof (cases "rp (abs_path (rev (b # rs)))")
    case RpMissing
    then have "canonical_loop rp rs (b # sfx) = Some v"
      using Cons.prems(1) by (simp add: canonical_loop.simps [of rp "b # rs" sfx])
    then show ?thesis using Cons.IH [of "b # sfx"] Cons.prems by simp
  qed (use Cons.prems(1) norm in \<open>auto simp: canonical_loop.simps [of rp "b # rs" sfx]\<close>)
qed

lemma canonicalPathForScope_segs:
  assumes "canonicalPathForScope rp v = Some r"
  shows "r = abs_path (path_segs r) \<and> scope_segs rp v = Some (path_segs r)"
proof -
  obtain ss where "r = abs_path ss" "list_all good_seg ss"
    using assms canonical_loop_good [of rp "rev (path_segs v)" "[]" r] path_segs_good [of v]
    by (auto simp: canonicalPathForScope_def split: if_splits)
  then show ?thesis using assms by (simp add: scope_segs_def)
qed

lemma seg_join_inside:
  "list_all good_seg bs \<Longrightarrow> list_all good_seg ps \<Longrightarrow>
     (seg_join ps = seg_join bs \<longleftrightarrow> ps = bs) \<and> (starts_with (seg_join ps) (seg_join bs @ ''/'') \<longleftrightarrow> strict_prefix bs ps)"
proof (induction bs arbitrary: ps)
  case Nil
  then show ?case by (cases ps) (auto simp: starts_with_def)
next
  case (Cons b bs)
  show ?case
  proof (cases ps)
    case (Cons q qs)
    have key: "x = y \<and> u = v" if "x @ u = y @ v" "slash \<notin> set x" "slash \<notin> set y"
      "u = [] \<or> hd u = slash" "v = [] \<or> hd v = slash" for x y u v :: string
    proof -
      have tw: "takeWhile (\<lambda>c. c \<noteq> slash) (x' @ u') = x'" if "slash \<notin> set x'" "u' = [] \<or> hd u' = slash" for x' u' :: string
        using that by (cases u') (auto simp: takeWhile_append)
      from tw [of x u] tw [of y v] that have "x = y" by metis
      with that(1) show ?thesis by simp
    qed
    have sj: "seg_join zs = [] \<or> hd (seg_join zs) = slash" for zs by (cases zs) simp_all
    have gb: "slash \<notin> set b" "slash \<notin> set q" "list_all good_seg bs" "list_all good_seg qs"
      using Cons.prems Cons by (simp_all add: good_seg_def [of b] good_seg_def [of q])
    have "seg_join ps = seg_join (b # bs) \<longleftrightarrow> ps = b # bs"
      using key [of q "seg_join qs" b "seg_join bs"] gb sj Cons.IH [of qs] Cons by auto
    moreover have "starts_with (seg_join ps) (seg_join (b # bs) @ ''/'') \<longleftrightarrow> strict_prefix (b # bs) ps"
    proof
      assume "starts_with (seg_join ps) (seg_join (b # bs) @ ''/'')"
      then obtain r where "q @ seg_join qs = b @ (seg_join bs @ ''/'' @ r)" using Cons by (auto simp: starts_with_iff)
      then have "q = b" "seg_join qs = seg_join bs @ ''/'' @ r"
        using key [of q "seg_join qs" b "seg_join bs @ ''/'' @ r"] gb sj [of qs] sj [of bs] by (cases bs; simp)+
      then show "strict_prefix (b # bs) ps" using Cons.IH [of qs] gb Cons by (auto simp: starts_with_iff)
    next
      assume "strict_prefix (b # bs) ps"
      then have "q = b" "strict_prefix bs qs" using Cons by (auto simp: strict_prefix_def)
      then show "starts_with (seg_join ps) (seg_join (b # bs) @ ''/'')"
        using Cons.IH [of qs] gb Cons by (auto simp: starts_with_iff)
    qed
    ultimately show ?thesis by blast
  qed (auto simp: starts_with_def)
qed

lemma inside_covers:
  assumes "list_all good_seg bs" "list_all good_seg ps"
  shows "inside (abs_path bs) (abs_path ps) \<longleftrightarrow> covers bs ps"
proof (cases "bs = [] \<or> ps = []")
  case True
  have "\<not> starts_with (seg_join ps) ''//''" if "ps \<noteq> []"
    using assms(2) that by (cases ps; cases "hd ps") (auto simp: starts_with_def good_seg_def)
  moreover have "seg_join ps \<noteq> ''/''" if "ps \<noteq> []"
    using assms(2) that by (cases ps; cases "hd ps") (auto simp: good_seg_def)
  moreover have "seg_join bs \<noteq> ''/'' \<and> \<not> starts_with ''/'' (seg_join bs @ ''/'')" if "bs \<noteq> []"
    using assms(1) that by (cases bs; cases "hd bs") (auto simp: good_seg_def starts_with_def)
  ultimately show ?thesis using True by (auto simp: inside_def covers_def abs_path_def starts_with_def)
next
  case False
  then show ?thesis using seg_join_inside [OF assms]
    by (auto simp: inside_def covers_def abs_path_def strict_prefix_def)
qed

lemma inside_scope:
  assumes "canonicalPathForScope rp b = Some base" "canonicalPathForScope rp c = Some p"
  shows "inside base p \<longleftrightarrow> covers (path_segs base) (path_segs p)"
  using canonicalPathForScope_segs [OF assms(1)] canonicalPathForScope_segs [OF assms(2)]
    inside_covers [of "path_segs base" "path_segs p"] by simp

text \<open>A tool call that passes the guard: where each of its promises comes from.\<close>

lemma extractPaths_occurs:
  "occurs_under key v k j \<Longrightarrow> v = JStr s \<Longrightarrow> path_key key \<Longrightarrow> s \<in> set (extractPaths j k)"
proof (induction rule: occurs_under.induct)
  case (in_array k w ws)
  then have "s \<in> set (extractPaths w k)" by simp
  then show ?case using in_array(2) by simp (induction ws; auto)
next
  case (in_object k' w kvs k)
  then have "s \<in> set (extractPaths w k')" by simp
  then show ?case using in_object(2) by simp (induction kvs; auto)
qed simp

lemma workspaceSafeToolRefusal_NoneD:
  "workspaceSafeToolRefusal ProfWorkspaceSafe t = Inr None \<Longrightarrow>
     \<exists>d. describeCompatibilityTool t = Some d \<and> ct_workspaceSafeAllowed d"
  by (auto simp: workspaceSafeToolRefusal_def isWorkspaceSafeNode_def compatibilityToolWorkspaceSafe_def
      requireCompatibilityTool_def split: option.splits sum.splits bool.splits)
    (metis describeCompatibilityTool_SomeD option.inject)

lemma toolGuard_passD:
  assumes "toolGuard rp sd t args profile roots = Inr None"
  shows "t \<notin> set vendor_only_tools" "profile = ProfReadOnly \<Longrightarrow> t \<in> set READ_ONLY_TOOLS"
    "workspaceSafeToolRefusal profile t = Inr None"
    "c \<in> set (extractPaths args []) \<Longrightarrow> pathAllowed rp sd c roots"
    "t = ''start_process'' \<Longrightarrow> string_arg args ''command'' = Some cmd \<Longrightarrow> commandGuard rp sd cmd profile roots = None"
  using assms
  by (auto simp: toolGuard_def find_None_iff_all split: if_splits sum.splits option.splits)

lemma canonical_loop_missing:
  assumes "rp (abs_path pre) = RpOk (abs_path tgt)" "list_all good_seg tgt" "list_all good_seg sfx" "list_all good_seg done"
    and "\<And>i. i < length sfx \<Longrightarrow> rp (abs_path (pre @ take (Suc i) sfx)) = RpMissing"
  shows "canonical_loop rp (rev (pre @ sfx)) done = Some (abs_path (tgt @ sfx @ done))"
  using assms(3-5)
proof (induction sfx arbitrary: "done" rule: rev_induct)
  case Nil
  have "split_tokens (\<lambda>c. c = slash) (abs_path tgt) = tgt"
    using split_seg_join [OF assms(2)] by (cases "tgt = []") (simp_all add: abs_path_def split_tokens.simps)
  then show ?case using assms(1,2) Nil.prems(2)
    by (subst canonical_loop.simps) (simp add: norm_segs_id)
next
  case (snoc x xs)
  have "rp (abs_path (pre @ xs @ [x])) = RpMissing" using snoc.prems(3) [of "length xs"] by simp
  then have "canonical_loop rp (rev (pre @ xs @ [x])) done = canonical_loop rp (rev (pre @ xs)) (x # done)"
    by (subst canonical_loop.simps) simp
  moreover have "rp (abs_path (pre @ take (Suc i) xs)) = RpMissing" if "i < length xs" for i
    using snoc.prems(3) [of i] that by simp
  ultimately show ?case using snoc.IH [of "x # done"] snoc.prems by simp
qed

lemma isAbsolute_abs_path [simp]: "isAbsolute (abs_path ss)"
  by (cases ss) (simp_all add: abs_path_def isAbsolute_def starts_with_def)

lemma split_tokens_chars: "t \<in> set (split_tokens sep s) \<Longrightarrow> set t \<subseteq> set s"
proof (induction sep s rule: split_tokens.induct)
  case (1 sep s)
  define s' where "s' = dropWhile sep s"
  have sub: "set s' \<subseteq> set s" unfolding s'_def by (meson set_dropWhileD subsetI)
  show ?case
  proof (cases "s' = []")
    case True
    with 1(2) show ?thesis by (simp add: split_tokens.simps [of sep s] s'_def)
  next
    case False
    have "t = takeWhile (\<lambda>c. \<not> sep c) s' \<or> t \<in> set (split_tokens sep (dropWhile (\<lambda>c. \<not> sep c) s'))"
      using 1(2) False unfolding split_tokens.simps [of sep s] Let_def s'_def [symmetric] by simp
    moreover have "set (takeWhile (\<lambda>c. \<not> sep c) s') \<subseteq> set s'" "set (dropWhile (\<lambda>c. \<not> sep c) s') \<subseteq> set s'"
      by (meson set_takeWhileD set_dropWhileD subsetI)+
    ultimately show ?thesis using 1(1) [OF s'_def False] sub by blast
  qed
qed

lemma requiredCapabilities_base: "operationCapability op \<in> set (requiredCapabilities op args)"
proof -
  have "c \<in> set REACH_CAPABILITIES" for c by (cases c) (simp_all add: REACH_CAPABILITIES_def)
  then show ?thesis by (auto simp: requiredCapabilities_def Let_def push_new_def split: option.splits)
qed

lemma requiredCapabilities_dc_call:
  "requiredCapabilities ''dc.call'' args =
     (case describeCompatibilityTool (case string_arg args ''tool'' of Some t \<Rightarrow> t | None \<Rightarrow> []) of
        None \<Rightarrow> REACH_CAPABILITIES
      | Some known \<Rightarrow> (if requestNamesSecrets args then push_new CapSecretUse else (\<lambda>c. c))
          (push_new (ct_capability known) [CapCompat]))"
proof -
  have "describeOperation ''dc.call'' = Some (opd ''dc.call'' CapCompat RiskShell True True True False CsGitIfAvailable False True)"
    by code_simp
  then show ?thesis by (simp add: requiredCapabilities_def operationCapability_def Let_def split: option.split)
qed

lemma effectiveWorkspaceSafe_plain:
  assumes "effectiveWorkspaceSafe op None = Inr True"
  shows "\<exists>d. requireOperation op = Inr d \<and> \<not> od_riskInheritsFromTarget d \<and> od_risk d \<in> {RiskInspect, RiskTypedMutate}"
proof -
  obtain d where d: "requireOperation op = Inr d" "\<not> od_riskInheritsFromTarget d" "od_workspaceSafeAllowed d"
    using assms by (cases "requireOperation op") (auto simp: effectiveWorkspaceSafe.simps given_def split: if_splits)
  then show ?thesis using workspace_safe_operation_risk requireOperation_InrD [OF d(1)] by blast
qed

lemma effectiveWorkspaceSafe_risk:
  assumes "effectiveWorkspaceSafe op target = Inr True"
  shows "\<exists>r \<in> {RiskInspect, RiskTypedMutate}. effectiveRisk op target = Inr r"
proof -
  obtain d where d: "requireOperation op = Inr d"
    using assms by (cases "requireOperation op") (simp_all add: effectiveWorkspaceSafe.simps)
  show ?thesis
  proof (cases "od_riskInheritsFromTarget d")
    case False
    then have "od_workspaceSafeAllowed d" using assms d by (simp add: effectiveWorkspaceSafe.simps split: if_splits)
    then show ?thesis using workspace_safe_operation_risk requireOperation_InrD [OF d] d False
      by (auto simp: effectiveRisk_def)
  next
    case True
    then obtain t where t: "given target = Some t" and "effectiveWorkspaceSafe t None = Inr True"
      using assms d by (cases "given target")
        (simp_all add: effectiveWorkspaceSafe.simps [of op target] split: if_splits)
    then show ?thesis using effectiveWorkspaceSafe_plain [of t] d True by (auto simp: effectiveRisk_def)
  qed
qed

section \<open>Properties\<close>

definition ex_rp :: "string \<Rightarrow> realpath_result" where
  "ex_rp p = (if p = ''/home/proj'' then RpOk ''/data/proj''
     else if p \<in> set [''/data/proj'', ''/home'', ''/data'', ''/home/.dex-reach''] then RpOk p
     else RpMissing)"




text \<open>
  The scope of a path that does not exist yet is the resolved location of its deepest existing
  ancestor followed by the missing names, so a future write below a symbolic link is judged at the
  place the link points to.
\<close>

theorem canonical_of_new_path:
  assumes "rp (abs_path pre) = RpOk (abs_path tgt)" "list_all good_seg tgt" "list_all good_seg (pre @ sfx)"
    and "\<And>i. i < length sfx \<Longrightarrow> rp (abs_path (pre @ take (Suc i) sfx)) = RpMissing"
  shows "canonicalPathForScope rp (abs_path (pre @ sfx)) = Some (abs_path (tgt @ sfx))"
  using canonical_loop_missing [OF assms(1,2) _ _ assms(4), of "[]"] assms(3)
  by (simp add: canonicalPathForScope_def)

theorem canonical_of_new_path_witness:
  "canonicalPathForScope ex_rp ''/home/proj/a/b'' = Some ''/data/proj/a/b''"
proof -
  have p: "ex_rp (abs_path [''home'', ''proj'']) = RpOk (abs_path [''data'', ''proj''])" by code_simp
  have "ex_rp (abs_path ([''home'', ''proj''] @ take (Suc i) [''a'', ''b''])) = RpMissing" if "i < length [''a'', ''b'']" for i
  proof -
    have "i = 0 \<or> i = 1" using that by auto
    then show ?thesis by (auto simp: ex_rp_def abs_path_def)
  qed
  from canonical_of_new_path [OF p _ _ this] show ?thesis by (simp add: good_seg_def abs_path_def)
qed

text \<open>
  C0: A compatibility tool call that passes \<open>toolGuard\<close> is no vendor-only tool; every string sitting
  at any depth of its arguments under a path-bearing member name is inside the allowed roots; under
  the read-only profile the tool is on the read-only allowlist, and under workspace-safe it is a
  declared tool marked workspace-safe, hence without shell capability and without risk above typed
  mutation.
\<close>

theorem toolGuard_sound:
  assumes "toolGuard rp sd t args profile roots = Inr None"
  shows "t \<notin> set vendor_only_tools
    \<and> (occurs_under key (JStr p) [] args \<and> path_key key \<longrightarrow> pathAllowed rp sd p roots)
    \<and> (profile = ProfReadOnly \<longrightarrow> t \<in> set READ_ONLY_TOOLS)
    \<and> (profile = ProfWorkspaceSafe \<longrightarrow> (\<exists>d. describeCompatibilityTool t = Some d \<and> ct_workspaceSafeAllowed d
         \<and> ct_capability d \<noteq> CapProcessShell \<and> ct_risk d \<in> {RiskInspect, RiskTypedMutate}))"
proof (intro conjI impI)
  show "t \<notin> set vendor_only_tools" by (rule toolGuard_passD(1) [OF assms])
  show "pathAllowed rp sd p roots" if "occurs_under key (JStr p) [] args \<and> path_key key"
    using that extractPaths_occurs toolGuard_passD(4) [OF assms] by blast
  show "t \<in> set READ_ONLY_TOOLS" if "profile = ProfReadOnly" by (rule toolGuard_passD(2) [OF assms that])
  show "\<exists>d. describeCompatibilityTool t = Some d \<and> ct_workspaceSafeAllowed d
      \<and> ct_capability d \<noteq> CapProcessShell \<and> ct_risk d \<in> {RiskInspect, RiskTypedMutate}" if "profile = ProfWorkspaceSafe"
    using toolGuard_passD(3) [OF assms] that workspaceSafeToolRefusal_NoneD [of t]
    by (auto dest: describeCompatibilityTool_SomeD workspace_safe_tool_risk)
qed

theorem toolGuard_sound_witness:
  "pathAllowed ex_rp ''/home/.dex-reach'' ''/home/proj/a'' [''/data/proj'']"
proof -
  have g: "toolGuard ex_rp ''/home/.dex-reach'' ''write_file''
      (JObj [(''file_path'', JStr ''/home/proj/a''), (''text'', JStr ''/etc'')]) ProfWorkspaceSafe [''/data/proj''] = Inr None"
    by code_simp
  have k: "path_key ''file_path''" by code_simp
  have "occurs_under ''file_path'' (JStr ''/home/proj/a'') []
      (JObj [(''file_path'', JStr ''/home/proj/a''), (''text'', JStr ''/etc'')])"
    using occurs_under.here by fastforce
  then show ?thesis using toolGuard_sound [OF g] k by blast
qed

text \<open>
  A command the read-only grammar accepts is shell-free: its program is on the allowlist, no word
  holds a shell metacharacter, a quote or white space, every absolute word is inside the allowed
  roots, no word climbs with a dot-dot segment before a slash, git runs only an inspection
  subcommand and interpreters only print their version.
\<close>

theorem parseReadonlyCommand_sound:
  assumes "parseReadonlyCommand rp sd command roots = Some e"
  shows "re_program e \<in> set READ_ONLY_PROGRAMS
    \<and> (\<forall>w \<in> set (re_args e). w \<noteq> [] \<and> \<not> list_ex SHELL_SYNTAX w \<and> \<not> list_ex is_quote w \<and> \<not> list_ex is_space w
         \<and> \<not> traversal_word w \<and> (isAbsolute w \<longrightarrow> pathAllowed rp sd w roots))
    \<and> (re_program e = ''git'' \<longrightarrow> re_args e \<noteq> [] \<and> hd (re_args e) \<in> set READ_ONLY_GIT)
    \<and> (re_program e \<in> set [''node'', ''python'', ''python3'', ''npm'', ''npx''] \<longrightarrow> re_args e = [''--version''])"
proof -
  define v where "v = js_trim command"
  obtain program args where sp: "split_tokens is_space v = program # args"
    and e: "e = \<lparr>re_program = program, re_args = args\<rparr>"
    and clean: "\<not> list_ex SHELL_SYNTAX v" "\<not> list_ex is_quote v"
    and pr: "program \<in> set READ_ONLY_PROGRAMS"
    and git: "\<not> (program = ''git'' \<and> (case args of [] \<Rightarrow> True | sub # _ \<Rightarrow> sub \<notin> set READ_ONLY_GIT))"
    and ver: "\<not> (program \<in> set [''node'', ''python'', ''python3'', ''npm'', ''npx''] \<and> args \<noteq> [''--version''])"
    and ws: "\<not> list_ex (\<lambda>w. isAbsolute w \<and> \<not> pathAllowed rp sd w roots \<or> traversal_word w) args"
    using assms unfolding parseReadonlyCommand_def Let_def v_def [symmetric]
    by (simp split: if_splits list.splits)
  have "w \<noteq> [] \<and> \<not> list_ex SHELL_SYNTAX w \<and> \<not> list_ex is_quote w \<and> \<not> list_ex is_space w" if "w \<in> set args" for w
  proof -
    have w: "w \<in> set (split_tokens is_space v)" using that sp by simp
    show ?thesis using split_tokens_set [OF w] split_tokens_chars [OF w] clean by (auto simp: list_ex_iff)
  qed
  with e pr git ver ws show ?thesis by (auto simp: list_ex_iff split: list.splits)
qed

theorem parseReadonlyCommand_sound_witness:
  "\<not> list_ex SHELL_SYNTAX ''log'' \<and> pathAllowed ex_rp ''/home/.dex-reach'' ''/data/proj/a'' [''/data/proj'']"
proof -
  have "parseReadonlyCommand ex_rp ''/home/.dex-reach'' '' git log  /data/proj/a '' [''/data/proj'']
      = Some \<lparr>re_program = ''git'', re_args = [''log'', ''/data/proj/a'']\<rparr>" by code_simp
  from parseReadonlyCommand_sound [OF this] show ?thesis by (simp add: isAbsolute_def starts_with_def)
qed

text \<open>
  The read-only guard does not exclude mutation by an allowlisted program: find with its delete
  action passes the guard on every node whose private state directory the command does not name.
\<close>

theorem readonly_guard_admits_find_delete:
  "commandGuard rp ''/home/u/.dex-reach'' ''find . -delete'' ProfReadOnly roots = None"
proof -
  have fixed: "\<not> str_includes ''find . -delete'' ''/home/u/.dex-reach''" "\<not> rx_test_i private_state_pattern ''find . -delete''"
    "\<not> rx_test_i credential_pattern ''find . -delete''" "first_match 0 ALWAYS_BLOCKED_COMMANDS ''find . -delete'' = None"
    "js_trim ''find . -delete'' = ''find . -delete''"
    "\<not> (list_ex SHELL_SYNTAX ''find . -delete'' \<or> list_ex is_quote ''find . -delete'')"
    "split_tokens is_space ''find . -delete'' = [''find'', ''.'', ''-delete'']"
    "''find'' \<in> set READ_ONLY_PROGRAMS" "\<not> isAbsolute ''.''" "\<not> isAbsolute ''-delete''" "\<not> traversal_word ''.''" "\<not> traversal_word ''-delete''"
    by code_simp+
  then have "parseReadonlyCommand rp ''/home/u/.dex-reach'' ''find . -delete'' roots
      = Some \<lparr>re_program = ''find'', re_args = [''.'', ''-delete'']\<rparr>"
    unfolding parseReadonlyCommand_def Let_def by simp
  with fixed show ?thesis unfolding commandGuard_def by simp
qed

text \<open>
  A routed compatibility call cannot launder authority: the capabilities demanded for it hold the
  wrapper's compat capability and the wrapped tool's own, an unnamed or undeclared tool demands all
  seven, and a request that names a stored secret at any nesting of arguments demands secret.use
  whatever the operation is.
\<close>

theorem requiredCapabilities_no_laundering:
  "CapCompat \<in> set (requiredCapabilities ''dc.call'' args)
   \<and> (case describeCompatibilityTool (case string_arg args ''tool'' of Some t \<Rightarrow> t | None \<Rightarrow> []) of
        Some d \<Rightarrow> ct_capability d \<in> set (requiredCapabilities ''dc.call'' args)
      | None \<Rightarrow> set (requiredCapabilities ''dc.call'' args) = UNIV)
   \<and> (requestNamesSecrets args \<longrightarrow> CapSecretUse \<in> set (requiredCapabilities op args))"
proof -
  have all: "set REACH_CAPABILITIES = UNIV"
  proof -
    have "c \<in> set REACH_CAPABILITIES" for c by (cases c) (simp_all add: REACH_CAPABILITIES_def)
    then show ?thesis by blast
  qed
  have "CapSecretUse \<in> set (requiredCapabilities op args)" if "requestNamesSecrets args"
    using that all by (auto simp: requiredCapabilities_def Let_def push_new_def split: option.splits)
  with all show ?thesis
    by (auto simp: requiredCapabilities_dc_call push_new_def split: option.splits)
qed

theorem requiredCapabilities_no_laundering_witness:
  "CapSecretUse \<in> set (requiredCapabilities ''dex.plan''
     (JObj [(''arguments'', JObj [(''arguments'', JObj [(''secrets'', JArr [])])])]))"
proof -
  have "requestNamesSecrets (JObj [(''arguments'', JObj [(''arguments'', JObj [(''secrets'', JArr [])])])])"
    by (simp add: requestNamesSecrets.simps)
  then show ?thesis using requiredCapabilities_no_laundering by blast
qed

text \<open>
  On a workspace-safe node an operation the profile does not refuse is either decided per tool
  later (a compatibility call, or the commit of a plan for one) or carries, itself or through its
  planned target, no risk above typed mutation; in particular no shell operation is let through.
\<close>

theorem workspaceSafe_admits_no_shell:
  assumes "workspaceSafeOperationRefusal ProfWorkspaceSafe op target = Inr None"
  shows "op = ''dc.call'' \<or> op = ''dex.commitPlan'' \<and> target = Some ''dc.call''
     \<or> (\<exists>r \<in> {RiskInspect, RiskTypedMutate}. effectiveRisk op target = Inr r)"
proof -
  obtain d where d: "describeOperation op = Some d"
    using assms by (cases "describeOperation op") (simp_all add: workspaceSafeOperationRefusal_def isWorkspaceSafeNode_def)
  have per_tool: "x = ''dc.call''" if "describeOperation x = Some e" "od_workspaceSafeResolvedPerTool e" for x e
    using that only_dc_call_per_tool describeOperation_SomeD by blast
  have commit: "op = ''dex.commitPlan''" if "od_riskInheritsFromTarget d"
    using that only_commitPlan_inherits describeOperation_SomeD [OF d] by blast
  consider "od_workspaceSafeResolvedPerTool d"
    | "od_riskInheritsFromTarget d" "case given target of None \<Rightarrow> False | Some t \<Rightarrow>
        (case describeOperation t of None \<Rightarrow> False | Some d' \<Rightarrow> od_workspaceSafeResolvedPerTool d')"
    | "effectiveWorkspaceSafe op target = Inr True"
    using assms d by (auto simp: workspaceSafeOperationRefusal_def isWorkspaceSafeNode_def
        split: if_splits sum.splits bool.splits)
  then show ?thesis
  proof cases
    case 1
    then show ?thesis using per_tool [OF d] by simp
  next
    case 2
    then show ?thesis using commit per_tool by (auto simp: given_def split: option.splits if_splits)
  next
    case 3
    then show ?thesis using effectiveWorkspaceSafe_risk by blast
  qed
qed

theorem workspaceSafe_admits_no_shell_witness:
  "\<exists>r \<in> {RiskInspect, RiskTypedMutate}. effectiveRisk ''dex.commitPlan'' (Some ''dex.file.write'') = Inr r"
proof -
  have "workspaceSafeOperationRefusal ProfWorkspaceSafe ''dex.commitPlan'' (Some ''dex.file.write'') = Inr None"
    by code_simp
  from workspaceSafe_admits_no_shell [OF this] show ?thesis by simp
qed

end
