(* ===== verification/Reach_Access.thy ===== *)
theory Reach_Access
  imports Reach_Security Reach_Budget
begin

text \<open>
  The owner's access policy: \<open>src/src/shared/access.ts\<close> with the custom assertions and the policy
  history of \<open>policy-assertions.ts\<close>. The policy files of a node are a record of JSON documents
  and history lines; every operation that runs under the access lock is one function on that
  record. What the code takes from its surroundings (file system, environment variable, hash
  function, liveness, schema parser, working directory) is gathered in \<open>node_env\<close>.

  A grant keeps the strings of its capability and root arrays; an array element that is not a
  string, which no writer of the program produces, reads as the empty string, which names no
  capability and covers no path.
\<close>

section \<open>Surroundings\<close>

record node_env =
  ne_realpath :: "string \<Rightarrow> realpath_result"
  ne_stateDir :: string
  ne_cwd :: string
  ne_initialAccess :: "string option"
  ne_hash :: "json \<Rightarrow> string"
  ne_alive :: "int \<Rightarrow> bool"
  ne_pid :: int
  ne_parse :: "json \<Rightarrow> inspection_op list option"

definition path_resolve :: "node_env \<Rightarrow> string \<Rightarrow> string" where
  "path_resolve env p = resolve_path (ne_cwd env) p"

fun capability_string :: "reach_capability \<Rightarrow> string" where
  "capability_string CapInspect = ''inspect''"
| "capability_string CapFileRead = ''file.read''"
| "capability_string CapFileWrite = ''file.write''"
| "capability_string CapCheckpoint = ''checkpoint''"
| "capability_string CapProcessShell = ''process.shell''"
| "capability_string CapCompat = ''compat''"
| "capability_string CapSecretUse = ''secret.use''"

definition as_capability :: "string \<Rightarrow> reach_capability option" where
  "as_capability s = List.find (\<lambda>c. capability_string c = s) REACH_CAPABILITIES"

section \<open>Policy state and its file\<close>

record capability_grant =
  cg_id :: string
  cg_client :: string
  cg_capabilities :: "string list"
  cg_roots :: "string list"
  cg_until :: timestamp
  cg_maxUses :: "rat option"
  cg_uses :: rat
  cg_createdAt :: timestamp

record access_state =
  as_revision :: int
  as_mode :: access_mode
  as_until :: "timestamp option"
  as_revertTo :: "access_mode option"
  as_clients :: "client_kind \<Rightarrow> access_mode option"
  as_grantRequired :: "client_kind \<Rightarrow> bool option"
  as_grants :: "capability_grant list"
  as_updatedAt :: timestamp

definition json_mode :: "json \<Rightarrow> access_mode option" where
  "json_mode j = (case json_string j of Some s \<Rightarrow> as_access_mode s | None \<Rightarrow> None)"

definition defaultAccessState :: "node_env \<Rightarrow> int \<Rightarrow> access_state" where
  "defaultAccessState env now =
     \<lparr>as_revision = 0,
      as_mode = (case ne_initialAccess env of
          Some s \<Rightarrow> (case as_access_mode s of Some m \<Rightarrow> m | None \<Rightarrow> Off) | None \<Rightarrow> Off),
      as_until = None, as_revertTo = None, as_clients = (\<lambda>_. None), as_grantRequired = (\<lambda>_. None),
      as_grants = [], as_updatedAt = Iso now\<rparr>"

definition sanitizeClients :: "json option \<Rightarrow> client_kind \<Rightarrow> access_mode option" where
  "sanitizeClients v k = (case v of None \<Rightarrow> None | Some j \<Rightarrow> field json_mode j (client_string k))"

definition sanitizeGrantRequired :: "json option \<Rightarrow> client_kind \<Rightarrow> bool option" where
  "sanitizeGrantRequired v k = (case v of None \<Rightarrow> None | Some j \<Rightarrow> bool_field j (client_string k))"

definition json_text :: "json \<Rightarrow> string" where
  "json_text j = (case json_string j of Some s \<Rightarrow> s | None \<Rightarrow> [])"

text \<open>null or a number; any other value, or none, makes the grant malformed.\<close>

definition null_or_num :: "json \<Rightarrow> rat option option" where
  "null_or_num j = (if j = JNull then Some None else map_option Some (json_num j))"

definition decodeGrant :: "json \<Rightarrow> capability_grant option" where
  "decodeGrant g = (case (str_field g ''id'', str_field g ''client'', arr_field g ''capabilities'',
        arr_field g ''roots'', stamp_field g ''until'', num_field g ''uses'', field null_or_num g ''maxUses'',
        stamp_field g ''createdAt'') of
      (Some i, Some c, Some cs, Some rs, Some u, Some n, Some m, Some t) \<Rightarrow>
        Some \<lparr>cg_id = i, cg_client = c, cg_capabilities = map json_text cs, cg_roots = map json_text rs,
              cg_until = u, cg_maxUses = m, cg_uses = n, cg_createdAt = t\<rparr>
    | _ \<Rightarrow> None)"

definition sanitizeGrants :: "json option \<Rightarrow> capability_grant list" where
  "sanitizeGrants v = (case v of
      Some (JArr gs) \<Rightarrow> List.map_filter decodeGrant gs
    | _ \<Rightarrow> [])"

definition supported_version :: "json \<Rightarrow> bool" where
  "supported_version j = ((case jget j ''version'' of
      None \<Rightarrow> Some 1 | Some JNull \<Rightarrow> Some 1 | Some v \<Rightarrow> js_to_number v) \<in> {Some 1, Some 2, Some 3})"

definition decodeAccessState :: "json \<Rightarrow> access_state option" where
  "decodeAccessState parsed =
     (if \<not> is_object parsed \<or> \<not> supported_version parsed then None
      else (case field json_mode parsed ''mode'' of
          None \<Rightarrow> None
        | Some mode \<Rightarrow> Some
            \<lparr>as_revision = nonneg_int_or_0 (jget parsed ''revision''),
             as_mode = mode,
             as_until = stamp_field parsed ''until'',
             as_revertTo = field json_mode parsed ''revertTo'',
             as_clients = sanitizeClients (jget parsed ''clients''),
             as_grantRequired = sanitizeGrantRequired (jget parsed ''grantRequired''),
             as_grants = sanitizeGrants (jget parsed ''grants''),
             as_updatedAt = stamp_or_epoch (jget parsed ''updatedAt'')\<rparr>))"

definition encodeGrant :: "capability_grant \<Rightarrow> json" where
  "encodeGrant g = JObj
     [(''id'', JStr (cg_id g)), (''client'', JStr (cg_client g)),
      (''capabilities'', JArr (map JStr (cg_capabilities g))), (''roots'', JArr (map JStr (cg_roots g))),
      (''until'', stamp_json (cg_until g)), (''maxUses'', json_opt JNum (cg_maxUses g)),
      (''uses'', JNum (cg_uses g)), (''createdAt'', stamp_json (cg_createdAt g))]"

definition encodeMap :: "('a \<Rightarrow> json) \<Rightarrow> (client_kind \<Rightarrow> 'a option) \<Rightarrow> json" where
  "encodeMap f m = JObj (concat (map (\<lambda>k. case m k of
      None \<Rightarrow> [] | Some v \<Rightarrow> [(client_string k, f v)]) CLIENT_KINDS))"

definition encodeAccessState :: "access_state \<Rightarrow> json" where
  "encodeAccessState s = JObj
     [(''version'', JNum 3), (''revision'', JNum (of_int (as_revision s))),
      (''mode'', JStr (mode_string (as_mode s))), (''until'', json_opt stamp_json (as_until s)),
      (''revertTo'', json_opt (\<lambda>m. JStr (mode_string m)) (as_revertTo s)),
      (''clients'', encodeMap (\<lambda>m. JStr (mode_string m)) (as_clients s)),
      (''grantRequired'', encodeMap JBool (as_grantRequired s)),
      (''grants'', JArr (map encodeGrant (as_grants s))),
      (''updatedAt'', stamp_json (as_updatedAt s))]"

text \<open>\<open>readAccessStateUnlocked\<close>: (state, exists, valid).\<close>

definition readAccessStateUnlocked :: "node_env \<Rightarrow> json stored \<Rightarrow> int \<Rightarrow> access_state \<times> bool \<times> bool" where
  "readAccessStateUnlocked env f now = (case f of
      Contents parsed \<Rightarrow> (case decodeAccessState parsed of
          Some s \<Rightarrow> (s, True, True)
        | None \<Rightarrow> ((defaultAccessState env now)\<lparr>as_mode := Off\<rparr>, True, False))
    | Absent \<Rightarrow> (defaultAccessState env now, False, True)
    | Unreadable \<Rightarrow> ((defaultAccessState env now)\<lparr>as_mode := Off\<rparr>, True, False))"

section \<open>Modes and authorization\<close>

definition resolveMode :: "access_state \<Rightarrow> int \<Rightarrow> access_mode" where
  "resolveMode s now = (case as_until s of
      None \<Rightarrow> as_mode s
    | Some u \<Rightarrow> (case date_parse u of
          Some t \<Rightarrow> if t \<le> now then (case as_revertTo s of Some m \<Rightarrow> m | None \<Rightarrow> Off) else as_mode s
        | None \<Rightarrow> as_mode s))"

definition actor_kind :: "request_actor option \<Rightarrow> client_kind" where
  "actor_kind a = (case a of Some x \<Rightarrow> act_kind x | None \<Rightarrow> OtherClient)"

definition modeForActor :: "access_state \<Rightarrow> request_actor option \<Rightarrow> int \<Rightarrow> access_mode" where
  "modeForActor s actor now = (case as_clients s (actor_kind actor) of
      Some ceil \<Rightarrow> minMode (resolveMode s now) ceil
    | None \<Rightarrow> resolveMode s now)"

text \<open>Refusals; the flag says whether the refusal is scoped to the client rather than to the node.\<close>

datatype access_refusal =
    RemoteDisabled bool
  | LimitedToReadOnly bool
  | GrantRequiredFor client_kind

datatype access_decision =
    AccAllowed reach_profile "string option"
  | AccDenied access_refusal

text \<open>The conditions under which a grant is live; shared by authorization and task control.\<close>

definition grant_live :: "capability_grant \<Rightarrow> int \<Rightarrow> bool" where
  "grant_live g now = ((case date_parse (cg_until g) of Some t \<Rightarrow> t > now | None \<Rightarrow> False) \<and>
     (case cg_maxUses g of None \<Rightarrow> True | Some m \<Rightarrow> cg_uses g < m))"

definition grant_covers :: "node_env \<Rightarrow> capability_grant \<Rightarrow> reach_capability list \<Rightarrow> string list \<Rightarrow> bool" where
  "grant_covers env g caps paths =
     (list_all (\<lambda>c. capability_string c \<in> set (cg_capabilities g)) caps \<and>
      rootsCover (ne_realpath env) (ne_stateDir env) paths (cg_roots g))"

definition activeGrant :: "node_env \<Rightarrow> access_state \<Rightarrow> request_actor option \<Rightarrow> string \<Rightarrow> json \<Rightarrow> int \<Rightarrow> capability_grant option" where
  "activeGrant env s actor op args now =
     List.find (\<lambda>g. cg_client g = client_string (actor_kind actor) \<and> grant_live g now \<and>
        grant_covers env g (requiredCapabilities op args) (requestPaths args)) (as_grants s)"

definition authorizeOperation ::
  "node_env \<Rightarrow> access_state \<Rightarrow> request_actor option \<Rightarrow> string \<Rightarrow> reach_profile \<Rightarrow> int \<Rightarrow> json \<Rightarrow> access_decision" where
  "authorizeOperation env s actor op profile now args =
     (let mode = modeForActor s actor now;
          scoped = (as_clients s (actor_kind actor) \<noteq> None \<and> RANK mode < RANK (resolveMode s now));
          kind = actor_kind actor
      in if mode = Off then AccDenied (RemoteDisabled scoped)
         else if mode = ReadOnly then
           (if op \<in> set readOnlyInspectOperations then AccAllowed ProfReadOnly None
            else if op \<in> set readOnlyDelegatedOperations then AccAllowed ProfReadOnly None
            else AccDenied (LimitedToReadOnly scoped))
         else if op = ''dex.plan'' \<or> op = ''dex.commitPlan'' then AccAllowed profile None
         else if as_grantRequired s kind = Some True then
           (case activeGrant env s actor op args now of
              None \<Rightarrow> AccDenied (GrantRequiredFor kind)
            | Some g \<Rightarrow> AccAllowed profile (Some (cg_id g)))
         else AccAllowed profile None)"

definition acc_allowed :: "access_decision \<Rightarrow> bool" where
  "acc_allowed d = (case d of AccAllowed _ _ \<Rightarrow> True | AccDenied _ \<Rightarrow> False)"

section \<open>Policy checks and custom assertions\<close>

datatype policy_error =
    RevisionInvalid
  | GrantInvalidClient string
  | GrantInvalidCapability string
  | GrantNoCapabilities string
  | GrantNoRoots string
  | GrantInvalidExpiry string
  | GrantMaxUsesInvalid string
  | OffInvariantFailed
  | ReadOnlyInvariantFailed
  | AssertionHolds string reach_capability
  | AssertionUnrestrictedShell string
  | AssertionWriteEscape string
  | AssertionUnrestrictedWrite string

definition err_if :: "bool \<Rightarrow> 'e \<Rightarrow> 'e list" where
  "err_if b e = (if b then [e] else [])"

definition grant_errors :: "capability_grant \<Rightarrow> policy_error list" where
  "grant_errors g =
     err_if (as_client_kind (cg_client g) = None) (GrantInvalidClient (cg_id g)) @
     err_if (list_ex (\<lambda>c. as_capability c = None) (cg_capabilities g)) (GrantInvalidCapability (cg_id g)) @
     err_if (cg_capabilities g = []) (GrantNoCapabilities (cg_id g)) @
     err_if (cg_roots g = []) (GrantNoRoots (cg_id g)) @
     err_if (date_parse (cg_until g) = None) (GrantInvalidExpiry (cg_id g)) @
     err_if (case cg_maxUses g of None \<Rightarrow> False | Some m \<Rightarrow> \<not> is_integer m \<or> m \<le> 0) (GrantMaxUsesInvalid (cg_id g))"

definition policyCheck :: "node_env \<Rightarrow> access_state \<Rightarrow> int \<Rightarrow> policy_error list" where
  "policyCheck env s now =
     err_if (as_revision s < 0) RevisionInvalid @
     concat (map grant_errors (as_grants s)) @
     err_if (acc_allowed (authorizeOperation env (s\<lparr>as_mode := Off\<rparr>) None ''dex.fingerprint'' ProfFullLocal now (JObj [])))
       OffInvariantFailed @
     err_if (acc_allowed (authorizeOperation env (s\<lparr>as_mode := ReadOnly\<rparr>) None ''dex.file.write'' ProfFullLocal now (JObj [])))
       ReadOnlyInvariantFailed"

record policy_assertion =
  pa_id :: string
  pa_client :: client_kind
  pa_forbidCapabilities :: "reach_capability list"
  pa_writeRoots :: "string list"
  pa_note :: string
  pa_createdAt :: timestamp

definition json_capability :: "json \<Rightarrow> reach_capability option" where
  "json_capability j = (case json_string j of Some s \<Rightarrow> as_capability s | None \<Rightarrow> None)"

definition absolute_root :: "json \<Rightarrow> string option" where
  "absolute_root j = (case json_string j of
      Some s \<Rightarrow> if isAbsolute s then Some (abs_path (path_segs s)) else None | None \<Rightarrow> None)"

definition decodeAssertion :: "json \<Rightarrow> policy_assertion option" where
  "decodeAssertion j = (case (str_field j ''id'', field json_client j ''client'',
        (case arr_field j ''forbidCapabilities'' of None \<Rightarrow> None | Some cs \<Rightarrow> decode_all json_capability cs),
        (case arr_field j ''writeRoots'' of None \<Rightarrow> None | Some rs \<Rightarrow> decode_all absolute_root rs),
        str_field j ''note'', stamp_field j ''createdAt'') of
      (Some i, Some c, Some caps, Some roots, Some note, Some t) \<Rightarrow>
        if i = [] \<or> js_trim note = [] then None
        else Some \<lparr>pa_id = i, pa_client = c, pa_forbidCapabilities = caps, pa_writeRoots = roots,
                   pa_note = js_trim note, pa_createdAt = t\<rparr>
    | _ \<Rightarrow> None)"

definition encodeAssertion :: "policy_assertion \<Rightarrow> json" where
  "encodeAssertion a = JObj
     [(''id'', JStr (pa_id a)), (''client'', JStr (client_string (pa_client a))),
      (''forbidCapabilities'', JArr (map (\<lambda>c. JStr (capability_string c)) (pa_forbidCapabilities a))),
      (''writeRoots'', JArr (map JStr (pa_writeRoots a))),
      (''note'', JStr (pa_note a)), (''createdAt'', stamp_json (pa_createdAt a))]"

definition encodeAssertions :: "policy_assertion list \<Rightarrow> json" where
  "encodeAssertions as = JObj [(''version'', JNum 1), (''assertions'', JArr (map encodeAssertion as))]"

text \<open>\<open>readAssertionsUnlocked\<close>: (assertions, valid, exists).\<close>

definition readAssertionsUnlocked :: "json stored \<Rightarrow> policy_assertion list \<times> bool \<times> bool" where
  "readAssertionsUnlocked f = (case f of
      Contents parsed \<Rightarrow>
        if \<not> is_object parsed \<or> \<not> version_is_1 parsed then ([], False, True)
        else (case arr_field parsed ''assertions'' of
            None \<Rightarrow> ([], False, True)
          | Some es \<Rightarrow> (case decode_all decodeAssertion es of
                None \<Rightarrow> ([], False, True)
              | Some as \<Rightarrow> (as, True, True)))
    | Absent \<Rightarrow> ([], True, False)
    | Unreadable \<Rightarrow> ([], False, True))"

definition assertion_errors :: "access_state \<Rightarrow> policy_assertion \<Rightarrow> policy_error list" where
  "assertion_errors s a =
     (let k = pa_client a;
          effective = (case as_clients s k of
              Some ceil \<Rightarrow> if RANK ceil < RANK (as_mode s) then ceil else as_mode s
            | None \<Rightarrow> as_mode s);
          open_ended = (effective = On \<and> as_grantRequired s k \<noteq> Some True);
          grants = filter (\<lambda>g. cg_client g = client_string k) (as_grants s);
          writers = filter (\<lambda>g. ''file.write'' \<in> set (cg_capabilities g)) grants
      in concat (map (\<lambda>c.
             err_if (list_ex (\<lambda>g. capability_string c \<in> set (cg_capabilities g)) grants) (AssertionHolds (pa_id a) c) @
             err_if (c = CapProcessShell \<and> open_ended) (AssertionUnrestrictedShell (pa_id a)))
           (pa_forbidCapabilities a)) @
         (if pa_writeRoots a = [] then []
          else concat (map (\<lambda>g. err_if (\<not> list_all (\<lambda>root. list_ex (\<lambda>base. inside base root) (pa_writeRoots a)) (cg_roots g))
                  (AssertionWriteEscape (pa_id a))) writers) @
               err_if open_ended (AssertionUnrestrictedWrite (pa_id a))))"

definition evaluateCustomAssertions :: "access_state \<Rightarrow> policy_assertion list \<Rightarrow> policy_error list" where
  "evaluateCustomAssertions s as = concat (map (assertion_errors s) as)"

section \<open>The policy store\<close>

record history_entry =
  he_revision :: rat
  he_at :: timestamp
  he_hash :: string
  he_restoredFrom :: "int option"
  he_state :: json

text \<open>A line of the history file: an entry with a revision and a hash, or any other line.\<close>

datatype history_line = HistoryEntry history_entry | OtherLine

record access_store =
  st_access :: "json stored"
  st_assertions :: "json stored"
  st_history :: "history_line list"

datatype access_error =
    PolicyAssertionsFailed "policy_error list"
  | AssertionsCorrupt
  | AccessPolicyCorrupt
  | StaleRevision
  | PolicyChangedAfterPlanning
  | Refused access_refusal
  | CostUnknown op_error
  | BudgetFailed budget_error
  | BudgetRefused budget_refusal
  | GrantExpiredOrExhausted
  | NoHistoryRevision int
  | UnsupportedAccessState
  | InvalidDuration string
  | DurationOutOfRange
  | LegacyAuthority
  | NoLongerGranted
  | NoteRequired
  | NothingAsserted
  | NoSuchAssertion string

definition loadPolicyAssertions :: "access_store \<Rightarrow> access_error + policy_assertion list" where
  "loadPolicyAssertions st = (let (as, valid, ex) = readAssertionsUnlocked (st_assertions st)
     in if ex \<and> \<not> valid then Inl AssertionsCorrupt else Inr as)"

definition loadAccessState :: "node_env \<Rightarrow> access_store \<Rightarrow> int \<Rightarrow> access_state" where
  "loadAccessState env st now = fst (readAccessStateUnlocked env (st_access st) now)"

record policy_inspection =
  pi_valid :: bool
  pi_exists :: bool
  pi_state :: access_state
  pi_errors :: "access_error list"

definition inspectAccessPolicyFile :: "node_env \<Rightarrow> access_store \<Rightarrow> int \<Rightarrow> policy_inspection" where
  "inspectAccessPolicyFile env st now =
     (let (s, ex, valid) = readAccessStateUnlocked env (st_access st) now
      in if \<not> (ex \<and> valid) then \<lparr>pi_valid = False, pi_exists = ex, pi_state = s, pi_errors = [AccessPolicyCorrupt]\<rparr>
         else (case loadPolicyAssertions st of
             Inl e \<Rightarrow> \<lparr>pi_valid = False, pi_exists = ex, pi_state = s, pi_errors = [e]\<rparr>
           | Inr as \<Rightarrow>
               (let errors = policyCheck env s now @ evaluateCustomAssertions s as
                in \<lparr>pi_valid = (errors = []), pi_exists = ex, pi_state = s,
                    pi_errors = (if errors = [] then [] else [PolicyAssertionsFailed errors])\<rparr>)))"

definition appendPolicyHistory :: "node_env \<Rightarrow> access_state \<Rightarrow> int option \<Rightarrow> int \<Rightarrow> access_store \<Rightarrow> access_store" where
  "appendPolicyHistory env s restoredFrom now st =
     st\<lparr>st_history := st_history st @ [HistoryEntry
        \<lparr>he_revision = of_int (as_revision s), he_at = Iso now, he_hash = ne_hash env (encodeAccessState s),
         he_restoredFrom = restoredFrom, he_state = encodeAccessState s\<rparr>]\<rparr>"

definition writeAccessStateUnlocked ::
  "node_env \<Rightarrow> access_state \<Rightarrow> int \<Rightarrow> bool \<Rightarrow> int option \<Rightarrow> int \<Rightarrow> access_store
     \<Rightarrow> (access_error + access_state) \<times> access_store" where
  "writeAccessStateUnlocked env s revision recordHistory restoredFrom now st =
     (let nxt = s\<lparr>as_revision := revision, as_updatedAt := Iso now\<rparr>
      in case loadPolicyAssertions st of
           Inl e \<Rightarrow> (Inl e, st)
         | Inr as \<Rightarrow>
             (let errors = policyCheck env nxt now @ evaluateCustomAssertions nxt as
              in if errors \<noteq> [] then (Inl (PolicyAssertionsFailed errors), st)
                 else (let st1 = st\<lparr>st_access := Contents (encodeAccessState nxt)\<rparr>
                       in (Inr nxt, if recordHistory then appendPolicyHistory env nxt restoredFrom now st1 else st1))))"

definition saveAccessState :: "node_env \<Rightarrow> access_state \<Rightarrow> int \<Rightarrow> access_store \<Rightarrow> (access_error + access_state) \<times> access_store" where
  "saveAccessState env s now st =
     (let (cur, ex, valid) = readAccessStateUnlocked env (st_access st) now
      in if ex \<and> \<not> valid then (Inl AccessPolicyCorrupt, st)
         else if ex \<and> as_revision s \<noteq> as_revision cur then (Inl StaleRevision, st)
         else writeAccessStateUnlocked env s
                (if ex then as_revision cur + 1 else max 1 (as_revision s + 1)) True None now st)"

definition updateAccessState ::
  "node_env \<Rightarrow> (access_state \<Rightarrow> access_error + access_state) \<Rightarrow> bool \<Rightarrow> int option \<Rightarrow> int \<Rightarrow> access_store
     \<Rightarrow> (access_error + access_state) \<times> access_store" where
  "updateAccessState env mutate recordHistory restoredFrom now st =
     (let cur = fst (readAccessStateUnlocked env (st_access st) now)
      in case mutate cur of
           Inl e \<Rightarrow> (Inl e, st)
         | Inr proposed \<Rightarrow> writeAccessStateUnlocked env proposed (as_revision cur + 1) recordHistory restoredFrom now st)"

definition addPolicyAssertion ::
  "node_env \<Rightarrow> client_kind \<Rightarrow> reach_capability list \<Rightarrow> string list \<Rightarrow> string \<Rightarrow> string \<Rightarrow> int \<Rightarrow> access_store
     \<Rightarrow> (access_error + policy_assertion) \<times> access_store" where
  "addPolicyAssertion env client forbid writeRoots note uuid now st =
     (if js_trim note = [] then (Inl NoteRequired, st)
      else if forbid = [] \<and> writeRoots = [] then (Inl NothingAsserted, st)
      else (let a = \<lparr>pa_id = uuid, pa_client = client, pa_forbidCapabilities = forbid,
                     pa_writeRoots = map (path_resolve env) writeRoots, pa_note = js_trim note, pa_createdAt = Iso now\<rparr>;
                (as, valid, ex) = readAssertionsUnlocked (st_assertions st)
            in if ex \<and> \<not> valid then (Inl AssertionsCorrupt, st)
               else (Inr a, st\<lparr>st_assertions := Contents (encodeAssertions (as @ [a]))\<rparr>)))"

definition clearPolicyAssertion :: "string \<Rightarrow> access_store \<Rightarrow> (access_error + unit) \<times> access_store" where
  "clearPolicyAssertion i st =
     (let (as, valid, ex) = readAssertionsUnlocked (st_assertions st)
      in if ex \<and> \<not> valid then (Inl AssertionsCorrupt, st)
         else if \<not> list_ex (\<lambda>a. pa_id a = i) as then (Inl (NoSuchAssertion i), st)
         else (Inr (), st\<lparr>st_assertions := Contents (encodeAssertions (filter (\<lambda>a. pa_id a \<noteq> i) as))\<rparr>))"

definition listPolicyHistory :: "nat \<Rightarrow> access_store \<Rightarrow> history_entry list" where
  "listPolicyHistory limit st = take_last (max 1 limit)
     (List.map_filter (\<lambda>l. case l of HistoryEntry e \<Rightarrow> Some e | OtherLine \<Rightarrow> None) (st_history st))"

definition historyEntry :: "int \<Rightarrow> access_store \<Rightarrow> access_error + history_entry" where
  "historyEntry revision st =
     (case List.find (\<lambda>e. he_revision e = of_int revision) (listPolicyHistory 10000 st) of
        None \<Rightarrow> Inl (NoHistoryRevision revision)
      | Some e \<Rightarrow> Inr e)"

definition restorePolicyRevision :: "node_env \<Rightarrow> int \<Rightarrow> int \<Rightarrow> access_store \<Rightarrow> (access_error + access_state) \<times> access_store" where
  "restorePolicyRevision env revision now st = (case historyEntry revision st of
      Inl e \<Rightarrow> (Inl e, st)
    | Inr entry \<Rightarrow> (case decodeAccessState (he_state entry) of
          None \<Rightarrow> (Inl UnsupportedAccessState, st)
        | Some restored \<Rightarrow> updateAccessState env (\<lambda>_. Inr restored) True (Some revision) now st))"

section \<open>Grants\<close>

definition createGrant ::
  "node_env \<Rightarrow> access_state \<Rightarrow> client_kind \<Rightarrow> reach_capability list \<Rightarrow> string list \<Rightarrow> int \<Rightarrow> rat option \<Rightarrow> string \<Rightarrow> int
     \<Rightarrow> access_state" where
  "createGrant env s client caps roots durationMs maxUses i now =
     (if list_ex (\<lambda>g. cg_id g = i) (as_grants s) then s
      else s\<lparr>as_grants := as_grants s @
               [\<lparr>cg_id = i, cg_client = client_string client, cg_capabilities = map capability_string caps,
                 cg_roots = map (path_resolve env) roots, cg_until = Iso (now + durationMs), cg_maxUses = maxUses,
                 cg_uses = 0, cg_createdAt = Iso now\<rparr>],
             as_grantRequired := (as_grantRequired s)(client := Some True)\<rparr>)"

definition use_grant :: "string \<Rightarrow> access_state \<Rightarrow> access_state" where
  "use_grant i s = s\<lparr>as_grants := map (\<lambda>g. if cg_id g = i then g\<lparr>cg_uses := cg_uses g + 1\<rparr> else g) (as_grants s)\<rparr>"

definition consume_mutation :: "string \<Rightarrow> int \<Rightarrow> access_state \<Rightarrow> access_error + access_state" where
  "consume_mutation i now s = (case List.find (\<lambda>g. cg_id g = i) (as_grants s) of
      None \<Rightarrow> Inl GrantExpiredOrExhausted
    | Some g \<Rightarrow> if (case date_parse (cg_until g) of Some t \<Rightarrow> t \<le> now | None \<Rightarrow> False)
                 \<or> (case cg_maxUses g of None \<Rightarrow> False | Some m \<Rightarrow> cg_uses g \<ge> m)
               then Inl GrantExpiredOrExhausted else Inr (use_grant i s))"

definition consumeGrant :: "node_env \<Rightarrow> string option \<Rightarrow> int \<Rightarrow> access_store \<Rightarrow> (access_error + unit) \<times> access_store" where
  "consumeGrant env gid now st = (case given gid of
      None \<Rightarrow> (Inr (), st)
    | Some i \<Rightarrow> (case updateAccessState env (consume_mutation i now) False None now st of
           (Inl e, st') \<Rightarrow> (Inl e, st')
         | (Inr _, st') \<Rightarrow> (Inr (), st')))"

record node_policy =
  np_access :: access_store
  np_budget :: budget_store

record operation_reservation =
  or_profile :: reach_profile
  or_grantId :: "string option"
  or_policy :: access_state
  or_budgetReservationId :: "string option"

record reserve_options =
  ro_expectedPolicyHash :: "string option"
  ro_reserveBudget :: bool
  ro_consumeGrant :: bool

text \<open>
  The budget step of \<open>reserveOperation\<close>: the reservation id, if one was made. Wrappers that inherit
  their risk from a target are charged at the target.
\<close>

definition reserve_budget_step ::
  "node_env \<Rightarrow> request_actor option \<Rightarrow> string \<Rightarrow> json \<Rightarrow> bool \<Rightarrow> string \<Rightarrow> int \<Rightarrow> budget_store
     \<Rightarrow> (access_error + string option) \<times> budget_store" where
  "reserve_budget_step env actor op args wanted uuid now bst =
     (if wanted \<and> \<not> (case describeOperation op of Some d \<Rightarrow> od_riskInheritsFromTarget d | None \<Rightarrow> False)
      then (case requestedAuthorityCost (ne_parse env) op args no_context of
          Inl e \<Rightarrow> (Inl (CostUnknown e), bst)
        | Inr cost \<Rightarrow> (case reserveBudgetUsage (ne_alive env) (actor_kind actor) cost now uuid (ne_pid env) bst of
              (Inl e, b) \<Rightarrow> (Inl (BudgetFailed e), b)
            | (Inr (ReserveDenied r u), b) \<Rightarrow> (Inl (BudgetRefused r), b)
            | (Inr (ReserveAllowed i u), b) \<Rightarrow> (Inr i, b)))
      else (Inr None, bst))"

text \<open>
  The grant step of \<open>reserveOperation\<close>: the grant is looked up and rechecked, then one use is written.
\<close>

definition consume_grant_step ::
  "node_env \<Rightarrow> access_state \<Rightarrow> string option \<Rightarrow> int \<Rightarrow> access_store \<Rightarrow> (access_error + unit) \<times> access_store" where
  "consume_grant_step env s gid now st = (case gid of
      None \<Rightarrow> (Inr (), st)
    | Some i \<Rightarrow> (case List.find (\<lambda>g. cg_id g = i) (as_grants s) of
          None \<Rightarrow> (Inl GrantExpiredOrExhausted, st)
        | Some g \<Rightarrow>
            if (case date_parse (cg_until g) of Some t \<Rightarrow> t \<le> now | None \<Rightarrow> False)
               \<or> (case cg_maxUses g of None \<Rightarrow> False | Some m \<Rightarrow> cg_uses g \<ge> m)
            then (Inl GrantExpiredOrExhausted, st)
            else (case writeAccessStateUnlocked env (use_grant (cg_id g) s) (as_revision s + 1) False None now st of
                (Inl e, st') \<Rightarrow> (Inl e, st')
              | (Inr _, st') \<Rightarrow> (Inr (), st'))))"

text \<open>
  \<open>reserveOperation\<close>. Authorization reads the clock at \<open>now\<close>; the grant is rechecked and the policy
  written at \<open>later\<close>, after the budget reservation. A failed grant step gives the concurrency slot
  back, never the rolling cost.
\<close>

definition reserveOperation ::
  "node_env \<Rightarrow> request_actor option \<Rightarrow> string \<Rightarrow> reach_profile \<Rightarrow> json \<Rightarrow> reserve_options \<Rightarrow> string \<Rightarrow> int \<Rightarrow> int \<Rightarrow> node_policy
     \<Rightarrow> (access_error + operation_reservation) \<times> node_policy" where
  "reserveOperation env actor op profile args opts uuid now later st =
     (let s = loadAccessState env (np_access st) now
      in if (case given (ro_expectedPolicyHash opts) of Some h \<Rightarrow> ne_hash env (encodeAccessState s) \<noteq> h | None \<Rightarrow> False)
         then (Inl PolicyChangedAfterPlanning, st)
         else (case authorizeOperation env s actor op profile now args of
             AccDenied r \<Rightarrow> (Inl (Refused r), st)
           | AccAllowed prof gid \<Rightarrow>
               (case reserve_budget_step env actor op args (ro_reserveBudget opts) uuid now (np_budget st) of
                  (Inl e, b) \<Rightarrow> (Inl e, st\<lparr>np_budget := b\<rparr>)
                | (Inr bid, b) \<Rightarrow>
                    (case consume_grant_step env s (if ro_consumeGrant opts then given gid else None) later (np_access st) of
                       (Inl e, a) \<Rightarrow> (Inl e, \<lparr>np_access = a, np_budget = releaseBudgetConcurrency bid b\<rparr>)
                     | (Inr _, a) \<Rightarrow> (Inr \<lparr>or_profile = prof, or_grantId = gid, or_policy = s, or_budgetReservationId = bid\<rparr>,
                                     \<lparr>np_access = a, np_budget = b\<rparr>)))))"

section \<open>Durations, client names and task control\<close>

definition parse_digits :: "string \<Rightarrow> nat" where
  "parse_digits s = foldl (\<lambda>n c. 10 * n + (code_of c - 48)) 0 s"

definition duration_factor :: "string \<Rightarrow> int option" where
  "duration_factor u = (if u = ''s'' then Some 1000 else if u = ''m'' then Some 60000
     else if u = ''h'' then Some 3600000 else if u = ''d'' then Some 86400000 else None)"

definition parseDuration :: "string \<Rightarrow> access_error + int" where
  "parseDuration text =
     (let t = js_trim text; ds = takeWhile is_digit t; rest = dropWhile is_space (dropWhile is_digit t)
      in if ds = [] then Inl (InvalidDuration text)
         else (case duration_factor (to_lower rest) of
             None \<Rightarrow> Inl (InvalidDuration text)
           | Some factor \<Rightarrow>
               (let ms = int (parse_digits ds) * factor
                in if ms \<le> 0 \<or> ms > 7 * 86400000 then Inl DurationOutOfRange else Inr ms)))"

definition classifyClient :: "string option \<Rightarrow> client_kind" where
  "classifyClient n =
     (let name = to_lower (case n of Some s \<Rightarrow> s | None \<Rightarrow> [])
      in if str_includes name ''chatgpt'' \<or> str_includes name ''openai'' then Chatgpt
         else if str_includes name ''claude'' \<or> str_includes name ''anthropic'' then Claude
         else if str_includes name ''smoke'' then Smoke else OtherClient)"

record task_authority =
  ta_capabilities :: "reach_capability list"
  ta_paths :: "string list"

definition authorizeTaskControl ::
  "node_env \<Rightarrow> access_state \<Rightarrow> request_actor option \<Rightarrow> string \<Rightarrow> reach_profile \<Rightarrow> task_authority option \<Rightarrow> string option \<Rightarrow> int
     \<Rightarrow> access_error + unit" where
  "authorizeTaskControl env s actor op profile authority policyHash now =
     (let kind = actor_kind actor
      in case authorizeOperation env (s\<lparr>as_grantRequired := (\<lambda>_. None)\<rparr>) actor op profile now (JObj []) of
           AccDenied r \<Rightarrow> Inl (Refused r)
         | AccAllowed _ _ \<Rightarrow>
             (case authority of
                None \<Rightarrow> (if as_grantRequired s kind = Some True \<or> given policyHash \<noteq> Some (ne_hash env (encodeAccessState s))
                         then Inl LegacyAuthority else Inr ())
              | Some a \<Rightarrow>
                  (if as_grantRequired s kind = Some True \<and> \<not> list_ex (\<lambda>g. cg_client g = client_string kind \<and> grant_live g now
                        \<and> grant_covers env g (ta_capabilities a) (ta_paths a)) (as_grants s)
                   then Inl NoLongerGranted else Inr ())))"

section \<open>Round trips\<close>

lemma as_capability_string [simp]: "as_capability (capability_string c) = Some c"
  by (cases c) (simp_all add: as_capability_def REACH_CAPABILITIES_def)

lemma capability_string_inj [simp]: "capability_string a = capability_string b \<longleftrightarrow> a = b"
  by (metis as_capability_string option.sel)

lemma json_mode_string [simp]: "json_mode (JStr (mode_string m)) = Some m"
  by (simp add: json_mode_def)

lemma decodeGrant_encodeGrant [simp]: "decodeGrant (encodeGrant g) = Some g"
proof -
  have "map json_text (map JStr xs) = xs" for xs by (induction xs) (simp_all add: json_text_def)
  then show ?thesis by (cases "cg_maxUses g") (simp_all add: decodeGrant_def encodeGrant_def null_or_num_def)
qed

lemma sanitizeGrants_encode [simp]: "sanitizeGrants (Some (JArr (map encodeGrant gs))) = gs"
  by (induction gs) (simp_all add: sanitizeGrants_def List.map_filter_simps)

lemma encodeMap_lookup: "jget (encodeMap f m) (client_string k) = map_option f (m k)"
  by (cases k) (simp_all add: encodeMap_def CLIENT_KINDS_def map_add_def split: option.splits)

lemma sanitize_encode [simp]:
  "sanitizeClients (Some (encodeMap (\<lambda>m. JStr (mode_string m)) c)) = c"
  "sanitizeGrantRequired (Some (encodeMap JBool r)) = r"
  by (auto simp: fun_eq_iff sanitizeClients_def sanitizeGrantRequired_def field_def encodeMap_lookup split: option.splits)

lemma decodeAccessState_encode:
  assumes "0 \<le> as_revision s"
  shows "decodeAccessState (encodeAccessState s) = Some s"
proof -
  have "supported_version (encodeAccessState s)"
    by (simp add: supported_version_def encodeAccessState_def)
  then show ?thesis using assms
    by (cases "as_until s"; cases "as_revertTo s")
      (simp_all add: decodeAccessState_def encodeAccessState_def nonneg_int_or_0_def stamp_or_epoch_def json_mode_def [of JNull])
qed

lemma decodeAccessState_revision: "decodeAccessState j = Some s \<Longrightarrow> 0 \<le> as_revision s"
  by (auto simp: decodeAccessState_def nonneg_int_or_0_def split: if_splits option.splits)

lemma read_revision_nonneg: "0 \<le> as_revision (fst (readAccessStateUnlocked env f now))"
  by (auto simp: readAccessStateUnlocked_def defaultAccessState_def split: stored.splits option.splits
      dest: decodeAccessState_revision)

lemma read_encode: "0 \<le> as_revision s \<Longrightarrow> readAccessStateUnlocked env (Contents (encodeAccessState s)) now = (s, True, True)"
  by (simp add: readAccessStateUnlocked_def decodeAccessState_encode)

section \<open>Revisioned stores\<close>

text \<open>
  The optimistic concurrency contract of the policy files: whatever one locked operation does, the
  store is either left alone or its revision grows by exactly one. Then a revision seen again means
  that nothing was written in between, which is what the stale-write check relies on.
\<close>

locale revisioned =
  fixes rev_of :: "'s \<Rightarrow> int" and step :: "'s \<Rightarrow> 's \<Rightarrow> bool"
  assumes step_revision: "step s s' \<Longrightarrow> s' = s \<or> rev_of s' = rev_of s + 1"
begin

lemma run_revision: "step\<^sup>*\<^sup>* s s' \<Longrightarrow> s' = s \<or> rev_of s < rev_of s'"
proof (induction rule: rtranclp_induct)
  case (step t u)
  then show ?case using step_revision [of t u] by auto
qed simp

lemma same_revision_same_store: "step\<^sup>*\<^sup>* s s' \<Longrightarrow> rev_of s' = rev_of s \<Longrightarrow> s' = s"
  using run_revision by fastforce

end

definition access_revision :: "node_env \<Rightarrow> access_store \<Rightarrow> int" where
  "access_revision env st = as_revision (loadAccessState env st 0)"

lemma read_revision_time: "as_revision (fst (readAccessStateUnlocked env f a)) = as_revision (fst (readAccessStateUnlocked env f b))"
  by (simp add: readAccessStateUnlocked_def defaultAccessState_def split: stored.splits option.splits)

lemma access_revision_now: "access_revision env st = as_revision (loadAccessState env st now)"
  unfolding access_revision_def loadAccessState_def by (rule read_revision_time)

text \<open>The two outcomes of a locked write.\<close>

lemma writeAccessStateUnlocked_cases:
  assumes "writeAccessStateUnlocked env s r h f now st = (res, st')"
  obtains (failed) e where "res = Inl e" "st' = st"
  | (written) as nxt where "nxt = s\<lparr>as_revision := r, as_updatedAt := Iso now\<rparr>" "res = Inr nxt"
      "st_access st' = Contents (encodeAccessState nxt)" "st_assertions st' = st_assertions st"
      "loadPolicyAssertions st = Inr as" "policyCheck env nxt now = []" "evaluateCustomAssertions nxt as = []"
      "st_history st' = st_history st @ (if h then [HistoryEntry
        \<lparr>he_revision = of_int r, he_at = Iso now, he_hash = ne_hash env (encodeAccessState nxt),
         he_restoredFrom = f, he_state = encodeAccessState nxt\<rparr>] else [])"
proof (cases "loadPolicyAssertions st")
  case (Inl e)
  with assms show ?thesis by (intro failed [of e]) (auto simp: writeAccessStateUnlocked_def)
next
  case (Inr as)
  let ?n = "s\<lparr>as_revision := r, as_updatedAt := Iso now\<rparr>"
  show ?thesis
  proof (cases "policyCheck env ?n now @ evaluateCustomAssertions ?n as = []")
    case True
    with assms Inr show ?thesis
      by (intro written [OF refl]) (auto simp: writeAccessStateUnlocked_def appendPolicyHistory_def Let_def)
  next
    case False
    with assms Inr show ?thesis by (intro failed) (auto simp: writeAccessStateUnlocked_def Let_def)
  qed
qed

lemma write_revision:
  assumes "writeAccessStateUnlocked env s r h f now st = (res, st')" "0 \<le> r"
  shows "st' = st \<or> access_revision env st' = r"
  using assms(1)
proof (cases rule: writeAccessStateUnlocked_cases)
  case (written as nxt)
  then have "0 \<le> as_revision nxt" using assms(2) by simp
  with written show ?thesis by (simp add: access_revision_def loadAccessState_def read_encode)
qed simp

lemma update_revision:
  assumes "updateAccessState env mutate h f now st = (res, st')"
  shows "st' = st \<or> access_revision env st' = access_revision env st + 1"
proof -
  have "0 \<le> access_revision env st" by (simp add: access_revision_def loadAccessState_def read_revision_nonneg)
  moreover have "as_revision (fst (readAccessStateUnlocked env (st_access st) now)) = access_revision env st"
    by (simp add: access_revision_now [of env st now] loadAccessState_def)
  ultimately show ?thesis using assms write_revision
    by (fastforce simp: updateAccessState_def Let_def split: sum.splits)
qed

lemma save_revision:
  assumes "saveAccessState env s now st = (res, st')" "0 \<le> as_revision s" "st_access st = Absent \<Longrightarrow> as_revision s = 0"
  shows "st' = st \<or> access_revision env st' = access_revision env st + 1"
proof -
  obtain cur ex valid where r: "readAccessStateUnlocked env (st_access st) now = (cur, ex, valid)" by (metis prod_cases3)
  then have rv: "as_revision cur = access_revision env st"
    by (simp add: access_revision_now [of env st now] loadAccessState_def)
  have "0 \<le> as_revision cur" using read_revision_nonneg [of env "st_access st" now] r by simp
  moreover have "\<not> ex \<Longrightarrow> st_access st = Absent \<and> as_revision cur = 0"
    using r by (auto simp: readAccessStateUnlocked_def defaultAccessState_def split: stored.splits option.splits)
  ultimately show ?thesis
    using assms rv write_revision [of env s "if ex then as_revision cur + 1 else max 1 (as_revision s + 1)" True None now st res st']
    by (auto simp: saveAccessState_def r split: if_splits)
qed

text \<open>Every writer of the access file: owner updates, saves of a loaded state, restores, consumed grants.\<close>

inductive access_step :: "node_env \<Rightarrow> access_store \<Rightarrow> access_store \<Rightarrow> bool" for env where
  as_update: "access_step env st (snd (updateAccessState env mutate h f now st))"
| as_save: "0 \<le> as_revision s \<Longrightarrow> (st_access st = Absent \<Longrightarrow> as_revision s = 0) \<Longrightarrow>
    access_step env st (snd (saveAccessState env s now st))"
| as_restore: "access_step env st (snd (restorePolicyRevision env r now st))"
| as_consume: "access_step env st (snd (consumeGrant env g now st))"

lemma access_step_revision:
  "access_step env st st' \<Longrightarrow> st' = st \<or> access_revision env st' = access_revision env st + 1"
proof (induction rule: access_step.induct)
  case (as_update st mutate h f now)
  then show ?case using update_revision by (metis prod.collapse)
next
  case (as_save s st now)
  then show ?case using save_revision by (metis prod.collapse)
next
  case (as_restore st r now)
  then show ?case using update_revision
    by (auto simp: restorePolicyRevision_def split: sum.splits option.splits) (metis prod.collapse)+
next
  case (as_consume st g now)
  then show ?case using update_revision
    by (auto simp: consumeGrant_def split: option.splits sum.splits prod.splits)
qed

interpretation acc: revisioned "access_revision env" "access_step env" for env
  by unfold_locales (rule access_step_revision)

text \<open>The same contract for the budget policy file, whose updates go through \<open>updateBudgetPolicy\<close>.\<close>

definition budget_revision :: "budget_store \<Rightarrow> int" where
  "budget_revision st = bp_revision (bpi_policy (readPolicyUnlocked (bs_policy st) 0))"

inductive budget_policy_step :: "budget_store \<Rightarrow> budget_store \<Rightarrow> bool" where
  bps_update: "(\<And>p q. mutate p = Inr q \<Longrightarrow> policy_wf (q\<lparr>bp_revision := bp_revision p + 1, bp_updatedAt := Iso now\<rparr>)) \<Longrightarrow>
    budget_policy_step st (snd (updateBudgetPolicy mutate now st))"

lemma budget_revision_now: "budget_revision st = bp_revision (bpi_policy (readPolicyUnlocked (bs_policy st) now))"
  by (simp add: budget_revision_def readPolicyUnlocked_def emptyBudgetPolicy_def split: stored.splits option.splits)

lemma budget_policy_step_revision:
  "budget_policy_step st st' \<Longrightarrow> st' = st \<or> budget_revision st' = budget_revision st + 1"
proof (induction rule: budget_policy_step.induct)
  case (bps_update mutate now st)
  let ?c = "bpi_policy (readPolicyUnlocked (bs_policy st) now)"
  show ?case
  proof (cases "mutate ?c")
    case (Inr q)
    then have "bs_policy (snd (updateBudgetPolicy mutate now st))
        = Contents (encodePolicy (q\<lparr>bp_revision := bp_revision ?c + 1, bp_updatedAt := Iso now\<rparr>))"
      by (simp add: updateBudgetPolicy_def writePolicyUnlocked_def Let_def)
    then show ?thesis using bps_update [OF Inr]
      by (simp add: budget_revision_now [of _ now] readPolicy_encode)
  qed (simp add: updateBudgetPolicy_def)
qed

interpretation bud: revisioned budget_revision budget_policy_step
  by unfold_locales (rule budget_policy_step_revision)

section \<open>Authorization\<close>

lemma resolve_le: "modeForActor s actor now \<le> resolveMode s now"
  by (auto simp: modeForActor_def minMode_min split: option.splits)

lemma ceiling_le: "as_clients s (actor_kind actor) = Some c \<Longrightarrow> modeForActor s actor now \<le> c"
  by (simp add: modeForActor_def minMode_min)

lemma activeGrant_SomeD:
  "activeGrant env s actor op args now = Some g \<Longrightarrow>
     g \<in> set (as_grants s) \<and> cg_client g = client_string (actor_kind actor) \<and> grant_live g now
     \<and> grant_covers env g (requiredCapabilities op args) (requestPaths args)"
  unfolding activeGrant_def by (drule find_SomeD) simp

lemma authorize_mode_cases:
  assumes "authorizeOperation env s actor op profile now args = AccAllowed prof gid"
  obtains (read_only) "modeForActor s actor now = ReadOnly" "prof = ProfReadOnly" "gid = None"
      "op \<in> set readOnlyInspectOperations \<or> op \<in> set readOnlyDelegatedOperations"
  | (planning) "modeForActor s actor now = On" "prof = profile" "gid = None" "op = ''dex.plan'' \<or> op = ''dex.commitPlan''"
  | (granted) g where "modeForActor s actor now = On" "prof = profile" "gid = Some (cg_id g)"
      "activeGrant env s actor op args now = Some g" "as_grantRequired s (actor_kind actor) = Some True"
  | (unrestricted) "modeForActor s actor now = On" "prof = profile" "gid = None"
      "as_grantRequired s (actor_kind actor) \<noteq> Some True"
proof (cases "modeForActor s actor now")
  case Off
  then show ?thesis using assms by (simp add: authorizeOperation_def)
next
  case ReadOnly
  then show ?thesis using assms read_only by (auto simp: authorizeOperation_def Let_def split: if_splits)
next
  case On
  then show ?thesis using assms planning granted unrestricted
    by (auto simp: authorizeOperation_def Let_def split: if_splits option.splits)
qed

lemma off_denies: "modeForActor s actor now = Off \<Longrightarrow> \<exists>r. authorizeOperation env s actor op profile now args = AccDenied r"
  by (simp add: authorizeOperation_def Let_def)

lemma read_only_lists:
  "op \<in> set readOnlyInspectOperations \<or> op \<in> set readOnlyDelegatedOperations \<Longrightarrow>
     \<exists>d. describeOperation op = Some d \<and> od_readOnlyAllowed d"
proof -
  have "list_all (\<lambda>op. case describeOperation op of Some d \<Rightarrow> od_readOnlyAllowed d | None \<Rightarrow> False)
      (readOnlyInspectOperations @ readOnlyDelegatedOperations)" by code_simp
  then show "op \<in> set readOnlyInspectOperations \<or> op \<in> set readOnlyDelegatedOperations \<Longrightarrow>
     \<exists>d. describeOperation op = Some d \<and> od_readOnlyAllowed d"
    by (auto simp: list_all_iff split: option.splits)
qed

section \<open>Grant accounting\<close>

definition grant_ok :: "capability_grant \<Rightarrow> bool" where
  "grant_ok g = (case cg_maxUses g of None \<Rightarrow> True | Some m \<Rightarrow> is_integer m \<and> is_integer (cg_uses g) \<and> cg_uses g \<le> m)"

definition grants_ok :: "access_state \<Rightarrow> bool" where
  "grants_ok s = (distinct (map cg_id (as_grants s)) \<and> list_all grant_ok (as_grants s))"

lemma is_integer_less_add1: "is_integer a \<Longrightarrow> is_integer b \<Longrightarrow> a < b \<Longrightarrow> is_integer (a + 1) \<and> a + 1 \<le> b"
proof -
  assume "is_integer a" "is_integer b" "a < b"
  then obtain m n where mn: "a = of_int m" "b = of_int n" unfolding is_integer_def by metis
  then have "m + 1 \<le> n" using \<open>a < b\<close> by simp
  then have "of_int (m + 1) \<le> (of_int n :: rat)" by (simp only: of_int_le_iff)
  moreover have "is_integer (of_int (m + 1))" by (rule is_integer_of_int)
  ultimately show ?thesis using mn by simp
qed

lemma use_grant_ids [simp]: "map cg_id (as_grants (use_grant i s)) = map cg_id (as_grants s)"
  by (simp add: use_grant_def)

lemma use_grant_ok:
  assumes "grants_ok s" "g \<in> set (as_grants s)" "cg_id g = i"
    and "case cg_maxUses g of None \<Rightarrow> True | Some m \<Rightarrow> cg_uses g < m"
  shows "grants_ok (use_grant i s)"
proof -
  have "grant_ok (if cg_id h = i then h\<lparr>cg_uses := cg_uses h + 1\<rparr> else h)" if h: "h \<in> set (as_grants s)" for h
  proof (cases "cg_id h = i")
    case True
    then have "h = g" using assms(1-3) h by (simp add: grants_ok_def distinct_map inj_on_def)
    then show ?thesis using assms h True is_integer_less_add1
      by (auto simp: grants_ok_def list_all_iff grant_ok_def split: option.splits)
  qed (use assms(1) h in \<open>simp add: grants_ok_def list_all_iff\<close>)
  then have "list_all (\<lambda>h. grant_ok (if cg_id h = i then h\<lparr>cg_uses := cg_uses h + 1\<rparr> else h)) (as_grants s)"
    unfolding list_all_iff by blast
  then have "list_all grant_ok (as_grants (use_grant i s))"
    by (simp add: use_grant_def list.pred_map comp_def)
  moreover have "distinct (map cg_id (as_grants (use_grant i s)))"
    using assms(1) by (simp only: use_grant_ids) (simp add: grants_ok_def)
  ultimately show ?thesis by (simp add: grants_ok_def)
qed

lemma policyCheck_grant_maxUses:
  assumes "policyCheck env s now = []" "g \<in> set (as_grants s)" "cg_maxUses g = Some m"
  shows "is_integer m \<and> 0 < m"
proof -
  have "grant_errors g = []" using assms(1,2) unfolding policyCheck_def by simp
  then show ?thesis using assms(3) by (simp add: grant_errors_def err_if_def not_le split: if_splits)
qed

lemma createGrant_ok:
  assumes "grants_ok s" "case mx of None \<Rightarrow> True | Some m \<Rightarrow> is_integer m \<and> 0 < m"
  shows "grants_ok (createGrant env s c caps roots d mx i now)"
  using assms by (auto simp: createGrant_def grants_ok_def list_ex_iff grant_ok_def split: option.splits)

text \<open>What the grant step does to the policy file: nothing, or exactly one more use of a live grant.\<close>

lemma consume_grant_step_cases:
  assumes "consume_grant_step env s gid now st = (res, st')"
  obtains (kept) "st' = st" "res = Inr () \<Longrightarrow> gid = None"
  | (consumed) i g a where "gid = Some i" "res = Inr ()" "g \<in> set (as_grants s)" "cg_id g = i"
      "case cg_maxUses g of None \<Rightarrow> True | Some m \<Rightarrow> cg_uses g < m"
      "writeAccessStateUnlocked env (use_grant i s) (as_revision s + 1) False None now st = (Inr a, st')"
proof (cases gid)
  case None
  then show ?thesis using assms kept by (simp add: consume_grant_step_def)
next
  case (Some i)
  show ?thesis
  proof (cases "List.find (\<lambda>g. cg_id g = i) (as_grants s)")
    case None
    then show ?thesis using assms kept \<open>gid = Some i\<close> by (auto simp: consume_grant_step_def)
  next
    case fg: (Some g)
    note g = find_SomeD [OF fg]
    let ?bad = "(case date_parse (cg_until g) of Some t \<Rightarrow> t \<le> now | None \<Rightarrow> False)
               \<or> (case cg_maxUses g of None \<Rightarrow> False | Some m \<Rightarrow> cg_uses g \<ge> m)"
    obtain w st1 where w: "writeAccessStateUnlocked env (use_grant (cg_id g) s) (as_revision s + 1) False None now st = (w, st1)"
      by fastforce
    show ?thesis
    proof (cases "?bad")
      case True
      then show ?thesis using assms kept Some fg unfolding consume_grant_step_def by auto
    next
      case False
      then have lim: "case cg_maxUses g of None \<Rightarrow> True | Some m \<Rightarrow> cg_uses g < m" by (auto split: option.splits)
      note eq = assms [unfolded consume_grant_step_def Some option.case fg if_not_P [OF False] w prod.case]
      from w show ?thesis
      proof (cases rule: writeAccessStateUnlocked_cases)
        case (failed e)
        then show ?thesis using eq kept by auto
      next
        case (written as nxt)
        then show ?thesis using eq consumed [OF Some _ _ _ lim] g w by simp
      qed
    qed
  qed
qed

lemma reserveOperation_consumes:
  assumes "reserveOperation env actor op profile args opts uuid now later st = (res, st')"
  shows "np_access st' = np_access st \<or> (\<exists>gid. consume_grant_step env (loadAccessState env (np_access st) now) gid later (np_access st)
      = (Inr (), np_access st'))"
  using assms unfolding reserveOperation_def Let_def
  by (auto split: if_splits access_decision.splits prod.splits sum.splits elim: consume_grant_step_cases)

text \<open>
  Runs of a node's policy: reservations by any client at any times, directly consumed grants, new
  grants, and owner edits of everything but the grant list.
\<close>

definition loaded_grants_ok :: "node_env \<Rightarrow> access_store \<Rightarrow> bool" where
  "loaded_grants_ok env st = grants_ok (loadAccessState env st 0)"

inductive policy_run :: "node_env \<Rightarrow> node_policy \<Rightarrow> bool" for env where
  pr_start: "loaded_grants_ok env (np_access st) \<Longrightarrow> policy_run env st"
| pr_reserve: "policy_run env st \<Longrightarrow>
    policy_run env (snd (reserveOperation env actor op profile args opts uuid now later st))"
| pr_consume: "policy_run env st \<Longrightarrow> policy_run env (st\<lparr>np_access := snd (consumeGrant env gid now (np_access st))\<rparr>)"
| pr_grant: "policy_run env st \<Longrightarrow>
    policy_run env (st\<lparr>np_access := snd (updateAccessState env (\<lambda>s. Inr (createGrant env s c caps roots d mx i now)) h f now (np_access st))\<rparr>)"
| pr_edit: "policy_run env st \<Longrightarrow> (\<And>s s'. edit s = Inr s' \<Longrightarrow> as_grants s' = as_grants s) \<Longrightarrow>
    policy_run env (st\<lparr>np_access := snd (updateAccessState env edit h f now (np_access st))\<rparr>)"
| pr_budget: "policy_run env st \<Longrightarrow> policy_run env (st\<lparr>np_budget := b\<rparr>)"

lemma load_grants_time: "as_grants (loadAccessState env st a) = as_grants (loadAccessState env st b)"
  by (simp add: loadAccessState_def readAccessStateUnlocked_def defaultAccessState_def split: stored.splits option.splits)

lemma grants_ok_cong: "as_grants s = as_grants t \<Longrightarrow> grants_ok s = grants_ok t"
  by (simp add: grants_ok_def)

lemma loaded_grants_ok_at: "loaded_grants_ok env st \<longleftrightarrow> grants_ok (loadAccessState env st now)"
  unfolding loaded_grants_ok_def by (rule grants_ok_cong [OF load_grants_time])

lemma write_grants:
  assumes "writeAccessStateUnlocked env s r h f now st = (res, st')" "0 \<le> r"
  shows "st' = st \<or> as_grants (loadAccessState env st' t) = as_grants s \<and> policyCheck env (s\<lparr>as_revision := r, as_updatedAt := Iso now\<rparr>) now = []"
  using assms(1)
proof (cases rule: writeAccessStateUnlocked_cases)
  case (written as nxt)
  then have "0 \<le> as_revision nxt" using assms(2) by simp
  with written show ?thesis by (simp add: loadAccessState_def read_encode)
qed simp

lemma load_revision_nonneg: "0 \<le> as_revision (loadAccessState env st now)"
  by (simp add: loadAccessState_def read_revision_nonneg)

lemma update_grants_ok:
  assumes "loaded_grants_ok env st"
    and "\<And>s s'. mutate s = Inr s' \<Longrightarrow> grants_ok s \<Longrightarrow>
      policyCheck env (s'\<lparr>as_revision := as_revision s + 1, as_updatedAt := Iso now\<rparr>) now = [] \<Longrightarrow> grants_ok s'"
  shows "loaded_grants_ok env (snd (updateAccessState env mutate h f now st))"
proof -
  let ?s = "loadAccessState env st now"
  show ?thesis
  proof (cases "mutate ?s")
    case (Inl e)
    then show ?thesis using assms(1) by (simp add: updateAccessState_def loadAccessState_def)
  next
    case (Inr s')
    obtain res st' where w: "writeAccessStateUnlocked env s' (as_revision ?s + 1) h f now st = (res, st')" by fastforce
    then have eq: "snd (updateAccessState env mutate h f now st) = st'"
      using Inr by (simp add: updateAccessState_def loadAccessState_def)
    from write_grants [OF w, of 0] load_revision_nonneg [of env st now]
    consider "st' = st" | "as_grants (loadAccessState env st' 0) = as_grants s'"
      "policyCheck env (s'\<lparr>as_revision := as_revision ?s + 1, as_updatedAt := Iso now\<rparr>) now = []" by force
    then show ?thesis
    proof cases
      case 1
      then show ?thesis using eq assms(1) by simp
    next
      case 2
      then have "grants_ok s'" using assms(2) [OF Inr] assms(1) loaded_grants_ok_at [of env st now] by blast
      then show ?thesis using eq grants_ok_cong [OF 2(1)] by (simp add: loaded_grants_ok_def)
    qed
  qed
qed

lemma consume_step_grants_ok:
  assumes "consume_grant_step env (loadAccessState env st now) gid later st = (res, st')" "loaded_grants_ok env st"
  shows "loaded_grants_ok env st'"
  using assms(1)
proof (cases rule: consume_grant_step_cases)
  case (consumed i g a)
  have "grants_ok (loadAccessState env st now)" using assms(2) loaded_grants_ok_at by blast
  then have "grants_ok (use_grant i (loadAccessState env st now))" using consumed use_grant_ok by blast
  then show ?thesis using write_grants [OF consumed(6), of 0] load_revision_nonneg [of env st now] assms(2)
    by (auto simp: loaded_grants_ok_def grants_ok_def)
qed (use assms(2) in simp)

lemma consumeGrant_snd:
  "snd (consumeGrant env gid now st) = (case given gid of
     None \<Rightarrow> st | Some i \<Rightarrow> snd (updateAccessState env (consume_mutation i now) False None now st))"
  by (simp add: consumeGrant_def split: option.splits prod.splits sum.splits)

lemma policy_run_grants_ok: "policy_run env st \<Longrightarrow> loaded_grants_ok env (np_access st)"
proof (induction rule: policy_run.induct)
  case (pr_reserve st actor op profile args opts uuid now later)
  obtain res st' where eq: "reserveOperation env actor op profile args opts uuid now later st = (res, st')" by fastforce
  then show ?case using reserveOperation_consumes [OF eq] consume_step_grants_ok pr_reserve.IH by fastforce
next
  case (pr_consume st gid now)
  have "loaded_grants_ok env (snd (updateAccessState env (consume_mutation i now) False None now (np_access st)))" for i
    by (rule update_grants_ok [OF pr_consume.IH])
      (auto simp: consume_mutation_def split: option.splits if_splits dest!: find_SomeD intro!: use_grant_ok)
  then show ?case using pr_consume.IH by (simp add: consumeGrant_snd split: option.splits)
next
  case (pr_grant st c caps roots d mx i now h f)
  have "loaded_grants_ok env (snd (updateAccessState env (\<lambda>s. Inr (createGrant env s c caps roots d mx i now)) h f now (np_access st)))"
  proof (rule update_grants_ok [OF pr_grant.IH])
    fix s s'
    assume s': "Inr (createGrant env s c caps roots d mx i now) = Inr s'" and ok: "grants_ok s"
      and chk: "policyCheck env (s'\<lparr>as_revision := as_revision s + 1, as_updatedAt := Iso now\<rparr>) now = []"
    show "grants_ok s'"
    proof (cases "list_ex (\<lambda>g. cg_id g = i) (as_grants s)")
      case True
      then show ?thesis using s' ok by (simp add: createGrant_def)
    next
      case False
      have "case mx of None \<Rightarrow> True | Some m \<Rightarrow> is_integer m \<and> 0 < m"
        using policyCheck_grant_maxUses [OF chk, of "last (as_grants s')"] s' False by (auto simp: createGrant_def split: option.splits)
      then show ?thesis using createGrant_ok [OF ok] s' by (metis Inr_inject)
    qed
  qed
  then show ?case by simp
next
  case (pr_edit st edit h f now)
  show ?case using update_grants_ok [OF pr_edit.IH] pr_edit.hyps(2) by (auto simp: grants_ok_def)
qed simp_all

section \<open>Properties\<close>

definition ex_env :: node_env where
  "ex_env = \<lparr>ne_realpath = ex_rp, ne_stateDir = ''/home/.dex-reach'', ne_cwd = ''/home'', ne_initialAccess = None,
     ne_hash = (\<lambda>_. ''h''), ne_alive = (\<lambda>_. True), ne_pid = 7, ne_parse = (\<lambda>_. None)\<rparr>"

definition ex_grant :: capability_grant where
  "ex_grant = \<lparr>cg_id = ''g1'', cg_client = ''claude'', cg_capabilities = [''file.read''], cg_roots = [''/data/proj''],
     cg_until = Iso 1000, cg_maxUses = Some 2, cg_uses = 1, cg_createdAt = Iso 0\<rparr>"

definition ex_access :: access_state where
  "ex_access = \<lparr>as_revision = 4, as_mode = On, as_until = None, as_revertTo = None, as_clients = (\<lambda>_. None)(Smoke := Some ReadOnly),
     as_grantRequired = (\<lambda>_. None)(Claude := Some True), as_grants = [ex_grant], as_updatedAt = Iso 0\<rparr>"

definition ex_node :: node_policy where
  "ex_node = \<lparr>np_access = \<lparr>st_access = Contents (encodeAccessState ex_access), st_assertions = Absent, st_history = []\<rparr>,
     np_budget = \<lparr>bs_policy = Absent, bs_usage = Absent\<rparr>\<rparr>"

definition ex_actor :: request_actor where
  "ex_actor = \<lparr>act_kind = Claude, act_clientId = ''c'', act_clientName = ''Claude''\<rparr>"

definition ex_options :: reserve_options where
  "ex_options = \<lparr>ro_expectedPolicyHash = None, ro_reserveBudget = True, ro_consumeGrant = True\<rparr>"

definition ex_read_args :: json where
  "ex_read_args = JObj [(''path'', JStr ''/data/proj/a'')]"

text \<open>
  C3: Every admitted operation is within the owner's mode: the mode that applies to a client never
  exceeds the node's mode or the client's ceiling and is not off; under read-only only operations
  the catalogue marks read-only are admitted, with the read-only profile; under on with required
  grants everything except planning is admitted only through a grant of that client that is
  unexpired, not used up, holds every capability the request implies and covers every path in it.
\<close>

theorem authorizeOperation_sound:
  assumes "authorizeOperation env s actor op profile now args = AccAllowed prof gid"
  shows "modeForActor s actor now \<noteq> Off \<and> modeForActor s actor now \<le> resolveMode s now
    \<and> (\<forall>c. as_clients s (actor_kind actor) = Some c \<longrightarrow> modeForActor s actor now \<le> c)
    \<and> (modeForActor s actor now = ReadOnly \<longrightarrow> prof = ProfReadOnly \<and> (\<exists>d. describeOperation op = Some d \<and> od_readOnlyAllowed d))
    \<and> (modeForActor s actor now = On \<longrightarrow> prof = profile \<and>
        (as_grantRequired s (actor_kind actor) = Some True \<and> op \<noteq> ''dex.plan'' \<and> op \<noteq> ''dex.commitPlan'' \<longrightarrow>
          (\<exists>g \<in> set (as_grants s). gid = Some (cg_id g) \<and> cg_client g = client_string (actor_kind actor) \<and> grant_live g now
             \<and> (\<forall>c \<in> set (requiredCapabilities op args). capability_string c \<in> set (cg_capabilities g))
             \<and> rootsCover (ne_realpath env) (ne_stateDir env) (requestPaths args) (cg_roots g))))"
  using assms
proof (cases rule: authorize_mode_cases)
  case read_only
  then show ?thesis using read_only_lists [of op] resolve_le [of s actor now] ceiling_le [of s actor _ now] by auto
next
  case (granted g)
  then show ?thesis using activeGrant_SomeD [OF granted(4)] resolve_le [of s actor now] ceiling_le [of s actor _ now]
    by (auto simp: grant_covers_def list_all_iff)
qed (use resolve_le [of s actor now] ceiling_le [of s actor _ now] in auto)

theorem authorizeOperation_sound_witness:
  "authorizeOperation ex_env ex_access (Some ex_actor) ''dex.file.read'' ProfDevelopment 5 ex_read_args
     = AccAllowed ProfDevelopment (Some ''g1'')
   \<and> (\<exists>g \<in> set (as_grants ex_access). cg_id g = ''g1'' \<and> grant_live g 5)"
proof -
  have a: "authorizeOperation ex_env ex_access (Some ex_actor) ''dex.file.read'' ProfDevelopment 5 ex_read_args
     = AccAllowed ProfDevelopment (Some ''g1'')" by code_simp
  have m: "modeForActor ex_access (Some ex_actor) 5 = On" "as_grantRequired ex_access (actor_kind (Some ex_actor)) = Some True"
    by code_simp+
  from authorizeOperation_sound [OF a] m have "\<exists>g \<in> set (as_grants ex_access). Some ''g1'' = Some (cg_id g) \<and> grant_live g 5" by auto
  with a show ?thesis by auto
qed

text \<open>
  A policy file that exists but cannot be read or decoded disables the node: every operation of
  every client is refused at every time, whatever initial mode the environment configures.
\<close>

theorem corrupt_policy_fails_closed:
  assumes "st_access st = Unreadable \<or> (\<exists>j. st_access st = Contents j \<and> decodeAccessState j = None)"
  shows "\<exists>r. authorizeOperation env (loadAccessState env st now) actor op profile later args = AccDenied r"
proof -
  have s: "loadAccessState env st now = (defaultAccessState env now)\<lparr>as_mode := Off\<rparr>"
    using assms by (auto simp: loadAccessState_def readAccessStateUnlocked_def)
  have "modeForActor (loadAccessState env st now) actor later = Off"
    by (simp add: s modeForActor_def resolveMode_def defaultAccessState_def split: option.splits)
  then show ?thesis by (rule off_denies)
qed

theorem corrupt_policy_fails_closed_witness:
  "\<exists>r. authorizeOperation ex_env (loadAccessState ex_env \<lparr>st_access = Contents (JObj []), st_assertions = Absent, st_history = []\<rparr> 3)
     (Some ex_actor) ''dex.fingerprint'' ProfFullLocal 4 (JObj []) = AccDenied r"
  by (rule corrupt_policy_fails_closed) (simp add: decodeAccessState_def supported_version_def)


lemma ex_run: "policy_run ex_env (snd (reserveOperation ex_env (Some ex_actor) ''dex.file.read'' ProfDevelopment ex_read_args ex_options ''u'' 5 6 ex_node))"
proof -
  have "grants_ok ex_access" by code_simp
  moreover have "0 \<le> as_revision ex_access" by (simp add: ex_access_def)
  ultimately show ?thesis
    by (intro pr_reserve pr_start) (simp add: loaded_grants_ok_def ex_node_def loadAccessState_def read_encode)
qed


text \<open>
  A stale writer is always detected: if a policy was loaded and any other writer (an owner update,
  another save, a restore or a consumed grant) changed the store since, saving the loaded policy is
  refused and changes nothing, so an older mode cannot come back over a newer one.
\<close>

theorem stale_save_refused:
  assumes "(access_step env)\<^sup>*\<^sup>* st0 st" and "st \<noteq> st0"
    and "s = edit (loadAccessState env st0 now0)" and "as_revision (edit (loadAccessState env st0 now0)) = as_revision (loadAccessState env st0 now0)"
  shows "saveAccessState env s now st = (Inl StaleRevision, st)"
proof -
  have grew: "access_revision env st0 < access_revision env st" using acc.run_revision [OF assms(1)] assms(2) by simp
  obtain cur ex valid where r: "readAccessStateUnlocked env (st_access st) now = (cur, ex, valid)" by (metis prod_cases3)
  have cur: "as_revision cur = access_revision env st"
    using r by (simp add: access_revision_now [of env st now] loadAccessState_def)
  have "0 \<le> access_revision env st0" by (simp add: access_revision_def load_revision_nonneg)
  then have "as_revision cur \<noteq> 0" using grew cur by simp
  then have "ex \<and> valid"
    using r by (auto simp: readAccessStateUnlocked_def defaultAccessState_def split: stored.splits option.splits)
  moreover have "as_revision s = access_revision env st0" using assms(3,4) by (simp add: access_revision_now [of env st0 now0])
  ultimately show ?thesis using r grew cur by (simp add: saveAccessState_def)
qed

theorem stale_save_refused_witness:
  "saveAccessState ex_env ex_access 9 (snd (updateAccessState ex_env (\<lambda>s. Inr (s\<lparr>as_mode := Off\<rparr>)) True None 8 (np_access ex_node)))
     = (Inl StaleRevision, snd (updateAccessState ex_env (\<lambda>s. Inr (s\<lparr>as_mode := Off\<rparr>)) True None 8 (np_access ex_node)))"
proof (rule stale_save_refused)
  let ?st = "snd (updateAccessState ex_env (\<lambda>s. Inr (s\<lparr>as_mode := Off\<rparr>)) True None 8 (np_access ex_node))"
  show "(access_step ex_env)\<^sup>*\<^sup>* (np_access ex_node) ?st" by (rule r_into_rtranclp) (rule as_update)
  have "length (st_history ?st) = 1" "st_history (np_access ex_node) = []" by code_simp+
  then show "?st \<noteq> np_access ex_node" by auto
  have l: "loadAccessState ex_env (np_access ex_node) 7 = ex_access"
    by (simp add: ex_node_def loadAccessState_def read_encode ex_access_def)
  show "ex_access = id (loadAccessState ex_env (np_access ex_node) 7)"
    "as_revision (id (loadAccessState ex_env (np_access ex_node) 7)) = as_revision (loadAccessState ex_env (np_access ex_node) 7)"
    by (simp_all add: l)
qed

lemma assertion_errors_forbid:
  assumes "assertion_errors s a = []" "c \<in> set (pa_forbidCapabilities a)" "g \<in> set (as_grants s)"
    and "cg_client g = client_string (pa_client a)"
  shows "capability_string c \<notin> set (cg_capabilities g)"
  using assms by (fastforce simp: assertion_errors_def Let_def err_if_def list_ex_iff split: if_splits)

lemma assertion_errors_shell:
  assumes "assertion_errors s a = []" "CapProcessShell \<in> set (pa_forbidCapabilities a)" "as_until s = None"
    and "actor_kind actor = pa_client a" "modeForActor s actor now = On"
  shows "as_grantRequired s (pa_client a) = Some True"
proof -
  have "(case as_clients s (pa_client a) of Some ceil \<Rightarrow> if RANK ceil < RANK (as_mode s) then ceil else as_mode s
      | None \<Rightarrow> as_mode s) = On"
    using assms(3-5) by (auto simp: modeForActor_def resolveMode_def minMode_def split: option.splits if_splits)
  then show ?thesis using assms(1,2) by (fastforce simp: assertion_errors_def Let_def err_if_def split: if_splits)
qed

text \<open>
  What a custom assertion buys: once a policy without a pending timed mode has been accepted for
  writing while an assertion forbids process.shell to a client, that client's shell requests are
  admitted, at any time and with any arguments, at most under the read-only profile.
\<close>

theorem asserted_client_has_no_shell:
  assumes "writeAccessStateUnlocked env s r h f now st = (Inr nxt, st')" and "loadPolicyAssertions st = Inr as"
    and "a \<in> set as" and "CapProcessShell \<in> set (pa_forbidCapabilities a)" and "as_until s = None"
    and "actor_kind actor = pa_client a"
    and "authorizeOperation env nxt actor ''dex.process.run'' profile later args = AccAllowed prof gid"
  shows "prof = ProfReadOnly"
proof -
  from assms(1) have errs: "evaluateCustomAssertions nxt as = []" and until: "as_until nxt = None"
    by (cases rule: writeAccessStateUnlocked_cases; use assms(2,5) in simp)+
  then have ok: "assertion_errors nxt a = []" using assms(3) by (simp add: evaluateCustomAssertions_def)
  have cap: "operationCapability ''dex.process.run'' = CapProcessShell" by code_simp
  from assms(7) show ?thesis
  proof (cases rule: authorize_mode_cases)
    case (granted g)
    have "capability_string CapProcessShell \<in> set (cg_capabilities g)"
      using activeGrant_SomeD [OF granted(4)] requiredCapabilities_base [of "''dex.process.run''" args] cap
      by (auto simp: grant_covers_def list_all_iff)
    then show ?thesis using assertion_errors_forbid [OF ok assms(4)] activeGrant_SomeD [OF granted(4)] assms(6) by auto
  next
    case unrestricted
    then show ?thesis using assertion_errors_shell [OF ok assms(4) until assms(6)] assms(6) by auto
  qed simp_all
qed

definition ex_assertion :: policy_assertion where
  "ex_assertion = \<lparr>pa_id = ''a1'', pa_client = Smoke, pa_forbidCapabilities = [CapProcessShell], pa_writeRoots = [],
     pa_note = ''n'', pa_createdAt = Iso 0\<rparr>"

definition ex_asserted :: access_store where
  "ex_asserted = (np_access ex_node)\<lparr>st_assertions := Contents (encodeAssertions [ex_assertion])\<rparr>"

theorem asserted_client_has_no_shell_witness:
  "authorizeOperation ex_env (ex_access\<lparr>as_revision := 5, as_updatedAt := Iso 8\<rparr>) (Some (ex_actor\<lparr>act_kind := Smoke\<rparr>)) ''dex.process.run''
     ProfFullLocal 9 (JObj []) \<noteq> AccAllowed ProfFullLocal None"
proof
  assume a: "authorizeOperation ex_env (ex_access\<lparr>as_revision := 5, as_updatedAt := Iso 8\<rparr>) (Some (ex_actor\<lparr>act_kind := Smoke\<rparr>)) ''dex.process.run''
     ProfFullLocal 9 (JObj []) = AccAllowed ProfFullLocal None"
  have l: "loadPolicyAssertions ex_asserted = Inr [ex_assertion]" by code_simp
  have e: "policyCheck ex_env (ex_access\<lparr>as_revision := 5, as_updatedAt := Iso 8\<rparr>) 8
      @ evaluateCustomAssertions (ex_access\<lparr>as_revision := 5, as_updatedAt := Iso 8\<rparr>) [ex_assertion] = []" by code_simp
  obtain st' where w: "writeAccessStateUnlocked ex_env ex_access 5 True None 8 ex_asserted
      = (Inr (ex_access\<lparr>as_revision := 5, as_updatedAt := Iso 8\<rparr>), st')"
    using e by (simp add: writeAccessStateUnlocked_def l Let_def)
  have "ProfFullLocal = ProfReadOnly"
    by (rule asserted_client_has_no_shell [OF w l _ _ _ _ a, of ex_assertion])
      (simp_all add: ex_assertion_def ex_access_def actor_kind_def)
  then show False by simp
qed

text \<open>
  The assertion check reads the stored mode only, not the mode a timed policy reverts to: there
  is a policy with a pending revert that passes the check under an assertion forbidding process.shell
  to a client and that admits the client's shell with the full profile once the time has passed.
\<close>

theorem timed_mode_escapes_assertions:
  "\<exists>s a. CapProcessShell \<in> set (pa_forbidCapabilities a) \<and> evaluateCustomAssertions s [a] = [] \<and> policyCheck ex_env s 5 = []
     \<and> authorizeOperation ex_env s (Some \<lparr>act_kind = pa_client a, act_clientId = [], act_clientName = []\<rparr>)
         ''dex.process.run'' ProfFullLocal 100 (JObj []) = AccAllowed ProfFullLocal None"
proof (intro exI conjI)
  let ?s = "ex_access\<lparr>as_mode := Off, as_until := Some (Iso 50), as_revertTo := Some On, as_clients := (\<lambda>_. None)\<rparr>"
  show "CapProcessShell \<in> set (pa_forbidCapabilities ex_assertion)" by (simp add: ex_assertion_def)
  show "evaluateCustomAssertions ?s [ex_assertion] = []" by code_simp
  show "policyCheck ex_env ?s 5 = []" by code_simp
  show "authorizeOperation ex_env ?s (Some \<lparr>act_kind = pa_client ex_assertion, act_clientId = [], act_clientName = []\<rparr>)
         ''dex.process.run'' ProfFullLocal 100 (JObj []) = AccAllowed ProfFullLocal None" by code_simp
qed

text \<open>
  Once a timed mode that reverts to on has expired, and unidentified clients are neither capped
  nor required to hold a grant, the built-in invariants of the policy check fail on that policy, so
  every write that keeps the timed mode is refused, grant consumption included, until the owner
  changes the mode.
\<close>

theorem expired_timed_mode_blocks_writes:
  assumes "as_until s = Some (Iso t)" and "t \<le> now" and "as_revertTo s = Some On"
    and "as_clients s OtherClient = None" and "as_grantRequired s OtherClient \<noteq> Some True"
    and "loadPolicyAssertions st = Inr as"
  shows "\<exists>es. OffInvariantFailed \<in> set es \<and> writeAccessStateUnlocked env s r h f now st = (Inl (PolicyAssertionsFailed es), st)"
proof -
  let ?n = "s\<lparr>as_revision := r, as_updatedAt := Iso now\<rparr>"
  have "authorizeOperation env (?n\<lparr>as_mode := Off\<rparr>) None ''dex.fingerprint'' ProfFullLocal now (JObj []) = AccAllowed ProfFullLocal None"
    using assms(1-5) by (simp add: authorizeOperation_def modeForActor_def resolveMode_def actor_kind_def Let_def)
  then have "OffInvariantFailed \<in> set (policyCheck env ?n now)" by (simp add: policyCheck_def err_if_def acc_allowed_def)
  then show ?thesis using assms(6) unfolding writeAccessStateUnlocked_def Let_def by auto
qed

theorem expired_timed_mode_blocks_writes_witness:
  "\<exists>es. OffInvariantFailed \<in> set es \<and> writeAccessStateUnlocked ex_env
     (ex_access\<lparr>as_mode := Off, as_until := Some (Iso 50), as_revertTo := Some On\<rparr>) 5 False None 60 (np_access ex_node)
       = (Inl (PolicyAssertionsFailed es), np_access ex_node)"
  by (rule expired_timed_mode_blocks_writes [of _ 50 _ _ "[]"])
    (simp_all add: ex_access_def ex_node_def loadPolicyAssertions_def readAssertionsUnlocked_def)

text \<open>
  Control of a running task rechecks present authority: it is admitted only while the client's
  mode is not off, and where grants are required only with a live grant of that client that still
  holds every capability and covers every path the task was started with; a task without recorded
  authority is admitted only under the very policy it was started with.
\<close>

theorem task_control_rechecks_authority:
  assumes "authorizeTaskControl env s actor op profile authority policyHash now = Inr ()"
  shows "modeForActor s actor now \<noteq> Off
    \<and> (as_grantRequired s (actor_kind actor) = Some True \<longrightarrow>
        (\<exists>a g. authority = Some a \<and> g \<in> set (as_grants s) \<and> cg_client g = client_string (actor_kind actor)
           \<and> grant_live g now \<and> grant_covers env g (ta_capabilities a) (ta_paths a)))
    \<and> (authority = None \<longrightarrow> policyHash = Some (ne_hash env (encodeAccessState s)))"
proof -
  obtain prof gid where au: "authorizeOperation env (s\<lparr>as_grantRequired := (\<lambda>_. None)\<rparr>) actor op profile now (JObj []) = AccAllowed prof gid"
    using assms by (cases "authorizeOperation env (s\<lparr>as_grantRequired := (\<lambda>_. None)\<rparr>) actor op profile now (JObj [])")
      (simp_all add: authorizeTaskControl_def)
  have mode: "modeForActor (s\<lparr>as_grantRequired := g\<rparr>) actor now = modeForActor s actor now" for g
  proof -
    have "resolveMode (s\<lparr>as_grantRequired := g\<rparr>) now = resolveMode s now" by (simp add: resolveMode_def split: option.split)
    then show ?thesis by (simp add: modeForActor_def split: option.split)
  qed
  have "modeForActor s actor now \<noteq> Off"
    using off_denies [of "s\<lparr>as_grantRequired := (\<lambda>_. None)\<rparr>" actor now env op profile "JObj []"] au by (auto simp: mode)
  moreover have "given h = Some x \<Longrightarrow> h = Some x" for h x by (auto simp: given_def split: option.splits if_splits)
  ultimately show ?thesis using assms au
    by (auto simp: authorizeTaskControl_def Let_def list_ex_iff split: option.splits if_splits)
qed

theorem task_control_rechecks_authority_witness:
  "\<exists>a g. Some \<lparr>ta_capabilities = [CapFileRead], ta_paths = [''/data/proj/a'']\<rparr> = Some a \<and> g \<in> set (as_grants ex_access)
     \<and> grant_live g 5 \<and> grant_covers ex_env g (ta_capabilities a) (ta_paths a)"
proof -
  have c: "authorizeTaskControl ex_env ex_access (Some ex_actor) ''dex.file.read'' ProfDevelopment
      (Some \<lparr>ta_capabilities = [CapFileRead], ta_paths = [''/data/proj/a'']\<rparr>) None 5 = Inr ()" by code_simp
  have "as_grantRequired ex_access (actor_kind (Some ex_actor)) = Some True" by code_simp
  with task_control_rechecks_authority [OF c] show ?thesis by blast
qed

text \<open>
  A duration the owner types is accepted only within one second to seven days, and a number of
  seconds, minutes, hours or days in that range is read exactly.
\<close>

theorem parseDuration_bounds:
  "(\<forall>ms. parseDuration text = Inr ms \<longrightarrow> 1000 \<le> ms \<and> ms \<le> 604800000)
   \<and> parseDuration ''90s'' = Inr 90000 \<and> parseDuration '' 30 M '' = Inr 1800000 \<and> parseDuration ''7d'' = Inr 604800000
   \<and> parseDuration ''8d'' = Inl DurationOutOfRange \<and> parseDuration ''0s'' = Inl DurationOutOfRange"
proof (intro conjI allI impI)
  fix ms
  assume "parseDuration text = Inr ms"
  then obtain n f where f: "f \<in> {1000, 60000, 3600000, 86400000}" and ms: "ms = int n * f" and r: "0 < ms" "ms \<le> 604800000"
    by (auto simp: parseDuration_def Let_def duration_factor_def split: if_splits option.splits)
  then have "0 < n" by (cases n) auto
  then have "f \<le> int n * f" using f by auto
  then show "1000 \<le> ms" using f ms by auto
  show "ms \<le> 604800000" by (rule r(2))
qed (code_simp+)

theorem parseDuration_bounds_witness: "1000 \<le> (90000::int) \<and> (90000::int) \<le> 604800000"
proof -
  have "parseDuration ''90s'' = Inr 90000" by code_simp
  with parseDuration_bounds [of "''90s''"] show ?thesis by blast
qed

end
