(* ===== verification/Reach_Requests.thy ===== *)
theory Reach_Requests
  imports Reach_Access
begin

text \<open>
  Capability requests, \<open>src/src/shared/capability-requests.ts\<close>: a client asks for authority, the
  owner approves (perhaps narrower) or denies, and approval creates an ordinary grant through
  \<open>updateAccessState\<close>. The request log is a JSON file read and written under its own lock; the
  access store belongs to the component before.
\<close>

section \<open>Requests and their file\<close>

datatype request_status = Pending | Approved | Denied | Expired

record capability_request =
  cr_id :: string
  cr_client :: client_kind
  cr_capabilities :: "reach_capability list"
  cr_roots :: "string list"
  cr_durationMs :: int
  cr_maxUses :: "int option"
  cr_operation :: "string option"
  cr_requestHash :: "string option"
  cr_justification :: string
  cr_risk :: operation_risk
  cr_status :: request_status
  cr_createdAt :: timestamp
  cr_expiresAt :: timestamp
  cr_decidedAt :: "timestamp option"
  cr_grantId :: "string option"
  cr_narrowed :: bool

datatype request_error =
    RequestFileCorrupt
  | JustificationRequired
  | JustificationTooLong
  | JustificationLooksSecret
  | NeedsCapability
  | InvalidCapability
  | NeedsAbsoluteRoots
  | BadDuration
  | BadMaxUses
  | RiskUnknown op_error
  | NoSuchRequest string
  | RequestExpired
  | AlreadyDecided request_status
  | CannotAddCapabilities
  | MustKeepCapability
  | CannotWidenRoots
  | CannotExtendDuration
  | CannotRemoveMaxUses
  | CannotRaiseMaxUses
  | GrantNotCreated access_error

fun status_string :: "request_status \<Rightarrow> string" where
  "status_string Pending = ''pending''"
| "status_string Approved = ''approved''"
| "status_string Denied = ''denied''"
| "status_string Expired = ''expired''"

definition json_status :: "json \<Rightarrow> request_status option" where
  "json_status j = (case json_string j of
      Some s \<Rightarrow> List.find (\<lambda>x. status_string x = s) [Pending, Approved, Denied, Expired] | None \<Rightarrow> None)"

fun risk_string :: "operation_risk \<Rightarrow> string" where
  "risk_string RiskInspect = ''inspect''"
| "risk_string RiskTypedMutate = ''typed-mutate''"
| "risk_string RiskShell = ''shell''"
| "risk_string RiskNetwork = ''network''"
| "risk_string RiskPrivileged = ''privileged''"
| "risk_string RiskDestructive = ''destructive''"

definition json_risk :: "json \<Rightarrow> operation_risk option" where
  "json_risk j = (case json_string j of
      Some s \<Rightarrow> List.find (\<lambda>x. risk_string x = s) OPERATION_RISK_ORDER | None \<Rightarrow> None)"

text \<open>A member that must be null or of the given type; anything else makes the request malformed.\<close>

definition nullable :: "(json \<Rightarrow> 'a option) \<Rightarrow> json \<Rightarrow> 'a option option" where
  "nullable f j = (if j = JNull then Some None else map_option Some (f j))"

definition positive_int :: "json \<Rightarrow> int option" where
  "positive_int j = (case json_int j of Some n \<Rightarrow> if 0 < n then Some n else None | None \<Rightarrow> None)"

definition absolute_string :: "json \<Rightarrow> string option" where
  "absolute_string j = (case json_string j of Some s \<Rightarrow> if isAbsolute s then Some s else None | None \<Rightarrow> None)"

definition nonempty_list :: "(json \<Rightarrow> 'a option) \<Rightarrow> json \<Rightarrow> 'a list option" where
  "nonempty_list f j = (case json_list j of
      Some xs \<Rightarrow> if xs = [] then None else decode_all f xs | None \<Rightarrow> None)"

definition decodeRequest :: "json \<Rightarrow> capability_request option" where
  "decodeRequest j = (case (str_field j ''id'', field json_client j ''client'',
        field (nonempty_list json_capability) j ''capabilities'', field (nonempty_list absolute_string) j ''roots'',
        field positive_int j ''durationMs'', field (nullable positive_int) j ''maxUses'',
        field (nullable json_string) j ''operation'', field (nullable json_string) j ''requestHash'') of
      (Some i, Some c, Some caps, Some roots, Some d, Some m, Some op, Some h) \<Rightarrow>
        (case (str_field j ''justification'', field json_risk j ''risk'', field json_status j ''status'',
               stamp_field j ''createdAt'', stamp_field j ''expiresAt'', field (nullable json_stamp) j ''decidedAt'',
               field (nullable json_string) j ''grantId'', bool_field j ''narrowed'') of
           (Some why, Some r, Some s, Some ca, Some ea, Some da, Some g, Some n) \<Rightarrow>
             if i = [] then None
             else Some \<lparr>cr_id = i, cr_client = c, cr_capabilities = caps, cr_roots = roots, cr_durationMs = d,
                        cr_maxUses = m, cr_operation = op, cr_requestHash = h, cr_justification = why,
                        cr_risk = r, cr_status = s, cr_createdAt = ca, cr_expiresAt = ea, cr_decidedAt = da,
                        cr_grantId = g, cr_narrowed = n\<rparr>
         | _ \<Rightarrow> None)
    | _ \<Rightarrow> None)"

definition encodeRequest :: "capability_request \<Rightarrow> json" where
  "encodeRequest r = JObj
     [(''id'', JStr (cr_id r)), (''client'', JStr (client_string (cr_client r))),
      (''capabilities'', JArr (map (\<lambda>c. JStr (capability_string c)) (cr_capabilities r))),
      (''roots'', JArr (map JStr (cr_roots r))), (''durationMs'', JNum (of_int (cr_durationMs r))),
      (''maxUses'', json_opt (\<lambda>n. JNum (of_int n)) (cr_maxUses r)), (''operation'', json_opt JStr (cr_operation r)),
      (''requestHash'', json_opt JStr (cr_requestHash r)), (''justification'', JStr (cr_justification r)),
      (''risk'', JStr (risk_string (cr_risk r))), (''status'', JStr (status_string (cr_status r))),
      (''createdAt'', stamp_json (cr_createdAt r)), (''expiresAt'', stamp_json (cr_expiresAt r)),
      (''decidedAt'', json_opt stamp_json (cr_decidedAt r)), (''grantId'', json_opt JStr (cr_grantId r)),
      (''narrowed'', JBool (cr_narrowed r))]"

definition decodeFile :: "json \<Rightarrow> capability_request list option" where
  "decodeFile j = (if \<not> is_object j \<or> \<not> version_is_1 j then None
     else (case arr_field j ''requests'' of None \<Rightarrow> None | Some rs \<Rightarrow> decode_all decodeRequest rs))"

definition encodeFile :: "capability_request list \<Rightarrow> json" where
  "encodeFile rs = JObj [(''version'', JNum 1), (''requests'', JArr (map encodeRequest rs))]"

definition readUnlocked :: "json stored \<Rightarrow> request_error + capability_request list" where
  "readUnlocked f = (case f of
      Absent \<Rightarrow> Inr []
    | Unreadable \<Rightarrow> Inl RequestFileCorrupt
    | Contents j \<Rightarrow> (case decodeFile j of None \<Rightarrow> Inl RequestFileCorrupt | Some rs \<Rightarrow> Inr rs))"

definition writeUnlocked :: "capability_request list \<Rightarrow> json stored" where
  "writeUnlocked rs = Contents (encodeFile rs)"

section \<open>Operations\<close>

definition MAX_JUSTIFICATION :: nat where
  "MAX_JUSTIFICATION = 240"

definition MAX_PENDING_MS :: int where
  "MAX_PENDING_MS = 24 * 3600000"

fun join_words :: "string list \<Rightarrow> string" where
  "join_words [] = []"
| "join_words [w] = w"
| "join_words (w # ws) = w @ '' '' @ join_words ws"

definition sanitizeJustification :: "string \<Rightarrow> request_error + string" where
  "sanitizeJustification v =
     (let trimmed = join_words (split_tokens is_space (js_trim v))
      in if trimmed = [] then Inl JustificationRequired
         else if length trimmed > MAX_JUSTIFICATION then Inl JustificationTooLong
         else if looksLikeSecretMaterial trimmed then Inl JustificationLooksSecret
         else Inr trimmed)"

definition refreshRequestStatus :: "int \<Rightarrow> capability_request \<Rightarrow> capability_request" where
  "refreshRequestStatus now r =
     (if cr_status r = Pending \<and> (case date_parse (cr_expiresAt r) of Some t \<Rightarrow> t \<le> now | None \<Rightarrow> False)
      then r\<lparr>cr_status := Expired, cr_decidedAt := Some (Iso now)\<rparr> else r)"

definition listCapabilityRequests ::
  "int \<Rightarrow> json stored \<Rightarrow> (request_error + capability_request list) \<times> json stored" where
  "listCapabilityRequests now f = (case readUnlocked f of
      Inl e \<Rightarrow> (Inl e, f)
    | Inr old \<Rightarrow>
        (let rs = map (refreshRequestStatus now) old
         in (Inr rs, if map cr_status rs \<noteq> map cr_status old then writeUnlocked rs else f)))"

record new_capability_request =
  nr_client :: client_kind
  nr_capabilities :: "string list"
  nr_roots :: "string list"
  nr_durationMs :: rat
  nr_maxUses :: "rat option"
  nr_justification :: string
  nr_operation :: "string option"
  nr_args :: "json option"

text \<open>The checks of \<open>createCapabilityRequest\<close> and the record it builds, before the log is touched.\<close>

definition new_request ::
  "node_env \<Rightarrow> new_capability_request \<Rightarrow> string \<Rightarrow> int \<Rightarrow> request_error + capability_request" where
  "new_request env i uuid now =
     (let roots = map (path_resolve env) (nr_roots i); operation = given (nr_operation i) in
      if nr_capabilities i = [] then Inl NeedsCapability
      else (case decode_all as_capability (nr_capabilities i) of
        None \<Rightarrow> Inl InvalidCapability
      | Some caps \<Rightarrow>
        if roots = [] \<or> list_ex (\<lambda>r. \<not> isAbsolute r) roots then Inl NeedsAbsoluteRoots
        else if \<not> is_integer (nr_durationMs i) \<or> nr_durationMs i \<le> 0 \<or> nr_durationMs i > 7 * 86400000 then Inl BadDuration
        else if (case nr_maxUses i of None \<Rightarrow> False | Some m \<Rightarrow> \<not> is_integer m \<or> m \<le> 0) then Inl BadMaxUses
        else (case sanitizeJustification (nr_justification i) of
          Inl e \<Rightarrow> Inl e
        | Inr why \<Rightarrow>
          (case classifyRequestedRisk caps operation (case nr_args i of Some a \<Rightarrow> a | None \<Rightarrow> JObj []) of
             Inl e \<Rightarrow> Inl (RiskUnknown e)
           | Inr risk \<Rightarrow> Inr
                \<lparr>cr_id = uuid, cr_client = nr_client i, cr_capabilities = caps, cr_roots = roots,
                 cr_durationMs = \<lfloor>nr_durationMs i\<rfloor>, cr_maxUses = map_option floor (nr_maxUses i),
                 cr_operation = operation,
                 cr_requestHash = map_option (\<lambda>a. ne_hash env (JObj [(''operation'', json_opt JStr operation), (''args'', a)])) (nr_args i),
                 cr_justification = why, cr_risk = risk, cr_status = Pending, cr_createdAt = Iso now,
                 cr_expiresAt = Iso (now + min \<lfloor>nr_durationMs i\<rfloor> MAX_PENDING_MS),
                 cr_decidedAt = None, cr_grantId = None, cr_narrowed = False\<rparr>))))"

definition createCapabilityRequest ::
  "node_env \<Rightarrow> new_capability_request \<Rightarrow> string \<Rightarrow> int \<Rightarrow> json stored
     \<Rightarrow> (request_error + capability_request) \<times> json stored" where
  "createCapabilityRequest env i uuid now f = (case new_request env i uuid now of
      Inl e \<Rightarrow> (Inl e, f)
    | Inr created \<Rightarrow> (case readUnlocked f of
          Inl e \<Rightarrow> (Inl e, f)
        | Inr rs \<Rightarrow> (Inr created, writeUnlocked (rs @ [created]))))"

record request_narrowing =
  rn_capabilities :: "reach_capability list option"
  rn_roots :: "string list option"
  rn_durationMs :: "rat option"
  rn_maxUses :: "rat option option"

record approved_terms =
  at_capabilities :: "reach_capability list"
  at_roots :: "string list"
  at_durationMs :: int
  at_maxUses :: "int option"
  at_narrowed :: bool

definition assertNarrowing :: "node_env \<Rightarrow> capability_request \<Rightarrow> request_narrowing \<Rightarrow> request_error + approved_terms" where
  "assertNarrowing env r n =
     (let caps = (case rn_capabilities n of Some cs \<Rightarrow> cs | None \<Rightarrow> cr_capabilities r);
          roots = map (path_resolve env) (case rn_roots n of Some rs \<Rightarrow> rs | None \<Rightarrow> cr_roots r);
          d = (case rn_durationMs n of Some x \<Rightarrow> x | None \<Rightarrow> of_int (cr_durationMs r));
          mx = (case rn_maxUses n of Some x \<Rightarrow> x | None \<Rightarrow> map_option of_int (cr_maxUses r))
      in if list_ex (\<lambda>c. c \<notin> set (cr_capabilities r)) caps then Inl CannotAddCapabilities
         else if caps = [] then Inl MustKeepCapability
         else if \<not> list_all (\<lambda>c. list_ex (\<lambda>base. inside base c) (cr_roots r)) roots then Inl CannotWidenRoots
         else if d > of_int (cr_durationMs r) then Inl CannotExtendDuration
         else if \<not> is_integer d \<or> d \<le> 0 then Inl BadDuration
         else if cr_maxUses r \<noteq> None \<and> mx = None then Inl CannotRemoveMaxUses
         else if (case (cr_maxUses r, mx) of (Some a, Some b) \<Rightarrow> b > of_int a | _ \<Rightarrow> False) then Inl CannotRaiseMaxUses
         else if (case mx of None \<Rightarrow> False | Some m \<Rightarrow> \<not> is_integer m \<or> m \<le> 0) then Inl BadMaxUses
         else Inr \<lparr>at_capabilities = caps, at_roots = roots, at_durationMs = \<lfloor>d\<rfloor>, at_maxUses = map_option floor mx,
                   at_narrowed = (length caps < length (cr_capabilities r) \<or> roots \<noteq> cr_roots r
                      \<or> d < of_int (cr_durationMs r) \<or> mx \<noteq> map_option of_int (cr_maxUses r))\<rparr>)"

definition loadCapabilityRequest :: "string \<Rightarrow> int \<Rightarrow> json stored \<Rightarrow> (request_error + capability_request) \<times> json stored" where
  "loadCapabilityRequest i now f = (case listCapabilityRequests now f of
      (Inl e, f') \<Rightarrow> (Inl e, f')
    | (Inr rs, f') \<Rightarrow> (case List.find (\<lambda>r. cr_id r = i) rs of
          None \<Rightarrow> (Inl (NoSuchRequest i), f')
        | Some r \<Rightarrow> (Inr r, f')))"

definition put_request :: "capability_request \<Rightarrow> capability_request list \<Rightarrow> capability_request list" where
  "put_request r rs = map (\<lambda>x. if cr_id x = cr_id r then r else x) rs"

definition decideCapabilityRequest ::
  "string \<Rightarrow> request_status \<Rightarrow> string option \<Rightarrow> bool \<Rightarrow> int \<Rightarrow> json stored
     \<Rightarrow> (request_error + capability_request) \<times> json stored" where
  "decideCapabilityRequest i decision grantId narrowed now f = (case readUnlocked f of
      Inl e \<Rightarrow> (Inl e, f)
    | Inr rs \<Rightarrow> (case List.find (\<lambda>r. cr_id r = i) rs of
          None \<Rightarrow> (Inl (NoSuchRequest i), f)
        | Some current \<Rightarrow>
            (let live = refreshRequestStatus now current
             in if cr_status live = Expired then (Inl RequestExpired, writeUnlocked (put_request live rs))
                else if cr_status live \<noteq> Pending then (Inl (AlreadyDecided (cr_status live)), f)
                else (let nxt = live\<lparr>cr_status := decision, cr_decidedAt := Some (Iso now), cr_grantId := grantId, cr_narrowed := narrowed\<rparr>
                      in (Inr nxt, writeUnlocked (put_request nxt rs))))))"

definition denyCapabilityRequest :: "string \<Rightarrow> int \<Rightarrow> json stored \<Rightarrow> (request_error + capability_request) \<times> json stored" where
  "denyCapabilityRequest i = decideCapabilityRequest i Denied None False"

record request_desk =
  rd_requests :: "json stored"
  rd_access :: access_store

text \<open>
  \<open>approveCapabilityRequest\<close>: read at \<open>t1\<close>, decision recorded at \<open>t2\<close>, grant written at \<open>t3\<close>. The
  three steps take their locks one after the other.
\<close>

definition approveCapabilityRequest ::
  "node_env \<Rightarrow> string \<Rightarrow> request_narrowing \<Rightarrow> int \<Rightarrow> int \<Rightarrow> int \<Rightarrow> request_desk
     \<Rightarrow> (request_error + capability_request) \<times> request_desk" where
  "approveCapabilityRequest env i nw t1 t2 t3 st =
     (case loadCapabilityRequest i t1 (rd_requests st) of
        (Inl e, f1) \<Rightarrow> (Inl e, st\<lparr>rd_requests := f1\<rparr>)
      | (Inr request, f1) \<Rightarrow>
          if cr_status request = Expired then (Inl RequestExpired, st\<lparr>rd_requests := f1\<rparr>)
          else if cr_status request \<noteq> Pending then (Inl (AlreadyDecided (cr_status request)), st\<lparr>rd_requests := f1\<rparr>)
          else (case assertNarrowing env request nw of
              Inl e \<Rightarrow> (Inl e, st\<lparr>rd_requests := f1\<rparr>)
            | Inr a \<Rightarrow> (case decideCapabilityRequest i Approved (Some (cr_id request)) (at_narrowed a) t2 f1 of
                  (Inl e, f2) \<Rightarrow> (Inl e, st\<lparr>rd_requests := f2\<rparr>)
                | (Inr nxt, f2) \<Rightarrow>
                    (case updateAccessState env (\<lambda>s. Inr (createGrant env s (cr_client request) (at_capabilities a) (at_roots a)
                              (at_durationMs a) (map_option of_int (at_maxUses a)) (cr_id request) t3)) True None t3 (rd_access st) of
                       (Inl e, acc) \<Rightarrow> (Inl (GrantNotCreated e), \<lparr>rd_requests = f2, rd_access = acc\<rparr>)
                     | (Inr _, acc) \<Rightarrow> (Inr nxt, \<lparr>rd_requests = f2, rd_access = acc\<rparr>)))))"

section \<open>The log reads back what was written\<close>

definition request_wf :: "capability_request \<Rightarrow> bool" where
  "request_wf r = (cr_id r \<noteq> [] \<and> cr_capabilities r \<noteq> [] \<and> cr_roots r \<noteq> [] \<and> list_all isAbsolute (cr_roots r)
     \<and> 0 < cr_durationMs r \<and> (case cr_maxUses r of None \<Rightarrow> True | Some m \<Rightarrow> 0 < m))"

lemma json_status_string [simp]: "json_status (JStr (status_string x)) = Some x"
  by (cases x) (simp_all add: json_status_def)

lemma json_risk_string [simp]: "json_risk (JStr (risk_string x)) = Some x"
  by (cases x) (simp_all add: json_risk_def OPERATION_RISK_ORDER_def)

lemma json_capability_string [simp]: "json_capability (JStr (capability_string c)) = Some c"
  by (simp add: json_capability_def)

lemma nullable_simps [simp]: "nullable f JNull = Some None" "j \<noteq> JNull \<Longrightarrow> nullable f j = map_option Some (f j)"
  by (simp_all add: nullable_def)

lemma nullable_str [simp]: "nullable json_string (json_opt JStr v) = Some v"
  by (cases v) simp_all

lemma nullable_stamp [simp]: "nullable json_stamp (json_opt stamp_json v) = Some v"
proof (cases v)
  case (Some t)
  then show ?thesis by (cases t) (simp_all add: nullable_def)
qed simp

lemma positive_int_of_int [simp]: "0 < n \<Longrightarrow> positive_int (JNum (of_int n)) = Some n"
  by (simp add: positive_int_def)

lemma nullable_max [simp]:
  "(case v of None \<Rightarrow> True | Some m \<Rightarrow> 0 < m) \<Longrightarrow> nullable positive_int (json_opt (\<lambda>n. JNum (of_int n)) v) = Some v"
  by (cases v) simp_all

lemma nonempty_list_map:
  "xs \<noteq> [] \<Longrightarrow> (\<And>x. x \<in> set xs \<Longrightarrow> f (g x) = Some x) \<Longrightarrow> nonempty_list f (JArr (map g xs)) = Some xs"
  by (simp add: nonempty_list_def decode_all_map)

lemma decodeRequest_encodeRequest: "request_wf r \<Longrightarrow> decodeRequest (encodeRequest r) = Some r"
  by (simp add: decodeRequest_def encodeRequest_def request_wf_def nonempty_list_map json_client_def
      absolute_string_def list_all_iff)

lemma decode_all_nonempty: "decode_all f xs = Some ys \<Longrightarrow> xs \<noteq> [] \<Longrightarrow> ys \<noteq> []"
  by (cases xs) (auto split: option.splits)

lemma nonempty_list_D: "nonempty_list f j = Some ys \<Longrightarrow> ys \<noteq> [] \<and> (\<forall>y \<in> set ys. \<exists>x. f x = Some y)"
  by (auto simp: nonempty_list_def split: option.splits if_splits dest: decode_all_nonempty decode_all_set)

lemma field_SomeD: "field f j k = Some v \<Longrightarrow> \<exists>w. f w = Some v"
  by (auto simp: field_def split: option.splits)

lemma positive_int_pos: "positive_int j = Some n \<Longrightarrow> 0 < n"
  by (auto simp: positive_int_def split: option.splits if_splits)

lemma absolute_string_abs: "absolute_string j = Some s \<Longrightarrow> isAbsolute s"
  by (auto simp: absolute_string_def split: option.splits if_splits)

lemma nullable_positive: "nullable positive_int j = Some v \<Longrightarrow> (case v of None \<Rightarrow> True | Some m \<Rightarrow> 0 < m)"
  by (auto simp: nullable_def positive_int_pos split: if_splits option.splits)

lemma decodeRequest_wf:
  assumes "decodeRequest j = Some r"
  shows "request_wf r"
proof -
  obtain caps roots d m where
      f: "field (nonempty_list json_capability) j ''capabilities'' = Some caps"
         "field (nonempty_list absolute_string) j ''roots'' = Some roots"
         "field positive_int j ''durationMs'' = Some d" "field (nullable positive_int) j ''maxUses'' = Some m"
    and r: "cr_id r \<noteq> []" "cr_capabilities r = caps" "cr_roots r = roots" "cr_durationMs r = d" "cr_maxUses r = m"
    using assms unfolding decodeRequest_def by (auto split: option.splits if_splits)
  show ?thesis
    using field_SomeD [OF f(1)] field_SomeD [OF f(2)] field_SomeD [OF f(3)] field_SomeD [OF f(4)] r
    by (auto simp: request_wf_def list_all_iff dest!: nonempty_list_D positive_int_pos nullable_positive)
      (metis absolute_string_abs)
qed

lemma read_write: "list_all request_wf rs \<Longrightarrow> readUnlocked (writeUnlocked rs) = Inr rs"
  by (simp add: readUnlocked_def writeUnlocked_def decodeFile_def encodeFile_def version_is_1_def
      decode_all_map decodeRequest_encodeRequest list_all_iff)

lemma read_wf: "readUnlocked f = Inr rs \<Longrightarrow> list_all request_wf rs"
  by (auto simp: readUnlocked_def decodeFile_def split: stored.splits option.splits if_splits
      intro: decode_all_list_all decodeRequest_wf)

section \<open>Decisions are final\<close>

lemma refresh_wf: "request_wf r \<Longrightarrow> request_wf (refreshRequestStatus now r)"
  by (simp add: refreshRequestStatus_def request_wf_def)

lemma refresh_id [simp]: "cr_id (refreshRequestStatus now r) = cr_id r"
  by (simp add: refreshRequestStatus_def)

lemma refresh_decided: "cr_status r \<noteq> Pending \<Longrightarrow> refreshRequestStatus now r = r"
  by (simp add: refreshRequestStatus_def)

lemma refresh_status:
  assumes same: "cr_status (refreshRequestStatus now r) = cr_status r"
  shows "refreshRequestStatus now r = r"
proof -
  let ?due = "cr_status r = Pending \<and> (case date_parse (cr_expiresAt r) of Some t \<Rightarrow> t \<le> now | None \<Rightarrow> False)"
  have "cr_status (refreshRequestStatus now r) = (if ?due then Expired else cr_status r)" by (simp add: refreshRequestStatus_def)
  with same have "\<not> ?due" by (simp split: if_split_asm)
  then show ?thesis unfolding refreshRequestStatus_def by (rule if_not_P)
qed

lemma put_request_ids [simp]: "map cr_id (put_request r rs) = map cr_id rs"
  by (simp add: put_request_def)

lemma put_request_mem: "x \<in> set rs \<Longrightarrow> cr_id x \<noteq> cr_id r \<Longrightarrow> x \<in> set (put_request r rs)"
  by (force simp: put_request_def)

lemma put_request_new: "x \<in> set rs \<Longrightarrow> cr_id x = cr_id r \<Longrightarrow> r \<in> set (put_request r rs)"
  by (force simp: put_request_def)

lemma put_request_wf: "list_all request_wf rs \<Longrightarrow> request_wf r \<Longrightarrow> list_all request_wf (put_request r rs)"
  by (auto simp: put_request_def list_all_iff)

lemma list_reads:
  assumes "readUnlocked f = Inr rs"
  shows "readUnlocked (snd (listCapabilityRequests now f)) = Inr (map (refreshRequestStatus now) rs)"
proof -
  let ?rs = "map (refreshRequestStatus now) rs"
  have wf: "list_all request_wf ?rs" using read_wf [OF assms] by (auto simp: list_all_iff intro: refresh_wf)
  have "map (refreshRequestStatus now) rs = rs" if "map cr_status ?rs = map cr_status rs"
    using that by (induction rs) (auto dest: refresh_status)
  then show ?thesis using assms wf by (auto simp: listCapabilityRequests_def Let_def read_write)
qed

text \<open>The outcomes of a decision.\<close>

lemma decide_cases:
  assumes "decideCapabilityRequest i d g n now f = (res, f')"
  obtains (kept) e where "res = Inl e" "f' = f"
  | (expired) rs r where "readUnlocked f = Inr rs" "r \<in> set rs" "cr_id r = i" "cr_status r = Pending"
      "res = Inl RequestExpired" "f' = writeUnlocked (put_request (r\<lparr>cr_status := Expired, cr_decidedAt := Some (Iso now)\<rparr>) rs)"
  | (again) rs r where "readUnlocked f = Inr rs" "r \<in> set rs" "cr_id r = i" "cr_status r = Expired"
      "res = Inl RequestExpired" "f' = writeUnlocked (put_request r rs)"
  | (decided) rs r nxt where "readUnlocked f = Inr rs" "List.find (\<lambda>r. cr_id r = i) rs = Some r" "cr_status r = Pending"
      "\<not> (case date_parse (cr_expiresAt r) of Some t \<Rightarrow> t \<le> now | None \<Rightarrow> False)"
      "nxt = r\<lparr>cr_status := d, cr_decidedAt := Some (Iso now), cr_grantId := g, cr_narrowed := n\<rparr>"
      "res = Inr nxt" "f' = writeUnlocked (put_request nxt rs)"
proof (cases "readUnlocked f")
  case (Inl e)
  then show ?thesis using assms kept by (auto simp: decideCapabilityRequest_def)
next
  case (Inr rs)
  show ?thesis
  proof (cases "List.find (\<lambda>r. cr_id r = i) rs")
    case None
    then show ?thesis using assms kept Inr by (auto simp: decideCapabilityRequest_def)
  next
    case (Some r)
    note r = find_SomeD [OF Some]
    let ?late = "case date_parse (cr_expiresAt r) of Some t \<Rightarrow> t \<le> now | None \<Rightarrow> False"
    note eq = assms [unfolded decideCapabilityRequest_def Inr sum.case Some option.case Let_def]
    consider "cr_status r = Pending" "?late" | "cr_status r = Pending" "\<not> ?late"
      | "cr_status r = Expired" | "cr_status r \<noteq> Pending" "cr_status r \<noteq> Expired" by blast
    then show ?thesis
    proof cases
      case 1
      then show ?thesis using eq expired [OF Inr] r by (auto simp: refreshRequestStatus_def)
    next
      case 2
      then show ?thesis using eq decided [OF Inr Some] by (auto simp: refreshRequestStatus_def)
    next
      case 3
      then show ?thesis using eq again [OF Inr] r by (auto simp: refreshRequestStatus_def)
    next
      case 4
      then show ?thesis using eq kept by (auto simp: refreshRequestStatus_def)
    qed
  qed
qed

inductive request_step :: "node_env \<Rightarrow> json stored \<Rightarrow> json stored \<Rightarrow> bool" for env where
  rs_list: "request_step env f (snd (listCapabilityRequests now f))"
| rs_create: "uuid \<noteq> [] \<Longrightarrow> (\<And>rs r. readUnlocked f = Inr rs \<Longrightarrow> r \<in> set rs \<Longrightarrow> cr_id r \<noteq> uuid) \<Longrightarrow>
    request_step env f (snd (createCapabilityRequest env inp uuid now f))"
| rs_decide: "request_step env f (snd (decideCapabilityRequest i d g n now f))"

text \<open>What one step keeps: a readable log stays readable with distinct ids, and decided requests stay as they are.\<close>

definition keeps_decided :: "capability_request list \<Rightarrow> json stored \<Rightarrow> bool" where
  "keeps_decided rs f' \<longleftrightarrow> (\<exists>rs'. readUnlocked f' = Inr rs' \<and> distinct (map cr_id rs') \<and>
     (\<forall>r \<in> set rs. cr_status r \<noteq> Pending \<longrightarrow> r \<in> set rs'))"

lemma new_request_wf:
  assumes "new_request env inp uuid now = Inr r"
  shows "cr_id r = uuid \<and> cr_status r = Pending \<and> cr_grantId r = None
    \<and> cr_expiresAt r = Iso (now + min (cr_durationMs r) MAX_PENDING_MS) \<and> cr_durationMs r \<le> 604800000
    \<and> (uuid \<noteq> [] \<longrightarrow> request_wf r)"
proof -
  let ?roots = "map (path_resolve env) (nr_roots inp)"
  obtain caps where caps: "decode_all as_capability (nr_capabilities inp) = Some caps" "nr_capabilities inp \<noteq> []"
    using assms by (cases "decode_all as_capability (nr_capabilities inp)") (simp_all add: new_request_def Let_def split: if_splits)
  note eq1 = assms [unfolded new_request_def Let_def if_not_P [OF caps(2)] caps(1) option.case]
  have roots: "\<not> (?roots = [] \<or> list_ex (\<lambda>r. \<not> isAbsolute r) ?roots)"
    and dur: "\<not> (\<not> is_integer (nr_durationMs inp) \<or> nr_durationMs inp \<le> 0 \<or> nr_durationMs inp > 7 * 86400000)"
    and mx: "\<not> (case nr_maxUses inp of None \<Rightarrow> False | Some m \<Rightarrow> \<not> is_integer m \<or> m \<le> 0)"
    using eq1 by (metis Inl_Inr_False)+
  note eq2 = eq1 [unfolded if_not_P [OF roots] if_not_P [OF dur] if_not_P [OF mx]]
  obtain why where why: "sanitizeJustification (nr_justification inp) = Inr why"
    using eq2 by (cases "sanitizeJustification (nr_justification inp)") simp_all
  have fl: "0 < \<lfloor>x\<rfloor>" if "is_integer x" "0 < x" for x :: rat
    using that by (metis is_integer_def of_int_0_less_iff)
  have "\<lfloor>nr_durationMs inp\<rfloor> \<le> 604800000" using dur by (simp add: floor_le_iff)
  moreover have "case map_option floor (nr_maxUses inp) of None \<Rightarrow> True | Some m \<Rightarrow> 0 < m"
    using mx fl by (auto simp: not_le split: option.splits)
  ultimately show ?thesis
    using eq2 why roots dur fl [of "nr_durationMs inp"] decode_all_nonempty [OF caps]
    by (auto simp: request_wf_def list_all_iff list_ex_iff not_le split: sum.splits)
qed

lemma createCapabilityRequest_cases:
  assumes "createCapabilityRequest env inp uuid now f = (res, f')"
  obtains (refused) e where "res = Inl e" "f' = f"
  | (created) rs r where "readUnlocked f = Inr rs" "new_request env inp uuid now = Inr r" "res = Inr r" "f' = writeUnlocked (rs @ [r])"
proof (cases "new_request env inp uuid now")
  case (Inl e)
  then show ?thesis using assms by (intro refused [of e]) (simp_all add: createCapabilityRequest_def)
next
  case (Inr r)
  show ?thesis
  proof (cases "readUnlocked f")
    case (Inl e)
    then show ?thesis using assms Inr by (intro refused [of e]) (auto simp: createCapabilityRequest_def)
  next
    case rs: (Inr rs)
    show ?thesis by (rule created [OF rs Inr]) (use assms Inr rs in \<open>auto simp: createCapabilityRequest_def\<close>)
  qed
qed

lemma keeps_decided_write:
  assumes "readUnlocked f = Inr rs" "distinct (map cr_id rs)" "r \<in> set rs" "cr_status r = Pending" "cr_id nxt = cr_id r" "request_wf nxt"
  shows "keeps_decided rs (writeUnlocked (put_request nxt rs))"
proof -
  have "readUnlocked (writeUnlocked (put_request nxt rs)) = Inr (put_request nxt rs)"
    using read_wf [OF assms(1)] assms(6) by (intro read_write put_request_wf)
  moreover have "x \<in> set (put_request nxt rs)" if "x \<in> set rs" "cr_status x \<noteq> Pending" for x
  proof (rule put_request_mem [OF that(1)])
    show "cr_id x \<noteq> cr_id nxt" using assms that by (auto simp: distinct_map inj_on_def)
  qed
  ultimately show ?thesis using assms(2) by (simp add: keeps_decided_def)
qed

lemma put_request_same:
  assumes "r \<in> set rs" "distinct (map cr_id rs)"
  shows "put_request r rs = rs"
  unfolding put_request_def using assms by (intro map_idI) (auto simp: distinct_map inj_on_def)

lemma request_step_keeps:
  assumes "request_step env f f'" "readUnlocked f = Inr rs" "distinct (map cr_id rs)"
  shows "keeps_decided rs f'"
  using assms
proof (induction rule: request_step.induct)
  case (rs_list f now)
  have "map cr_id (map (refreshRequestStatus now) rs) = map cr_id rs" by simp
  then show ?case using list_reads [OF rs_list(1)] rs_list(2) refresh_decided
    by (auto simp: keeps_decided_def comp_def image_iff) metis
next
  case (rs_create uuid f inp now)
  obtain res f' where eq: "createCapabilityRequest env inp uuid now f = (res, f')" by fastforce
  then have "keeps_decided rs f'"
  proof (cases rule: createCapabilityRequest_cases)
    case (created rs' r)
    then have wf: "list_all request_wf (rs @ [r])" "cr_id r = uuid"
      using rs_create(1,3) new_request_wf [of env inp uuid now r] read_wf [of f rs] by simp_all
    have "distinct (map cr_id (rs @ [r]))" using rs_create(2) [OF rs_create(3)] rs_create(4) wf(2) by fastforce
    then show ?thesis using created rs_create(3) read_write [OF wf(1)] by (auto simp: keeps_decided_def)
  qed (use rs_create(3,4) in \<open>auto simp: keeps_decided_def\<close>)
  then show ?case using eq by simp
next
  case (rs_decide f i d g n now)
  obtain res f' where eq: "decideCapabilityRequest i d g n now f = (res, f')" by fastforce
  have wf: "\<And>r. r \<in> set rs \<Longrightarrow> request_wf r" using read_wf [OF rs_decide(1)] by (simp add: list_all_iff)
  from eq have "keeps_decided rs f'"
  proof (cases rule: decide_cases)
    case (expired rs' r)
    then show ?thesis using rs_decide wf [of r] by (auto intro!: keeps_decided_write simp: request_wf_def)
  next
    case (again rs' r)
    then show ?thesis using rs_decide read_write [OF read_wf [OF rs_decide(1)]] by (simp add: put_request_same keeps_decided_def)
  next
    case (decided rs' r nxt)
    then show ?thesis using rs_decide find_SomeD [OF decided(2)] wf [of r]
      by (auto intro!: keeps_decided_write simp: request_wf_def)
  qed (use rs_decide in \<open>auto simp: keeps_decided_def\<close>)
  then show ?case using eq by simp
qed

section \<open>Approval\<close>

lemma path_resolve_segs: "\<exists>ss. path_resolve env p = abs_path ss \<and> list_all good_seg ss"
  unfolding path_resolve_def resolve_path_def using path_segs_good by metis

lemma path_resolve_idem [simp]: "path_resolve env (path_resolve env p) = path_resolve env p"
proof -
  obtain ss where ss: "path_resolve env p = abs_path ss" "list_all good_seg ss" using path_resolve_segs by blast
  then show ?thesis unfolding ss(1) by (simp add: path_resolve_def resolve_path_def)
qed

definition narrows :: "capability_request \<Rightarrow> approved_terms \<Rightarrow> bool" where
  "narrows r a = (set (at_capabilities a) \<subseteq> set (cr_capabilities r)
     \<and> (\<forall>root \<in> set (at_roots a). \<exists>base \<in> set (cr_roots r). inside base root)
     \<and> 0 < at_durationMs a \<and> at_durationMs a \<le> cr_durationMs r
     \<and> (case cr_maxUses r of None \<Rightarrow> True | Some m \<Rightarrow> (case at_maxUses a of None \<Rightarrow> False | Some k \<Rightarrow> k \<le> m)))"

lemma assertNarrowing_narrows:
  assumes "assertNarrowing env r n = Inr a"
  shows "narrows r a \<and> (\<exists>rs. at_roots a = map (path_resolve env) rs)"
proof -
  define d where "d = (case rn_durationMs n of Some x \<Rightarrow> x | None \<Rightarrow> of_int (cr_durationMs r))"
  define m where "m = (case rn_maxUses n of Some x \<Rightarrow> x | None \<Rightarrow> map_option of_int (cr_maxUses r))"
  define rs where "rs = (case rn_roots n of Some rs \<Rightarrow> rs | None \<Rightarrow> cr_roots r)"
  define caps where "caps = (case rn_capabilities n of Some cs \<Rightarrow> cs | None \<Rightarrow> cr_capabilities r)"
  note eq = assms [unfolded assertNarrowing_def Let_def d_def [symmetric] m_def [symmetric] rs_def [symmetric] caps_def [symmetric]]
  have c: "\<not> list_ex (\<lambda>c. c \<notin> set (cr_capabilities r)) caps"
    "list_all (\<lambda>c. list_ex (\<lambda>base. inside base c) (cr_roots r)) (map (path_resolve env) rs)"
    "d \<le> of_int (cr_durationMs r)" "is_integer d" "0 < d"
    "cr_maxUses r \<noteq> None \<longrightarrow> m \<noteq> None"
    "\<not> (case (cr_maxUses r, m) of (Some a, Some b) \<Rightarrow> b > of_int a | _ \<Rightarrow> False)"
    and a: "at_capabilities a = caps" "at_roots a = map (path_resolve env) rs" "at_durationMs a = \<lfloor>d\<rfloor>" "at_maxUses a = map_option floor m"
    using eq by (simp_all add: not_le not_less split: if_splits) auto
  have "0 < \<lfloor>d\<rfloor>" using c(4,5) by (metis is_integer_def of_int_0_less_iff)
  moreover have "\<lfloor>d\<rfloor> \<le> cr_durationMs r" using c(3) by linarith
  moreover have "case cr_maxUses r of None \<Rightarrow> True | Some k \<Rightarrow> (case at_maxUses a of None \<Rightarrow> False | Some l \<Rightarrow> l \<le> k)"
    using c(6,7) a(4) by (auto split: option.splits) linarith
  ultimately show ?thesis using c(1,2) a by (auto simp: narrows_def list_ex_iff list_all_iff)
qed

definition grant_edit :: "node_env \<Rightarrow> capability_request \<Rightarrow> approved_terms \<Rightarrow> int \<Rightarrow> access_state \<Rightarrow> access_error + access_state" where
  "grant_edit env r a t s = Inr (createGrant env s (cr_client r) (at_capabilities a) (at_roots a) (at_durationMs a)
     (map_option of_int (at_maxUses a)) (cr_id r) t)"

lemma approve_cases:
  assumes "approveCapabilityRequest env i nw t1 t2 t3 st = (res, st')"
  obtains (stopped) e where "res = Inl e" "rd_access st' = rd_access st"
  | (recorded) r a nxt f1 ures where "loadCapabilityRequest i t1 (rd_requests st) = (Inr r, f1)" "cr_status r = Pending"
      "assertNarrowing env r nw = Inr a"
      "decideCapabilityRequest i Approved (Some (cr_id r)) (at_narrowed a) t2 f1 = (Inr nxt, rd_requests st')"
      "updateAccessState env (grant_edit env r a t3) True None t3 (rd_access st) = (ures, rd_access st')"
      "res = (case ures of Inl e \<Rightarrow> Inl (GrantNotCreated e) | Inr _ \<Rightarrow> Inr nxt)"
proof -
  obtain l f1 where l: "loadCapabilityRequest i t1 (rd_requests st) = (l, f1)" by fastforce
  show ?thesis
  proof (cases l)
    case (Inl e)
    then show ?thesis using assms l by (intro stopped [of e]) (auto simp: approveCapabilityRequest_def)
  next
    case (Inr r)
    show ?thesis
    proof (cases "cr_status r = Pending")
      case False
      then show ?thesis using assms l Inr stopped by (auto simp: approveCapabilityRequest_def split: if_splits)
    next
      case True
      show ?thesis
      proof (cases "assertNarrowing env r nw")
        case (Inl e)
        then show ?thesis using assms l Inr True by (intro stopped [of e]) (auto simp: approveCapabilityRequest_def)
      next
        case a: (Inr a)
        obtain dres f2 where d: "decideCapabilityRequest i Approved (Some (cr_id r)) (at_narrowed a) t2 f1 = (dres, f2)" by fastforce
        obtain ures acc where u: "updateAccessState env (grant_edit env r a t3) True None t3 (rd_access st) = (ures, acc)" by fastforce
        note eq = assms [unfolded approveCapabilityRequest_def l Inr prod.case sum.case a d]
        show ?thesis
        proof (cases dres)
          case (Inl e)
          then show ?thesis using eq True by (intro stopped [of e]) auto
        next
          case nxt: (Inr nxt)
          have res: "res = (case ures of Inl e \<Rightarrow> Inl (GrantNotCreated e) | Inr _ \<Rightarrow> Inr nxt)" "st' = \<lparr>rd_requests = f2, rd_access = acc\<rparr>"
            using eq True nxt u unfolding grant_edit_def by (auto split: sum.splits)
          show ?thesis using recorded [OF _ True a _ _ res(1)] l Inr d nxt u res(2) by simp
        qed
      qed
    qed
  qed
qed

lemma load_member:
  assumes "loadCapabilityRequest i t f = (Inr r, f1)"
  shows "cr_id r = i \<and> readUnlocked f1 \<noteq> Inl RequestFileCorrupt \<and> (\<exists>rs. readUnlocked f1 = Inr rs \<and> r \<in> set rs)"
proof -
  obtain rs where rs: "readUnlocked f = Inr rs" and f: "List.find (\<lambda>r. cr_id r = i) (map (refreshRequestStatus t) rs) = Some r"
    and f1: "f1 = snd (listCapabilityRequests t f)"
    using assms by (auto simp: loadCapabilityRequest_def listCapabilityRequests_def Let_def split: sum.splits option.splits)
  show ?thesis using find_SomeD [OF f] list_reads [OF rs, of t] f1 by simp
qed

section \<open>Properties\<close>

definition ex_new :: new_capability_request where
  "ex_new = \<lparr>nr_client = Claude, nr_capabilities = [''file.read'', ''file.write''], nr_roots = [''/data/proj''], nr_durationMs = 3600000,
     nr_maxUses = Some 5, nr_justification = ''fix  build'', nr_operation = None, nr_args = None\<rparr>"

definition ex_log :: "json stored" where
  "ex_log = snd (createCapabilityRequest ex_env ex_new ''r1'' 10 Absent)"

definition ex_desk :: request_desk where
  "ex_desk = \<lparr>rd_requests = ex_log, rd_access = np_access ex_node\<rparr>"

definition ex_narrowing :: request_narrowing where
  "ex_narrowing = \<lparr>rn_capabilities = Some [CapFileRead], rn_roots = Some [''/data/proj/src''], rn_durationMs = Some 60000, rn_maxUses = Some (Some 1)\<rparr>"

text \<open>
  C8: Approval never widens a request: when an approval succeeds the request was pending, and the
  access policy afterwards holds the previous grants and at most one more, named after the request
  and for its client, with a subset of the requested capabilities, roots inside the requested roots,
  an expiry no later than the requested duration after approval, and a use limit no higher than
  requested.
\<close>

theorem approval_never_widens:
  assumes "approveCapabilityRequest env i nw t1 t2 t3 st = (Inr nxt, st')"
  shows "\<exists>r f1. loadCapabilityRequest i t1 (rd_requests st) = (Inr r, f1) \<and> cr_status r = Pending \<and>
     (let old = as_grants (loadAccessState env (rd_access st) t3); new = as_grants (loadAccessState env (rd_access st') t4)
      in new = old \<or> (\<exists>g. new = old @ [g] \<and> cg_id g = i \<and> cg_client g = client_string (cr_client r) \<and> cg_uses g = 0
           \<and> set (cg_capabilities g) \<subseteq> capability_string ` set (cr_capabilities r)
           \<and> (\<forall>root \<in> set (cg_roots g). \<exists>base \<in> set (cr_roots r). inside base root)
           \<and> (\<exists>u \<le> t3 + cr_durationMs r. cg_until g = Iso u)
           \<and> (\<forall>m. cr_maxUses r = Some m \<longrightarrow> (\<exists>k \<le> m. cg_maxUses g = Some (of_int k)))))"
  using assms
proof (cases rule: approve_cases)
  case (recorded r a nxt' f1 ures)
  let ?s = "loadAccessState env (rd_access st) t3"
  let ?c = "createGrant env ?s (cr_client r) (at_capabilities a) (at_roots a) (at_durationMs a) (map_option of_int (at_maxUses a)) (cr_id r) t3"
  obtain s' where ok: "ures = Inr s'" using recorded(6) by (cases ures) auto
  have "writeAccessStateUnlocked env ?c (as_revision ?s + 1) True None t3 (rd_access st) = (Inr s', rd_access st')"
    using recorded(5) ok by (simp add: updateAccessState_def grant_edit_def loadAccessState_def Let_def)
  then have new: "as_grants (loadAccessState env (rd_access st') t4) = as_grants ?c"
  proof (cases rule: writeAccessStateUnlocked_cases)
    case (written as nx)
    moreover have "0 \<le> as_revision nx" using written(1) load_revision_nonneg [of env "rd_access st" t3] by simp
    ultimately show ?thesis by (simp add: loadAccessState_def read_encode)
  qed simp
  have nar: "narrows r a" "\<exists>rs. at_roots a = map (path_resolve env) rs" using assertNarrowing_narrows [OF recorded(3)] by simp_all
  have roots: "map (path_resolve env) (at_roots a) = at_roots a" using nar(2) by auto
  have id: "cr_id r = i" using load_member [OF recorded(1)] by simp
  have "as_grants ?c = as_grants ?s \<or> as_grants ?c = as_grants ?s @
      [\<lparr>cg_id = i, cg_client = client_string (cr_client r), cg_capabilities = map capability_string (at_capabilities a),
        cg_roots = at_roots a, cg_until = Iso (t3 + at_durationMs a), cg_maxUses = map_option of_int (at_maxUses a),
        cg_uses = 0, cg_createdAt = Iso t3\<rparr>]"
    by (simp add: createGrant_def roots id)
  moreover have "\<forall>m. cr_maxUses r = Some m \<longrightarrow> (\<exists>k \<le> m. map_option of_int (at_maxUses a) = Some (of_int k :: rat))"
    using nar(1) by (auto simp: narrows_def split: option.splits)
  ultimately show ?thesis using nar(1) new recorded(1,2) unfolding Let_def narrows_def by fastforce
qed simp

lemma ex_approved:
  "(let p = approveCapabilityRequest ex_env ''r1'' ex_narrowing 20 21 22 ex_desk
    in (isl (fst p), length (st_history (rd_access (snd p))), length (st_history (rd_access ex_desk)))) = (False, 1, 0)"
  by code_simp

theorem approval_never_widens_witness:
  "\<exists>r f1. loadCapabilityRequest ''r1'' 20 ex_log = (Inr r, f1) \<and> cr_status r = Pending"
proof -
  obtain nxt where "fst (approveCapabilityRequest ex_env ''r1'' ex_narrowing 20 21 22 ex_desk) = Inr nxt"
    using ex_approved by (cases "fst (approveCapabilityRequest ex_env ''r1'' ex_narrowing 20 21 22 ex_desk)") (simp_all add: Let_def)
  then have "approveCapabilityRequest ex_env ''r1'' ex_narrowing 20 21 22 ex_desk
      = (Inr nxt, snd (approveCapabilityRequest ex_env ''r1'' ex_narrowing 20 21 22 ex_desk))" by (metis prod.collapse)
  from approval_never_widens [OF this, of 30] show ?thesis by (auto simp: ex_desk_def)
qed

text \<open>
  Authority never exists ahead of the record that explains it: whatever an approval attempt
  returns, if it changed the access policy at all then the request log on disk already shows that
  request as approved, with the grant id the policy uses.
\<close>

theorem authority_follows_record:
  assumes "approveCapabilityRequest env i nw t1 t2 t3 st = (res, st')" and "rd_access st' \<noteq> rd_access st"
  shows "\<exists>rs r. readUnlocked (rd_requests st') = Inr rs \<and> r \<in> set rs \<and> cr_id r = i \<and> cr_status r = Approved \<and> cr_grantId r = Some i"
  using assms(1)
proof (cases rule: approve_cases)
  case (recorded r a nxt f1 ures)
  have id: "cr_id r = i" using load_member [OF recorded(1)] by simp
  from recorded(4) show ?thesis
  proof (cases rule: decide_cases)
    case (decided rs x y)
    have x: "x \<in> set rs" "cr_id x = i" using find_SomeD [OF decided(2)] by simp_all
    have "request_wf x" using read_wf [OF decided(1)] x by (simp add: list_all_iff)
    then have "list_all request_wf (put_request y rs)"
      using read_wf [OF decided(1)] decided(5) by (intro put_request_wf) (auto simp: request_wf_def)
    then have "readUnlocked (rd_requests st') = Inr (put_request y rs)" using decided(7) read_write by simp
    moreover have "y \<in> set (put_request y rs)" using put_request_new [OF x(1), of y] x(2) decided(5) by simp
    ultimately show ?thesis using decided(5) x id by auto
  qed simp_all
qed (use assms(2) in simp)

theorem authority_follows_record_witness:
  "\<exists>rs r. readUnlocked (rd_requests (snd (approveCapabilityRequest ex_env ''r1'' ex_narrowing 20 21 22 ex_desk))) = Inr rs
     \<and> r \<in> set rs \<and> cr_id r = ''r1'' \<and> cr_status r = Approved \<and> cr_grantId r = Some ''r1''"
proof (rule authority_follows_record)
  show "approveCapabilityRequest ex_env ''r1'' ex_narrowing 20 21 22 ex_desk
      = (fst (approveCapabilityRequest ex_env ''r1'' ex_narrowing 20 21 22 ex_desk),
         snd (approveCapabilityRequest ex_env ''r1'' ex_narrowing 20 21 22 ex_desk))" by simp
  have "length (st_history (rd_access (snd (approveCapabilityRequest ex_env ''r1'' ex_narrowing 20 21 22 ex_desk)))) = 1"
    "length (st_history (rd_access ex_desk)) = 0" using ex_approved by (simp_all add: Let_def)
  then show "rd_access (snd (approveCapabilityRequest ex_env ''r1'' ex_narrowing 20 21 22 ex_desk)) \<noteq> rd_access ex_desk" by auto
qed

text \<open>
  Decisions are final and the log forgets nothing decided: from a readable log with distinct ids,
  after any sequence of listings, creations under fresh ids and decisions, every request that was
  approved, denied or expired is still in the log, unchanged; in particular an approval cannot be
  repeated to mint a second grant.
\<close>

theorem decided_requests_are_final:
  assumes "(request_step env)\<^sup>*\<^sup>* f f'" and "readUnlocked f = Inr rs" and "distinct (map cr_id rs)"
    and "r \<in> set rs" and "cr_status r \<noteq> Pending"
  shows "\<exists>rs'. readUnlocked f' = Inr rs' \<and> r \<in> set rs' \<and> distinct (map cr_id rs')"
  using assms(1)
proof (induction rule: rtranclp_induct)
  case base
  then show ?case using assms(2-4) by blast
next
  case (step g h)
  then obtain rs' where rs': "readUnlocked g = Inr rs'" "r \<in> set rs'" "distinct (map cr_id rs')" by blast
  show ?case using request_step_keeps [OF step(2) rs'(1,3)] rs'(2) assms(5) by (auto simp: keeps_decided_def)
qed

definition ex_denied :: "json stored" where
  "ex_denied = snd (denyCapabilityRequest ''r1'' 30 ex_log)"

theorem decided_requests_are_final_witness:
  "\<exists>r rs'. cr_status r = Denied \<and> readUnlocked (snd (decideCapabilityRequest ''r1'' Approved None False 40 ex_denied)) = Inr rs' \<and> r \<in> set rs'"
proof -
  have "case readUnlocked ex_denied of Inr [r] \<Rightarrow> cr_status r = Denied | _ \<Rightarrow> False" by code_simp
  then obtain r where r: "readUnlocked ex_denied = Inr [r]" "cr_status r = Denied"
    by (auto split: sum.splits list.splits)
  have "(request_step ex_env)\<^sup>*\<^sup>* ex_denied (snd (decideCapabilityRequest ''r1'' Approved None False 40 ex_denied))"
    by (rule r_into_rtranclp) (rule rs_decide)
  from decided_requests_are_final [OF this r(1)] r(2) show ?thesis by auto
qed

text \<open>The narrowed flag compares lengths only: a repeated capability hides that one was dropped.\<close>

lemma repeated_capability_not_marked_narrowed:
  "\<exists>r n a. assertNarrowing ex_env r n = Inr a \<and> \<not> at_narrowed a \<and> set (at_capabilities a) \<subset> set (cr_capabilities r)"
proof -
  let ?n = "\<lparr>rn_capabilities = Some [CapFileRead, CapFileRead], rn_roots = None, rn_durationMs = None, rn_maxUses = None\<rparr>"
  have "case new_request ex_env ex_new ''r1'' 10 of Inr r \<Rightarrow>
      (case assertNarrowing ex_env r ?n of
         Inr a \<Rightarrow> \<not> at_narrowed a \<and> at_capabilities a = [CapFileRead, CapFileRead] \<and> cr_capabilities r = [CapFileRead, CapFileWrite]
       | Inl _ \<Rightarrow> False) | Inl _ \<Rightarrow> False" by code_simp
  then obtain r a where "assertNarrowing ex_env r ?n = Inr a" "\<not> at_narrowed a"
    "at_capabilities a = [CapFileRead, CapFileRead]" "cr_capabilities r = [CapFileRead, CapFileWrite]"
    by (auto split: sum.splits)
  then show ?thesis by (intro exI conjI) auto
qed

end
