(* ===== verification/Reach_Capacity.thy ===== *)
theory Reach_Capacity
  imports Reach_Security
begin

text \<open>
  Whether a job can run now: the slot ceilings, pressure classification and admission verdict of
  \<open>src/src/shared/machine-capacity.ts\<close>, the set of processes that belong to the caller or to a lease
  (\<open>verifiedLeasePids\<close>, \<open>collectExcludedPids\<close>), the resource bundles of \<open>work-bundle.ts\<close> and the
  owner's capacity profile with its sustained-health record, \<open>capacity-profile.ts\<close>. Measured numbers
  are rationals; a reading that is null or not finite is \<open>None\<close>.
\<close>

section \<open>Classes and readings\<close>

datatype memory_pressure = MemHealthy | MemWarning | MemCritical | MemUnknown

datatype cpu_pressure = CpuHealthy | CpuBusy | CpuSaturated | CpuUnknown

datatype thermal_pressure = ThermalHealthy | ThermalLimited | ThermalUnknown

datatype workload_class = Light | Medium | Heavy

datatype access_class = Read | Mutate | Exclusive

datatype capacity_profile = Conservative | Interactive

fun workload_string :: "workload_class \<Rightarrow> string" where
  "workload_string Light = ''light''"
| "workload_string Medium = ''medium''"
| "workload_string Heavy = ''heavy''"

fun access_string :: "access_class \<Rightarrow> string" where
  "access_string Read = ''read''"
| "access_string Mutate = ''mutate''"
| "access_string Exclusive = ''exclusive''"

definition as_workload :: "string \<Rightarrow> workload_class option" where
  "as_workload s = List.find (\<lambda>w. workload_string w = s) [Light, Medium, Heavy]"

definition as_access :: "string \<Rightarrow> access_class option" where
  "as_access s = List.find (\<lambda>a. access_string a = s) [Read, Mutate, Exclusive]"

record host_reading =
  hr_physicalMemoryBytes :: rat
  hr_logicalCpuCount :: rat
  hr_loadAverage1m :: "rat option"
  hr_memory :: memory_pressure
  hr_thermal :: thermal_pressure

record capacity_counts =
  cc_activeSubstantive :: nat
  cc_activeHeavy :: nat
  cc_observedUncoordinatedHeavy :: nat
  cc_processObserved :: bool

record capacity_request =
  cq_workload :: workload_class
  cq_access :: access_class
  cq_profile :: capacity_profile
  cq_interactiveReady :: bool

datatype capacity_reason =
    LightInspection
  | ProcessObservationUnavailable
  | SubstantiveSlotsExhausted nat nat
  | InteractiveWarming
  | HeavySlotsExhausted nat nat
  | MemoryCritical
  | MemoryWarningHeavy
  | MemoryUnknownQueues
  | ThermalLimiting
  | CpuIsSaturated
  | CpuBusyHeavy
  | CpuUnknownQueues
  | CapacityAvailable

record machine_capacity =
  mc_substantiveSlots :: nat
  mc_heavySlots :: nat
  mc_cpu :: cpu_pressure
  mc_canAdmit :: bool
  mc_reasons :: "capacity_reason list"

section \<open>Slots and verdict\<close>

definition GIB :: rat where
  "GIB = 2 ^ 30"

definition memorySubstantiveSlots :: "rat \<Rightarrow> nat" where
  "memorySubstantiveSlots bytes =
     (let gib = bytes / GIB in
      if gib \<le> 0 then 1 else if gib \<le> 12 then 1 else if gib \<le> 24 then 2 else if gib \<le> 48 then 3
      else min 4 (nat \<lfloor>gib / 12\<rfloor>))"

definition memoryHeavySlots :: "rat \<Rightarrow> nat" where
  "memoryHeavySlots bytes =
     (let gib = bytes / GIB in
      if gib \<le> 0 then 1 else if gib \<le> 24 then 1 else if gib \<le> 48 then 2 else min 2 (nat \<lfloor>gib / 20\<rfloor>))"

definition cpuSubstantiveSlots :: "rat \<Rightarrow> nat" where
  "cpuSubstantiveSlots cpus = (if cpus \<le> 0 then 1 else max 1 (nat \<lfloor>cpus / 4\<rfloor>))"

definition substantiveSlotsFor :: "rat \<Rightarrow> rat \<Rightarrow> nat" where
  "substantiveSlotsFor bytes cpus = max 1 (min (memorySubstantiveSlots bytes) (cpuSubstantiveSlots cpus))"

definition substantiveSlotsForProfile :: "rat \<Rightarrow> rat \<Rightarrow> capacity_profile \<Rightarrow> bool \<Rightarrow> nat" where
  "substantiveSlotsForProfile bytes cpus profile ready =
     (let base = substantiveSlotsFor bytes cpus in
      if profile = Interactive \<and> ready \<and> base = 1 \<and> bytes \<ge> 8 * GIB \<and> cpus \<ge> 4 then 2 else base)"

definition heavySlotsFor :: "rat \<Rightarrow> rat \<Rightarrow> nat" where
  "heavySlotsFor bytes cpus = max 1 (min (memoryHeavySlots bytes) (substantiveSlotsFor bytes cpus))"

definition classifyCpuPressure :: "rat option \<Rightarrow> rat \<Rightarrow> cpu_pressure" where
  "classifyCpuPressure load cpus = (case load of
      None \<Rightarrow> CpuUnknown
    | Some l \<Rightarrow>
        if l < 0 then CpuUnknown
        else if cpus \<le> 0 then CpuUnknown
        else if l \<ge> cpus then CpuSaturated
        else if l \<ge> cpus * 3 / 4 then CpuBusy
        else CpuHealthy)"

definition isSubstantive :: "workload_class \<Rightarrow> access_class \<Rightarrow> bool" where
  "isSubstantive w a = (w \<noteq> Light \<or> a \<noteq> Read)"

definition capacity_objections :: "host_reading \<Rightarrow> capacity_counts \<Rightarrow> capacity_request \<Rightarrow> capacity_reason list" where
  "capacity_objections probe counts request =
     (let slots = substantiveSlotsForProfile (hr_physicalMemoryBytes probe) (hr_logicalCpuCount probe)
                    (cq_profile request) (cq_interactiveReady request);
          heavySlots = heavySlotsFor (hr_physicalMemoryBytes probe) (hr_logicalCpuCount probe);
          cpu = classifyCpuPressure (hr_loadAverage1m probe) (hr_logicalCpuCount probe);
          heavy = (cq_workload request = Heavy);
          used = cc_activeSubstantive counts + cc_observedUncoordinatedHeavy counts
      in (if \<not> cc_processObserved counts then [ProcessObservationUnavailable] else []) @
         (if used \<ge> slots then SubstantiveSlotsExhausted used slots #
            (if cq_profile request = Interactive \<and> \<not> cq_interactiveReady request then [InteractiveWarming] else []) else []) @
         (if heavy \<and> cc_activeHeavy counts \<ge> heavySlots then [HeavySlotsExhausted (cc_activeHeavy counts) heavySlots] else []) @
         (if hr_memory probe = MemCritical then [MemoryCritical]
          else if hr_memory probe = MemWarning \<and> heavy then [MemoryWarningHeavy]
          else if hr_memory probe = MemUnknown then [MemoryUnknownQueues] else []) @
         (if hr_thermal probe = ThermalLimited then [ThermalLimiting] else []) @
         (if cpu = CpuSaturated then [CpuIsSaturated]
          else if cpu = CpuBusy \<and> heavy then [CpuBusyHeavy]
          else if cpu = CpuUnknown then [CpuUnknownQueues] else []))"

definition evaluateCapacity :: "host_reading \<Rightarrow> capacity_counts \<Rightarrow> capacity_request \<Rightarrow> machine_capacity" where
  "evaluateCapacity probe counts request =
     (let slots = substantiveSlotsForProfile (hr_physicalMemoryBytes probe) (hr_logicalCpuCount probe)
                    (cq_profile request) (cq_interactiveReady request);
          heavySlots = heavySlotsFor (hr_physicalMemoryBytes probe) (hr_logicalCpuCount probe);
          cpu = classifyCpuPressure (hr_loadAverage1m probe) (hr_logicalCpuCount probe)
      in if \<not> isSubstantive (cq_workload request) (cq_access request)
         then \<lparr>mc_substantiveSlots = slots, mc_heavySlots = heavySlots, mc_cpu = cpu, mc_canAdmit = True,
               mc_reasons = [LightInspection]\<rparr>
         else (let objections = capacity_objections probe counts request;
                   reasons = (if objections = [] then [CapacityAvailable] else objections)
               in \<lparr>mc_substantiveSlots = slots, mc_heavySlots = heavySlots, mc_cpu = cpu,
                   mc_canAdmit = (reasons = [CapacityAvailable]), mc_reasons = reasons\<rparr>))"

section \<open>Resource bundles\<close>

datatype io_class = IoLow | IoNormal | IoHigh

datatype network_class = NetNone | NetLight | NetHeavy

record work_bundle =
  wb_cpuUnits :: int
  wb_memoryMiB :: int
  wb_io :: io_class
  wb_network :: network_class
  wb_repositoryWrite :: bool
  wb_machineExclusive :: bool

datatype bundle_error = BundleMalformed | MustDeclareRepositoryWrite | MustDeclareMachineExclusive

definition legacyWorkBundle :: "workload_class \<Rightarrow> access_class \<Rightarrow> work_bundle" where
  "legacyWorkBundle w a =
     (let (cpu, mem, io, net) = (case w of
          Light \<Rightarrow> (1, 512, IoLow, NetNone)
        | Medium \<Rightarrow> (2, 2048, IoNormal, NetLight)
        | Heavy \<Rightarrow> (4, 4096, IoHigh, NetHeavy))
      in \<lparr>wb_cpuUnits = cpu, wb_memoryMiB = mem, wb_io = io, wb_network = net,
          wb_repositoryWrite = (a \<noteq> Read), wb_machineExclusive = (a = Exclusive)\<rparr>)"

text \<open>The numeric ranges of \<open>isWorkBundle\<close>; the enumerations and flags are typed.\<close>

definition isWorkBundle :: "work_bundle \<Rightarrow> bool" where
  "isWorkBundle b = (1 \<le> wb_cpuUnits b \<and> wb_cpuUnits b \<le> 64 \<and> 64 \<le> wb_memoryMiB b \<and> wb_memoryMiB b \<le> 1048576)"

definition normalizeWorkBundle :: "workload_class \<Rightarrow> access_class \<Rightarrow> work_bundle option \<Rightarrow> bundle_error + work_bundle" where
  "normalizeWorkBundle w a v = (case v of
      None \<Rightarrow> Inr (legacyWorkBundle w a)
    | Some b \<Rightarrow>
        if \<not> isWorkBundle b then Inl BundleMalformed
        else if a \<noteq> Read \<and> \<not> wb_repositoryWrite b then Inl MustDeclareRepositoryWrite
        else if a = Exclusive \<and> \<not> wb_machineExclusive b then Inl MustDeclareMachineExclusive
        else Inr b)"

definition bundleBudget :: "rat \<Rightarrow> rat \<Rightarrow> int \<times> int" where
  "bundleBudget bytes cpus =
     (max 1 \<lfloor>max 1 cpus * 3 / 4\<rfloor>, max 1024 \<lfloor>max 0 bytes / 2 ^ 20 * 3 / 5\<rfloor>)"

section \<open>Processes that are not competitors\<close>

record process_row =
  ps_pid :: int
  ps_ppid :: int
  ps_elapsedSeconds :: "int option"

record lease_identity =
  li_pid :: int
  li_createdAt :: timestamp

text \<open>\<open>new Map(rows.map(...))\<close>: the last row of a pid wins.\<close>

definition row_of :: "process_row list \<Rightarrow> int \<Rightarrow> process_row option" where
  "row_of rows p = List.find (\<lambda>r. ps_pid r = p) (rev rows)"

definition verifiedLeasePids :: "process_row list \<Rightarrow> lease_identity list \<Rightarrow> int \<Rightarrow> int list" where
  "verifiedLeasePids rows leases observedAt = concat (map (\<lambda>l.
     case (row_of rows (li_pid l), date_parse (li_createdAt l)) of
       (Some row, Some created) \<Rightarrow> (case ps_elapsedSeconds row of
           Some e \<Rightarrow> if observedAt - e * 1000 \<le> created then [li_pid l] else []
         | None \<Rightarrow> [])
     | _ \<Rightarrow> []) leases)"

definition parentOf :: "process_row list \<Rightarrow> int \<Rightarrow> int option" where
  "parentOf rows p = map_option ps_ppid (row_of rows p)"

definition childrenOf :: "process_row list \<Rightarrow> int \<Rightarrow> int list" where
  "childrenOf rows p = map ps_pid (filter (\<lambda>r. ps_ppid r = p) rows)"

fun ancestors_loop :: "process_row list \<Rightarrow> nat \<Rightarrow> int option \<Rightarrow> int list \<Rightarrow> int list" where
  "ancestors_loop rows 0 cursor excluded = excluded"
| "ancestors_loop rows (Suc guard) cursor excluded = (case cursor of
      None \<Rightarrow> excluded
    | Some c \<Rightarrow> if c > 1 \<and> c \<notin> set excluded
               then ancestors_loop rows guard (parentOf rows c) (c # excluded) else excluded)"

text \<open>The inner loop over the children of one process: newly excluded ones go on the stack.\<close>

fun push_children :: "int list \<Rightarrow> int list \<Rightarrow> int list \<Rightarrow> int list \<times> int list" where
  "push_children [] excluded stack = (excluded, stack)"
| "push_children (c # cs) excluded stack =
     (if c \<in> set excluded then push_children cs excluded stack
      else push_children cs (c # excluded) (c # stack))"

lemma push_children_excluded: "set (fst (push_children cs ex st)) = set ex \<union> set cs"
  by (induction cs ex st rule: push_children.induct) auto

lemma push_children_stack:
  "set (snd (push_children cs ex st)) = set st \<union> (set cs - set ex)"
  by (induction cs ex st rule: push_children.induct) auto

lemma push_children_length:
  "length (snd (push_children cs ex st)) + card (A - set (fst (push_children cs ex st))) \<le> length st + card (A - set ex)"
  if "finite A" "set cs \<subseteq> A"
  using that(2)
proof (induction cs ex st rule: push_children.induct)
  case (2 c cs ex st)
  show ?case
  proof (cases "c \<in> set ex")
    case False
    then have "card (A - set (c # ex)) < card (A - set ex)"
      using 2 that(1) by (intro psubset_card_mono) auto
    then show ?thesis using 2 False by simp
  qed (use 2 in simp)
qed simp

function descend :: "process_row list \<Rightarrow> int list \<Rightarrow> int list \<Rightarrow> int list" where
  "descend rows excluded [] = excluded"
| "descend rows excluded (p # stack) =
     (let (ex, st) = push_children (childrenOf rows p) excluded stack in descend rows ex st)"
  by pat_completeness auto
termination
proof (relation "measure (\<lambda>(rows, ex, st). length st + card (ps_pid ` set rows - set ex))", goal_cases)
  case 1
  show ?case by simp
next
  case (2 rows excluded p stack x ex st)
  have "set (childrenOf rows p) \<subseteq> ps_pid ` set rows" by (auto simp: childrenOf_def)
  then have "length st + card (ps_pid ` set rows - set ex) \<le> length stack + card (ps_pid ` set rows - set excluded)"
    using push_children_length [of "ps_pid ` set rows" "childrenOf rows p" excluded stack] 2 by (metis List.finite_set finite_imageI fst_conv snd_conv)
  then show ?case by simp
qed

definition collectExcludedPids :: "process_row list \<Rightarrow> int \<Rightarrow> int list \<Rightarrow> lease_identity list \<Rightarrow> int \<Rightarrow> int list" where
  "collectExcludedPids rows selfPid leasedPids leases observedAt =
     (let leased = leasedPids @ verifiedLeasePids rows leases observedAt;
          excluded = ancestors_loop rows 64 (parentOf rows selfPid) (selfPid # leased)
      in descend rows excluded (rev (selfPid # leased)))"

section \<open>Capacity profile\<close>

record profile_store =
  cs_profile :: "json stored"
  cs_health :: "json stored"

definition SUSTAINED_HEALTH_MS :: int where
  "SUSTAINED_HEALTH_MS = 60000"

definition MAX_SAMPLE_GAP_MS :: int where
  "MAX_SAMPLE_GAP_MS = 90000"

datatype profile_error = ProfileFileUnreadable

fun profile_string :: "capacity_profile \<Rightarrow> string" where
  "profile_string Conservative = ''conservative''"
| "profile_string Interactive = ''interactive''"

text \<open>\<open>readJson\<close>: null for a missing file, an error for one that cannot be read or parsed.\<close>

fun readJson :: "json stored \<Rightarrow> profile_error + json option" where
  "readJson Absent = Inr None"
| "readJson Unreadable = Inl ProfileFileUnreadable"
| "readJson (Contents j) = Inr (Some j)"

definition validProfile :: "json \<Rightarrow> capacity_profile option" where
  "validProfile j = (case (str_field j ''profile'', stamp_field j ''updatedAt'') of
      (Some s, Some _) \<Rightarrow> List.find (\<lambda>p. profile_string p = s) [Conservative, Interactive]
    | _ \<Rightarrow> None)"

text \<open>A health record: since when the host is healthy, and when it was last observed.\<close>

definition validHealth :: "json \<Rightarrow> (timestamp option \<times> timestamp) option" where
  "validHealth j = (case stamp_field j ''lastObservedAt'' of
      None \<Rightarrow> None
    | Some t \<Rightarrow> (case jget j ''healthySince'' of
          None \<Rightarrow> None
        | Some JNull \<Rightarrow> Some (None, t)
        | Some v \<Rightarrow> map_option (\<lambda>h. (Some h, t)) (json_stamp v)))"

definition encodeHealth :: "timestamp option \<Rightarrow> timestamp \<Rightarrow> json" where
  "encodeHealth since t = JObj [(''healthySince'', json_opt stamp_json since), (''lastObservedAt'', stamp_json t)]"

definition loadCapacityProfile :: "profile_store \<Rightarrow> profile_error + capacity_profile" where
  "loadCapacityProfile st = (case readJson (cs_profile st) of
      Inl e \<Rightarrow> Inl e
    | Inr None \<Rightarrow> Inr Conservative
    | Inr (Some j) \<Rightarrow> Inr (case validProfile j of Some p \<Rightarrow> p | None \<Rightarrow> Conservative))"

definition setCapacityProfile :: "capacity_profile \<Rightarrow> int \<Rightarrow> profile_store \<Rightarrow> profile_store" where
  "setCapacityProfile p now st =
     \<lparr>cs_profile = Contents (JObj [(''profile'', JStr (profile_string p)), (''updatedAt'', JIso now)]),
      cs_health = Contents (encodeHealth None (Iso now))\<rparr>"

record health_sample =
  hs_memory :: memory_pressure
  hs_cpu :: cpu_pressure
  hs_thermal :: thermal_pressure
  hs_uncoordinatedHeavy :: nat

definition sample_healthy :: "health_sample \<Rightarrow> bool" where
  "sample_healthy s = (hs_memory s = MemHealthy \<and> hs_cpu s = CpuHealthy \<and> hs_thermal s \<noteq> ThermalLimited \<and> hs_uncoordinatedHeavy s = 0)"

record capacity_health =
  ch_profile :: capacity_profile
  ch_interactiveReady :: bool
  ch_healthyForMs :: int

definition recordCapacityHealth ::
  "health_sample \<Rightarrow> int \<Rightarrow> profile_store \<Rightarrow> (profile_error + capacity_health) \<times> profile_store" where
  "recordCapacityHealth s now st = (case loadCapacityProfile st of
      Inl e \<Rightarrow> (Inl e, st)
    | Inr profile \<Rightarrow> (case readJson (cs_health st) of
          Inl e \<Rightarrow> (Inl e, st)
        | Inr raw \<Rightarrow>
            (let (since, seen) = (case raw of
                   Some j \<Rightarrow> (case validHealth j of Some h \<Rightarrow> h | None \<Rightarrow> (None, Iso 0)) | None \<Rightarrow> (None, Iso 0));
                 continuous = (since \<noteq> None \<and> (case date_parse seen of Some t \<Rightarrow> now - t \<le> MAX_SAMPLE_GAP_MS | None \<Rightarrow> False));
                 nxt = (if sample_healthy s then (if continuous then since else Some (Iso now)) else None);
                 healthyFor = (case nxt of None \<Rightarrow> 0 | Some h \<Rightarrow> (case date_parse h of Some t \<Rightarrow> max 0 (now - t) | None \<Rightarrow> 0))
             in (Inr \<lparr>ch_profile = profile,
                      ch_interactiveReady = (profile = Interactive \<and> healthyFor \<ge> SUSTAINED_HEALTH_MS),
                      ch_healthyForMs = healthyFor\<rparr>,
                 st\<lparr>cs_health := Contents (encodeHealth nxt (Iso now))\<rparr>))))"

section \<open>Bounds\<close>

lemma memorySubstantiveSlots_bounds: "1 \<le> memorySubstantiveSlots b \<and> memorySubstantiveSlots b \<le> 4"
proof -
  have "1 \<le> nat \<lfloor>g / 12\<rfloor>" if "48 < g" for g :: rat
  proof -
    have "1 \<le> \<lfloor>g / 12\<rfloor>" using that by (simp add: le_floor_iff)
    then show ?thesis by linarith
  qed
  from this [of "b / GIB"] show ?thesis
    unfolding memorySubstantiveSlots_def Let_def by (simp del: divide_divide_eq_left add: not_le)
qed

lemma substantiveSlotsForProfile_bounds:
  "1 \<le> substantiveSlotsForProfile b c p r \<and> substantiveSlotsForProfile b c p r \<le> 4"
  using memorySubstantiveSlots_bounds [of b]
  by (auto simp: substantiveSlotsForProfile_def substantiveSlotsFor_def Let_def)

lemma heavy_le_substantive: "heavySlotsFor b c \<le> substantiveSlotsFor b c"
  by (auto simp: heavySlotsFor_def substantiveSlotsFor_def)

lemma substantiveSlots_profile_ge: "substantiveSlotsFor b c \<le> substantiveSlotsForProfile b c p r"
  by (auto simp: substantiveSlotsForProfile_def Let_def)

lemma objections_Nil:
  assumes "capacity_objections probe counts request = []"
  shows "cc_processObserved counts"
    "cc_activeSubstantive counts + cc_observedUncoordinatedHeavy counts
       < substantiveSlotsForProfile (hr_physicalMemoryBytes probe) (hr_logicalCpuCount probe) (cq_profile request) (cq_interactiveReady request)"
    "cq_workload request = Heavy \<Longrightarrow> cc_activeHeavy counts < heavySlotsFor (hr_physicalMemoryBytes probe) (hr_logicalCpuCount probe)"
    "hr_memory probe = MemHealthy \<or> hr_memory probe = MemWarning \<and> cq_workload request \<noteq> Heavy"
    "hr_thermal probe \<noteq> ThermalLimited"
    "classifyCpuPressure (hr_loadAverage1m probe) (hr_logicalCpuCount probe) = CpuHealthy
       \<or> classifyCpuPressure (hr_loadAverage1m probe) (hr_logicalCpuCount probe) = CpuBusy \<and> cq_workload request \<noteq> Heavy"
  using assms unfolding capacity_objections_def Let_def
  by (simp_all add: not_le split: if_splits)
    (cases "hr_memory probe"; cases "classifyCpuPressure (hr_loadAverage1m probe) (hr_logicalCpuCount probe)"; simp)+

lemma no_available_objection: "CapacityAvailable \<notin> set (capacity_objections probe counts request)"
  by (auto simp: capacity_objections_def Let_def split: if_splits)

lemma evaluateCapacity_canAdmit:
  "mc_canAdmit (evaluateCapacity probe counts request) \<longleftrightarrow>
     \<not> isSubstantive (cq_workload request) (cq_access request) \<or> capacity_objections probe counts request = []"
proof (cases "isSubstantive (cq_workload request) (cq_access request)")
  case True
  then show ?thesis using no_available_objection [of probe counts request]
    by (auto simp: evaluateCapacity_def Let_def)
qed (simp add: evaluateCapacity_def Let_def)

lemma legacy_is_bundle: "isWorkBundle (legacyWorkBundle w a)"
  by (cases w) (simp_all add: isWorkBundle_def legacyWorkBundle_def)

lemma normalizeWorkBundle_ok:
  "normalizeWorkBundle w a v = Inr b \<Longrightarrow> isWorkBundle b \<and> (a \<noteq> Read \<longrightarrow> wb_repositoryWrite b) \<and> (a = Exclusive \<longrightarrow> wb_machineExclusive b)"
  by (auto simp: normalizeWorkBundle_def legacy_is_bundle split: option.splits if_splits)
    (simp_all add: legacyWorkBundle_def split: workload_class.splits)

section \<open>The excluded processes are a closed set\<close>

lemma ancestors_loop_mono: "set ex \<subseteq> set (ancestors_loop rows g c ex)"
  by (induction rows g c ex rule: ancestors_loop.induct) (auto split: option.splits)

lemma descend_mono: "set ex \<subseteq> set (descend rows ex st)"
proof (induction rows ex st rule: descend.induct)
  case (2 rows ex p st)
  then show ?case using push_children_excluded [of "childrenOf rows p" ex st]
    by (cases "push_children (childrenOf rows p) ex st") auto
qed simp

text \<open>Every process taken from the stack has all its children excluded at the end.\<close>

lemma descend_closed:
  assumes "set st \<subseteq> set ex"
    and "\<And>p. p \<in> set ex - S - set st \<Longrightarrow> set (childrenOf rows p) \<subseteq> set ex"
  shows "\<forall>p \<in> set (descend rows ex st) - S. set (childrenOf rows p) \<subseteq> set (descend rows ex st)"
  using assms
proof (induction rows ex st rule: descend.induct)
  case (2 rows ex p st)
  obtain ex' st' where pc: "push_children (childrenOf rows p) ex st = (ex', st')" by fastforce
  have ex': "set ex' = set ex \<union> set (childrenOf rows p)" using push_children_excluded [of "childrenOf rows p" ex st] pc by simp
  have st': "set st' = set st \<union> (set (childrenOf rows p) - set ex)" using push_children_stack [of "childrenOf rows p" ex st] pc by simp
  have "\<forall>q \<in> set (descend rows ex' st') - S. set (childrenOf rows q) \<subseteq> set (descend rows ex' st')"
  proof (rule "2.IH" [OF pc [symmetric] refl])
    show "set st' \<subseteq> set ex'" using 2(2) ex' st' by auto
    show "set (childrenOf rows q) \<subseteq> set ex'" if "q \<in> set ex' - S - set st'" for q
    proof (cases "q = p")
      case False
      then have "q \<in> set ex - S - set (p # st)" using that ex' st' by auto
      then show ?thesis using 2(3) ex' by blast
    qed (use ex' in simp)
  qed
  then show ?case using pc by simp
qed simp

text \<open>Nothing is excluded but the starting set and descendants of the stack.\<close>

lemma descend_sound:
  assumes "p \<in> set (descend rows ex st)"
  shows "p \<in> set ex \<or> (\<exists>q \<in> set st. (\<lambda>a b. b \<in> set (childrenOf rows a))\<^sup>+\<^sup>+ q p)"
  using assms
proof (induction rows ex st rule: descend.induct)
  case (2 rows ex p' st)
  obtain ex' st' where pc: "push_children (childrenOf rows p') ex st = (ex', st')" by fastforce
  have ex': "set ex' = set ex \<union> set (childrenOf rows p')" using push_children_excluded [of "childrenOf rows p'" ex st] pc by simp
  have st': "set st' = set st \<union> (set (childrenOf rows p') - set ex)" using push_children_stack [of "childrenOf rows p'" ex st] pc by simp
  have "p \<in> set ex' \<or> (\<exists>q \<in> set st'. (\<lambda>a b. b \<in> set (childrenOf rows a))\<^sup>+\<^sup>+ q p)"
    using "2.IH" [OF pc [symmetric] refl] 2(2) pc by simp
  then show ?case using ex' st' by (auto intro: tranclp_into_tranclp2 tranclp.r_into_trancl)
qed simp

section \<open>Sustained health\<close>

text \<open>
  A history of the health file since the profile was last set: the times and verdicts of the samples
  recorded, latest first.
\<close>

inductive health_run :: "(int \<times> bool) list \<Rightarrow> profile_store \<Rightarrow> bool" where
  hr_set: "health_run [] (setCapacityProfile p now st)"
| hr_sample: "health_run tr st \<Longrightarrow> (\<And>t b. (t, b) \<in> set tr \<Longrightarrow> t \<le> now) \<Longrightarrow>
    health_run ((now, sample_healthy s) # tr) (snd (recordCapacityHealth s now st))"

text \<open>The samples of an unbroken healthy stretch that began at \<open>since\<close>, latest first.\<close>

fun healthy_stretch :: "int \<Rightarrow> (int \<times> bool) list \<Rightarrow> bool" where
  "healthy_stretch since [] = False"
| "healthy_stretch since ((t, ok) # tr) =
     (ok \<and> (t = since \<or> (case tr of [] \<Rightarrow> False | (t', _) # _ \<Rightarrow> t - t' \<le> MAX_SAMPLE_GAP_MS \<and> healthy_stretch since tr)))"

definition health_inv :: "(int \<times> bool) list \<Rightarrow> profile_store \<Rightarrow> bool" where
  "health_inv tr st \<longleftrightarrow> (\<exists>since seen. cs_health st = Contents (encodeHealth since (Iso seen))
     \<and> (case tr of [] \<Rightarrow> since = None | (t, _) # _ \<Rightarrow> seen = t)
     \<and> (case since of None \<Rightarrow> True | Some h \<Rightarrow> (\<exists>t0. h = Iso t0 \<and> healthy_stretch t0 tr)))
     \<and> (\<exists>p. loadCapacityProfile st = Inr p)"

lemma validHealth_encode: "validHealth (encodeHealth since (Iso seen)) = Some (since, Iso seen)"
proof (cases since)
  case (Some h)
  then show ?thesis by (cases h) (simp_all add: validHealth_def encodeHealth_def)
qed (simp add: validHealth_def encodeHealth_def)

text \<open>One sample on a health file the program wrote.\<close>

lemma recordCapacityHealth_known:
  assumes "cs_health st = Contents (encodeHealth since (Iso seen))" "loadCapacityProfile st = Inr p"
  shows "\<exists>nxt. recordCapacityHealth s now st =
     (Inr \<lparr>ch_profile = p, ch_interactiveReady = (p = Interactive \<and> (case nxt of None \<Rightarrow> 0 | Some h \<Rightarrow>
          (case date_parse h of Some t \<Rightarrow> max 0 (now - t) | None \<Rightarrow> 0)) \<ge> SUSTAINED_HEALTH_MS),
        ch_healthyForMs = (case nxt of None \<Rightarrow> 0 | Some h \<Rightarrow> (case date_parse h of Some t \<Rightarrow> max 0 (now - t) | None \<Rightarrow> 0))\<rparr>,
      st\<lparr>cs_health := Contents (encodeHealth nxt (Iso now))\<rparr>)
     \<and> nxt = (if sample_healthy s then (if since \<noteq> None \<and> now - seen \<le> MAX_SAMPLE_GAP_MS then since else Some (Iso now)) else None)"
  using assms by (simp add: recordCapacityHealth_def validHealth_encode Let_def)

lemma health_inv_sample:
  assumes inv: "health_inv tr st"
  shows "health_inv ((now, sample_healthy s) # tr) (snd (recordCapacityHealth s now st))"
    and "fst (recordCapacityHealth s now st) = Inr ch \<Longrightarrow> ch_interactiveReady ch \<Longrightarrow>
      \<exists>since. now - since \<ge> SUSTAINED_HEALTH_MS \<and> healthy_stretch since ((now, sample_healthy s) # tr)"
proof -
  obtain since seen p where h: "cs_health st = Contents (encodeHealth since (Iso seen))"
    and seen: "case tr of [] \<Rightarrow> since = None | (t, _) # _ \<Rightarrow> seen = t"
    and st: "case since of None \<Rightarrow> True | Some h \<Rightarrow> (\<exists>t0. h = Iso t0 \<and> healthy_stretch t0 tr)"
    and p: "loadCapacityProfile st = Inr p"
    using inv by (auto simp: health_inv_def)
  define nxt where "nxt = (if sample_healthy s then (if since \<noteq> None \<and> now - seen \<le> MAX_SAMPLE_GAP_MS then since else Some (Iso now)) else None)"
  have stretch: "\<exists>t0. h = Iso t0 \<and> healthy_stretch t0 ((now, sample_healthy s) # tr)" if n: "nxt = Some h" for h
  proof (cases "since \<noteq> None \<and> now - seen \<le> MAX_SAMPLE_GAP_MS")
    case True
    then have sh: "sample_healthy s" "since = Some h" using n by (auto simp: nxt_def split: if_splits)
    then obtain t0 where t0: "h = Iso t0" "healthy_stretch t0 tr" using st by auto
    from sh seen obtain b tr' where "tr = (seen, b) # tr'" by (auto split: list.splits)
    then show ?thesis using t0 sh True by simp
  next
    case False
    then have "sample_healthy s" "h = Iso now" using n by (auto simp: nxt_def split: if_splits)
    then show ?thesis by simp
  qed
  have lp: "loadCapacityProfile (st\<lparr>cs_health := x\<rparr>) = Inr p" for x using p by (simp add: loadCapacityProfile_def)
  obtain ch' where r: "recordCapacityHealth s now st = (Inr ch', st\<lparr>cs_health := Contents (encodeHealth nxt (Iso now))\<rparr>)"
    and ready: "ch_interactiveReady ch' \<longleftrightarrow> p = Interactive \<and> (case nxt of None \<Rightarrow> 0 | Some h \<Rightarrow>
          (case date_parse h of Some t \<Rightarrow> max 0 (now - t) | None \<Rightarrow> 0)) \<ge> SUSTAINED_HEALTH_MS"
    using recordCapacityHealth_known [OF h p, of s now] unfolding nxt_def [symmetric] by auto
  show "health_inv ((now, sample_healthy s) # tr) (snd (recordCapacityHealth s now st))"
    unfolding health_inv_def
  proof (intro conjI exI [of _ nxt] exI [of _ now] exI [of _ p])
    show "case nxt of None \<Rightarrow> True | Some h \<Rightarrow> \<exists>t0. h = Iso t0 \<and> healthy_stretch t0 ((now, sample_healthy s) # tr)"
      using stretch by (cases nxt) auto
  qed (simp_all add: r lp)
  show "\<exists>since. now - since \<ge> SUSTAINED_HEALTH_MS \<and> healthy_stretch since ((now, sample_healthy s) # tr)"
    if "fst (recordCapacityHealth s now st) = Inr ch" "ch_interactiveReady ch"
  proof -
    have ch: "ch_interactiveReady ch'" using that r by simp
    then obtain h where n: "nxt = Some h" using ready by (cases nxt) (auto simp: SUSTAINED_HEALTH_MS_def)
    then obtain t0 where t0: "h = Iso t0" "healthy_stretch t0 ((now, sample_healthy s) # tr)" using stretch by blast
    have "now - t0 \<ge> SUSTAINED_HEALTH_MS" using ch n ready t0(1) by (auto simp: SUSTAINED_HEALTH_MS_def)
    then show ?thesis using t0(2) by blast
  qed
qed

lemma health_run_inv: "health_run tr st \<Longrightarrow> health_inv tr st"
proof (induction rule: health_run.induct)
  case (hr_set p now st)
  have "validProfile (JObj [(''profile'', JStr (profile_string p)), (''updatedAt'', JIso now)]) = Some p"
    by (cases p) (simp_all add: validProfile_def)
  then show ?case by (simp add: health_inv_def setCapacityProfile_def loadCapacityProfile_def) blast
next
  case (hr_sample tr st now s)
  then show ?case by (intro health_inv_sample(1))
qed

section \<open>Properties\<close>

text \<open>
  A substantive job is admitted on capacity grounds only when the process table was readable, the
  coordinated and observed substantive jobs together leave a free slot (of which there are always
  one to four), a heavy job finds a free heavy slot, and no unmeasured, critical or limited reading
  of memory, CPU or thermal state is in the way.
\<close>

theorem evaluateCapacity_sound:
  assumes "mc_canAdmit (evaluateCapacity probe counts request)" and "isSubstantive (cq_workload request) (cq_access request)"
  shows "cc_processObserved counts
    \<and> cc_activeSubstantive counts + cc_observedUncoordinatedHeavy counts < mc_substantiveSlots (evaluateCapacity probe counts request)
    \<and> 1 \<le> mc_substantiveSlots (evaluateCapacity probe counts request) \<and> mc_substantiveSlots (evaluateCapacity probe counts request) \<le> 4
    \<and> (cq_workload request = Heavy \<longrightarrow> cc_activeHeavy counts < mc_heavySlots (evaluateCapacity probe counts request)
         \<and> hr_memory probe = MemHealthy \<and> mc_cpu (evaluateCapacity probe counts request) = CpuHealthy)
    \<and> hr_memory probe \<in> {MemHealthy, MemWarning} \<and> hr_thermal probe \<noteq> ThermalLimited
    \<and> mc_cpu (evaluateCapacity probe counts request) \<in> {CpuHealthy, CpuBusy}"
proof -
  have none: "capacity_objections probe counts request = []" using assms evaluateCapacity_canAdmit by blast
  have f: "mc_substantiveSlots (evaluateCapacity probe counts request) = substantiveSlotsForProfile (hr_physicalMemoryBytes probe)
      (hr_logicalCpuCount probe) (cq_profile request) (cq_interactiveReady request)"
    "mc_heavySlots (evaluateCapacity probe counts request) = heavySlotsFor (hr_physicalMemoryBytes probe) (hr_logicalCpuCount probe)"
    "mc_cpu (evaluateCapacity probe counts request) = classifyCpuPressure (hr_loadAverage1m probe) (hr_logicalCpuCount probe)"
    by (simp_all add: evaluateCapacity_def Let_def)
  show ?thesis unfolding f using objections_Nil [OF none] substantiveSlotsForProfile_bounds by auto
qed

theorem evaluateCapacity_sound_witness:
  "mc_canAdmit (evaluateCapacity \<lparr>hr_physicalMemoryBytes = 16 * GIB, hr_logicalCpuCount = 8, hr_loadAverage1m = Some 1,
       hr_memory = MemHealthy, hr_thermal = ThermalUnknown\<rparr>
     \<lparr>cc_activeSubstantive = 1, cc_activeHeavy = 0, cc_observedUncoordinatedHeavy = 0, cc_processObserved = True\<rparr>
     \<lparr>cq_workload = Heavy, cq_access = Mutate, cq_profile = Conservative, cq_interactiveReady = False\<rparr>)
   \<and> mc_substantiveSlots (evaluateCapacity \<lparr>hr_physicalMemoryBytes = 16 * GIB, hr_logicalCpuCount = 8, hr_loadAverage1m = Some 1,
       hr_memory = MemHealthy, hr_thermal = ThermalUnknown\<rparr>
     \<lparr>cc_activeSubstantive = 1, cc_activeHeavy = 0, cc_observedUncoordinatedHeavy = 0, cc_processObserved = True\<rparr>
     \<lparr>cq_workload = Heavy, cq_access = Mutate, cq_profile = Conservative, cq_interactiveReady = False\<rparr>) > 1"
proof -
  have a: "mc_canAdmit (evaluateCapacity \<lparr>hr_physicalMemoryBytes = 16 * GIB, hr_logicalCpuCount = 8, hr_loadAverage1m = Some 1,
       hr_memory = MemHealthy, hr_thermal = ThermalUnknown\<rparr>
     \<lparr>cc_activeSubstantive = 1, cc_activeHeavy = 0, cc_observedUncoordinatedHeavy = 0, cc_processObserved = True\<rparr>
     \<lparr>cq_workload = Heavy, cq_access = Mutate, cq_profile = Conservative, cq_interactiveReady = False\<rparr>)" by code_simp
  from evaluateCapacity_sound [OF a] a show ?thesis by (simp add: isSubstantive_def)
qed

text \<open>
  The processes left out of the competitor count are exactly accounted for: the caller, the
  processes of verified leases and the caller's launch chain are excluded, every excluded process
  outside the launch chain has all its children excluded too, and nothing is excluded that is
  neither in the launch chain nor a descendant of the caller or of a leased process.
\<close>

theorem collectExcludedPids_closed:
  "let R = set (collectExcludedPids rows selfPid leasedPids leases observedAt);
       seeds = set (selfPid # leasedPids @ verifiedLeasePids rows leases observedAt);
       chain = set (ancestors_loop rows 64 (parentOf rows selfPid) (selfPid # leasedPids @ verifiedLeasePids rows leases observedAt))
   in seeds \<subseteq> R \<and> chain \<subseteq> R
    \<and> (\<forall>p \<in> R - (chain - seeds). set (childrenOf rows p) \<subseteq> R)
    \<and> (\<forall>p \<in> R. p \<in> chain \<or> (\<exists>q \<in> seeds. (\<lambda>a b. b \<in> set (childrenOf rows a))\<^sup>+\<^sup>+ q p))"
proof -
  define l where "l = selfPid # leasedPids @ verifiedLeasePids rows leases observedAt"
  define ex where "ex = ancestors_loop rows 64 (parentOf rows selfPid) l"
  have R: "collectExcludedPids rows selfPid leasedPids leases observedAt = descend rows ex (rev l)"
    by (simp add: l_def ex_def collectExcludedPids_def Let_def)
  have sc: "set l \<subseteq> set ex" unfolding ex_def by (rule ancestors_loop_mono)
  have "\<forall>p \<in> set (descend rows ex (rev l)) - (set ex - set l). set (childrenOf rows p) \<subseteq> set (descend rows ex (rev l))"
    by (rule descend_closed) (use sc in auto)
  moreover have "set ex \<subseteq> set (descend rows ex (rev l))" by (rule descend_mono)
  moreover have "p \<in> set ex \<or> (\<exists>q \<in> set l. (\<lambda>a b. b \<in> set (childrenOf rows a))\<^sup>+\<^sup>+ q p)"
    if "p \<in> set (descend rows ex (rev l))" for p
    using descend_sound [of p rows ex "rev l"] that by auto
  ultimately show ?thesis using sc unfolding Let_def R l_def [symmetric] ex_def [symmetric] by blast
qed

definition ex_rows :: "process_row list" where
  "ex_rows = [\<lparr>ps_pid = 10, ps_ppid = 1, ps_elapsedSeconds = Some 100\<rparr>, \<lparr>ps_pid = 20, ps_ppid = 10, ps_elapsedSeconds = Some 90\<rparr>,
     \<lparr>ps_pid = 30, ps_ppid = 20, ps_elapsedSeconds = Some 80\<rparr>, \<lparr>ps_pid = 40, ps_ppid = 20, ps_elapsedSeconds = Some 70\<rparr>]"

theorem collectExcludedPids_closed_witness:
  "20 \<in> set (collectExcludedPids ex_rows 30 [10] [] 0)"
proof -
  have "20 \<in> set (ancestors_loop ex_rows 64 (parentOf ex_rows 30) (30 # [10] @ verifiedLeasePids ex_rows [] 0))" by code_simp
  with collectExcludedPids_closed [of ex_rows 30 "[10]" "[]" 0] show ?thesis unfolding Let_def by blast
qed

text \<open>
  A leased process tree is not excluded as a whole when it holds the caller: a descendant of a
  leased process whose parent lies on the caller's own launch chain is still counted as a competitor.
\<close>

theorem leased_descendant_not_excluded:
  "(\<lambda>a b. b \<in> set (childrenOf ex_rows a))\<^sup>+\<^sup>+ 10 40 \<and> 40 \<notin> set (collectExcludedPids ex_rows 30 [10] [] 0)"
proof
  have "20 \<in> set (childrenOf ex_rows 10)" "40 \<in> set (childrenOf ex_rows 20)" by code_simp+
  then show "(\<lambda>a b. b \<in> set (childrenOf ex_rows a))\<^sup>+\<^sup>+ 10 40" by (meson tranclp.r_into_trancl tranclp.trancl_into_trancl)
  show "40 \<notin> set (collectExcludedPids ex_rows 30 [10] [] 0)" by code_simp
qed

text \<open>
  The interactive profile opens its second slot only on sustained evidence: whenever recording a
  sample reports it ready, the samples since the profile was set end in an unbroken healthy stretch
  that covers at least sixty seconds, with no gap between samples above ninety seconds.
\<close>

theorem interactive_needs_sustained_health:
  assumes "health_run tr st" and "fst (recordCapacityHealth s now st) = Inr ch" and "ch_interactiveReady ch"
  shows "\<exists>since. now - since \<ge> 60000 \<and> healthy_stretch since ((now, sample_healthy s) # tr)"
  using health_inv_sample(2) [OF health_run_inv [OF assms(1)] assms(2,3)] by (simp add: SUSTAINED_HEALTH_MS_def)

definition ex_healthy :: health_sample where
  "ex_healthy = \<lparr>hs_memory = MemHealthy, hs_cpu = CpuHealthy, hs_thermal = ThermalUnknown, hs_uncoordinatedHeavy = 0\<rparr>"

definition ex_profile_store :: profile_store where
  "ex_profile_store = snd (recordCapacityHealth ex_healthy 1000 (setCapacityProfile Interactive 0 \<lparr>cs_profile = Absent, cs_health = Absent\<rparr>))"

theorem interactive_needs_sustained_health_witness:
  "\<exists>since. (61000::int) - since \<ge> 60000 \<and> healthy_stretch since [(61000, True), (1000, True)]"
proof -
  have ok: "sample_healthy ex_healthy" by code_simp
  have run: "health_run [(1000, True)] ex_profile_store"
    using hr_sample [OF hr_set, of 1000 ex_healthy] ok by (simp add: ex_profile_store_def)
  have "fst (recordCapacityHealth ex_healthy 61000 ex_profile_store) = Inr \<lparr>ch_profile = Interactive, ch_interactiveReady = True, ch_healthyForMs = 60000\<rparr>"
    by code_simp
  from interactive_needs_sustained_health [OF run this] ok show ?thesis by simp
qed

end
