(* ===== verification/Reach_Coordinator.thy ===== *)
theory Reach_Coordinator
  imports Reach_Capacity "HOL-Library.Char_ord" "HOL-Library.List_Lexorder" "HOL-Library.Product_Lexorder"
begin

text \<open>
  The machine-wide work coordinator, \<open>src/src/shared/work-coordinator.ts\<close>: leases and queue tickets
  kept as one JSON file each, a bounded event log, and the operations that run under the coordinator
  lock. The store is the contents of the two directories and of the log; an operation is a function
  on the store that may fail after part of its effects, exactly as the code may throw between two
  writes. Ids are file names without a path separator. Liveness, process ids, the real path of a
  directory and the digest function come from \<open>coord_env\<close>; time and fresh identifiers are arguments.
  A member that the source copies without checking its type (repositoryRoot, branch, phase,
  parentPid, pidIsWorkload) reads as absent when its type is wrong.
\<close>

section \<open>Vocabulary\<close>

datatype work_executor = ExClaudeCode | ExChatgpt | ExCodex | ExGrok | ExHuman | ExOther

fun executor_string :: "work_executor \<Rightarrow> string" where
  "executor_string ExClaudeCode = ''claude-code''"
| "executor_string ExChatgpt = ''chatgpt''"
| "executor_string ExCodex = ''codex''"
| "executor_string ExGrok = ''grok''"
| "executor_string ExHuman = ''human''"
| "executor_string ExOther = ''other''"

definition WORK_EXECUTORS :: "work_executor list" where
  "WORK_EXECUTORS = [ExClaudeCode, ExChatgpt, ExCodex, ExGrok, ExHuman, ExOther]"

definition as_executor :: "string \<Rightarrow> work_executor option" where
  "as_executor s = List.find (\<lambda>e. executor_string e = s) WORK_EXECUTORS"

definition HEARTBEAT_INTERVAL_MS :: int where
  "HEARTBEAT_INTERVAL_MS = 30000"

definition LEASE_STALE_MS :: int where
  "LEASE_STALE_MS = 5 * HEARTBEAT_INTERVAL_MS"

definition TICKET_STALE_MS :: int where
  "TICKET_STALE_MS = 5 * HEARTBEAT_INTERVAL_MS"

definition HISTORY_LIMIT :: nat where
  "HISTORY_LIMIT = 200"

definition EVENT_PAGE_LIMIT :: nat where
  "EVENT_PAGE_LIMIT = 100"

definition MAX_LABEL_LENGTH :: nat where
  "MAX_LABEL_LENGTH = 64"

datatype work_event_kind =
    TicketEnqueued | LeaseAcquired | LeaseReleased | LeaseReclaimed | TicketExpired | TicketCancelled
  | HeartbeatEvent | PhaseProgress | CacheHit | CacheMiss | ClassifierResult | RequestRejected

record coord_env =
  ce_alive :: "int \<Rightarrow> bool"
  ce_realpath :: "string \<Rightarrow> string option"
  ce_cwd :: string
  ce_pid :: int
  ce_ppid :: int
  ce_sha256 :: "string \<Rightarrow> string"

record work_lease =
  wl_id :: string
  wl_taskId :: "string option"
  wl_attempt :: "int option"
  wl_pid :: int
  wl_parentPid :: "int option"
  wl_callerProofHash :: "string option"
  wl_pidIsWorkload :: "bool option"
  wl_executor :: work_executor
  wl_repositoryRoot :: "string option"
  wl_branch :: "string option"
  wl_access :: access_class
  wl_workload :: workload_class
  wl_bundle :: "work_bundle option"
  wl_phase :: "string option"
  wl_createdAt :: timestamp
  wl_heartbeatAt :: timestamp

record work_queue_ticket =
  wt_id :: string
  wt_taskId :: "string option"
  wt_attempt :: "int option"
  wt_pid :: int
  wt_pidIsWorkload :: "bool option"
  wt_executor :: work_executor
  wt_repositoryRoot :: "string option"
  wt_access :: access_class
  wt_workload :: workload_class
  wt_bundle :: "work_bundle option"
  wt_phase :: "string option"
  wt_enqueuedAt :: timestamp
  wt_heartbeatAt :: timestamp

datatype coord_error =
    BadTaskId
  | BadAttempt
  | LabelTooLong
  | LabelUnsafe
  | LabelLooksSecret
  | NotAMember string
  | BundleRefused bundle_error
  | BadCallerProof
  | MutationNeedsRepository
  | EventNotSafe

section \<open>Validation\<close>

definition hex_run :: "nat \<Rightarrow> nat \<Rightarrow> string \<Rightarrow> bool" where
  "hex_run lo hi s = (lo \<le> length s \<and> length s \<le> hi \<and> list_all is_lower_hex s)"

definition TASK_ID_PATTERN :: "string \<Rightarrow> bool" where
  "TASK_ID_PATTERN s = (starts_with s ''rtsk_'' \<and>
     (let r = drop 5 s; a = takeWhile (\<lambda>c. c \<noteq> CHR ''_'') r; b = dropWhile (\<lambda>c. c \<noteq> CHR ''_'') r
      in hex_run 11 13 a \<and> b \<noteq> [] \<and> hex_run 16 32 (tl b)))"

definition validateTaskBinding :: "string option \<Rightarrow> int option \<Rightarrow> coord_error + unit" where
  "validateTaskBinding taskId attempt =
     (if (case taskId of None \<Rightarrow> False | Some t \<Rightarrow> \<not> TASK_ID_PATTERN t) then Inl BadTaskId
      else if (case attempt of None \<Rightarrow> False | Some n \<Rightarrow> n < 1 \<or> n > 100) then Inl BadAttempt
      else Inr ())"

definition SAFE_LABEL :: "string \<Rightarrow> bool" where
  "SAFE_LABEL s = (s \<noteq> [] \<and> list_all (\<lambda>c. is_alnum c \<or> c \<in> set ''._-/ '') s)"

definition sanitizeLabel :: "string option \<Rightarrow> coord_error + string option" where
  "sanitizeLabel v = (case v of
      None \<Rightarrow> Inr None
    | Some s \<Rightarrow>
        (let t = js_trim s in
         if t = [] then Inr None
         else if length t > MAX_LABEL_LENGTH then Inl LabelTooLong
         else if \<not> SAFE_LABEL t then Inl LabelUnsafe
         else if looksLikeSecretMaterial t then Inl LabelLooksSecret
         else Inr (Some t)))"

definition canonicalRepositoryRoot :: "coord_env \<Rightarrow> string option \<Rightarrow> string option" where
  "canonicalRepositoryRoot env v = (case v of
      None \<Rightarrow> None
    | Some s \<Rightarrow>
        (let t = js_trim s in
         if t = [] then None
         else (let resolved = resolve_path (ce_cwd env) t
               in case ce_realpath env resolved of Some r \<Rightarrow> Some r | None \<Rightarrow> Some resolved)))"

section \<open>Files\<close>

text \<open>A member that must be absent or valid; present and invalid refuses the whole record.\<close>

definition checked_field :: "(json \<Rightarrow> 'a option) \<Rightarrow> json \<Rightarrow> string \<Rightarrow> 'a option option" where
  "checked_field f j k = (case jget j k of None \<Rightarrow> Some None | Some v \<Rightarrow> map_option Some (f v))"

fun io_string :: "io_class \<Rightarrow> string" where
  "io_string IoLow = ''low''" | "io_string IoNormal = ''normal''" | "io_string IoHigh = ''high''"

fun network_string :: "network_class \<Rightarrow> string" where
  "network_string NetNone = ''none''" | "network_string NetLight = ''light''" | "network_string NetHeavy = ''heavy''"

definition json_enum :: "('a \<Rightarrow> string) \<Rightarrow> 'a list \<Rightarrow> json \<Rightarrow> 'a option" where
  "json_enum f xs j = (case json_string j of Some s \<Rightarrow> List.find (\<lambda>x. f x = s) xs | None \<Rightarrow> None)"

definition json_bundle :: "json \<Rightarrow> work_bundle option" where
  "json_bundle j = (case (int_field j ''cpuUnits'', int_field j ''memoryMiB'',
        field (json_enum io_string [IoLow, IoNormal, IoHigh]) j ''io'',
        field (json_enum network_string [NetNone, NetLight, NetHeavy]) j ''network'',
        bool_field j ''repositoryWrite'', bool_field j ''machineExclusive'') of
      (Some c, Some m, Some i, Some n, Some w, Some x) \<Rightarrow>
        (let b = \<lparr>wb_cpuUnits = c, wb_memoryMiB = m, wb_io = i, wb_network = n, wb_repositoryWrite = w, wb_machineExclusive = x\<rparr>
         in if isWorkBundle b then Some b else None)
    | _ \<Rightarrow> None)"

definition json_task_id :: "json \<Rightarrow> string option" where
  "json_task_id j = (case json_string j of Some s \<Rightarrow> if TASK_ID_PATTERN s then Some s else None | None \<Rightarrow> None)"

definition json_attempt :: "json \<Rightarrow> int option" where
  "json_attempt j = (case json_int j of Some n \<Rightarrow> if 1 \<le> n \<and> n \<le> 100 then Some n else None | None \<Rightarrow> None)"

definition json_proof_hash :: "json \<Rightarrow> string option" where
  "json_proof_hash j = (case json_string j of Some s \<Rightarrow> if hex_run 64 64 s then Some s else None | None \<Rightarrow> None)"

definition json_pid :: "json \<Rightarrow> int option" where
  "json_pid j = (case json_int j of Some n \<Rightarrow> if 0 < n then Some n else None | None \<Rightarrow> None)"

definition json_name :: "json \<Rightarrow> string option" where
  "json_name j = (case json_string j of Some s \<Rightarrow> if s = [] then None else Some s | None \<Rightarrow> None)"

definition validLease :: "json \<Rightarrow> work_lease option" where
  "validLease j = (case (field json_name j ''id'', field json_pid j ''pid'', stamp_field j ''createdAt'', stamp_field j ''heartbeatAt'',
        field (json_enum executor_string WORK_EXECUTORS) j ''executor'',
        field (json_enum access_string [Read, Mutate, Exclusive]) j ''access'',
        field (json_enum workload_string [Light, Medium, Heavy]) j ''workload'') of
      (Some i, Some p, Some ca, Some ha, Some e, Some a, Some w) \<Rightarrow>
        (case (checked_field json_proof_hash j ''callerProofHash'', checked_field json_bundle j ''bundle'',
               checked_field json_task_id j ''taskId'', checked_field json_attempt j ''attempt'') of
           (Some h, Some b, Some t, Some n) \<Rightarrow>
             Some \<lparr>wl_id = i, wl_taskId = t, wl_attempt = n, wl_pid = p, wl_parentPid = int_field j ''parentPid'',
                   wl_callerProofHash = h, wl_pidIsWorkload = bool_field j ''pidIsWorkload'', wl_executor = e,
                   wl_repositoryRoot = str_field j ''repositoryRoot'', wl_branch = str_field j ''branch'', wl_access = a,
                   wl_workload = w, wl_bundle = b, wl_phase = str_field j ''phase'', wl_createdAt = ca, wl_heartbeatAt = ha\<rparr>
         | _ \<Rightarrow> None)
    | _ \<Rightarrow> None)"

definition validTicket :: "json \<Rightarrow> work_queue_ticket option" where
  "validTicket j = (case (field json_name j ''id'', field json_pid j ''pid'', stamp_field j ''enqueuedAt'', stamp_field j ''heartbeatAt'',
        field (json_enum executor_string WORK_EXECUTORS) j ''executor'',
        field (json_enum access_string [Read, Mutate, Exclusive]) j ''access'',
        field (json_enum workload_string [Light, Medium, Heavy]) j ''workload'') of
      (Some i, Some p, Some qa, Some ha, Some e, Some a, Some w) \<Rightarrow>
        (case (checked_field json_bundle j ''bundle'', checked_field json_task_id j ''taskId'', checked_field json_attempt j ''attempt'') of
           (Some b, Some t, Some n) \<Rightarrow>
             Some \<lparr>wt_id = i, wt_taskId = t, wt_attempt = n, wt_pid = p, wt_pidIsWorkload = bool_field j ''pidIsWorkload'',
                   wt_executor = e, wt_repositoryRoot = str_field j ''repositoryRoot'', wt_access = a, wt_workload = w,
                   wt_bundle = b, wt_phase = str_field j ''phase'', wt_enqueuedAt = qa, wt_heartbeatAt = ha\<rparr>
         | _ \<Rightarrow> None)
    | _ \<Rightarrow> None)"

definition opt_member :: "string \<Rightarrow> ('a \<Rightarrow> json) \<Rightarrow> 'a option \<Rightarrow> (string \<times> json) list" where
  "opt_member k f v = (case v of None \<Rightarrow> [] | Some x \<Rightarrow> [(k, f x)])"

definition num_json :: "int \<Rightarrow> json" where
  "num_json n = JNum (of_int n)"

definition encodeBundle :: "work_bundle \<Rightarrow> json" where
  "encodeBundle b = JObj [(''cpuUnits'', num_json (wb_cpuUnits b)), (''memoryMiB'', num_json (wb_memoryMiB b)),
     (''io'', JStr (io_string (wb_io b))), (''network'', JStr (network_string (wb_network b))),
     (''repositoryWrite'', JBool (wb_repositoryWrite b)), (''machineExclusive'', JBool (wb_machineExclusive b))]"

definition encodeLease :: "work_lease \<Rightarrow> json" where
  "encodeLease l = JObj
     ([(''id'', JStr (wl_id l)), (''pid'', num_json (wl_pid l)), (''executor'', JStr (executor_string (wl_executor l))),
       (''access'', JStr (access_string (wl_access l))), (''workload'', JStr (workload_string (wl_workload l))),
       (''createdAt'', stamp_json (wl_createdAt l)), (''heartbeatAt'', stamp_json (wl_heartbeatAt l))] @
      opt_member ''taskId'' JStr (wl_taskId l) @ opt_member ''attempt'' num_json (wl_attempt l) @
      opt_member ''parentPid'' num_json (wl_parentPid l) @ opt_member ''callerProofHash'' JStr (wl_callerProofHash l) @
      opt_member ''pidIsWorkload'' JBool (wl_pidIsWorkload l) @ opt_member ''repositoryRoot'' JStr (wl_repositoryRoot l) @
      opt_member ''branch'' JStr (wl_branch l) @ opt_member ''bundle'' encodeBundle (wl_bundle l) @
      opt_member ''phase'' JStr (wl_phase l))"

definition encodeTicket :: "work_queue_ticket \<Rightarrow> json" where
  "encodeTicket t = JObj
     ([(''id'', JStr (wt_id t)), (''pid'', num_json (wt_pid t)), (''executor'', JStr (executor_string (wt_executor t))),
       (''access'', JStr (access_string (wt_access t))), (''workload'', JStr (workload_string (wt_workload t))),
       (''enqueuedAt'', stamp_json (wt_enqueuedAt t)), (''heartbeatAt'', stamp_json (wt_heartbeatAt t))] @
      opt_member ''taskId'' JStr (wt_taskId t) @ opt_member ''attempt'' num_json (wt_attempt t) @
      opt_member ''pidIsWorkload'' JBool (wt_pidIsWorkload t) @ opt_member ''repositoryRoot'' JStr (wt_repositoryRoot t) @
      opt_member ''bundle'' encodeBundle (wt_bundle t) @ opt_member ''phase'' JStr (wt_phase t))"

type_synonym directory = "(string \<times> json stored) list"

definition json_file :: "string \<Rightarrow> string" where
  "json_file i = i @ ''.json''"

definition dir_write :: "string \<Rightarrow> json \<Rightarrow> directory \<Rightarrow> directory" where
  "dir_write name j d = (if name \<in> set (map fst d) then map (\<lambda>(n, v). if n = name then (n, Contents j) else (n, v)) d
     else d @ [(name, Contents j)])"

definition dir_remove :: "string \<Rightarrow> directory \<Rightarrow> directory" where
  "dir_remove name d = filter (\<lambda>(n, v). n \<noteq> name) d"

record work_event =
  ev_cursor :: int
  ev_at :: timestamp
  ev_event :: work_event_kind
  ev_id :: "string option"
  ev_taskId :: "string option"
  ev_attempt :: "int option"
  ev_executor :: "work_executor option"
  ev_access :: "access_class option"
  ev_workload :: "workload_class option"
  ev_phase :: "string option option"
  ev_reason :: "string option"
  ev_forced :: "bool option"
  ev_observedUncoordinatedHeavy :: "int option"
  ev_dexServices :: "int option"

text \<open>A line of the event log: an object with members of the right types, or anything else.\<close>

datatype event_line = EventLine work_event | JunkLine

record work_store =
  cw_leases :: directory
  cw_queue :: directory
  cw_events :: "event_line list"

datatype degraded_reason = LeaseMalformed string | LeaseUnreadable string | QueueMalformed string | QueueUnreadable string

record coordinator_state =
  co_leases :: "work_lease list"
  co_tickets :: "work_queue_ticket list"
  co_degradedReasons :: "degraded_reason list"

fun stamp_order :: "timestamp \<Rightarrow> nat \<times> int \<times> string" where
  "stamp_order (Iso t) = (0, t, [])"
| "stamp_order (Other s) = (1, 0, s)"

definition ticket_key :: "work_queue_ticket \<Rightarrow> (nat \<times> int \<times> string) \<times> string" where
  "ticket_key t = (stamp_order (wt_enqueuedAt t), wt_id t)"

definition parsed_files :: "(json \<Rightarrow> 'a option) \<Rightarrow> directory \<Rightarrow> 'a list" where
  "parsed_files f d = List.map_filter (\<lambda>(n, v). case v of Contents j \<Rightarrow> f j | _ \<Rightarrow> None) d"

definition bad_files :: "(json \<Rightarrow> 'a option) \<Rightarrow> (string \<Rightarrow> 'r) \<Rightarrow> (string \<Rightarrow> 'r) \<Rightarrow> directory \<Rightarrow> 'r list" where
  "bad_files f malformed unreadable d = List.map_filter (\<lambda>(n, v). case v of
      Contents j \<Rightarrow> if f j = None then Some (malformed n) else None
    | _ \<Rightarrow> Some (unreadable n)) d"

definition readCoordinatorState :: "work_store \<Rightarrow> coordinator_state" where
  "readCoordinatorState st =
     \<lparr>co_leases = parsed_files validLease (cw_leases st),
      co_tickets = sort_key ticket_key (parsed_files validTicket (cw_queue st)),
      co_degradedReasons = bad_files validLease LeaseMalformed LeaseUnreadable (cw_leases st) @
                           bad_files validTicket QueueMalformed QueueUnreadable (cw_queue st)\<rparr>"

definition leaseIsReclaimable :: "coord_env \<Rightarrow> work_lease \<Rightarrow> int \<Rightarrow> bool" where
  "leaseIsReclaimable env l now = (case date_parse (wl_heartbeatAt l) of
      None \<Rightarrow> False
    | Some t \<Rightarrow> if now - t \<le> LEASE_STALE_MS then False else \<not> ce_alive env (wl_pid l))"

definition ticketIsStale :: "coord_env \<Rightarrow> work_queue_ticket \<Rightarrow> int \<Rightarrow> bool" where
  "ticketIsStale env t now = (case date_parse (wt_heartbeatAt t) of
      None \<Rightarrow> True
    | Some h \<Rightarrow> now - h > TICKET_STALE_MS \<and> \<not> ce_alive env (wt_pid t))"

section \<open>Event log\<close>

definition safe_chars :: "nat \<Rightarrow> string \<Rightarrow> string \<Rightarrow> bool" where
  "safe_chars limit extra s = (s \<noteq> [] \<and> length s \<le> limit \<and> list_all (\<lambda>c. is_alnum c \<or> c \<in> set extra) s)"

text \<open>\<open>safeEventId\<close> and \<open>safeEventReason\<close>: the outer option is the throw.\<close>

definition safeEventId :: "string option \<Rightarrow> string option option" where
  "safeEventId v = (case v of None \<Rightarrow> Some None
    | Some s \<Rightarrow> if safe_chars 128 ''._:-'' (js_trim s) then Some (Some (js_trim s)) else None)"

definition safeEventReason :: "string option \<Rightarrow> string option option" where
  "safeEventReason v = (case v of None \<Rightarrow> Some None
    | Some s \<Rightarrow> if safe_chars 96 ''._: -'' (js_trim s) then Some (Some (js_trim s)) else None)"

definition nonneg_or_drop :: "int option \<Rightarrow> int option" where
  "nonneg_or_drop v = (case v of None \<Rightarrow> None | Some n \<Rightarrow> if 0 \<le> n then Some n else None)"

definition validWorkEvent :: "work_event \<Rightarrow> work_event option" where
  "validWorkEvent e =
     (if ev_cursor e \<le> 0 \<or> date_parse (ev_at e) = None then None
      else (case (safeEventId (ev_id e), validateTaskBinding (ev_taskId e) (ev_attempt e),
                  (case ev_phase e of None \<Rightarrow> Inr None | Some None \<Rightarrow> Inr (Some None)
                   | Some (Some p) \<Rightarrow> (case sanitizeLabel (Some p) of Inl x \<Rightarrow> Inl x | Inr q \<Rightarrow> Inr (Some q))),
                  safeEventReason (ev_reason e)) of
          (Some i, Inr _, Inr ph, Some r) \<Rightarrow>
            Some (e\<lparr>ev_id := i, ev_phase := ph, ev_reason := r,
                    ev_observedUncoordinatedHeavy := nonneg_or_drop (ev_observedUncoordinatedHeavy e),
                    ev_dexServices := nonneg_or_drop (ev_dexServices e)\<rparr>)
        | _ \<Rightarrow> None))"

definition storedWorkEvents :: "work_store \<Rightarrow> work_event list" where
  "storedWorkEvents st = sort_key ev_cursor
     (List.map_filter (\<lambda>l. case l of EventLine e \<Rightarrow> validWorkEvent e | JunkLine \<Rightarrow> None) (cw_events st))"

definition last_cursor :: "work_event list \<Rightarrow> int" where
  "last_cursor es = (if es = [] then 0 else ev_cursor (last es))"

definition recordWorkEvent :: "work_event \<Rightarrow> int \<Rightarrow> work_store \<Rightarrow> (coord_error + work_event) \<times> work_store" where
  "recordWorkEvent input now st =
     (let current = storedWorkEvents st
      in case validWorkEvent (input\<lparr>ev_cursor := last_cursor current + 1, ev_at := Iso now\<rparr>) of
           None \<Rightarrow> (Inl EventNotSafe, st)
         | Some candidate \<Rightarrow> (Inr candidate, st\<lparr>cw_events := map EventLine (take_last HISTORY_LIMIT (current @ [candidate]))\<rparr>))"

record work_event_window =
  ww_cursor :: int
  ww_startCursor :: int
  ww_events :: "work_event list"
  ww_hasMore :: bool

definition readWorkEvents :: "int \<Rightarrow> int \<Rightarrow> work_store \<Rightarrow> work_event_window" where
  "readWorkEvents afterCursor limit st =
     (let safeCursor = (if 0 \<le> afterCursor then afterCursor else 0);
          safeLimit = nat (max 1 (min limit (int EVENT_PAGE_LIMIT)));
          stored = storedWorkEvents st;
          latest = last_cursor stored;
          eligible = filter (\<lambda>e. ev_cursor e > safeCursor) stored;
          events = take safeLimit eligible
      in \<lparr>ww_cursor = latest, ww_startCursor = (if stored = [] then latest else ev_cursor (hd stored)),
          ww_events = events, ww_hasMore = (length events < length eligible)\<rparr>)"

definition plain_event :: "work_event_kind \<Rightarrow> work_event" where
  "plain_event k = \<lparr>ev_cursor = 0, ev_at = Iso 0, ev_event = k, ev_id = None, ev_taskId = None, ev_attempt = None,
     ev_executor = None, ev_access = None, ev_workload = None, ev_phase = None, ev_reason = None, ev_forced = None,
     ev_observedUncoordinatedHeavy = None, ev_dexServices = None\<rparr>"

section \<open>Effects in sequence\<close>

definition co_bind ::
  "('s \<Rightarrow> ('e + 'a) \<times> 's) \<Rightarrow> ('a \<Rightarrow> 's \<Rightarrow> ('e + 'b) \<times> 's) \<Rightarrow> 's \<Rightarrow> ('e + 'b) \<times> 's" where
  "co_bind m f st = (case m st of (Inl e, st') \<Rightarrow> (Inl e, st') | (Inr x, st') \<Rightarrow> f x st')"

definition writeLease :: "work_lease \<Rightarrow> work_store \<Rightarrow> work_store" where
  "writeLease l st = st\<lparr>cw_leases := dir_write (json_file (wl_id l)) (encodeLease l) (cw_leases st)\<rparr>"

definition writeTicket :: "work_queue_ticket \<Rightarrow> work_store \<Rightarrow> work_store" where
  "writeTicket t st = st\<lparr>cw_queue := dir_write (json_file (wt_id t)) (encodeTicket t) (cw_queue st)\<rparr>"

definition removeLeaseFile :: "string \<Rightarrow> work_store \<Rightarrow> work_store" where
  "removeLeaseFile i st = st\<lparr>cw_leases := dir_remove (json_file i) (cw_leases st)\<rparr>"

definition removeTicketFile :: "string \<Rightarrow> work_store \<Rightarrow> work_store" where
  "removeTicketFile i st = st\<lparr>cw_queue := dir_remove (json_file i) (cw_queue st)\<rparr>"

fun prune_leases :: "coord_env \<Rightarrow> int \<Rightarrow> work_lease list \<Rightarrow> work_store \<Rightarrow> (coord_error + work_lease list) \<times> work_store" where
  "prune_leases env now [] st = (Inr [], st)"
| "prune_leases env now (l # ls) st =
     (if leaseIsReclaimable env l now
      then co_bind (recordWorkEvent ((plain_event LeaseReclaimed)\<lparr>ev_id := Some (wl_id l), ev_taskId := wl_taskId l,
                ev_attempt := wl_attempt l, ev_executor := Some (wl_executor l),
                ev_reason := Some ''heartbeat expired and process absent''\<rparr>) now)
             (\<lambda>_. prune_leases env now ls) (removeLeaseFile (wl_id l) st)
      else co_bind (prune_leases env now ls) (\<lambda>kept st'. (Inr (l # kept), st')) st)"

fun prune_tickets :: "coord_env \<Rightarrow> int \<Rightarrow> work_queue_ticket list \<Rightarrow> work_store \<Rightarrow> (coord_error + work_queue_ticket list) \<times> work_store" where
  "prune_tickets env now [] st = (Inr [], st)"
| "prune_tickets env now (t # ts) st =
     (if ticketIsStale env t now
      then co_bind (recordWorkEvent ((plain_event TicketExpired)\<lparr>ev_id := Some (wt_id t), ev_taskId := wt_taskId t,
                ev_attempt := wt_attempt t, ev_executor := Some (wt_executor t), ev_phase := Some (wt_phase t)\<rparr>) now)
             (\<lambda>_. prune_tickets env now ts) (removeTicketFile (wt_id t) st)
      else co_bind (prune_tickets env now ts) (\<lambda>kept st'. (Inr (t # kept), st')) st)"

definition pruneExpired :: "coord_env \<Rightarrow> coordinator_state \<Rightarrow> int \<Rightarrow> work_store \<Rightarrow> (coord_error + coordinator_state) \<times> work_store" where
  "pruneExpired env s now =
     co_bind (prune_leases env now (co_leases s)) (\<lambda>ls.
     co_bind (prune_tickets env now (co_tickets s)) (\<lambda>ts st.
       (Inr (s\<lparr>co_leases := ls, co_tickets := ts\<rparr>), st)))"

section \<open>Admission\<close>

record capacity_snapshot =
  sn_sampledAtMs :: "int option"
  sn_excludedLeaseIds :: "string list option"
  sn_reading :: host_reading
  sn_uncoordinatedHeavy :: nat
  sn_processObserved :: bool
  sn_profile :: capacity_profile
  sn_interactiveReady :: bool

record admission_request =
  aq_access :: access_class
  aq_workload :: workload_class
  aq_bundle :: "work_bundle option"
  aq_repositoryRoot :: "string option"
  aq_ticketId :: "string option"

datatype admission_reason =
    ObservationStale
  | LeaseAccountingChanged
  | StateDegraded nat
  | RepositoryHeld string access_class string work_executor
  | ExclusiveNeedsIdle nat
  | MachineHeldBy string
  | TicketsAhead nat
  | CpuBudgetExhausted int int int
  | MemoryBudgetExhausted int int int
  | HighIoActive
  | HeavyNetworkActive
  | CapacityReason capacity_reason

record admission_decision =
  ad_admit :: bool
  ad_capacity :: machine_capacity
  ad_reasons :: "admission_reason list"

fun normalize_leases :: "work_lease list \<Rightarrow> bundle_error + work_bundle list" where
  "normalize_leases [] = Inr []"
| "normalize_leases (l # ls) = (case normalizeWorkBundle (wl_workload l) (wl_access l) (wl_bundle l) of
      Inl e \<Rightarrow> Inl e
    | Inr b \<Rightarrow> (case normalize_leases ls of Inl e \<Rightarrow> Inl e | Inr bs \<Rightarrow> Inr (b # bs)))"

text \<open>Tickets that stand before the request: all of them for a request without a place in the queue.\<close>

definition tickets_ahead :: "work_queue_ticket list \<Rightarrow> string option \<Rightarrow> work_queue_ticket list" where
  "tickets_ahead ts tid = (case given tid of
      Some i \<Rightarrow> if list_ex (\<lambda>t. wt_id t = i) ts then takeWhile (\<lambda>t. wt_id t \<noteq> i) ts else ts
    | None \<Rightarrow> ts)"

definition state_objections :: "coordinator_state \<Rightarrow> capacity_snapshot \<Rightarrow> admission_request \<Rightarrow> int \<Rightarrow> admission_reason list" where
  "state_objections s sn q now =
     (let substantive = isSubstantive (aq_workload q) (aq_access q);
          degraded = (co_degradedReasons s \<noteq> [])
      in (if substantive \<and> (case sn_sampledAtMs sn of None \<Rightarrow> False | Some t \<Rightarrow> now - t > 2000 \<or> now < t) then [ObservationStale] else []) @
         (if substantive \<and> (case sn_excludedLeaseIds sn of None \<Rightarrow> False | Some ids \<Rightarrow> ids \<noteq> sort (map wl_id (co_leases s)))
          then [LeaseAccountingChanged] else []) @
         (if degraded \<and> substantive then [StateDegraded (length (co_degradedReasons s))] else []) @
         (if aq_access q \<noteq> Read then
            (case aq_repositoryRoot q of
               None \<Rightarrow> []
             | Some r \<Rightarrow> if r = [] then [] else
                 (case List.find (\<lambda>l. wl_repositoryRoot l = Some r \<and> wl_access l \<noteq> Read) (co_leases s) of
                    Some h \<Rightarrow> [RepositoryHeld r (wl_access h) (wl_id h) (wl_executor h)]
                  | None \<Rightarrow> []))
          else []) @
         (if aq_access q = Exclusive \<and> co_leases s \<noteq> [] then [ExclusiveNeedsIdle (length (co_leases s))] else []) @
         (case List.find (\<lambda>l. wl_access l = Exclusive) (co_leases s) of
            Some h \<Rightarrow> if substantive then [MachineHeldBy (wl_id h)] else [] | None \<Rightarrow> []) @
         (if substantive \<and> tickets_ahead (co_tickets s) (aq_ticketId q) \<noteq> []
          then [TicketsAhead (length (tickets_ahead (co_tickets s) (aq_ticketId q)))] else []))"

definition bundle_objections :: "work_bundle \<Rightarrow> work_bundle list \<Rightarrow> int \<times> int \<Rightarrow> admission_reason list" where
  "bundle_objections b used budget =
     (let usedCpu = sum_list (map wb_cpuUnits used); usedMemory = sum_list (map wb_memoryMiB used)
      in (if usedCpu + wb_cpuUnits b > fst budget then [CpuBudgetExhausted usedCpu (fst budget) (wb_cpuUnits b)] else []) @
         (if usedMemory + wb_memoryMiB b > snd budget then [MemoryBudgetExhausted usedMemory (snd budget) (wb_memoryMiB b)] else []) @
         (if wb_io b = IoHigh \<and> list_ex (\<lambda>u. wb_io u = IoHigh) used then [HighIoActive] else []) @
         (if wb_network b = NetHeavy \<and> list_ex (\<lambda>u. wb_network u = NetHeavy) used then [HeavyNetworkActive] else []))"

definition capacity_for :: "coordinator_state \<Rightarrow> capacity_snapshot \<Rightarrow> admission_request \<Rightarrow> machine_capacity" where
  "capacity_for s sn q =
     (let degraded = (co_degradedReasons s \<noteq> []);
          penalty = (if degraded \<and> isSubstantive (aq_workload q) (aq_access q) then 1 else 0)
      in evaluateCapacity
           ((sn_reading sn)\<lparr>hr_physicalMemoryBytes := (if degraded then 0 else hr_physicalMemoryBytes (sn_reading sn)),
                            hr_logicalCpuCount := (if degraded then 0 else hr_logicalCpuCount (sn_reading sn))\<rparr>)
           \<lparr>cc_activeSubstantive = length (filter (\<lambda>l. isSubstantive (wl_workload l) (wl_access l)) (co_leases s)) + penalty,
            cc_activeHeavy = length (filter (\<lambda>l. wl_workload l = Heavy) (co_leases s)) + penalty,
            cc_observedUncoordinatedHeavy = sn_uncoordinatedHeavy sn, cc_processObserved = sn_processObserved sn\<rparr>
           \<lparr>cq_workload = aq_workload q, cq_access = aq_access q, cq_profile = sn_profile sn, cq_interactiveReady = sn_interactiveReady sn\<rparr>)"

definition decideAdmission ::
  "coordinator_state \<Rightarrow> capacity_snapshot \<Rightarrow> admission_request \<Rightarrow> int \<Rightarrow> coord_error + admission_decision" where
  "decideAdmission s sn q now =
     (case normalizeWorkBundle (aq_workload q) (aq_access q) (aq_bundle q) of
        Inl e \<Rightarrow> Inl (BundleRefused e)
      | Inr b \<Rightarrow> (case normalize_leases (co_leases s) of
            Inl e \<Rightarrow> Inl (BundleRefused e)
          | Inr used \<Rightarrow>
              (let capacity = capacity_for s sn q;
                   blocking = state_objections s sn q now @
                     bundle_objections b used (bundleBudget (hr_physicalMemoryBytes (sn_reading sn)) (hr_logicalCpuCount (sn_reading sn))) @
                     (if mc_canAdmit capacity then [] else map CapacityReason (mc_reasons capacity))
               in Inr \<lparr>ad_admit = (blocking = []), ad_capacity = capacity,
                       ad_reasons = (if blocking = [] then map CapacityReason (mc_reasons capacity) else rev (remdups (rev blocking)))\<rparr>)))"

section \<open>Operations\<close>

record work_request =
  wr_executor :: string
  wr_access :: string
  wr_workload :: string
  wr_bundle :: "work_bundle option"
  wr_repositoryRoot :: "string option"
  wr_branch :: "string option"
  wr_phase :: "string option"
  wr_taskId :: "string option"
  wr_attempt :: "int option"
  wr_ticketId :: "string option"
  wr_pid :: "int option"
  wr_parentPid :: "int option"
  wr_pidIsWorkload :: "bool option"
  wr_callerProofHash :: "string option"

text \<open>A request whose fields have been checked, with the bundle, labels and repository normalised.\<close>

record checked_request =
  cw_executor :: work_executor
  cw_access :: access_class
  cw_workload :: workload_class
  cw_bundle :: work_bundle
  cw_phase :: "string option"
  cw_branch :: "string option"
  cw_root :: "string option"

definition check_request :: "coord_env \<Rightarrow> work_request \<Rightarrow> coord_error + checked_request" where
  "check_request env r = (case as_executor (wr_executor r) of None \<Rightarrow> Inl (NotAMember ''executor'') | Some e \<Rightarrow>
     (case as_access (wr_access r) of None \<Rightarrow> Inl (NotAMember ''access'') | Some a \<Rightarrow>
     (case as_workload (wr_workload r) of None \<Rightarrow> Inl (NotAMember ''workload'') | Some w \<Rightarrow>
     (case normalizeWorkBundle w a (wr_bundle r) of Inl x \<Rightarrow> Inl (BundleRefused x) | Inr b \<Rightarrow>
     (case sanitizeLabel (wr_phase r) of Inl x \<Rightarrow> Inl x | Inr ph \<Rightarrow>
     (case validateTaskBinding (wr_taskId r) (wr_attempt r) of Inl x \<Rightarrow> Inl x | Inr _ \<Rightarrow>
     (case sanitizeLabel (wr_branch r) of Inl x \<Rightarrow> Inl x | Inr br \<Rightarrow>
       (let root = canonicalRepositoryRoot env (wr_repositoryRoot r) in
        if (case wr_callerProofHash r of None \<Rightarrow> False | Some h \<Rightarrow> \<not> hex_run 64 64 h) then Inl BadCallerProof
        else if a = Mutate \<and> given root = None then Inl MutationNeedsRepository
        else Inr \<lparr>cw_executor = e, cw_access = a, cw_workload = w, cw_bundle = b, cw_phase = ph, cw_branch = br, cw_root = given root\<rparr>))))))))"

datatype admission_result =
    Acquired work_lease machine_capacity
  | Queued work_queue_ticket nat machine_capacity "admission_reason list"

definition new_lease :: "coord_env \<Rightarrow> work_request \<Rightarrow> checked_request \<Rightarrow> string \<Rightarrow> int \<Rightarrow> work_lease" where
  "new_lease env r c uuid now =
     \<lparr>wl_id = ''lease-'' @ uuid, wl_taskId = given (wr_taskId r), wl_attempt = wr_attempt r,
      wl_pid = (case wr_pid r of Some p \<Rightarrow> p | None \<Rightarrow> ce_pid env),
      wl_parentPid = (let pp = (case wr_parentPid r of Some p \<Rightarrow> p | None \<Rightarrow> ce_ppid env) in if 0 < pp then Some pp else None),
      wl_callerProofHash = wr_callerProofHash r,
      wl_pidIsWorkload = Some (case wr_pidIsWorkload r of Some b \<Rightarrow> b | None \<Rightarrow> wr_pid r \<noteq> None),
      wl_executor = cw_executor c, wl_repositoryRoot = cw_root c, wl_branch = cw_branch c, wl_access = cw_access c,
      wl_workload = cw_workload c, wl_bundle = Some (cw_bundle c), wl_phase = cw_phase c,
      wl_createdAt = Iso now, wl_heartbeatAt = Iso now\<rparr>"

definition new_ticket :: "coord_env \<Rightarrow> work_request \<Rightarrow> checked_request \<Rightarrow> string \<Rightarrow> int \<Rightarrow> work_queue_ticket" where
  "new_ticket env r c uuid now =
     \<lparr>wt_id = ''ticket-'' @ uuid, wt_taskId = given (wr_taskId r), wt_attempt = wr_attempt r,
      wt_pid = (case wr_pid r of Some p \<Rightarrow> p | None \<Rightarrow> ce_pid env),
      wt_pidIsWorkload = Some (case wr_pidIsWorkload r of Some b \<Rightarrow> b | None \<Rightarrow> wr_pid r \<noteq> None),
      wt_executor = cw_executor c, wt_repositoryRoot = cw_root c, wt_access = cw_access c, wt_workload = cw_workload c,
      wt_bundle = Some (cw_bundle c), wt_phase = cw_phase c, wt_enqueuedAt = Iso now, wt_heartbeatAt = Iso now\<rparr>"

fun index_of :: "('a \<Rightarrow> bool) \<Rightarrow> 'a list \<Rightarrow> nat option" where
  "index_of p [] = None"
| "index_of p (x # xs) = (if p x then Some 0 else map_option Suc (index_of p xs))"

text \<open>The admitted branch of \<open>acquireWork\<close>.\<close>

definition take_lease ::
  "coord_env \<Rightarrow> work_request \<Rightarrow> checked_request \<Rightarrow> string \<Rightarrow> int \<Rightarrow> machine_capacity \<Rightarrow> work_store
     \<Rightarrow> (coord_error + admission_result) \<times> work_store" where
  "take_lease env r c uuid now capacity st =
     (let lease = new_lease env r c uuid now;
          st1 = writeLease lease st;
          st2 = (case given (wr_ticketId r) of Some i \<Rightarrow> removeTicketFile i st1 | None \<Rightarrow> st1)
      in co_bind (recordWorkEvent ((plain_event LeaseAcquired)\<lparr>ev_id := Some (wl_id lease), ev_taskId := wr_taskId r,
              ev_attempt := wr_attempt r, ev_executor := Some (cw_executor c), ev_access := Some (cw_access c),
              ev_workload := Some (cw_workload c), ev_phase := Some (cw_phase c)\<rparr>) now)
           (\<lambda>_ st3. (Inr (Acquired lease capacity), st3)) st2)"

text \<open>The queued branch: an existing place is refreshed, otherwise a new ticket joins the end.\<close>

definition take_ticket ::
  "coord_env \<Rightarrow> work_request \<Rightarrow> checked_request \<Rightarrow> string \<Rightarrow> int \<Rightarrow> admission_decision \<Rightarrow> work_queue_ticket list \<Rightarrow> work_store
     \<Rightarrow> (coord_error + admission_result) \<times> work_store" where
  "take_ticket env r c uuid now d tickets st =
     (case (case given (wr_ticketId r) of Some i \<Rightarrow> List.find (\<lambda>t. wt_id t = i) tickets | None \<Rightarrow> None) of
        Some t0 \<Rightarrow>
          (let t = t0\<lparr>wt_heartbeatAt := Iso now\<rparr>
           in (Inr (Queued t (case index_of (\<lambda>x. wt_id x = wt_id t) tickets of Some i \<Rightarrow> i + 1 | None \<Rightarrow> 0) (ad_capacity d) (ad_reasons d)),
               writeTicket t st))
      | None \<Rightarrow>
          (let t = new_ticket env r c uuid now
           in co_bind (recordWorkEvent ((plain_event TicketEnqueued)\<lparr>ev_id := Some (wt_id t), ev_taskId := wr_taskId r,
                  ev_attempt := wr_attempt r, ev_executor := Some (cw_executor c), ev_access := Some (cw_access c),
                  ev_workload := Some (cw_workload c)\<rparr>) now)
                (\<lambda>_ st'. (Inr (Queued t (case index_of (\<lambda>x. wt_id x = wt_id t) (tickets @ [t]) of Some i \<Rightarrow> i + 1 | None \<Rightarrow> 0)
                            (ad_capacity d) (ad_reasons d)), st'))
                (writeTicket t st)))"

definition acquireWork ::
  "coord_env \<Rightarrow> work_request \<Rightarrow> capacity_snapshot \<Rightarrow> string \<Rightarrow> int \<Rightarrow> work_store
     \<Rightarrow> (coord_error + admission_result) \<times> work_store" where
  "acquireWork env r sn uuid now st = (case check_request env r of
      Inl e \<Rightarrow> (Inl e, st)
    | Inr c \<Rightarrow>
        co_bind (pruneExpired env (readCoordinatorState st) now) (\<lambda>s st1.
          case decideAdmission s sn \<lparr>aq_access = cw_access c, aq_workload = cw_workload c, aq_bundle = Some (cw_bundle c),
                 aq_repositoryRoot = cw_root c, aq_ticketId = wr_ticketId r\<rparr> now of
            Inl e \<Rightarrow> (Inl e, st1)
          | Inr d \<Rightarrow> if ad_admit d then take_lease env r c uuid now (ad_capacity d) st1
                     else take_ticket env r c uuid now d (co_tickets s) st1) st)"

record release_options =
  rl_pid :: "int option"
  rl_force :: bool
  rl_callerProof :: "string option"
  rl_requireCallerProof :: bool

datatype release_result = Released | NoActiveLease string | NeedsCallerProof | BelongsToLivePid int

definition releaseWork ::
  "coord_env \<Rightarrow> string \<Rightarrow> release_options \<Rightarrow> int \<Rightarrow> work_store \<Rightarrow> (coord_error + release_result) \<times> work_store" where
  "releaseWork env leaseId opts now st =
     (case List.find (\<lambda>l. wl_id l = leaseId) (co_leases (readCoordinatorState st)) of
        None \<Rightarrow> (Inr (NoActiveLease leaseId), st)
      | Some lease \<Rightarrow>
          (let pid = (case rl_pid opts of Some p \<Rightarrow> p | None \<Rightarrow> ce_pid env);
               live = (\<not> rl_force opts \<and> ce_alive env (wl_pid lease));
               proven = (case (rl_callerProof opts, wl_callerProofHash lease) of
                   (Some p, Some h) \<Rightarrow> hex_run 64 64 p \<and> ce_sha256 env p = h | _ \<Rightarrow> False)
           in if live \<and> (wl_callerProofHash lease \<noteq> None \<or> rl_requireCallerProof opts) \<and> \<not> proven then (Inr NeedsCallerProof, st)
              else if live \<and> wl_pid lease \<noteq> pid then (Inr (BelongsToLivePid (wl_pid lease)), st)
              else co_bind (recordWorkEvent ((plain_event LeaseReleased)\<lparr>ev_id := Some leaseId, ev_taskId := wl_taskId lease,
                       ev_attempt := wl_attempt lease, ev_executor := Some (wl_executor lease), ev_phase := Some (wl_phase lease),
                       ev_forced := Some (rl_force opts)\<rparr>) now)
                     (\<lambda>_ st'. (Inr Released, st')) (removeLeaseFile leaseId st)))"

definition heartbeat_event :: "string \<Rightarrow> string option \<Rightarrow> int option \<Rightarrow> work_executor \<Rightarrow> access_class \<Rightarrow> workload_class \<Rightarrow> string option \<Rightarrow> work_event" where
  "heartbeat_event i t n e a w ph = (plain_event (if given ph \<noteq> None then PhaseProgress else HeartbeatEvent))
     \<lparr>ev_id := Some i, ev_taskId := t, ev_attempt := n, ev_executor := Some e, ev_access := Some a, ev_workload := Some w, ev_phase := Some ph\<rparr>"

definition heartbeat :: "string \<Rightarrow> int \<Rightarrow> work_store \<Rightarrow> (coord_error + bool) \<times> work_store" where
  "heartbeat i now st =
     (let s = readCoordinatorState st
      in case List.find (\<lambda>l. wl_id l = i) (co_leases s) of
           Some l \<Rightarrow> co_bind (recordWorkEvent (heartbeat_event (wl_id l) (wl_taskId l) (wl_attempt l) (wl_executor l) (wl_access l) (wl_workload l) (wl_phase l)) now)
                       (\<lambda>_ st'. (Inr True, st')) (writeLease (l\<lparr>wl_heartbeatAt := Iso now\<rparr>) st)
         | None \<Rightarrow> (case List.find (\<lambda>t. wt_id t = i) (co_tickets s) of
               Some t \<Rightarrow> co_bind (recordWorkEvent (heartbeat_event (wt_id t) (wt_taskId t) (wt_attempt t) (wt_executor t) (wt_access t) (wt_workload t) (wt_phase t)) now)
                           (\<lambda>_ st'. (Inr True, st')) (writeTicket (t\<lparr>wt_heartbeatAt := Iso now\<rparr>) st)
             | None \<Rightarrow> (Inr False, st)))"

definition cancelTicket :: "string \<Rightarrow> int \<Rightarrow> work_store \<Rightarrow> (coord_error + bool) \<times> work_store" where
  "cancelTicket i now st =
     (case List.find (\<lambda>t. wt_id t = i) (co_tickets (readCoordinatorState st)) of
        None \<Rightarrow> (Inr False, st)
      | Some t \<Rightarrow> co_bind (recordWorkEvent ((plain_event TicketCancelled)\<lparr>ev_id := Some i, ev_taskId := wt_taskId t,
              ev_attempt := wt_attempt t, ev_executor := Some (wt_executor t), ev_phase := Some (wt_phase t)\<rparr>) now)
            (\<lambda>_ st'. (Inr True, st')) (removeTicketFile i st))"

record work_status =
  ws_capacity :: machine_capacity
  ws_leases :: "work_lease list"
  ws_tickets :: "work_queue_ticket list"
  ws_degradedReasons :: "degraded_reason list"
  ws_eventWindow :: work_event_window

definition workStatus :: "coord_env \<Rightarrow> capacity_snapshot \<Rightarrow> int \<Rightarrow> work_store \<Rightarrow> (coord_error + work_status) \<times> work_store" where
  "workStatus env sn now st =
     co_bind (pruneExpired env (readCoordinatorState st) now) (\<lambda>s st1.
       case decideAdmission s sn \<lparr>aq_access = Mutate, aq_workload = Medium, aq_bundle = None, aq_repositoryRoot = None, aq_ticketId = None\<rparr> now of
         Inl e \<Rightarrow> (Inl e, st1)
       | Inr d \<Rightarrow> (Inr \<lparr>ws_capacity = ad_capacity d, ws_leases = co_leases s, ws_tickets = co_tickets s,
                         ws_degradedReasons = co_degradedReasons s,
                         ws_eventWindow = readWorkEvents 0 (int HISTORY_LIMIT) st1\<rparr>, st1)) st"

end
