(* ===== verification/Reach_Coordination.thy ===== *)
theory Reach_Coordination
  imports Reach_Coordinator
begin

text \<open>
  What the work coordinator promises. A directory of JSON records is a locale, interpreted for the
  lease and the ticket directory; on top of it the effect of each operation on the recorded leases,
  and the invariants of every run: leases exclude each other, admission respects the queue and the
  machine's budget, only the owner or the operator ends the claim of a live process, and the event
  log is bounded and ordered.
\<close>

section \<open>Directories of records\<close>

lemma json_file_inj [simp]: "json_file i = json_file k \<longleftrightarrow> i = k"
  by (simp add: json_file_def)

lemma parsed_files_simps [simp]:
  "parsed_files f [] = []"
  "parsed_files f ((n, v) # d) = (case v of Contents j \<Rightarrow> (case f j of Some x \<Rightarrow> [x] | None \<Rightarrow> []) | _ \<Rightarrow> []) @ parsed_files f d"
  by (auto simp: parsed_files_def map_filter_simps split: stored.splits option.splits)

lemma parsed_files_append [simp]: "parsed_files f (d @ e) = parsed_files f d @ parsed_files f e"
  by (induction d) auto

lemma in_parsed_files: "x \<in> set (parsed_files f d) \<longleftrightarrow> (\<exists>n j. (n, Contents j) \<in> set d \<and> f j = Some x)"
  by (induction d) (force split: stored.splits option.splits)+

lemma map_filter_skip:
  "(\<And>x. x \<in> set xs \<Longrightarrow> \<not> P x \<Longrightarrow> f x = None) \<Longrightarrow> List.map_filter f (filter P xs) = List.map_filter f xs"
  by (induction xs) (simp_all add: map_filter_simps split: option.split)

text \<open>
  The contract of a record kind: writing a well-formed record and reading it back gives the record,
  writing any other gives a malformed file, and everything read is well formed.
\<close>

locale json_records =
  fixes valid :: "json \<Rightarrow> 'a option" and encode :: "'a \<Rightarrow> json" and ident :: "'a \<Rightarrow> string" and wf :: "'a \<Rightarrow> bool"
  assumes valid_encode: "valid (encode x) = (if wf x then Some x else None)"
    and valid_wf: "valid j = Some x \<Longrightarrow> wf x"
begin

definition named :: "directory \<Rightarrow> bool" where
  "named d = (distinct (map fst d) \<and> (\<forall>n j x. (n, Contents j) \<in> set d \<longrightarrow> valid j = Some x \<longrightarrow> n = json_file (ident x)))"

definition recs :: "directory \<Rightarrow> 'a set" where
  "recs d = set (parsed_files valid d)"

lemma named_empty: "named []"
  by (simp add: named_def)

lemma recs_wf: "x \<in> recs d \<Longrightarrow> wf x"
  by (auto simp: recs_def in_parsed_files dest: valid_wf)

lemma recs_same_ident: "named d \<Longrightarrow> x \<in> recs d \<Longrightarrow> y \<in> recs d \<Longrightarrow> ident x = ident y \<Longrightarrow> x = y"
  unfolding named_def recs_def in_parsed_files
  by (metis (no_types, lifting) eq_key_imp_eq_value option.inject stored.inject)

lemma named_remove: "named d \<Longrightarrow> named (dir_remove n d)"
  by (auto simp: named_def dir_remove_def distinct_map inj_on_def)

lemma recs_named: "named d \<Longrightarrow> y \<in> recs d \<longleftrightarrow> (\<exists>j. (json_file (ident y), Contents j) \<in> set d \<and> valid j = Some y)"
  unfolding named_def recs_def in_parsed_files by blast

lemma recs_remove: "named d \<Longrightarrow> recs (dir_remove (json_file i) d) = {x \<in> recs d. ident x \<noteq> i}"
  by (auto simp: recs_named named_remove) (auto simp: dir_remove_def)

lemma fst_dir_write: "map fst (dir_write n j d) = (if n \<in> set (map fst d) then map fst d else map fst d @ [n])"
  by (auto simp: dir_write_def)

lemma in_dir_write: "(m, v) \<in> set (dir_write n j d) \<longleftrightarrow> (m = n \<and> v = Contents j) \<or> (m \<noteq> n \<and> (m, v) \<in> set d)"
  by (auto simp: dir_write_def image_iff split: if_splits) force+

lemma named_write: "named d \<Longrightarrow> named (dir_write (json_file (ident x)) (encode x) d)"
proof -
  assume d: "named d"
  then have "distinct (map fst (dir_write (json_file (ident x)) (encode x) d))"
    by (auto simp: fst_dir_write named_def)
  with d show ?thesis
    unfolding named_def by (auto simp: in_dir_write valid_encode split: if_splits)
qed

lemma recs_write:
  assumes "named d"
  shows "recs (dir_write (json_file (ident x)) (encode x) d) = {y \<in> recs d. ident y \<noteq> ident x} \<union> (if wf x then {x} else {})"
proof (rule set_eqI)
  fix y
  show "y \<in> recs (dir_write (json_file (ident x)) (encode x) d) \<longleftrightarrow>
      y \<in> {y \<in> recs d. ident y \<noteq> ident x} \<union> (if wf x then {x} else {})"
    by (auto simp: recs_named [OF assms] recs_named [OF named_write [OF assms]] in_dir_write valid_encode split: if_splits)
qed

lemma parsed_write_fresh:
  "json_file (ident x) \<notin> set (map fst d) \<Longrightarrow>
     parsed_files valid (dir_write (json_file (ident x)) (encode x) d) = parsed_files valid d @ (if wf x then [x] else [])"
  by (simp add: dir_write_def valid_encode)

lemma parsed_remove:
  assumes "named d"
  shows "parsed_files valid (dir_remove (json_file i) d) = filter (\<lambda>x. ident x \<noteq> i) (parsed_files valid d)"
proof -
  have "\<forall>n j x. (n, Contents j) \<in> set d \<longrightarrow> valid j = Some x \<longrightarrow> n = json_file (ident x)"
    using assms by (simp add: named_def)
  then show ?thesis
    by (induction d) (force simp: dir_remove_def split: stored.splits option.splits)+
qed

lemma distinct_parsed: "named d \<Longrightarrow> distinct (map ident (parsed_files valid d))"
proof (induction d)
  case (Cons e d)
  obtain n v where e: "e = (n, v)" by (cases e)
  have d: "named d" and n: "n \<notin> fst ` set d" using Cons.prems by (auto simp: named_def e)
  have "ident x \<notin> ident ` set (parsed_files valid d)" if "v = Contents j" "valid j = Some x" for j x
  proof
    assume "ident x \<in> ident ` set (parsed_files valid d)"
    then obtain y where y: "y \<in> recs d" "ident y = ident x" by (auto simp: recs_def)
    then obtain k where "(json_file (ident x), Contents k) \<in> set d" using recs_named [OF d, of y] by auto
    moreover have "n = json_file (ident x)" using Cons.prems that by (auto simp: named_def e)
    ultimately show False using n by (auto simp: image_iff)
  qed
  with Cons.IH [OF d] show ?case by (auto simp: e split: stored.split option.split)
qed simp

lemma bad_remove:
  assumes "named d" and "x \<in> recs d"
  shows "bad_files valid m u (dir_remove (json_file (ident x)) d) = bad_files valid m u d"
proof -
  obtain j where j: "(json_file (ident x), Contents j) \<in> set d" "valid j = Some x"
    using assms by (auto simp: recs_named)
  have one: "v = Contents j" if "(json_file (ident x), v) \<in> set d" for v
    using assms(1) that j(1) eq_key_imp_eq_value unfolding named_def by metis
  show ?thesis
    unfolding bad_files_def dir_remove_def
    by (rule map_filter_skip) (use j(2) in \<open>auto dest!: one\<close>)
qed

end

section \<open>Round trips\<close>

definition opt_all :: "('a \<Rightarrow> bool) \<Rightarrow> 'a option \<Rightarrow> bool" where
  "opt_all p v = (case v of None \<Rightarrow> True | Some x \<Rightarrow> p x)"

definition binding_wf :: "string option \<Rightarrow> int option \<Rightarrow> bool" where
  "binding_wf t n = (opt_all TASK_ID_PATTERN t \<and> opt_all (\<lambda>n. 1 \<le> n \<and> n \<le> 100) n)"

definition lease_wf :: "work_lease \<Rightarrow> bool" where
  "lease_wf l = (wl_id l \<noteq> [] \<and> 0 < wl_pid l \<and> binding_wf (wl_taskId l) (wl_attempt l) \<and>
     opt_all (hex_run 64 64) (wl_callerProofHash l) \<and> opt_all isWorkBundle (wl_bundle l))"

definition ticket_wf :: "work_queue_ticket \<Rightarrow> bool" where
  "ticket_wf t = (wt_id t \<noteq> [] \<and> 0 < wt_pid t \<and> binding_wf (wt_taskId t) (wt_attempt t) \<and> opt_all isWorkBundle (wt_bundle t))"

lemma map_of_opt_member:
  "map_of (opt_member k f v @ r) k = (case v of None \<Rightarrow> map_of r k | Some x \<Rightarrow> Some (f x))"
  "k \<noteq> k' \<Longrightarrow> map_of (opt_member k f v @ r) k' = map_of r k'"
  "map_of (opt_member k f v) k = map_option f v"
  "k \<noteq> k' \<Longrightarrow> map_of (opt_member k f v) k' = None"
  by (auto simp: opt_member_def split: option.splits)

lemma case_option_same [simp]: "(case v of None \<Rightarrow> None | Some x \<Rightarrow> Some (f x)) = map_option f v"
  by (cases v) auto

lemma option_read_back: "(\<And>x. g (f x) = Some x) \<Longrightarrow> (case map_option f v of None \<Rightarrow> None | Some y \<Rightarrow> g y) = v"
  by (cases v) auto

lemma checked_read_back:
  "(\<And>x. g (f x) = (if p x then Some x else None)) \<Longrightarrow>
     (case map_option f v of None \<Rightarrow> Some None | Some y \<Rightarrow> map_option Some (g y)) = (if opt_all p v then Some v else None)"
  by (cases v) (auto simp: opt_all_def)

lemma json_enum_strings [simp]:
  "json_enum executor_string WORK_EXECUTORS (JStr (executor_string e)) = Some e"
  "json_enum access_string [Read, Mutate, Exclusive] (JStr (access_string a)) = Some a"
  "json_enum workload_string [Light, Medium, Heavy] (JStr (workload_string w)) = Some w"
  "json_enum io_string [IoLow, IoNormal, IoHigh] (JStr (io_string i)) = Some i"
  "json_enum network_string [NetNone, NetLight, NetHeavy] (JStr (network_string n)) = Some n"
proof -
  show "json_enum executor_string WORK_EXECUTORS (JStr (executor_string e)) = Some e"
    by (cases e) (simp_all add: json_enum_def WORK_EXECUTORS_def)
  show "json_enum access_string [Read, Mutate, Exclusive] (JStr (access_string a)) = Some a" by (cases a) (simp_all add: json_enum_def)
  show "json_enum workload_string [Light, Medium, Heavy] (JStr (workload_string w)) = Some w" by (cases w) (simp_all add: json_enum_def)
  show "json_enum io_string [IoLow, IoNormal, IoHigh] (JStr (io_string i)) = Some i" by (cases i) (simp_all add: json_enum_def)
  show "json_enum network_string [NetNone, NetLight, NetHeavy] (JStr (network_string n)) = Some n" by (cases n) (simp_all add: json_enum_def)
qed

lemma json_int_num [simp]: "json_int (num_json n) = Some n"
  by (simp add: num_json_def)

lemma json_leaf_simps [simp]:
  "json_name (JStr s) = (if s \<noteq> [] then Some s else None)"
  "json_pid (num_json n) = (if 0 < n then Some n else None)"
  "json_task_id (JStr s) = (if TASK_ID_PATTERN s then Some s else None)"
  "json_attempt (num_json n) = (if 1 \<le> n \<and> n \<le> 100 then Some n else None)"
  "json_proof_hash (JStr s) = (if hex_run 64 64 s then Some s else None)"
  by (auto simp: json_name_def json_pid_def json_task_id_def json_attempt_def json_proof_hash_def)

lemma json_bundle_encode [simp]: "json_bundle (encodeBundle b) = (if isWorkBundle b then Some b else None)"
  by (cases b) (simp add: json_bundle_def encodeBundle_def)

lemma lease_members:
  "jget (encodeLease l) ''id'' = Some (JStr (wl_id l))"
  "jget (encodeLease l) ''pid'' = Some (num_json (wl_pid l))"
  "jget (encodeLease l) ''executor'' = Some (JStr (executor_string (wl_executor l)))"
  "jget (encodeLease l) ''access'' = Some (JStr (access_string (wl_access l)))"
  "jget (encodeLease l) ''workload'' = Some (JStr (workload_string (wl_workload l)))"
  "jget (encodeLease l) ''createdAt'' = Some (stamp_json (wl_createdAt l))"
  "jget (encodeLease l) ''heartbeatAt'' = Some (stamp_json (wl_heartbeatAt l))"
  "jget (encodeLease l) ''taskId'' = map_option JStr (wl_taskId l)"
  "jget (encodeLease l) ''attempt'' = map_option num_json (wl_attempt l)"
  "jget (encodeLease l) ''parentPid'' = map_option num_json (wl_parentPid l)"
  "jget (encodeLease l) ''callerProofHash'' = map_option JStr (wl_callerProofHash l)"
  "jget (encodeLease l) ''pidIsWorkload'' = map_option JBool (wl_pidIsWorkload l)"
  "jget (encodeLease l) ''repositoryRoot'' = map_option JStr (wl_repositoryRoot l)"
  "jget (encodeLease l) ''branch'' = map_option JStr (wl_branch l)"
  "jget (encodeLease l) ''bundle'' = map_option encodeBundle (wl_bundle l)"
  "jget (encodeLease l) ''phase'' = map_option JStr (wl_phase l)"
  unfolding encodeLease_def by (simp_all add: map_of_opt_member del: map_of_append split: option.split)

lemma ticket_members:
  "jget (encodeTicket t) ''id'' = Some (JStr (wt_id t))"
  "jget (encodeTicket t) ''pid'' = Some (num_json (wt_pid t))"
  "jget (encodeTicket t) ''executor'' = Some (JStr (executor_string (wt_executor t)))"
  "jget (encodeTicket t) ''access'' = Some (JStr (access_string (wt_access t)))"
  "jget (encodeTicket t) ''workload'' = Some (JStr (workload_string (wt_workload t)))"
  "jget (encodeTicket t) ''enqueuedAt'' = Some (stamp_json (wt_enqueuedAt t))"
  "jget (encodeTicket t) ''heartbeatAt'' = Some (stamp_json (wt_heartbeatAt t))"
  "jget (encodeTicket t) ''taskId'' = map_option JStr (wt_taskId t)"
  "jget (encodeTicket t) ''attempt'' = map_option num_json (wt_attempt t)"
  "jget (encodeTicket t) ''pidIsWorkload'' = map_option JBool (wt_pidIsWorkload t)"
  "jget (encodeTicket t) ''repositoryRoot'' = map_option JStr (wt_repositoryRoot t)"
  "jget (encodeTicket t) ''bundle'' = map_option encodeBundle (wt_bundle t)"
  "jget (encodeTicket t) ''phase'' = map_option JStr (wt_phase t)"
  unfolding encodeTicket_def by (simp_all add: map_of_opt_member del: map_of_append split: option.split)

lemma field_of_member: "jget j k = map_option f v \<Longrightarrow> (\<And>x. g (f x) = Some x) \<Longrightarrow> field g j k = v"
  by (cases v) (simp_all add: field_def)

lemma checked_of_member:
  "jget j k = map_option f v \<Longrightarrow> (\<And>x. g (f x) = (if p x then Some x else None)) \<Longrightarrow>
     checked_field g j k = (if opt_all p v then Some v else None)"
  by (cases v) (simp_all add: checked_field_def opt_all_def)

lemmas lease_optional =
  field_of_member [OF lease_members(10)] field_of_member [OF lease_members(12)] field_of_member [OF lease_members(13)]
  field_of_member [OF lease_members(14)] field_of_member [OF lease_members(16)]
  checked_of_member [OF lease_members(8)] checked_of_member [OF lease_members(9)]
  checked_of_member [OF lease_members(11)] checked_of_member [OF lease_members(15)]

lemmas ticket_optional =
  field_of_member [OF ticket_members(10)] field_of_member [OF ticket_members(11)] field_of_member [OF ticket_members(13)]
  checked_of_member [OF ticket_members(8)] checked_of_member [OF ticket_members(9)] checked_of_member [OF ticket_members(12)]

lemma member_some: "jget j k = Some v \<Longrightarrow> field f j k = f v"
  by (simp add: field_def)

lemma validLease_encode: "validLease (encodeLease l) = (if lease_wf l then Some l else None)"
  unfolding validLease_def
  by (simp add: lease_members(1-7) [THEN member_some] lease_optional lease_wf_def binding_wf_def)

lemma validTicket_encode: "validTicket (encodeTicket t) = (if ticket_wf t then Some t else None)"
  unfolding validTicket_def
  by (simp add: ticket_members(1-7) [THEN member_some] ticket_optional ticket_wf_def binding_wf_def)

lemma checked_fieldD: "checked_field f j k = Some v \<Longrightarrow> (\<And>y x. f y = Some x \<Longrightarrow> p x) \<Longrightarrow> opt_all p v"
  by (auto simp: checked_field_def opt_all_def split: option.splits)

lemma fieldD: "field f j k = Some v \<Longrightarrow> \<exists>y. f y = Some v"
  by (auto simp: field_def split: option.splits)

lemma json_leafD:
  "json_name j = Some s \<Longrightarrow> s \<noteq> []"
  "json_pid j = Some n \<Longrightarrow> 0 < n"
  "json_task_id j = Some s \<Longrightarrow> TASK_ID_PATTERN s"
  "json_attempt j = Some n \<Longrightarrow> 1 \<le> n \<and> n \<le> 100"
  "json_proof_hash j = Some s \<Longrightarrow> hex_run 64 64 s"
  "json_bundle j = Some b \<Longrightarrow> isWorkBundle b"
  by (auto simp: json_name_def json_pid_def json_task_id_def json_attempt_def json_proof_hash_def json_bundle_def Let_def
      split: option.splits if_splits)

lemma validLease_wf: "validLease j = Some l \<Longrightarrow> lease_wf l"
  unfolding validLease_def
  by (auto simp: lease_wf_def binding_wf_def split: option.splits
      dest!: fieldD dest: json_leafD intro: checked_fieldD json_leafD)

lemma validTicket_wf: "validTicket j = Some t \<Longrightarrow> ticket_wf t"
  unfolding validTicket_def
  by (auto simp: ticket_wf_def binding_wf_def split: option.splits
      dest!: fieldD dest: json_leafD intro: checked_fieldD json_leafD)

interpretation ldir: json_records validLease encodeLease wl_id lease_wf
  by unfold_locales (simp_all add: validLease_encode validLease_wf)

interpretation tdir: json_records validTicket encodeTicket wt_id ticket_wf
  by unfold_locales (simp_all add: validTicket_encode validTicket_wf)

section \<open>What the operations do to the directories\<close>

definition store_ok :: "work_store \<Rightarrow> bool" where
  "store_ok st = (ldir.named (cw_leases st) \<and> tdir.named (cw_queue st))"

abbreviation held :: "work_store \<Rightarrow> work_lease set" where
  "held st \<equiv> ldir.recs (cw_leases st)"

lemma co_leases_read [simp]: "co_leases (readCoordinatorState st) = parsed_files validLease (cw_leases st)"
  and co_tickets_read [simp]: "co_tickets (readCoordinatorState st) = sort_key ticket_key (parsed_files validTicket (cw_queue st))"
  by (simp_all add: readCoordinatorState_def)

lemma held_read: "set (parsed_files validLease (cw_leases st)) = held st"
  by (simp add: ldir.recs_def)

lemma record_keeps [reach_keeps]:
  "recordWorkEvent e now st = (r, st') \<Longrightarrow> cw_leases st' = cw_leases st \<and> cw_queue st' = cw_queue st"
  by (auto simp: recordWorkEvent_def Let_def split: option.splits)

lemma co_bindE:
  assumes "co_bind m f st = (r, st')"
  obtains (failed) e where "m st = (Inl e, st')" "r = Inl e"
    | (went_on) x st1 where "m st = (Inr x, st1)" "f x st1 = (r, st')"
  using assms by (auto simp: co_bind_def split: prod.splits sum.splits)

lemma store_ok_changes [reach_keeps]:
  "store_ok st \<Longrightarrow> store_ok (writeLease l st)"
  "store_ok st \<Longrightarrow> store_ok (writeTicket t st)"
  "store_ok st \<Longrightarrow> store_ok (removeLeaseFile i st)"
  "store_ok st \<Longrightarrow> store_ok (removeTicketFile i st)"
  by (simp_all add: store_ok_def writeLease_def writeTicket_def removeLeaseFile_def removeTicketFile_def
      ldir.named_write tdir.named_write ldir.named_remove tdir.named_remove)

lemma store_ok_record: "store_ok st \<Longrightarrow> recordWorkEvent e now st = (r, st') \<Longrightarrow> store_ok st'"
  by (auto simp: store_ok_def dest: record_keeps)

lemma record_then_return:
  "co_bind (recordWorkEvent e now) (\<lambda>_ st'. (Inr x, st')) st = (r, st') \<Longrightarrow> store_ok st \<Longrightarrow>
     store_ok st' \<and> cw_leases st' = cw_leases st \<and> cw_queue st' = cw_queue st \<and> (r = Inr x \<or> (\<exists>e. r = Inl e))"
  by (auto elim!: co_bindE dest: record_keeps store_ok_record)

lemma directory_changes [simp]:
  "cw_leases (writeLease l st) = dir_write (json_file (wl_id l)) (encodeLease l) (cw_leases st)"
  "cw_leases (writeTicket t st) = cw_leases st"
  "cw_leases (removeLeaseFile i st) = dir_remove (json_file i) (cw_leases st)"
  "cw_leases (removeTicketFile i st) = cw_leases st"
  by (simp_all add: writeLease_def writeTicket_def removeLeaseFile_def removeTicketFile_def)

text \<open>Pruning removes the reclaimable claims it reached, and no other; when it completes, the state it
  returns is the state a fresh read would give.\<close>

lemma prune_leases_effect:
  assumes "store_ok st" and "prune_leases env now ls st = (r, st')" and "set ls \<subseteq> held st" and "distinct (map wl_id ls)"
  shows "store_ok st' \<and> cw_queue st' = cw_queue st \<and> held st' \<subseteq> held st \<and>
     bad_files validLease m u (cw_leases st') = bad_files validLease m u (cw_leases st) \<and>
     (\<forall>x \<in> held st - held st'. leaseIsReclaimable env x now) \<and>
     (\<forall>kept. r = Inr kept \<longrightarrow> kept = filter (\<lambda>l. \<not> leaseIsReclaimable env l now) ls \<and>
        parsed_files validLease (cw_leases st') =
          filter (\<lambda>x. \<not> (x \<in> set ls \<and> leaseIsReclaimable env x now)) (parsed_files validLease (cw_leases st)))"
  using assms
proof (induction ls arbitrary: st r)
  case Nil
  then show ?case by auto
next
  case (Cons l ls)
  note ok = Cons.prems(1)
  have l: "l \<in> held st" and others: "set ls \<subseteq> held st" "wl_id l \<notin> wl_id ` set ls" "distinct (map wl_id ls)"
    using Cons.prems by auto
  have named: "ldir.named (cw_leases st)" using ok by (simp add: store_ok_def)
  show ?case
  proof (cases "leaseIsReclaimable env l now")
    case False
    with Cons.prems(2) obtain r1 where "prune_leases env now ls st = (r1, st')"
      and r: "r = (case r1 of Inl e \<Rightarrow> Inl e | Inr kept \<Rightarrow> Inr (l # kept))"
      by (auto simp: co_bind_def split: prod.splits sum.splits)
    from Cons.IH [OF ok this(1) others(1,3)] False r show ?thesis
      by (auto split: sum.splits intro!: filter_cong)
  next
    case True
    define st1 where "st1 = removeLeaseFile (wl_id l) st"
    have ok1: "store_ok st1" using ok by (simp add: st1_def store_ok_changes)
    have held1: "held st1 = {x \<in> held st. wl_id x \<noteq> wl_id l}"
      by (simp add: st1_def removeLeaseFile_def ldir.recs_remove [OF named])
    have gone: "x = l" if "x \<in> held st" "wl_id x = wl_id l" for x
      using ldir.recs_same_ident [OF named that(1) l that(2)] .
    have parsed1: "parsed_files validLease (cw_leases st1) = filter (\<lambda>x. x \<noteq> l) (parsed_files validLease (cw_leases st))"
      by (simp add: st1_def removeLeaseFile_def ldir.parsed_remove [OF named])
         (rule filter_cong, auto dest: gone simp: held_read)
    have bad1: "bad_files validLease m u (cw_leases st1) = bad_files validLease m u (cw_leases st)"
      by (simp add: st1_def removeLeaseFile_def ldir.bad_remove [OF named l])
    have queue1: "cw_queue st1 = cw_queue st" by (simp add: st1_def removeLeaseFile_def)
    obtain ev where run: "co_bind (recordWorkEvent ev now) (\<lambda>_. prune_leases env now ls) st1 = (r, st')"
      using Cons.prems(2) True by (simp add: st1_def)
    from run show ?thesis
    proof (cases rule: co_bindE)
      case (failed e)
      with record_keeps [OF failed(1)] ok1 held1 bad1 queue1 True gone show ?thesis
        by (auto simp: store_ok_def)
    next
      case (went_on x st2)
      have same: "cw_leases st2 = cw_leases st1" "cw_queue st2 = cw_queue st1" and ok2: "store_ok st2"
        using record_keeps [OF went_on(1)] store_ok_record [OF ok1 went_on(1)] by auto
      have "set ls \<subseteq> held st2" using others(1,2) unfolding same held1 by (auto simp: image_iff)
      from Cons.IH [OF ok2 went_on(2) this others(3)] show ?thesis
        unfolding same parsed1 bad1 queue1 held1 using True gone l by (auto intro!: filter_cong)
    qed
  qed
qed

abbreviation waiting :: "work_store \<Rightarrow> work_queue_ticket set" where
  "waiting st \<equiv> tdir.recs (cw_queue st)"

lemma waiting_read: "set (parsed_files validTicket (cw_queue st)) = waiting st"
  by (simp add: tdir.recs_def)

lemma prune_tickets_effect:
  assumes "store_ok st" and "prune_tickets env now ts st = (r, st')" and "set ts \<subseteq> waiting st" and "distinct (map wt_id ts)"
  shows "store_ok st' \<and> cw_leases st' = cw_leases st \<and>
     bad_files validTicket m u (cw_queue st') = bad_files validTicket m u (cw_queue st) \<and>
     (\<forall>kept. r = Inr kept \<longrightarrow> kept = filter (\<lambda>t. \<not> ticketIsStale env t now) ts \<and>
        parsed_files validTicket (cw_queue st') =
          filter (\<lambda>x. \<not> (x \<in> set ts \<and> ticketIsStale env x now)) (parsed_files validTicket (cw_queue st)))"
  using assms
proof (induction ts arbitrary: st r)
  case Nil
  then show ?case by auto
next
  case (Cons t ts)
  note ok = Cons.prems(1)
  have t: "t \<in> waiting st" and others: "set ts \<subseteq> waiting st" "wt_id t \<notin> wt_id ` set ts" "distinct (map wt_id ts)"
    using Cons.prems by auto
  have named: "tdir.named (cw_queue st)" using ok by (simp add: store_ok_def)
  show ?case
  proof (cases "ticketIsStale env t now")
    case False
    with Cons.prems(2) obtain r1 where "prune_tickets env now ts st = (r1, st')"
      and r: "r = (case r1 of Inl e \<Rightarrow> Inl e | Inr kept \<Rightarrow> Inr (t # kept))"
      by (auto simp: co_bind_def split: prod.splits sum.splits)
    from Cons.IH [OF ok this(1) others(1,3)] False r show ?thesis
      by (auto split: sum.splits intro!: filter_cong)
  next
    case True
    define st1 where "st1 = removeTicketFile (wt_id t) st"
    have ok1: "store_ok st1" using ok by (simp add: st1_def store_ok_changes)
    have waiting1: "waiting st1 = {x \<in> waiting st. wt_id x \<noteq> wt_id t}"
      by (simp add: st1_def removeTicketFile_def tdir.recs_remove [OF named])
    have gone: "x = t" if "x \<in> waiting st" "wt_id x = wt_id t" for x
      using tdir.recs_same_ident [OF named that(1) t that(2)] .
    have parsed1: "parsed_files validTicket (cw_queue st1) = filter (\<lambda>x. x \<noteq> t) (parsed_files validTicket (cw_queue st))"
      by (simp add: st1_def removeTicketFile_def tdir.parsed_remove [OF named])
         (rule filter_cong, auto dest: gone simp: waiting_read)
    have bad1: "bad_files validTicket m u (cw_queue st1) = bad_files validTicket m u (cw_queue st)"
      by (simp add: st1_def removeTicketFile_def tdir.bad_remove [OF named t])
    have leases1: "cw_leases st1 = cw_leases st" by (simp add: st1_def removeTicketFile_def)
    obtain ev where run: "co_bind (recordWorkEvent ev now) (\<lambda>_. prune_tickets env now ts) st1 = (r, st')"
      using Cons.prems(2) True by (simp add: st1_def)
    from run show ?thesis
    proof (cases rule: co_bindE)
      case (failed e)
      with record_keeps [OF failed(1)] ok1 bad1 leases1 show ?thesis by (auto simp: store_ok_def)
    next
      case (went_on x st2)
      have same: "cw_queue st2 = cw_queue st1" "cw_leases st2 = cw_leases st1" and ok2: "store_ok st2"
        using record_keeps [OF went_on(1)] store_ok_record [OF ok1 went_on(1)] by auto
      have "set ts \<subseteq> waiting st2" using others(1,2) unfolding same waiting1 by (auto simp: image_iff)
      from Cons.IH [OF ok2 went_on(2) this others(3)] show ?thesis
        unfolding same parsed1 bad1 leases1 using True by (auto intro!: filter_cong)
    qed
  qed
qed

lemma distinct_idents:
  "store_ok st \<Longrightarrow> distinct (map wl_id (parsed_files validLease (cw_leases st)))"
  "store_ok st \<Longrightarrow> distinct (map wt_id (parsed_files validTicket (cw_queue st)))"
  by (simp_all add: store_ok_def ldir.distinct_parsed tdir.distinct_parsed)

lemma pruneExpired_effect:
  assumes ok: "store_ok st" and run: "pruneExpired env (readCoordinatorState st) now st = (r, st')"
  shows "store_ok st' \<and> held st' \<subseteq> held st \<and>
     (\<forall>x \<in> held st - held st'. leaseIsReclaimable env x now) \<and>
     (\<forall>s. r = Inr s \<longrightarrow> s = readCoordinatorState st' \<and> co_degradedReasons s = co_degradedReasons (readCoordinatorState st) \<and>
        co_leases s = filter (\<lambda>l. \<not> leaseIsReclaimable env l now) (co_leases (readCoordinatorState st)) \<and>
        co_tickets s = filter (\<lambda>t. \<not> ticketIsStale env t now) (co_tickets (readCoordinatorState st)))"
proof -
  let ?ls = "parsed_files validLease (cw_leases st)" and ?ts = "sort_key ticket_key (parsed_files validTicket (cw_queue st))"
  note leases = prune_leases_effect [OF ok _ _ distinct_idents(1) [OF ok], of env now _ _ LeaseMalformed LeaseUnreadable]
  have dt: "distinct (map wt_id ?ts)" using distinct_idents(2) [OF ok] by (simp add: distinct_map)
  from run show ?thesis
    unfolding pruneExpired_def
  proof (cases rule: co_bindE)
    case (failed e)
    then show ?thesis using leases [of "Inl e" st'] by (auto simp: held_read)
  next
    case (went_on kept st1)
    have L: "prune_leases env now ?ls st = (Inr kept, st1)" using went_on(1) by simp
    note l1 = leases [OF L]
    have ok1: "store_ok st1" and q1: "cw_queue st1 = cw_queue st" using l1 by (auto simp: held_read)
    note tickets = prune_tickets_effect [OF ok1 _ _ dt, of env now _ _ QueueMalformed QueueUnreadable]
    from went_on(2) show ?thesis
    proof (cases rule: co_bindE)
      case (failed e)
      then show ?thesis using l1 tickets [of "Inl e" st'] by (auto simp: held_read waiting_read q1)
    next
      case inner: (went_on tk st2)
      have T: "prune_tickets env now ?ts st1 = (Inr tk, st2)" and fin: "st' = st2" "r = Inr (readCoordinatorState st\<lparr>co_leases := kept, co_tickets := tk\<rparr>)"
        using inner by auto
      note t1 = tickets [OF T]
      have same: "filter (\<lambda>x. x \<in> held st \<longrightarrow> P x) (parsed_files validLease (cw_leases st)) = filter P (parsed_files validLease (cw_leases st))"
        "filter (\<lambda>x. x \<in> waiting st \<longrightarrow> Q x) (parsed_files validTicket (cw_queue st)) = filter Q (parsed_files validTicket (cw_queue st))" for P Q
        by (rule filter_cong; simp add: held_read waiting_read)+
      have "kept = parsed_files validLease (cw_leases st2)" "tk = sort_key ticket_key (parsed_files validTicket (cw_queue st2))"
        using l1 t1 by (auto simp: held_read waiting_read q1 filter_sort same)
      then show ?thesis
        using l1 t1 fin by (auto simp: held_read waiting_read q1 readCoordinatorState_def)
    qed
  qed
qed

section \<open>What an admission decision establishes\<close>

definition clash :: "work_lease \<Rightarrow> work_lease \<Rightarrow> bool" where
  "clash a b = ((wl_access a \<noteq> Read \<and> wl_access b \<noteq> Read \<and> wl_repositoryRoot a \<noteq> None \<and> wl_repositoryRoot a \<noteq> Some [] \<and>
       wl_repositoryRoot a = wl_repositoryRoot b) \<or>
     (wl_access a = Exclusive \<and> isSubstantive (wl_workload b) (wl_access b)))"

definition fresh_observation :: "capacity_snapshot \<Rightarrow> work_lease list \<Rightarrow> int \<Rightarrow> bool" where
  "fresh_observation sn ls now = (opt_all (\<lambda>t. t \<le> now \<and> now \<le> t + 2000) (sn_sampledAtMs sn) \<and>
     opt_all (\<lambda>ids. ids = sort (map wl_id ls)) (sn_excludedLeaseIds sn))"

lemma state_objections_Nil:
  assumes "state_objections s sn q now = []"
  shows "aq_access q \<noteq> Read \<Longrightarrow> aq_repositoryRoot q = Some r \<Longrightarrow> r \<noteq> [] \<Longrightarrow> l \<in> set (co_leases s) \<Longrightarrow>
           wl_repositoryRoot l = Some r \<Longrightarrow> wl_access l = Read"
    and "aq_access q = Exclusive \<Longrightarrow> co_leases s = []"
    and "isSubstantive (aq_workload q) (aq_access q) \<Longrightarrow> l \<in> set (co_leases s) \<Longrightarrow> wl_access l \<noteq> Exclusive"
    and "isSubstantive (aq_workload q) (aq_access q) \<Longrightarrow> tickets_ahead (co_tickets s) (aq_ticketId q) = []"
    and "isSubstantive (aq_workload q) (aq_access q) \<Longrightarrow> co_degradedReasons s = []"
    and "isSubstantive (aq_workload q) (aq_access q) \<Longrightarrow> fresh_observation sn (co_leases s) now"
proof -
  note all = assms [unfolded state_objections_def Let_def append_is_Nil_conv]
  note observed = all [THEN conjunct1] and accounted = all [THEN conjunct2, THEN conjunct1]
  note rest = all [THEN conjunct2, THEN conjunct2]
  note degraded = rest [THEN conjunct1] and repository = rest [THEN conjunct2, THEN conjunct1]
    and idle = rest [THEN conjunct2, THEN conjunct2, THEN conjunct1]
    and others = rest [THEN conjunct2, THEN conjunct2, THEN conjunct2]
  show "aq_access q \<noteq> Read \<Longrightarrow> aq_repositoryRoot q = Some r \<Longrightarrow> r \<noteq> [] \<Longrightarrow> l \<in> set (co_leases s) \<Longrightarrow>
      wl_repositoryRoot l = Some r \<Longrightarrow> wl_access l = Read"
    using repository by (auto simp: find_None_iff_all split: option.splits)
  show "aq_access q = Exclusive \<Longrightarrow> co_leases s = []" using idle by (simp split: if_splits)
  show "isSubstantive (aq_workload q) (aq_access q) \<Longrightarrow> l \<in> set (co_leases s) \<Longrightarrow> wl_access l \<noteq> Exclusive"
    using others by (auto simp: find_None_iff_all split: option.splits)
  show "isSubstantive (aq_workload q) (aq_access q) \<Longrightarrow> tickets_ahead (co_tickets s) (aq_ticketId q) = []"
    using others by (simp split: if_splits)
  show "isSubstantive (aq_workload q) (aq_access q) \<Longrightarrow> co_degradedReasons s = []" using degraded by (simp split: if_splits)
  show "isSubstantive (aq_workload q) (aq_access q) \<Longrightarrow> fresh_observation sn (co_leases s) now"
    using observed accounted by (auto simp: fresh_observation_def opt_all_def split: if_splits option.splits)
qed

lemma bundle_objections_Nil:
  assumes "bundle_objections b used budget = []"
  shows "sum_list (map wb_cpuUnits used) + wb_cpuUnits b \<le> fst budget"
    and "sum_list (map wb_memoryMiB used) + wb_memoryMiB b \<le> snd budget"
    and "wb_io b = IoHigh \<Longrightarrow> u \<in> set used \<Longrightarrow> wb_io u \<noteq> IoHigh"
    and "wb_network b = NetHeavy \<Longrightarrow> u \<in> set used \<Longrightarrow> wb_network u \<noteq> NetHeavy"
  using assms by (auto simp: bundle_objections_def Let_def list_ex_iff split: if_splits)

lemma decideAdmission_admits:
  assumes "decideAdmission s sn q now = Inr d" and "ad_admit d"
  obtains b used where "normalizeWorkBundle (aq_workload q) (aq_access q) (aq_bundle q) = Inr b"
    and "normalize_leases (co_leases s) = Inr used" and "state_objections s sn q now = []"
    and "bundle_objections b used (bundleBudget (hr_physicalMemoryBytes (sn_reading sn)) (hr_logicalCpuCount (sn_reading sn))) = []"
    and "mc_canAdmit (capacity_for s sn q)" and "ad_capacity d = capacity_for s sn q"
proof -
  note eq = assms(1) [unfolded decideAdmission_def]
  from eq obtain b where b: "normalizeWorkBundle (aq_workload q) (aq_access q) (aq_bundle q) = Inr b"
    by (auto split: sum.splits)
  with eq obtain used where u: "normalize_leases (co_leases s) = Inr used" by (auto split: sum.splits)
  show thesis
  proof (rule that [OF b u])
    have ne: "mc_reasons (capacity_for s sn q) \<noteq> []"
      by (simp add: capacity_for_def evaluateCapacity_def Let_def)
    show "mc_canAdmit (capacity_for s sn q)" using eq b u assms(2) ne by (auto simp: Let_def split: if_splits)
  qed (use eq b u assms(2) in \<open>auto simp: Let_def\<close>)
qed

section \<open>Effect of acquiring\<close>

definition request_of :: "work_request \<Rightarrow> checked_request \<Rightarrow> admission_request" where
  "request_of r c = \<lparr>aq_access = cw_access c, aq_workload = cw_workload c, aq_bundle = Some (cw_bundle c),
     aq_repositoryRoot = cw_root c, aq_ticketId = wr_ticketId r\<rparr>"

lemma take_ticket_keeps:
  "store_ok st \<Longrightarrow> take_ticket env r c uuid now d ts st = (res, st') \<Longrightarrow>
     store_ok st' \<and> cw_leases st' = cw_leases st \<and> (\<forall>l cap. res \<noteq> Inr (Acquired l cap))"
  unfolding take_ticket_def
  by (auto simp: Let_def store_ok_changes dest!: record_then_return split: option.splits)

lemma take_lease_effect:
  assumes "store_ok st" and "take_lease env r c uuid now cap st = (res, st')"
  defines "l \<equiv> new_lease env r c uuid now"
  shows "store_ok st' \<and> cw_leases st' = dir_write (json_file (wl_id l)) (encodeLease l) (cw_leases st) \<and>
     (res = Inr (Acquired l cap) \<or> (\<exists>e. res = Inl e))"
  using assms(1,2) unfolding take_lease_def l_def
  by (auto simp: Let_def store_ok_changes dest!: record_then_return split: option.splits)

lemma acquireWork_cases:
  assumes ok: "store_ok st" and run: "acquireWork env r sn uuid now st = (res, st')"
  obtains (no_lease) "store_ok st'" "held st' \<subseteq> held st" "\<forall>x \<in> held st - held st'. leaseIsReclaimable env x now"
      "\<forall>l cap. res \<noteq> Inr (Acquired l cap)"
  | (lease) c st1 d l where "check_request env r = Inr c" "pruneExpired env (readCoordinatorState st) now st = (Inr (readCoordinatorState st1), st1)"
      "decideAdmission (readCoordinatorState st1) sn (request_of r c) now = Inr d" "ad_admit d" "store_ok st1" "store_ok st'"
      "l = new_lease env r c uuid now" "cw_leases st' = dir_write (json_file (wl_id l)) (encodeLease l) (cw_leases st1)"
      "res = Inr (Acquired l (ad_capacity d)) \<or> (\<exists>e. res = Inl e)"
proof (cases "check_request env r")
  case (Inl e)
  with run have "st' = st" "res = Inl e" by (auto simp: acquireWork_def)
  with ok no_lease show thesis by auto
next
  case (Inr c)
  with run have "co_bind (pruneExpired env (readCoordinatorState st) now) (\<lambda>s st1.
      case decideAdmission s sn (request_of r c) now of
        Inl e \<Rightarrow> (Inl e, st1)
      | Inr d \<Rightarrow> if ad_admit d then take_lease env r c uuid now (ad_capacity d) st1
                 else take_ticket env r c uuid now d (co_tickets s) st1) st = (res, st')"
    by (simp add: acquireWork_def request_of_def)
  then show thesis
  proof (cases rule: co_bindE)
    case (failed e)
    with pruneExpired_effect [OF ok failed(1)] no_lease show thesis by auto
  next
    case (went_on s st1)
    note p = pruneExpired_effect [OF ok went_on(1)]
    then have s: "s = readCoordinatorState st1" and ok1: "store_ok st1" by auto
    show thesis
    proof (cases "decideAdmission s sn (request_of r c) now")
      case (Inl e)
      with went_on(2) p no_lease show thesis by auto
    next
      case d: (Inr d)
      show thesis
      proof (cases "ad_admit d")
        case False
        with went_on(2) d have "take_ticket env r c uuid now d (co_tickets s) st1 = (res, st')" by simp
        from take_ticket_keeps [OF ok1 this] p no_lease show thesis by auto
      next
        case True
        with went_on(2) d have "take_lease env r c uuid now (ad_capacity d) st1 = (res, st')" by simp
        from take_lease_effect [OF ok1 this] lease [OF Inr _ _ True ok1] went_on(1) d s show thesis by auto
      qed
    qed
  qed
qed

section \<open>Runs of the coordinator\<close>

text \<open>Every operation holds the coordinator lock, so a run is a sequence of whole operations, each with
  its own view of the machine and its own clock reading.\<close>

datatype coord_op =
    OpAcquire work_request capacity_snapshot string
  | OpRelease string release_options
  | OpHeartbeat string
  | OpCancel string
  | OpStatus capacity_snapshot

fun coord_exec :: "coord_env \<Rightarrow> int \<Rightarrow> coord_op \<Rightarrow> work_store \<Rightarrow> work_store" where
  "coord_exec env now (OpAcquire r sn uuid) st = snd (acquireWork env r sn uuid now st)"
| "coord_exec env now (OpRelease i opts) st = snd (releaseWork env i opts now st)"
| "coord_exec env now (OpHeartbeat i) st = snd (heartbeat i now st)"
| "coord_exec env now (OpCancel i) st = snd (cancelTicket i now st)"
| "coord_exec env now (OpStatus sn) st = snd (workStatus env sn now st)"

definition empty_work_store :: work_store where
  "empty_work_store = \<lparr>cw_leases = [], cw_queue = [], cw_events = []\<rparr>"

inductive coord_reach :: "work_store \<Rightarrow> bool" where
  coord_start: "coord_reach empty_work_store"
| coord_next: "coord_reach st \<Longrightarrow> coord_reach (coord_exec env now op st)"

lemma releaseWork_effect:
  assumes "store_ok st" and "releaseWork env i opts now st = (res, st')"
  shows "store_ok st' \<and> held st' \<subseteq> held st \<and> (\<forall>x \<in> held st - held st'. wl_id x = i \<and>
     (rl_force opts \<or> \<not> ce_alive env (wl_pid x) \<or>
      (wl_pid x = (case rl_pid opts of Some p \<Rightarrow> p | None \<Rightarrow> ce_pid env) \<and>
       (\<forall>h. wl_callerProofHash x = Some h \<longrightarrow> (\<exists>p. rl_callerProof opts = Some p \<and> ce_sha256 env p = h)))))"
proof (cases "List.find (\<lambda>l. wl_id l = i) (co_leases (readCoordinatorState st))")
  case None
  with assms show ?thesis by (auto simp: releaseWork_def)
next
  case (Some lease)
  then have l: "lease \<in> held st" "wl_id lease = i" by (auto dest!: find_SomeD simp: held_read)
  have named: "ldir.named (cw_leases st)" using assms(1) by (simp add: store_ok_def)
  have only: "x = lease" if "x \<in> held st" "wl_id x = i" for x
    using ldir.recs_same_ident [OF named that(1) l(1)] that(2) l(2) by simp
  define blocked where "blocked = (let live = (\<not> rl_force opts \<and> ce_alive env (wl_pid lease)) in
      live \<and> (wl_callerProofHash lease \<noteq> None \<or> rl_requireCallerProof opts) \<and>
        \<not> (case (rl_callerProof opts, wl_callerProofHash lease) of
            (Some p, Some h) \<Rightarrow> hex_run 64 64 p \<and> ce_sha256 env p = h | _ \<Rightarrow> False) \<or>
      live \<and> wl_pid lease \<noteq> (case rl_pid opts of Some p \<Rightarrow> p | None \<Rightarrow> ce_pid env))"
  show ?thesis
  proof (cases blocked)
    case True
    then have "st' = st" using assms(2) Some
      unfolding releaseWork_def blocked_def Let_def by (simp split: if_splits)
    with assms(1) show ?thesis by simp
  next
    case False
    then obtain e where "co_bind (recordWorkEvent e now) (\<lambda>_ st'. (Inr Released, st')) (removeLeaseFile i st) = (res, st')"
      using assms(2) Some unfolding releaseWork_def blocked_def Let_def by (simp split: if_splits)
    note r = record_then_return [OF this store_ok_changes(3) [OF assms(1)]]
    then have "held st' = {x \<in> held st. wl_id x \<noteq> i}" by (simp add: ldir.recs_remove [OF named])
    moreover from this have "x = lease" if "x \<in> held st - held st'" for x using only that by auto
    moreover have "rl_force opts \<or> \<not> ce_alive env (wl_pid lease) \<or>
      (wl_pid lease = (case rl_pid opts of Some p \<Rightarrow> p | None \<Rightarrow> ce_pid env) \<and>
       (\<forall>h. wl_callerProofHash lease = Some h \<longrightarrow> (\<exists>p. rl_callerProof opts = Some p \<and> ce_sha256 env p = h)))"
      using False unfolding blocked_def Let_def by (cases "rl_callerProof opts"; cases "wl_callerProofHash lease"; auto)
    ultimately show ?thesis using r l(2) by blast
  qed
qed

lemma heartbeat_effect:
  assumes "store_ok st" and "heartbeat i now st = (res, st')"
  shows "store_ok st' \<and> (held st' = held st \<or> (\<exists>l \<in> held st. wl_id l = i \<and>
     held st' = {y \<in> held st. wl_id y \<noteq> i} \<union> {l\<lparr>wl_heartbeatAt := Iso now\<rparr>}))"
proof (cases "List.find (\<lambda>l. wl_id l = i) (co_leases (readCoordinatorState st))")
  case None
  with assms show ?thesis
    by (auto simp: heartbeat_def Let_def store_ok_changes dest!: record_then_return split: option.splits)
next
  case (Some l)
  then have l: "l \<in> held st" "wl_id l = i" by (auto dest!: find_SomeD simp: held_read)
  have named: "ldir.named (cw_leases st)" using assms(1) by (simp add: store_ok_def)
  let ?l = "l\<lparr>wl_heartbeatAt := Iso now\<rparr>"
  have wf: "lease_wf ?l" using ldir.recs_wf [OF l(1)] by (simp add: lease_wf_def)
  obtain e where "co_bind (recordWorkEvent e now) (\<lambda>_ st'. (Inr True, st')) (writeLease ?l st) = (res, st')"
    using assms(2) Some by (simp add: heartbeat_def Let_def)
  note r = record_then_return [OF this store_ok_changes(1) [OF assms(1)]]
  have "held st' = {y \<in> held st. wl_id y \<noteq> wl_id ?l} \<union> {?l}"
    using r ldir.recs_write [OF named, of ?l] wf by simp
  with r l show ?thesis by auto
qed

lemma cancelTicket_effect: "store_ok st \<Longrightarrow> cancelTicket i now st = (res, st') \<Longrightarrow> store_ok st' \<and> held st' = held st"
  by (auto simp: cancelTicket_def store_ok_changes dest!: record_then_return split: option.splits)

lemma workStatus_effect:
  assumes "store_ok st" and "workStatus env sn now st = (res, st')"
  shows "store_ok st' \<and> held st' \<subseteq> held st \<and> (\<forall>x \<in> held st - held st'. leaseIsReclaimable env x now)"
proof -
  obtain r where "pruneExpired env (readCoordinatorState st) now st = (r, st')"
    using assms(2) by (auto simp: workStatus_def elim!: co_bindE split: sum.splits)
  from pruneExpired_effect [OF assms(1) this] show ?thesis by auto
qed

section \<open>Mutual exclusion\<close>

definition separated :: "work_lease set \<Rightarrow> bool" where
  "separated L = (\<forall>a \<in> L. \<forall>b \<in> L. wl_id a \<noteq> wl_id b \<longrightarrow> \<not> clash a b)"

lemma separated_subset: "separated L \<Longrightarrow> K \<subseteq> L \<Longrightarrow> separated K"
  by (auto simp: separated_def)

lemma separated_insert:
  "separated L \<Longrightarrow> (\<And>b. b \<in> L \<Longrightarrow> wl_id b \<noteq> wl_id a \<Longrightarrow> \<not> clash a b \<and> \<not> clash b a) \<Longrightarrow> separated (insert a L)"
  unfolding separated_def by (metis insert_iff)

lemma clash_heartbeat [simp]:
  "clash (a\<lparr>wl_heartbeatAt := h\<rparr>) b = clash a b" "clash a (b\<lparr>wl_heartbeatAt := h\<rparr>) = clash a b"
  by (simp_all add: clash_def)

lemma admitted_no_clash:
  assumes d: "decideAdmission s sn (request_of r c) now = Inr d" and a: "ad_admit d"
    and l: "l = new_lease env r c uuid now" and b: "b \<in> set (co_leases s)"
  shows "\<not> clash l b" and "\<not> clash b l"
proof -
  obtain bd used where ob: "state_objections s sn (request_of r c) now = []"
    using decideAdmission_admits [OF d a] by blast
  note o = state_objections_Nil [OF ob]
  have req: "aq_access (request_of r c) = wl_access l" "aq_workload (request_of r c) = wl_workload l"
    "aq_repositoryRoot (request_of r c) = wl_repositoryRoot l"
    by (simp_all add: request_of_def new_lease_def l)
  show "\<not> clash l b" using o(1) [of _ b] o(2) b unfolding req clash_def by (cases "wl_repositoryRoot l") auto
  show "\<not> clash b l" using o(1) [of _ b] o(3) [of b] b unfolding req clash_def by (cases "wl_repositoryRoot l") auto
qed

lemma coord_exec_separated:
  assumes "store_ok st" and "separated (held st)"
  shows "store_ok (coord_exec env now op st) \<and> separated (held (coord_exec env now op st))"
proof (cases op)
  case (OpAcquire r sn uuid)
  from assms(1) prod.collapse [symmetric] show ?thesis
  proof (cases rule: acquireWork_cases [of st env r sn uuid now])
    case no_lease
    with assms(2) OpAcquire show ?thesis by (auto intro: separated_subset)
  next
    case (lease c st1 d l)
    have "held st1 \<subseteq> held st" using pruneExpired_effect [OF assms(1) lease(2)] by simp
    then have sep1: "separated (held st1)" using assms(2) by (rule separated_subset [rotated])
    have "separated (insert l (held st1))"
      using admitted_no_clash [OF lease(3,4,7)] by (intro separated_insert [OF sep1]) (simp add: held_read)
    moreover have "held (coord_exec env now op st) \<subseteq> insert l (held st1)"
      using lease(5,8) OpAcquire ldir.recs_write [of "cw_leases st1" l] by (auto simp: store_ok_def split: if_splits)
    ultimately show ?thesis using lease(6) OpAcquire by (auto intro: separated_subset)
  qed
next
  case (OpRelease i opts)
  with assms(2) releaseWork_effect [OF assms(1) prod.collapse [symmetric], of env i opts now] show ?thesis
    by (auto intro: separated_subset)
next
  case (OpHeartbeat i)
  from heartbeat_effect [OF assms(1) prod.collapse [symmetric], of i now] assms(2) show ?thesis
    unfolding OpHeartbeat coord_exec.simps by (auto simp: separated_def)
next
  case (OpCancel i)
  with assms(2) cancelTicket_effect [OF assms(1) prod.collapse [symmetric], of i now] show ?thesis by auto
next
  case (OpStatus sn)
  with assms(2) workStatus_effect [OF assms(1) prod.collapse [symmetric], of env sn now] show ?thesis by (auto intro: separated_subset)
qed

lemma coord_reach_separated: "coord_reach st \<Longrightarrow> store_ok st \<and> separated (held st)"
proof (induction rule: coord_reach.induct)
  case coord_start
  show ?case
    by (simp add: empty_work_store_def store_ok_def ldir.named_empty tdir.named_empty ldir.recs_def separated_def)
next
  case (coord_next st env now op)
  then show ?case by (simp add: coord_exec_separated)
qed

text \<open>
  C2: In every reachable state of the coordinator, two leases with different ids never both hold the
  same repository for writing, and while a lease holds the machine exclusively no other lease does
  substantive work.
\<close>

theorem leases_exclude_each_other:
  assumes "coord_reach st"
    and "a \<in> set (co_leases (readCoordinatorState st))" and "b \<in> set (co_leases (readCoordinatorState st))"
    and "wl_id a \<noteq> wl_id b"
  shows "(wl_access a \<noteq> Read \<and> wl_access b \<noteq> Read \<and> wl_repositoryRoot a \<in> {Some r | r. r \<noteq> []} \<longrightarrow>
            wl_repositoryRoot a \<noteq> wl_repositoryRoot b) \<and>
         (wl_access a = Exclusive \<longrightarrow> \<not> isSubstantive (wl_workload b) (wl_access b))"
proof -
  have "\<not> clash a b"
    using coord_reach_separated [OF assms(1)] assms(2-4) by (simp add: separated_def held_read)
  then show ?thesis by (auto simp: clash_def)
qed

definition ex_machine :: coord_env where
  "ex_machine = \<lparr>ce_alive = (\<lambda>_. True), ce_realpath = (\<lambda>_. None), ce_cwd = ''/'', ce_pid = 7, ce_ppid = 1, ce_sha256 = id\<rparr>"

definition ex_snapshot :: capacity_snapshot where
  "ex_snapshot = \<lparr>sn_sampledAtMs = None, sn_excludedLeaseIds = None,
     sn_reading = \<lparr>hr_physicalMemoryBytes = 34359738368, hr_logicalCpuCount = 12, hr_loadAverage1m = Some 1, hr_memory = MemHealthy, hr_thermal = ThermalHealthy\<rparr>,
     sn_uncoordinatedHeavy = 0, sn_processObserved = True, sn_profile = Conservative, sn_interactiveReady = False\<rparr>"

definition ex_work :: "string \<Rightarrow> work_request" where
  "ex_work repo = \<lparr>wr_executor = ''codex'', wr_access = ''mutate'', wr_workload = ''medium'', wr_bundle = None, wr_repositoryRoot = Some repo,
     wr_branch = None, wr_phase = None, wr_taskId = None, wr_attempt = None, wr_ticketId = None, wr_pid = None, wr_parentPid = None,
     wr_pidIsWorkload = None, wr_callerProofHash = None\<rparr>"

definition ex_one :: work_store where
  "ex_one = coord_exec ex_machine 0 (OpAcquire (ex_work ''/a'') ex_snapshot ''1'') empty_work_store"

definition ex_two :: work_store where
  "ex_two = coord_exec ex_machine 5 (OpAcquire (ex_work ''/b'') ex_snapshot ''2'') ex_one"

lemma ex_two_reach: "coord_reach ex_two"
  unfolding ex_two_def ex_one_def by (intro coord_reach.intros)

text \<open>The two stores, run once: what the coordinator has written after each admission.\<close>

definition ex_lease_file :: "string \<Rightarrow> string \<Rightarrow> int \<Rightarrow> string \<times> json stored" where
  "ex_lease_file i repo t = (i @ ''.json'', Contents (JObj
     [(''id'', JStr i), (''pid'', JNum 7), (''executor'', JStr ''codex''), (''access'', JStr ''mutate''), (''workload'', JStr ''medium''),
      (''createdAt'', JIso t), (''heartbeatAt'', JIso t), (''parentPid'', JNum 1), (''pidIsWorkload'', JBool False),
      (''repositoryRoot'', JStr repo),
      (''bundle'', JObj [(''cpuUnits'', JNum 2), (''memoryMiB'', JNum 2048), (''io'', JStr ''normal''), (''network'', JStr ''light''),
         (''repositoryWrite'', JBool True), (''machineExclusive'', JBool False)])]))"

definition ex_lease_event :: "int \<Rightarrow> string \<Rightarrow> int \<Rightarrow> event_line" where
  "ex_lease_event n i t = EventLine \<lparr>ev_cursor = n, ev_at = Iso t, ev_event = LeaseAcquired, ev_id = Some i, ev_taskId = None,
     ev_attempt = None, ev_executor = Some ExCodex, ev_access = Some Mutate, ev_workload = Some Medium, ev_phase = Some None,
     ev_reason = None, ev_forced = None, ev_observedUncoordinatedHeavy = None, ev_dexServices = None\<rparr>"

lemma ex_one_run [code]:
  "ex_one = \<lparr>cw_leases = [ex_lease_file ''lease-1'' ''/a'' 0], cw_queue = [], cw_events = [ex_lease_event 1 ''lease-1'' 0]\<rparr>"
  unfolding ex_one_def by code_simp

definition ex_second :: "admission_result \<times> work_store" where
  "ex_second = (Acquired
     \<lparr>wl_id = ''lease-2'', wl_taskId = None, wl_attempt = None, wl_pid = 7, wl_parentPid = Some 1, wl_callerProofHash = None,
       wl_pidIsWorkload = Some False, wl_executor = ExCodex, wl_repositoryRoot = Some ''/b'', wl_branch = None, wl_access = Mutate,
       wl_workload = Medium, wl_bundle = Some \<lparr>wb_cpuUnits = 2, wb_memoryMiB = 2048, wb_io = IoNormal, wb_network = NetLight,
         wb_repositoryWrite = True, wb_machineExclusive = False\<rparr>, wl_phase = None, wl_createdAt = Iso 5, wl_heartbeatAt = Iso 5\<rparr>
     \<lparr>mc_substantiveSlots = 3, mc_heavySlots = 2, mc_cpu = CpuHealthy, mc_canAdmit = True, mc_reasons = [CapacityAvailable]\<rparr>,
     \<lparr>cw_leases = [ex_lease_file ''lease-1'' ''/a'' 0, ex_lease_file ''lease-2'' ''/b'' 5], cw_queue = [],
       cw_events = [ex_lease_event 1 ''lease-1'' 0, ex_lease_event 2 ''lease-2'' 5]\<rparr>)"

lemma ex_second_run:
  "acquireWork ex_machine (ex_work ''/b'') ex_snapshot ''2'' 5 ex_one = (Inr (fst ex_second), snd ex_second)"
  by code_simp

lemma ex_two_run [code]: "ex_two = snd ex_second"
  by (simp add: ex_two_def ex_second_run)

lemma ex_two_view:
  "map (\<lambda>l. (wl_id l, wl_access l, wl_repositoryRoot l)) (co_leases (readCoordinatorState ex_two)) =
     [(''lease-1'', Mutate, Some ''/a''), (''lease-2'', Mutate, Some ''/b'')]"
  by code_simp

lemma ex_two_leases: "map wl_id (co_leases (readCoordinatorState ex_two)) = [''lease-1'', ''lease-2'']"
  using arg_cong [OF ex_two_view, of "map fst"] by (simp add: comp_def del: co_leases_read)

lemma ex_two_repositories:
  "map wl_access (co_leases (readCoordinatorState ex_two)) = [Mutate, Mutate]"
  "map wl_repositoryRoot (co_leases (readCoordinatorState ex_two)) = [Some ''/a'', Some ''/b'']"
  using arg_cong [OF ex_two_view, of "map (fst \<circ> snd)"] arg_cong [OF ex_two_view, of "map (snd \<circ> snd)"]
  by (simp_all add: comp_def del: co_leases_read)

theorem leases_exclude_each_other_witness:
  "wl_access (co_leases (readCoordinatorState ex_two) ! 0) = Mutate \<and> wl_access (co_leases (readCoordinatorState ex_two) ! 1) = Mutate \<and>
   wl_repositoryRoot (co_leases (readCoordinatorState ex_two) ! 0) = Some ''/a'' \<and>
   wl_repositoryRoot (co_leases (readCoordinatorState ex_two) ! 0) \<noteq> wl_repositoryRoot (co_leases (readCoordinatorState ex_two) ! 1)"
proof -
  obtain a b where ab: "co_leases (readCoordinatorState ex_two) = [a, b]"
    using ex_two_leases by (auto simp del: co_leases_read)
  have "wl_id a \<noteq> wl_id b" "wl_access a = Mutate" "wl_access b = Mutate" "wl_repositoryRoot a = Some ''/a''"
    using ex_two_leases ex_two_repositories unfolding ab by simp_all
  with leases_exclude_each_other [OF ex_two_reach, of a b] ab show ?thesis by (simp del: co_leases_read)
qed

section \<open>Admission, the queue and the budget\<close>

lemma normalize_leases_snoc:
  "normalize_leases ls = Inr bs \<Longrightarrow> normalizeWorkBundle (wl_workload l) (wl_access l) (wl_bundle l) = Inr b \<Longrightarrow>
     normalize_leases (ls @ [l]) = Inr (bs @ [b])"
  by (induction ls arbitrary: bs) (auto split: sum.splits)

lemma prune_leases_names: "prune_leases env now ls st = (r, st') \<Longrightarrow> fst ` set (cw_leases st') \<subseteq> fst ` set (cw_leases st)"
proof (induction ls arbitrary: st r)
  case (Cons l ls)
  show ?case
  proof (cases "leaseIsReclaimable env l now")
    case True
    then obtain e where run: "co_bind (recordWorkEvent e now) (\<lambda>_. prune_leases env now ls) (removeLeaseFile (wl_id l) st) = (r, st')"
      using Cons.prems by simp
    have sub: "fst ` set (cw_leases (removeLeaseFile (wl_id l) st)) \<subseteq> fst ` set (cw_leases st)"
      by (auto simp: dir_remove_def)
    from run show ?thesis
    proof (cases rule: co_bindE)
      case failed
      show ?thesis using record_keeps [OF failed(1)] sub by simp
    next
      case (went_on x st1)
      show ?thesis using record_keeps [OF went_on(1)] Cons.IH [OF went_on(2)] sub by simp
    qed
  next
    case False
    then obtain r1 where "prune_leases env now ls st = (r1, st')"
      using Cons.prems by (auto elim!: co_bindE)
    then show ?thesis by (rule Cons.IH)
  qed
qed auto

lemma prune_tickets_leases: "prune_tickets env now ts st = (r, st') \<Longrightarrow> cw_leases st' = cw_leases st"
  by (induction ts arbitrary: st r) (auto elim!: co_bindE dest!: record_keeps split: if_splits)

lemma pruneExpired_names: "pruneExpired env s now st = (r, st') \<Longrightarrow> fst ` set (cw_leases st') \<subseteq> fst ` set (cw_leases st)"
  unfolding pruneExpired_def
proof (elim co_bindE)
  fix e assume "prune_leases env now (co_leases s) st = (Inl e, st')"
  then show "fst ` set (cw_leases st') \<subseteq> fst ` set (cw_leases st)" by (rule prune_leases_names)
next
  fix ls st1 e
  assume "prune_leases env now (co_leases s) st = (Inr ls, st1)" and "prune_tickets env now (co_tickets s) st1 = (Inl e, st')"
  then show "fst ` set (cw_leases st') \<subseteq> fst ` set (cw_leases st)" by (simp only: prune_leases_names prune_tickets_leases)
next
  fix ls st1 ts st2
  assume "prune_leases env now (co_leases s) st = (Inr ls, st1)" and "prune_tickets env now (co_tickets s) st1 = (Inr ts, st2)"
    and "(Inr (s\<lparr>co_leases := ls, co_tickets := ts\<rparr>), st2) = (r, st')"
  then show "fst ` set (cw_leases st') \<subseteq> fst ` set (cw_leases st)" using prune_leases_names prune_tickets_leases by (metis prod.inject)
qed

lemma check_requestD:
  assumes "check_request env r = Inr c"
  shows "isWorkBundle (cw_bundle c)" and "binding_wf (given (wr_taskId r)) (wr_attempt r)" and "opt_all (hex_run 64 64) (wr_callerProofHash r)"
    and "cw_access c = Mutate \<Longrightarrow> cw_root c \<noteq> None"
proof -
  note eq = assms [unfolded check_request_def Let_def]
  from eq obtain w a b where b: "normalizeWorkBundle w a (wr_bundle r) = Inr b" "cw_bundle c = b"
    by (auto split: option.splits sum.splits if_splits)
  then show "isWorkBundle (cw_bundle c)" using normalizeWorkBundle_ok by metis
  from eq have "validateTaskBinding (wr_taskId r) (wr_attempt r) = Inr ()"
    by (auto split: option.splits sum.splits if_splits)
  then show "binding_wf (given (wr_taskId r)) (wr_attempt r)"
    by (auto simp: validateTaskBinding_def binding_wf_def opt_all_def given_def split: option.splits if_splits)
  show "opt_all (hex_run 64 64) (wr_callerProofHash r)" "cw_access c = Mutate \<Longrightarrow> cw_root c \<noteq> None"
    using eq by (auto simp: opt_all_def split: option.splits sum.splits if_splits)
qed

lemma new_lease_wf:
  "check_request env r = Inr c \<Longrightarrow> l = new_lease env r c uuid now \<Longrightarrow> lease_wf l \<longleftrightarrow> 0 < wl_pid l"
  using check_requestD [of env r c] by (auto simp: lease_wf_def new_lease_def opt_all_def)

lemma tickets_ahead_Nil:
  "tickets_ahead ts tid = [] \<Longrightarrow> ts = [] \<or> tid = Some (wt_id (hd ts))"
  by (cases ts) (auto simp: tickets_ahead_def given_def split: option.splits if_splits)

lemma evaluateCapacity_slots:
  "mc_substantiveSlots (evaluateCapacity p c q) =
     substantiveSlotsForProfile (hr_physicalMemoryBytes p) (hr_logicalCpuCount p) (cq_profile q) (cq_interactiveReady q)"
  "mc_heavySlots (evaluateCapacity p c q) = heavySlotsFor (hr_physicalMemoryBytes p) (hr_logicalCpuCount p)"
  by (simp_all add: evaluateCapacity_def Let_def)

lemma capacity_admits:
  assumes "mc_canAdmit (capacity_for s sn q)" and "isSubstantive (aq_workload q) (aq_access q) \<Longrightarrow> co_degradedReasons s = []"
    and "isSubstantive (aq_workload q) (aq_access q)"
  shows "length (filter (\<lambda>l. isSubstantive (wl_workload l) (wl_access l)) (co_leases s)) + sn_uncoordinatedHeavy sn
      < mc_substantiveSlots (capacity_for s sn q) \<and>
    (aq_workload q = Heavy \<longrightarrow> length (filter (\<lambda>l. wl_workload l = Heavy) (co_leases s)) < mc_heavySlots (capacity_for s sn q))"
proof -
  have "co_degradedReasons s = []" using assms(2,3) .
  then have eq: "capacity_for s sn q = evaluateCapacity (sn_reading sn)
      \<lparr>cc_activeSubstantive = length (filter (\<lambda>l. isSubstantive (wl_workload l) (wl_access l)) (co_leases s)),
       cc_activeHeavy = length (filter (\<lambda>l. wl_workload l = Heavy) (co_leases s)),
       cc_observedUncoordinatedHeavy = sn_uncoordinatedHeavy sn, cc_processObserved = sn_processObserved sn\<rparr>
      \<lparr>cq_workload = aq_workload q, cq_access = aq_access q, cq_profile = sn_profile sn, cq_interactiveReady = sn_interactiveReady sn\<rparr>"
    by (simp add: capacity_for_def Let_def)
  show ?thesis
    using assms(1,3) unfolding eq evaluateCapacity_canAdmit evaluateCapacity_slots by (auto dest: objections_Nil(2,3))
qed


definition got_lease :: "(coord_error + admission_result) \<times> work_store \<Rightarrow> (work_lease \<Rightarrow> machine_capacity \<Rightarrow> work_store \<Rightarrow> bool) \<Rightarrow> bool" where
  "got_lease x p = (case x of (Inr (Acquired l cap), st') \<Rightarrow> p l cap st' | _ \<Rightarrow> False)"

lemma got_leaseE:
  assumes "got_lease x p"
  obtains l cap st' where "x = (Inr (Acquired l cap), st')" "p l cap st'"
  using assms by (auto simp: got_lease_def split: prod.splits sum.splits admission_result.splits)

lemma ex_one_reach: "coord_reach ex_one"
  unfolding ex_one_def by (intro coord_reach.intros)

lemma ex_second_lease:
  "got_lease (acquireWork ex_machine (ex_work ''/b'') ex_snapshot ''2'' 5 ex_one)
     (\<lambda>l cap st'. wl_id l = ''lease-2'' \<and> wl_pid l = 7 \<and> wl_workload l = Medium \<and> wl_access l = Mutate)"
  unfolding ex_second_run by (simp add: got_lease_def ex_second_def)

lemma ex_one_names: "map fst (cw_leases ex_one) = [''lease-1.json'']"
  by code_simp


text \<open>
  C10: When a substantive request is admitted while live tickets wait, the request holds a ticket of
  its own and no live ticket was queued before it.
\<close>

theorem admission_is_fifo:
  assumes ok: "store_ok st" and run: "acquireWork env r sn uuid now st = (Inr (Acquired l cap), st')"
    and sub: "isSubstantive (wl_workload l) (wl_access l)"
    and t: "t \<in> set (co_tickets (readCoordinatorState st))" and live: "\<not> ticketIsStale env t now"
  shows "\<exists>m \<in> set (co_tickets (readCoordinatorState st)). wr_ticketId r = Some (wt_id m) \<and> ticket_key m \<le> ticket_key t"
  using ok run
proof (cases rule: acquireWork_cases)
  case no_lease
  then show ?thesis by blast
next
  case (lease c st1 d l')
  define ts where "ts = filter (\<lambda>t. \<not> ticketIsStale env t now) (co_tickets (readCoordinatorState st))"
  have ts: "co_tickets (readCoordinatorState st1) = ts" using pruneExpired_effect [OF ok lease(2)] by (auto simp: ts_def)
  have "state_objections (readCoordinatorState st1) sn (request_of r c) now = []"
    using decideAdmission_admits [OF lease(3,4)] by blast
  from state_objections_Nil(4) [OF this] have "tickets_ahead ts (wr_ticketId r) = []"
    using sub lease(7,9) ts by (auto simp: request_of_def new_lease_def simp del: co_tickets_read)
  then have hd: "ts = [] \<or> wr_ticketId r = Some (wt_id (hd ts))" by (rule tickets_ahead_Nil)
  have "t \<in> set ts" using t live by (simp add: ts_def)
  moreover have "sorted (map ticket_key ts)" by (simp add: ts_def sorted_filter)
  ultimately have "ticket_key (hd ts) \<le> ticket_key t" "hd ts \<in> set ts" by (cases ts; auto)+
  moreover have "ts \<noteq> []" using \<open>t \<in> set ts\<close> by auto
  moreover have "set ts \<subseteq> set (co_tickets (readCoordinatorState st))" by (auto simp: ts_def)
  ultimately show ?thesis using hd by blast
qed

definition ex_exclusive :: work_request where
  "ex_exclusive = (ex_work ''/c'')\<lparr>wr_access := ''exclusive'', wr_ticketId := Some ''ticket-q''\<rparr>"

definition ex_ticket :: work_queue_ticket where
  "ex_ticket = \<lparr>wt_id = ''ticket-q'', wt_taskId = None, wt_attempt = None, wt_pid = 7, wt_pidIsWorkload = None, wt_executor = ExCodex,
     wt_repositoryRoot = Some ''/c'', wt_access = Exclusive, wt_workload = Medium, wt_bundle = None, wt_phase = None,
     wt_enqueuedAt = Iso 5, wt_heartbeatAt = Iso 5\<rparr>"

definition ex_queued :: work_store where
  "ex_queued = writeTicket ex_ticket empty_work_store"

lemma ex_queued_state:
  "co_tickets (readCoordinatorState ex_queued) = [ex_ticket]"
  "\<not> ticketIsStale ex_machine ex_ticket 20"
  by code_simp+

lemma ex_queued_admitted:
  "got_lease (acquireWork ex_machine ex_exclusive ex_snapshot ''3'' 20 ex_queued) (\<lambda>l cap st'. wl_access l = Exclusive)"
  by code_simp

theorem admission_is_fifo_witness:
  "\<exists>m \<in> set (co_tickets (readCoordinatorState ex_queued)). wr_ticketId ex_exclusive = Some (wt_id m) \<and> ticket_key m \<le> ticket_key ex_ticket"
proof -
  obtain l cap st' where x: "acquireWork ex_machine ex_exclusive ex_snapshot ''3'' 20 ex_queued = (Inr (Acquired l cap), st')"
    and l: "wl_access l = Exclusive"
    using ex_queued_admitted by (elim got_leaseE)
  have ok: "store_ok ex_queued"
    using coord_reach_separated [OF coord_start] by (simp add: ex_queued_def store_ok_changes)
  show ?thesis
    by (rule admission_is_fifo [OF ok x _ _ ex_queued_state(2)])
      (simp_all add: l isSubstantive_def ex_queued_state(1) del: co_tickets_read)
qed

section \<open>Degraded state, live claims\<close>

lemma pruneExpired_degraded: "pruneExpired env s now st = (Inr s', st') \<Longrightarrow> co_degradedReasons s' = co_degradedReasons s"
  by (auto simp: pruneExpired_def elim!: co_bindE)

lemma acquired_decision:
  assumes "acquireWork env r sn uuid now st = (Inr (Acquired l cap), st')"
  obtains c s st1 d where "pruneExpired env (readCoordinatorState st) now st = (Inr s, st1)"
    "decideAdmission s sn (request_of r c) now = Inr d" "ad_admit d" "l = new_lease env r c uuid now"
proof (cases "check_request env r")
  case (Inl e)
  with assms show thesis by (simp add: acquireWork_def)
next
  case (Inr c)
  with assms obtain s st1 where p: "pruneExpired env (readCoordinatorState st) now st = (Inr s, st1)"
    and rest: "(case decideAdmission s sn (request_of r c) now of
        Inl e \<Rightarrow> (Inl e, st1)
      | Inr d \<Rightarrow> if ad_admit d then take_lease env r c uuid now (ad_capacity d) st1
                 else take_ticket env r c uuid now d (co_tickets s) st1) = (Inr (Acquired l cap), st')"
    by (auto simp: acquireWork_def request_of_def elim!: co_bindE)
  from rest obtain d where d: "decideAdmission s sn (request_of r c) now = Inr d" by (auto split: sum.splits)
  have "ad_admit d"
  proof (rule ccontr)
    assume "\<not> ad_admit d"
    with rest d have "take_ticket env r c uuid now d (co_tickets s) st1 = (Inr (Acquired l cap), st')" by simp
    then show False by (auto simp: take_ticket_def Let_def elim!: co_bindE split: option.splits)
  qed
  moreover from this rest d have "take_lease env r c uuid now (ad_capacity d) st1 = (Inr (Acquired l cap), st')" by simp
  then have "l = new_lease env r c uuid now" by (auto simp: take_lease_def Let_def elim!: co_bindE)
  ultimately show thesis using that p d by blast
qed

text \<open>
  While any lease or ticket file is malformed or unreadable, no substantive request is admitted;
  only light reads get a lease.
\<close>

theorem degraded_state_admits_no_work:
  assumes "co_degradedReasons (readCoordinatorState st) \<noteq> []"
    and "acquireWork env r sn uuid now st = (Inr (Acquired l cap), st')"
  shows "wl_workload l = Light \<and> wl_access l = Read"
proof -
  obtain c s st1 d where p: "pruneExpired env (readCoordinatorState st) now st = (Inr s, st1)"
    and d: "decideAdmission s sn (request_of r c) now = Inr d" "ad_admit d" and l: "l = new_lease env r c uuid now"
    using acquired_decision [OF assms(2)] .
  have "state_objections s sn (request_of r c) now = []" using decideAdmission_admits [OF d] by blast
  from state_objections_Nil(5) [OF this] pruneExpired_degraded [OF p] assms(1) l show ?thesis
    by (auto simp: request_of_def new_lease_def isSubstantive_def)
qed

definition ex_corrupt :: work_store where
  "ex_corrupt = \<lparr>cw_leases = [(''lease-x.json'', Unreadable)], cw_queue = [], cw_events = []\<rparr>"

definition ex_look :: work_request where
  "ex_look = (ex_work ''/c'')\<lparr>wr_access := ''read'', wr_workload := ''light''\<rparr>"

lemma ex_corrupt_admits_read:
  "got_lease (acquireWork ex_machine ex_look ex_snapshot ''3'' 20 ex_corrupt) (\<lambda>l cap st'. True)"
  by code_simp

theorem degraded_state_admits_no_work_witness:
  "got_lease (acquireWork ex_machine ex_look ex_snapshot ''3'' 20 ex_corrupt) (\<lambda>l cap st'. wl_workload l = Light \<and> wl_access l = Read)"
proof -
  obtain l cap st' where x: "acquireWork ex_machine ex_look ex_snapshot ''3'' 20 ex_corrupt = (Inr (Acquired l cap), st')"
    using ex_corrupt_admits_read by (elim got_leaseE)
  have "co_degradedReasons (readCoordinatorState ex_corrupt) \<noteq> []"
    by (simp add: ex_corrupt_def readCoordinatorState_def bad_files_def map_filter_simps)
  from degraded_state_admits_no_work [OF this x] show ?thesis unfolding x by (simp add: got_lease_def)
qed

text \<open>The operations that may end a claim: a release of it that is forced or comes from the owner with
  the owner's proof, or a new lease under the same identifier.\<close>

fun ends_claim :: "coord_env \<Rightarrow> coord_op \<Rightarrow> work_lease \<Rightarrow> bool" where
  "ends_claim env (OpRelease i opts) l = (i = wl_id l \<and> (rl_force opts \<or>
     (wl_pid l = (case rl_pid opts of Some p \<Rightarrow> p | None \<Rightarrow> ce_pid env) \<and>
      opt_all (\<lambda>h. opt_all (\<lambda>p. ce_sha256 env p = h) (rl_callerProof opts) \<and> rl_callerProof opts \<noteq> None) (wl_callerProofHash l))))"
| "ends_claim env (OpAcquire r sn uuid) l = (wl_id l = ''lease-'' @ uuid)"
| "ends_claim env _ l = False"

lemma alive_not_reclaimable: "ce_alive env (wl_pid l) \<Longrightarrow> \<not> leaseIsReclaimable env l now"
  by (auto simp: leaseIsReclaimable_def split: option.splits)

lemma live_kept:
  assumes "\<forall>x \<in> held st - held st'. leaseIsReclaimable env x now" and "l \<in> held st" and "ce_alive env (wl_pid l)"
  shows "l \<in> held st'"
  using assms alive_not_reclaimable by blast

text \<open>
  C11: The claim of a live process survives every operation of the coordinator except a forced release
  or a release by its owner with the owner's proof: afterwards the lease is still recorded, unchanged
  but for its heartbeat.
\<close>

theorem live_claims_survive:
  assumes reach: "coord_reach st" and l: "l \<in> set (co_leases (readCoordinatorState st))"
    and alive: "ce_alive env (wl_pid l)" and op: "\<not> ends_claim env op l"
  shows "\<exists>h. l\<lparr>wl_heartbeatAt := h\<rparr> \<in> set (co_leases (readCoordinatorState (coord_exec env now op st)))"
proof -
  have ok: "store_ok st" using coord_reach_separated [OF reach] by simp
  have held: "l \<in> held st" using l by (simp add: held_read)
  have same: "l\<lparr>wl_heartbeatAt := wl_heartbeatAt l\<rparr> = l" by simp
  have "\<exists>h. l\<lparr>wl_heartbeatAt := h\<rparr> \<in> held (coord_exec env now op st)"
  proof (cases op)
    case (OpAcquire r sn uuid)
    from ok prod.collapse [symmetric] have "l \<in> held (snd (acquireWork env r sn uuid now st))"
    proof (cases rule: acquireWork_cases [of st env r sn uuid now])
      case no_lease
      then show ?thesis using live_kept [OF _ held alive] by blast
    next
      case (lease c st1 d l')
      have "l \<in> held st1" using pruneExpired_effect [OF ok lease(2)] live_kept [OF _ held alive] by blast
      moreover have "wl_id l \<noteq> wl_id l'" using op OpAcquire lease(7) by (simp add: new_lease_def)
      ultimately show ?thesis using lease(5,8) ldir.recs_write [of "cw_leases st1" l'] by (simp add: store_ok_def)
    qed
    then show ?thesis using OpAcquire same by (metis coord_exec.simps(1))
  next
    case (OpRelease i opts)
    have "l \<in> held (snd (releaseWork env i opts now st))"
    proof (rule ccontr)
      assume "\<not> ?thesis"
      with releaseWork_effect [OF ok prod.collapse [symmetric], of env i opts now] held alive
      have "ends_claim env op l" by (auto simp: OpRelease opt_all_def split: option.splits)
      with op show False by simp
    qed
    then show ?thesis using OpRelease same by (metis coord_exec.simps(2))
  next
    case (OpHeartbeat i)
    from heartbeat_effect [OF ok prod.collapse [symmetric], of i now] consider
        "held (snd (heartbeat i now st)) = held st"
      | k where "k \<in> held st" "wl_id k = i" "held (snd (heartbeat i now st)) = {y \<in> held st. wl_id y \<noteq> i} \<union> {k\<lparr>wl_heartbeatAt := Iso now\<rparr>}"
      by blast
    then show ?thesis
    proof cases
      case 1
      then show ?thesis using OpHeartbeat held same by (metis coord_exec.simps(3))
    next
      case (2 k)
      have "l = k" if "wl_id l = i"
        using ldir.recs_same_ident [of "cw_leases st" l k] ok held 2 that by (simp add: store_ok_def)
      then have "l\<lparr>wl_heartbeatAt := if wl_id l = i then Iso now else wl_heartbeatAt l\<rparr> \<in> held (snd (heartbeat i now st))"
        unfolding 2(3) using held same by simp
      then show ?thesis unfolding OpHeartbeat coord_exec.simps by blast
    qed
  next
    case (OpCancel i)
    with cancelTicket_effect [OF ok prod.collapse [symmetric], of i now] held
    have "l\<lparr>wl_heartbeatAt := wl_heartbeatAt l\<rparr> \<in> held (coord_exec env now op st)" by simp
    then show ?thesis by blast
  next
    case (OpStatus sn)
    have "l \<in> held (snd (workStatus env sn now st))"
      using workStatus_effect [OF ok prod.collapse [symmetric], of env sn now] live_kept [OF _ held alive] by blast
    then show ?thesis using OpStatus same by (metis coord_exec.simps(5))
  qed
  then show ?thesis by (simp add: held_read)
qed

theorem live_claims_survive_witness:
  "\<exists>l h. wl_id l = ''lease-1'' \<and> l\<lparr>wl_heartbeatAt := h\<rparr> \<in> set (co_leases (readCoordinatorState (coord_exec ex_machine 900000 (OpStatus ex_snapshot) ex_two)))"
proof -
  obtain a b where ab: "co_leases (readCoordinatorState ex_two) = [a, b]" and a: "wl_id a = ''lease-1''"
    using ex_two_leases by (auto simp del: co_leases_read)
  have "\<exists>h. a\<lparr>wl_heartbeatAt := h\<rparr> \<in> set (co_leases (readCoordinatorState (coord_exec ex_machine 900000 (OpStatus ex_snapshot) ex_two)))"
    by (rule live_claims_survive [OF ex_two_reach]) (simp_all add: ab ex_machine_def del: co_leases_read)
  with a show ?thesis by blast
qed

section \<open>The event log\<close>

definition log_ok :: "work_store \<Rightarrow> bool" where
  "log_ok st = (length (cw_events st) \<le> HISTORY_LIMIT \<and> cw_events st = map EventLine (storedWorkEvents st) \<and>
     sorted_wrt (<) (map ev_cursor (storedWorkEvents st)))"

lemma js_trim_idem [simp]: "js_trim (js_trim s) = js_trim s"
proof -
  define t where "t = dropWhile is_space s"
  define u where "u = dropWhile is_space (rev t)"
  have "dropWhile is_space (rev u) = rev u"
  proof (cases "rev u")
    case (Cons a as)
    obtain v where "rev t = v @ u" unfolding u_def by (metis takeWhile_dropWhile_id)
    then have "t = rev u @ rev v" by (metis rev_append rev_rev_ident)
    then have "t \<noteq> []" "hd t = a" using Cons by simp_all
    then have "\<not> is_space a" unfolding t_def using hd_dropWhile by metis
    then show ?thesis using Cons by simp
  qed simp
  moreover have "dropWhile is_space u = u" by (simp add: u_def)
  ultimately show ?thesis by (simp add: js_trim_def t_def [symmetric] u_def [symmetric])
qed

lemma sanitizeLabel_idem: "sanitizeLabel v = Inr w \<Longrightarrow> sanitizeLabel w = Inr w"
  by (auto simp: sanitizeLabel_def Let_def split: option.splits if_splits)

lemma safeEvent_idem:
  "safeEventId v = Some w \<Longrightarrow> safeEventId w = Some w"
  "safeEventReason v = Some w \<Longrightarrow> safeEventReason w = Some w"
  by (auto simp: safeEventId_def safeEventReason_def split: option.splits if_splits)

lemma validWorkEvent_cursor: "validWorkEvent e = Some e' \<Longrightarrow> ev_cursor e' = ev_cursor e"
  by (auto simp: validWorkEvent_def split: if_splits option.splits sum.splits)

lemma validWorkEvent_idem: "validWorkEvent e = Some e' \<Longrightarrow> validWorkEvent e' = Some e'"
proof -
  assume v: "validWorkEvent e = Some e'"
  define ph where "ph = (case ev_phase e of None \<Rightarrow> Inr None | Some None \<Rightarrow> Inr (Some None)
      | Some (Some p) \<Rightarrow> (case sanitizeLabel (Some p) of Inl x \<Rightarrow> Inl x | Inr q \<Rightarrow> Inr (Some q)))"
  obtain i r p where i: "safeEventId (ev_id e) = Some i" and r: "safeEventReason (ev_reason e) = Some r" and p: "ph = Inr p"
    and b: "validateTaskBinding (ev_taskId e) (ev_attempt e) = Inr ()" and c: "0 < ev_cursor e" "date_parse (ev_at e) \<noteq> None"
    and e': "e' = e\<lparr>ev_id := i, ev_phase := p, ev_reason := r,
       ev_observedUncoordinatedHeavy := nonneg_or_drop (ev_observedUncoordinatedHeavy e), ev_dexServices := nonneg_or_drop (ev_dexServices e)\<rparr>"
    using v unfolding validWorkEvent_def ph_def [symmetric] by (auto split: if_splits option.splits sum.splits)
  have phase: "(case p of None \<Rightarrow> Inr None | Some None \<Rightarrow> Inr (Some None)
      | Some (Some q) \<Rightarrow> (case sanitizeLabel (Some q) of Inl x \<Rightarrow> Inl x | Inr q \<Rightarrow> Inr (Some q))) = Inr p"
    using p sanitizeLabel_idem unfolding ph_def by (auto split: option.splits sum.splits)
  have drop: "nonneg_or_drop (nonneg_or_drop n) = nonneg_or_drop n" for n
    by (auto simp: nonneg_or_drop_def split: option.splits if_splits)
  show ?thesis
    unfolding e' validWorkEvent_def using safeEvent_idem(1) [OF i] safeEvent_idem(2) [OF r] phase b c
    by (auto simp: drop split: option.splits sum.splits)
qed

lemma storedWorkEvents_map:
  assumes "cw_events st = map EventLine es" and "list_all (\<lambda>e. validWorkEvent e = Some e) es" and "sorted (map ev_cursor es)"
  shows "storedWorkEvents st = es"
proof -
  have "List.map_filter (\<lambda>l. case l of EventLine e \<Rightarrow> validWorkEvent e | JunkLine \<Rightarrow> None) (map EventLine es) = es"
    using assms(2) by (induction es) (simp_all add: map_filter_simps)
  then show ?thesis using assms(1,3) by (simp add: storedWorkEvents_def sort_key_id_if_sorted)
qed

lemma storedWorkEvents_valid: "list_all (\<lambda>e. validWorkEvent e = Some e) (storedWorkEvents st)"
  by (auto simp: storedWorkEvents_def list_all_iff map_filter_def validWorkEvent_idem split: event_line.splits)

lemma last_cursor_ge: "sorted (map ev_cursor es) \<Longrightarrow> e \<in> set es \<Longrightarrow> ev_cursor e \<le> last_cursor es"
  by (induction es rule: rev_induct) (auto simp: last_cursor_def sorted_append)

lemma sorted_wrt_less_take_last: "sorted_wrt (<) (map f xs) \<Longrightarrow> sorted_wrt (<) (map f (take_last n xs))"
  using sorted_wrt_take_last [of "(<)" "map f xs" n] by (simp add: take_last_def drop_map)

lemma record_log_ok: "log_ok st \<Longrightarrow> recordWorkEvent e now st = (r, st') \<Longrightarrow> log_ok st'"
proof (cases r)
  case (Inr cand)
  assume ok: "log_ok st" and run: "recordWorkEvent e now st = (r, st')"
  let ?cur = "storedWorkEvents st"
  have v: "validWorkEvent (e\<lparr>ev_cursor := last_cursor ?cur + 1, ev_at := Iso now\<rparr>) = Some cand"
    and st': "cw_events st' = map EventLine (take_last HISTORY_LIMIT (?cur @ [cand]))"
    using run Inr by (auto simp: recordWorkEvent_def Let_def split: option.splits)
  have cur: "sorted_wrt (<) (map ev_cursor ?cur)" using ok by (simp add: log_ok_def)
  then have "sorted (map ev_cursor ?cur)" by (simp add: strict_sorted_imp_sorted)
  then have "sorted_wrt (<) (map ev_cursor (?cur @ [cand]))"
    using cur last_cursor_ge [of ?cur] validWorkEvent_cursor [OF v] by (force simp: sorted_wrt_append)
  then have srt: "sorted_wrt (<) (map ev_cursor (take_last HISTORY_LIMIT (?cur @ [cand])))" by (rule sorted_wrt_less_take_last)
  have "list_all (\<lambda>e. validWorkEvent e = Some e) (take_last HISTORY_LIMIT (?cur @ [cand]))"
    using storedWorkEvents_valid [of st] validWorkEvent_idem [OF v] set_take_last [of HISTORY_LIMIT "?cur @ [cand]"]
    by (auto simp: list_all_iff)
  from storedWorkEvents_map [OF st' this strict_sorted_imp_sorted [OF srt]] st' srt show ?thesis
    by (simp add: log_ok_def)
next
  case (Inl x)
  assume "log_ok st" and "recordWorkEvent e now st = (r, st')"
  with Inl show ?thesis by (auto simp: recordWorkEvent_def Let_def split: option.splits)
qed

text \<open>An effect that keeps the log in order, and how sequencing preserves that.\<close>

definition keeps_log :: "(work_store \<Rightarrow> ('e + 'a) \<times> work_store) \<Rightarrow> bool" where
  "keeps_log m = (\<forall>st. log_ok st \<longrightarrow> log_ok (snd (m st)))"

lemma keeps_log_record [reach_keeps]: "keeps_log (recordWorkEvent e now)"
  by (simp add: keeps_log_def record_log_ok [OF _ prod.collapse [symmetric]])

lemma keeps_log_bind [reach_keeps]: "keeps_log m \<Longrightarrow> (\<And>x. keeps_log (f x)) \<Longrightarrow> keeps_log (co_bind m f)"
  by (auto simp: keeps_log_def co_bind_def split: prod.splits sum.splits)

lemma keeps_log_return [reach_keeps]: "keeps_log (\<lambda>st. (r, st))"
  by (simp add: keeps_log_def)

lemma keeps_log_if [reach_keeps]: "keeps_log m \<Longrightarrow> keeps_log n \<Longrightarrow> keeps_log (\<lambda>st. if b then m st else n st)"
  by (cases b) simp_all

lemma log_ok_files [simp]:
  "log_ok (writeLease l st) = log_ok st" "log_ok (writeTicket t st) = log_ok st"
  "log_ok (removeLeaseFile i st) = log_ok st" "log_ok (removeTicketFile i st) = log_ok st"
  by (simp_all add: log_ok_def storedWorkEvents_def writeLease_def writeTicket_def removeLeaseFile_def removeTicketFile_def)

lemma keeps_logD: "keeps_log m \<Longrightarrow> log_ok st \<Longrightarrow> log_ok (snd (m st))"
  by (simp add: keeps_log_def)

lemma keeps_log_after:
  "keeps_log m \<Longrightarrow> keeps_log (\<lambda>st. m (writeLease l st))" "keeps_log m \<Longrightarrow> keeps_log (\<lambda>st. m (writeTicket t st))"
  "keeps_log m \<Longrightarrow> keeps_log (\<lambda>st. m (removeLeaseFile i st))" "keeps_log m \<Longrightarrow> keeps_log (\<lambda>st. m (removeTicketFile i st))"
  by (simp_all add: keeps_log_def)

lemma prune_leases_log: "keeps_log (prune_leases env now ls)"
proof (induction ls)
  case (Cons l ls)
  then have "keeps_log (\<lambda>st. prune_leases env now (l # ls) st)"
    unfolding prune_leases.simps by (intro reach_keeps keeps_log_after)
  then show ?case by simp
qed (simp add: keeps_log_def)

lemma prune_tickets_log: "keeps_log (prune_tickets env now ts)"
proof (induction ts)
  case (Cons t ts)
  then have "keeps_log (\<lambda>st. prune_tickets env now (t # ts) st)"
    unfolding prune_tickets.simps by (intro reach_keeps keeps_log_after)
  then show ?case by simp
qed (simp add: keeps_log_def)

lemma pruneExpired_log: "keeps_log (pruneExpired env s now)"
  unfolding pruneExpired_def by (intro reach_keeps prune_leases_log prune_tickets_log)

lemma record_then_return_log: "log_ok st \<Longrightarrow> log_ok (snd (co_bind (recordWorkEvent e now) (\<lambda>_ st'. (Inr x, st')) st))"
  by (intro keeps_logD reach_keeps)

lemma take_lease_log: "keeps_log (take_lease env r c uuid now cap)"
proof -
  have "log_ok (snd (take_lease env r c uuid now cap st))" if "log_ok st" for st
    using that unfolding take_lease_def Let_def by (intro record_then_return_log) (simp split: option.split)
  then show ?thesis by (simp add: keeps_log_def)
qed

lemma take_ticket_log: "keeps_log (take_ticket env r c uuid now d ts)"
proof -
  have "log_ok (snd (take_ticket env r c uuid now d ts st))" if "log_ok st" for st
    using that unfolding take_ticket_def Let_def by (auto simp: record_then_return_log split: option.split)
  then show ?thesis by (simp add: keeps_log_def)
qed

lemma coord_exec_log:
  assumes "log_ok st"
  shows "log_ok (coord_exec env now op st)"
proof (cases op)
  case (OpAcquire r sn uuid)
  have "keeps_log (\<lambda>st1. case decideAdmission s sn q now of Inl e \<Rightarrow> (Inl e, st1)
      | Inr d \<Rightarrow> if ad_admit d then take_lease env r c uuid now (ad_capacity d) st1 else take_ticket env r c uuid now d (co_tickets s) st1)" for s q c
    by (cases "decideAdmission s sn q now") (simp_all add: keeps_log_return keeps_log_if take_lease_log take_ticket_log)
  then have "keeps_log (co_bind (pruneExpired env (readCoordinatorState st) now) (\<lambda>s st1.
      case decideAdmission s sn (q s) now of Inl e \<Rightarrow> (Inl e, st1)
      | Inr d \<Rightarrow> if ad_admit d then take_lease env r c uuid now (ad_capacity d) st1 else take_ticket env r c uuid now d (co_tickets s) st1))" for q c
    by (intro keeps_log_bind pruneExpired_log)
  from keeps_logD [OF this assms] show ?thesis
    by (simp add: OpAcquire acquireWork_def assms split: sum.split)
next
  case (OpRelease i opts)
  then show ?thesis
    using assms by (simp add: releaseWork_def Let_def record_then_return_log split: option.split)
next
  case (OpHeartbeat i)
  then show ?thesis
    using assms by (simp add: heartbeat_def Let_def record_then_return_log split: option.split)
next
  case (OpCancel i)
  then show ?thesis
    using assms by (simp add: cancelTicket_def record_then_return_log split: option.split)
next
  case (OpStatus sn)
  have "snd (workStatus env sn now st) = snd (pruneExpired env (readCoordinatorState st) now st)"
    by (auto simp: workStatus_def co_bind_def split: prod.splits sum.splits)
  with keeps_logD [OF pruneExpired_log assms] show ?thesis by (simp add: OpStatus)
qed

text \<open>
  In every reachable state the event log holds at most two hundred events, every line of it is
  a valid event, and the cursors are strictly increasing, so a reader that resumes after a cursor
  neither repeats nor reorders events.
\<close>

theorem event_log_bounded_and_ordered:
  assumes "coord_reach st"
  shows "length (cw_events st) \<le> 200 \<and> cw_events st = map EventLine (storedWorkEvents st) \<and>
    sorted_wrt (<) (map ev_cursor (storedWorkEvents st))"
proof -
  have "log_ok st" using assms
  proof (induction rule: coord_reach.induct)
    case coord_start
    show ?case by (simp add: log_ok_def empty_work_store_def storedWorkEvents_def map_filter_simps)
  qed (rule coord_exec_log)
  then show ?thesis unfolding log_ok_def HISTORY_LIMIT_def .
qed

theorem event_log_bounded_and_ordered_witness:
  "length (cw_events ex_two) \<le> 200 \<and> cw_events ex_two = map EventLine (storedWorkEvents ex_two) \<and>
    sorted_wrt (<) (map ev_cursor (storedWorkEvents ex_two))"
  by (rule event_log_bounded_and_ordered [OF ex_two_reach])

text \<open>
  A lease or ticket written to its file reads back unchanged exactly when its id is not empty,
  its process id positive and its task binding, proof digest and bundle are well formed; any other
  record reads as malformed.
\<close>

theorem coordinator_records_read_back:
  "validLease (encodeLease l) =
     (if wl_id l \<noteq> [] \<and> 0 < wl_pid l \<and> opt_all TASK_ID_PATTERN (wl_taskId l) \<and> opt_all (\<lambda>n. 1 \<le> n \<and> n \<le> 100) (wl_attempt l) \<and>
         opt_all (hex_run 64 64) (wl_callerProofHash l) \<and> opt_all isWorkBundle (wl_bundle l) then Some l else None) \<and>
   validTicket (encodeTicket t) =
     (if wt_id t \<noteq> [] \<and> 0 < wt_pid t \<and> opt_all TASK_ID_PATTERN (wt_taskId t) \<and> opt_all (\<lambda>n. 1 \<le> n \<and> n \<le> 100) (wt_attempt t) \<and>
         opt_all isWorkBundle (wt_bundle t) then Some t else None)"
  unfolding validLease_encode validTicket_encode lease_wf_def ticket_wf_def binding_wf_def by simp

end
