(* ===== verification/Reach_Durable.thy ===== *)
theory Reach_Durable
  imports Reach_Operations
begin

text \<open>
  Decisions about durable work: the safety class of an operation, the class of a failure, retries,
  duplicates and reconciliation (\<open>src/src/shared/durable-execution.ts\<close>), the exit status of a child
  process (\<open>process-outcome.ts\<close>), stalls and boot recovery (\<open>task-recovery.ts\<close>) and the deadlines a
  request carries (\<open>request-deadlines.ts\<close>). All of it is pure. The digest of a JSON value is the
  parameter \<open>hash\<close>; a thrown value is its class and message.
\<close>

section \<open>Classes\<close>

datatype failure_class =
    TRANSIENT_TRANSPORT | TRANSIENT_RESOURCE | DEPENDENCY_WAIT | FC_INPUT_REQUIRED
  | AUTHORITY_REFUSAL | POLICY_CHANGED | TARGET_CHANGED | INVALID_INPUT
  | EXECUTION_FAILED | DEADLINE_EXCEEDED | AMBIGUOUS_EFFECT | USER_CANCELLED
  | SYSTEM_CANCELLED | CORRUPT_STATE

datatype safety_class = PURE_READ_IDEMPOTENT | SIDE_EFFECTING_IDEMPOTENT | PLAN_COMMIT | PROCESS_UNKNOWN_EFFECT | DESTRUCTIVE

datatype task_state =
    ACCEPTED | PREPARING | RUNNING | INPUT_REQUIRED | AMBIGUOUS | COMPLETED | FAILED | CANCELLED | RECONCILED

definition TASK_STATES :: "task_state list" where
  "TASK_STATES = [ACCEPTED, PREPARING, RUNNING, INPUT_REQUIRED, AMBIGUOUS, COMPLETED, FAILED, CANCELLED, RECONCILED]"

definition TERMINAL_TASK_STATES :: "task_state list" where
  "TERMINAL_TASK_STATES = [COMPLETED, FAILED, CANCELLED, RECONCILED]"

fun failure_string :: "failure_class \<Rightarrow> string" where
  "failure_string TRANSIENT_TRANSPORT = ''TRANSIENT_TRANSPORT''"
| "failure_string TRANSIENT_RESOURCE = ''TRANSIENT_RESOURCE''"
| "failure_string DEPENDENCY_WAIT = ''DEPENDENCY_WAIT''"
| "failure_string FC_INPUT_REQUIRED = ''INPUT_REQUIRED''"
| "failure_string AUTHORITY_REFUSAL = ''AUTHORITY_REFUSAL''"
| "failure_string POLICY_CHANGED = ''POLICY_CHANGED''"
| "failure_string TARGET_CHANGED = ''TARGET_CHANGED''"
| "failure_string INVALID_INPUT = ''INVALID_INPUT''"
| "failure_string EXECUTION_FAILED = ''EXECUTION_FAILED''"
| "failure_string DEADLINE_EXCEEDED = ''DEADLINE_EXCEEDED''"
| "failure_string AMBIGUOUS_EFFECT = ''AMBIGUOUS_EFFECT''"
| "failure_string USER_CANCELLED = ''USER_CANCELLED''"
| "failure_string SYSTEM_CANCELLED = ''SYSTEM_CANCELLED''"
| "failure_string CORRUPT_STATE = ''CORRUPT_STATE''"

definition FAILURE_CLASSES :: "failure_class list" where
  "FAILURE_CLASSES = [TRANSIENT_TRANSPORT, TRANSIENT_RESOURCE, DEPENDENCY_WAIT, FC_INPUT_REQUIRED, AUTHORITY_REFUSAL, POLICY_CHANGED,
     TARGET_CHANGED, INVALID_INPUT, EXECUTION_FAILED, DEADLINE_EXCEEDED, AMBIGUOUS_EFFECT, USER_CANCELLED, SYSTEM_CANCELLED, CORRUPT_STATE]"

fun safety_string :: "safety_class \<Rightarrow> string" where
  "safety_string PURE_READ_IDEMPOTENT = ''PURE_READ_IDEMPOTENT''"
| "safety_string SIDE_EFFECTING_IDEMPOTENT = ''SIDE_EFFECTING_IDEMPOTENT''"
| "safety_string PLAN_COMMIT = ''PLAN_COMMIT''"
| "safety_string PROCESS_UNKNOWN_EFFECT = ''PROCESS_UNKNOWN_EFFECT''"
| "safety_string DESTRUCTIVE = ''DESTRUCTIVE''"

definition SAFETY_CLASSES :: "safety_class list" where
  "SAFETY_CLASSES = [PURE_READ_IDEMPOTENT, SIDE_EFFECTING_IDEMPOTENT, PLAN_COMMIT, PROCESS_UNKNOWN_EFFECT, DESTRUCTIVE]"

definition classifyOperationSafety :: "string \<Rightarrow> safety_class" where
  "classifyOperationSafety operation =
     (if operation \<in> set [''dex.fingerprint'', ''dex.trustReport'', ''dex.repoInfo'', ''dex.adbDevices'', ''dex.file.read'', ''dex.result.read'', ''dex.receipts.list'']
        then PURE_READ_IDEMPOTENT
      else if operation = ''dex.commitPlan'' then PLAN_COMMIT
      else if operation = ''dex.process.run'' \<or> operation = ''dc.call'' then PROCESS_UNKNOWN_EFFECT
      else if operation = ''dex.file.write'' \<or> operation = ''dex.checkpoint'' then SIDE_EFFECTING_IDEMPOTENT
      else DESTRUCTIVE)"

definition defaultAttemptBudget :: "safety_class \<Rightarrow> int" where
  "defaultAttemptBudget safety = (if safety = PURE_READ_IDEMPOTENT then 3 else if safety = SIDE_EFFECTING_IDEMPOTENT then 2 else 1)"

section \<open>Idempotency keys\<close>

record key_request =
  kr_actorId :: string
  kr_nodeId :: string
  kr_operation :: string
  kr_args :: json
  kr_requestedKey :: "string option"
  kr_requestId :: "string option"

definition deriveIdempotencyKey :: "(json \<Rightarrow> string) \<Rightarrow> key_request \<Rightarrow> string \<times> string" where
  "deriveIdempotencyKey hash r =
     (let payloadHash = hash (JObj [(''operation'', JStr (kr_operation r)), (''args'', kr_args r)]);
          plan = (if kr_operation r = ''dex.commitPlan'' then str_field (kr_args r) ''planId'' else None);
          stableIdentity = (case kr_requestedKey r of
              Some k \<Rightarrow> JStr k
            | None \<Rightarrow> (case plan of Some p \<Rightarrow> JStr (''plan:'' @ p) | None \<Rightarrow> json_opt JStr (kr_requestId r)));
          bound = (if given (kr_requestedKey r) \<noteq> None \<or> plan \<noteq> None then JNull else JStr payloadHash)
      in (''idem_'' @ hash (JObj [(''actorId'', JStr (kr_actorId r)), (''nodeId'', JStr (kr_nodeId r)), (''operation'', JStr (kr_operation r)),
            (''payloadHash'', bound), (''identity'', stableIdentity)]), payloadHash))"

section \<open>Failures\<close>

text \<open>A thrown value: a signal termination, or any other error with its message.\<close>

datatype thrown = ProcessSignalTermination string | ThrownMessage string

fun thrown_message :: "thrown \<Rightarrow> string" where
  "thrown_message (ProcessSignalTermination m) = m"
| "thrown_message (ThrownMessage m) = m"

record failure_input =
  fi_error :: "thrown option"
  fi_safety :: safety_class
  fi_transportTimedOut :: bool
  fi_executionTimedOut :: bool
  fi_policyRefused :: bool
  fi_targetChanged :: bool
  fi_corruptState :: bool

definition mentions :: "string \<Rightarrow> string list \<Rightarrow> bool" where
  "mentions s ws = list_ex (str_includes s) ws"

definition classifyFailure :: "failure_input \<Rightarrow> failure_class" where
  "classifyFailure input =
     (let pure = (fi_safety input = PURE_READ_IDEMPOTENT);
          message = (case fi_error input of None \<Rightarrow> [] | Some e \<Rightarrow> to_lower (thrown_message e))
      in if fi_corruptState input then CORRUPT_STATE
         else if fi_policyRefused input then AUTHORITY_REFUSAL
         else if fi_targetChanged input then TARGET_CHANGED
         else if (case fi_error input of Some (ProcessSignalTermination _) \<Rightarrow> True | _ \<Rightarrow> False) then AMBIGUOUS_EFFECT
         else if fi_transportTimedOut input then (if pure then TRANSIENT_TRANSPORT else AMBIGUOUS_EFFECT)
         else if fi_executionTimedOut input then (if pure then DEADLINE_EXCEEDED else AMBIGUOUS_EFFECT)
         else if mentions message [''cancel'', ''sigint'', ''sigterm''] then SYSTEM_CANCELLED
         else if mentions message [''invalid'', ''malformed'', ''requires'', ''must be'', ''unknown operation''] then INVALID_INPUT
         else if mentions message [''policy'', ''owner'', ''read-only'', ''disabled'', ''refused'', ''grant''] then AUTHORITY_REFUSAL
         else if mentions message [''deadline'', ''timed out'', ''timeout''] then (if pure then DEADLINE_EXCEEDED else AMBIGUOUS_EFFECT)
         else EXECUTION_FAILED)"

definition plain_failure :: "thrown \<Rightarrow> safety_class \<Rightarrow> failure_input" where
  "plain_failure e safety = \<lparr>fi_error = Some e, fi_safety = safety, fi_transportTimedOut = False, fi_executionTimedOut = False,
     fi_policyRefused = False, fi_targetChanged = False, fi_corruptState = False\<rparr>"

text \<open>The pattern that starts with COORDINATOR\_WAIT\_TIMEOUT and a word boundary.\<close>

definition is_wait_timeout :: "string \<Rightarrow> bool" where
  "is_wait_timeout m = (starts_with m ''COORDINATOR_WAIT_TIMEOUT'' \<and>
     (case drop 24 m of [] \<Rightarrow> True | c # _ \<Rightarrow> \<not> (is_alnum c \<or> c = CHR ''_'')))"

definition unstartedFailureOutcome :: "thrown \<Rightarrow> task_state option \<Rightarrow> bool \<Rightarrow> (failure_class \<times> task_state) option" where
  "unstartedFailureOutcome err persistedState executionStarted =
     (if executionStarted \<or> (persistedState \<noteq> Some ACCEPTED \<and> persistedState \<noteq> Some PREPARING) then None
      else (let f0 = classifyFailure (plain_failure err PURE_READ_IDEMPOTENT);
                f1 = (if is_wait_timeout (thrown_message err) then TRANSIENT_RESOURCE else f0);
                f2 = (if f1 = AMBIGUOUS_EFFECT then EXECUTION_FAILED else f1)
            in Some (f2, if persistedState = Some PREPARING then FAILED else CANCELLED)))"

definition retryAllowed :: "safety_class \<Rightarrow> failure_class \<Rightarrow> bool" where
  "retryAllowed safety failure =
     (if failure \<in> set [AUTHORITY_REFUSAL, POLICY_CHANGED, TARGET_CHANGED, INVALID_INPUT, FC_INPUT_REQUIRED, AMBIGUOUS_EFFECT, CORRUPT_STATE,
           USER_CANCELLED, SYSTEM_CANCELLED] then False
      else if safety = PLAN_COMMIT \<or> safety = PROCESS_UNKNOWN_EFFECT \<or> safety = DESTRUCTIVE then False
      else safety = PURE_READ_IDEMPOTENT \<or> safety = SIDE_EFFECTING_IDEMPOTENT)"

definition retryDelayMs :: "rat \<Rightarrow> failure_class \<Rightarrow> rat \<Rightarrow> int option" where
  "retryDelayMs attemptNumber failure random =
     (if \<not> is_integer attemptNumber \<or> attemptNumber < 1 \<or> \<not> retryAllowed PURE_READ_IDEMPOTENT failure then None
      else (let jitter = max 0 (min 1 random)
            in Some (min 30000 (250 * 2 ^ nat (min (\<lfloor>attemptNumber\<rfloor> - 1) 7) + \<lfloor>100 * jitter\<rfloor>))))"

section \<open>Duplicates and reconciliation\<close>

record existing_task_binding =
  eb_taskId :: string
  eb_actorId :: string
  eb_nodeId :: string
  eb_operation :: string
  eb_state :: task_state
  eb_payloadSha256 :: string
  eb_policyHash :: "string option"
  eb_resultRef :: "string option"
  eb_resultHash :: "string option"

datatype existing_task_decision =
    NEW_TASK | RETURN_RESULT existing_task_binding | REFUSE_CORRUPT existing_task_binding | REFUSE_AMBIGUOUS existing_task_binding
  | REFUSE_TERMINAL existing_task_binding | REFUSE_IN_FLIGHT existing_task_binding | COLLISION existing_task_binding

definition decideExistingTask ::
  "existing_task_binding option \<Rightarrow> string \<Rightarrow> string \<Rightarrow> string \<Rightarrow> string \<Rightarrow> string \<Rightarrow> existing_task_decision" where
  "decideExistingTask existing actorId nodeId operation payloadSha256 policyHash = (case existing of
      None \<Rightarrow> NEW_TASK
    | Some t \<Rightarrow>
        if eb_actorId t \<noteq> actorId \<or> eb_nodeId t \<noteq> nodeId \<or> eb_operation t \<noteq> operation \<or> eb_payloadSha256 t \<noteq> payloadSha256
           \<or> (case given (eb_policyHash t) of Some h \<Rightarrow> h \<noteq> policyHash | None \<Rightarrow> False) then COLLISION t
        else if eb_state t = COMPLETED then
          (if given (eb_resultRef t) = None \<or> given (eb_resultHash t) = None then REFUSE_CORRUPT t else RETURN_RESULT t)
        else if eb_state t = AMBIGUOUS then REFUSE_AMBIGUOUS t
        else if eb_state t = FAILED \<or> eb_state t = CANCELLED then REFUSE_TERMINAL t
        else REFUSE_IN_FLIGHT t)"

record reconciliation_evidence =
  re_processAlive :: bool
  re_activitySeen :: bool
  re_receiptVerified :: bool
  re_resultAvailable :: bool
  re_externalJobId :: "string option"
  re_policyStillAllows :: "bool option"

datatype reconciliation_decision = REATTACH | MONITOR_ORPHAN | FINISH_FROM_DURABLE_EVIDENCE | RETRY_SAFE | RD_INPUT_REQUIRED | RD_AMBIGUOUS | DEGRADED

definition reconcile :: "reconciliation_evidence \<Rightarrow> safety_class \<Rightarrow> reconciliation_decision" where
  "reconcile e safety =
     (if re_receiptVerified e \<or> re_resultAvailable e then FINISH_FROM_DURABLE_EVIDENCE
      else if re_processAlive e \<or> re_activitySeen e then MONITOR_ORPHAN
      else if given (re_externalJobId e) \<noteq> None then REATTACH
      else if re_policyStillAllows e = Some False then RD_INPUT_REQUIRED
      else if safety = PURE_READ_IDEMPOTENT \<and> given (re_externalJobId e) = None then RETRY_SAFE else RD_AMBIGUOUS)"

section \<open>Exit status of a process\<close>

definition isProcessOperation :: "string \<Rightarrow> bool" where
  "isProcessOperation operation = (operation \<in> set [''dex.process.run''])"

definition MAX_PROCESS_EXIT_STATUS :: int where
  "MAX_PROCESS_EXIT_STATUS = 255"

datatype process_error = ProcessMalformed | ProcessNoStatus | ProcessNoOutput | ProcessExit int json

text \<open>A member that is a string, a timestamp string included.\<close>

definition json_text_field :: "json \<Rightarrow> string \<Rightarrow> bool" where
  "json_text_field v k = (field json_stamp v k \<noteq> None)"

definition processExitCode :: "string \<Rightarrow> json \<Rightarrow> process_error + int option" where
  "processExitCode operation v =
     (if \<not> isProcessOperation operation then Inr None
      else if \<not> is_object v \<or> is_array v then Inl ProcessMalformed
      else (case int_field v ''exitCode'' of
          None \<Rightarrow> Inl ProcessNoStatus
        | Some code \<Rightarrow>
            if code < 0 \<or> code > MAX_PROCESS_EXIT_STATUS then Inl ProcessNoStatus
            else if \<not> (json_text_field v ''stdout'' \<and> json_text_field v ''stderr'') then Inl ProcessNoOutput
            else Inr (Some code)))"

definition assertProcessSucceeded :: "string \<Rightarrow> json \<Rightarrow> process_error + unit" where
  "assertProcessSucceeded operation v = (case processExitCode operation v of
      Inl e \<Rightarrow> Inl e
    | Inr None \<Rightarrow> Inr ()
    | Inr (Some code) \<Rightarrow> if code \<noteq> 0 then Inl (ProcessExit code v) else Inr ())"

section \<open>Stalls and boot recovery\<close>

datatype stall_class = QuietButAlive | WaitingExternal | CpuActive | TransportLost | ProcessGone | NoProgress

record stall_signals =
  sl_now :: int
  sl_taskHeartbeatAt :: "timestamp option"
  sl_stateTransitionAt :: "timestamp option"
  sl_processAlive :: bool
  sl_transportConnected :: bool
  sl_waitingExternal :: bool
  sl_cpuActive :: bool
  sl_lastActivityAt :: "timestamp option"
  sl_lastStdoutAt :: "timestamp option"
  sl_lastResourceAt :: "timestamp option"
  sl_quietAfterMs :: "int option"
  sl_noProgressAfterMs :: "int option"

text \<open>Ages; \<open>None\<close> is positive infinity.\<close>

definition ageMs :: "timestamp option \<Rightarrow> int \<Rightarrow> int option" where
  "ageMs v now = (case v of None \<Rightarrow> None | Some t \<Rightarrow> (case date_parse t of None \<Rightarrow> None | Some p \<Rightarrow> Some (max 0 (now - p))))"

definition age_within :: "int option \<Rightarrow> int \<Rightarrow> bool" where
  "age_within a limit = (case a of None \<Rightarrow> False | Some n \<Rightarrow> n \<le> limit)"

definition classifyStall :: "stall_signals \<Rightarrow> stall_class" where
  "classifyStall i =
     (let now = sl_now i;
          quiet = (case sl_quietAfterMs i of None \<Rightarrow> 90000 | Some n \<Rightarrow> n);
          lastSignal = list_ex (\<lambda>v. age_within (ageMs v now) quiet)
            [sl_taskHeartbeatAt i, sl_stateTransitionAt i, sl_lastActivityAt i, sl_lastStdoutAt i, sl_lastResourceAt i]
      in if \<not> sl_processAlive i then ProcessGone
         else if \<not> sl_transportConnected i then TransportLost
         else if sl_waitingExternal i then WaitingExternal
         else if sl_cpuActive i then CpuActive
         else if lastSignal then QuietButAlive
         else if \<not> age_within (ageMs (sl_taskHeartbeatAt i) now) (case sl_noProgressAfterMs i of None \<Rightarrow> 180000 | Some n \<Rightarrow> n) then NoProgress
         else QuietButAlive)"

record boot_recovery_evidence =
  br_state :: task_state
  br_safetyClass :: string
  br_hasDurableResult :: bool
  br_hasMatchingLiveActivity :: bool
  br_hasMatchingLease :: bool
  br_hasMatchingQueueTicket :: bool
  br_processAlive :: bool
  br_transportConnected :: bool
  br_contradictoryEvidence :: bool

definition decideBootRecovery :: "boot_recovery_evidence \<Rightarrow> reconciliation_decision" where
  "decideBootRecovery e =
     (let leased = (br_hasMatchingLease e \<and> br_processAlive e \<and> br_transportConnected e \<and>
            (br_hasMatchingLiveActivity e \<or> br_safetyClass e \<noteq> ''PROCESS_UNKNOWN_EFFECT''))
      in if br_contradictoryEvidence e then DEGRADED
         else if br_hasDurableResult e then FINISH_FROM_DURABLE_EVIDENCE
         else if br_state e = RUNNING \<and> leased then MONITOR_ORPHAN
         else if leased then REATTACH
         else if br_hasMatchingQueueTicket e \<and> br_transportConnected e \<and> (br_state e = ACCEPTED \<or> br_state e = PREPARING) then REATTACH
         else if br_state e = ACCEPTED \<or> br_state e = PREPARING then RETRY_SAFE
         else if br_state e = RUNNING \<and> br_safetyClass e = ''PURE_READ_IDEMPOTENT'' \<and> \<not> br_hasMatchingLiveActivity e \<and> \<not> br_hasMatchingLease e then RETRY_SAFE
         else if br_state e = RUNNING \<and> (\<not> br_processAlive e \<or> \<not> br_transportConnected e) then RD_AMBIGUOUS
         else RD_INPUT_REQUIRED)"

section \<open>Deadlines\<close>

definition MAX_GATEWAY_RESPONSE_MS :: int where
  "MAX_GATEWAY_RESPONSE_MS = 300000"

definition MAX_ADMISSION_MS :: int where
  "MAX_ADMISSION_MS = 30000"

definition is_safe_integer :: "rat \<Rightarrow> bool" where
  "is_safe_integer r = (is_integer r \<and> \<bar>r\<bar> \<le> 2 ^ 53 - 1)"

definition boundedGatewayMs :: "rat \<Rightarrow> int option" where
  "boundedGatewayMs input = (if \<not> is_safe_integer input \<or> input < 2 \<or> input > of_int MAX_GATEWAY_RESPONSE_MS then None else Some \<lfloor>input\<rfloor>)"

definition admissionBudgetMs :: "rat \<Rightarrow> int option" where
  "admissionBudgetMs transportMs = map_option (\<lambda>b. min MAX_ADMISSION_MS \<lfloor>(of_int b :: rat) / 2\<rfloor>) (boundedGatewayMs transportMs)"

definition boundedAdmissionMs :: "json option \<Rightarrow> int option" where
  "boundedAdmissionMs input = (case input of
      None \<Rightarrow> Some MAX_ADMISSION_MS
    | Some j \<Rightarrow> (case json_num j of
          None \<Rightarrow> None
        | Some r \<Rightarrow> if \<not> is_safe_integer r \<or> r < 1 \<or> r > of_int MAX_ADMISSION_MS then None else Some \<lfloor>r\<rfloor>))"

end
