(* ===== verification/Reach_Task_Events.thy ===== *)
theory Reach_Task_Events
  imports Reach_Durable
begin

text \<open>
  The bounded journal of task events, \<open>src/src/shared/task-events.ts\<close>. The text redaction of
  \<open>security.ts\<close> and the byte length of an event as a line of JSON are parameters; the random event id
  and the time are arguments. A line of the journal is an event or text that is not one.
\<close>

datatype task_event_kind = EvAccepted | EvUpdated | EvTransition | EvArchived | EvControl

record task_event =
  te_eventId :: string
  te_at :: timestamp
  te_taskId :: string
  te_kind :: task_event_kind
  te_state :: "task_state option"
  te_toState :: "task_state option"
  te_actorId :: "string option"
  te_nodeId :: "string option"
  te_operation :: "string option"
  te_attempt :: "int option"
  te_summary :: "string option"
  te_control :: "string option"
  te_evidenceRef :: "string option"
  te_traceId :: "string option"
  te_failureClass :: "string option"
  te_historyGap :: bool

datatype task_event_line = TaskEventLine task_event | BadEventLine

datatype event_error = EventHistoryCorrupt | DuplicateEventId

definition TASK_EVENT_LIMIT :: nat where
  "TASK_EVENT_LIMIT = 2000"

definition TASK_EVENT_BYTE_LIMIT :: nat where
  "TASK_EVENT_BYTE_LIMIT = 2 * 1024 * 1024"

definition safe_text :: "(string \<Rightarrow> string) \<Rightarrow> nat \<Rightarrow> string \<Rightarrow> string" where
  "safe_text redact limit s = take limit (redact s)"

definition safe_opt :: "(string \<Rightarrow> string) \<Rightarrow> nat \<Rightarrow> string option \<Rightarrow> string option" where
  "safe_opt redact limit v = map_option (safe_text redact limit) (given v)"

definition sanitize :: "(string \<Rightarrow> string) \<Rightarrow> string \<Rightarrow> int \<Rightarrow> task_event \<Rightarrow> task_event" where
  "sanitize redact eventId now i =
     \<lparr>te_eventId = eventId, te_at = Iso now, te_taskId = safe_text redact 96 (te_taskId i), te_kind = te_kind i,
      te_state = te_state i, te_toState = te_toState i,
      te_actorId = safe_opt redact 128 (te_actorId i), te_nodeId = safe_opt redact 128 (te_nodeId i),
      te_operation = safe_opt redact 128 (te_operation i), te_attempt = te_attempt i, te_summary = safe_opt redact 240 (te_summary i),
      te_control = safe_opt redact 128 (te_control i), te_evidenceRef = safe_opt redact 160 (te_evidenceRef i),
      te_traceId = safe_opt redact 64 (te_traceId i), te_failureClass = safe_opt redact 64 (te_failureClass i), te_historyGap = False\<rparr>"

section \<open>Retention\<close>

definition decisive :: "task_event \<Rightarrow> bool" where
  "decisive e = (te_kind e \<noteq> EvUpdated \<or> given (te_evidenceRef e) \<noteq> None \<or> given (te_failureClass e) \<noteq> None)"

text \<open>The loop that adds ids from the newest event backwards until the set is full.\<close>

fun fill_recent :: "nat \<Rightarrow> string list \<Rightarrow> string list \<Rightarrow> string list" where
  "fill_recent limit [] sel = sel"
| "fill_recent limit (i # is) sel = (if length sel < limit then fill_recent limit is (if i \<in> set sel then sel else i # sel) else sel)"

text \<open>The loop that drops the oldest event while the journal is over its byte ceiling.\<close>

fun shed_bytes :: "(task_event \<Rightarrow> nat) \<Rightarrow> nat \<Rightarrow> task_event list \<Rightarrow> string list \<Rightarrow> task_event list \<times> string list" where
  "shed_bytes bytes cap [] gaps = ([], gaps)"
| "shed_bytes bytes cap (e # es) gaps =
     (if sum_list (map (\<lambda>x. bytes x + 1) (e # es)) > cap then shed_bytes bytes cap es (te_taskId e # gaps) else (e # es, gaps))"

text \<open>The first retained event of each task with a gap is marked.\<close>

fun mark_gaps :: "string list \<Rightarrow> string list \<Rightarrow> task_event list \<Rightarrow> task_event list" where
  "mark_gaps gaps marked [] = []"
| "mark_gaps gaps marked (e # es) =
     (if te_taskId e \<in> set gaps \<and> te_taskId e \<notin> set marked
      then e\<lparr>te_historyGap := True\<rparr> # mark_gaps gaps (te_taskId e # marked) es
      else e # mark_gaps gaps marked es)"

definition retainTaskEvents :: "(task_event \<Rightarrow> nat) \<Rightarrow> task_event list \<Rightarrow> event_error + task_event list" where
  "retainTaskEvents bytes events =
     (if \<not> distinct (map te_eventId events) then Inl DuplicateEventId
      else (let chosen = map te_eventId (take_last 1500 (filter decisive events));
                selected = fill_recent TASK_EVENT_LIMIT (rev (map te_eventId events)) chosen;
                gaps = map te_taskId (filter (\<lambda>e. te_eventId e \<notin> set selected \<or> te_historyGap e) events);
                kept = filter (\<lambda>e. te_eventId e \<in> set selected) events;
                (kept', gaps') = shed_bytes bytes (TASK_EVENT_BYTE_LIMIT - TASK_EVENT_LIMIT * 24) kept gaps
            in Inr (mark_gaps gaps' [] kept')))"

section \<open>Journal\<close>

fun event_lines :: "task_event_line list \<Rightarrow> event_error + task_event list" where
  "event_lines [] = Inr []"
| "event_lines (BadEventLine # ls) = Inl EventHistoryCorrupt"
| "event_lines (TaskEventLine e # ls) = (if date_parse (te_at e) = None then Inl EventHistoryCorrupt
     else (case event_lines ls of Inl x \<Rightarrow> Inl x | Inr es \<Rightarrow> Inr (e # es)))"

definition append_event ::
  "(string \<Rightarrow> string) \<Rightarrow> (task_event \<Rightarrow> nat) \<Rightarrow> string \<Rightarrow> int \<Rightarrow> task_event \<Rightarrow> task_event_line list
     \<Rightarrow> (event_error + task_event) \<times> task_event_line list" where
  "append_event redact bytes eventId now input journal =
     (let event = sanitize redact eventId now input
      in case event_lines journal of
           Inl x \<Rightarrow> (Inl x, journal)
         | Inr es \<Rightarrow> (case retainTaskEvents bytes (es @ [event]) of
               Inl x \<Rightarrow> (Inl x, journal)
             | Inr kept \<Rightarrow> (Inr event, map TaskEventLine kept)))"

text \<open>Reading: lines that are no events and repeated ids are skipped, or refused in strict mode.\<close>

fun list_lines :: "bool \<Rightarrow> string list \<Rightarrow> task_event_line list \<Rightarrow> event_error + task_event list" where
  "list_lines strict seen [] = Inr []"
| "list_lines strict seen (l # ls) =
     (let bad = (case l of BadEventLine \<Rightarrow> True | TaskEventLine e \<Rightarrow> date_parse (te_at e) = None \<or> te_eventId e \<in> set seen);
          seen' = (case l of BadEventLine \<Rightarrow> seen | TaskEventLine e \<Rightarrow> te_eventId e # seen)
      in if bad then (if strict then Inl EventHistoryCorrupt else list_lines strict seen ls)
         else (case list_lines strict seen' ls of
             Inl x \<Rightarrow> Inl x
           | Inr es \<Rightarrow> Inr ((case l of TaskEventLine e \<Rightarrow> [e] | BadEventLine \<Rightarrow> []) @ es)))"

definition list_events :: "string option \<Rightarrow> int \<Rightarrow> bool \<Rightarrow> task_event_line list \<Rightarrow> event_error + task_event list" where
  "list_events taskId limit strict journal = (case list_lines strict [] journal of
      Inl x \<Rightarrow> Inl x
    | Inr es \<Rightarrow> Inr (take_last (nat (max 1 (min limit 2000)))
        (filter (\<lambda>e. case given taskId of None \<Rightarrow> True | Some t \<Rightarrow> te_taskId e = t) es)))"

section \<open>Retention is bounded, ordered and marks what it drops\<close>

lemma fill_recent_props:
  "length sel \<le> limit \<Longrightarrow> distinct sel \<Longrightarrow>
     length (fill_recent limit is sel) \<le> limit \<and> distinct (fill_recent limit is sel) \<and>
     set sel \<subseteq> set (fill_recent limit is sel) \<and> set (fill_recent limit is sel) \<subseteq> set sel \<union> set is"
proof (induction "is" arbitrary: sel)
  case (Cons i "is")
  show ?case
  proof (cases "length sel < limit")
    case True
    define sel' where "sel' = (if i \<in> set sel then sel else i # sel)"
    have "length sel' \<le> limit" "distinct sel'" "set sel \<subseteq> set sel'" "set sel' \<subseteq> insert i (set sel)"
      using True Cons.prems by (auto simp: sel'_def)
    with Cons.IH [of sel'] have "length (fill_recent limit is sel') \<le> limit \<and> distinct (fill_recent limit is sel') \<and>
       set sel \<subseteq> set (fill_recent limit is sel') \<and> set (fill_recent limit is sel') \<subseteq> insert i (set sel) \<union> set is" by blast
    then show ?thesis using True by (simp add: sel'_def)
  next
    case False
    with Cons.prems show ?thesis by auto
  qed
qed simp

lemma shed_bytes_props:
  assumes "shed_bytes bytes cap es gaps = (kept, gaps')"
  shows "(\<exists>dropped. es = dropped @ kept \<and> set gaps' = set gaps \<union> te_taskId ` set dropped) \<and>
     sum_list (map (\<lambda>x. bytes x + 1) kept) \<le> cap"
  using assms
proof (induction es arbitrary: gaps)
  case (Cons e es)
  show ?case
  proof (cases "sum_list (map (\<lambda>x. bytes x + 1) (e # es)) > cap")
    case True
    with Cons.prems have "shed_bytes bytes cap es (te_taskId e # gaps) = (kept, gaps')" by simp
    from Cons.IH [OF this] obtain dropped where "es = dropped @ kept" "set gaps' = set (te_taskId e # gaps) \<union> te_taskId ` set dropped"
      and "sum_list (map (\<lambda>x. bytes x + 1) kept) \<le> cap" by blast
    then show ?thesis by (intro conjI exI [of _ "e # dropped"]) auto
  next
    case False
    with Cons.prems show ?thesis by auto
  qed
qed simp

definition unmark :: "task_event \<Rightarrow> task_event" where
  "unmark e = e\<lparr>te_historyGap := False\<rparr>"

lemma mark_gaps_unmark: "map unmark (mark_gaps gaps marked es) = map unmark es"
  by (induction es arbitrary: marked) (auto simp: unmark_def)

lemma mark_gaps_eventIds: "map te_eventId (mark_gaps gaps marked es) = map te_eventId es"
  by (induction es arbitrary: marked) auto

lemma mark_gaps_taskIds: "te_taskId ` set (mark_gaps gaps marked es) = te_taskId ` set es"
  by (induction es arbitrary: marked) (auto simp: insert_absorb)

lemma mark_gaps_marks:
  "t \<in> set gaps \<Longrightarrow> t \<notin> set marked \<Longrightarrow> t \<in> te_taskId ` set es \<Longrightarrow>
     \<exists>e \<in> set (mark_gaps gaps marked es). te_taskId e = t \<and> te_historyGap e"
proof (induction es arbitrary: marked)
  case (Cons e es)
  show ?case
  proof (cases "te_taskId e = t")
    case True
    with Cons.prems show ?thesis by simp
  next
    case False
    with Cons.prems Cons.IH [of marked] Cons.IH [of "te_taskId e # marked"] show ?thesis by auto
  qed
qed simp

lemma mark_gaps_bytes:
  assumes "\<And>e. bytes (e\<lparr>te_historyGap := True\<rparr>) \<le> bytes e + m"
  shows "sum_list (map (\<lambda>x. bytes x + 1) (mark_gaps gaps marked es)) \<le> sum_list (map (\<lambda>x. bytes x + 1) es) + m * length es"
proof (induction es arbitrary: marked)
  case (Cons e es)
  have "bytes (e\<lparr>te_historyGap := True\<rparr>) \<le> bytes e + m" by (rule assms)
  with Cons.IH [of marked] Cons.IH [of "te_taskId e # marked"] show ?case by auto
qed simp


definition ex_event :: task_event where
  "ex_event = \<lparr>te_eventId = ''tev_1'', te_at = Iso 0, te_taskId = ''t'', te_kind = EvAccepted, te_state = None, te_toState = None,
     te_actorId = None, te_nodeId = None, te_operation = None, te_attempt = None, te_summary = None, te_control = None,
     te_evidenceRef = None, te_traceId = None, te_failureClass = None, te_historyGap = False\<rparr>"


end
