(* ===== verification/Reach_Tasks.thy ===== *)
theory Reach_Tasks
  imports Reach_Task_Events Reach_Access Reach_Coordinator
begin

text \<open>
  The durable task store of the node, \<open>src/src/node/task-store.ts\<close>: one document of active and
  archived records with redundant indexes, validated whenever it is read and read back after every
  write. The document on disk is the parsed JSON; a record whose members have the wrong types is
  \<open>None\<close>. An object with computed keys is an association list in insertion order; a key that names
  a member of the object prototype makes the index code throw, which \<open>index_push\<close> models. Redaction,
  the byte size of an event and quarantine come from \<open>task_env\<close>; every read of the clock inside one
  operation gives the argument \<open>now\<close>. Timestamps are instants (\<open>Iso\<close>) once validated.
\<close>

section \<open>Records\<close>

record task_repo_context =
  rc_canonicalRepo :: string
  rc_repoPath :: string
  rc_worktreeBranch :: string
  rc_baseSha :: string
  rc_leaseId :: string

record task_record =
  tr_schemaVersion :: int
  tr_taskId :: string
  tr_rootTaskId :: string
  tr_parentTaskId :: "string option"
  tr_taskDepth :: int
  tr_lineageIndex :: int
  tr_actorId :: string
  tr_nodeId :: string
  tr_operation :: string
  tr_safetyClass :: "string option"
  tr_mutationLevel :: "string option"
  tr_state :: task_state
  tr_attemptNumber :: int
  tr_attemptBudget :: int
  tr_createdAtUtc :: timestamp
  tr_updatedAtUtc :: timestamp
  tr_idempotencyKey :: string
  tr_payloadSha256 :: string
  tr_policyHash :: "string option"
  tr_authority :: "task_authority option"
  tr_traceId :: "string option"
  tr_resultRef :: "string option"
  tr_resultHash :: "string option"
  tr_failureClass :: "string option"
  tr_repoContext :: "task_repo_context option"
  tr_status :: string
  tr_isShareSafe :: bool
  tr_archivedAtUtc :: "timestamp option"

datatype task_error =
    TaskStoreCorrupt | TaskStoreVersion | InvalidTaskId | InvalidName string
  | BadRepoContext | PayloadHashInvalid | IdentityExists | IdentityConflict | IdempotencyExists
  | ParentMissing | DepthOutOfRange | RootMismatch | DepthMismatch | CompatReadOnly
  | UpdateEmpty | StatusTooLong | TaskArchived | TaskNotFound | IllegalTransition task_state task_state
  | CancellationUnproven | ResultHashInvalid | NotTerminal | NegativeRetention | TaskQuarantined
  | QuarantineUnreadable | PrototypeKey | BadTimestampQuery | TaskEventError event_error

type_synonym 'a obj = "(string \<times> 'a) list"

datatype place = Active | Archive

record task_index =
  ix_byTaskId :: "place obj"
  ix_byRootTaskId :: "string list obj"
  ix_byState :: "(task_state \<times> string list) list"
  ix_byNodeId :: "string list obj"
  ix_byActorId :: "string list obj"
  ix_byIdempotencyKey :: "string list obj"
  ix_byUpdatedAt :: "(string \<times> timestamp) list"

record task_document =
  td_records :: "task_record obj"
  td_archived :: "task_record obj"
  td_index :: task_index
  td_updatedAtUtc :: timestamp

text \<open>What \<open>JSON.parse\<close> gives for the store file.\<close>

record raw_document =
  rd_schemaVersion :: "rat option"
  rd_records :: "task_record option obj option"
  rd_archived :: "task_record option obj option"
  rd_index :: "task_index option"
  rd_updatedAtUtc :: "timestamp option"

record task_env =
  tv_redact :: "string \<Rightarrow> string"
  tv_bytes :: "task_event \<Rightarrow> nat"
  tv_quarantined :: "(string \<Rightarrow> bool) option"
  tv_compatibilityMode :: bool

record task_world =
  tw_store :: "raw_document stored"
  tw_events :: "task_event_line list"

definition MAX_DEPTH :: int where
  "MAX_DEPTH = 8"

definition HASH_PATTERN :: "string \<Rightarrow> bool" where
  "HASH_PATTERN s = (length s = 64 \<and> list_all is_hex s)"

definition safe_name :: "string \<Rightarrow> string \<Rightarrow> bool" where
  "safe_name extra s = (s \<noteq> [] \<and> length s \<le> 128 \<and> is_alnum (hd s) \<and> list_all (\<lambda>c. is_alnum c \<or> c \<in> set extra) (tl s))"

definition SAFE_ID :: "string \<Rightarrow> bool" where
  "SAFE_ID s = safe_name ''._:-'' s"

definition SAFE_OPERATION :: "string \<Rightarrow> bool" where
  "SAFE_OPERATION s = safe_name ''._-'' s"

definition isTerminal :: "task_state \<Rightarrow> bool" where
  "isTerminal s = (s \<in> set TERMINAL_TASK_STATES)"

text \<open>The first failing check throws.\<close>

fun guards :: "(bool \<times> 'e) list \<Rightarrow> 'e + unit" where
  "guards [] = Inr ()"
| "guards ((bad, e) # gs) = (if bad then Inl e else guards gs)"

definition assertRepoContext :: "task_repo_context option \<Rightarrow> task_error + unit" where
  "assertRepoContext v = (case v of
      None \<Rightarrow> Inr ()
    | Some c \<Rightarrow> guards
        [(rc_repoPath c = [] \<or> \<not> isAbsolute (rc_repoPath c), BadRepoContext),
         (rc_canonicalRepo c = [] \<or> length (rc_canonicalRepo c) > 160, BadRepoContext),
         (rc_worktreeBranch c = [] \<or> length (rc_worktreeBranch c) > 200 \<or> str_includes (rc_worktreeBranch c) ''..'', BadRepoContext),
         (\<not> (7 \<le> length (rc_baseSha c) \<and> length (rc_baseSha c) \<le> 128 \<and> list_all is_hex (rc_baseSha c)), BadRepoContext),
         (\<not> SAFE_ID (rc_leaseId c), InvalidName ''repoContext.leaseId'')])"

definition shareSafeStatus :: "task_env \<Rightarrow> string \<Rightarrow> string" where
  "shareSafeStatus env s = take 240 (tv_redact env s)"

definition authority_ok :: "task_authority \<Rightarrow> bool" where
  "authority_ok a = (ta_capabilities a \<noteq> [] \<and> length (ta_paths a) \<le> 128 \<and> list_all (\<lambda>p. length p \<le> 4096) (ta_paths a))"

definition opt_bad :: "('a \<Rightarrow> bool) \<Rightarrow> 'a option \<Rightarrow> bool" where
  "opt_bad ok v = (case v of None \<Rightarrow> False | Some x \<Rightarrow> \<not> ok x)"

definition validateRecord :: "task_record \<Rightarrow> task_error + unit" where
  "validateRecord r = (case guards
        [(tr_schemaVersion r \<noteq> 1, TaskStoreVersion),
         (\<not> TASK_ID_PATTERN (tr_taskId r), InvalidTaskId),
         (\<not> TASK_ID_PATTERN (tr_rootTaskId r), InvalidTaskId),
         (opt_bad TASK_ID_PATTERN (given (tr_parentTaskId r)), InvalidTaskId),
         (tr_taskDepth r < 0 \<or> tr_taskDepth r > MAX_DEPTH, TaskStoreCorrupt),
         (tr_lineageIndex r < 0, TaskStoreCorrupt),
         (\<not> SAFE_ID (tr_actorId r), InvalidName ''actorId''),
         (\<not> SAFE_ID (tr_nodeId r), InvalidName ''nodeId''),
         (\<not> SAFE_OPERATION (tr_operation r), InvalidName ''operation''),
         (tr_attemptNumber r \<noteq> 1 \<or> tr_attemptBudget r < 1 \<or> tr_attemptBudget r > 100, TaskStoreCorrupt),
         (\<not> SAFE_ID (tr_idempotencyKey r), InvalidName ''idempotencyKey''),
         (\<not> HASH_PATTERN (tr_payloadSha256 r), TaskStoreCorrupt),
         (opt_bad HASH_PATTERN (tr_policyHash r), TaskStoreCorrupt),
         (opt_bad HASH_PATTERN (tr_resultHash r), TaskStoreCorrupt),
         (opt_bad SAFE_ID (tr_resultRef r), InvalidName ''resultRef''),
         (opt_bad SAFE_ID (tr_failureClass r), InvalidName ''failureClass''),
         (opt_bad (\<lambda>t. length t = 32 \<and> list_all is_hex t) (tr_traceId r), TaskStoreCorrupt),
         (date_parse (tr_createdAtUtc r) = None, TaskStoreCorrupt),
         (date_parse (tr_updatedAtUtc r) = None, TaskStoreCorrupt),
         (\<not> tr_isShareSafe r \<or> length (tr_status r) > 240, TaskStoreCorrupt),
         (opt_bad authority_ok (tr_authority r), TaskStoreCorrupt)] of
      Inl e \<Rightarrow> Inl e
    | Inr _ \<Rightarrow> (case assertRepoContext (tr_repoContext r) of
          Inl e \<Rightarrow> Inl e
        | Inr _ \<Rightarrow> if opt_bad (\<lambda>t. date_parse t \<noteq> None) (tr_archivedAtUtc r) then Inl TaskStoreCorrupt else Inr ()))"

section \<open>Objects and indexes\<close>

definition obj_put :: "string \<Rightarrow> 'a \<Rightarrow> 'a obj \<Rightarrow> 'a obj" where
  "obj_put k v o1 = (if k \<in> fst ` set o1 then map (\<lambda>(k', v'). if k' = k then (k', v) else (k', v')) o1 else o1 @ [(k, v)])"

definition obj_del :: "string \<Rightarrow> 'a obj \<Rightarrow> 'a obj" where
  "obj_del k o1 = filter (\<lambda>(k', v'). k' \<noteq> k) o1"

definition obj_merge :: "'a obj \<Rightarrow> 'a obj \<Rightarrow> 'a obj" where
  "obj_merge a b = foldl (\<lambda>o1 (k, v). obj_put k v o1) a b"

text \<open>Members every plain object inherits and that a safe identifier can name.\<close>

definition PROTOTYPE_KEYS :: "string list" where
  "PROTOTYPE_KEYS = [''constructor'', ''toString'', ''valueOf'', ''hasOwnProperty'', ''isPrototypeOf'', ''propertyIsEnumerable'', ''toLocaleString'']"

text \<open>\<open>(map[key] ??= []).push(id)\<close>: an inherited member is not nullish and has no push.\<close>

definition index_push :: "string list obj \<Rightarrow> string \<Rightarrow> string \<Rightarrow> string list obj option" where
  "index_push m k i = (case map_of m k of
      Some ids \<Rightarrow> Some (obj_put k (ids @ [i]) m)
    | None \<Rightarrow> if k \<in> set PROTOTYPE_KEYS then None else Some (obj_put k [i] m))"

definition emptyIndex :: task_index where
  "emptyIndex = \<lparr>ix_byTaskId = [], ix_byRootTaskId = [], ix_byState = map (\<lambda>s. (s, [])) TASK_STATES, ix_byNodeId = [], ix_byActorId = [],
     ix_byIdempotencyKey = [], ix_byUpdatedAt = []\<rparr>"

definition addIndex :: "task_index \<Rightarrow> task_record \<Rightarrow> place \<Rightarrow> task_index option" where
  "addIndex ix r p = (case (index_push (ix_byRootTaskId ix) (tr_rootTaskId r) (tr_taskId r), index_push (ix_byNodeId ix) (tr_nodeId r) (tr_taskId r),
        index_push (ix_byActorId ix) (tr_actorId r) (tr_taskId r), index_push (ix_byIdempotencyKey ix) (tr_idempotencyKey r) (tr_taskId r)) of
      (Some rt, Some nd, Some ac, Some ik) \<Rightarrow>
        Some \<lparr>ix_byTaskId = obj_put (tr_taskId r) p (ix_byTaskId ix), ix_byRootTaskId = rt,
              ix_byState = map (\<lambda>(s, ids). (s, if s = tr_state r then ids @ [tr_taskId r] else ids)) (ix_byState ix),
              ix_byNodeId = nd, ix_byActorId = ac, ix_byIdempotencyKey = ik,
              ix_byUpdatedAt = ix_byUpdatedAt ix @ [(tr_taskId r, tr_updatedAtUtc r)]\<rparr>
    | _ \<Rightarrow> None)"

fun addAll :: "place \<Rightarrow> task_record list \<Rightarrow> task_index \<Rightarrow> task_index option" where
  "addAll p [] ix = Some ix"
| "addAll p (r # rs) ix = (case addIndex ix r p of None \<Rightarrow> None | Some ix' \<Rightarrow> addAll p rs ix')"

text \<open>The order of \<open>localeCompare\<close> on task ids: the underscore sorts before digits and letters.\<close>

definition locale_key :: "string \<Rightarrow> nat list" where
  "locale_key s = map (\<lambda>c. if c = CHR ''_'' then 0 else code_of c) s"

definition stamp_ms :: "timestamp \<Rightarrow> int" where
  "stamp_ms t = (case date_parse t of Some n \<Rightarrow> n | None \<Rightarrow> 0)"

definition sort_ids :: "string list obj \<Rightarrow> string list obj" where
  "sort_ids m = map (\<lambda>(k, ids). (k, sort ids)) m"

definition buildIndex :: "task_record obj \<Rightarrow> task_record obj \<Rightarrow> task_index option" where
  "buildIndex records archived = (case addAll Active (map snd records) emptyIndex of
      None \<Rightarrow> None
    | Some ix1 \<Rightarrow> (case addAll Archive (map snd archived) ix1 of
          None \<Rightarrow> None
        | Some ix \<Rightarrow> Some (ix\<lparr>ix_byRootTaskId := sort_ids (ix_byRootTaskId ix), ix_byNodeId := sort_ids (ix_byNodeId ix),
              ix_byActorId := sort_ids (ix_byActorId ix), ix_byIdempotencyKey := sort_ids (ix_byIdempotencyKey ix),
              ix_byState := map (\<lambda>(s, ids). (s, sort ids)) (ix_byState ix),
              ix_byUpdatedAt := sort_key (\<lambda>(i, t). (stamp_ms t, locale_key i)) (ix_byUpdatedAt ix)\<rparr>)))"

definition emptyDocument :: task_document where
  "emptyDocument = \<lparr>td_records = [], td_archived = [], td_index = emptyIndex, td_updatedAtUtc = Iso 0\<rparr>"

section \<open>Reading the document\<close>

fun read_entries :: "(string \<Rightarrow> task_record \<Rightarrow> bool) \<Rightarrow> task_record option obj \<Rightarrow> task_error + task_record obj" where
  "read_entries ok [] = Inr []"
| "read_entries ok ((i, v) # es) = (case v of
      None \<Rightarrow> Inl TaskStoreCorrupt
    | Some r \<Rightarrow> (case validateRecord r of
          Inl e \<Rightarrow> Inl e
        | Inr _ \<Rightarrow> if \<not> ok i r then Inl TaskStoreCorrupt
            else (case read_entries ok es of Inl e \<Rightarrow> Inl e | Inr rs \<Rightarrow> Inr ((i, r) # rs))))"

definition active_ok :: "string \<Rightarrow> task_record \<Rightarrow> bool" where
  "active_ok i r = (tr_taskId r = i \<and> tr_archivedAtUtc r = None)"

definition archive_ok :: "string \<Rightarrow> task_record \<Rightarrow> bool" where
  "archive_ok i r = (tr_taskId r = i \<and> tr_archivedAtUtc r \<noteq> None \<and> isTerminal (tr_state r))"

definition legacy_entries :: "task_record option obj option \<Rightarrow> task_error + task_record obj" where
  "legacy_entries v = read_entries (\<lambda>_ _. True) (map (\<lambda>(i, r). (i, map_option (\<lambda>r. r\<lparr>tr_schemaVersion := 1\<rparr>) r)) (case v of None \<Rightarrow> [] | Some es \<Rightarrow> es))"

definition normalizeDocument :: "raw_document \<Rightarrow> bool \<Rightarrow> int \<Rightarrow> task_error + task_document" where
  "normalizeDocument raw legacy now =
     (if rd_schemaVersion raw \<noteq> Some 1 then
        (if (case rd_schemaVersion raw of Some v \<Rightarrow> v < 1 | None \<Rightarrow> False) \<and> legacy then
           (case legacy_entries (rd_records raw) of Inl e \<Rightarrow> Inl e | Inr rs \<Rightarrow>
             (case legacy_entries (rd_archived raw) of Inl e \<Rightarrow> Inl e | Inr as \<Rightarrow>
               (case buildIndex rs as of None \<Rightarrow> Inl TaskStoreCorrupt
                | Some ix \<Rightarrow> Inr \<lparr>td_records = rs, td_archived = as, td_index = ix, td_updatedAtUtc = Iso now\<rparr>)))
         else Inl TaskStoreVersion)
      else (case (rd_records raw, rd_archived raw, rd_index raw) of
          (Some es, Some as, Some ix) \<Rightarrow>
            (case read_entries active_ok es of Inl e \<Rightarrow> Inl e | Inr rs \<Rightarrow>
              (case read_entries archive_ok as of Inl e \<Rightarrow> Inl e | Inr ars \<Rightarrow>
                (case rd_updatedAtUtc raw of
                   Some (Iso t) \<Rightarrow>
                     (if buildIndex rs ars = Some ix then Inr \<lparr>td_records = rs, td_archived = ars, td_index = ix, td_updatedAtUtc = Iso t\<rparr>
                      else Inl TaskStoreCorrupt)
                 | _ \<Rightarrow> Inl TaskStoreCorrupt)))
        | _ \<Rightarrow> Inl TaskStoreCorrupt))"

text \<open>Only the version error keeps its class.\<close>

definition as_store_error :: "task_error \<Rightarrow> task_error" where
  "as_store_error e = (if e = TaskStoreVersion then TaskStoreVersion else TaskStoreCorrupt)"

definition readDocument :: "task_env \<Rightarrow> int \<Rightarrow> task_world \<Rightarrow> task_error + task_document" where
  "readDocument env now w = (case tw_store w of
      Absent \<Rightarrow> Inr emptyDocument
    | Unreadable \<Rightarrow> Inl TaskStoreCorrupt
    | Contents raw \<Rightarrow> (case normalizeDocument raw (tv_compatibilityMode env) now of Inl e \<Rightarrow> Inl (as_store_error e) | Inr d \<Rightarrow> Inr d))"

definition encodeDocument :: "task_document \<Rightarrow> raw_document" where
  "encodeDocument d = \<lparr>rd_schemaVersion = Some 1, rd_records = Some (map (\<lambda>(i, r). (i, Some r)) (td_records d)),
     rd_archived = Some (map (\<lambda>(i, r). (i, Some r)) (td_archived d)), rd_index = Some (td_index d), rd_updatedAtUtc = Some (td_updatedAtUtc d)\<rparr>"

definition mutate ::
  "task_env \<Rightarrow> int \<Rightarrow> (task_document \<Rightarrow> task_error + ('a \<times> task_document)) \<Rightarrow> task_world \<Rightarrow> (task_error + 'a) \<times> task_world" where
  "mutate env now fn w =
     (if tv_compatibilityMode env then (Inl CompatReadOnly, w)
      else (case readDocument env now w of
          Inl e \<Rightarrow> (Inl e, w)
        | Inr d \<Rightarrow> (case fn d of
              Inl e \<Rightarrow> (Inl e, w)
            | Inr (x, d') \<Rightarrow> (case buildIndex (td_records d') (td_archived d') of
                  None \<Rightarrow> (Inl PrototypeKey, w)
                | Some ix \<Rightarrow>
                    (let w' = w\<lparr>tw_store := Contents (encodeDocument (d'\<lparr>td_index := ix, td_updatedAtUtc := Iso now\<rparr>))\<rparr>
                     in case readDocument env now w' of Inl e \<Rightarrow> (Inl e, w') | Inr _ \<Rightarrow> (Inr x, w'))))))"

section \<open>Operations\<close>

definition legalTransition :: "task_state \<Rightarrow> task_state \<Rightarrow> bool" where
  "legalTransition from to = (to \<in> set (case from of
      ACCEPTED \<Rightarrow> [PREPARING, CANCELLED]
    | PREPARING \<Rightarrow> [RUNNING, CANCELLED, FAILED]
    | RUNNING \<Rightarrow> [INPUT_REQUIRED, AMBIGUOUS, COMPLETED, FAILED, CANCELLED]
    | INPUT_REQUIRED \<Rightarrow> [RUNNING, CANCELLED]
    | AMBIGUOUS \<Rightarrow> [RECONCILED, CANCELLED]
    | _ \<Rightarrow> []))"

fun state_word :: "task_state \<Rightarrow> string" where
  "state_word ACCEPTED = ''accepted''" | "state_word PREPARING = ''preparing''" | "state_word RUNNING = ''running''"
| "state_word INPUT_REQUIRED = ''input_required''" | "state_word AMBIGUOUS = ''ambiguous''" | "state_word COMPLETED = ''completed''"
| "state_word FAILED = ''failed''" | "state_word CANCELLED = ''cancelled''" | "state_word RECONCILED = ''reconciled''"

record task_create_input =
  tc_taskId :: "string option"
  tc_actorId :: string
  tc_nodeId :: string
  tc_operation :: string
  tc_idempotencyKey :: string
  tc_payloadSha256 :: string
  tc_policyHash :: "string option"
  tc_authority :: "task_authority option"
  tc_traceId :: "string option"
  tc_parentTaskId :: "string option"
  tc_rootTaskId :: "string option"
  tc_taskDepth :: "int option"
  tc_attemptBudget :: "int option"
  tc_safetyClass :: "string option"
  tc_mutationLevel :: "string option"
  tc_repoContext :: "task_repo_context option"

definition lookup_task :: "task_document \<Rightarrow> string \<Rightarrow> task_record option" where
  "lookup_task d i = (case map_of (td_records d) i of Some r \<Rightarrow> Some r | None \<Rightarrow> map_of (td_archived d) i)"

definition all_tasks :: "task_document \<Rightarrow> task_record list" where
  "all_tasks d = map snd (obj_merge (td_records d) (td_archived d))"

definition task_event_of :: "task_event_kind \<Rightarrow> task_record \<Rightarrow> task_event" where
  "task_event_of k r = \<lparr>te_eventId = [], te_at = Iso 0, te_taskId = tr_taskId r, te_kind = k, te_state = Some (tr_state r), te_toState = None,
     te_actorId = Some (tr_actorId r), te_nodeId = Some (tr_nodeId r), te_operation = Some (tr_operation r), te_attempt = Some (tr_attemptNumber r),
     te_summary = Some (tr_status r), te_control = None, te_evidenceRef = None, te_traceId = tr_traceId r, te_failureClass = None, te_historyGap = False\<rparr>"

definition log_event :: "task_env \<Rightarrow> string \<Rightarrow> int \<Rightarrow> task_event \<Rightarrow> task_world \<Rightarrow> (task_error + task_event) \<times> task_world" where
  "log_event env eventId now e w = (case append_event (tv_redact env) (tv_bytes env) eventId now e (tw_events w) of
      (Inl x, _) \<Rightarrow> (Inl (TaskEventError x), w)
    | (Inr ev, js) \<Rightarrow> (Inr ev, w\<lparr>tw_events := js\<rparr>))"

text \<open>The operation commits the document first and logs afterwards.\<close>

definition then_log :: "task_env \<Rightarrow> string \<Rightarrow> int \<Rightarrow> (task_record \<Rightarrow> task_event) \<Rightarrow> (task_error + task_record) \<times> task_world \<Rightarrow> (task_error + task_record) \<times> task_world" where
  "then_log env eventId now ev p = (case p of
      (Inl e, w) \<Rightarrow> (Inl e, w)
    | (Inr r, w) \<Rightarrow> (case log_event env eventId now (ev r) w of (Inl e, w') \<Rightarrow> (Inl e, w') | (Inr _, w') \<Rightarrow> (Inr r, w')))"

definition same_binding :: "task_record \<Rightarrow> task_create_input \<Rightarrow> bool" where
  "same_binding r i = (tr_actorId r = tc_actorId i \<and> tr_nodeId r = tc_nodeId i \<and> tr_operation r = tc_operation i \<and>
     tr_idempotencyKey r = tc_idempotencyKey i \<and> tr_payloadSha256 r = tc_payloadSha256 i)"

definition new_record :: "task_create_input \<Rightarrow> string \<Rightarrow> string \<Rightarrow> int \<Rightarrow> int \<Rightarrow> int \<Rightarrow> task_record" where
  "new_record i taskId rootTaskId taskDepth lineageIndex now =
     \<lparr>tr_schemaVersion = 1, tr_taskId = taskId, tr_rootTaskId = rootTaskId, tr_parentTaskId = tc_parentTaskId i, tr_taskDepth = taskDepth,
      tr_lineageIndex = lineageIndex, tr_actorId = tc_actorId i, tr_nodeId = tc_nodeId i, tr_operation = tc_operation i,
      tr_safetyClass = given (tc_safetyClass i), tr_mutationLevel = given (tc_mutationLevel i), tr_state = ACCEPTED, tr_attemptNumber = 1,
      tr_attemptBudget = (case tc_attemptBudget i of Some n \<Rightarrow> n | None \<Rightarrow> 1), tr_createdAtUtc = Iso now, tr_updatedAtUtc = Iso now,
      tr_idempotencyKey = tc_idempotencyKey i, tr_payloadSha256 = tc_payloadSha256 i, tr_policyHash = given (tc_policyHash i),
      tr_authority = tc_authority i, tr_traceId = given (tc_traceId i), tr_resultRef = None, tr_resultHash = None, tr_failureClass = None,
      tr_repoContext = tc_repoContext i, tr_status = ''Task accepted and durably persisted on node storage.'', tr_isShareSafe = True,
      tr_archivedAtUtc = None\<rparr>"

text \<open>The body of the transaction of \<open>create\<close>.\<close>

definition create_body :: "task_create_input \<Rightarrow> string \<Rightarrow> int \<Rightarrow> task_document \<Rightarrow> task_error + (task_record \<times> task_document)" where
  "create_body i taskId now d = (case lookup_task d taskId of
      Some r \<Rightarrow> Inl (if same_binding r i then IdentityExists else IdentityConflict)
    | None \<Rightarrow>
        if list_ex (\<lambda>r. tr_idempotencyKey r = tc_idempotencyKey i \<and> tr_actorId r = tc_actorId i \<and> tr_nodeId r = tc_nodeId i \<and> tr_operation r = tc_operation i) (all_tasks d)
        then Inl IdempotencyExists
        else (let parentId = given (tc_parentTaskId i);
                  parent = (case parentId of None \<Rightarrow> None | Some p \<Rightarrow> lookup_task d p);
                  rootTaskId = (case tc_rootTaskId i of Some r \<Rightarrow> r | None \<Rightarrow> (case parent of Some p \<Rightarrow> tr_rootTaskId p | None \<Rightarrow> taskId));
                  taskDepth = (case tc_taskDepth i of Some n \<Rightarrow> n | None \<Rightarrow> (case parent of Some p \<Rightarrow> tr_taskDepth p + 1 | None \<Rightarrow> 0));
                  lineageIndex = int (length (filter (\<lambda>r. tr_parentTaskId r = tc_parentTaskId i) (all_tasks d)));
                  r = new_record i taskId rootTaskId taskDepth lineageIndex now
              in case guards
                   [(parentId \<noteq> None \<and> parent = None, ParentMissing),
                    (\<not> TASK_ID_PATTERN rootTaskId, InvalidTaskId),
                    (taskDepth < 0 \<or> taskDepth > MAX_DEPTH, DepthOutOfRange),
                    (opt_bad (\<lambda>p. rootTaskId = tr_rootTaskId p) parent, RootMismatch),
                    (opt_bad (\<lambda>p. taskDepth = tr_taskDepth p + 1) parent, DepthMismatch)] of
                  Inl e \<Rightarrow> Inl e
                | Inr _ \<Rightarrow> (case validateRecord r of Inl e \<Rightarrow> Inl e | Inr _ \<Rightarrow> Inr (r, d\<lparr>td_records := obj_put taskId r (td_records d)\<rparr>))))"

definition create :: "task_env \<Rightarrow> task_create_input \<Rightarrow> string \<Rightarrow> string \<Rightarrow> int \<Rightarrow> task_world \<Rightarrow> (task_error + task_record) \<times> task_world" where
  "create env i freshId eventId now w =
     (let taskId = (case tc_taskId i of Some t \<Rightarrow> t | None \<Rightarrow> freshId)
      in case guards
           [(\<not> TASK_ID_PATTERN taskId, InvalidTaskId), (\<not> SAFE_ID (tc_actorId i), InvalidName ''actorId''), (\<not> SAFE_ID (tc_nodeId i), InvalidName ''nodeId''),
            (\<not> SAFE_OPERATION (tc_operation i), InvalidName ''operation''), (\<not> SAFE_ID (tc_idempotencyKey i), InvalidName ''idempotencyKey''),
            (\<not> HASH_PATTERN (tc_payloadSha256 i), PayloadHashInvalid), (opt_bad TASK_ID_PATTERN (given (tc_parentTaskId i)), InvalidTaskId)] of
          Inl e \<Rightarrow> (Inl e, w)
        | Inr _ \<Rightarrow> then_log env eventId now (task_event_of EvAccepted) (mutate env now (create_body i taskId now) w))"

definition read_task :: "task_env \<Rightarrow> string \<Rightarrow> int \<Rightarrow> task_world \<Rightarrow> task_error + task_record option" where
  "read_task env taskId now w = (if \<not> TASK_ID_PATTERN taskId then Inl InvalidTaskId
     else (case readDocument env now w of Inl e \<Rightarrow> Inl e | Inr d \<Rightarrow> Inr (lookup_task d taskId)))"

definition assertNotQuarantined :: "task_env \<Rightarrow> string \<Rightarrow> task_error + unit" where
  "assertNotQuarantined env taskId = (case tv_quarantined env of
      None \<Rightarrow> Inl QuarantineUnreadable
    | Some q \<Rightarrow> if q taskId then Inl TaskQuarantined else Inr ())"

text \<open>An outcome member of an update: not given, removed or set.\<close>

record task_update =
  tu_state :: "task_state option"
  tu_status :: "string option"
  tu_resultRef :: "string option option"
  tu_resultHash :: "string option option"
  tu_failureClass :: "string option option"

definition find_active :: "task_document \<Rightarrow> string \<Rightarrow> task_error + task_record" where
  "find_active d taskId = (case map_of (td_records d) taskId of
      Some r \<Rightarrow> Inr r
    | None \<Rightarrow> if map_of (td_archived d) taskId \<noteq> None then Inl TaskArchived else Inl TaskNotFound)"

definition set_outcome :: "'a option option \<Rightarrow> 'a option \<Rightarrow> 'a option" where
  "set_outcome u old = (case u of None \<Rightarrow> old | Some v \<Rightarrow> v)"

definition update_record :: "task_env \<Rightarrow> task_update \<Rightarrow> int \<Rightarrow> task_record \<Rightarrow> task_error + task_record" where
  "update_record env u now r =
     (case guards
        [(opt_bad (legalTransition (tr_state r)) (tu_state u), IllegalTransition (tr_state r) (case tu_state u of Some s \<Rightarrow> s | None \<Rightarrow> tr_state r)),
         (opt_bad (\<lambda>v. \<not> opt_bad SAFE_ID v) (tu_resultRef u), InvalidName ''resultRef''),
         (opt_bad (\<lambda>v. \<not> opt_bad HASH_PATTERN v) (tu_resultHash u), ResultHashInvalid),
         (opt_bad (\<lambda>v. \<not> opt_bad SAFE_ID v) (tu_failureClass u), InvalidName ''failureClass'')] of
       Inl e \<Rightarrow> Inl e
     | Inr _ \<Rightarrow> Inr (r\<lparr>tr_state := (case tu_state u of Some s \<Rightarrow> s | None \<Rightarrow> tr_state r),
          tr_status := (case tu_state u of
              Some s \<Rightarrow> shareSafeStatus env (case given (tu_status u) of Some t \<Rightarrow> t | None \<Rightarrow> ''Task '' @ state_word s @ ''.'')
            | None \<Rightarrow> (case tu_status u of Some t \<Rightarrow> shareSafeStatus env t | None \<Rightarrow> tr_status r)),
          tr_isShareSafe := (if tu_state u \<noteq> None \<or> tu_status u \<noteq> None then True else tr_isShareSafe r),
          tr_resultRef := set_outcome (tu_resultRef u) (tr_resultRef r), tr_resultHash := set_outcome (tu_resultHash u) (tr_resultHash r),
          tr_failureClass := set_outcome (tu_failureClass u) (tr_failureClass r), tr_updatedAtUtc := Iso now\<rparr>))"

definition change_active :: "(task_record \<Rightarrow> task_error + task_record) \<Rightarrow> string \<Rightarrow> task_document \<Rightarrow> task_error + (task_record \<times> task_document)" where
  "change_active f taskId d = (case find_active d taskId of
      Inl e \<Rightarrow> Inl e
    | Inr r \<Rightarrow> (case f r of Inl e \<Rightarrow> Inl e | Inr r' \<Rightarrow> Inr (r', d\<lparr>td_records := obj_put taskId r' (td_records d)\<rparr>)))"

definition update_task :: "task_env \<Rightarrow> string \<Rightarrow> task_update \<Rightarrow> string \<Rightarrow> int \<Rightarrow> task_world \<Rightarrow> (task_error + task_record) \<times> task_world" where
  "update_task env taskId u eventId now w =
     (if \<not> TASK_ID_PATTERN taskId then (Inl InvalidTaskId, w)
      else (case assertNotQuarantined env taskId of
          Inl e \<Rightarrow> (Inl e, w)
        | Inr _ \<Rightarrow>
            if tu_status u = None \<and> tu_resultRef u = None \<and> tu_resultHash u = None \<and> tu_failureClass u = None then (Inl UpdateEmpty, w)
            else if opt_bad (\<lambda>s. length s \<le> 240) (tu_status u) then (Inl StatusTooLong, w)
            else then_log env eventId now
                   (\<lambda>r. (task_event_of (if tu_state u \<noteq> None then EvTransition else EvUpdated) r)\<lparr>te_toState := (if tu_state u \<noteq> None then Some (tr_state r) else None),
                          te_evidenceRef := tr_resultRef r, te_failureClass := tr_failureClass r\<rparr>)
                   (mutate env now (change_active (update_record env u now) taskId) w)))"

definition transition_record :: "task_env \<Rightarrow> task_state \<Rightarrow> string option \<Rightarrow> task_state list option \<Rightarrow> int \<Rightarrow> task_record \<Rightarrow> task_error + task_record" where
  "transition_record env s status expected now r =
     (if opt_bad (\<lambda>es. tr_state r \<in> set es) expected then Inl CancellationUnproven
      else if \<not> legalTransition (tr_state r) s then Inl (IllegalTransition (tr_state r) s)
      else Inr (r\<lparr>tr_state := s, tr_updatedAtUtc := Iso now,
             tr_status := shareSafeStatus env (case given status of Some t \<Rightarrow> t | None \<Rightarrow> ''Task '' @ state_word s @ ''.''), tr_isShareSafe := True\<rparr>))"

definition transition ::
  "task_env \<Rightarrow> string \<Rightarrow> task_state \<Rightarrow> string option \<Rightarrow> task_state list option \<Rightarrow> string \<Rightarrow> int \<Rightarrow> task_world \<Rightarrow> (task_error + task_record) \<times> task_world" where
  "transition env taskId s status expected eventId now w =
     (if \<not> TASK_ID_PATTERN taskId then (Inl InvalidTaskId, w)
      else (case assertNotQuarantined env taskId of
          Inl e \<Rightarrow> (Inl e, w)
        | Inr _ \<Rightarrow> then_log env eventId now (\<lambda>r. (task_event_of EvTransition r)\<lparr>te_toState := Some s\<rparr>)
                     (mutate env now (change_active (transition_record env s status expected now) taskId) w)))"

section \<open>Queries\<close>

record task_query =
  tq_taskId :: "string option"
  tq_rootTaskId :: "string option"
  tq_state :: "task_state option"
  tq_nodeId :: "string option"
  tq_actorId :: "string option"
  tq_idempotencyKey :: "string option"
  tq_updatedAfter :: "timestamp option"
  tq_includeArchived :: bool

text \<open>\<open>applyIndex\<close>: an inherited member is not iterable and throws; a missing key empties the candidates.\<close>

definition apply_index :: "string option \<Rightarrow> string list obj \<Rightarrow> task_error + string list \<Rightarrow> task_error + string list" where
  "apply_index k m c = (case (k, c) of
      (Some key, Inr ids) \<Rightarrow> (case map_of m key of
          Some allowed \<Rightarrow> Inr (filter (\<lambda>i. i \<in> set allowed) ids)
        | None \<Rightarrow> if key \<in> set PROTOTYPE_KEYS then Inl PrototypeKey else Inr [])
    | _ \<Rightarrow> c)"

definition apply_state :: "task_state option \<Rightarrow> (task_state \<times> string list) list \<Rightarrow> task_error + string list \<Rightarrow> task_error + string list" where
  "apply_state s m c = (case (s, c) of
      (Some st, Inr ids) \<Rightarrow> (case map_of m st of Some allowed \<Rightarrow> Inr (filter (\<lambda>i. i \<in> set allowed) ids) | None \<Rightarrow> Inr [])
    | _ \<Rightarrow> c)"

definition list_tasks :: "task_env \<Rightarrow> task_query \<Rightarrow> int \<Rightarrow> task_world \<Rightarrow> task_error + task_record list" where
  "list_tasks env q now w =
     (case guards
        [(opt_bad TASK_ID_PATTERN (given (tq_taskId q)), InvalidTaskId), (opt_bad TASK_ID_PATTERN (given (tq_rootTaskId q)), InvalidTaskId),
         (opt_bad SAFE_ID (given (tq_nodeId q)), InvalidName ''nodeId''), (opt_bad SAFE_ID (given (tq_actorId q)), InvalidName ''actorId''),
         (opt_bad SAFE_ID (given (tq_idempotencyKey q)), InvalidName ''idempotencyKey''),
         (opt_bad (\<lambda>t. date_parse t \<noteq> None) (tq_updatedAfter q), BadTimestampQuery)] of
       Inl e \<Rightarrow> Inl e
     | Inr _ \<Rightarrow> (case readDocument env now w of
         Inl e \<Rightarrow> Inl e
       | Inr d \<Rightarrow>
           (let ix = td_index d;
                start = (case given (tq_taskId q) of Some i \<Rightarrow> [i] | None \<Rightarrow> remdups (map fst (ix_byUpdatedAt ix)));
                candidates = apply_index (given (tq_idempotencyKey q)) (ix_byIdempotencyKey ix)
                  (apply_index (given (tq_actorId q)) (ix_byActorId ix)
                  (apply_index (given (tq_nodeId q)) (ix_byNodeId ix)
                  (apply_state (tq_state q) (ix_byState ix)
                  (apply_index (given (tq_rootTaskId q)) (ix_byRootTaskId ix) (Inr start)))))
            in case candidates of
                 Inl e \<Rightarrow> Inl e
               | Inr ids \<Rightarrow>
                   Inr (sort_key (\<lambda>r. (- stamp_ms (tr_updatedAtUtc r), locale_key (tr_taskId r)))
                     (List.map_filter (\<lambda>i.
                        case (case map_of (td_records d) i of Some r \<Rightarrow> Some r
                              | None \<Rightarrow> if tq_includeArchived q then map_of (td_archived d) i else None) of
                          None \<Rightarrow> None
                        | Some r \<Rightarrow> if tr_archivedAtUtc r \<noteq> None \<and> \<not> tq_includeArchived q then None
                            else if opt_bad (\<lambda>t. stamp_ms t < stamp_ms (tr_updatedAtUtc r)) (tq_updatedAfter q) then None
                            else Some r) ids)))))"

definition loadActiveTasks :: "task_env \<Rightarrow> int \<Rightarrow> task_world \<Rightarrow> task_error + task_record list" where
  "loadActiveTasks env now w = (case readDocument env now w of
      Inl e \<Rightarrow> Inl e
    | Inr d \<Rightarrow> Inr (filter (\<lambda>r. \<not> isTerminal (tr_state r)) (map snd (td_records d))))"

section \<open>Archiving\<close>

definition archive_body :: "string \<Rightarrow> int \<Rightarrow> task_document \<Rightarrow> task_error + (task_record \<times> task_document)" where
  "archive_body taskId now d = (case map_of (td_records d) taskId of
      None \<Rightarrow> Inl TaskNotFound
    | Some r \<Rightarrow> if \<not> isTerminal (tr_state r) then Inl NotTerminal
        else (let a = r\<lparr>tr_archivedAtUtc := Some (Iso now)\<rparr>
              in Inr (a, d\<lparr>td_archived := obj_put taskId a (td_archived d), td_records := obj_del taskId (td_records d)\<rparr>)))"

definition archive :: "task_env \<Rightarrow> string \<Rightarrow> string \<Rightarrow> int \<Rightarrow> task_world \<Rightarrow> (task_error + task_record) \<times> task_world" where
  "archive env taskId eventId now w = (if \<not> TASK_ID_PATTERN taskId then (Inl InvalidTaskId, w)
     else then_log env eventId now (task_event_of EvArchived) (mutate env now (archive_body taskId now) w))"

definition sweep_due :: "int \<Rightarrow> int \<Rightarrow> task_record \<Rightarrow> bool" where
  "sweep_due now keep r = (isTerminal (tr_state r) \<and> now - stamp_ms (tr_updatedAtUtc r) \<ge> keep)"

definition archive_due :: "int \<Rightarrow> int \<Rightarrow> task_record \<Rightarrow> bool" where
  "archive_due now keep r = (case tr_archivedAtUtc r of None \<Rightarrow> False | Some t \<Rightarrow> now - stamp_ms t \<ge> keep)"

definition sweep_body :: "int \<Rightarrow> int \<Rightarrow> int \<Rightarrow> task_document \<Rightarrow> task_error + ((nat \<times> nat) \<times> task_document)" where
  "sweep_body now terminalRetention archiveRetention d =
     (let due = filter (\<lambda>(i, r). sweep_due now terminalRetention r) (td_records d);
          archived = foldl (\<lambda>o1 (i, r). obj_put i (r\<lparr>tr_archivedAtUtc := Some (Iso now)\<rparr>) o1) (td_archived d) due;
          kept = filter (\<lambda>(i, r). \<not> archive_due now archiveRetention r) archived
      in Inr ((length due, length archived - length kept),
           d\<lparr>td_records := filter (\<lambda>(i, r). \<not> sweep_due now terminalRetention r) (td_records d), td_archived := kept\<rparr>))"

definition sweep :: "task_env \<Rightarrow> int option \<Rightarrow> int option \<Rightarrow> int \<Rightarrow> task_world \<Rightarrow> (task_error + (nat \<times> nat)) \<times> task_world" where
  "sweep env terminalRetentionMs archiveRetentionMs now w =
     (let t = (case terminalRetentionMs of Some n \<Rightarrow> n | None \<Rightarrow> 30 * 24 * 60 * 60 * 1000);
          a = (case archiveRetentionMs of Some n \<Rightarrow> n | None \<Rightarrow> 90 * 24 * 60 * 60 * 1000)
      in if t < 0 \<or> a < 0 then (Inl NegativeRetention, w) else mutate env now (sweep_body now t a) w)"

end
