(* ===== verification/Reach_Lifecycle.thy ===== *)
theory Reach_Lifecycle
  imports Reach_Tasks
begin

text \<open>
  The properties of the durable task store modelled in \<open>Reach_Tasks\<close>: every document an operation
  writes is read back, the store refines an abstract life of tasks (\<open>spec_step\<close>), one idempotency
  binding names one task, and a query answered through the indexes gives what a scan of the records
  gives.
\<close>

section \<open>Guards and validation\<close>

lemma guards_ok: "guards gs = Inr u \<longleftrightarrow> (\<forall>(bad, e) \<in> set gs. \<not> bad)"
  by (induction gs) (auto split: if_splits)

lemma guards_Inr: "guards gs = Inr u \<longleftrightarrow> list_all (\<lambda>g. \<not> fst g) gs"
  by (induction gs) (auto split: if_splits)

lemma sum_case_Inr: "(case x of Inl e \<Rightarrow> Inl (f e) | Inr y \<Rightarrow> g y) = Inr z \<longleftrightarrow> (\<exists>y. x = Inr y \<and> g y = Inr z)"
  by (cases x) auto

lemma guard_Inl_Inr: "(if b then Inl e else y) = Inr z \<longleftrightarrow> \<not> b \<and> y = Inr z"
  by simp

lemmas checks_Inr = guards_Inr sum_case_Inr guard_Inl_Inr

definition record_ok :: "task_record \<Rightarrow> bool" where
  "record_ok r = (validateRecord r = Inr ())"

lemma validateRecord_Inr: "validateRecord r = Inr u \<longleftrightarrow> record_ok r"
  by (simp add: record_ok_def)

lemma record_ok_checks:
  "record_ok r \<longleftrightarrow> tr_schemaVersion r = 1 \<and> TASK_ID_PATTERN (tr_taskId r) \<and> TASK_ID_PATTERN (tr_rootTaskId r) \<and>
     \<not> opt_bad TASK_ID_PATTERN (given (tr_parentTaskId r)) \<and> 0 \<le> tr_taskDepth r \<and> tr_taskDepth r \<le> MAX_DEPTH \<and> 0 \<le> tr_lineageIndex r \<and>
     SAFE_ID (tr_actorId r) \<and> SAFE_ID (tr_nodeId r) \<and> SAFE_OPERATION (tr_operation r) \<and>
     tr_attemptNumber r = 1 \<and> 1 \<le> tr_attemptBudget r \<and> tr_attemptBudget r \<le> 100 \<and> SAFE_ID (tr_idempotencyKey r) \<and>
     HASH_PATTERN (tr_payloadSha256 r) \<and> \<not> opt_bad HASH_PATTERN (tr_policyHash r) \<and> \<not> opt_bad HASH_PATTERN (tr_resultHash r) \<and>
     \<not> opt_bad SAFE_ID (tr_resultRef r) \<and> \<not> opt_bad SAFE_ID (tr_failureClass r) \<and>
     \<not> opt_bad (\<lambda>t. length t = 32 \<and> list_all is_hex t) (tr_traceId r) \<and> date_parse (tr_createdAtUtc r) \<noteq> None \<and>
     date_parse (tr_updatedAtUtc r) \<noteq> None \<and> tr_isShareSafe r \<and> length (tr_status r) \<le> 240 \<and>
     \<not> opt_bad authority_ok (tr_authority r) \<and> assertRepoContext (tr_repoContext r) = Inr () \<and>
     \<not> opt_bad (\<lambda>t. date_parse t \<noteq> None) (tr_archivedAtUtc r)"
  by (simp only: record_ok_def validateRecord_def checks_Inr list.pred_inject fst_conv not_not de_Morgan_disj not_less simp_thms) auto

lemma record_ok_cong:
  assumes "record_ok r"
    and "tr_schemaVersion r' = tr_schemaVersion r" "tr_taskId r' = tr_taskId r" "tr_rootTaskId r' = tr_rootTaskId r"
      "tr_parentTaskId r' = tr_parentTaskId r" "tr_taskDepth r' = tr_taskDepth r" "tr_lineageIndex r' = tr_lineageIndex r"
      "tr_actorId r' = tr_actorId r" "tr_nodeId r' = tr_nodeId r" "tr_operation r' = tr_operation r"
      "tr_attemptNumber r' = tr_attemptNumber r" "tr_attemptBudget r' = tr_attemptBudget r" "tr_createdAtUtc r' = tr_createdAtUtc r"
      "tr_idempotencyKey r' = tr_idempotencyKey r" "tr_payloadSha256 r' = tr_payloadSha256 r" "tr_policyHash r' = tr_policyHash r"
      "tr_authority r' = tr_authority r" "tr_traceId r' = tr_traceId r" "tr_repoContext r' = tr_repoContext r"
    and "\<not> opt_bad HASH_PATTERN (tr_resultHash r')" "\<not> opt_bad SAFE_ID (tr_resultRef r')" "\<not> opt_bad SAFE_ID (tr_failureClass r')"
      "date_parse (tr_updatedAtUtc r') \<noteq> None" "tr_isShareSafe r'" "length (tr_status r') \<le> 240"
      "\<not> opt_bad (\<lambda>t. date_parse t \<noteq> None) (tr_archivedAtUtc r')"
  shows "record_ok r'"
  using assms(1) unfolding record_ok_checks assms(2-19) by (simp only: assms(20-) simp_thms)

lemma record_okD:
  assumes "record_ok r"
  shows "\<not> opt_bad HASH_PATTERN (tr_resultHash r)" "\<not> opt_bad SAFE_ID (tr_resultRef r)" "\<not> opt_bad SAFE_ID (tr_failureClass r)"
    "date_parse (tr_updatedAtUtc r) \<noteq> None" "tr_isShareSafe r" "length (tr_status r) \<le> 240"
    "\<not> opt_bad (\<lambda>t. date_parse t \<noteq> None) (tr_archivedAtUtc r)" "TASK_ID_PATTERN (tr_taskId r)"
  using assms unfolding record_ok_checks by simp_all

section \<open>Objects\<close>

lemma map_of_obj_put: "map_of (obj_put k v m) = (map_of m)(k \<mapsto> v)"
proof (cases "k \<in> fst ` set m")
  case True
  have "map_of (map (\<lambda>(k', v'). if k' = k then (k', v) else (k', v')) m) = (\<lambda>x. if x = k then map_option (\<lambda>_. v) (map_of m x) else map_of m x)"
    by (induction m) auto
  with True show ?thesis by (auto simp: obj_put_def fun_eq_iff dest: weak_map_of_SomeI split: option.splits)
next
  case False
  then have "map_of m k = None" by (simp add: map_of_eq_None_iff)
  with False show ?thesis by (auto simp: obj_put_def fun_eq_iff map_add_def split: option.splits)
qed

lemma keys_obj_put: "map fst (obj_put k v m) = (if k \<in> fst ` set m then map fst m else map fst m @ [k])"
  by (auto simp: obj_put_def)

lemma distinct_obj_put: "distinct (map fst m) \<Longrightarrow> distinct (map fst (obj_put k v m))"
  by (auto simp: keys_obj_put)

lemma fst_obj_put: "fst ` set (obj_put k v m) = insert k (fst ` set m)"
  using arg_cong [OF keys_obj_put [of k v m], of set] by auto

lemma set_obj_put: "set (obj_put k v m) \<subseteq> insert (k, v) (set m)"
  by (auto simp: obj_put_def split: if_splits)

lemma map_of_obj_del: "map_of (obj_del k m) = (map_of m)(k := None)"
  by (induction m) (auto simp: obj_del_def fun_eq_iff)

lemma distinct_obj_del: "distinct (map fst m) \<Longrightarrow> distinct (map fst (obj_del k m))"
  by (simp add: obj_del_def distinct_map_filter)

lemma set_obj_del: "set (obj_del k m) = {(i, v) \<in> set m. i \<noteq> k}"
  by (auto simp: obj_del_def)

lemma map_of_in: "distinct (map fst m) \<Longrightarrow> map_of m k = Some v \<longleftrightarrow> (k, v) \<in> set m"
  by (rule map_of_eq_Some_iff)

lemma obj_merge_props:
  "distinct (map fst a) \<Longrightarrow> distinct (map fst (obj_merge a b))"
  "map_of (obj_merge a b) = map_of a ++ map_of (rev b)"
proof -
  show "distinct (map fst a) \<Longrightarrow> distinct (map fst (obj_merge a b))"
    unfolding obj_merge_def by (induction b arbitrary: a) (auto simp: distinct_obj_put)
  show "map_of (obj_merge a b) = map_of a ++ map_of (rev b)"
    unfolding obj_merge_def by (induction b arbitrary: a) (auto simp: map_of_obj_put)
qed

section \<open>Documents that read back\<close>

definition entries_ok :: "task_document \<Rightarrow> bool" where
  "entries_ok d = (distinct (map fst (td_records d)) \<and> distinct (map fst (td_archived d)) \<and>
     fst ` set (td_records d) \<inter> fst ` set (td_archived d) = {} \<and>
     (\<forall>(i, r) \<in> set (td_records d). record_ok r \<and> active_ok i r) \<and>
     (\<forall>(i, r) \<in> set (td_archived d). record_ok r \<and> archive_ok i r))"

definition doc_ok :: "task_document \<Rightarrow> bool" where
  "doc_ok d = (entries_ok d \<and> buildIndex (td_records d) (td_archived d) = Some (td_index d) \<and> date_parse (td_updatedAtUtc d) \<noteq> None)"

definition holds :: "task_world \<Rightarrow> task_document \<Rightarrow> bool" where
  "holds w d = (doc_ok d \<and> (tw_store w = Absent \<and> d = emptyDocument \<or> tw_store w = Contents (encodeDocument d)))"

lemma read_entries_map:
  "(\<forall>(i, r) \<in> set es. record_ok r \<and> ok i r) \<Longrightarrow> read_entries ok (map (\<lambda>(i, r). (i, Some r)) es) = Inr es"
  by (induction es) (auto simp: record_ok_def)

lemma read_encoded:
  assumes "doc_ok d"
  shows "normalizeDocument (encodeDocument d) legacy now = Inr d"
proof -
  have r: "read_entries active_ok (map (\<lambda>(i, r). (i, Some r)) (td_records d)) = Inr (td_records d)"
    and a: "read_entries archive_ok (map (\<lambda>(i, r). (i, Some r)) (td_archived d)) = Inr (td_archived d)"
    using assms unfolding doc_ok_def entries_ok_def by (blast intro: read_entries_map)+
  obtain t where t: "td_updatedAtUtc d = Iso t" using assms by (cases "td_updatedAtUtc d") (auto simp: doc_ok_def)
  have ix: "buildIndex (td_records d) (td_archived d) = Some (td_index d)" using assms by (simp add: doc_ok_def)
  show ?thesis by (simp add: normalizeDocument_def encodeDocument_def r a t ix)
qed

lemma readDocument_holds: "holds w d \<Longrightarrow> readDocument env now w = Inr d"
  by (auto simp: holds_def readDocument_def read_encoded)

lemma empty_doc_ok: "doc_ok emptyDocument"
  by (simp add: doc_ok_def entries_ok_def emptyDocument_def buildIndex_def emptyIndex_def sort_ids_def TASK_STATES_def)

lemma holds_unique: "holds w d \<Longrightarrow> holds w d' \<Longrightarrow> d = d'"
  using readDocument_holds by (metis sum.inject(2))

text \<open>A transaction either refuses and leaves the world alone, or commits a document that reads back.\<close>

lemma mutate_cases:
  assumes w: "holds w d" and run: "mutate env now fn w = (res, w')"
    and keep: "\<And>x d'. fn d = Inr (x, d') \<Longrightarrow> entries_ok d'"
  obtains (refused) e where "res = Inl e" "w' = w"
  | (committed) x d' d'' where "fn d = Inr (x, d')" "res = Inr x" "holds w' d''" "tw_events w' = tw_events w"
      "td_records d'' = td_records d'" "td_archived d'' = td_archived d'" "\<not> tv_compatibilityMode env"
proof (cases "tv_compatibilityMode env")
  case True
  with run have "res = Inl CompatReadOnly" "w' = w" by (simp_all add: mutate_def)
  then show thesis by (rule refused)
next
  case mode: False
  show thesis
  proof (cases "fn d")
    case (Inl e)
    with run mode readDocument_holds [OF w] have "res = Inl e" "w' = w" by (simp_all add: mutate_def)
    then show thesis by (rule refused)
  next
    case (Inr p)
    obtain x d' where p: "p = (x, d')" by (cases p)
    show thesis
    proof (cases "buildIndex (td_records d') (td_archived d')")
      case None
      with run mode Inr p readDocument_holds [OF w] have "res = Inl PrototypeKey" "w' = w" by (simp_all add: mutate_def)
      then show thesis by (rule refused)
    next
      case (Some ix)
      define d'' where "d'' = d'\<lparr>td_index := ix, td_updatedAtUtc := Iso now\<rparr>"
      define w1 where "w1 = w\<lparr>tw_store := Contents (encodeDocument d'')\<rparr>"
      have "entries_ok d''" using keep Inr p by (simp add: entries_ok_def d''_def)
      then have h: "holds w1 d''" using Some by (simp add: holds_def doc_ok_def d''_def w1_def)
      have "res = Inr x \<and> w' = w1"
        using run mode Inr p Some readDocument_holds [OF w] readDocument_holds [OF h]
        by (simp add: mutate_def d''_def [symmetric] w1_def [symmetric])
      then show thesis using committed Inr p h mode by (simp add: d''_def w1_def)
    qed
  qed
qed

section \<open>The abstract life of a task\<close>

text \<open>What the store promises, as a map from task ids to records: a record is accepted under a fresh
  id and a fresh idempotency binding; while active it changes only its outcome members, and its state
  only along a legal transition; when terminal it may be archived and, once archived, forgotten.\<close>

definition identity_of :: "task_record \<Rightarrow> task_record" where
  "identity_of r = r\<lparr>tr_state := ACCEPTED, tr_updatedAtUtc := Iso 0, tr_status := [], tr_isShareSafe := True, tr_resultRef := None,
     tr_resultHash := None, tr_failureClass := None, tr_archivedAtUtc := None\<rparr>"

definition same_key :: "task_record \<Rightarrow> task_record \<Rightarrow> bool" where
  "same_key a b = (tr_idempotencyKey a = tr_idempotencyKey b \<and> tr_actorId a = tr_actorId b \<and> tr_nodeId a = tr_nodeId b \<and> tr_operation a = tr_operation b)"

inductive spec_step :: "(string \<Rightarrow> task_record option) \<Rightarrow> (string \<Rightarrow> task_record option) \<Rightarrow> bool" where
  spec_accept: "m i = None \<Longrightarrow> tr_taskId r = i \<Longrightarrow> tr_state r = ACCEPTED \<Longrightarrow> tr_archivedAtUtc r = None \<Longrightarrow>
     (\<And>j q. m j = Some q \<Longrightarrow> \<not> same_key q r) \<Longrightarrow> spec_step m (m(i \<mapsto> r))"
| spec_change: "m i = Some r \<Longrightarrow> tr_archivedAtUtc r = None \<Longrightarrow> identity_of r' = identity_of r \<Longrightarrow> tr_archivedAtUtc r' = None \<Longrightarrow>
     tr_state r' = tr_state r \<or> legalTransition (tr_state r) (tr_state r') \<Longrightarrow> spec_step m (m(i \<mapsto> r'))"
| spec_archive: "m i = Some r \<Longrightarrow> isTerminal (tr_state r) \<Longrightarrow> tr_archivedAtUtc r = None \<Longrightarrow>
     spec_step m (m(i \<mapsto> r\<lparr>tr_archivedAtUtc := Some t\<rparr>))"
| spec_forget: "m i = Some r \<Longrightarrow> isTerminal (tr_state r) \<Longrightarrow> tr_archivedAtUtc r \<noteq> None \<Longrightarrow> spec_step m (m(i := None))"

inductive_cases spec_stepE: "spec_step m m'"

text \<open>Retention moves each key on its own.\<close>

definition retire :: "task_record option \<Rightarrow> task_record option \<Rightarrow> bool" where
  "retire x y = (x = y \<or> (\<exists>r. x = Some r \<and> isTerminal (tr_state r) \<and>
     (tr_archivedAtUtc r = None \<and> (\<exists>t. y = Some (r\<lparr>tr_archivedAtUtc := Some t\<rparr>)) \<or> y = None)))"

lemma retire_key:
  assumes "retire (m i) y"
  shows "spec_step\<^sup>*\<^sup>* m (m(i := y))"
proof -
  consider "y = m i" | r t where "m i = Some r" "isTerminal (tr_state r)" "tr_archivedAtUtc r = None" "y = Some (r\<lparr>tr_archivedAtUtc := Some t\<rparr>)"
    | r where "m i = Some r" "isTerminal (tr_state r)" "y = None"
    using assms unfolding retire_def by blast
  then show ?thesis
  proof cases
    case 1
    then show ?thesis by simp
  next
    case 2
    then show ?thesis using spec_archive by blast
  next
    case (3 r)
    show ?thesis
    proof (cases "tr_archivedAtUtc r")
      case (Some t)
      then show ?thesis using 3 spec_forget [of m i r] by simp
    next
      case None
      let ?r = "r\<lparr>tr_archivedAtUtc := Some (Iso 0)\<rparr>"
      have "spec_step m (m(i \<mapsto> ?r))" using 3 None by (intro spec_archive)
      moreover have "spec_step (m(i \<mapsto> ?r)) ((m(i \<mapsto> ?r))(i := None))" using 3 by (intro spec_forget [of _ i ?r]) simp_all
      ultimately show ?thesis using 3 by (simp add: converse_rtranclp_into_rtranclp)
    qed
  qed
qed

lemma retire_all:
  assumes "finite K" and "\<And>i. i \<in> K \<Longrightarrow> retire (m i) (m' i)" and "\<And>i. i \<notin> K \<Longrightarrow> m' i = m i"
  shows "spec_step\<^sup>*\<^sup>* m m'"
  using assms
proof (induction arbitrary: m' rule: finite_induct)
  case empty
  then have "m' = m" by (simp add: fun_eq_iff)
  then show ?case by simp
next
  case (insert k K)
  define n where "n = m'(k := m k)"
  have "spec_step\<^sup>*\<^sup>* m n"
  proof (rule insert.IH)
    show "retire (m i) (n i)" if "i \<in> K" for i using insert.prems(1) [of i] insert.hyps(2) that by (auto simp: n_def)
    show "n i = m i" if "i \<notin> K" for i using insert.prems(2) [of i] that by (auto simp: n_def)
  qed
  moreover have "spec_step\<^sup>*\<^sup>* n (n(k := m' k))" using insert.prems(1) [of k] by (intro retire_key) (simp add: n_def)
  moreover have "n(k := m' k) = m'" by (simp add: n_def)
  ultimately show ?case by (metis rtranclp_trans)
qed

section \<open>Every operation refines the abstract life\<close>

lemma entries_okD:
  assumes "entries_ok d"
  shows "distinct (map fst (td_records d))" "distinct (map fst (td_archived d))"
    and "map_of (td_records d) i = Some r \<Longrightarrow> record_ok r \<and> active_ok i r \<and> map_of (td_archived d) i = None"
    and "map_of (td_archived d) i = Some r \<Longrightarrow> record_ok r \<and> archive_ok i r \<and> map_of (td_records d) i = None"
proof -
  show dr: "distinct (map fst (td_records d))" and da: "distinct (map fst (td_archived d))" using assms by (simp_all add: entries_ok_def)
  have dis: "fst ` set (td_records d) \<inter> fst ` set (td_archived d) = {}" using assms by (simp add: entries_ok_def)
  show "record_ok r \<and> active_ok i r \<and> map_of (td_archived d) i = None" if "map_of (td_records d) i = Some r"
  proof -
    have m: "(i, r) \<in> set (td_records d)" using that by (rule map_of_SomeD)
    have "i \<notin> fst ` set (td_archived d)" using dis imageI [OF m, of fst] by auto
    with assms m show ?thesis unfolding map_of_eq_None_iff by (auto simp: entries_ok_def)
  qed
  show "record_ok r \<and> archive_ok i r \<and> map_of (td_records d) i = None" if "map_of (td_archived d) i = Some r"
  proof -
    have m: "(i, r) \<in> set (td_archived d)" using that by (rule map_of_SomeD)
    have "i \<notin> fst ` set (td_records d)" using dis imageI [OF m, of fst] by auto
    with assms m show ?thesis unfolding map_of_eq_None_iff by (auto simp: entries_ok_def)
  qed
qed

lemma entries_okI:
  assumes "distinct (map fst (td_records d))" and "distinct (map fst (td_archived d))"
    and "\<And>i r. map_of (td_records d) i = Some r \<Longrightarrow> record_ok r \<and> active_ok i r \<and> map_of (td_archived d) i = None"
    and "\<And>i r. map_of (td_archived d) i = Some r \<Longrightarrow> record_ok r \<and> archive_ok i r"
  shows "entries_ok d"
proof -
  have "i \<notin> fst ` set (td_archived d)" if "(i, r) \<in> set (td_records d)" for i r
    using assms(3) [of i r] map_of_in [OF assms(1)] that by (auto simp: map_of_eq_None_iff)
  then show ?thesis
    using assms map_of_in [OF assms(1)] map_of_in [OF assms(2)] unfolding entries_ok_def by fastforce
qed

lemma map_of_rev_keys: "distinct (map fst m) \<Longrightarrow> map_of (rev m) = map_of m"
proof (rule ext)
  fix k
  assume d: "distinct (map fst m)"
  then have "distinct (map fst (rev m))" by (simp add: rev_map [symmetric])
  then have "map_of (rev m) k = Some v \<longleftrightarrow> map_of m k = Some v" for v
    using d by (simp add: map_of_in)
  then show "map_of (rev m) k = map_of m k" by (metis option.exhaust)
qed

lemma all_tasks_lookup:
  assumes "entries_ok d"
  shows "r \<in> set (all_tasks d) \<longleftrightarrow> (\<exists>i. lookup_task d i = Some r)"
proof -
  note D = entries_okD [OF assms]
  have m: "map_of (obj_merge (td_records d) (td_archived d)) = map_of (td_records d) ++ map_of (td_archived d)"
    using obj_merge_props(2) [of "td_records d" "td_archived d"] map_of_rev_keys [OF D(2)] by simp
  have "r \<in> set (all_tasks d) \<longleftrightarrow> (\<exists>i. map_of (obj_merge (td_records d) (td_archived d)) i = Some r)"
    using map_of_in [OF obj_merge_props(1) [OF D(1)], where v = r] by (force simp: all_tasks_def)
  moreover have "map_of (obj_merge (td_records d) (td_archived d)) i = Some r \<longleftrightarrow> lookup_task d i = Some r" for i
    using D(3,4) [of i] unfolding m by (cases "map_of (td_records d) i"; cases "map_of (td_archived d) i") (auto simp: lookup_task_def map_add_def)
  ultimately show ?thesis by simp
qed

lemma create_body_InrD:
  assumes run: "create_body i taskId now d = Inr (r, d')"
  obtains root depth lin where "r = new_record i taskId root depth lin now" "record_ok r"
    "d' = d\<lparr>td_records := obj_put taskId r (td_records d)\<rparr>" "lookup_task d taskId = None"
    "\<not> list_ex (\<lambda>r. tr_idempotencyKey r = tc_idempotencyKey i \<and> tr_actorId r = tc_actorId i \<and> tr_nodeId r = tc_nodeId i \<and> tr_operation r = tc_operation i) (all_tasks d)"
proof (cases "lookup_task d taskId")
  case Some
  with run show ?thesis by (simp add: create_body_def split: if_splits)
next
  case None
  with run show ?thesis
    unfolding create_body_def Let_def
    by (simp only: option.case checks_Inr validateRecord_Inr Inr_inject Pair_inject sum.inject prod.inject)
       (elim conjE exE, hypsubst, rule that, (rule refl | assumption | simp only:)+)
qed

lemma create_body_effect:
  assumes d: "entries_ok d" and run: "create_body i taskId now d = Inr (r, d')"
  shows "entries_ok d' \<and> spec_step (lookup_task d) (lookup_task d') \<and> lookup_task d' taskId = Some r"
proof -
  obtain root depth lin where r: "r = new_record i taskId root depth lin now"
    and v: "record_ok r" and d': "d' = d\<lparr>td_records := obj_put taskId r (td_records d)\<rparr>"
    and fresh: "lookup_task d taskId = None"
    and key: "\<not> list_ex (\<lambda>r. tr_idempotencyKey r = tc_idempotencyKey i \<and> tr_actorId r = tc_actorId i \<and> tr_nodeId r = tc_nodeId i \<and> tr_operation r = tc_operation i) (all_tasks d)"
    using run by (rule create_body_InrD)
  have a: "active_ok taskId r" "tr_state r = ACCEPTED" "tr_taskId r = taskId" "tr_archivedAtUtc r = None" by (simp_all add: r new_record_def active_ok_def)
  have free: "map_of (td_records d) taskId = None" "map_of (td_archived d) taskId = None"
    using fresh by (auto simp: lookup_task_def split: option.splits)
  have ok: "entries_ok d'"
    using entries_okD [OF d] v a(1) free by (intro entries_okI) (auto simp: d' map_of_obj_put distinct_obj_put split: if_splits)
  have view: "lookup_task d' = (lookup_task d)(taskId \<mapsto> r)" by (auto simp: d' lookup_task_def map_of_obj_put fun_eq_iff split: option.split)
  have "\<not> same_key q r" if "lookup_task d j = Some q" for j q
    using key that all_tasks_lookup [OF d] by (auto simp: list_ex_iff same_key_def r new_record_def)
  then have "spec_step (lookup_task d) (lookup_task d')" unfolding view using fresh a by (intro spec_accept)
  with ok view show ?thesis by simp
qed

lemma change_active_effect:
  assumes d: "entries_ok d" and run: "change_active f taskId d = Inr (r', d')"
    and f: "\<And>r r'. f r = Inr r' \<Longrightarrow> record_ok r \<Longrightarrow> record_ok r' \<and> identity_of r' = identity_of r \<and> tr_archivedAtUtc r' = tr_archivedAtUtc r \<and>
      (tr_state r' = tr_state r \<or> legalTransition (tr_state r) (tr_state r'))"
  shows "entries_ok d' \<and> spec_step (lookup_task d) (lookup_task d') \<and> lookup_task d' taskId = Some r' \<and> (\<exists>r. lookup_task d taskId = Some r \<and> f r = Inr r')"
proof -
  obtain r where r: "map_of (td_records d) taskId = Some r" and r': "f r = Inr r'" and d': "d' = d\<lparr>td_records := obj_put taskId r' (td_records d)\<rparr>"
    using run unfolding change_active_def find_active_def by (auto split: option.splits sum.splits if_splits)
  note D = entries_okD [OF d]
  have r_ok: "record_ok r" "active_ok taskId r" "map_of (td_archived d) taskId = None" using D(3) [OF r] by auto
  note F = f [OF r' r_ok(1)]
  have "tr_taskId r' = tr_taskId r" using F by (auto simp: identity_of_def task_record.defs dest: arg_cong [where f = tr_taskId])
  then have a: "active_ok taskId r'" using r_ok F by (simp add: active_ok_def)
  have ok: "entries_ok d'"
    using D F a r_ok(3) by (intro entries_okI) (auto simp: d' map_of_obj_put distinct_obj_put split: if_splits)
  have view: "lookup_task d' = (lookup_task d)(taskId \<mapsto> r')" by (auto simp: d' lookup_task_def map_of_obj_put fun_eq_iff split: option.split)
  have look: "lookup_task d taskId = Some r" using r by (simp add: lookup_task_def)
  have "tr_archivedAtUtc r = None" using r_ok(2) by (simp add: active_ok_def)
  then have "spec_step (lookup_task d) (lookup_task d')" unfolding view using look F by (intro spec_change [of _ _ r]) auto
  with ok view look r' show ?thesis by auto
qed

lemma update_record_keeps:
  assumes "update_record env u now r = Inr r'" and "record_ok r"
  shows "record_ok r' \<and> identity_of r' = identity_of r \<and> tr_archivedAtUtc r' = tr_archivedAtUtc r \<and>
     (tr_state r' = tr_state r \<or> legalTransition (tr_state r) (tr_state r'))"
proof -
  note D = record_okD [OF assms(2)]
  have g: "\<not> opt_bad (legalTransition (tr_state r)) (tu_state u)" "\<not> opt_bad (\<lambda>v. \<not> opt_bad SAFE_ID v) (tu_resultRef u)"
    "\<not> opt_bad (\<lambda>v. \<not> opt_bad HASH_PATTERN v) (tu_resultHash u)" "\<not> opt_bad (\<lambda>v. \<not> opt_bad SAFE_ID v) (tu_failureClass u)"
    and r': "r' = r\<lparr>tr_state := (case tu_state u of Some s \<Rightarrow> s | None \<Rightarrow> tr_state r),
          tr_status := (case tu_state u of
              Some s \<Rightarrow> shareSafeStatus env (case given (tu_status u) of Some t \<Rightarrow> t | None \<Rightarrow> ''Task '' @ state_word s @ ''.'')
            | None \<Rightarrow> (case tu_status u of Some t \<Rightarrow> shareSafeStatus env t | None \<Rightarrow> tr_status r)),
          tr_isShareSafe := (if tu_state u \<noteq> None \<or> tu_status u \<noteq> None then True else tr_isShareSafe r),
          tr_resultRef := set_outcome (tu_resultRef u) (tr_resultRef r), tr_resultHash := set_outcome (tu_resultHash u) (tr_resultHash r),
          tr_failureClass := set_outcome (tu_failureClass u) (tr_failureClass r), tr_updatedAtUtc := Iso now\<rparr>"
    using assms(1) unfolding update_record_def guards.simps
    by (cases "tu_state u"; cases "tu_status u"; simp split: sum.splits if_splits)+
  have out: "\<not> opt_bad P (set_outcome v x)" if "\<not> opt_bad (\<lambda>v. \<not> opt_bad P v) v" "\<not> opt_bad P x" for P :: "string \<Rightarrow> bool" and v x
    using that by (auto simp: set_outcome_def opt_bad_def split: option.splits)
  have "record_ok r'"
    by (rule record_ok_cong [OF assms(2)])
      (use D in \<open>simp_all add: r' out [OF g(2) D(2)] out [OF g(3) D(1)] out [OF g(4) D(3)] shareSafeStatus_def split: option.split\<close>)
  moreover have "identity_of r' = identity_of r" "tr_archivedAtUtc r' = tr_archivedAtUtc r" by (simp_all add: r' identity_of_def)
  moreover have "tr_state r' = tr_state r \<or> legalTransition (tr_state r) (tr_state r')"
    using g(1) by (cases "tu_state u") (simp_all add: r' opt_bad_def)
  ultimately show ?thesis by simp
qed

lemma transition_record_keeps:
  assumes "transition_record env s status expected now r = Inr r'" and "record_ok r"
  shows "record_ok r' \<and> identity_of r' = identity_of r \<and> tr_archivedAtUtc r' = tr_archivedAtUtc r \<and>
     (tr_state r' = tr_state r \<or> legalTransition (tr_state r) (tr_state r'))"
proof -
  note D = record_okD [OF assms(2)]
  have l: "legalTransition (tr_state r) s" and r': "r' = r\<lparr>tr_state := s, tr_updatedAtUtc := Iso now,
      tr_status := shareSafeStatus env (case given status of Some t \<Rightarrow> t | None \<Rightarrow> ''Task '' @ state_word s @ ''.''), tr_isShareSafe := True\<rparr>"
    using assms(1) unfolding transition_record_def by (auto split: if_splits)
  have "record_ok r'" by (rule record_ok_cong [OF assms(2)]) (use D in \<open>simp_all add: r' shareSafeStatus_def\<close>)
  then show ?thesis using l by (simp add: r' identity_of_def)
qed

text \<open>One operation: a run of abstract steps that never rewrites history.\<close>

definition keeps_history :: "(string \<Rightarrow> task_record option) \<Rightarrow> (string \<Rightarrow> task_record option) \<Rightarrow> bool" where
  "keeps_history m m' = (\<forall>i r. m i = Some r \<longrightarrow> (m' i = None \<and> isTerminal (tr_state r)) \<or>
     (\<exists>r'. m' i = Some r' \<and> identity_of r' = identity_of r \<and> (tr_state r' = tr_state r \<or> legalTransition (tr_state r) (tr_state r'))))"

definition lawful :: "(string \<Rightarrow> task_record option) \<Rightarrow> (string \<Rightarrow> task_record option) \<Rightarrow> bool" where
  "lawful m m' = (spec_step\<^sup>*\<^sup>* m m' \<and> keeps_history m m')"

lemma lawful_refl: "lawful m m"
  by (auto simp: lawful_def keeps_history_def)

lemma identity_archived [simp]: "identity_of (r\<lparr>tr_archivedAtUtc := t\<rparr>) = identity_of r"
  by (simp add: identity_of_def)

lemma keeps_history_upd:
  assumes "\<And>r. m i = Some r \<Longrightarrow> (y = None \<and> isTerminal (tr_state r)) \<or>
     (\<exists>r'. y = Some r' \<and> identity_of r' = identity_of r \<and> (tr_state r' = tr_state r \<or> legalTransition (tr_state r) (tr_state r')))"
  shows "keeps_history m (m(i := y))"
  unfolding keeps_history_def
proof (intro allI impI)
  fix j r assume "m j = Some r"
  with assms [of r] show "((m(i := y)) j = None \<and> isTerminal (tr_state r)) \<or> (\<exists>r'. (m(i := y)) j = Some r' \<and> identity_of r' = identity_of r \<and>
      (tr_state r' = tr_state r \<or> legalTransition (tr_state r) (tr_state r')))"
    by (cases "j = i") auto
qed

lemma lawful_step:
  assumes "spec_step m m'"
  shows "lawful m m'"
proof -
  from assms have "keeps_history m m'"
    by (cases rule: spec_step.cases) (auto intro!: keeps_history_upd)
  with assms show ?thesis by (simp add: lawful_def)
qed

lemma lawful_retire:
  assumes "finite K" and "\<And>i. retire (m i) (m' i)" and "\<And>i. i \<notin> K \<Longrightarrow> m' i = m i"
  shows "lawful m m'"
proof -
  have "spec_step\<^sup>*\<^sup>* m m'" using assms by (intro retire_all)
  moreover have "keeps_history m m'"
    unfolding keeps_history_def
  proof (intro allI impI)
    fix i r assume "m i = Some r"
    with assms(2) [of i] show "(m' i = None \<and> isTerminal (tr_state r)) \<or>
     (\<exists>r'. m' i = Some r' \<and> identity_of r' = identity_of r \<and> (tr_state r' = tr_state r \<or> legalTransition (tr_state r) (tr_state r')))"
      by (cases "m' i = m i") (auto simp: retire_def)
  qed
  ultimately show ?thesis by (simp add: lawful_def)
qed

lemma update_body_effect:
  assumes "entries_ok d" and "change_active (update_record env u now) t d = Inr (r', d')"
  shows "entries_ok d' \<and> spec_step (lookup_task d) (lookup_task d') \<and> lookup_task d' t = Some r' \<and>
    (\<exists>r. lookup_task d t = Some r \<and> update_record env u now r = Inr r')"
  by (rule change_active_effect [OF assms]) (rule update_record_keeps)

lemma transition_body_effect:
  assumes "entries_ok d" and "change_active (transition_record env s status expected now) t d = Inr (r', d')"
  shows "entries_ok d' \<and> spec_step (lookup_task d) (lookup_task d') \<and> lookup_task d' t = Some r' \<and>
    (\<exists>r. lookup_task d t = Some r \<and> transition_record env s status expected now r = Inr r')"
  by (rule change_active_effect [OF assms]) (rule transition_record_keeps)

lemma record_ok_archived: "record_ok r \<Longrightarrow> record_ok (r\<lparr>tr_archivedAtUtc := Some (Iso now)\<rparr>)"
proof -
  assume r: "record_ok r"
  note D = record_okD [OF r]
  show ?thesis by (rule record_ok_cong [OF r]) (use D in \<open>simp_all add: opt_bad_def\<close>)
qed

lemma archive_body_effect:
  assumes d: "entries_ok d" and run: "archive_body taskId now d = Inr (a, d')"
  shows "entries_ok d' \<and> spec_step (lookup_task d) (lookup_task d')"
proof -
  obtain r where r: "map_of (td_records d) taskId = Some r" "isTerminal (tr_state r)" and a: "a = r\<lparr>tr_archivedAtUtc := Some (Iso now)\<rparr>"
    and d': "d' = d\<lparr>td_archived := obj_put taskId a (td_archived d), td_records := obj_del taskId (td_records d)\<rparr>"
    using run unfolding archive_body_def Let_def by (auto split: option.splits if_splits)
  note D = entries_okD [OF d]
  have ok: "record_ok r" "active_ok taskId r" using D(3) [OF r(1)] by auto
  have "record_ok a \<and> archive_ok taskId a" using record_ok_archived [OF ok(1)] ok(2) r(2) by (simp add: a archive_ok_def active_ok_def)
  then have e: "entries_ok d'"
    using D by (intro entries_okI) (auto simp: d' map_of_obj_put map_of_obj_del distinct_obj_put distinct_obj_del split: if_splits)
  have view: "lookup_task d' = (lookup_task d)(taskId \<mapsto> a)"
    by (auto simp: d' lookup_task_def map_of_obj_put map_of_obj_del fun_eq_iff split: option.split)
  have "spec_step (lookup_task d) (lookup_task d')"
    unfolding view a using r ok(2) by (intro spec_archive) (simp_all add: lookup_task_def active_ok_def)
  with e show ?thesis by simp
qed

lemma map_of_filter_vals:
  "distinct (map fst m) \<Longrightarrow> map_of (filter (\<lambda>(i, r). P r) m) k = (case map_of m k of Some r \<Rightarrow> if P r then Some r else None | None \<Rightarrow> None)"
  by (induction m) (auto simp: map_of_eq_None_iff split: option.split dest: map_of_SomeD)

lemma foldl_put_props:
  assumes "distinct (map fst es)"
  shows "distinct (map fst m) \<Longrightarrow> distinct (map fst (foldl (\<lambda>o1 (i, r). obj_put i (f r) o1) m es))"
    and "map_of (foldl (\<lambda>o1 (i, r). obj_put i (f r) o1) m es) k = (case map_of es k of Some r \<Rightarrow> Some (f r) | None \<Rightarrow> map_of m k)"
proof -
  show "distinct (map fst m) \<Longrightarrow> distinct (map fst (foldl (\<lambda>o1 (i, r). obj_put i (f r) o1) m es))"
    by (induction es arbitrary: m) (auto simp: distinct_obj_put)
  show "map_of (foldl (\<lambda>o1 (i, r). obj_put i (f r) o1) m es) k = (case map_of es k of Some r \<Rightarrow> Some (f r) | None \<Rightarrow> map_of m k)"
    using assms
  proof (induction es arbitrary: m)
    case (Cons e es)
    obtain i r where e: "e = (i, r)" by (cases e)
    have "map_of es i = None" using Cons.prems by (simp add: e map_of_eq_None_iff)
    with Cons.IH [of "obj_put i (f r) m"] Cons.prems show ?case by (auto simp: e map_of_obj_put split: option.split)
  qed simp
qed

lemma sweep_body_effect:
  assumes d: "entries_ok d" and run: "sweep_body now t a d = Inr (x, d')"
  shows "entries_ok d' \<and> lawful (lookup_task d) (lookup_task d') \<and> (\<forall>k. retire (lookup_task d k) (lookup_task d' k))"
proof -
  note D = entries_okD [OF d]
  define due where "due = filter (\<lambda>(i, r). sweep_due now t r) (td_records d)"
  define arch where "arch = foldl (\<lambda>o1 (i, r). obj_put i (r\<lparr>tr_archivedAtUtc := Some (Iso now)\<rparr>) o1) (td_archived d) due"
  have rec: "td_records d' = filter (\<lambda>(i, r). \<not> sweep_due now t r) (td_records d)"
    and arc: "td_archived d' = filter (\<lambda>(i, r). \<not> archive_due now a r) arch"
    using run unfolding sweep_body_def Let_def due_def arch_def by auto
  have dd: "distinct (map fst due)" using D(1) by (simp add: due_def distinct_map_filter)
  have da: "distinct (map fst arch)" unfolding arch_def by (rule foldl_put_props(1) [OF dd D(2)])
  have R: "map_of (td_records d') k = (case map_of (td_records d) k of Some r \<Rightarrow> if sweep_due now t r then None else Some r | None \<Rightarrow> None)" for k
    unfolding rec using map_of_filter_vals [OF D(1), of "\<lambda>r. \<not> sweep_due now t r" k] by (simp split: option.split)
  have A: "map_of arch k = (case map_of (td_records d) k of
      Some r \<Rightarrow> if sweep_due now t r then Some (r\<lparr>tr_archivedAtUtc := Some (Iso now)\<rparr>) else map_of (td_archived d) k | None \<Rightarrow> map_of (td_archived d) k)" for k
  proof -
    have "map_of due k = (case map_of (td_records d) k of Some r \<Rightarrow> if sweep_due now t r then Some r else None | None \<Rightarrow> None)"
      unfolding due_def by (rule map_of_filter_vals [OF D(1)])
    then show ?thesis unfolding arch_def foldl_put_props(2) [OF dd] by (simp split: option.split)
  qed
  have A': "map_of (td_archived d') k = (case map_of arch k of Some r \<Rightarrow> if archive_due now a r then None else Some r | None \<Rightarrow> None)" for k
    unfolding arc using map_of_filter_vals [OF da, of "\<lambda>r. \<not> archive_due now a r" k] by (simp split: option.split)
  have ok: "entries_ok d'"
  proof (rule entries_okI)
    show "distinct (map fst (td_records d'))" "distinct (map fst (td_archived d'))" using D(1) da by (simp_all add: rec arc distinct_map_filter)
    show "record_ok r \<and> active_ok k r \<and> map_of (td_archived d') k = None" if "map_of (td_records d') k = Some r" for k r
      using that D(3) [of k r] by (auto simp: R A A' split: option.splits if_splits)
    show "record_ok r \<and> archive_ok k r" if "map_of (td_archived d') k = Some r" for k r
    proof (cases "map_of (td_records d) k")
      case None
      then show ?thesis using that D(4) [of k r] by (auto simp: A A' split: option.splits if_splits)
    next
      case (Some q)
      then have q: "record_ok q" "active_ok k q" "map_of (td_archived d) k = None" using D(3) by auto
      then have "r = q\<lparr>tr_archivedAtUtc := Some (Iso now)\<rparr>" "isTerminal (tr_state q)"
        using that Some by (auto simp: A A' sweep_due_def split: option.splits if_splits)
      then show ?thesis using q record_ok_archived [OF q(1)] by (simp add: archive_ok_def active_ok_def)
    qed
  qed
  have ret: "retire (lookup_task d k) (lookup_task d' k)" for k
  proof (cases "map_of (td_records d) k")
    case (Some q)
    then have "map_of (td_archived d) k = None" "tr_archivedAtUtc q = None" using D(3) by (auto simp: active_ok_def)
    then show ?thesis using Some by (auto simp: lookup_task_def R A A' retire_def sweep_due_def split: option.splits if_splits)
  next
    case None
    show ?thesis
    proof (cases "map_of (td_archived d) k")
      case (Some q)
      then have "isTerminal (tr_state q)" using D(4) by (auto simp: archive_ok_def)
      then show ?thesis using None Some by (auto simp: lookup_task_def R A A' retire_def split: option.splits if_splits)
    qed (use None in \<open>simp add: lookup_task_def R A A' retire_def\<close>)
  qed
  have "lawful (lookup_task d) (lookup_task d')"
  proof (rule lawful_retire)
    show "finite (dom (lookup_task d))"
    proof (rule finite_subset)
      show "dom (lookup_task d) \<subseteq> dom (map_of (td_records d)) \<union> dom (map_of (td_archived d))"
        by (auto simp: lookup_task_def split: option.splits)
    qed (simp add: finite_dom_map_of)
    show "lookup_task d' k = lookup_task d k" if "k \<notin> dom (lookup_task d)" for k
    proof -
      have "map_of (td_records d) k = None" "map_of (td_archived d) k = None"
        using that by (auto simp: lookup_task_def dom_def split: option.splits)
      then show ?thesis by (simp add: lookup_task_def R A A')
    qed
  qed (rule ret)
  with ok ret show ?thesis by blast
qed

section \<open>Runs of the store\<close>

datatype task_op =
    DoCreate task_create_input string
  | DoUpdate string task_update
  | DoTransition string task_state "string option" "task_state list option"
  | DoArchive string
  | DoSweep "int option" "int option"

fun task_exec :: "task_env \<Rightarrow> int \<Rightarrow> string \<Rightarrow> task_op \<Rightarrow> task_world \<Rightarrow> task_error option \<times> task_world" where
  "task_exec env now eventId (DoCreate i freshId) w = (case create env i freshId eventId now w of (Inl e, w') \<Rightarrow> (Some e, w') | (Inr _, w') \<Rightarrow> (None, w'))"
| "task_exec env now eventId (DoUpdate t u) w = (case update_task env t u eventId now w of (Inl e, w') \<Rightarrow> (Some e, w') | (Inr _, w') \<Rightarrow> (None, w'))"
| "task_exec env now eventId (DoTransition t s st ex) w = (case transition env t s st ex eventId now w of (Inl e, w') \<Rightarrow> (Some e, w') | (Inr _, w') \<Rightarrow> (None, w'))"
| "task_exec env now eventId (DoArchive t) w = (case archive env t eventId now w of (Inl e, w') \<Rightarrow> (Some e, w') | (Inr _, w') \<Rightarrow> (None, w'))"
| "task_exec env now eventId (DoSweep a b) w = (case sweep env a b now w of (Inl e, w') \<Rightarrow> (Some e, w') | (Inr _, w') \<Rightarrow> (None, w'))"

definition empty_task_world :: task_world where
  "empty_task_world = \<lparr>tw_store = Absent, tw_events = []\<rparr>"

inductive task_reach :: "task_world \<Rightarrow> bool" where
  task_start: "task_reach empty_task_world"
| task_next: "task_reach w \<Longrightarrow> task_reach (snd (task_exec env now eventId op w))"

text \<open>What a transaction does to the map, when its body refines a run of abstract steps.\<close>

lemma mutate_refines:
  assumes w: "holds w d" and run: "mutate env now fn w = (res, w')"
    and body: "\<And>x d'. fn d = Inr (x, d') \<Longrightarrow> entries_ok d' \<and> lawful (lookup_task d) (lookup_task d')"
  shows "\<exists>d'. holds w' d' \<and> lawful (lookup_task d) (lookup_task d') \<and> (\<forall>e. res = Inl e \<longrightarrow> w' = w)"
proof (rule mutate_cases [OF w run])
  fix x d' assume "fn d = Inr (x, d')"
  then show "entries_ok d'" using body by blast
next
  fix e assume "res = Inl e" "w' = w"
  then show ?thesis using w lawful_refl by blast
next
  fix x d' d''
  assume c: "fn d = Inr (x, d')" "res = Inr x" "holds w' d''" "td_records d'' = td_records d'" "td_archived d'' = td_archived d'"
  have "lookup_task d'' = lookup_task d'" by (simp add: lookup_task_def c(4,5) fun_eq_iff split: option.split)
  with c body [OF c(1)] show ?thesis by auto
qed

lemma holds_events [simp]: "holds (w\<lparr>tw_events := js\<rparr>) d = holds w d"
  by (simp add: holds_def)

lemma then_log_effect:
  "then_log env eventId now ev (res, w) = (res', w') \<Longrightarrow> holds w d \<Longrightarrow>
     holds w' d \<and> (\<forall>e. res' = Inl e \<longrightarrow> res = Inl e \<and> w' = w \<or> (\<exists>x. e = TaskEventError x))"
  by (auto simp: then_log_def log_event_def split: sum.splits prod.splits)

definition refines :: "task_world \<Rightarrow> task_document \<Rightarrow> task_error option \<Rightarrow> task_world \<Rightarrow> bool" where
  "refines w d e w' = (\<exists>d'. holds w' d' \<and> lawful (lookup_task d) (lookup_task d') \<and> (e = None \<or> w' = w \<or> (\<exists>x. e = Some (TaskEventError x))))"

lemma refines_refused: "holds w d \<Longrightarrow> refines w d e w"
  unfolding refines_def using lawful_refl by blast

lemma logged_refines:
  assumes "holds w d" and "\<And>x d'. fn d = Inr (x, d') \<Longrightarrow> entries_ok d' \<and> lawful (lookup_task d) (lookup_task d')"
    and l: "then_log env eventId now ev (mutate env now fn w) = (res', w')"
  shows "refines w d (case res' of Inl e \<Rightarrow> Some e | Inr _ \<Rightarrow> None) w'"
proof -
  obtain res w1 where m: "mutate env now fn w = (res, w1)" by fastforce
  obtain d' where d': "holds w1 d'" "lawful (lookup_task d) (lookup_task d')" "\<forall>e. res = Inl e \<longrightarrow> w1 = w"
    using mutate_refines [OF assms(1) m] assms(2) by blast
  from then_log_effect [OF l [unfolded m] d'(1)] d' show ?thesis by (auto simp: refines_def split: sum.split)
qed

lemma task_exec_refines:
  assumes w: "holds w d" and run: "task_exec env now eventId op w = (e, w')"
  shows "refines w d e w'"
proof -
  have d: "entries_ok d" using w by (simp add: holds_def doc_ok_def)
  show ?thesis
  proof (cases op)
    case (DoCreate i freshId)
    have b: "entries_ok d' \<and> lawful (lookup_task d) (lookup_task d')" if "create_body i t now d = Inr (x, d')" for t x d'
      using create_body_effect [OF d that] by (blast intro: lawful_step)
    have L: "refines w d (case res' of Inl e \<Rightarrow> Some e | Inr _ \<Rightarrow> None) w'"
      if "then_log env eventId now ev (mutate env now (create_body i t now) w) = (res', w')" for t ev res' w'
      by (rule logged_refines [OF w b that])
    show ?thesis
      using run refines_refused [OF w]
      unfolding DoCreate task_exec.simps create_def Let_def by (auto dest!: L split: sum.splits prod.splits if_splits)
  next
    case (DoUpdate t u)
    have b: "entries_ok d' \<and> lawful (lookup_task d) (lookup_task d')" if "change_active (update_record env u now) t d = Inr (x, d')" for x d'
      using update_body_effect [OF d that] by (blast intro: lawful_step)
    have L: "refines w d (case res' of Inl e \<Rightarrow> Some e | Inr _ \<Rightarrow> None) w'"
      if "then_log env eventId now ev (mutate env now (change_active (update_record env u now) t) w) = (res', w')" for ev res' w'
      by (rule logged_refines [OF w b that])
    show ?thesis
      using run refines_refused [OF w]
      unfolding DoUpdate task_exec.simps update_task_def by (auto dest!: L split: sum.splits prod.splits if_splits)
  next
    case (DoTransition t s st ex)
    have b: "entries_ok d' \<and> lawful (lookup_task d) (lookup_task d')" if "change_active (transition_record env s st ex now) t d = Inr (x, d')" for x d'
      using transition_body_effect [OF d that] by (blast intro: lawful_step)
    have L: "refines w d (case res' of Inl e \<Rightarrow> Some e | Inr _ \<Rightarrow> None) w'"
      if "then_log env eventId now ev (mutate env now (change_active (transition_record env s st ex now) t) w) = (res', w')" for ev res' w'
      by (rule logged_refines [OF w b that])
    show ?thesis
      using run refines_refused [OF w]
      unfolding DoTransition task_exec.simps transition_def by (auto dest!: L split: sum.splits prod.splits if_splits)
  next
    case (DoArchive t)
    have b: "entries_ok d' \<and> lawful (lookup_task d) (lookup_task d')" if "archive_body t now d = Inr (x, d')" for x d'
      using archive_body_effect [OF d that] by (blast intro: lawful_step)
    have L: "refines w d (case res' of Inl e \<Rightarrow> Some e | Inr _ \<Rightarrow> None) w'"
      if "then_log env eventId now ev (mutate env now (archive_body t now) w) = (res', w')" for ev res' w'
      by (rule logged_refines [OF w b that])
    show ?thesis
      using run refines_refused [OF w]
      unfolding DoArchive task_exec.simps archive_def by (auto dest!: L split: sum.splits prod.splits if_splits)
  next
    case (DoSweep a b)
    show ?thesis
    proof -
      have M: "\<exists>d'. holds w1 d' \<and> lawful (lookup_task d) (lookup_task d') \<and> (\<forall>e. res = Inl e \<longrightarrow> w1 = w)"
        if "mutate env now (sweep_body now t a) w = (res, w1)" for t a res w1
        by (rule mutate_refines [OF w that]) (use sweep_body_effect [OF d] in blast)
      show ?thesis
        using run M refines_refused [OF w]
        unfolding DoSweep task_exec.simps sweep_def Let_def by (fastforce simp: refines_def split: sum.splits prod.splits if_splits)
    qed
  qed
qed

lemma task_reach_holds: "task_reach w \<Longrightarrow> \<exists>d. holds w d"
proof (induction rule: task_reach.induct)
  case task_start
  show ?case by (rule exI [of _ emptyDocument]) (simp add: holds_def empty_doc_ok empty_task_world_def)
next
  case (task_next w env now eventId op)
  then obtain d where d: "holds w d" by blast
  from task_exec_refines [OF d prod.collapse [symmetric], of env now eventId op] show ?case by (auto simp: refines_def)
qed

section \<open>Properties of the store\<close>

text \<open>
  C12: The task store implements the abstract life of tasks: after any sequence of operations the
  document on disk is readable, each further operation that changes it is a run of abstract steps,
  a record keeps its identity and moves only along legal transitions, a record that disappears was
  terminal, and an operation that reports an error other than a failed event append changed nothing.
\<close>

theorem task_store_refines_lifecycle:
  assumes "task_reach w" and "task_exec env now eventId op w = (e, w')"
  shows "\<exists>d d'. readDocument env' now' w = Inr d \<and> readDocument env' now' w' = Inr d' \<and>
     spec_step\<^sup>*\<^sup>* (lookup_task d) (lookup_task d') \<and> keeps_history (lookup_task d) (lookup_task d') \<and>
     (e = None \<or> w' = w \<or> (\<exists>x. e = Some (TaskEventError x)))"
proof -
  obtain d where d: "holds w d" using task_reach_holds [OF assms(1)] by blast
  from task_exec_refines [OF d assms(2)] obtain d' where "holds w' d'" "lawful (lookup_task d) (lookup_task d')"
      "e = None \<or> w' = w \<or> (\<exists>x. e = Some (TaskEventError x))"
    unfolding refines_def by blast
  with d show ?thesis by (auto simp: readDocument_holds lawful_def)
qed

definition ex_task_env :: task_env where
  "ex_task_env = \<lparr>tv_redact = id, tv_bytes = (\<lambda>_. 1), tv_quarantined = Some (\<lambda>_. False), tv_compatibilityMode = False\<rparr>"

theorem task_store_refines_lifecycle_witness:
  "\<exists>d d'. readDocument ex_task_env 1 empty_task_world = Inr d \<and>
     readDocument ex_task_env 1 (snd (task_exec ex_task_env 0 ''e'' (DoSweep None None) empty_task_world)) = Inr d' \<and>
     spec_step\<^sup>*\<^sup>* (lookup_task d) (lookup_task d')"
  using task_store_refines_lifecycle [OF task_start prod.collapse [symmetric], of ex_task_env 1 ex_task_env 0 "''e''" "DoSweep None None"]
  by blast

lemma identity_key: "identity_of a = identity_of b \<Longrightarrow> same_key a c = same_key b c \<and> same_key c a = same_key c b"
  by (cases a; cases b) (auto simp: identity_of_def same_key_def)

definition one_per_key :: "(string \<Rightarrow> task_record option) \<Rightarrow> bool" where
  "one_per_key m = (\<forall>i j a b. m i = Some a \<longrightarrow> m j = Some b \<longrightarrow> same_key a b \<longrightarrow> i = j)"

lemma same_key_sym: "same_key a b = same_key b a"
  by (auto simp: same_key_def)

lemma one_per_key_change:
  assumes "one_per_key m" and "m i = Some r" and "identity_of r' = identity_of r"
  shows "one_per_key (m(i \<mapsto> r'))"
  using assms(1,2) identity_key [OF assms(3)] unfolding one_per_key_def by (auto split: if_splits)

lemma spec_step_one_per_key: "spec_step m m' \<Longrightarrow> one_per_key m \<Longrightarrow> one_per_key m'"
proof (induction rule: spec_step.induct)
  case (spec_accept m i r)
  then show ?case unfolding one_per_key_def by (auto simp: same_key_sym split: if_splits)
next
  case (spec_change m i r r')
  then show ?case by (blast intro: one_per_key_change)
next
  case (spec_archive m i r t)
  show ?case by (rule one_per_key_change [OF spec_archive(4,1)]) simp
next
  case (spec_forget m i r)
  then show ?case unfolding one_per_key_def by (auto split: if_splits)
qed

lemma task_reach_one_per_key: "task_reach w \<Longrightarrow> holds w d \<Longrightarrow> one_per_key (lookup_task d)"
proof (induction arbitrary: d rule: task_reach.induct)
  case task_start
  have "holds empty_task_world emptyDocument" by (simp add: holds_def empty_doc_ok empty_task_world_def)
  with task_start have "d = emptyDocument" by (rule holds_unique)
  then show ?case by (simp add: one_per_key_def lookup_task_def emptyDocument_def)
next
  case (task_next w env now eventId op)
  obtain d0 where d0: "holds w d0" using task_reach_holds [OF task_next.hyps] by blast
  from task_exec_refines [OF d0 prod.collapse [symmetric], of env now eventId op] obtain d1
    where d1: "holds (snd (task_exec env now eventId op w)) d1" "spec_step\<^sup>*\<^sup>* (lookup_task d0) (lookup_task d1)"
    by (auto simp: refines_def lawful_def)
  have "d = d1" using holds_unique [OF task_next.prems d1(1)] .
  from d1(2) task_next.IH [OF d0] have "one_per_key (lookup_task d1)"
    by (induction rule: rtranclp_induct) (auto intro: spec_step_one_per_key)
  then show ?case using \<open>d = d1\<close> by simp
qed

text \<open>
  C13: No two stored tasks, active or archived, have the same idempotency key, actor, node and
  operation, so a repeated request cannot start a second execution while the first is remembered.
\<close>

theorem idempotency_binding_unique:
  assumes "task_reach w" and "readDocument env now w = Inr d"
    and "lookup_task d i = Some a" and "lookup_task d j = Some b"
    and "tr_idempotencyKey a = tr_idempotencyKey b" and "tr_actorId a = tr_actorId b" and "tr_nodeId a = tr_nodeId b" and "tr_operation a = tr_operation b"
  shows "i = j"
proof -
  obtain d0 where d0: "holds w d0" using task_reach_holds [OF assms(1)] by blast
  then have "d = d0" using readDocument_holds [OF d0, of env now] assms(2) by simp
  with task_reach_one_per_key [OF assms(1) d0] assms(3-8) show ?thesis
    unfolding one_per_key_def same_key_def by blast
qed


section \<open>A store with one task\<close>

definition ex_task_id :: string where
  "ex_task_id = ''rtsk_0123456789a_0123456789abcdef''"

definition ex_create :: task_create_input where
  "ex_create = \<lparr>tc_taskId = Some ex_task_id, tc_actorId = ''actor'', tc_nodeId = ''node'', tc_operation = ''dex.file.read'', tc_idempotencyKey = ''key'',
     tc_payloadSha256 = replicate 64 (CHR ''a''), tc_policyHash = None, tc_authority = None, tc_traceId = None, tc_parentTaskId = None,
     tc_rootTaskId = None, tc_taskDepth = None, tc_attemptBudget = None, tc_safetyClass = None, tc_mutationLevel = None, tc_repoContext = None\<rparr>"

definition ex_record :: task_record where
  "ex_record = new_record ex_create ex_task_id ex_task_id 0 0 5"

definition ex_task_world :: task_world where
  "ex_task_world = snd (task_exec ex_task_env 5 ''e1'' (DoCreate ex_create []) empty_task_world)"

lemma ex_task_world_reach: "task_reach ex_task_world"
  unfolding ex_task_world_def by (intro task_reach.intros)

lemma ex_task_guards:
  "TASK_ID_PATTERN ex_task_id" "SAFE_ID ''actor''" "SAFE_ID ''node''" "SAFE_OPERATION ''dex.file.read''" "SAFE_ID ''key''"
  "HASH_PATTERN (replicate 64 (CHR ''a''))"
  by code_simp+

lemma ex_create_guards:
  "tc_taskId ex_create = Some ex_task_id" "SAFE_ID (tc_actorId ex_create)" "SAFE_ID (tc_nodeId ex_create)" "SAFE_OPERATION (tc_operation ex_create)"
  "SAFE_ID (tc_idempotencyKey ex_create)" "HASH_PATTERN (tc_payloadSha256 ex_create)" "tc_parentTaskId ex_create = None"
  "tc_rootTaskId ex_create = None" "tc_taskDepth ex_create = None"
  by (simp_all add: ex_create_def ex_task_guards)

lemma ex_record_ok: "record_ok ex_record"
  unfolding record_ok_def validateRecord_def ex_record_def new_record_def
  by (simp add: ex_create_def ex_task_guards opt_bad_def given_def assertRepoContext_def MAX_DEPTH_def)

lemma ex_create_body:
  "create_body ex_create ex_task_id 5 emptyDocument = Inr (ex_record, emptyDocument\<lparr>td_records := [(ex_task_id, ex_record)]\<rparr>)"
  using ex_record_ok
  by (simp add: create_body_def lookup_task_def all_tasks_def emptyDocument_def ex_create_guards ex_task_guards given_def opt_bad_def MAX_DEPTH_def
      obj_put_def record_ok_def ex_record_def obj_merge_def Let_def)

lemma ex_index: "buildIndex [(ex_task_id, ex_record)] [] \<noteq> None"
proof -
  have "tr_taskId ex_record = ex_task_id" "tr_rootTaskId ex_record = ex_task_id" "tr_nodeId ex_record = ''node''" "tr_actorId ex_record = ''actor''"
      "tr_idempotencyKey ex_record = ''key''"
    by (simp_all add: ex_record_def new_record_def ex_create_def)
  then show ?thesis by (simp add: buildIndex_def addIndex_def index_push_def emptyIndex_def PROTOTYPE_KEYS_def ex_task_id_def)
qed

lemma then_log_store: "tw_store (snd (then_log env eventId now ev p)) = tw_store (snd p)"
  by (auto simp: then_log_def log_event_def split: prod.split sum.split)

lemma mutate_commits:
  assumes w: "holds w d" and m: "\<not> tv_compatibilityMode env" and f: "fn d = Inr (x, d')" and e: "entries_ok d'"
    and ix: "buildIndex (td_records d') (td_archived d') = Some ix"
  shows "mutate env now fn w = (Inr x, w\<lparr>tw_store := Contents (encodeDocument (d'\<lparr>td_index := ix, td_updatedAtUtc := Iso now\<rparr>))\<rparr>)"
proof -
  define d'' where "d'' = d'\<lparr>td_index := ix, td_updatedAtUtc := Iso now\<rparr>"
  have "entries_ok d''" using e by (simp add: entries_ok_def d''_def)
  then have h: "holds (w\<lparr>tw_store := Contents (encodeDocument d'')\<rparr>) d''" using ix by (simp add: holds_def doc_ok_def d''_def)
  show ?thesis
    using readDocument_holds [OF w, of env now] readDocument_holds [OF h, of env now] m f ix
    by (simp add: mutate_def d''_def [symmetric])
qed

lemma ex_task_holds: "\<exists>ix. holds ex_task_world (emptyDocument\<lparr>td_records := [(ex_task_id, ex_record)], td_index := ix, td_updatedAtUtc := Iso 5\<rparr>)"
proof -
  obtain ix where ix: "buildIndex [(ex_task_id, ex_record)] [] = Some ix" using ex_index by blast
  let ?d = "emptyDocument\<lparr>td_records := [(ex_task_id, ex_record)]\<rparr>"
  have h0: "holds empty_task_world emptyDocument" by (simp add: holds_def empty_doc_ok empty_task_world_def)
  have act: "active_ok ex_task_id ex_record" by (simp add: active_ok_def ex_record_def new_record_def)
  have e: "entries_ok ?d" using ex_record_ok act by (simp add: entries_ok_def emptyDocument_def)
  have ixd: "buildIndex (td_records ?d) (td_archived ?d) = Some ix" using ix by (simp add: emptyDocument_def)
  have "tw_store ex_task_world = tw_store (snd (mutate ex_task_env 5 (create_body ex_create ex_task_id 5) empty_task_world))"
  proof -
    have "create ex_task_env ex_create [] ''e1'' 5 empty_task_world =
       then_log ex_task_env ''e1'' 5 (task_event_of EvAccepted) (mutate ex_task_env 5 (create_body ex_create ex_task_id 5) empty_task_world)"
      by (simp add: create_def ex_create_guards ex_task_guards given_def opt_bad_def)
    moreover have "snd (task_exec ex_task_env 5 ''e1'' (DoCreate ex_create []) empty_task_world) = snd (create ex_task_env ex_create [] ''e1'' 5 empty_task_world)"
      by (simp split: prod.split sum.split)
    ultimately show ?thesis unfolding ex_task_world_def by (simp only: then_log_store)
  qed
  also have "\<dots> = Contents (encodeDocument (?d\<lparr>td_index := ix, td_updatedAtUtc := Iso 5\<rparr>))"
    using mutate_commits [where fn = "create_body ex_create ex_task_id 5", OF h0 _ ex_create_body e ixd, of ex_task_env 5] by (simp add: ex_task_env_def)
  finally have "holds ex_task_world (?d\<lparr>td_index := ix, td_updatedAtUtc := Iso 5\<rparr>)"
    using e ixd by (simp add: holds_def doc_ok_def entries_ok_def)
  then show ?thesis by blast
qed

lemma ex_task_doc:
  obtains d where "readDocument ex_task_env 9 ex_task_world = Inr d" "lookup_task d ex_task_id = Some ex_record" "all_tasks d = [ex_record]"
proof -
  from ex_task_holds obtain ix where h: "holds ex_task_world (emptyDocument\<lparr>td_records := [(ex_task_id, ex_record)], td_index := ix, td_updatedAtUtc := Iso 5\<rparr>)" ..
  show thesis
    by (rule that [OF readDocument_holds [OF h]]) (simp_all add: lookup_task_def all_tasks_def emptyDocument_def obj_merge_def obj_put_def)
qed

theorem idempotency_binding_unique_witness:
  "\<exists>d. readDocument ex_task_env 9 ex_task_world = Inr d \<and> lookup_task d ex_task_id = Some ex_record \<and> ex_task_id = tr_taskId ex_record"
proof -
  obtain d where d: "readDocument ex_task_env 9 ex_task_world = Inr d" and r: "lookup_task d ex_task_id = Some ex_record" by (rule ex_task_doc)
  have "tr_taskId ex_record = ex_task_id" by (simp add: ex_record_def new_record_def)
  then have "lookup_task d (tr_taskId ex_record) = Some ex_record" using r by simp
  from idempotency_binding_unique [OF ex_task_world_reach d r this] d r show ?thesis by blast
qed

section \<open>Queries through the indexes\<close>

definition index_covers :: "(task_record \<Rightarrow> string) \<Rightarrow> string list obj \<Rightarrow> task_record list \<Rightarrow> bool" where
  "index_covers f m rs = (\<forall>k. set (case map_of m k of Some ids \<Rightarrow> ids | None \<Rightarrow> []) = tr_taskId ` {r \<in> set rs. f r = k})"

definition covers_states :: "(task_state \<times> string list) list \<Rightarrow> task_record list \<Rightarrow> bool" where
  "covers_states m rs = (map fst m = TASK_STATES \<and> (\<forall>s ids. map_of m s = Some ids \<longrightarrow> set ids = tr_taskId ` {r \<in> set rs. tr_state r = s}))"

definition indexed :: "task_index \<Rightarrow> task_record list \<Rightarrow> bool" where
  "indexed ix rs = (index_covers tr_rootTaskId (ix_byRootTaskId ix) rs \<and> index_covers tr_nodeId (ix_byNodeId ix) rs \<and> index_covers tr_actorId (ix_byActorId ix) rs \<and>
     index_covers tr_idempotencyKey (ix_byIdempotencyKey ix) rs \<and> covers_states (ix_byState ix) rs \<and> fst ` set (ix_byUpdatedAt ix) = tr_taskId ` set rs)"

lemma index_covers_push: "index_covers f m rs \<Longrightarrow> index_push m (f r) (tr_taskId r) = Some m' \<Longrightarrow> index_covers f m' (rs @ [r])"
  unfolding index_covers_def
proof (rule allI)
  fix k
  assume c: "\<forall>k. set (case map_of m k of Some ids \<Rightarrow> ids | None \<Rightarrow> []) = tr_taskId ` {r \<in> set rs. f r = k}"
    and p: "index_push m (f r) (tr_taskId r) = Some m'"
  have m': "map_of m' = (map_of m)(f r \<mapsto> (case map_of m (f r) of Some ids \<Rightarrow> ids | None \<Rightarrow> []) @ [tr_taskId r])"
    using p by (auto simp: index_push_def map_of_obj_put split: option.splits if_splits)
  show "set (case map_of m' k of Some ids \<Rightarrow> ids | None \<Rightarrow> []) = tr_taskId ` {x \<in> set (rs @ [r]). f x = k}"
    using c [rule_format, of k] unfolding m' by (cases "k = f r") auto
qed

lemma map_of_state_push:
  "map_of (map (\<lambda>(s, ids). (s, if s = t then ids @ [i] else ids)) m) s = map_option (\<lambda>ids. if s = t then ids @ [i] else ids) (map_of m s)"
  by (induction m) auto

lemma covers_states_push:
  "covers_states m rs \<Longrightarrow> covers_states (map (\<lambda>(s, ids). (s, if s = tr_state r then ids @ [tr_taskId r] else ids)) m) (rs @ [r])"
proof -
  assume c: "covers_states m rs"
  have keys: "map fst (map (\<lambda>(s, ids). (s, if s = tr_state r then ids @ [tr_taskId r] else ids)) m) = map fst m"
    by (induction m) auto
  show ?thesis
    unfolding covers_states_def keys
  proof (intro conjI allI impI)
    show "map fst m = TASK_STATES" using c by (simp add: covers_states_def)
    fix s ids
    assume "map_of (map (\<lambda>(s, ids). (s, if s = tr_state r then ids @ [tr_taskId r] else ids)) m) s = Some ids"
    then obtain old where "map_of m s = Some old" "ids = (if s = tr_state r then old @ [tr_taskId r] else old)"
      by (auto simp: map_of_state_push)
    moreover from this c have "set old = tr_taskId ` {x \<in> set rs. tr_state x = s}" by (simp add: covers_states_def)
    ultimately show "set ids = tr_taskId ` {x \<in> set (rs @ [r]). tr_state x = s}" by auto
  qed
qed

lemma indexed_add:
  assumes "indexed ix rs" and "addIndex ix r p = Some ix'"
  shows "indexed ix' (rs @ [r])"
proof -
  obtain rt nd ac ik where
      p: "index_push (ix_byRootTaskId ix) (tr_rootTaskId r) (tr_taskId r) = Some rt" "index_push (ix_byNodeId ix) (tr_nodeId r) (tr_taskId r) = Some nd"
        "index_push (ix_byActorId ix) (tr_actorId r) (tr_taskId r) = Some ac" "index_push (ix_byIdempotencyKey ix) (tr_idempotencyKey r) (tr_taskId r) = Some ik"
      and ix': "ix' = \<lparr>ix_byTaskId = obj_put (tr_taskId r) p (ix_byTaskId ix), ix_byRootTaskId = rt,
              ix_byState = map (\<lambda>(s, ids). (s, if s = tr_state r then ids @ [tr_taskId r] else ids)) (ix_byState ix),
              ix_byNodeId = nd, ix_byActorId = ac, ix_byIdempotencyKey = ik,
              ix_byUpdatedAt = ix_byUpdatedAt ix @ [(tr_taskId r, tr_updatedAtUtc r)]\<rparr>"
    using assms(2) unfolding addIndex_def by (auto split: option.splits)
  show ?thesis
    using assms(1) p unfolding indexed_def ix' task_index.simps by (simp add: covers_states_push image_Un) (blast intro: index_covers_push)
qed

lemma indexed_addAll: "indexed ix rs \<Longrightarrow> addAll p new ix = Some ix' \<Longrightarrow> indexed ix' (rs @ new)"
proof (induction new arbitrary: ix rs)
  case (Cons r new)
  then obtain ix1 where "addIndex ix r p = Some ix1" "addAll p new ix1 = Some ix'" by (auto split: option.splits)
  with Cons.IH [OF indexed_add [OF Cons.prems(1)]] show ?case by simp
qed simp

lemma indexed_empty: "indexed emptyIndex []"
proof -
  have "ids = []" if "map_of (map (\<lambda>s. (s, [])) TASK_STATES) s = Some ids" for s and ids :: "string list"
    using map_of_SomeD [OF that] by auto
  then show ?thesis by (auto simp: indexed_def emptyIndex_def index_covers_def covers_states_def comp_def)
qed

lemma index_covers_sort: "index_covers f m rs \<Longrightarrow> index_covers f (sort_ids m) rs"
proof -
  have "map_of (sort_ids m) k = map_option sort (map_of m k)" for k by (induction m) (auto simp: sort_ids_def)
  then show "index_covers f m rs \<Longrightarrow> index_covers f (sort_ids m) rs" by (auto simp: index_covers_def split: option.splits)
qed

lemma covers_states_sort: "covers_states m rs \<Longrightarrow> covers_states (map (\<lambda>(s, ids). (s, sort ids)) m) rs"
proof -
  have "map_of (map (\<lambda>(s, ids). (s, sort ids)) m) k = map_option sort (map_of m k)" for k by (induction m) auto
  moreover have "map fst (map (\<lambda>(s, ids). (s, sort ids)) m) = map fst m" by (induction m) auto
  ultimately show "covers_states m rs \<Longrightarrow> covers_states (map (\<lambda>(s, ids). (s, sort ids)) m) rs" by (auto simp: covers_states_def)
qed

lemma buildIndex_indexed:
  assumes "buildIndex recs arch = Some ix"
  shows "indexed ix (map snd recs @ map snd arch)"
proof -
  obtain ix1 ix2 where a: "addAll Active (map snd recs) emptyIndex = Some ix1" "addAll Archive (map snd arch) ix1 = Some ix2"
    and ix: "ix = ix2\<lparr>ix_byRootTaskId := sort_ids (ix_byRootTaskId ix2), ix_byNodeId := sort_ids (ix_byNodeId ix2),
              ix_byActorId := sort_ids (ix_byActorId ix2), ix_byIdempotencyKey := sort_ids (ix_byIdempotencyKey ix2),
              ix_byState := map (\<lambda>(s, ids). (s, sort ids)) (ix_byState ix2),
              ix_byUpdatedAt := sort_key (\<lambda>(i, t). (stamp_ms t, locale_key i)) (ix_byUpdatedAt ix2)\<rparr>"
    using assms unfolding buildIndex_def by (auto split: option.splits)
  have "indexed ix2 (map snd recs @ map snd arch)"
    using indexed_addAll [OF indexed_addAll [OF indexed_empty a(1)] a(2)] by simp
  then show ?thesis unfolding ix indexed_def by (simp add: index_covers_sort covers_states_sort)
qed


definition in_index :: "task_record list \<Rightarrow> (task_record \<Rightarrow> 'k) \<Rightarrow> 'k option \<Rightarrow> string \<Rightarrow> bool" where
  "in_index rs f k i = (case k of None \<Rightarrow> True | Some key \<Rightarrow> i \<in> tr_taskId ` {r \<in> set rs. f r = key})"

lemma in_index_simps:
  "in_index rs f None = (\<lambda>_. True)" "in_index rs f (Some key) = (\<lambda>i. i \<in> tr_taskId ` {r \<in> set rs. f r = key})"
  by (auto simp: in_index_def)

lemma apply_index_filter:
  assumes "index_covers f m rs" and "apply_index k m c = Inr ids'"
  obtains ids where "c = Inr ids" "ids' = filter (in_index rs f k) ids"
proof -
  obtain ids where c: "c = Inr ids" using assms(2) by (cases c) (auto simp: apply_index_def split: option.splits)
  show thesis
  proof (cases k)
    case None
    with assms(2) c that show thesis by (simp add: apply_index_def in_index_simps)
  next
    case (Some key)
    have "set (case map_of m key of Some ids \<Rightarrow> ids | None \<Rightarrow> []) = tr_taskId ` {r \<in> set rs. f r = key}"
      using assms(1) by (simp add: index_covers_def)
    moreover have "ids' = filter (\<lambda>i. i \<in> set (case map_of m key of Some ids \<Rightarrow> ids | None \<Rightarrow> [])) ids"
      using assms(2) c Some by (auto simp: apply_index_def split: option.splits if_splits)
    ultimately show thesis using that c Some by (simp add: in_index_simps)
  qed
qed

lemma apply_state_filter:
  assumes "covers_states m rs" and "apply_state k m c = Inr ids'"
  obtains ids where "c = Inr ids" "ids' = filter (in_index rs tr_state k) ids"
proof -
  obtain ids where c: "c = Inr ids" using assms(2) by (cases c) (auto simp: apply_state_def split: option.splits)
  show thesis
  proof (cases k)
    case None
    with assms(2) c that show thesis by (simp add: apply_state_def in_index_simps)
  next
    case (Some s)
    have "s \<in> fst ` set m" using assms(1) arg_cong [of "map fst m" TASK_STATES set] by (cases s) (auto simp: covers_states_def TASK_STATES_def)
    then obtain allowed where a: "map_of m s = Some allowed" using map_of_eq_None_iff [of m s] by (cases "map_of m s") auto
    then have "set allowed = tr_taskId ` {r \<in> set rs. tr_state r = s}" using assms(1) by (auto simp: covers_states_def)
    with assms(2) c Some a that show thesis by (simp add: apply_state_def in_index_simps)
  qed
qed

text \<open>A query as a condition on one record.\<close>

definition matches_query :: "task_query \<Rightarrow> task_record \<Rightarrow> bool" where
  "matches_query q r =
     (\<not> opt_bad (\<lambda>i. tr_taskId r = i) (given (tq_taskId q)) \<and> \<not> opt_bad (\<lambda>i. tr_rootTaskId r = i) (given (tq_rootTaskId q)) \<and>
      \<not> opt_bad (\<lambda>s. tr_state r = s) (tq_state q) \<and> \<not> opt_bad (\<lambda>i. tr_nodeId r = i) (given (tq_nodeId q)) \<and>
      \<not> opt_bad (\<lambda>i. tr_actorId r = i) (given (tq_actorId q)) \<and> \<not> opt_bad (\<lambda>i. tr_idempotencyKey r = i) (given (tq_idempotencyKey q)) \<and>
      \<not> opt_bad (\<lambda>t. stamp_ms t < stamp_ms (tr_updatedAtUtc r)) (tq_updatedAfter q) \<and> (tr_archivedAtUtc r = None \<or> tq_includeArchived q))"

definition list_order :: "task_record \<Rightarrow> int \<times> nat list" where
  "list_order r = (- stamp_ms (tr_updatedAtUtc r), locale_key (tr_taskId r))"

lemma lookup_by_record:
  assumes "entries_ok d"
  shows "r \<in> set (map snd (td_records d) @ map snd (td_archived d)) \<longleftrightarrow> lookup_task d (tr_taskId r) = Some r"
    and "lookup_task d i = Some r \<Longrightarrow> tr_taskId r = i"
proof -
  note D = entries_okD [OF assms]
  show k: "lookup_task d i = Some r \<Longrightarrow> tr_taskId r = i" for i r
    using D(3) [of i r] D(4) [of i r] by (auto simp: lookup_task_def active_ok_def archive_ok_def split: option.splits)
  have "(\<exists>i. lookup_task d i = Some r) \<longleftrightarrow> r \<in> snd ` set (td_records d) \<union> snd ` set (td_archived d)"
  proof
    assume "\<exists>i. lookup_task d i = Some r"
    then show "r \<in> snd ` set (td_records d) \<union> snd ` set (td_archived d)"
      by (force simp: lookup_task_def split: option.splits dest: map_of_SomeD)
  next
    assume "r \<in> snd ` set (td_records d) \<union> snd ` set (td_archived d)"
    then consider i where "map_of (td_records d) i = Some r" | i where "map_of (td_archived d) i = Some r"
      using map_of_in [OF D(1)] map_of_in [OF D(2)] by force
    then show "\<exists>i. lookup_task d i = Some r"
    proof cases
      case (1 i)
      then have "lookup_task d i = Some r" by (simp add: lookup_task_def)
      then show ?thesis ..
    next
      case (2 i)
      with D(4) [of i r] have "lookup_task d i = Some r" by (simp add: lookup_task_def)
      then show ?thesis ..
    qed
  qed
  with k show "r \<in> set (map snd (td_records d) @ map snd (td_archived d)) \<longleftrightarrow> lookup_task d (tr_taskId r) = Some r" by auto
qed


lemma same_task:
  assumes "entries_ok d" and "lookup_task d (tr_taskId r) = Some r"
  shows "tr_taskId r \<in> tr_taskId ` {x \<in> set (map snd (td_records d) @ map snd (td_archived d)). P x} \<longleftrightarrow> P r"
proof
  assume "tr_taskId r \<in> tr_taskId ` {x \<in> set (map snd (td_records d) @ map snd (td_archived d)). P x}"
  then obtain x where x: "x \<in> set (map snd (td_records d) @ map snd (td_archived d))" "P x" "tr_taskId r = tr_taskId x" by auto
  from x(1) have "lookup_task d (tr_taskId x) = Some x" by (simp only: lookup_by_record(1) [OF assms(1)])
  with assms(2) have "Some r = Some x" by (simp only: x(3))
  with x(2) show "P r" by blast
next
  assume "P r"
  moreover have "r \<in> set (map snd (td_records d) @ map snd (td_archived d))" using assms by (simp only: lookup_by_record(1))
  ultimately show "tr_taskId r \<in> tr_taskId ` {x \<in> set (map snd (td_records d) @ map snd (td_archived d)). P x}" by blast
qed

lemma set_map_filter_iff: "y \<in> set (List.map_filter f xs) \<longleftrightarrow> (\<exists>x \<in> set xs. f x = Some y)"
  by (induction xs) (auto simp: List.map_filter_simps split: option.split)

lemma distinct_map_filter_inv:
  assumes "distinct xs" and inv: "\<And>x y. f x = Some y \<Longrightarrow> g y = x"
  shows "distinct (List.map_filter f xs)"
  using assms(1)
proof (induction xs)
  case (Cons x xs)
  have "y \<notin> set (List.map_filter f xs)" if "f x = Some y" for y
    using inv [OF that] Cons.prems inv unfolding set_map_filter_iff by auto
  with Cons show ?case by (simp add: List.map_filter_simps split: option.split)
qed (simp add: List.map_filter_simps)

text \<open>The record a candidate id stands for in the answer.\<close>

definition pick_task :: "task_query \<Rightarrow> task_document \<Rightarrow> string \<Rightarrow> task_record option" where
  "pick_task q d i =
     (case (case map_of (td_records d) i of Some r \<Rightarrow> Some r | None \<Rightarrow> if tq_includeArchived q then map_of (td_archived d) i else None) of
        None \<Rightarrow> None
      | Some r \<Rightarrow> if tr_archivedAtUtc r \<noteq> None \<and> \<not> tq_includeArchived q then None
          else if opt_bad (\<lambda>t. stamp_ms t < stamp_ms (tr_updatedAtUtc r)) (tq_updatedAfter q) then None
          else Some r)"

lemma pick_task_iff:
  assumes "entries_ok d"
  shows "pick_task q d i = Some r \<longleftrightarrow> lookup_task d i = Some r \<and> (tr_archivedAtUtc r = None \<or> tq_includeArchived q) \<and>
     \<not> opt_bad (\<lambda>t. stamp_ms t < stamp_ms (tr_updatedAtUtc r)) (tq_updatedAfter q)"
proof -
  note D = entries_okD [OF assms]
  show ?thesis
  proof (cases "map_of (td_records d) i")
    case None
    show ?thesis
    proof (cases "map_of (td_archived d) i")
      case (Some a)
      then have "tr_archivedAtUtc a \<noteq> None" using D(4) by (auto simp: archive_ok_def)
      then show ?thesis using None Some by (auto simp: pick_task_def lookup_task_def)
    qed (use None in \<open>simp add: pick_task_def lookup_task_def\<close>)
  next
    case (Some a)
    then have "tr_archivedAtUtc a = None" using D(3) by (auto simp: active_ok_def)
    then show ?thesis using Some by (auto simp: pick_task_def lookup_task_def)
  qed
qed

lemma list_candidates:
  assumes d: "entries_ok d" and ix: "indexed (td_index d) (map snd (td_records d) @ map snd (td_archived d))"
    and run: "apply_index (given (tq_idempotencyKey q)) (ix_byIdempotencyKey (td_index d))
                  (apply_index (given (tq_actorId q)) (ix_byActorId (td_index d))
                  (apply_index (given (tq_nodeId q)) (ix_byNodeId (td_index d))
                  (apply_state (tq_state q) (ix_byState (td_index d))
                  (apply_index (given (tq_rootTaskId q)) (ix_byRootTaskId (td_index d)) (Inr start))))) = Inr ids"
  shows "lookup_task d (tr_taskId r) = Some r \<Longrightarrow> tr_taskId r \<in> set ids \<longleftrightarrow> tr_taskId r \<in> set start \<and>
      \<not> opt_bad (\<lambda>i. tr_rootTaskId r = i) (given (tq_rootTaskId q)) \<and> \<not> opt_bad (\<lambda>s. tr_state r = s) (tq_state q) \<and>
      \<not> opt_bad (\<lambda>i. tr_nodeId r = i) (given (tq_nodeId q)) \<and> \<not> opt_bad (\<lambda>i. tr_actorId r = i) (given (tq_actorId q)) \<and>
      \<not> opt_bad (\<lambda>i. tr_idempotencyKey r = i) (given (tq_idempotencyKey q))"
    and "distinct start \<Longrightarrow> distinct ids"
proof -
  let ?rs = "map snd (td_records d) @ map snd (td_archived d)"
  have I: "index_covers tr_rootTaskId (ix_byRootTaskId (td_index d)) ?rs" "index_covers tr_nodeId (ix_byNodeId (td_index d)) ?rs"
      "index_covers tr_actorId (ix_byActorId (td_index d)) ?rs" "index_covers tr_idempotencyKey (ix_byIdempotencyKey (td_index d)) ?rs"
      "covers_states (ix_byState (td_index d)) ?rs"
    using ix by (simp_all only: indexed_def)
  have ids: "ids = filter (in_index ?rs tr_idempotencyKey (given (tq_idempotencyKey q))) (filter (in_index ?rs tr_actorId (given (tq_actorId q)))
      (filter (in_index ?rs tr_nodeId (given (tq_nodeId q))) (filter (in_index ?rs tr_state (tq_state q))
        (filter (in_index ?rs tr_rootTaskId (given (tq_rootTaskId q))) start))))"
    using run
    by (elim apply_index_filter [OF I(4)] apply_index_filter [OF I(3)] apply_index_filter [OF I(2)] apply_state_filter [OF I(5)]
          apply_index_filter [OF I(1)] sum.inject(2) [THEN iffD1, elim_format]) (simp only:)
  show "distinct start \<Longrightarrow> distinct ids" by (simp add: ids)
  assume r: "lookup_task d (tr_taskId r) = Some r"
  have K: "in_index ?rs f k (tr_taskId r) \<longleftrightarrow> \<not> opt_bad (\<lambda>i. f r = i) k" for f :: "task_record \<Rightarrow> string" and k
    by (cases k) (simp_all only: in_index_def opt_bad_def same_task [OF d r] option.simps simp_thms)
  have S: "in_index ?rs tr_state k (tr_taskId r) \<longleftrightarrow> \<not> opt_bad (\<lambda>i. tr_state r = i) k" for k
    by (cases k) (simp_all only: in_index_def opt_bad_def same_task [OF d r] option.simps simp_thms)
  show "tr_taskId r \<in> set ids \<longleftrightarrow> tr_taskId r \<in> set start \<and>
      \<not> opt_bad (\<lambda>i. tr_rootTaskId r = i) (given (tq_rootTaskId q)) \<and> \<not> opt_bad (\<lambda>s. tr_state r = s) (tq_state q) \<and>
      \<not> opt_bad (\<lambda>i. tr_nodeId r = i) (given (tq_nodeId q)) \<and> \<not> opt_bad (\<lambda>i. tr_actorId r = i) (given (tq_actorId q)) \<and>
      \<not> opt_bad (\<lambda>i. tr_idempotencyKey r = i) (given (tq_idempotencyKey q))"
    by (simp only: ids set_filter mem_Collect_eq K S conj_ac)
qed

text \<open>
  C14: A query answered through the redundant indexes gives exactly what a scan of the records gives:
  the answer has no duplicates, holds the stored records that match every filter of the query, and is
  in the order of the newest update first.
\<close>

theorem list_is_scan:
  assumes "task_reach w" and "readDocument env now w = Inr d" and "list_tasks env q now w = Inr rs"
  shows "distinct rs \<and> set rs = {r. lookup_task d (tr_taskId r) = Some r \<and> matches_query q r} \<and> sorted (map list_order rs)"
proof -
  obtain d0 where d0: "holds w d0" using task_reach_holds [OF assms(1)] by blast
  then have h: "holds w d" using readDocument_holds [OF d0, of env now] assms(2) by simp
  then have e: "entries_ok d" and b: "buildIndex (td_records d) (td_archived d) = Some (td_index d)" by (simp_all add: holds_def doc_ok_def)
  define start where "start = (case given (tq_taskId q) of Some i \<Rightarrow> [i] | None \<Rightarrow> remdups (map fst (ix_byUpdatedAt (td_index d))))"
  have ix: "indexed (td_index d) (map snd (td_records d) @ map snd (td_archived d))" by (rule buildIndex_indexed [OF b])
  obtain ids where c: "apply_index (given (tq_idempotencyKey q)) (ix_byIdempotencyKey (td_index d))
                  (apply_index (given (tq_actorId q)) (ix_byActorId (td_index d))
                  (apply_index (given (tq_nodeId q)) (ix_byNodeId (td_index d))
                  (apply_state (tq_state q) (ix_byState (td_index d))
                  (apply_index (given (tq_rootTaskId q)) (ix_byRootTaskId (td_index d)) (Inr start))))) = Inr ids"
      and rs: "rs = sort_key list_order (List.map_filter (pick_task q d) ids)"
    using assms(3) unfolding list_tasks_def assms(2) Let_def pick_task_def [symmetric, abs_def] list_order_def [symmetric, abs_def]
    by (auto simp: start_def split: sum.splits)
  have id: "pick_task q d i = Some r \<Longrightarrow> tr_taskId r = i" for i r
    using pick_task_iff [OF e] lookup_by_record(2) [OF e] by blast
  have ids: "distinct ids" by (rule list_candidates(2) [OF e ix c]) (simp add: start_def split: option.split)
  have st: "tr_taskId r \<in> set start \<longleftrightarrow> \<not> opt_bad (\<lambda>i. tr_taskId r = i) (given (tq_taskId q))" if "lookup_task d (tr_taskId r) = Some r" for r
  proof -
    have "tr_taskId r \<in> tr_taskId ` set (map snd (td_records d) @ map snd (td_archived d))"
      using that lookup_by_record(1) [OF e, of r] by blast
    then have "tr_taskId r \<in> fst ` set (ix_byUpdatedAt (td_index d))" using ix by (simp only: indexed_def)
    then show ?thesis by (simp add: start_def opt_bad_def split: option.split)
  qed
  have mem: "r \<in> set rs \<longleftrightarrow> tr_taskId r \<in> set ids \<and> pick_task q d (tr_taskId r) = Some r" for r
    unfolding rs set_sort set_map_filter_iff using id by blast
  have "r \<in> set rs \<longleftrightarrow> lookup_task d (tr_taskId r) = Some r \<and> matches_query q r" for r
    using list_candidates(1) [OF e ix c, of r] st [of r]
    by (auto simp: mem pick_task_iff [OF e] matches_query_def)
  then have s: "set rs = {r. lookup_task d (tr_taskId r) = Some r \<and> matches_query q r}" by blast
  have "distinct (List.map_filter (pick_task q d) ids)"
    by (rule distinct_map_filter_inv [where g = tr_taskId, OF ids]) (rule id)
  then have "distinct rs" by (simp add: rs)
  with s show ?thesis by (simp add: rs)
qed

definition ex_query :: task_query where
  "ex_query = \<lparr>tq_taskId = None, tq_rootTaskId = None, tq_state = Some ACCEPTED, tq_nodeId = None, tq_actorId = Some ''actor'', tq_idempotencyKey = None,
     tq_updatedAfter = None, tq_includeArchived = False\<rparr>"

theorem list_is_scan_witness:
  "\<exists>rs. list_tasks ex_task_env ex_query 9 ex_task_world = Inr rs \<and> set rs = {ex_record}"
proof -
  obtain ix where h: "holds ex_task_world (emptyDocument\<lparr>td_records := [(ex_task_id, ex_record)], td_index := ix, td_updatedAtUtc := Iso 5\<rparr>)"
    using ex_task_holds ..
  let ?d = "emptyDocument\<lparr>td_records := [(ex_task_id, ex_record)], td_index := ix, td_updatedAtUtc := Iso 5\<rparr>"
  have d: "readDocument ex_task_env 9 ex_task_world = Inr ?d" by (rule readDocument_holds [OF h])
  have r: "tr_taskId ex_record = ex_task_id" "tr_actorId ex_record = ''actor''" "tr_state ex_record = ACCEPTED" "tr_archivedAtUtc ex_record = None"
    by (simp_all add: ex_record_def new_record_def ex_create_def)
  have "SAFE_ID ''actor''" by (simp add: ex_task_guards)
  have a: "apply_index None m c = c" for m c by (simp add: apply_index_def)
  obtain ids1 where i1: "apply_state (Some ACCEPTED) (ix_byState ix) (Inr (remdups (map fst (ix_byUpdatedAt ix)))) = Inr ids1"
    by (fastforce simp: apply_state_def split: option.split)
  obtain ids2 where i2: "apply_index (Some ''actor'') (ix_byActorId ix) (Inr ids1) = Inr ids2"
    by (fastforce simp: apply_index_def PROTOTYPE_KEYS_def split: option.split)
  obtain rs where l: "list_tasks ex_task_env ex_query 9 ex_task_world = Inr rs"
    using \<open>SAFE_ID ''actor''\<close> by (simp add: list_tasks_def d ex_query_def given_def opt_bad_def a i1 i2)
  from list_is_scan [OF ex_task_world_reach d l]
  have "set rs = {r. lookup_task ?d (tr_taskId r) = Some r \<and> matches_query ex_query r}" by simp
  also have "\<dots> = {ex_record}"
    using r by (auto simp: lookup_task_def emptyDocument_def matches_query_def ex_query_def opt_bad_def given_def split: if_splits)
  finally show ?thesis using l by blast
qed

end
