(* ===== verification/Reach_Ledger.thy ===== *)
theory Reach_Ledger
  imports Reach_Lifecycle
begin

text \<open>
  The append-only evidence of the node: canonical hashing (\<open>src/src/shared/hash.ts\<close>), the owner's
  quarantine of tasks (\<open>src/src/shared/task-quarantine.ts\<close>) and the signed execution receipts
  (\<open>src/src/shared/receipts.ts\<close>). A log is the list of its complete lines, each the JSON value it
  parses to or \<open>None\<close>. The parameter \<open>sha\<close> is \<open>JSON.stringify\<close> followed by the digest; \<open>sign\<close> and
  \<open>verify\<close> are the signature primitives. Both logs are chained by digests; the locale \<open>hash_chain\<close>
  states what such a chain promises and is interpreted for each of them.
\<close>

section \<open>Canonical values\<close>

text \<open>\<open>localeCompare\<close> on member names: letters without case first, then lower before upper case.\<close>

definition collate_key :: "string \<Rightarrow> nat list \<times> bool list" where
  "collate_key s = (map code_of (to_lower s), map is_upper s)"

fun canonicalJson :: "json \<Rightarrow> json" and canonical_list :: "json list \<Rightarrow> json list" and canonical_fields :: "(string \<times> json) list \<Rightarrow> (string \<times> json) list" where
  "canonicalJson (JArr xs) = JArr (canonical_list xs)"
| "canonicalJson (JObj kvs) = JObj (sort_key (\<lambda>(k, v). collate_key k) (canonical_fields kvs))"
| "canonicalJson j = j"
| "canonical_list [] = []"
| "canonical_list (x # xs) = canonicalJson x # canonical_list xs"
| "canonical_fields [] = []"
| "canonical_fields ((k, v) # kvs) = (k, canonicalJson v) # canonical_fields kvs"

definition hashValue :: "(json \<Rightarrow> string) \<Rightarrow> json \<Rightarrow> string" where
  "hashValue sha v = sha (canonicalJson v)"

text \<open>An object without one member.\<close>

fun without :: "string \<Rightarrow> json \<Rightarrow> json" where
  "without k (JObj kvs) = JObj (filter (\<lambda>(k', v). k' \<noteq> k) kvs)"
| "without k j = j"

section \<open>Quarantine\<close>

datatype quarantine_error =
  LogUnreadable | LogCorrupt | NullLine | AuthorityInvalid | TornTail | QuarantineDuplicate string | AcknowledgementInvalid

record quarantine_log =
  ql_lines :: "json option list"
  ql_torn :: bool

record quarantine_authority =
  qa_grantedAt :: timestamp
  qa_scope :: string

record owner_acknowledgement =
  oa_by :: string
  oa_uid :: rat
  oa_host :: string
  oa_reason :: string

definition nonblank :: "json option \<Rightarrow> bool" where
  "nonblank j = (case j of Some (JStr s) \<Rightarrow> js_trim s \<noteq> [] | Some (JIso _) \<Rightarrow> True | _ \<Rightarrow> False)"

definition validAcknowledgement :: "json \<Rightarrow> bool" where
  "validAcknowledgement a = (is_object a \<and> nonblank (jget a ''by'') \<and>
     (case num_field a ''uid'' of Some r \<Rightarrow> is_safe_integer r \<and> r \<ge> 0 | None \<Rightarrow> False) \<and>
     nonblank (jget a ''host'') \<and> nonblank (jget a ''reason'') \<and>
     (case jget a ''reason'' of Some (JStr s) \<Rightarrow> length s \<le> 2000 | _ \<Rightarrow> True))"

fun state_string :: "task_state \<Rightarrow> string" where
  "state_string ACCEPTED = ''ACCEPTED''"
| "state_string PREPARING = ''PREPARING''"
| "state_string RUNNING = ''RUNNING''"
| "state_string INPUT_REQUIRED = ''INPUT_REQUIRED''"
| "state_string AMBIGUOUS = ''AMBIGUOUS''"
| "state_string COMPLETED = ''COMPLETED''"
| "state_string FAILED = ''FAILED''"
| "state_string CANCELLED = ''CANCELLED''"
| "state_string RECONCILED = ''RECONCILED''"

definition taskIdentityDigest :: "(json \<Rightarrow> string) \<Rightarrow> task_record \<Rightarrow> string" where
  "taskIdentityDigest sha r = hashValue sha (JObj
     [(''taskId'', JStr (tr_taskId r)), (''rootTaskId'', JStr (tr_rootTaskId r)), (''parentTaskId'', json_opt JStr (tr_parentTaskId r)),
      (''actorId'', JStr (tr_actorId r)), (''nodeId'', JStr (tr_nodeId r)), (''operation'', JStr (tr_operation r)),
      (''idempotencyKey'', JStr (tr_idempotencyKey r)), (''payloadSha256'', JStr (tr_payloadSha256 r)),
      (''policyHash'', json_opt JStr (tr_policyHash r)), (''safetyClass'', json_opt JStr (tr_safetyClass r)),
      (''mutationLevel'', json_opt JStr (tr_mutationLevel r)), (''createdAtUtc'', stamp_json (tr_createdAtUtc r)),
      (''attemptNumber'', JNum (of_int (tr_attemptNumber r))), (''state'', JStr (state_string (tr_state r)))])"

text \<open>The key of an entry in the map; objects as keys are never equal.\<close>

definition same_map_key :: "json option \<Rightarrow> json option \<Rightarrow> bool" where
  "same_map_key a b = (a = b \<and> (case a of Some j \<Rightarrow> \<not> is_object j | None \<Rightarrow> True))"

definition entry_refused :: "(json \<Rightarrow> string) \<Rightarrow> json \<Rightarrow> nat \<Rightarrow> json list \<Rightarrow> json \<Rightarrow> bool" where
  "entry_refused sha previous index seen e =
     (jget e ''version'' \<noteq> Some (JNum 1) \<or> jget e ''sequence'' \<noteq> Some (JNum (of_nat index)) \<or> jget e ''previous'' \<noteq> Some previous \<or>
      jget e ''digest'' \<noteq> Some (JStr (hashValue sha (without ''digest'' e))) \<or>
      jget e ''effect'' \<noteq> Some (JStr ''UNKNOWN'') \<or> jget e ''replayAuthorized'' \<noteq> Some (JBool False) \<or>
      jget e ''disposition'' \<noteq> Some (JStr ''QUARANTINED_OWNER_ACKNOWLEDGED'') \<or>
      (case jget e ''authority'' of Some a \<Rightarrow> jget a ''kind'' \<noteq> Some (JStr ''owner-authorization'') | None \<Rightarrow> True) \<or>
      list_ex (\<lambda>x. same_map_key (jget x ''taskId'') (jget e ''taskId'')) seen \<or>
      (case jget e ''acknowledgement'' of Some a \<Rightarrow> \<not> validAcknowledgement a | None \<Rightarrow> False))"

definition digest_field :: "string \<Rightarrow> json \<Rightarrow> json" where
  "digest_field k e = (case jget e k of Some j \<Rightarrow> j | None \<Rightarrow> JNull)"

fun read_chain :: "(json \<Rightarrow> string) \<Rightarrow> json \<Rightarrow> nat \<Rightarrow> json list \<Rightarrow> json option list \<Rightarrow> quarantine_error + json list" where
  "read_chain sha previous index seen [] = Inr []"
| "read_chain sha previous index seen (None # ls) = Inl LogCorrupt"
| "read_chain sha previous index seen (Some e # ls) =
     (if e = JNull then Inl NullLine
      else if entry_refused sha previous index seen e then Inl LogCorrupt
      else (case read_chain sha (digest_field ''digest'' e) (index + 1) (e # seen) ls of Inl x \<Rightarrow> Inl x | Inr es \<Rightarrow> Inr (e # es)))"

definition readQuarantine :: "(json \<Rightarrow> string) \<Rightarrow> quarantine_log stored \<Rightarrow> quarantine_error + json list" where
  "readQuarantine sha f = (case f of
      Absent \<Rightarrow> Inr []
    | Unreadable \<Rightarrow> Inl LogUnreadable
    | Contents q \<Rightarrow> read_chain sha JNull 0 [] (ql_lines q))"

definition quarantine_has :: "json list \<Rightarrow> string \<Rightarrow> bool" where
  "quarantine_has es taskId = list_ex (\<lambda>e. jget e ''taskId'' = Some (JStr taskId)) es"

definition isQuarantined :: "(json \<Rightarrow> string) \<Rightarrow> quarantine_log stored \<Rightarrow> string \<Rightarrow> quarantine_error + bool" where
  "isQuarantined sha f taskId = (case readQuarantine sha f of Inl e \<Rightarrow> Inl e | Inr es \<Rightarrow> Inr (quarantine_has es taskId))"

definition hasTornTail :: "quarantine_log stored \<Rightarrow> bool" where
  "hasTornTail f = (case f of Contents q \<Rightarrow> ql_torn q | _ \<Rightarrow> False)"

definition authority_json :: "quarantine_authority \<Rightarrow> json" where
  "authority_json a = JObj [(''kind'', JStr ''owner-authorization''), (''grantedAt'', stamp_json (qa_grantedAt a)), (''scope'', JStr (qa_scope a))]"

definition acknowledgement_json :: "owner_acknowledgement \<Rightarrow> json" where
  "acknowledgement_json a = JObj [(''by'', JStr (oa_by a)), (''uid'', JNum (oa_uid a)), (''host'', JStr (oa_host a)), (''reason'', JStr (oa_reason a))]"

type_synonym quarantine_input = "task_record \<times> string \<times> owner_acknowledgement option"

definition new_entry :: "(json \<Rightarrow> string) \<Rightarrow> quarantine_authority \<Rightarrow> timestamp \<Rightarrow> json \<Rightarrow> nat \<Rightarrow> quarantine_input \<Rightarrow> json" where
  "new_entry sha authority stamp previous sequence input = (case input of (task, classification, ack) \<Rightarrow>
     let body = [(''version'', JNum 1), (''sequence'', JNum (of_nat sequence)), (''taskId'', JStr (tr_taskId task)), (''nodeId'', JStr (tr_nodeId task)),
           (''identity'', JStr (taskIdentityDigest sha task)), (''observedState'', JStr (state_string (tr_state task))),
           (''classification'', JStr classification), (''disposition'', JStr ''QUARANTINED_OWNER_ACKNOWLEDGED''), (''effect'', JStr ''UNKNOWN''),
           (''replayAuthorized'', JBool False), (''authority'', authority_json authority)] @
          (case ack of Some a \<Rightarrow> [(''acknowledgement'', acknowledgement_json a)] | None \<Rightarrow> []) @
          [(''at'', stamp_json stamp), (''previous'', previous)]
     in JObj (body @ [(''digest'', JStr (hashValue sha (JObj body)))]))"

fun new_entries ::
  "(json \<Rightarrow> string) \<Rightarrow> quarantine_authority \<Rightarrow> timestamp \<Rightarrow> json list \<Rightarrow> json \<Rightarrow> nat \<Rightarrow> quarantine_input list \<Rightarrow> quarantine_error + json list" where
  "new_entries sha authority stamp seen previous sequence [] = Inr []"
| "new_entries sha authority stamp seen previous sequence ((task, classification, ack) # ts) =
     (if quarantine_has seen (tr_taskId task) then Inl (QuarantineDuplicate (tr_taskId task))
      else if opt_bad (\<lambda>a. validAcknowledgement (acknowledgement_json a)) ack then Inl AcknowledgementInvalid
      else (let e = new_entry sha authority stamp previous sequence (task, classification, ack)
            in case new_entries sha authority stamp (e # seen) (digest_field ''digest'' e) (sequence + 1) ts of
                 Inl x \<Rightarrow> Inl x | Inr es \<Rightarrow> Inr (e # es)))"

definition appendQuarantine ::
  "(json \<Rightarrow> string) \<Rightarrow> quarantine_input list \<Rightarrow> quarantine_authority \<Rightarrow> timestamp \<Rightarrow> quarantine_log stored
     \<Rightarrow> (quarantine_error + json list) \<times> quarantine_log stored" where
  "appendQuarantine sha tasks authority stamp f =
     (if js_trim (qa_scope authority) = [] \<or> date_parse (qa_grantedAt authority) = None then (Inl AuthorityInvalid, f)
      else (case readQuarantine sha f of
          Inl e \<Rightarrow> (Inl e, f)
        | Inr existing \<Rightarrow>
            if hasTornTail f then (Inl TornTail, f)
            else (case new_entries sha authority stamp existing (if existing = [] then JNull else digest_field ''digest'' (last existing)) (length existing) tasks of
                Inl e \<Rightarrow> (Inl e, f)
              | Inr written \<Rightarrow>
                  if written = [] then (Inr [], f)
                  else (Inr written, Contents \<lparr>ql_lines = (case f of Contents q \<Rightarrow> ql_lines q | _ \<Rightarrow> []) @ map Some written, ql_torn = False\<rparr>))))"

definition quarantineMatches :: "(json \<Rightarrow> string) \<Rightarrow> json \<Rightarrow> task_record \<Rightarrow> bool" where
  "quarantineMatches sha e r = (jget e ''taskId'' = Some (JStr (tr_taskId r)) \<and> jget e ''nodeId'' = Some (JStr (tr_nodeId r)) \<and>
     jget e ''identity'' = Some (JStr (taskIdentityDigest sha r)) \<and> jget e ''observedState'' = Some (JStr (state_string (tr_state r))))"

text \<open>The environment of the task store when its quarantine is this log.\<close>

definition guarded_env :: "(json \<Rightarrow> string) \<Rightarrow> quarantine_log stored \<Rightarrow> task_env \<Rightarrow> task_env" where
  "guarded_env sha f env = env\<lparr>tv_quarantined := (case readQuarantine sha f of Inl _ \<Rightarrow> None | Inr es \<Rightarrow> Some (quarantine_has es))\<rparr>"

section \<open>Receipts\<close>

record receipt_env =
  rv_sha :: "json \<Rightarrow> string"
  rv_redactedHash :: "json \<Rightarrow> string"
  rv_sign :: "json \<Rightarrow> string \<Rightarrow> string"
  rv_verify :: "json \<Rightarrow> json option \<Rightarrow> json option \<Rightarrow> bool"

record receipt_input =
  ri_nodeId :: string
  ri_actor :: "json option"
  ri_operation :: string
  ri_args :: json
  ri_ok :: bool
  ri_result :: json
  ri_error :: "string option"
  ri_durationMs :: rat
  ri_policy :: json
  ri_checkpointId :: "string option"

datatype receipt_error = ReceiptNodeId | ReceiptLogUnreadable | ReceiptLineCorrupt | ReceiptLineNull

definition assertNodeId :: "string \<Rightarrow> bool" where
  "assertNodeId s = (s \<noteq> [] \<and> list_all (\<lambda>c. is_alnum c \<or> c \<in> set ''._-'') s)"

text \<open>The hash of the last line; a line without one gives \<open>undefined\<close>, which the written object omits.\<close>

definition previousHashUnlocked :: "json option list stored \<Rightarrow> receipt_error + json option" where
  "previousHashUnlocked f = (case f of
      Absent \<Rightarrow> Inr (Some JNull)
    | Unreadable \<Rightarrow> Inl ReceiptLogUnreadable
    | Contents [] \<Rightarrow> Inr (Some JNull)
    | Contents (l # ls) \<Rightarrow> (case last (l # ls) of
          None \<Rightarrow> Inl ReceiptLineCorrupt
        | Some e \<Rightarrow> if e = JNull then Inl ReceiptLineNull else Inr (jget e ''receiptHash'')))"

definition receipt_base :: "receipt_env \<Rightarrow> receipt_input \<Rightarrow> string \<Rightarrow> int \<Rightarrow> json option \<Rightarrow> string \<Rightarrow> (string \<times> json) list" where
  "receipt_base env i uuid now previous publicKey =
     [(''version'', JNum 1), (''receiptId'', JStr uuid)] @ (case previous of Some p \<Rightarrow> [(''previousHash'', p)] | None \<Rightarrow> []) @
     [(''at'', JIso now), (''nodeId'', JStr (ri_nodeId i)), (''actor'', json_opt id (ri_actor i)), (''operation'', JStr (ri_operation i)),
      (''ok'', JBool (ri_ok i)), (''durationMs'', JNum (ri_durationMs i)),
      (''requestHash'', JStr (rv_redactedHash env (JObj [(''operation'', JStr (ri_operation i)), (''args'', ri_args i)]))),
      (''resultHash'', JStr (rv_redactedHash env (if ri_ok i then ri_result i else JStr (case ri_error i of Some e \<Rightarrow> e | None \<Rightarrow> [])))),
      (''policyHash'', JStr (rv_redactedHash env (ri_policy i))), (''checkpointId'', json_opt JStr (ri_checkpointId i)),
      (''publicKey'', JStr publicKey)]"

definition sealed_receipt :: "receipt_env \<Rightarrow> (string \<times> json) list \<Rightarrow> string \<Rightarrow> json" where
  "sealed_receipt env base privateKey =
     (let signed = base @ [(''signature'', JStr (rv_sign env (canonicalJson (JObj base)) privateKey))]
      in JObj (signed @ [(''receiptHash'', JStr (hashValue (rv_sha env) (JObj signed)))]))"

definition appendReceipt ::
  "receipt_env \<Rightarrow> receipt_input \<Rightarrow> string \<times> string \<Rightarrow> string \<Rightarrow> int \<Rightarrow> json option list stored \<Rightarrow> (receipt_error + json) \<times> json option list stored" where
  "appendReceipt env i keys uuid now f =
     (if \<not> assertNodeId (ri_nodeId i) then (Inl ReceiptNodeId, f)
      else (case previousHashUnlocked f of
          Inl e \<Rightarrow> (Inl e, f)
        | Inr previous \<Rightarrow>
            (let r = sealed_receipt env (receipt_base env i uuid now previous (snd keys)) (fst keys)
             in (Inr r, Contents ((case f of Contents ls \<Rightarrow> ls | _ \<Rightarrow> []) @ [Some r])))))"

definition verifyReceipt :: "receipt_env \<Rightarrow> json \<Rightarrow> bool" where
  "verifyReceipt env r = (r \<noteq> JNull \<and> jget r ''receiptHash'' = Some (JStr (hashValue (rv_sha env) (without ''receiptHash'' r))) \<and>
     rv_verify env (canonicalJson (without ''signature'' (without ''receiptHash'' r))) (jget r ''publicKey'') (jget r ''signature''))"

fun verify_from :: "receipt_env \<Rightarrow> json \<Rightarrow> json list \<Rightarrow> bool" where
  "verify_from env previous [] = True"
| "verify_from env previous (r # rs) =
     (verifyReceipt env r \<and> jget r ''previousHash'' = Some previous \<and> verify_from env (digest_field ''receiptHash'' r) rs)"

definition verifyReceiptChain :: "receipt_env \<Rightarrow> json list \<Rightarrow> bool" where
  "verifyReceiptChain env rs = verify_from env JNull rs"

fun receipt_lines :: "json option list \<Rightarrow> json list option" where
  "receipt_lines [] = Some []"
| "receipt_lines (None # ls) = None"
| "receipt_lines (Some e # ls) = (case receipt_lines ls of None \<Rightarrow> None | Some es \<Rightarrow> Some (e # es))"

definition listReceipts :: "string \<Rightarrow> int \<Rightarrow> json option list stored \<Rightarrow> receipt_error + json list" where
  "listReceipts nodeId limit f =
     (if \<not> assertNodeId nodeId then Inl ReceiptNodeId
      else (case f of
          Absent \<Rightarrow> Inr []
        | Unreadable \<Rightarrow> Inl ReceiptLogUnreadable
        | Contents ls \<Rightarrow> (case receipt_lines (take_last (nat (max 1 (min limit 100))) ls) of
              None \<Rightarrow> Inl ReceiptLineCorrupt | Some es \<Rightarrow> Inr es)))"

section \<open>Canonical form\<close>

lemma canonical_list_map: "canonical_list xs = map canonicalJson xs"
  by (induction xs) auto

lemma canonical_fields_map: "canonical_fields kvs = map (\<lambda>(k, v). (k, canonicalJson v)) kvs"
  by (induction kvs) auto

lemma map_of_filter_key: "map_of xs k = map_of (filter (\<lambda>p. fst p = k) xs) k"
  by (induction xs) auto

text \<open>A stable sort of the members does not change what a member reads.\<close>

lemma map_of_sorted_fields: "map_of (sort_key (\<lambda>(k, v). collate_key k) kvs) k = map_of kvs k"
proof -
  let ?f = "\<lambda>(k :: string, v :: 'a). collate_key k"
  have "filter (\<lambda>p. fst p = k) xs = filter (\<lambda>p. fst p = k) (filter (\<lambda>p. ?f p = collate_key k) xs)" for xs
    by (auto simp: filter_filter intro!: filter_cong)
  moreover have "filter (\<lambda>p. ?f p = collate_key k) (sort_key ?f kvs) = filter (\<lambda>p. ?f p = collate_key k) kvs"
    by (rule sort_key_stable)
  ultimately have "filter (\<lambda>p. fst p = k) (sort_key ?f kvs) = filter (\<lambda>p. fst p = k) kvs" by metis
  then show ?thesis by (metis map_of_filter_key)
qed

lemma jget_canonical: "jget (canonicalJson j) k = map_option canonicalJson (jget j k)"
proof (cases j)
  case (JObj kvs)
  have "map_of (map (\<lambda>(k, v). (k, canonicalJson v)) kvs) k = map_option canonicalJson (map_of kvs k)"
    by (induction kvs) auto
  then show ?thesis by (simp add: JObj map_of_sorted_fields canonical_fields_map)
qed simp_all

lemma canonical_leaf: "canonicalJson j = JStr s \<longleftrightarrow> j = JStr s" "canonicalJson j = JNull \<longleftrightarrow> j = JNull"
  by (cases j; simp)+

lemma jget_without: "k' \<noteq> k \<Longrightarrow> jget (without k j) k' = jget j k'"
proof (cases j)
  case (JObj kvs)
  assume "k' \<noteq> k"
  then have "map_of (filter (\<lambda>(k', v). k' \<noteq> k) kvs) k' = map_of kvs k'" by (induction kvs) auto
  then show ?thesis by (simp add: JObj)
qed simp_all

section \<open>Chains of digests\<close>

text \<open>The entries from one link on: each is sealed by its digest and names the digest before it.\<close>

fun chained :: "('e \<Rightarrow> bool) \<Rightarrow> ('e \<Rightarrow> 'd) \<Rightarrow> ('e \<Rightarrow> 'd option) \<Rightarrow> 'd \<Rightarrow> 'e list \<Rightarrow> bool" where
  "chained sealed digest_of prev_of p [] = True"
| "chained sealed digest_of prev_of p (e # es) = (sealed e \<and> prev_of e = Some p \<and> chained sealed digest_of prev_of (digest_of e) es)"

locale hash_chain =
  fixes sealed :: "'e \<Rightarrow> bool" and digest_of :: "'e \<Rightarrow> 'd" and prev_of :: "'e \<Rightarrow> 'd option"
    and body_of :: "'e \<Rightarrow> 'b" and hash :: "'b \<Rightarrow> 'd" and start :: 'd
  assumes sealed_digest: "sealed e \<Longrightarrow> digest_of e = hash (body_of e)"
    and start_is_no_digest: "sealed e \<Longrightarrow> digest_of e \<noteq> start"
    and body_has_link: "sealed e \<Longrightarrow> sealed e' \<Longrightarrow> body_of e = body_of e' \<Longrightarrow> prev_of e = prev_of e'"
begin

lemma chained_append:
  "chained sealed digest_of prev_of p (xs @ ys) \<longleftrightarrow> chained sealed digest_of prev_of p xs \<and>
     chained sealed digest_of prev_of (if xs = [] then p else digest_of (last xs)) ys"
  by (induction xs arbitrary: p) auto

lemma chained_sealed: "chained sealed digest_of prev_of p xs \<Longrightarrow> e \<in> set xs \<Longrightarrow> sealed e"
  by (induction xs arbitrary: p) auto

text \<open>Two chains that end in one digest agree everywhere, or exhibit a collision of the hash.\<close>

lemma chains_agree:
  assumes "chained sealed digest_of prev_of start xs" and "chained sealed digest_of prev_of start ys"
    and "(if xs = [] then start else digest_of (last xs)) = (if ys = [] then start else digest_of (last ys))"
  shows "map body_of xs = map body_of ys \<or> (\<exists>x \<in> set xs. \<exists>y \<in> set ys. body_of x \<noteq> body_of y \<and> hash (body_of x) = hash (body_of y))"
  using assms
proof (induction xs arbitrary: ys rule: rev_induct)
  case Nil
  then show ?case
    using start_is_no_digest chained_sealed [OF Nil.prems(2)] by (cases "ys = []") (auto dest: last_in_set)
next
  case (snoc x xs)
  have x: "sealed x" using chained_sealed [OF snoc.prems(1)] by simp
  show ?case
  proof (cases ys rule: rev_cases)
    case Nil
    then show ?thesis using snoc.prems(3) start_is_no_digest [OF x] by simp
  next
    case (snoc zs y)
    have y: "sealed y" using chained_sealed [OF snoc.prems(2)] snoc by simp
    have d: "hash (body_of x) = hash (body_of y)" using snoc.prems(3) snoc sealed_digest x y by simp
    show ?thesis
    proof (cases "body_of x = body_of y")
      case False
      then show ?thesis using d snoc by auto
    next
      case True
      have p: "prev_of x = prev_of y" by (rule body_has_link [OF x y True])
      have cx: "chained sealed digest_of prev_of start xs" "prev_of x = Some (if xs = [] then start else digest_of (last xs))"
        using snoc.prems(1) by (simp_all add: chained_append)
      have cy: "chained sealed digest_of prev_of start zs" "prev_of y = Some (if zs = [] then start else digest_of (last zs))"
        using snoc.prems(2) snoc by (simp_all add: chained_append)
      from snoc.IH [OF cx(1) cy(1)] cx(2) cy(2) p True snoc show ?thesis by auto
    qed
  qed
qed

end


section \<open>The two logs as chains\<close>

definition quarantine_sealed :: "(json \<Rightarrow> string) \<Rightarrow> json \<Rightarrow> bool" where
  "quarantine_sealed sha e = (jget e ''digest'' = Some (JStr (hashValue sha (without ''digest'' e))))"

definition link_field :: "string \<Rightarrow> json \<Rightarrow> json option" where
  "link_field k e = (case jget e k of Some JNull \<Rightarrow> Some JNull | Some (JStr s) \<Rightarrow> Some (JStr s) | _ \<Rightarrow> None)"

lemma link_field_canonical: "link_field k (canonicalJson e) = link_field k e"
proof (cases "jget e k")
  case (Some j)
  then show ?thesis by (cases j) (simp_all add: link_field_def jget_canonical)
qed (simp add: link_field_def jget_canonical)

lemma link_field_without: "k' \<noteq> k \<Longrightarrow> link_field k' (without k e) = link_field k' e"
  by (simp add: link_field_def jget_without)

lemma link_of_body: "k' \<noteq> k \<Longrightarrow> canonicalJson (without k e) = canonicalJson (without k e') \<Longrightarrow> link_field k' e = link_field k' e'"
  by (metis link_field_canonical link_field_without)

interpretation qchain: hash_chain "quarantine_sealed sha" "digest_field ''digest''" "link_field ''previous''"
    "\<lambda>e. canonicalJson (without ''digest'' e)" "\<lambda>b. JStr (sha b)" JNull for sha
  by unfold_locales (auto simp: quarantine_sealed_def digest_field_def hashValue_def intro: link_of_body [of "''previous''" "''digest''"])

interpretation rchain: hash_chain "verifyReceipt env" "digest_field ''receiptHash''" "link_field ''previousHash''"
    "\<lambda>e. canonicalJson (without ''receiptHash'' e)" "\<lambda>b. JStr (rv_sha env b)" JNull for env
  by unfold_locales (auto simp: verifyReceipt_def digest_field_def hashValue_def intro: link_of_body [of "''previousHash''" "''receiptHash''"])

lemma link_field_plain: "link_field k e = Some JNull \<longleftrightarrow> jget e k = Some JNull" "link_field k e = Some (JStr s) \<longleftrightarrow> jget e k = Some (JStr s)"
  by (auto simp: link_field_def split: option.splits json.splits)

lemma verify_from_chained:
  "p = JNull \<or> (\<exists>s. p = JStr s) \<Longrightarrow>
     verify_from env p rs = chained (verifyReceipt env) (digest_field ''receiptHash'') (link_field ''previousHash'') p rs"
proof (induction rs arbitrary: p)
  case (Cons r rs)
  have "jget r ''previousHash'' = Some p \<longleftrightarrow> link_field ''previousHash'' r = Some p" using Cons.prems by (auto simp: link_field_plain)
  moreover have "verify_from env (digest_field ''receiptHash'' r) rs =
      chained (verifyReceipt env) (digest_field ''receiptHash'') (link_field ''previousHash'') (digest_field ''receiptHash'' r) rs"
    if "verifyReceipt env r" using that by (intro Cons.IH) (auto simp: verifyReceipt_def digest_field_def)
  ultimately show ?case by auto
qed simp

lemma read_chain_chained:
  "read_chain sha p i seen ls = Inr es \<Longrightarrow> p = JNull \<or> (\<exists>s. p = JStr s) \<Longrightarrow>
     ls = map Some es \<and> chained (quarantine_sealed sha) (digest_field ''digest'') (link_field ''previous'') p es"
proof (induction sha p i seen ls arbitrary: es rule: read_chain.induct)
  case (3 sha p i seen e ls)
  then obtain es' where e: "e \<noteq> JNull" "\<not> entry_refused sha p i seen e" "es = e # es'"
      "read_chain sha (digest_field ''digest'' e) (i + 1) (e # seen) ls = Inr es'"
    by (auto split: if_splits sum.splits)
  have s: "quarantine_sealed sha e" "jget e ''previous'' = Some p" using e(2) by (auto simp: entry_refused_def quarantine_sealed_def)
  then have "link_field ''previous'' e = Some p" using "3.prems"(2) by (auto simp: link_field_plain)
  moreover have "digest_field ''digest'' e = JNull \<or> (\<exists>s. digest_field ''digest'' e = JStr s)"
    using s(1) by (auto simp: quarantine_sealed_def digest_field_def)
  ultimately show ?case using "3.IH" [OF e(1,2,4)] s(1) e(3) by auto
qed auto

text \<open>
  C19: The quarantine log is tamper evident: two logs that both read without error and end in the same
  digest hold the same entries, unless two different entries with one digest are exhibited. So an
  entry cannot be altered, dropped or inserted without changing the last digest.
\<close>

theorem quarantine_tamper_evident:
  assumes "readQuarantine sha f = Inr es" and "readQuarantine sha f' = Inr es'" and "es \<noteq> []" and "es' \<noteq> []"
    and "digest_field ''digest'' (last es) = digest_field ''digest'' (last es')"
  shows "map (\<lambda>e. canonicalJson (without ''digest'' e)) es = map (\<lambda>e. canonicalJson (without ''digest'' e)) es' \<or>
     (\<exists>x \<in> set es. \<exists>y \<in> set es'. canonicalJson (without ''digest'' x) \<noteq> canonicalJson (without ''digest'' y) \<and>
        sha (canonicalJson (without ''digest'' x)) = sha (canonicalJson (without ''digest'' y)))"
proof -
  have c: "chained (quarantine_sealed sha) (digest_field ''digest'') (link_field ''previous'') JNull xs" if "readQuarantine sha g = Inr xs" for g xs
    using that read_chain_chained by (auto simp: readQuarantine_def split: stored.splits)
  from qchain.chains_agree [OF c [OF assms(1)] c [OF assms(2)]] assms(3-5) show ?thesis by simp
qed

text \<open>
  C20: The receipts of a node are tamper evident: two chains of receipts that both verify and end in the
  same receipt hash hold the same receipts, unless two different receipts with one hash are exhibited.
\<close>

theorem receipts_tamper_evident:
  assumes "verifyReceiptChain env rs" and "verifyReceiptChain env rs'" and "rs \<noteq> []" and "rs' \<noteq> []"
    and "digest_field ''receiptHash'' (last rs) = digest_field ''receiptHash'' (last rs')"
  shows "map (\<lambda>e. canonicalJson (without ''receiptHash'' e)) rs = map (\<lambda>e. canonicalJson (without ''receiptHash'' e)) rs' \<or>
     (\<exists>x \<in> set rs. \<exists>y \<in> set rs'. canonicalJson (without ''receiptHash'' x) \<noteq> canonicalJson (without ''receiptHash'' y) \<and>
        rv_sha env (canonicalJson (without ''receiptHash'' x)) = rv_sha env (canonicalJson (without ''receiptHash'' y)))"
proof -
  have c: "chained (verifyReceipt env) (digest_field ''receiptHash'') (link_field ''previousHash'') JNull xs" if "verifyReceiptChain env xs" for xs
    using that verify_from_chained [of JNull env xs] by (simp add: verifyReceiptChain_def)
  from rchain.chains_agree [OF c [OF assms(1)] c [OF assms(2)]] assms(3-5) show ?thesis by simp
qed


section \<open>Appending to the quarantine\<close>

lemma entry_refused_set: "set seen = set seen' \<Longrightarrow> entry_refused sha p i seen e = entry_refused sha p i seen' e"
  by (simp add: entry_refused_def list_ex_iff)

lemma read_chain_set: "set seen = set seen' \<Longrightarrow> read_chain sha p i seen ls = read_chain sha p i seen' ls"
proof (induction sha p i seen ls arbitrary: seen' rule: read_chain.induct)
  case (3 sha p i seen e ls)
  have "set (e # seen) = set (e # seen')" using "3.prems" by simp
  with "3.IH" have "read_chain sha (digest_field ''digest'' e) (i + 1) (e # seen) ls = read_chain sha (digest_field ''digest'' e) (i + 1) (e # seen') ls"
    if "e \<noteq> JNull" "\<not> entry_refused sha p i seen e" using that by blast
  then show ?case using entry_refused_set [OF "3.prems", of sha p i e] by simp
qed simp_all

lemma read_chain_append:
  "read_chain sha p i seen (map Some xs) = Inr xs \<Longrightarrow>
     read_chain sha p i seen (map Some xs @ ls) =
       (case read_chain sha (if xs = [] then p else digest_field ''digest'' (last xs)) (i + length xs) (rev xs @ seen) ls of
          Inl e \<Rightarrow> Inl e | Inr es \<Rightarrow> Inr (xs @ es))"
proof (induction xs arbitrary: p i seen)
  case Nil
  show ?case by (simp split: sum.split)
next
  case (Cons x xs)
  have ok: "x \<noteq> JNull" "\<not> entry_refused sha p i seen x"
    "read_chain sha (digest_field ''digest'' x) (i + 1) (x # seen) (map Some xs) = Inr xs"
    using Cons.prems by (auto split: if_splits sum.splits)
  show ?case using Cons.IH [OF ok(3)] ok(1,2) by (simp split: sum.split)
qed

lemma new_entry_fields:
  "new_entry sha a t p n (task, c, ack) \<noteq> JNull"
  "jget (new_entry sha a t p n (task, c, ack)) ''taskId'' = Some (JStr (tr_taskId task))"
  "jget (new_entry sha a t p n (task, c, ack)) ''nodeId'' = Some (JStr (tr_nodeId task))"
  "jget (new_entry sha a t p n (task, c, ack)) ''identity'' = Some (JStr (taskIdentityDigest sha task))"
  "jget (new_entry sha a t p n (task, c, ack)) ''observedState'' = Some (JStr (state_string (tr_state task)))"
  by (simp_all add: new_entry_def Let_def split: option.split)

lemma new_entry_accepted:
  assumes "\<not> quarantine_has seen (tr_taskId task)" and "\<not> opt_bad (\<lambda>a. validAcknowledgement (acknowledgement_json a)) ack"
  shows "\<not> entry_refused sha p n seen (new_entry sha a t p n (task, c, ack))"
proof -
  have d: "\<not> list_ex (\<lambda>x. same_map_key (jget x ''taskId'') (Some (JStr (tr_taskId task)))) seen"
    using assms(1) by (auto simp: quarantine_has_def list_ex_iff same_map_key_def)
  show ?thesis
    using assms(2) unfolding entry_refused_def new_entry_fields(2)
    by (cases ack) (simp_all add: d new_entry_def Let_def authority_json_def opt_bad_def)
qed

lemma new_entries_read:
  "new_entries sha a t seen p n ts = Inr ws \<Longrightarrow>
     read_chain sha p n seen (map Some ws) = Inr ws \<and> length ws = length ts \<and>
     (\<forall>i < length ts. quarantineMatches sha (ws ! i) (fst (ts ! i)))"
proof (induction sha a t seen p n ts arbitrary: ws rule: new_entries.induct)
  case (2 sha a t seen p n task c ack ts)
  let ?e = "new_entry sha a t p n (task, c, ack)"
  obtain ws' where g: "\<not> quarantine_has seen (tr_taskId task)" "\<not> opt_bad (\<lambda>a. validAcknowledgement (acknowledgement_json a)) ack"
      and r: "new_entries sha a t (?e # seen) (digest_field ''digest'' ?e) (n + 1) ts = Inr ws'" and ws: "ws = ?e # ws'"
    using "2.prems" by (auto simp: Let_def split: if_splits sum.splits)
  note IH = "2.IH" [OF g refl r]
  have "quarantineMatches sha (ws ! i) (fst (((task, c, ack) # ts) ! i))" if "i < length ((task, c, ack) # ts)" for i
    using that IH by (cases i) (simp_all add: ws quarantineMatches_def new_entry_fields)
  then show ?case using IH new_entry_accepted [OF g] by (simp add: ws new_entry_fields(1))
qed simp

lemma appendQuarantine_reads:
  assumes "appendQuarantine sha ts a t f = (Inr ws, f')"
  shows "\<exists>es. readQuarantine sha f = Inr es \<and> readQuarantine sha f' = Inr (es @ ws) \<and> length ws = length ts \<and>
     (\<forall>i < length ts. quarantineMatches sha (ws ! i) (fst (ts ! i)))"
proof -
  obtain es where es: "readQuarantine sha f = Inr es"
      and n: "new_entries sha a t es (if es = [] then JNull else digest_field ''digest'' (last es)) (length es) ts = Inr ws"
      and f': "f' = (if ws = [] then f else Contents \<lparr>ql_lines = (case f of Contents q \<Rightarrow> ql_lines q | _ \<Rightarrow> []) @ map Some ws, ql_torn = False\<rparr>)"
    using assms unfolding appendQuarantine_def by (auto split: if_splits sum.splits)
  note N = new_entries_read [OF n]
  have ls: "(case f of Contents q \<Rightarrow> ql_lines q | _ \<Rightarrow> []) = map Some es" "read_chain sha JNull 0 [] (map Some es) = Inr es"
    using es read_chain_chained [of sha JNull 0 "[]" _ es] by (auto simp: readQuarantine_def split: stored.splits)
  have "read_chain sha (if es = [] then JNull else digest_field ''digest'' (last es)) (length es) (rev es) (map Some ws) = Inr ws"
    using N read_chain_set [of "rev es" es] by simp
  then have "readQuarantine sha f' = Inr (es @ ws)"
    using es read_chain_append [OF ls(2), of "map Some ws"] by (simp add: f' readQuarantine_def ls(1))
  with es N show ?thesis by blast
qed

text \<open>
  A quarantine that is recorded stays readable: an append keeps every earlier entry, its new
  entries pass the validation of the whole log, and each describes the task it was made for.
\<close>

theorem quarantine_append_reads_back:
  assumes "appendQuarantine sha ts a t f = (Inr ws, f')"
  shows "\<exists>es. readQuarantine sha f = Inr es \<and> readQuarantine sha f' = Inr (es @ ws) \<and> length ws = length ts \<and>
     (\<forall>i < length ts. quarantineMatches sha (ws ! i) (fst (ts ! i)))"
  using appendQuarantine_reads [OF assms] .

definition ex_sha :: "json \<Rightarrow> string" where
  "ex_sha j = (case jget j ''sequence'' of Some (JNum n) \<Rightarrow> if n = 0 then ''a'' else ''b'' | _ \<Rightarrow> ''c'')"

definition ex_authority :: quarantine_authority where
  "ex_authority = \<lparr>qa_grantedAt = Iso 1, qa_scope = ''scope''\<rparr>"

definition ex_log :: "quarantine_log stored" where
  "ex_log = snd (appendQuarantine ex_sha [(ex_record, ''historical'', None)] ex_authority (Iso 2) Absent)"

lemma ex_log_append: "\<exists>e. appendQuarantine ex_sha [(ex_record, ''historical'', None)] ex_authority (Iso 2) Absent = (Inr [e], ex_log)"
  by (simp add: ex_log_def appendQuarantine_def readQuarantine_def ex_authority_def js_trim_def is_space_def hasTornTail_def quarantine_has_def opt_bad_def Let_def)

lemma ex_log_reads: "\<exists>e. readQuarantine ex_sha ex_log = Inr [e] \<and> jget e ''taskId'' = Some (JStr ex_task_id)"
proof -
  obtain e where e: "appendQuarantine ex_sha [(ex_record, ''historical'', None)] ex_authority (Iso 2) Absent = (Inr [e], ex_log)"
    using ex_log_append ..
  have "tr_taskId ex_record = ex_task_id" by (simp add: ex_record_def new_record_def)
  then show ?thesis
    using appendQuarantine_reads [OF e] by (auto simp: readQuarantine_def quarantineMatches_def)
qed

theorem quarantine_append_reads_back_witness:
  "\<exists>ws. readQuarantine ex_sha ex_log = Inr ws \<and> length ws = 1 \<and> quarantineMatches ex_sha (ws ! 0) ex_record"
proof -
  obtain e where e: "appendQuarantine ex_sha [(ex_record, ''historical'', None)] ex_authority (Iso 2) Absent = (Inr [e], ex_log)"
    using ex_log_append ..
  from quarantine_append_reads_back [OF e] show ?thesis by (auto simp: readQuarantine_def)
qed

theorem quarantine_tamper_evident_witness:
  "\<exists>e. readQuarantine ex_sha ex_log = Inr [e] \<and>
     (canonicalJson (without ''digest'' e) = canonicalJson (without ''digest'' e))"
proof -
  obtain e where e: "readQuarantine ex_sha ex_log = Inr [e]" using ex_log_reads by blast
  from quarantine_tamper_evident [OF e e] e show ?thesis by simp
qed

section \<open>Quarantined tasks in the task store\<close>

definition keeps_task :: "string \<Rightarrow> task_document \<Rightarrow> task_world \<Rightarrow> bool" where
  "keeps_task i d w' = (\<exists>d'. holds w' d' \<and> lookup_task d' i = lookup_task d i)"

lemma keeps_task_mutate:
  assumes w: "holds w d" and run: "mutate env now fn w = (res, w')"
    and body: "\<And>x d'. fn d = Inr (x, d') \<Longrightarrow> entries_ok d' \<and> lookup_task d' i = lookup_task d i"
  shows "keeps_task i d w'"
proof (rule mutate_cases [OF w run])
  fix x d' assume "fn d = Inr (x, d')"
  then show "entries_ok d'" using body by blast
next
  fix e assume "res = Inl e" "w' = w"
  then show ?thesis using w by (auto simp: keeps_task_def)
next
  fix x d' d''
  assume c: "fn d = Inr (x, d')" "res = Inr x" "holds w' d''" "td_records d'' = td_records d'" "td_archived d'' = td_archived d'"
  have "lookup_task d'' i = lookup_task d' i" by (simp add: lookup_task_def c(4,5) split: option.split)
  with c body [OF c(1)] show ?thesis by (auto simp: keeps_task_def)
qed

lemma keeps_task_logged:
  assumes "holds w d" and "then_log env eventId now ev (mutate env now fn w) = (res, w')"
    and "\<And>x d'. fn d = Inr (x, d') \<Longrightarrow> entries_ok d' \<and> lookup_task d' i = lookup_task d i"
  shows "keeps_task i d w'"
proof -
  obtain r1 w1 where m: "mutate env now fn w = (r1, w1)" by fastforce
  have "keeps_task i d w1" by (rule keeps_task_mutate [OF assms(1) m]) (rule assms(3))
  then obtain d' where "holds w1 d'" "lookup_task d' i = lookup_task d i" by (auto simp: keeps_task_def)
  with then_log_effect [OF assms(2) [unfolded m]] show ?thesis by (auto simp: keeps_task_def)
qed

lemma create_frame: "create_body i t now d = Inr (r, d') \<Longrightarrow> lookup_task d j \<noteq> None \<Longrightarrow> lookup_task d' j = lookup_task d j"
  by (elim create_body_InrD) (auto simp: lookup_task_def map_of_obj_put split: option.splits)

lemma change_frame: "change_active f t d = Inr (r, d') \<Longrightarrow> j \<noteq> t \<Longrightarrow> lookup_task d' j = lookup_task d j"
  by (auto simp: change_active_def lookup_task_def map_of_obj_put split: option.split sum.splits)

lemma archive_frame:
  "archive_body t now d = Inr (r, d') \<Longrightarrow> lookup_task d j = Some q \<Longrightarrow> \<not> isTerminal (tr_state q) \<Longrightarrow> lookup_task d' j = lookup_task d j"
  by (cases "j = t") (auto simp: archive_body_def Let_def lookup_task_def map_of_obj_put map_of_obj_del split: option.splits if_splits)

lemma frozen_step:
  assumes w: "holds w d" and r: "lookup_task d i = Some r" and live: "\<not> isTerminal (tr_state r)"
    and q: "tv_quarantined env = Some qf" "qf i" and run: "task_exec env now eventId op w = (e, w')"
  shows "keeps_task i d w'"
proof -
  have d: "entries_ok d" using w by (simp add: holds_def doc_ok_def)
  have same: "keeps_task i d w" using w by (auto simp: keeps_task_def)
  show ?thesis
  proof (cases op)
    case (DoCreate inp freshId)
    have L: "keeps_task i d w'" if "then_log env eventId now ev (mutate env now (create_body inp t now) w) = (res, w')" for t ev res w'
      by (rule keeps_task_logged [OF w that]) (use create_body_effect [OF d] create_frame [of inp t now d _ _ i] r in blast)
    show ?thesis using run same unfolding DoCreate task_exec.simps create_def Let_def by (auto dest!: L split: sum.splits prod.splits if_splits)
  next
    case (DoUpdate t u)
    have L: "keeps_task i d w'" if "then_log env eventId now ev (mutate env now (change_active (update_record env u now) t) w) = (res, w')" "t \<noteq> i" for ev res w'
      by (rule keeps_task_logged [OF w that(1)]) (use update_body_effect [OF d] change_frame that(2) in metis)
    show ?thesis using run same q unfolding DoUpdate task_exec.simps update_task_def assertNotQuarantined_def
      by (cases "t = i") (auto dest!: L split: sum.splits prod.splits if_splits)
  next
    case (DoTransition t s st ex)
    have L: "keeps_task i d w'" if "then_log env eventId now ev (mutate env now (change_active (transition_record env s st ex now) t) w) = (res, w')" "t \<noteq> i" for ev res w'
      by (rule keeps_task_logged [OF w that(1)]) (use transition_body_effect [OF d] change_frame that(2) in metis)
    show ?thesis using run same q unfolding DoTransition task_exec.simps transition_def assertNotQuarantined_def
      by (cases "t = i") (auto dest!: L split: sum.splits prod.splits if_splits)
  next
    case (DoArchive t)
    have L: "keeps_task i d w'" if "then_log env eventId now ev (mutate env now (archive_body t now) w) = (res, w')" for ev res w'
      by (rule keeps_task_logged [OF w that]) (use archive_body_effect [OF d] archive_frame [of t now d _ _ i r] r live in blast)
    show ?thesis using run same unfolding DoArchive task_exec.simps archive_def by (auto dest!: L split: sum.splits prod.splits if_splits)
  next
    case (DoSweep a b)
    have b: "entries_ok d' \<and> lookup_task d' i = lookup_task d i" if "sweep_body now t a d = Inr (x, d')" for t a x d'
    proof -
      from sweep_body_effect [OF d that] have "entries_ok d'" "retire (lookup_task d i) (lookup_task d' i)" by blast+
      with r live show ?thesis by (auto simp: retire_def)
    qed
    have L: "keeps_task i d w'" if "mutate env now (sweep_body now t a) w = (res, w')" for t a res w'
      by (rule keeps_task_mutate [OF w that b])
    show ?thesis using run same unfolding DoSweep task_exec.simps sweep_def Let_def by (auto dest!: L split: sum.splits prod.splits if_splits)
  qed
qed

text \<open>
  A task the owner has quarantined is frozen: while it is not terminal, no operation of the task
  store, whatever it is asked to do, changes its record.
\<close>

theorem quarantined_task_is_frozen:
  assumes "task_reach w" and "readQuarantine sha f = Inr es" and "quarantine_has es i"
    and "readDocument env now w = Inr d" and "lookup_task d i = Some r" and "\<not> isTerminal (tr_state r)"
    and "task_exec (guarded_env sha f env) now eventId op w = (e, w')"
  shows "\<exists>d'. readDocument env now' w' = Inr d' \<and> lookup_task d' i = Some r"
proof -
  obtain d0 where d0: "holds w d0" using task_reach_holds [OF assms(1)] by blast
  then have h: "holds w d" using readDocument_holds [OF d0, of env now] assms(4) by simp
  have q: "tv_quarantined (guarded_env sha f env) = Some (quarantine_has es)" by (simp add: guarded_env_def assms(2))
  from frozen_step [OF h assms(5,6) q assms(3,7)] assms(5) show ?thesis by (auto simp: keeps_task_def intro: readDocument_holds)
qed

theorem quarantined_task_is_frozen_witness:
  "\<exists>d'. readDocument ex_task_env 9 (snd (task_exec (guarded_env ex_sha ex_log ex_task_env) 7 ''e2'' (DoTransition ex_task_id CANCELLED None None) ex_task_world)) = Inr d' \<and>
     lookup_task d' ex_task_id = Some ex_record"
proof -
  obtain e where e: "readQuarantine ex_sha ex_log = Inr [e]" "jget e ''taskId'' = Some (JStr ex_task_id)" using ex_log_reads by blast
  obtain d where d: "readDocument ex_task_env 9 ex_task_world = Inr d" "lookup_task d ex_task_id = Some ex_record" by (rule ex_task_doc)
  have h: "quarantine_has [e] ex_task_id" by (simp add: quarantine_has_def e(2))
  have l: "\<not> isTerminal (tr_state ex_record)" by (simp add: ex_record_def new_record_def isTerminal_def TERMINAL_TASK_STATES_def)
  obtain d1 where d1: "readDocument ex_task_env 7 ex_task_world = Inr d1" "lookup_task d1 ex_task_id = Some ex_record"
    using d by (metis readDocument_holds task_reach_holds [OF ex_task_world_reach])
  from quarantined_task_is_frozen [OF ex_task_world_reach e(1) h d1 l prod.collapse [symmetric]] show ?thesis by blast
qed

section \<open>Appending receipts\<close>

inductive receipt_run :: "receipt_env \<Rightarrow> string \<times> string \<Rightarrow> json option list stored \<Rightarrow> bool" for env keys where
  receipt_start: "receipt_run env keys Absent"
| receipt_next: "receipt_run env keys f \<Longrightarrow> receipt_run env keys (snd (appendReceipt env i keys uuid now f))"

definition receipts_in :: "json option list stored \<Rightarrow> json option list" where
  "receipts_in f = (case f of Contents ls \<Rightarrow> ls | _ \<Rightarrow> [])"

lemma sealed_receipt_verifies:
  assumes "\<And>b. rv_verify env b (Some (JStr (snd keys))) (Some (JStr (rv_sign env b (fst keys))))"
  shows "verifyReceipt env (sealed_receipt env (receipt_base env i uuid now (Some p) (snd keys)) (fst keys))"
    and "jget (sealed_receipt env (receipt_base env i uuid now (Some p) (snd keys)) (fst keys)) ''previousHash'' = Some p"
  using assms by (simp_all add: verifyReceipt_def sealed_receipt_def receipt_base_def Let_def)

lemma receipt_lines_map: "receipt_lines (map Some rs) = Some rs"
  by (induction rs) auto

lemma receipt_run_chain:
  assumes "receipt_run env keys f" and sig: "\<And>b. rv_verify env b (Some (JStr (snd keys))) (Some (JStr (rv_sign env b (fst keys))))"
  shows "f \<noteq> Unreadable \<and> (\<exists>rs. receipts_in f = map Some rs \<and> verifyReceiptChain env rs)"
  using assms(1)
proof (induction rule: receipt_run.induct)
  case receipt_start
  show ?case by (simp add: receipts_in_def verifyReceiptChain_def)
next
  case (receipt_next f i uuid now)
  then obtain rs where f: "f \<noteq> Unreadable" "receipts_in f = map Some rs" and v: "verifyReceiptChain env rs" by blast
  let ?p = "if rs = [] then JNull else digest_field ''receiptHash'' (last rs)"
  let ?r = "sealed_receipt env (receipt_base env i uuid now (Some ?p) (snd keys)) (fst keys)"
  have c: "chained (verifyReceipt env) (digest_field ''receiptHash'') (link_field ''previousHash'') JNull rs"
    using v verify_from_chained [of JNull env rs] by (simp add: verifyReceiptChain_def)
  have last: "\<exists>h. jget (last rs) ''receiptHash'' = Some (JStr h) \<and> last rs \<noteq> JNull" if "rs \<noteq> []"
    using rchain.chained_sealed [OF c last_in_set [OF that]] by (simp add: verifyReceipt_def)
  have p: "previousHashUnlocked f = Inr (Some ?p)"
  proof (cases f)
    case (Contents ls)
    then have ls: "ls = map Some rs" using f by (simp add: receipts_in_def)
    show ?thesis
    proof (cases rs rule: rev_cases)
      case (snoc xs x)
      then have "last ls = Some x" "ls \<noteq> []" by (simp_all add: ls)
      with last snoc show ?thesis unfolding Contents previousHashUnlocked_def by (cases ls) (auto simp: digest_field_def)
    qed (simp add: Contents ls previousHashUnlocked_def)
  qed (use f in \<open>simp_all add: previousHashUnlocked_def receipts_in_def\<close>)
  show ?case
  proof (cases "assertNodeId (ri_nodeId i)")
    case False
    then show ?thesis using f v by (auto simp: appendReceipt_def)
  next
    case True
    then have f': "snd (appendReceipt env i keys uuid now f) = Contents (map Some (rs @ [?r]))"
      using f by (simp add: appendReceipt_def p Let_def receipts_in_def)
    have "?p = JNull \<or> (\<exists>s. ?p = JStr s)" using last by (auto simp: digest_field_def)
    then have "link_field ''previousHash'' ?r = Some ?p"
      using sealed_receipt_verifies(2) [OF sig, of i uuid now ?p] by (auto simp: link_field_plain)
    then have "chained (verifyReceipt env) (digest_field ''receiptHash'') (link_field ''previousHash'') JNull (rs @ [?r])"
      using c sealed_receipt_verifies(1) [OF sig, of i uuid now ?p] by (simp add: rchain.chained_append)
    then have "verifyReceiptChain env (rs @ [?r])"
      using verify_from_chained [of JNull env "rs @ [?r]"] by (simp add: verifyReceiptChain_def)
    then show ?thesis unfolding f' receipts_in_def by (intro conjI exI [of _ "rs @ [?r]"]) simp_all
  qed
qed

text \<open>
  Every log that the node wrote verifies: after any sequence of appended receipts every line of the
  log is readable and the whole log passes the chain verification, provided a signature made with the
  private key verifies under the public key.
\<close>

theorem written_receipts_verify:
  assumes "receipt_run env keys f" and "\<And>b. rv_verify env b (Some (JStr (snd keys))) (Some (JStr (rv_sign env b (fst keys))))"
  shows "\<exists>rs. receipt_lines (receipts_in f) = Some rs \<and> verifyReceiptChain env rs"
  using receipt_run_chain [OF assms] receipt_lines_map by auto

definition ex_receipt_env :: receipt_env where
  "ex_receipt_env = \<lparr>rv_sha = ex_sha, rv_redactedHash = ex_sha, rv_sign = (\<lambda>b k. k @ ex_sha b), rv_verify = (\<lambda>b p s. s = Some (JStr (''key'' @ ex_sha b)))\<rparr>"

definition ex_receipt :: receipt_input where
  "ex_receipt = \<lparr>ri_nodeId = ''node'', ri_actor = None, ri_operation = ''dex.file.read'', ri_args = JObj [], ri_ok = True, ri_result = JNull, ri_error = None,
     ri_durationMs = 3, ri_policy = JNull, ri_checkpointId = None\<rparr>"

definition ex_receipts :: "json option list stored" where
  "ex_receipts = snd (appendReceipt ex_receipt_env ex_receipt (''key'', ''pub'') ''u1'' 1 Absent)"

lemma ex_receipts_run: "receipt_run ex_receipt_env (''key'', ''pub'') ex_receipts"
  unfolding ex_receipts_def by (intro receipt_run.intros)

lemma ex_receipt_keys: "rv_verify ex_receipt_env b (Some (JStr (snd (''key'', ''pub'')))) (Some (JStr (rv_sign ex_receipt_env b (fst (''key'', ''pub'')))))"
  by (simp add: ex_receipt_env_def)

theorem written_receipts_verify_witness:
  "\<exists>rs. receipt_lines (receipts_in ex_receipts) = Some rs \<and> verifyReceiptChain ex_receipt_env rs"
  by (rule written_receipts_verify [OF ex_receipts_run]) (rule ex_receipt_keys)

theorem receipts_tamper_evident_witness:
  "\<exists>rs. rs \<noteq> [] \<and> verifyReceiptChain ex_receipt_env rs \<and>
     map (\<lambda>e. canonicalJson (without ''receiptHash'' e)) rs = map (\<lambda>e. canonicalJson (without ''receiptHash'' e)) rs"
proof -
  obtain rs where rs: "receipts_in ex_receipts = map Some rs" "verifyReceiptChain ex_receipt_env rs"
    using receipt_run_chain [OF ex_receipts_run ex_receipt_keys] by blast
  have "assertNodeId (ri_nodeId ex_receipt)" by code_simp
  then have "rs \<noteq> []" using rs(1) by (auto simp: ex_receipts_def appendReceipt_def previousHashUnlocked_def receipts_in_def Let_def)
  with receipts_tamper_evident [OF rs(2) rs(2)] rs(2) show ?thesis by blast
qed

end
