(* ===== verification/Reach_Plans.thy ===== *)
theory Reach_Plans
  imports Reach_Ledger
begin

text \<open>
  Execution plans, \<open>src/src/shared/plans.ts\<close>: a plan is created with an expiry, claimed by the exclusive
  creation of a claim file, loaded, checked and scrubbed. A plan file is named by the id of its plan; a
  file that does not parse is \<open>Unreadable\<close>. Several processes consume plans at the same time: a claim
  is one atomic step, loading and scrubbing are separate steps, and every other step of any process
  may come in between.
\<close>

record execution_plan =
  pl_id :: string
  pl_nodeId :: string
  pl_actor :: json
  pl_operation :: string
  pl_args :: json
  pl_requestHash :: string
  pl_policyHash :: string
  pl_createdAt :: timestamp
  pl_expiresAt :: timestamp
  pl_checkpointId :: "string option"
  pl_used :: bool
  pl_fingerprint :: "json option"
  pl_fingerprintHash :: "string option"

record plan_dir =
  pd_files :: "execution_plan stored obj"
  pd_claims :: "string list"

datatype plan_error = PlanTtl | PlanId | PlanClaimed | PlanMissing | PlanUnreadable | PlanUsed | PlanExpired

text \<open>The pattern of a version 1 to 8 UUID.\<close>

definition hex_block :: "nat \<Rightarrow> nat \<Rightarrow> string \<Rightarrow> bool" where
  "hex_block from n s = list_all is_hex (take n (drop from s))"

definition assertPlanId :: "string \<Rightarrow> bool" where
  "assertPlanId s = (length s = 36 \<and> hex_block 0 8 s \<and> s ! 8 = CHR ''-'' \<and> hex_block 9 4 s \<and> s ! 13 = CHR ''-'' \<and>
     s ! 14 \<in> set ''12345678'' \<and> hex_block 15 3 s \<and> s ! 18 = CHR ''-'' \<and> s ! 19 \<in> set ''89abAB'' \<and> hex_block 20 3 s \<and>
     s ! 23 = CHR ''-'' \<and> hex_block 24 12 s)"

definition loose_id :: "string \<Rightarrow> bool" where
  "loose_id s = (length s = 36 \<and> list_all (\<lambda>c. is_hex c \<or> c = CHR ''-'') s)"

definition loadPlan :: "string \<Rightarrow> plan_dir \<Rightarrow> plan_error + execution_plan" where
  "loadPlan i d = (if \<not> assertPlanId i then Inl PlanId
     else (case map_of (pd_files d) i of Some (Contents p) \<Rightarrow> Inr p | Some Unreadable \<Rightarrow> Inl PlanUnreadable | _ \<Rightarrow> Inl PlanMissing))"

definition redacted_args :: "string \<Rightarrow> string \<Rightarrow> json" where
  "redacted_args reason requestHash = JObj [(''redacted'', JBool True), (''reason'', JStr reason), (''requestHash'', JStr requestHash)]"

definition sanitizePlan :: "execution_plan \<Rightarrow> string \<Rightarrow> plan_dir \<Rightarrow> (plan_error + unit) \<times> plan_dir" where
  "sanitizePlan p reason d = (if \<not> assertPlanId (pl_id p) then (Inl PlanId, d)
     else (Inr (), d\<lparr>pd_files := obj_put (pl_id p) (Contents (p\<lparr>pl_used := True, pl_args := redacted_args reason (pl_requestHash p)\<rparr>)) (pd_files d)\<rparr>))"

text \<open>One file of the sweep: any error leaves it alone and does not count.\<close>

definition sweep_one :: "int \<Rightarrow> string \<Rightarrow> plan_dir \<Rightarrow> nat \<times> plan_dir" where
  "sweep_one now i d =
     (if \<not> loose_id i then (0, d)
      else (case loadPlan i d of
          Inl e \<Rightarrow> (0, d)
        | Inr p \<Rightarrow> if \<not> pl_used p \<and> (case date_parse (pl_expiresAt p) of Some t \<Rightarrow> t \<le> now | None \<Rightarrow> False)
            then (case sanitizePlan p ''expired'' d of (Inl e, d') \<Rightarrow> (0, d') | (Inr _, d') \<Rightarrow> (1, d')) else (0, d)))"

fun sweep_names :: "int \<Rightarrow> string list \<Rightarrow> plan_dir \<Rightarrow> nat \<times> plan_dir" where
  "sweep_names now [] d = (0, d)"
| "sweep_names now (i # is) d = (case sweep_one now i d of (n, d1) \<Rightarrow> (case sweep_names now is d1 of (m, d2) \<Rightarrow> (n + m, d2)))"

definition sweepExpiredPlans :: "int \<Rightarrow> plan_dir \<Rightarrow> nat \<times> plan_dir" where
  "sweepExpiredPlans now d = sweep_names now (map fst (pd_files d)) d"

record plan_input =
  pi_nodeId :: string
  pi_actor :: json
  pi_operation :: string
  pi_args :: json
  pi_policyHash :: string
  pi_checkpointId :: "string option"
  pi_fingerprint :: "json option"
  pi_fingerprintHash :: "string option"

definition request_hash :: "(json \<Rightarrow> string) \<Rightarrow> string \<Rightarrow> json \<Rightarrow> string" where
  "request_hash sha operation args = hashValue sha (JObj [(''operation'', JStr operation), (''args'', args)])"

definition createPlan :: "(json \<Rightarrow> string) \<Rightarrow> plan_input \<Rightarrow> rat option \<Rightarrow> string \<Rightarrow> int \<Rightarrow> plan_dir \<Rightarrow> (plan_error + execution_plan) \<times> plan_dir" where
  "createPlan sha i ttlMs uuid now d =
     (let ttl = (case ttlMs of Some t \<Rightarrow> t | None \<Rightarrow> 5 * 60000)
      in if ttl \<le> 0 \<or> ttl > 10 * 60000 then (Inl PlanTtl, d)
         else (let d1 = snd (sweepExpiredPlans now d);
                   p = \<lparr>pl_id = uuid, pl_nodeId = pi_nodeId i, pl_actor = pi_actor i, pl_operation = pi_operation i, pl_args = pi_args i,
                        pl_requestHash = request_hash sha (pi_operation i) (pi_args i), pl_policyHash = pi_policyHash i,
                        pl_createdAt = Iso now, pl_expiresAt = Iso \<lfloor>of_int now + ttl\<rfloor>, pl_checkpointId = pi_checkpointId i, pl_used = False,
                        pl_fingerprint = pi_fingerprint i, pl_fingerprintHash = pi_fingerprintHash i\<rparr>
               in if \<not> assertPlanId uuid then (Inl PlanId, d1)
                  else (Inr p, d1\<lparr>pd_files := obj_put uuid (Contents p) (pd_files d1)\<rparr>)))"

text \<open>The three steps of \<open>consumePlan\<close>: the exclusive claim, the checks, the scrubbing.\<close>

definition claim_plan :: "string \<Rightarrow> plan_dir \<Rightarrow> (plan_error + unit) \<times> plan_dir" where
  "claim_plan i d = (if \<not> assertPlanId i then (Inl PlanId, d)
     else if i \<in> set (pd_claims d) then (Inl PlanClaimed, d)
     else (Inr (), d\<lparr>pd_claims := pd_claims d @ [i]\<rparr>))"

definition check_plan :: "string \<Rightarrow> int \<Rightarrow> plan_dir \<Rightarrow> (plan_error + execution_plan) \<times> plan_dir" where
  "check_plan i now d = (case loadPlan i d of
      Inl e \<Rightarrow> (Inl e, d)
    | Inr p \<Rightarrow> if pl_used p then (Inl PlanUsed, d)
        else if (case date_parse (pl_expiresAt p) of Some t \<Rightarrow> t \<le> now | None \<Rightarrow> False)
        then (case sanitizePlan p ''expired'' d of (Inl e, d') \<Rightarrow> (Inl e, d') | (Inr _, d') \<Rightarrow> (Inl PlanExpired, d'))
        else (Inr (p\<lparr>pl_used := True\<rparr>), d))"

definition scrub_plan :: "execution_plan \<Rightarrow> plan_dir \<Rightarrow> (plan_error + execution_plan) \<times> plan_dir" where
  "scrub_plan p d = (case sanitizePlan p ''consumed'' d of (Inl e, d') \<Rightarrow> (Inl e, d') | (Inr _, d') \<Rightarrow> (Inr p, d'))"

definition consumePlan :: "string \<Rightarrow> int \<Rightarrow> plan_dir \<Rightarrow> (plan_error + execution_plan) \<times> plan_dir" where
  "consumePlan i now d = (case claim_plan i d of
      (Inl e, d1) \<Rightarrow> (Inl e, d1)
    | (Inr _, d1) \<Rightarrow> (case check_plan i now d1 of (Inl e, d2) \<Rightarrow> (Inl e, d2) | (Inr p, d2) \<Rightarrow> scrub_plan p d2))"

section \<open>Concurrent consumers\<close>

datatype consumer = Outside | Claimed string | Loaded execution_plan | Returned execution_plan | Turned_away plan_error

record plan_world =
  pw_dir :: plan_dir
  pw_procs :: "nat \<Rightarrow> consumer"

definition outcome :: "('a \<Rightarrow> consumer) \<Rightarrow> plan_error + 'a \<Rightarrow> consumer" where
  "outcome f r = (case r of Inl e \<Rightarrow> Turned_away e | Inr x \<Rightarrow> f x)"

inductive plan_step :: "(json \<Rightarrow> string) \<Rightarrow> plan_world \<Rightarrow> plan_world \<Rightarrow> bool" for sha where
  step_create: "uuid \<notin> fst ` set (pd_files (pw_dir w)) \<Longrightarrow> uuid \<notin> set (pd_claims (pw_dir w)) \<Longrightarrow>
     plan_step sha w (w\<lparr>pw_dir := snd (createPlan sha i ttl uuid now (pw_dir w))\<rparr>)"
| step_sweep: "plan_step sha w (w\<lparr>pw_dir := snd (sweep_one now i (pw_dir w))\<rparr>)"
| step_claim: "pw_procs w k = Outside \<Longrightarrow> claim_plan i (pw_dir w) = (r, d) \<Longrightarrow>
     plan_step sha w \<lparr>pw_dir = d, pw_procs = (pw_procs w)(k := outcome (\<lambda>_. Claimed i) r)\<rparr>"
| step_check: "pw_procs w k = Claimed i \<Longrightarrow> check_plan i now (pw_dir w) = (r, d) \<Longrightarrow>
     plan_step sha w \<lparr>pw_dir = d, pw_procs = (pw_procs w)(k := outcome Loaded r)\<rparr>"
| step_scrub: "pw_procs w k = Loaded p \<Longrightarrow> scrub_plan p (pw_dir w) = (r, d) \<Longrightarrow>
     plan_step sha w \<lparr>pw_dir = d, pw_procs = (pw_procs w)(k := outcome Returned r)\<rparr>"

inductive_cases plan_stepE: "plan_step sha w w'"

definition plan_start :: plan_world where
  "plan_start = \<lparr>pw_dir = \<lparr>pd_files = [], pd_claims = []\<rparr>, pw_procs = (\<lambda>_. Outside)\<rparr>"

inductive plan_reach :: "(json \<Rightarrow> string) \<Rightarrow> plan_world \<Rightarrow> bool" for sha where
  plan_reach_start: "plan_reach sha plan_start"
| plan_reach_step: "plan_reach sha w \<Longrightarrow> plan_step sha w w' \<Longrightarrow> plan_reach sha w'"

section \<open>The directory\<close>

definition plan_wf :: "(json \<Rightarrow> string) \<Rightarrow> plan_dir \<Rightarrow> bool" where
  "plan_wf sha d = (\<forall>i p. map_of (pd_files d) i = Some (Contents p) \<longrightarrow> pl_id p = i \<and> assertPlanId i \<and>
     (\<not> pl_used p \<longrightarrow> pl_requestHash p = request_hash sha (pl_operation p) (pl_args p)))"

text \<open>What a step of the directory leaves alone: the claims, and every plan that is used.\<close>

definition keeps_used :: "plan_dir \<Rightarrow> plan_dir \<Rightarrow> bool" where
  "keeps_used d d' = (pd_claims d' = pd_claims d \<and>
     (\<forall>i q. map_of (pd_files d) i = Some (Contents q) \<longrightarrow> pl_used q \<longrightarrow> map_of (pd_files d') i = Some (Contents q)))"

lemma keeps_used_refl: "keeps_used d d"
  by (simp add: keeps_used_def)

lemma keeps_used_trans: "keeps_used d d1 \<Longrightarrow> keeps_used d1 d2 \<Longrightarrow> keeps_used d d2"
  by (simp add: keeps_used_def)

lemma plan_wfD:
  "plan_wf sha d \<Longrightarrow> map_of (pd_files d) i = Some (Contents p) \<Longrightarrow> pl_id p = i \<and> assertPlanId i \<and>
     (\<not> pl_used p \<longrightarrow> pl_requestHash p = request_hash sha (pl_operation p) (pl_args p))"
  by (simp add: plan_wf_def)

lemma loadPlan_Inr: "loadPlan i d = Inr p \<longleftrightarrow> assertPlanId i \<and> map_of (pd_files d) i = Some (Contents p)"
  by (auto simp: loadPlan_def split: option.split stored.split)

text \<open>Scrubbing the plan a file holds.\<close>

lemma sanitize_effect:
  assumes "plan_wf sha d" and "sanitizePlan p reason d = (r, d')" and "map_of (pd_files d) (pl_id p) = Some v"
  shows "plan_wf sha d'" and "pd_claims d' = pd_claims d"
    and "i \<noteq> pl_id p \<Longrightarrow> map_of (pd_files d') i = map_of (pd_files d) i"
    and "map_of (pd_files d) i = None \<Longrightarrow> map_of (pd_files d') i = None"
  using assms by (auto simp: sanitizePlan_def plan_wf_def map_of_obj_put split: if_splits)

lemma sweep_one_effect:
  assumes "plan_wf sha d"
  shows "plan_wf sha (snd (sweep_one now i d)) \<and> keeps_used d (snd (sweep_one now i d)) \<and>
     (\<forall>j. map_of (pd_files d) j = None \<longrightarrow> map_of (pd_files (snd (sweep_one now i d))) j = None)"
proof (cases "\<exists>p. loose_id i \<and> loadPlan i d = Inr p \<and> \<not> pl_used p")
  case False
  then have "snd (sweep_one now i d) = d" by (auto simp: sweep_one_def split: sum.split)
  then show ?thesis using assms by (simp add: keeps_used_refl)
next
  case True
  then obtain p where p: "loose_id i" "loadPlan i d = Inr p" "\<not> pl_used p" by blast
  then have m: "map_of (pd_files d) i = Some (Contents p)" by (simp add: loadPlan_Inr)
  then have i: "pl_id p = i" using plan_wfD [OF assms] by blast
  obtain r d' where s: "sanitizePlan p ''expired'' d = (r, d')" by fastforce
  note S = sanitize_effect [OF assms s, unfolded i, OF m]
  have "snd (sweep_one now i d) \<in> {d, d'}" using p s by (auto simp: sweep_one_def split: sum.split)
  moreover have "keeps_used d d'"
    unfolding keeps_used_def
  proof (intro conjI allI impI)
    fix j q assume q: "map_of (pd_files d) j = Some (Contents q)" "pl_used q"
    with m p(3) have "j \<noteq> i" by auto
    with S(3) q show "map_of (pd_files d') j = Some (Contents q)" by simp
  qed (rule S(2))
  ultimately show ?thesis using assms S(1,4) by (auto simp: keeps_used_refl)
qed

lemma sweep_names_effect:
  "plan_wf sha d \<Longrightarrow> plan_wf sha (snd (sweep_names now is d)) \<and> keeps_used d (snd (sweep_names now is d)) \<and>
     (\<forall>j. map_of (pd_files d) j = None \<longrightarrow> map_of (pd_files (snd (sweep_names now is d))) j = None)"
proof (induction "is" arbitrary: d)
  case Nil
  then show ?case by (simp add: keeps_used_refl)
next
  case (Cons i "is")
  let ?d = "snd (sweep_one now i d)"
  have s: "snd (sweep_names now (i # is) d) = snd (sweep_names now is ?d)" by (simp split: prod.split)
  note A = sweep_one_effect [OF Cons.prems, of now i]
  with Cons.IH [of ?d] show ?case unfolding s by (blast intro: keeps_used_trans)
qed

lemma createPlan_effect:
  assumes "plan_wf sha d" and "map_of (pd_files d) uuid = None"
  shows "plan_wf sha (snd (createPlan sha i ttl uuid now d)) \<and> keeps_used d (snd (createPlan sha i ttl uuid now d))"
proof -
  let ?d1 = "snd (sweepExpiredPlans now d)"
  note A = sweep_names_effect [OF assms(1), of now "map fst (pd_files d)", folded sweepExpiredPlans_def]
  have n: "map_of (pd_files ?d1) uuid = None" using A assms(2) by blast
  show ?thesis
  proof (cases "snd (createPlan sha i ttl uuid now d) \<in> {d, ?d1}")
    case True
    then show ?thesis using A assms(1) by (auto simp: keeps_used_refl)
  next
    case False
    then obtain p where p: "snd (createPlan sha i ttl uuid now d) = ?d1\<lparr>pd_files := obj_put uuid (Contents p) (pd_files ?d1)\<rparr>"
        "pl_id p = uuid" "pl_requestHash p = request_hash sha (pl_operation p) (pl_args p)" "assertPlanId uuid"
      by (auto simp: createPlan_def Let_def split: if_splits)
    have "plan_wf sha (snd (createPlan sha i ttl uuid now d))"
      using A p by (auto simp: plan_wf_def map_of_obj_put)
    moreover have "keeps_used ?d1 (snd (createPlan sha i ttl uuid now d))"
      using n by (auto simp: keeps_used_def p(1) map_of_obj_put)
    ultimately show ?thesis using A by (blast intro: keeps_used_trans)
  qed
qed

section \<open>The invariant of the consumers\<close>

fun held_plan :: "consumer \<Rightarrow> string option" where
  "held_plan (Claimed i) = Some i"
| "held_plan (Loaded p) = Some (pl_id p)"
| "held_plan (Returned p) = Some (pl_id p)"
| "held_plan c = None"

definition genuine :: "(json \<Rightarrow> string) \<Rightarrow> execution_plan \<Rightarrow> bool" where
  "genuine sha p = (pl_used p \<and> pl_requestHash p = request_hash sha (pl_operation p) (pl_args p))"

definition scrubbed :: "plan_dir \<Rightarrow> execution_plan \<Rightarrow> bool" where
  "scrubbed d p = (\<exists>q. map_of (pd_files d) (pl_id p) = Some (Contents q) \<and> pl_used q \<and> pl_args q = redacted_args ''consumed'' (pl_requestHash p))"

definition plan_inv :: "(json \<Rightarrow> string) \<Rightarrow> plan_world \<Rightarrow> bool" where
  "plan_inv sha w = (plan_wf sha (pw_dir w) \<and>
     (\<forall>k i. held_plan (pw_procs w k) = Some i \<longrightarrow> i \<in> set (pd_claims (pw_dir w))) \<and>
     (\<forall>k k' i. held_plan (pw_procs w k) = Some i \<longrightarrow> held_plan (pw_procs w k') = Some i \<longrightarrow> k = k') \<and>
     (\<forall>k p. pw_procs w k = Loaded p \<longrightarrow> genuine sha p) \<and>
     (\<forall>k p. pw_procs w k = Returned p \<longrightarrow> genuine sha p \<and> scrubbed (pw_dir w) p))"

lemma plan_invD:
  assumes "plan_inv sha w"
  shows "plan_wf sha (pw_dir w)" and "held_plan (pw_procs w k) = Some i \<Longrightarrow> i \<in> set (pd_claims (pw_dir w))"
    and "held_plan (pw_procs w k) = Some i \<Longrightarrow> held_plan (pw_procs w k') = Some i \<Longrightarrow> k = k'"
    and "pw_procs w k = Loaded p \<Longrightarrow> genuine sha p"
    and "pw_procs w k = Returned p \<Longrightarrow> genuine sha p \<and> scrubbed (pw_dir w) p"
  using assms unfolding plan_inv_def by blast+


lemma scrubbed_kept: "scrubbed d p \<Longrightarrow> keeps_used d d' \<Longrightarrow> scrubbed d' p"
  by (auto simp: scrubbed_def keeps_used_def)

lemma plan_inv_dir:
  assumes "plan_inv sha w" and "plan_wf sha d'" and "keeps_used (pw_dir w) d'"
  shows "plan_inv sha (w\<lparr>pw_dir := d'\<rparr>)"
  using assms scrubbed_kept [OF _ assms(3)] unfolding plan_inv_def by (auto simp: keeps_used_def)

text \<open>A step of one consumer, in terms of the plan it holds before and after.\<close>

lemma plan_inv_proc:
  assumes inv: "plan_inv sha w" and wf: "plan_wf sha d"
    and claims: "set (pd_claims (pw_dir w)) \<subseteq> set (pd_claims d)"
    and kept: "\<And>k' p. k' \<noteq> k \<Longrightarrow> pw_procs w k' = Returned p \<Longrightarrow> scrubbed d p"
    and held: "\<And>i. held_plan c = Some i \<Longrightarrow> i \<in> set (pd_claims d) \<and> (held_plan (pw_procs w k) = Some i \<or> i \<notin> set (pd_claims (pw_dir w)))"
    and loaded: "\<And>p. c = Loaded p \<Longrightarrow> genuine sha p" and returned: "\<And>p. c = Returned p \<Longrightarrow> genuine sha p \<and> scrubbed d p"
  shows "plan_inv sha \<lparr>pw_dir = d, pw_procs = (pw_procs w)(k := c)\<rparr>"
proof -
  note D = plan_invD [OF inv]
  have other: "held_plan (pw_procs w k') \<noteq> Some i" if "held_plan c = Some i" "k' \<noteq> k" for k' i
    using held [OF that(1)] D(2) [of k' i] D(3) [of k' i k] that(2) by blast
  show ?thesis
    unfolding plan_inv_def plan_world.simps fun_upd_apply
  proof (intro conjI allI impI)
    show "plan_wf sha d" by (rule wf)
    show "i \<in> set (pd_claims d)" if "held_plan (if k' = k then c else pw_procs w k') = Some i" for k' i
      using that held D(2) [of k' i] claims by (cases "k' = k") auto
    show "k' = k''" if "held_plan (if k' = k then c else pw_procs w k') = Some i" "held_plan (if k'' = k then c else pw_procs w k'') = Some i" for k' k'' i
      using that other D(3) [of k' i k''] by (auto split: if_splits)
    show "genuine sha p" if "(if k' = k then c else pw_procs w k') = Loaded p" for k' p
      using that loaded D(4) by (auto split: if_splits)
    show "genuine sha p" if "(if k' = k then c else pw_procs w k') = Returned p" for k' p
      using that returned D(5) by (auto split: if_splits)
    show "scrubbed d p" if "(if k' = k then c else pw_procs w k') = Returned p" for k' p
      using that returned kept by (auto split: if_splits)
  qed
qed

lemma check_plan_effect:
  assumes wf: "plan_wf sha d" and run: "check_plan i now d = (r, d')"
  shows "plan_wf sha d' \<and> keeps_used d d' \<and> (\<forall>p. r = Inr p \<longrightarrow> pl_id p = i \<and> genuine sha p)"
proof (cases "\<exists>p. loadPlan i d = Inr p \<and> \<not> pl_used p")
  case False
  then show ?thesis using run wf by (auto simp: check_plan_def keeps_used_refl split: sum.splits)
next
  case True
  then obtain p where p: "loadPlan i d = Inr p" "\<not> pl_used p" by blast
  then have m: "map_of (pd_files d) i = Some (Contents p)" by (simp add: loadPlan_Inr)
  have P: "pl_id p = i" "pl_requestHash p = request_hash sha (pl_operation p) (pl_args p)" using plan_wfD [OF wf m] p(2) by auto
  obtain r1 d1 where s: "sanitizePlan p ''expired'' d = (r1, d1)" by fastforce
  note S = sanitize_effect [OF wf s, unfolded P(1), OF m]
  have k: "keeps_used d d1"
    unfolding keeps_used_def
  proof (intro conjI allI impI)
    fix j q assume q: "map_of (pd_files d) j = Some (Contents q)" "pl_used q"
    with m p(2) have "j \<noteq> i" by auto
    with S(3) q show "map_of (pd_files d1) j = Some (Contents q)" by simp
  qed (rule S(2))
  have d': "d' = d \<or> d' = d1" and r: "\<forall>q. r = Inr q \<longrightarrow> q = p\<lparr>pl_used := True\<rparr>"
    using run p s by (auto simp: check_plan_def split: if_splits sum.splits)
  have "pl_id (p\<lparr>pl_used := True\<rparr>) = i" "genuine sha (p\<lparr>pl_used := True\<rparr>)" using P by (simp_all add: genuine_def)
  then have "\<forall>q. r = Inr q \<longrightarrow> pl_id q = i \<and> genuine sha q" using r by blast
  with d' wf S(1) k keeps_used_refl show ?thesis by blast
qed

lemma plan_step_inv: "plan_step sha w w' \<Longrightarrow> plan_inv sha w \<Longrightarrow> plan_inv sha w'"
proof (induction rule: plan_step.induct)
  case (step_create uuid w i ttl now)
  then have "map_of (pd_files (pw_dir w)) uuid = None" by (simp add: map_of_eq_None_iff)
  with createPlan_effect [OF plan_invD(1) [OF step_create.prems]] plan_inv_dir [OF step_create.prems] show ?case by blast
next
  case (step_sweep w now i)
  with sweep_one_effect [OF plan_invD(1) [OF step_sweep.prems]] plan_inv_dir [OF step_sweep.prems] show ?case by blast
next
  case (step_claim w k i r d)
  note D = plan_invD [OF step_claim.prems]
  have d: "pd_files d = pd_files (pw_dir w)" "set (pd_claims (pw_dir w)) \<subseteq> set (pd_claims d)"
      "r = Inr u \<Longrightarrow> i \<in> set (pd_claims d) \<and> i \<notin> set (pd_claims (pw_dir w))" for u
    using step_claim.hyps(2) by (auto simp: claim_plan_def split: if_splits)
  show ?case
  proof (rule plan_inv_proc [OF step_claim.prems])
    show "plan_wf sha d" using D(1) d(1) by (simp add: plan_wf_def)
    show "scrubbed d p" if "pw_procs w k' = Returned p" for k' p using D(5) [OF that] d(1) by (simp add: scrubbed_def)
    show "j \<in> set (pd_claims d) \<and> (held_plan (pw_procs w k) = Some j \<or> j \<notin> set (pd_claims (pw_dir w)))"
      if "held_plan (outcome (\<lambda>_. Claimed i) r) = Some j" for j
      using that d(3) by (cases r) (auto simp: outcome_def)
  qed (use d(2) in \<open>auto simp: outcome_def split: sum.splits\<close>)
next
  case (step_check w k i now r d)
  note D = plan_invD [OF step_check.prems]
  note C = check_plan_effect [OF D(1) step_check.hyps(2)]
  have claims: "pd_claims d = pd_claims (pw_dir w)" using C by (simp add: keeps_used_def)
  show ?case
  proof (rule plan_inv_proc [OF step_check.prems])
    show "plan_wf sha d" using C by blast
    show "scrubbed d p" if "pw_procs w k' = Returned p" for k' p using D(5) [OF that] C scrubbed_kept by blast
    show "j \<in> set (pd_claims d) \<and> (held_plan (pw_procs w k) = Some j \<or> j \<notin> set (pd_claims (pw_dir w)))"
      if "held_plan (outcome Loaded r) = Some j" for j
      using that C D(2) [of k i] step_check.hyps(1) by (cases r) (auto simp: outcome_def claims)
  qed (use C in \<open>auto simp: outcome_def claims split: sum.splits\<close>)
next
  case (step_scrub w k p r d)
  note D = plan_invD [OF step_scrub.prems]
  have p: "genuine sha p" "pl_id p \<in> set (pd_claims (pw_dir w))" using D(4) D(2) [of k] step_scrub.hyps(1) by auto
  have d: "d = pw_dir w \<and> (\<exists>e. r = Inl e) \<or> r = Inr p \<and> assertPlanId (pl_id p) \<and>
      d = (pw_dir w)\<lparr>pd_files := obj_put (pl_id p) (Contents (p\<lparr>pl_used := True, pl_args := redacted_args ''consumed'' (pl_requestHash p)\<rparr>)) (pd_files (pw_dir w))\<rparr>"
    using step_scrub.hyps(2) by (auto simp: scrub_plan_def sanitizePlan_def split: if_splits)
  show ?case
  proof (rule plan_inv_proc [OF step_scrub.prems])
    show "plan_wf sha d" using d D(1) by (auto simp: plan_wf_def map_of_obj_put split: if_splits)
    show "scrubbed d q" if "k' \<noteq> k" "pw_procs w k' = Returned q" for k' q
    proof -
      have "pl_id q \<noteq> pl_id p" using D(3) [of k' "pl_id q" k] that step_scrub.hyps(1) by auto
      with D(5) [OF that(2)] d show ?thesis by (auto simp: scrubbed_def map_of_obj_put)
    qed
    show "j \<in> set (pd_claims d) \<and> (held_plan (pw_procs w k) = Some j \<or> j \<notin> set (pd_claims (pw_dir w)))"
      if "held_plan (outcome Returned r) = Some j" for j
      using that d p(2) step_scrub.hyps(1) by (auto simp: outcome_def)
    show "genuine sha q \<and> scrubbed d q" if "outcome Returned r = Returned q" for q
      using that d p(1) by (auto simp: outcome_def scrubbed_def map_of_obj_put)
  qed (use d in \<open>auto simp: outcome_def\<close>)
qed

lemma plan_reach_inv: "plan_reach sha w \<Longrightarrow> plan_inv sha w"
proof (induction rule: plan_reach.induct)
  case plan_reach_start
  show ?case by (simp add: plan_inv_def plan_start_def plan_wf_def)
next
  case (plan_reach_step w w')
  then show ?case by (blast intro: plan_step_inv)
qed

text \<open>
  C16: A plan is executed at most once: whatever the interleaving of creations, sweeps and of the steps
  of concurrent consumers, two consumers that are handed a plan of the same id are the same consumer,
  and the plan they were handed is one whose operation and arguments match its request hash, while the
  copy on disk is marked used and holds no arguments.
\<close>

theorem plan_executes_at_most_once:
  assumes "plan_reach sha w" and "pw_procs w k = Returned p" and "pw_procs w k' = Returned p'" and "pl_id p = pl_id p'"
  shows "k = k' \<and> pl_requestHash p = request_hash sha (pl_operation p) (pl_args p) \<and>
    (\<exists>q. map_of (pd_files (pw_dir w)) (pl_id p) = Some (Contents q) \<and> pl_used q \<and> pl_args q = redacted_args ''consumed'' (pl_requestHash p))"
proof -
  note D = plan_invD [OF plan_reach_inv [OF assms(1)]]
  have "k = k'" using D(3) [of k "pl_id p" k'] assms(2-4) by simp
  with D(5) [OF assms(2)] show ?thesis unfolding genuine_def scrubbed_def by blast
qed

definition ex_uuid :: string where
  "ex_uuid = ''01234567-89ab-4def-8123-456789abcdef''"

definition ex_input :: plan_input where
  "ex_input = \<lparr>pi_nodeId = ''node'', pi_actor = JNull, pi_operation = ''dex.file.write'', pi_args = JObj [(''path'', JStr ''/a'')], pi_policyHash = ''h'',
     pi_checkpointId = None, pi_fingerprint = None, pi_fingerprintHash = None\<rparr>"

definition ex_created :: plan_world where
  "ex_created = plan_start\<lparr>pw_dir := snd (createPlan ex_sha ex_input None ex_uuid 0 (pw_dir plan_start))\<rparr>"

definition ex_plan :: execution_plan where
  "ex_plan = \<lparr>pl_id = ex_uuid, pl_nodeId = ''node'', pl_actor = JNull, pl_operation = ''dex.file.write'', pl_args = JObj [(''path'', JStr ''/a'')],
     pl_requestHash = request_hash ex_sha ''dex.file.write'' (JObj [(''path'', JStr ''/a'')]), pl_policyHash = ''h'', pl_createdAt = Iso 0,
     pl_expiresAt = Iso 300000, pl_checkpointId = None, pl_used = True, pl_fingerprint = None, pl_fingerprintHash = None\<rparr>"

lemma ex_uuid_ok: "assertPlanId ex_uuid"
  by code_simp

lemma ex_created_dir: "pw_dir ex_created = \<lparr>pd_files = [(ex_uuid, Contents (ex_plan\<lparr>pl_used := False\<rparr>))], pd_claims = []\<rparr>"
  by (simp add: ex_created_def plan_start_def createPlan_def sweepExpiredPlans_def obj_put_def ex_uuid_ok ex_plan_def ex_input_def Let_def)

lemma ex_consumed: "\<exists>w. plan_reach ex_sha w \<and> pw_procs w 0 = Returned ex_plan"
proof -
  define d1 where "d1 = \<lparr>pd_files = [(ex_uuid, Contents (ex_plan\<lparr>pl_used := False\<rparr>))], pd_claims = [ex_uuid]\<rparr>"
  define w1 where "w1 = \<lparr>pw_dir = d1, pw_procs = (pw_procs ex_created)(0 := Claimed ex_uuid)\<rparr>"
  define w2 where "w2 = \<lparr>pw_dir = d1, pw_procs = (pw_procs w1)(0 := Loaded ex_plan)\<rparr>"
  obtain r d3 where s: "scrub_plan ex_plan d1 = (r, d3)" by fastforce
  then have r: "r = Inr ex_plan" by (auto simp: scrub_plan_def sanitizePlan_def ex_plan_def ex_uuid_ok)
  define w3 where "w3 = \<lparr>pw_dir = d3, pw_procs = (pw_procs w2)(0 := Returned ex_plan)\<rparr>"
  have "plan_step ex_sha plan_start ex_created"
    unfolding ex_created_def by (rule step_create) (simp_all add: plan_start_def)
  moreover have "plan_step ex_sha ex_created w1"
    unfolding w1_def
    using step_claim [of ex_created 0 ex_uuid "Inr ()" d1 ex_sha]
    by (simp add: ex_created_dir claim_plan_def ex_uuid_ok d1_def outcome_def) (simp add: ex_created_def plan_start_def)
  moreover have "plan_step ex_sha w1 w2"
    unfolding w2_def
    using step_check [of w1 0 ex_uuid 5 "Inr ex_plan" d1 ex_sha]
    by (simp add: w1_def check_plan_def loadPlan_def ex_uuid_ok d1_def outcome_def ex_plan_def)
  moreover have "plan_step ex_sha w2 w3"
    unfolding w3_def using step_scrub [of w2 0 ex_plan r d3 ex_sha] s by (simp add: w2_def r outcome_def)
  ultimately have "plan_reach ex_sha w3" using plan_reach.intros by metis
  then show ?thesis by (auto simp: w3_def)
qed

theorem plan_executes_at_most_once_witness:
  "\<exists>w q. plan_reach ex_sha w \<and> pw_procs w 0 = Returned ex_plan \<and> map_of (pd_files (pw_dir w)) ex_uuid = Some (Contents q) \<and> pl_used q"
proof -
  obtain w where w: "plan_reach ex_sha w" "pw_procs w 0 = Returned ex_plan" using ex_consumed by blast
  from plan_executes_at_most_once [OF w w(2) refl] w show ?thesis by (auto simp: ex_plan_def)
qed

end
