(* ===== verification/Reach_Admission.thy ===== *)
theory Reach_Admission
  imports Reach_Coordination Reach_Lifecycle
begin

text \<open>
  The wait of a task for its work lease, \<open>src/src/node/task-admission.ts\<close>, over the callers' side of the
  coordinator in \<open>src/src/coordinator/client.ts\<close>. The loop polls through hooks; the locale
  \<open>admission_clock\<close> states what it relies on (no hook turns the clock back, sleeping takes at least the
  time asked for) and proves that it answers within 121 polls. The hooks of the node are the operations
  of the coordinator and of the task store of this development on one \<open>node_world\<close>, run without a
  daemon; the latency of each call, the samples of the machine and the fresh ids are oracles.
\<close>

section \<open>The loop\<close>

datatype wait_reason = ReasonPending | ReasonList "admission_reason list" | ReasonPosition nat

datatype 'e admission_failure = WaitTimeout wait_reason | ArrivedLate | LateReleaseUnconfirmed | HookThrew 'e

record ('w, 'e) admission_hooks =
  ah_now :: "'w \<Rightarrow> rat"
  ah_acquire :: "string option \<Rightarrow> 'w \<Rightarrow> ('e + admission_result) \<times> 'w"
  ah_release :: "string \<Rightarrow> 'w \<Rightarrow> ('e + bool) \<times> 'w"
  ah_cancel :: "string \<Rightarrow> 'w \<Rightarrow> ('e + bool) \<times> 'w"
  ah_status :: "wait_reason \<Rightarrow> 'w \<Rightarrow> ('e + unit) \<times> 'w"
  ah_sleep :: "rat \<Rightarrow> 'w \<Rightarrow> 'w"

text \<open>One poll: a final answer, or the ticket and the reason the next poll starts from. A failure keeps
  the ticket that was known when it was thrown.\<close>

datatype 'e poll = Answer "'e admission_failure + string" "string option" | Again "string option" wait_reason

definition admission_poll :: "('w, 'e) admission_hooks \<Rightarrow> rat \<Rightarrow> string option \<Rightarrow> wait_reason \<Rightarrow> 'w \<Rightarrow> 'e poll \<times> 'w" where
  "admission_poll H deadline ticket why w =
     (if ah_now H w \<ge> deadline then (Answer (Inl (WaitTimeout why)) ticket, w)
      else (case ah_acquire H ticket w of
          (Inl e, w1) \<Rightarrow> (Answer (Inl (HookThrew e)) ticket, w1)
        | (Inr (Acquired l cap), w1) \<Rightarrow>
            if ah_now H w1 \<ge> deadline then
              (case ah_release H (wl_id l) w1 of
                 (Inl e, w2) \<Rightarrow> (Answer (Inl (HookThrew e)) ticket, w2)
               | (Inr released, w2) \<Rightarrow> (Answer (Inl (if released then ArrivedLate else LateReleaseUnconfirmed)) ticket, w2))
            else (Answer (Inr (wl_id l)) ticket, w1)
        | (Inr (Queued t position cap reasons), w1) \<Rightarrow>
            (let ticket' = Some (wt_id t); why' = (if reasons = [] then ReasonPosition position else ReasonList reasons)
             in case ah_status H why' w1 of
                  (Inl e, w2) \<Rightarrow> (Answer (Inl (HookThrew e)) ticket', w2)
                | (Inr _, w2) \<Rightarrow>
                    if deadline - ah_now H w2 \<le> 0 then (Answer (Inl (WaitTimeout why')) ticket', w2)
                    else (Again ticket' why', ah_sleep H (min 250 (deadline - ah_now H w2)) w2))))"

fun admission_loop :: "nat \<Rightarrow> ('w, 'e) admission_hooks \<Rightarrow> rat \<Rightarrow> string option \<Rightarrow> wait_reason \<Rightarrow> 'w
    \<Rightarrow> (('e admission_failure + string) \<times> string option \<times> 'w) option" where
  "admission_loop 0 H deadline ticket why w = None"
| "admission_loop (Suc n) H deadline ticket why w = (case admission_poll H deadline ticket why w of
      (Answer r t, w1) \<Rightarrow> Some (r, t, w1)
    | (Again t why', w1) \<Rightarrow> admission_loop n H deadline t why' w1)"

text \<open>A failure cancels the ticket; an error of the cancellation replaces it. An empty id is no ticket.\<close>

definition acquireTaskAdmission :: "nat \<Rightarrow> ('w, 'e) admission_hooks \<Rightarrow> rat \<Rightarrow> 'w \<Rightarrow> (('e admission_failure + string) \<times> 'w) option" where
  "acquireTaskAdmission fuel H deadline w =
     (case admission_loop fuel H (min deadline (ah_now H w + of_int MAX_ADMISSION_MS)) None ReasonPending w of
        None \<Rightarrow> None
      | Some (Inr i, t, w1) \<Rightarrow> Some (Inr i, w1)
      | Some (Inl f, t, w1) \<Rightarrow> (case given t of
            None \<Rightarrow> Some (Inl f, w1)
          | Some i \<Rightarrow> (case ah_cancel H i w1 of (Inl e, w2) \<Rightarrow> Some (Inl (HookThrew e), w2) | (Inr _, w2) \<Rightarrow> Some (Inl f, w2))))"

section \<open>Termination\<close>

locale admission_clock =
  fixes H :: "('w, 'e) admission_hooks"
  assumes acquire_clock: "ah_acquire H t w = (a, w') \<Longrightarrow> ah_now H w \<le> ah_now H w'"
    and status_clock: "ah_status H s w = (u, w') \<Longrightarrow> ah_now H w \<le> ah_now H w'"
    and sleep_clock: "0 < ms \<Longrightarrow> ms \<le> 250 \<Longrightarrow> ah_now H w + ms \<le> ah_now H (ah_sleep H ms w)"
begin

lemma poll_again_clock:
  assumes "admission_poll H deadline ticket why w = (Again t why', w')"
  shows "deadline \<le> ah_now H w' \<or> ah_now H w + 250 \<le> ah_now H w'"
proof -
  obtain w1 w2 a u where a: "ah_acquire H ticket w = (a, w1)" and u: "ah_status H why' w1 = (u, w2)"
      and rem: "0 < deadline - ah_now H w2" and w': "w' = ah_sleep H (min 250 (deadline - ah_now H w2)) w2"
    using assms unfolding admission_poll_def Let_def by (auto split: if_splits prod.splits sum.splits admission_result.splits)
  have "ah_now H w \<le> ah_now H w2" using acquire_clock [OF a] status_clock [OF u] by simp
  moreover have "ah_now H w2 + min 250 (deadline - ah_now H w2) \<le> ah_now H w'"
    unfolding w' using rem by (intro sleep_clock) simp_all
  ultimately show ?thesis by (auto simp: min_def split: if_splits)
qed

lemma loop_answers: "deadline - ah_now H w \<le> 250 * of_nat n \<Longrightarrow> admission_loop (Suc n) H deadline ticket why w \<noteq> None"
proof (induction n arbitrary: ticket why w)
  case 0
  then show ?case by (simp add: admission_poll_def)
next
  case (Suc n)
  obtain p w1 where p: "admission_poll H deadline ticket why w = (p, w1)" by fastforce
  show ?case
  proof (cases p)
    case (Again t why')
    with p poll_again_clock have "deadline - ah_now H w1 \<le> 250 * of_nat n \<or> deadline \<le> ah_now H w1"
      using Suc.prems by (fastforce simp: algebra_simps)
    then have "deadline - ah_now H w1 \<le> 250 * of_nat n" by (auto intro: order_trans [of _ 0])
    from Suc.IH [OF this] show ?thesis using p Again by simp
  qed (use p in simp)
qed

lemma admission_answers: "acquireTaskAdmission 121 H deadline w \<noteq> None"
proof -
  let ?d = "min deadline (ah_now H w + of_int MAX_ADMISSION_MS)"
  have "?d - ah_now H w \<le> 250 * of_nat 120" by (simp add: MAX_ADMISSION_MS_def min_def)
  from loop_answers [OF this, of None ReasonPending] obtain r t w1 where "admission_loop 121 H ?d None ReasonPending w = Some (r, t, w1)"
    by (auto simp: numeral_eq_Suc)
  then show ?thesis unfolding acquireTaskAdmission_def by (auto split: sum.splits option.splits prod.splits)
qed

text \<open>An invariant of the hooks holds whenever a lease is handed out.\<close>

lemma loop_in_time:
  assumes inv: "\<And>t w a w'. ah_acquire H t w = (a, w') \<Longrightarrow> P w \<Longrightarrow> P w'" "\<And>s w u w'. ah_status H s w = (u, w') \<Longrightarrow> P w \<Longrightarrow> P w'"
      "\<And>ms w. P w \<Longrightarrow> P (ah_sleep H ms w)"
  shows "admission_loop n H deadline ticket why w = Some (Inr i, t, w') \<Longrightarrow> P w \<Longrightarrow>
     ah_now H w' < deadline \<and> (\<exists>tk w0 l cap. P w0 \<and> ah_acquire H tk w0 = (Inr (Acquired l cap), w') \<and> wl_id l = i)"
proof (induction n arbitrary: ticket why w)
  case (Suc n)
  obtain p w1 where p: "admission_poll H deadline ticket why w = (p, w1)" by fastforce
  show ?case
  proof (cases p)
    case (Answer r tk)
    with p Suc.prems have "admission_poll H deadline ticket why w = (Answer (Inr i) t, w')" by simp
    then show ?thesis using Suc.prems(2) unfolding admission_poll_def Let_def
      by (auto split: if_splits prod.splits sum.splits admission_result.splits)
  next
    case (Again tk why')
    obtain w2 w3 a u where "ah_acquire H ticket w = (a, w2)" "ah_status H why' w2 = (u, w3)" "w1 = ah_sleep H (min 250 (deadline - ah_now H w3)) w3"
      using p Again unfolding admission_poll_def Let_def by (auto split: if_splits prod.splits sum.splits admission_result.splits)
    with inv Suc.prems(2) have "P w1" by blast
    with p Suc.prems(1) Again Suc.IH show ?thesis by simp
  qed
qed simp

lemma admission_in_time:
  assumes inv: "\<And>t w a w'. ah_acquire H t w = (a, w') \<Longrightarrow> P w \<Longrightarrow> P w'" "\<And>s w u w'. ah_status H s w = (u, w') \<Longrightarrow> P w \<Longrightarrow> P w'"
      "\<And>ms w. P w \<Longrightarrow> P (ah_sleep H ms w)"
    and run: "acquireTaskAdmission n H deadline w = Some (Inr i, w')" and "P w"
  shows "ah_now H w' < deadline \<and> ah_now H w' < ah_now H w + of_int MAX_ADMISSION_MS \<and>
    (\<exists>tk w0 l cap. P w0 \<and> ah_acquire H tk w0 = (Inr (Acquired l cap), w') \<and> wl_id l = i)"
proof -
  obtain t where l: "admission_loop n H (min deadline (ah_now H w + of_int MAX_ADMISSION_MS)) None ReasonPending w = Some (Inr i, t, w')"
    using run unfolding acquireTaskAdmission_def by (auto split: option.splits prod.splits sum.splits)
  have "ah_now H w' < min deadline (ah_now H w + of_int MAX_ADMISSION_MS) \<and>
      (\<exists>tk w0 l cap. P w0 \<and> ah_acquire H tk w0 = (Inr (Acquired l cap), w') \<and> wl_id l = i)"
    by (rule loop_in_time [where P = P, OF inv l \<open>P w\<close>])
  then show ?thesis by simp
qed

text \<open>A status that cannot be stored ends the wait.\<close>

lemma status_failure_ends_wait:
  assumes "ah_now H w < deadline" and "ah_acquire H None w = (Inr (Queued t position cap reasons), w1)"
    and "ah_status H (if reasons = [] then ReasonPosition position else ReasonList reasons) w1 = (Inl e, w2)"
  shows "\<exists>f w'. acquireTaskAdmission (Suc n) H deadline w = Some (Inl (HookThrew f), w') \<and> (f = e \<or> (\<exists>w3 w4. ah_cancel H (wt_id t) w3 = (Inl f, w4)))"
proof -
  have "admission_poll H (min deadline (ah_now H w + of_int MAX_ADMISSION_MS)) None ReasonPending w = (Answer (Inl (HookThrew e)) (Some (wt_id t)), w2)"
    using assms by (simp add: admission_poll_def Let_def MAX_ADMISSION_MS_def)
  then show ?thesis
    by (cases "ah_cancel H (wt_id t) w2") (auto simp: acquireTaskAdmission_def given_def split: sum.split option.split)
qed

end

section \<open>The hooks of the node\<close>

record node_world =
  nw_clock :: rat
  nw_calls :: nat
  nw_work :: work_store
  nw_tasks :: task_world
  nw_persisted :: "string option"

record node_oracle =
  or_coord :: coord_env
  or_snapshot :: "nat \<Rightarrow> capacity_snapshot"
  or_uuid :: "nat \<Rightarrow> string"
  or_latency :: "nat \<Rightarrow> rat"
  or_tasks :: task_env
  or_eventId :: "nat \<Rightarrow> string"
  or_callerProof :: string
  or_text :: "wait_reason \<Rightarrow> string"

datatype node_error = CoordinatorError coord_error | TaskStoreError task_error | TaskCancelled

definition wall_clock :: "node_world \<Rightarrow> int" where
  "wall_clock w = \<lfloor>nw_clock w\<rfloor>"

definition tick :: "node_oracle \<Rightarrow> node_world \<Rightarrow> node_world" where
  "tick orc w = w\<lparr>nw_clock := nw_clock w + max 0 (or_latency orc (nw_calls w)), nw_calls := nw_calls w + 1\<rparr>"

definition bindCoordinatorCaller :: "int \<Rightarrow> work_request \<Rightarrow> work_request" where
  "bindCoordinatorCaller callerPid r = r\<lparr>wr_pid := Some (case wr_pid r of Some p \<Rightarrow> p | None \<Rightarrow> callerPid),
     wr_pidIsWorkload := Some (case wr_pidIsWorkload r of Some b \<Rightarrow> b | None \<Rightarrow> wr_pid r \<noteq> None)\<rparr>"

definition map_error :: "('a \<Rightarrow> 'b) \<Rightarrow> 'a + 'c \<Rightarrow> 'b + 'c" where
  "map_error f r = (case r of Inl e \<Rightarrow> Inl (f e) | Inr x \<Rightarrow> Inr x)"

definition coordinatedAcquire :: "node_oracle \<Rightarrow> work_request \<Rightarrow> node_world \<Rightarrow> (node_error + admission_result) \<times> node_world" where
  "coordinatedAcquire orc r w =
     (let bound = (bindCoordinatorCaller (ce_pid (or_coord orc)) r)\<lparr>wr_callerProofHash := Some (ce_sha256 (or_coord orc) (or_callerProof orc))\<rparr>
      in case acquireWork (or_coord orc) bound (or_snapshot orc (nw_calls w)) (or_uuid orc (nw_calls w)) (wall_clock w) (nw_work w) of
           (a, st) \<Rightarrow> (map_error CoordinatorError a, tick orc (w\<lparr>nw_work := st\<rparr>)))"

definition coordinatedRelease :: "node_oracle \<Rightarrow> string \<Rightarrow> node_world \<Rightarrow> (node_error + bool) \<times> node_world" where
  "coordinatedRelease orc i w =
     (case releaseWork (or_coord orc) i \<lparr>rl_pid = Some (ce_pid (or_coord orc)), rl_force = False, rl_callerProof = Some (or_callerProof orc), rl_requireCallerProof = False\<rparr>
             (wall_clock w) (nw_work w) of
        (Inl e, st) \<Rightarrow> (Inl (CoordinatorError e), tick orc (w\<lparr>nw_work := st\<rparr>))
      | (Inr r, st) \<Rightarrow> (Inr (r = Released), tick orc (w\<lparr>nw_work := st\<rparr>)))"

definition coordinatedCancel :: "node_oracle \<Rightarrow> string \<Rightarrow> node_world \<Rightarrow> (node_error + bool) \<times> node_world" where
  "coordinatedCancel orc i w = (case cancelTicket i (wall_clock w) (nw_work w) of
      (a, st) \<Rightarrow> (map_error CoordinatorError a, tick orc (w\<lparr>nw_work := st\<rparr>)))"

definition coordinatedHeartbeat :: "node_oracle \<Rightarrow> string \<Rightarrow> node_world \<Rightarrow> (node_error + bool) \<times> node_world" where
  "coordinatedHeartbeat orc i w = (case heartbeat i (wall_clock w) (nw_work w) of
      (a, st) \<Rightarrow> (map_error CoordinatorError a, tick orc (w\<lparr>nw_work := st\<rparr>)))"

text \<open>The writer of the waiting status: only a changed text is stored, and only while the task prepares.\<close>

definition wait_update :: "string \<Rightarrow> task_update" where
  "wait_update s = \<lparr>tu_state = None, tu_status = Some s, tu_resultRef = None, tu_resultHash = None, tu_failureClass = None\<rparr>"

definition waitingStatusWriter :: "node_oracle \<Rightarrow> string \<Rightarrow> string \<Rightarrow> node_world \<Rightarrow> (node_error + unit) \<times> node_world" where
  "waitingStatusWriter orc taskId status w =
     (case read_task (or_tasks orc) taskId (wall_clock w) (nw_tasks w) of
        Inl e \<Rightarrow> (Inl (TaskStoreError e), tick orc w)
      | Inr found \<Rightarrow>
          if map_option tr_state found \<noteq> Some PREPARING then (Inl TaskCancelled, tick orc w)
          else if nw_persisted w = Some status then (Inr (), tick orc w)
          else (case update_task (or_tasks orc) taskId (wait_update status) (or_eventId orc (nw_calls w)) (wall_clock w) (nw_tasks w) of
              (Inl e, tw) \<Rightarrow> (Inl (TaskStoreError e), tick orc (w\<lparr>nw_tasks := tw\<rparr>))
            | (Inr _, tw) \<Rightarrow> (Inr (), tick orc (w\<lparr>nw_tasks := tw, nw_persisted := Some status\<rparr>))))"

text \<open>The timer waits at least as long as asked, clipped to 250 ms.\<close>

definition node_sleep :: "node_oracle \<Rightarrow> rat \<Rightarrow> node_world \<Rightarrow> node_world" where
  "node_sleep orc ms w = tick orc (w\<lparr>nw_clock := nw_clock w + max 0 (min 250 ms)\<rparr>)"

definition wait_text :: "node_oracle \<Rightarrow> wait_reason \<Rightarrow> string" where
  "wait_text orc why = ''WAITING_FOR_COORDINATOR: '' @ or_text orc why"

definition node_hooks :: "node_oracle \<Rightarrow> work_request \<Rightarrow> string \<Rightarrow> (node_world, node_error) admission_hooks" where
  "node_hooks orc r taskId =
     \<lparr>ah_now = nw_clock,
      ah_acquire = (\<lambda>ticket. coordinatedAcquire orc (case given ticket of None \<Rightarrow> r | Some t \<Rightarrow> r\<lparr>wr_ticketId := Some t\<rparr>)),
      ah_release = coordinatedRelease orc, ah_cancel = coordinatedCancel orc,
      ah_status = (\<lambda>why. waitingStatusWriter orc taskId (wait_text orc why)), ah_sleep = node_sleep orc\<rparr>"

lemma tick_clock: "nw_clock w \<le> nw_clock (tick orc w)" "nw_work (tick orc w) = nw_work w" "nw_tasks (tick orc w) = nw_tasks w"
  by (simp_all add: tick_def)

lemma acquire_world:
  "coordinatedAcquire orc r w = (a, w') \<Longrightarrow> nw_clock w \<le> nw_clock w' \<and>
     (\<exists>b. acquireWork (or_coord orc) ((bindCoordinatorCaller (ce_pid (or_coord orc)) r)\<lparr>wr_callerProofHash := Some (ce_sha256 (or_coord orc) (or_callerProof orc))\<rparr>)
        (or_snapshot orc (nw_calls w)) (or_uuid orc (nw_calls w)) (wall_clock w) (nw_work w) = (b, nw_work w') \<and> a = map_error CoordinatorError b)"
  by (auto simp: coordinatedAcquire_def Let_def tick_def split: prod.splits)

lemma status_world: "waitingStatusWriter orc t s w = (u, w') \<Longrightarrow> nw_clock w \<le> nw_clock w' \<and> nw_work w' = nw_work w"
  by (auto simp: waitingStatusWriter_def tick_def split: sum.splits prod.splits if_splits)

interpretation node: admission_clock "node_hooks orc r t" for orc r t
proof
  show "ah_now (node_hooks orc r t) w + ms \<le> ah_now (node_hooks orc r t) (ah_sleep (node_hooks orc r t) ms w)" if "0 < ms" "ms \<le> 250" for ms w
    using that by (simp add: node_hooks_def node_sleep_def tick_def)
qed (use acquire_world status_world in \<open>fastforce simp: node_hooks_def\<close>)+


text \<open>The request of the node for the work of a task, with the first allowed root as its repository.\<close>

definition coordinatorRequest :: "string option \<Rightarrow> string \<Rightarrow> int \<Rightarrow> string \<Rightarrow> safety_class \<Rightarrow> work_request" where
  "coordinatorRequest repo taskId attempt operation safety =
     (let access = (if safety = PURE_READ_IDEMPOTENT then ''read'' else if safety = DESTRUCTIVE then ''exclusive'' else ''mutate'')
      in \<lparr>wr_executor = ''other'', wr_access = access, wr_workload = (if access = ''read'' then ''light'' else ''medium''), wr_bundle = None,
          wr_repositoryRoot = (if access = ''read'' then None else repo), wr_branch = None, wr_phase = Some operation, wr_taskId = Some taskId,
          wr_attempt = Some attempt, wr_ticketId = None, wr_pid = None, wr_parentPid = None, wr_pidIsWorkload = None, wr_callerProofHash = None\<rparr>)"

lemma acquireWork_store_ok: "store_ok st \<Longrightarrow> acquireWork env r sn uuid now st = (res, st') \<Longrightarrow> store_ok st'"
  by (rule acquireWork_cases) blast+

lemma acquired_is_held:
  assumes "store_ok st" and "acquireWork env r sn uuid now st = (Inr (Acquired l cap), st')" and "wr_pid r = Some p" and "0 < p"
  shows "l \<in> held st' \<and> wl_pid l = p"
  using assms(1,2)
proof (cases rule: acquireWork_cases)
  case (lease c st1 d l')
  then have l: "l = new_lease env r c uuid now" by auto
  then have p: "wl_pid l = p" using assms(3) by (simp add: new_lease_def)
  then have "lease_wf l" using new_lease_wf [OF lease(1) l] assms(4) by simp
  moreover have "ldir.named (cw_leases st1)" using lease(5) by (simp add: store_ok_def)
  ultimately show ?thesis using lease l p ldir.recs_write [of "cw_leases st1" l] by auto
qed blast

text \<open>
  C18: A lease the wait hands to a task is one the coordinator holds for the process of the node, and it was
  obtained before the deadline and within 30 seconds of the start of the wait.
\<close>

theorem admitted_lease_is_held:
  assumes "acquireTaskAdmission n (node_hooks orc r taskId) deadline w = Some (Inr i, w')"
    and "store_ok (nw_work w)" and "wr_pid r = None" and "0 < ce_pid (or_coord orc)"
  shows "nw_clock w' < deadline \<and> nw_clock w' < nw_clock w + 30000 \<and>
    (\<exists>l \<in> set (co_leases (readCoordinatorState (nw_work w'))). wl_id l = i \<and> wl_pid l = ce_pid (or_coord orc))"
proof -
  let ?H = "node_hooks orc r taskId" and ?P = "\<lambda>w. store_ok (nw_work w)"
  have A: "ah_now ?H w' < deadline \<and> ah_now ?H w' < ah_now ?H w + of_int MAX_ADMISSION_MS \<and>
    (\<exists>tk w0 l cap. ?P w0 \<and> ah_acquire ?H tk w0 = (Inr (Acquired l cap), w') \<and> wl_id l = i)"
  proof (rule node.admission_in_time [where P = ?P, OF _ _ _ assms(1,2)])
    show "?P w2" if "ah_acquire ?H t w1 = (a, w2)" "?P w1" for t w1 a w2
      using acquire_world [of orc _ w1 a w2] acquireWork_store_ok that by (force simp: node_hooks_def)
    show "?P w2" if "ah_status ?H s w1 = (u, w2)" "?P w1" for s w1 u w2
      using status_world [of orc taskId "wait_text orc s" w1 u w2] that by (simp add: node_hooks_def)
    show "?P (ah_sleep ?H ms w1)" if "?P w1" for ms w1 using that by (simp add: node_hooks_def node_sleep_def tick_def)
  qed
  then obtain tk w0 l cap where w0: "?P w0" "ah_acquire ?H tk w0 = (Inr (Acquired l cap), w')" "wl_id l = i" by blast
  define q where "q = (case given tk of None \<Rightarrow> r | Some t \<Rightarrow> r\<lparr>wr_ticketId := Some t\<rparr>)"
  have "wr_pid q = None" using assms(3) by (simp add: q_def split: option.split)
  moreover obtain b where b: "acquireWork (or_coord orc) ((bindCoordinatorCaller (ce_pid (or_coord orc)) q)\<lparr>wr_callerProofHash := Some (ce_sha256 (or_coord orc) (or_callerProof orc))\<rparr>)
        (or_snapshot orc (nw_calls w0)) (or_uuid orc (nw_calls w0)) (wall_clock w0) (nw_work w0) = (b, nw_work w')"
      "Inr (Acquired l cap) = map_error CoordinatorError b"
    using acquire_world [of orc q w0 _ w'] w0(2) by (auto simp: node_hooks_def q_def)
  moreover from b(2) have "b = Inr (Acquired l cap)" by (cases b) (simp_all add: map_error_def)
  ultimately have "l \<in> held (nw_work w') \<and> wl_pid l = ce_pid (or_coord orc)"
    using acquired_is_held [OF w0(1)] assms(4) by (simp add: bindCoordinatorCaller_def)
  with A w0(3) show ?thesis by (auto simp: node_hooks_def MAX_ADMISSION_MS_def held_read)
qed

lemma cancel_error: "coordinatedCancel orc i w = (Inl f, w') \<Longrightarrow> \<exists>e. f = CoordinatorError e"
  by (auto simp: coordinatedCancel_def map_error_def split: prod.splits sum.splits)

text \<open>
  A waiting reason of more than 240 characters ends the wait: the status of the queued request cannot be
  stored, so the admission of a task that is correctly queued fails instead of waiting for its turn.
\<close>

theorem long_wait_reason_aborts_wait:
  assumes "nw_clock w < deadline" and "coordinatedAcquire orc r w = (Inr (Queued t position cap reasons), w1)"
    and "read_task (or_tasks orc) taskId (wall_clock w1) (nw_tasks w1) = Inr (Some rec)" and "tr_state rec = PREPARING"
    and "tv_quarantined (or_tasks orc) = Some (\<lambda>_. False)" and "nw_persisted w1 = None"
    and "length (wait_text orc (if reasons = [] then ReasonPosition position else ReasonList reasons)) > 240"
  shows "\<exists>f w'. acquireTaskAdmission (Suc n) (node_hooks orc r taskId) deadline w = Some (Inl (HookThrew f), w') \<and>
     (f = TaskStoreError StatusTooLong \<or> (\<exists>e. f = CoordinatorError e))"
proof -
  let ?H = "node_hooks orc r taskId" and ?why = "if reasons = [] then ReasonPosition position else ReasonList reasons"
  have id: "TASK_ID_PATTERN taskId" using assms(3) by (auto simp: read_task_def split: if_splits)
  obtain w2 where "ah_status ?H ?why w1 = (Inl (TaskStoreError StatusTooLong), w2)"
    using assms(3-7) id by (simp add: node_hooks_def waitingStatusWriter_def update_task_def assertNotQuarantined_def wait_update_def opt_bad_def)
  moreover have "ah_acquire ?H None w = (Inr (Queued t position cap reasons), w1)" using assms(2) by (simp add: node_hooks_def given_def)
  moreover have "ah_now ?H w < deadline" using assms(1) by (simp add: node_hooks_def)
  ultimately obtain f w' where f: "acquireTaskAdmission (Suc n) ?H deadline w = Some (Inl (HookThrew f), w')"
      "f = TaskStoreError StatusTooLong \<or> (\<exists>w3 w4. ah_cancel ?H (wt_id t) w3 = (Inl f, w4))"
    using node.status_failure_ends_wait by blast
  have "\<exists>e. f = CoordinatorError e" if "ah_cancel ?H (wt_id t) w3 = (Inl f, w4)" for w3 w4
    by (rule cancel_error [of orc "wt_id t" w3 f w4]) (use that in \<open>simp add: node_hooks_def\<close>)
  with f(2) have c: "f = TaskStoreError StatusTooLong \<or> (\<exists>e. f = CoordinatorError e)" by (elim disjE exE) auto
  show ?thesis by (intro exI conjI, rule f(1), rule c)
qed

definition ex_oracle :: node_oracle where
  "ex_oracle = \<lparr>or_coord = ex_machine, or_snapshot = (\<lambda>_. ex_snapshot), or_uuid = (\<lambda>_. ''1''), or_latency = (\<lambda>_. 1), or_tasks = ex_task_env,
     or_eventId = (\<lambda>_. ''e2''), or_callerProof = replicate 64 (CHR ''a''), or_text = (\<lambda>_. replicate 300 (CHR ''x''))\<rparr>"

definition ex_node_world :: "work_store \<Rightarrow> task_world \<Rightarrow> node_world" where
  "ex_node_world st tw = \<lparr>nw_clock = 10, nw_calls = 0, nw_work = st, nw_tasks = tw, nw_persisted = None\<rparr>"

definition ex_ask :: work_request where
  "ex_ask = coordinatorRequest (Some ''/a'') ex_task_id 1 ''dex.file.write'' SIDE_EFFECTING_IDEMPOTENT"

definition answered :: "((node_error admission_failure + string) \<times> node_world) option \<Rightarrow> (string \<Rightarrow> bool) \<Rightarrow> bool" where
  "answered res P = (case res of Some (Inr i, w) \<Rightarrow> P i | _ \<Rightarrow> False)"

lemma answeredE: "answered res P \<Longrightarrow> (\<And>i w. res = Some (Inr i, w) \<Longrightarrow> P i \<Longrightarrow> thesis) \<Longrightarrow> thesis"
  by (auto simp: answered_def split: option.splits prod.splits sum.splits)

lemma ex_answered:
  "answered (acquireTaskAdmission 1 (node_hooks ex_oracle ex_ask ex_task_id) 5000 (ex_node_world empty_work_store empty_task_world)) (\<lambda>i. i = ''lease-1'')"
  by code_simp

theorem admitted_lease_is_held_witness:
  "\<exists>w'. acquireTaskAdmission 1 (node_hooks ex_oracle ex_ask ex_task_id) 5000 (ex_node_world empty_work_store empty_task_world) = Some (Inr ''lease-1'', w') \<and>
     (\<exists>l \<in> set (co_leases (readCoordinatorState (nw_work w'))). wl_id l = ''lease-1'' \<and> wl_pid l = 7) \<and> nw_clock w' < 5000"
proof -
  from ex_answered obtain w' where
    run: "acquireTaskAdmission 1 (node_hooks ex_oracle ex_ask ex_task_id) 5000 (ex_node_world empty_work_store empty_task_world) = Some (Inr ''lease-1'', w')"
    by (elim answeredE) blast
  have ok: "store_ok (nw_work (ex_node_world empty_work_store empty_task_world))"
    using coord_reach_separated [OF coord_start] by (simp add: ex_node_world_def)
  have p: "wr_pid ex_ask = None" "ce_pid (or_coord ex_oracle) = 7"
    by (simp_all add: ex_ask_def coordinatorRequest_def Let_def ex_oracle_def ex_machine_def)
  from admitted_lease_is_held [OF run ok p(1)] p(2) run show ?thesis by auto
qed

definition ex_preparing :: task_record where
  "ex_preparing = ex_record\<lparr>tr_state := PREPARING\<rparr>"

lemma ex_preparing_world: "\<exists>tw. \<forall>t. read_task ex_task_env ex_task_id t tw = Inr (Some ex_preparing)"
proof -
  have "tr_taskId ex_preparing = ex_task_id" "tr_rootTaskId ex_preparing = ex_task_id" "tr_nodeId ex_preparing = ''node''"
      "tr_actorId ex_preparing = ''actor''" "tr_idempotencyKey ex_preparing = ''key''" "tr_archivedAtUtc ex_preparing = None"
    by (simp_all add: ex_preparing_def ex_record_def new_record_def ex_create_def)
  note F = this
  then obtain ix where ix: "buildIndex [(ex_task_id, ex_preparing)] [] = Some ix"
    by (simp add: buildIndex_def addIndex_def index_push_def emptyIndex_def PROTOTYPE_KEYS_def ex_task_id_def)
  note D = record_okD [OF ex_record_ok]
  have ok: "record_ok ex_preparing" by (rule record_ok_cong [OF ex_record_ok]) (use D in \<open>simp_all add: ex_preparing_def\<close>)
  define d where "d = \<lparr>td_records = [(ex_task_id, ex_preparing)], td_archived = [], td_index = ix, td_updatedAtUtc = Iso 5\<rparr>"
  have "holds \<lparr>tw_store = Contents (encodeDocument d), tw_events = []\<rparr> d"
    using ok F ix by (simp add: holds_def doc_ok_def entries_ok_def d_def active_ok_def)
  then have r: "readDocument ex_task_env t \<lparr>tw_store = Contents (encodeDocument d), tw_events = []\<rparr> = Inr d" for t by (rule readDocument_holds)
  have "read_task ex_task_env ex_task_id t \<lparr>tw_store = Contents (encodeDocument d), tw_events = []\<rparr> = Inr (Some ex_preparing)" for t
    unfolding read_task_def r by (simp add: lookup_task_def d_def ex_task_guards)
  then show ?thesis by blast
qed

definition was_queued :: "(coord_error + admission_result) \<times> work_store \<Rightarrow> bool" where
  "was_queued p = (case p of (Inr (Queued _ _ _ _), _) \<Rightarrow> True | _ \<Rightarrow> False)"

lemma ex_busy:
  "was_queued (acquireWork ex_machine ((bindCoordinatorCaller 7 ex_ask)\<lparr>wr_callerProofHash := Some (replicate 64 (CHR ''a''))\<rparr>) ex_snapshot ''1'' 10 ex_one)"
  by code_simp

theorem long_wait_reason_aborts_wait_witness:
  "\<exists>tw f w'. acquireTaskAdmission 121 (node_hooks ex_oracle ex_ask ex_task_id) 5000 (ex_node_world ex_one tw) = Some (Inl (HookThrew f), w')"
proof -
  obtain tw where tw: "\<And>t. read_task ex_task_env ex_task_id t tw = Inr (Some ex_preparing)" using ex_preparing_world by blast
  obtain t n cap rs st where q: "acquireWork ex_machine ((bindCoordinatorCaller 7 ex_ask)\<lparr>wr_callerProofHash := Some (replicate 64 (CHR ''a''))\<rparr>) ex_snapshot ''1'' 10 ex_one
      = (Inr (Queued t n cap rs), st)"
    using ex_busy by (auto simp: was_queued_def split: prod.splits sum.splits admission_result.splits)
  define w1 where "w1 = tick ex_oracle ((ex_node_world ex_one tw)\<lparr>nw_work := st\<rparr>)"
  have a: "coordinatedAcquire ex_oracle ex_ask (ex_node_world ex_one tw) = (Inr (Queued t n cap rs), w1)"
    using q by (simp add: coordinatedAcquire_def Let_def ex_oracle_def ex_node_world_def wall_clock_def w1_def map_error_def ex_machine_def)
  have w1: "nw_tasks w1 = tw" "nw_persisted w1 = None" by (simp_all add: w1_def tick_def ex_node_world_def)
  have l: "240 < length (wait_text ex_oracle why)" for why by (simp add: wait_text_def ex_oracle_def)
  have r: "read_task (or_tasks ex_oracle) ex_task_id (wall_clock w1) (nw_tasks w1) = Inr (Some ex_preparing)"
    using tw by (simp add: w1 ex_oracle_def)
  have p: "tr_state ex_preparing = PREPARING" "tv_quarantined (or_tasks ex_oracle) = Some (\<lambda>_. False)" "nw_clock (ex_node_world ex_one tw) < 5000"
    by (simp_all add: ex_preparing_def ex_oracle_def ex_task_env_def ex_node_world_def)
  from long_wait_reason_aborts_wait [OF p(3) a r p(1,2) w1(2) l, of 120] show ?thesis by (auto simp: numeral_eq_Suc)
qed

end
