(* ===== verification/Reach_Node_Auth.thy ===== *)
theory Reach_Node_Auth
  imports Reach_Ledger
begin

text \<open>
  Authentication of nodes at the gateway: the proofs a node signs (\<open>src/src/shared/node-transport-auth.ts\<close>)
  and the credential store (\<open>src/src/gateway/node-auth.ts\<close>). The store keeps one file and the copy of it in
  memory; a mutation reloads, runs, prunes and writes under the lock of the file, so an operation is one step,
  also between processes. One operation reads the clock once. The digest of a token and the verification of
  a signature are the parameters \<open>ae_sha\<close> and \<open>ae_verify\<close>; a fresh token is an argument. The file is read
  without checks of its members, so its content is the typed value the code takes it for. Node ids that are
  members of \<open>Object.prototype\<close> are outside the model; nonces that are such members are inside.
\<close>

section \<open>Proofs\<close>

definition NODE_PROOF_MAX_AGE_MS :: int where "NODE_PROOF_MAX_AGE_MS = 5 * 60000"
definition NODE_PROOF_FUTURE_SKEW_MS :: int where "NODE_PROOF_FUTURE_SKEW_MS = 30000"
definition NODE_PROOF_PATH :: string where "NODE_PROOF_PATH = ''/node''"
definition REACH_PROTOCOL_VERSION :: int where "REACH_PROTOCOL_VERSION = 1"

record node_auth_proof =
  np_nodeId :: string
  np_timestamp :: rat
  np_nonce :: string
  np_path :: string
  np_protocolVersion :: int
  np_signature :: string

definition proofPayload :: "node_auth_proof \<Rightarrow> json" where
  "proofPayload p = canonicalJson (JObj [(''nodeId'', JStr (np_nodeId p)), (''timestamp'', JNum (np_timestamp p)), (''nonce'', JStr (np_nonce p)),
     (''path'', JStr (np_path p)), (''protocolVersion'', JNum (of_int (np_protocolVersion p)))])"

text \<open>The keys of the payload are fixed, so their order is found once.\<close>

lemma proofPayload_sorted [code]:
  "proofPayload p = JObj [(''nodeId'', JStr (np_nodeId p)), (''nonce'', JStr (np_nonce p)), (''path'', JStr (np_path p)),
     (''protocolVersion'', JNum (of_int (np_protocolVersion p))), (''timestamp'', JNum (np_timestamp p))]"
proof -
  have "sort_key (\<lambda>(k, v). collate_key k) [(''nodeId'', a), (''timestamp'', b), (''nonce'', c), (''path'', d), (''protocolVersion'', e)] =
      [(''nodeId'', a), (''nonce'', c), (''path'', d), (''protocolVersion'', e), (''timestamp'', b)]" for a b c d e :: json
    by code_simp
  then show ?thesis unfolding proofPayload_def by simp
qed

datatype proof_failure = UnknownNode | RevokedNode | WrongKey | StaleTimestamp | FutureTimestamp | Replay | WrongNodeId | WrongPath
  | IncompatibleProtocol | NonceCapacity | MalformedProof

text \<open>The argument is the parsed text of the decoded header, \<open>None\<close> if it does not parse.\<close>

definition decodeNodeProof :: "json option \<Rightarrow> node_auth_proof option" where
  "decodeNodeProof parsed = (case parsed of None \<Rightarrow> None | Some j \<Rightarrow>
     (case (str_field j ''nodeId'', num_field j ''timestamp'', str_field j ''nonce'', str_field j ''path'', int_field j ''protocolVersion'', str_field j ''signature'') of
        (Some n, Some t, Some c, Some pth, Some v, Some s) \<Rightarrow>
          if n = [] \<or> length c < 16 \<or> pth = [] \<or> s = [] then None
          else Some \<lparr>np_nodeId = n, np_timestamp = t, np_nonce = c, np_path = pth, np_protocolVersion = v, np_signature = s\<rparr>
      | _ \<Rightarrow> None))"

definition encodeNodeProof :: "node_auth_proof \<Rightarrow> json" where
  "encodeNodeProof p = JObj [(''nodeId'', JStr (np_nodeId p)), (''timestamp'', JNum (np_timestamp p)), (''nonce'', JStr (np_nonce p)),
     (''path'', JStr (np_path p)), (''protocolVersion'', JNum (of_int (np_protocolVersion p))), (''signature'', JStr (np_signature p))]"

definition checkProofTiming :: "rat \<Rightarrow> int \<Rightarrow> proof_failure option" where
  "checkProofTiming timestamp now =
     (if of_int now - timestamp > of_int NODE_PROOF_MAX_AGE_MS then Some StaleTimestamp
      else if timestamp - of_int now > of_int NODE_PROOF_FUTURE_SKEW_MS then Some FutureTimestamp else None)"

record auth_env =
  ae_sha :: "string \<Rightarrow> string"
  ae_verify :: "string \<Rightarrow> json \<Rightarrow> string \<Rightarrow> bool"

definition verifyNodeProofSignature :: "auth_env \<Rightarrow> string \<Rightarrow> node_auth_proof \<Rightarrow> bool" where
  "verifyNodeProofSignature env publicKey p = ae_verify env publicKey (proofPayload p) (np_signature p)"

datatype node_authorization = BearerToken string | ProofHeader string | NoAuthorization

definition parseNodeAuthorization :: "string \<Rightarrow> node_authorization" where
  "parseNodeAuthorization header =
     (if starts_with header ''DexNodeEd25519 '' then ProofHeader (drop 15 header)
      else if starts_with header ''Bearer '' then BearerToken (drop 7 header) else NoAuthorization)"

section \<open>The credential store\<close>

record credential_slot =
  cs_hash :: string
  cs_createdAt :: int
  cs_validUntil :: "rat option"

record transport_slot =
  ts_publicKey :: string
  ts_createdAt :: int
  ts_validUntil :: "rat option"

datatype node_auth_mode = Bearer | Migrating | Asymmetric

record node_credentials =
  nc_authMode :: node_auth_mode
  nc_active :: "credential_slot option"
  nc_previous :: "credential_slot list"
  nc_transport :: "transport_slot option"
  nc_previousTransport :: "transport_slot list"
  nc_revoked :: bool
  nc_updatedAt :: int

record enrollment_record =
  er_nodeId :: string
  er_expiresAt :: rat
  er_consumed :: bool

record nonce_record =
  nn_nodeId :: string
  nn_expiresAt :: rat

record node_auth =
  na_nodes :: "node_credentials obj"
  na_enrollment :: "enrollment_record obj"
  na_nonces :: "nonce_record obj"

record legacy_credentials =
  lc_active :: "credential_slot option"
  lc_previous :: "credential_slot list option"
  lc_revoked :: bool
  lc_updatedAt :: int

text \<open>A version 2 file, a version 1 file (both with a member \<open>nodes\<close>, which may be null), or anything else.\<close>

datatype auth_file =
    AuthV2 "node_credentials obj option" "enrollment_record obj option" "nonce_record obj option"
  | AuthV1 "legacy_credentials obj option"
  | AuthOther

definition EMPTY_STATE :: node_auth where
  "EMPTY_STATE = \<lparr>na_nodes = [], na_enrollment = [], na_nonces = []\<rparr>"

definition MAX_NONCES_PER_NODE :: int where "MAX_NONCES_PER_NODE = 4096"
definition MAX_NONCES :: int where "MAX_NONCES = 65536"
definition DEFAULT_ENROLL_TTL_MS :: int where "DEFAULT_ENROLL_TTL_MS = 15 * 60000"
definition MAX_ENROLL_TTL_MS :: int where "MAX_ENROLL_TTL_MS = 60 * 60000"

definition defaultRecord :: "int \<Rightarrow> node_credentials" where
  "defaultRecord now = \<lparr>nc_authMode = Bearer, nc_active = None, nc_previous = [], nc_transport = None, nc_previousTransport = [], nc_revoked = False,
     nc_updatedAt = now\<rparr>"

definition upgradeState :: "auth_file \<Rightarrow> node_auth option" where
  "upgradeState f = (case f of
      AuthV2 ns es cs \<Rightarrow> Some \<lparr>na_nodes = (case ns of Some x \<Rightarrow> x | None \<Rightarrow> []), na_enrollment = (case es of Some x \<Rightarrow> x | None \<Rightarrow> []),
        na_nonces = (case cs of Some x \<Rightarrow> x | None \<Rightarrow> [])\<rparr>
    | AuthV1 ns \<Rightarrow> Some (EMPTY_STATE\<lparr>na_nodes := map (\<lambda>(n, r). (n, \<lparr>nc_authMode = Bearer, nc_active = lc_active r,
        nc_previous = (case lc_previous r of Some x \<Rightarrow> x | None \<Rightarrow> []), nc_transport = None, nc_previousTransport = [], nc_revoked = lc_revoked r,
        nc_updatedAt = lc_updatedAt r\<rparr>)) (case ns of Some x \<Rightarrow> x | None \<Rightarrow> [])\<rparr>)
    | AuthOther \<Rightarrow> None)"

datatype auth_error = AuthUnreadable | AuthUnsupported | PrivateKeyMaterial | LegacyInvalid | NodeIdRequired | AlreadyEnrolled | GraceInvalid | NotEnrolled
  | AsymmetricBearer | EnrollTtl | NodeRevoked | KeyFormat | EnrollmentInvalid | EnrollmentOtherNode | NoTransportKey | BearerNode | StillActive

record auth_store =
  au_file :: "auth_file stored"
  au_state :: node_auth

definition reload :: "auth_store \<Rightarrow> auth_error + node_auth" where
  "reload s = (case au_file s of
      Absent \<Rightarrow> Inr EMPTY_STATE
    | Unreadable \<Rightarrow> Inl AuthUnreadable
    | Contents f \<Rightarrow> (case upgradeState f of None \<Rightarrow> Inl AuthUnsupported | Some st \<Rightarrow> Inr st))"

text \<open>\<open>Boolean(slot.validUntil && slot.validUntil > now)\<close>.\<close>

definition in_grace :: "int \<Rightarrow> rat option \<Rightarrow> bool" where
  "in_grace now u = (case u of None \<Rightarrow> False | Some v \<Rightarrow> v \<noteq> 0 \<and> v > of_int now)"

definition pruneNonces :: "int \<Rightarrow> node_auth \<Rightarrow> node_auth" where
  "pruneNonces now st = st\<lparr>na_nonces := filter (\<lambda>(c, r). \<not> nn_expiresAt r \<le> of_int now) (na_nonces st)\<rparr>"

definition prune_record :: "int \<Rightarrow> node_credentials \<Rightarrow> node_credentials" where
  "prune_record now r = r\<lparr>nc_previous := filter (\<lambda>s. in_grace now (cs_validUntil s)) (nc_previous r),
     nc_previousTransport := filter (\<lambda>s. in_grace now (ts_validUntil s)) (nc_previousTransport r)\<rparr>"

definition prune :: "int \<Rightarrow> node_auth \<Rightarrow> node_auth" where
  "prune now st = pruneNonces now (st\<lparr>na_nodes := map (\<lambda>(n, r). (n, prune_record now r)) (na_nodes st),
     na_enrollment := filter (\<lambda>(h, e). \<not> (er_consumed e \<or> er_expiresAt e \<le> of_int now)) (na_enrollment st)\<rparr>)"

definition nonceCacheFull :: "string \<Rightarrow> node_auth \<Rightarrow> bool" where
  "nonceCacheFull nodeId st = (MAX_NONCES \<le> int (length (na_nonces st)) \<or>
     MAX_NONCES_PER_NODE \<le> int (length (filter (\<lambda>(c, r). nn_nodeId r = nodeId) (na_nonces st))))"

text \<open>The pattern \<open>BEGIN (?:.*)?PRIVATE KEY\<close> on the lines of the file: every string of the state is within one line.\<close>

fun after_begin :: "string \<Rightarrow> string option" where
  "after_begin [] = None"
| "after_begin (c # s) = (if starts_with (c # s) ''BEGIN '' then Some (drop 6 (c # s)) else after_begin s)"

definition private_text :: "string \<Rightarrow> bool" where
  "private_text s = (case after_begin s of None \<Rightarrow> False | Some r \<Rightarrow> str_includes r ''PRIVATE KEY'')"

definition state_strings :: "node_auth \<Rightarrow> string list" where
  "state_strings st =
     concat (map (\<lambda>(n, r). n # map cs_hash (case nc_active r of None \<Rightarrow> nc_previous r | Some a \<Rightarrow> a # nc_previous r)
         @ map ts_publicKey (case nc_transport r of None \<Rightarrow> nc_previousTransport r | Some k \<Rightarrow> k # nc_previousTransport r)) (na_nodes st))
     @ concat (map (\<lambda>(h, e). [h, er_nodeId e]) (na_enrollment st)) @ concat (map (\<lambda>(c, r). [c, nn_nodeId r]) (na_nonces st))"

definition persistUnlocked :: "int \<Rightarrow> auth_store \<Rightarrow> (auth_error + unit) \<times> auth_store" where
  "persistUnlocked now s =
     (let st = prune now (au_state s)
      in if list_ex private_text (state_strings st) then (Inl PrivateKeyMaterial, s\<lparr>au_state := st\<rparr>)
         else (Inr (), \<lparr>au_file = Contents (AuthV2 (Some (na_nodes st)) (Some (na_enrollment st)) (Some (na_nonces st))), au_state = st\<rparr>))"

definition auth_mutate :: "int \<Rightarrow> (node_auth \<Rightarrow> (auth_error + 'a) \<times> node_auth) \<Rightarrow> auth_store \<Rightarrow> (auth_error + 'a) \<times> auth_store" where
  "auth_mutate now f s = (case reload s of
      Inl e \<Rightarrow> (Inl e, s)
    | Inr st \<Rightarrow> (case f st of
        (Inl e, st') \<Rightarrow> (Inl e, s\<lparr>au_state := st'\<rparr>)
      | (Inr x, st') \<Rightarrow> (case persistUnlocked now (s\<lparr>au_state := st'\<rparr>) of (Inl e, s') \<Rightarrow> (Inl e, s') | (Inr _, s') \<Rightarrow> (Inr x, s'))))"

definition put_node :: "string \<Rightarrow> node_credentials \<Rightarrow> node_auth \<Rightarrow> node_auth" where
  "put_node n r st = st\<lparr>na_nodes := obj_put n r (na_nodes st)\<rparr>"

section \<open>The operations\<close>

definition auth_initialize :: "int \<Rightarrow> auth_store \<Rightarrow> (auth_error + unit) \<times> auth_store" where
  "auth_initialize now s = (case reload s of Inl e \<Rightarrow> (Inl e, s) | Inr st \<Rightarrow> (Inr (), s\<lparr>au_state := prune now st\<rparr>))"

definition bearer_accepted :: "auth_env \<Rightarrow> int \<Rightarrow> node_credentials \<Rightarrow> string \<Rightarrow> bool" where
  "bearer_accepted env now r token =
     (\<not> nc_revoked r \<and> token \<noteq> [] \<and> nc_authMode r \<noteq> Asymmetric \<and>
      (case nc_active r of None \<Rightarrow> False
       | Some a \<Rightarrow> ae_sha env token = cs_hash a \<or> list_ex (\<lambda>s. in_grace now (cs_validUntil s) \<and> ae_sha env token = cs_hash s) (nc_previous r)))"

definition authenticate :: "auth_env \<Rightarrow> int \<Rightarrow> string \<Rightarrow> string \<Rightarrow> auth_store \<Rightarrow> (auth_error + bool) \<times> auth_store" where
  "authenticate env now nodeId token s = (case reload s of
      Inl e \<Rightarrow> (Inl e, s)
    | Inr st \<Rightarrow> (let st' = prune now st
        in (Inr (case map_of (na_nodes st') nodeId of None \<Rightarrow> False | Some r \<Rightarrow> bearer_accepted env now r token), s\<lparr>au_state := st'\<rparr>)))"

text \<open>Nonces of sixteen characters or more that every object inherits.\<close>

definition INHERITED_NONCES :: "string list" where
  "INHERITED_NONCES = [''propertyIsEnumerable'', ''__defineGetter__'', ''__defineSetter__'', ''__lookupGetter__'', ''__lookupSetter__'']"

definition live_keys :: "int \<Rightarrow> node_credentials \<Rightarrow> transport_slot \<Rightarrow> transport_slot list" where
  "live_keys now r k = k # filter (\<lambda>s. in_grace now (ts_validUntil s)) (nc_previousTransport r)"

definition check_proof :: "auth_env \<Rightarrow> int \<Rightarrow> string \<Rightarrow> json option \<Rightarrow> string \<Rightarrow> node_auth \<Rightarrow> (auth_error + proof_failure option) \<times> node_auth" where
  "check_proof env now nodeId encoded requestPath st = (case decodeNodeProof encoded of
      None \<Rightarrow> (Inr (Some MalformedProof), st)
    | Some p \<Rightarrow>
        if np_nodeId p \<noteq> nodeId then (Inr (Some WrongNodeId), st)
        else if np_path p \<noteq> requestPath then (Inr (Some WrongPath), st)
        else if np_protocolVersion p \<noteq> REACH_PROTOCOL_VERSION then (Inr (Some IncompatibleProtocol), st)
        else (case checkProofTiming (np_timestamp p) now of
            Some f \<Rightarrow> (Inr (Some f), st)
          | None \<Rightarrow> (case map_of (na_nodes st) nodeId of
              None \<Rightarrow> (Inr (Some UnknownNode), st)
            | Some r \<Rightarrow>
                if nc_revoked r then (Inr (Some RevokedNode), st)
                else (case (nc_authMode r, nc_transport r) of
                    (Bearer, _) \<Rightarrow> (Inr (Some UnknownNode), st)
                  | (_, None) \<Rightarrow> (Inr (Some UnknownNode), st)
                  | (_, Some k) \<Rightarrow>
                      if map_of (na_nonces st) (np_nonce p) \<noteq> None \<or> np_nonce p \<in> set INHERITED_NONCES then (Inr (Some Replay), st)
                      else (let st1 = pruneNonces now st
                        in if nonceCacheFull nodeId st1 then (Inr (Some NonceCapacity), st1)
                           else if \<not> list_ex (\<lambda>k'. verifyNodeProofSignature env (ts_publicKey k') p) (live_keys now r k) then (Inr (Some WrongKey), st1)
                           else (Inr None, pruneNonces now (st1\<lparr>na_nonces :=
                             obj_put (np_nonce p) \<lparr>nn_nodeId = nodeId, nn_expiresAt = np_timestamp p + 5 * 60000\<rparr> (na_nonces st1)\<rparr>)))))))"

definition authenticateProof ::
  "auth_env \<Rightarrow> int \<Rightarrow> string \<Rightarrow> json option \<Rightarrow> string \<Rightarrow> auth_store \<Rightarrow> (auth_error + proof_failure option) \<times> auth_store" where
  "authenticateProof env now nodeId encoded requestPath = auth_mutate now (check_proof env now nodeId encoded requestPath)"

definition new_credentials :: "auth_env \<Rightarrow> int \<Rightarrow> string \<Rightarrow> node_credentials" where
  "new_credentials env now token = (defaultRecord now)\<lparr>nc_active := Some \<lparr>cs_hash = ae_sha env token, cs_createdAt = now, cs_validUntil = None\<rparr>\<rparr>"

definition importLegacy :: "auth_env \<Rightarrow> int \<Rightarrow> string \<Rightarrow> string \<Rightarrow> auth_store \<Rightarrow> (auth_error + bool) \<times> auth_store" where
  "importLegacy env now nodeId token s =
     (if nodeId = [] \<or> length token < 24 then (Inl LegacyInvalid, s)
      else auth_mutate now (\<lambda>st. if map_of (na_nodes st) nodeId \<noteq> None then (Inr False, st)
          else (Inr True, put_node nodeId (new_credentials env now token) st)) s)"

definition enroll :: "auth_env \<Rightarrow> int \<Rightarrow> string \<Rightarrow> string \<Rightarrow> auth_store \<Rightarrow> (auth_error + string) \<times> auth_store" where
  "enroll env now nodeId token s =
     (if nodeId = [] then (Inl NodeIdRequired, s)
      else auth_mutate now (\<lambda>st. case map_of (na_nodes st) nodeId of
          Some r \<Rightarrow> if \<not> nc_revoked r then (Inl AlreadyEnrolled, st) else (Inr token, put_node nodeId (new_credentials env now token) st)
        | None \<Rightarrow> (Inr token, put_node nodeId (new_credentials env now token) st)) s)"

definition default_grace :: "rat option \<Rightarrow> rat" where
  "default_grace g = (case g of Some x \<Rightarrow> x | None \<Rightarrow> 10 * 60 * 1000)"

definition rotate_token :: "auth_env \<Rightarrow> int \<Rightarrow> string \<Rightarrow> rat option \<Rightarrow> string \<Rightarrow> auth_store \<Rightarrow> (auth_error + string) \<times> auth_store" where
  "rotate_token env now nodeId graceMs token s =
     (if default_grace graceMs < 0 then (Inl GraceInvalid, s)
      else auth_mutate now (\<lambda>st. case map_of (na_nodes st) nodeId of
          None \<Rightarrow> (Inl NotEnrolled, st)
        | Some r \<Rightarrow>
            if nc_revoked r then (Inl NotEnrolled, st)
            else if nc_authMode r = Asymmetric then (Inl AsymmetricBearer, st)
            else (case nc_active r of
                None \<Rightarrow> (Inl NotEnrolled, st)
              | Some a \<Rightarrow> (Inr token, prune now (put_node nodeId (r\<lparr>nc_previous := nc_previous r @ [a\<lparr>cs_validUntil := Some (of_int now + default_grace graceMs)\<rparr>],
                  nc_active := Some \<lparr>cs_hash = ae_sha env token, cs_createdAt = now, cs_validUntil = None\<rparr>, nc_updatedAt := now\<rparr>) st)))) s)"

definition createEnrollmentToken :: "auth_env \<Rightarrow> int \<Rightarrow> string \<Rightarrow> rat option \<Rightarrow> string \<Rightarrow> auth_store \<Rightarrow> (auth_error + string) \<times> auth_store" where
  "createEnrollmentToken env now nodeId ttlMs token s =
     (let ttl = (case ttlMs of Some x \<Rightarrow> x | None \<Rightarrow> of_int DEFAULT_ENROLL_TTL_MS)
      in if nodeId = [] then (Inl NodeIdRequired, s)
         else if ttl \<le> 0 \<or> ttl > of_int MAX_ENROLL_TTL_MS then (Inl EnrollTtl, s)
         else auth_mutate now (\<lambda>st. case map_of (na_nodes st) nodeId of
             Some r \<Rightarrow> if nc_revoked r then (Inl NodeRevoked, st)
               else (Inr token, st\<lparr>na_enrollment := obj_put (ae_sha env token) \<lparr>er_nodeId = nodeId, er_expiresAt = of_int now + ttl, er_consumed = False\<rparr> (na_enrollment st)\<rparr>)
           | None \<Rightarrow> (Inr token, st\<lparr>na_enrollment := obj_put (ae_sha env token) \<lparr>er_nodeId = nodeId, er_expiresAt = of_int now + ttl, er_consumed = False\<rparr> (na_enrollment st)\<rparr>)) s)"

definition public_pem :: "string \<Rightarrow> bool" where
  "public_pem pem = (str_includes pem ''PUBLIC KEY'' \<and> \<not> str_includes pem ''PRIVATE KEY'')"

definition new_key :: "int \<Rightarrow> string \<Rightarrow> transport_slot" where
  "new_key now pem = \<lparr>ts_publicKey = pem, ts_createdAt = now, ts_validUntil = None\<rparr>"

definition rotate_key :: "int \<Rightarrow> rat option \<Rightarrow> string \<Rightarrow> transport_slot \<Rightarrow> node_credentials \<Rightarrow> node_credentials" where
  "rotate_key now graceMs pem k r = r\<lparr>nc_previousTransport := nc_previousTransport r @ [k\<lparr>ts_validUntil := Some (of_int now + default_grace graceMs)\<rparr>],
     nc_transport := Some (new_key now pem), nc_updatedAt := now\<rparr>"

definition consumeEnrollment :: "auth_env \<Rightarrow> int \<Rightarrow> string \<Rightarrow> string \<Rightarrow> string \<Rightarrow> rat option \<Rightarrow> auth_store \<Rightarrow> (auth_error + unit) \<times> auth_store" where
  "consumeEnrollment env now nodeId token pem graceMs s =
     (if \<not> public_pem pem then (Inl KeyFormat, s)
      else auth_mutate now (\<lambda>st. case map_of (na_enrollment st) (ae_sha env token) of
          None \<Rightarrow> (Inl EnrollmentInvalid, st)
        | Some e \<Rightarrow>
            if er_consumed e \<or> er_expiresAt e \<le> of_int now then (Inl EnrollmentInvalid, st)
            else if er_nodeId e \<noteq> nodeId then (Inl EnrollmentOtherNode, st)
            else (let st1 = st\<lparr>na_enrollment := obj_put (ae_sha env token) (e\<lparr>er_consumed := True\<rparr>) (na_enrollment st)\<rparr>;
                      r = (case map_of (na_nodes st) nodeId of Some r \<Rightarrow> r | None \<Rightarrow> defaultRecord now)
                  in if nc_revoked r then (Inl NodeRevoked, st1)
                     else (case (nc_authMode r, nc_transport r) of
                         (Asymmetric, Some k) \<Rightarrow> (Inr (), put_node nodeId (rotate_key now graceMs pem k r) st1)
                       | _ \<Rightarrow> (Inr (), put_node nodeId (r\<lparr>nc_transport := Some (new_key now pem),
                           nc_authMode := (if nc_active r \<noteq> None then Migrating else Asymmetric), nc_updatedAt := now\<rparr>) st1)))) s)"

definition completeMigration :: "int \<Rightarrow> string \<Rightarrow> auth_store \<Rightarrow> (auth_error + unit) \<times> auth_store" where
  "completeMigration now nodeId = auth_mutate now (\<lambda>st. case map_of (na_nodes st) nodeId of
      None \<Rightarrow> (Inl NotEnrolled, st)
    | Some r \<Rightarrow> if nc_revoked r then (Inl NotEnrolled, st)
        else if nc_transport r = None then (Inl NoTransportKey, st)
        else if nc_authMode r = Bearer then (Inl BearerNode, st)
        else (Inr (), put_node nodeId (r\<lparr>nc_authMode := Asymmetric, nc_active := None, nc_previous := [], nc_updatedAt := now\<rparr>) st))"

definition rotateTransportKey :: "int \<Rightarrow> string \<Rightarrow> string \<Rightarrow> rat option \<Rightarrow> auth_store \<Rightarrow> (auth_error + unit) \<times> auth_store" where
  "rotateTransportKey now nodeId pem graceMs s =
     (if \<not> public_pem pem then (Inl KeyFormat, s)
      else auth_mutate now (\<lambda>st. case map_of (na_nodes st) nodeId of
          None \<Rightarrow> (Inl NotEnrolled, st)
        | Some r \<Rightarrow> (case nc_transport r of
            None \<Rightarrow> (Inl NotEnrolled, st)
          | Some k \<Rightarrow> if nc_revoked r \<or> nc_authMode r = Bearer then (Inl NotEnrolled, st)
              else (Inr (), put_node nodeId (rotate_key now graceMs pem k r) st))) s)"

definition revoke_node :: "int \<Rightarrow> string \<Rightarrow> auth_store \<Rightarrow> (auth_error + bool) \<times> auth_store" where
  "revoke_node now nodeId = auth_mutate now (\<lambda>st. case map_of (na_nodes st) nodeId of
      None \<Rightarrow> (Inr False, st)
    | Some r \<Rightarrow> (Inr True, put_node nodeId (r\<lparr>nc_revoked := True, nc_previous := [], nc_previousTransport := [], nc_updatedAt := now\<rparr>) st))"

definition forget_node :: "int \<Rightarrow> string \<Rightarrow> auth_store \<Rightarrow> (auth_error + bool) \<times> auth_store" where
  "forget_node now nodeId = auth_mutate now (\<lambda>st. case map_of (na_nodes st) nodeId of
      None \<Rightarrow> (Inr False, st)
    | Some r \<Rightarrow> if \<not> nc_revoked r then (Inl StillActive, st) else (Inr True, st\<lparr>na_nodes := obj_del nodeId (na_nodes st)\<rparr>))"

definition isRevoked :: "string \<Rightarrow> auth_store \<Rightarrow> (auth_error + bool) \<times> auth_store" where
  "isRevoked nodeId s = (case reload s of
      Inl e \<Rightarrow> (Inl e, s)
    | Inr st \<Rightarrow> (Inr (case map_of (na_nodes st) nodeId of None \<Rightarrow> True | Some r \<Rightarrow> nc_revoked r), s\<lparr>au_state := st\<rparr>))"

definition authMode :: "string \<Rightarrow> auth_store \<Rightarrow> node_auth_mode option" where
  "authMode nodeId s = (case map_of (na_nodes (au_state s)) nodeId of None \<Rightarrow> None | Some r \<Rightarrow> if nc_revoked r then None else Some (nc_authMode r))"

section \<open>The operations as steps\<close>

datatype auth_op =
    OpInitialize | OpAuthenticate string string | OpProof string "json option" string | OpImport string string | OpEnroll string string
  | OpRotate string "rat option" string | OpInvite string "rat option" string | OpConsume string string string "rat option"
  | OpComplete string | OpRotateKey string string "rat option" | OpRevoke string | OpForget string | OpIsRevoked string

fun auth_exec :: "auth_env \<Rightarrow> int \<Rightarrow> auth_op \<Rightarrow> auth_store \<Rightarrow> auth_store" where
  "auth_exec env now OpInitialize s = snd (auth_initialize now s)"
| "auth_exec env now (OpAuthenticate n tok) s = snd (authenticate env now n tok s)"
| "auth_exec env now (OpProof n enc pth) s = snd (authenticateProof env now n enc pth s)"
| "auth_exec env now (OpImport n tok) s = snd (importLegacy env now n tok s)"
| "auth_exec env now (OpEnroll n tok) s = snd (enroll env now n tok s)"
| "auth_exec env now (OpRotate n g tok) s = snd (rotate_token env now n g tok s)"
| "auth_exec env now (OpInvite n ttl tok) s = snd (createEnrollmentToken env now n ttl tok s)"
| "auth_exec env now (OpConsume n tok pem g) s = snd (consumeEnrollment env now n tok pem g s)"
| "auth_exec env now (OpComplete n) s = snd (completeMigration now n s)"
| "auth_exec env now (OpRotateKey n pem g) s = snd (rotateTransportKey now n pem g s)"
| "auth_exec env now (OpRevoke n) s = snd (revoke_node now n s)"
| "auth_exec env now (OpForget n) s = snd (forget_node now n s)"
| "auth_exec env now (OpIsRevoked n) s = snd (isRevoked n s)"

definition empty_auth_store :: auth_store where
  "empty_auth_store = \<lparr>au_file = Absent, au_state = EMPTY_STATE\<rparr>"

text \<open>The states the store can be in, with the time of its last operation.\<close>

inductive auth_reach :: "auth_env \<Rightarrow> int \<Rightarrow> auth_store \<Rightarrow> bool" for env where
  auth_start: "auth_reach env t empty_auth_store"
| auth_next: "auth_reach env t s \<Longrightarrow> t \<le> t' \<Longrightarrow> auth_reach env t' (auth_exec env t' op s)"

text \<open>How one operation may change the credentials of one node.\<close>

inductive credential_edit :: "auth_op \<Rightarrow> int \<Rightarrow> string \<Rightarrow> node_credentials option \<Rightarrow> node_credentials \<Rightarrow> bool" for op now n where
  imported: "op = OpImport n tok \<Longrightarrow> credential_edit op now n None (new_credentials env now tok)"
| enrolled: "op = OpEnroll n tok \<Longrightarrow> (\<And>r. old = Some r \<Longrightarrow> nc_revoked r) \<Longrightarrow> credential_edit op now n old (new_credentials env now tok)"
| rotated: "\<not> nc_revoked r \<Longrightarrow> nc_authMode r \<noteq> Asymmetric \<Longrightarrow> op = OpRotate n g tok \<Longrightarrow>
    credential_edit op now n (Some r) (r\<lparr>nc_previous := old, nc_active := Some a, nc_updatedAt := now\<rparr>)"
| keyed: "op = OpConsume n tok pem g \<Longrightarrow> r = (case old of Some r \<Rightarrow> r | None \<Rightarrow> defaultRecord now) \<Longrightarrow> \<not> nc_revoked r \<Longrightarrow>
    nc_authMode r \<noteq> Asymmetric \<or> nc_transport r = None \<Longrightarrow>
    credential_edit op now n old (r\<lparr>nc_transport := Some (new_key now pem), nc_authMode := (if nc_active r \<noteq> None then Migrating else Asymmetric), nc_updatedAt := now\<rparr>)"
| rekeyed: "op = OpConsume n tok pem g \<or> op = OpRotateKey n pem g \<Longrightarrow> \<not> nc_revoked r \<Longrightarrow> nc_authMode r \<noteq> Bearer \<Longrightarrow> nc_transport r = Some k \<Longrightarrow>
    credential_edit op now n (Some r) (rotate_key now g pem k r)"
| completed: "op = OpComplete n \<Longrightarrow> \<not> nc_revoked r \<Longrightarrow> nc_transport r \<noteq> None \<Longrightarrow> nc_authMode r \<noteq> Bearer \<Longrightarrow>
    credential_edit op now n (Some r) (r\<lparr>nc_authMode := Asymmetric, nc_active := None, nc_previous := [], nc_updatedAt := now\<rparr>)"
| locked: "op = OpRevoke n \<Longrightarrow>
    credential_edit op now n (Some r) (r\<lparr>nc_revoked := True, nc_previous := [], nc_previousTransport := [], nc_updatedAt := now\<rparr>)"

inductive_cases credential_editE: "credential_edit op now n old r"

text \<open>What a successful mutation makes of the state, before the pruning that ends it.\<close>

inductive auth_change :: "auth_op \<Rightarrow> int \<Rightarrow> node_auth \<Rightarrow> node_auth \<Rightarrow> bool" for op now st where
  same: "auth_change op now st st"
| pruned: "auth_change op now st (pruneNonces now st)"
| accepted: "op = OpProof n enc pth \<Longrightarrow> decodeNodeProof enc = Some p \<Longrightarrow> map_of (na_nonces st) (np_nonce p) = None \<Longrightarrow>
    \<not> nonceCacheFull n (pruneNonces now st) \<Longrightarrow>
    auth_change op now st (pruneNonces now (st\<lparr>na_nonces :=
      obj_put (np_nonce p) \<lparr>nn_nodeId = n, nn_expiresAt = np_timestamp p + 5 * 60000\<rparr> (na_nonces (pruneNonces now st))\<rparr>))"
| edited: "credential_edit op now n (map_of (na_nodes st) n) r \<Longrightarrow> na_nodes st' = obj_put n r (na_nodes st) \<Longrightarrow> na_nonces st' = na_nonces st \<Longrightarrow>
    auth_change op now st st'"
| invited: "na_nodes st' = na_nodes st \<Longrightarrow> na_nonces st' = na_nonces st \<Longrightarrow> auth_change op now st st'"
| forgotten: "op = OpForget n \<Longrightarrow> map_of (na_nodes st) n = Some r \<Longrightarrow> nc_revoked r \<Longrightarrow> auth_change op now st (st\<lparr>na_nodes := obj_del n (na_nodes st)\<rparr>)"

inductive_cases auth_changeE: "auth_change op now st st'"

lemma reload_persisted [simp]:
  "reload \<lparr>au_file = Contents (AuthV2 (Some (na_nodes st)) (Some (na_enrollment st)) (Some (na_nonces st))), au_state = st'\<rparr> = Inr st"
  by (simp add: reload_def upgradeState_def)

lemma reload_state [simp]: "reload (s\<lparr>au_state := st\<rparr>) = reload s"
  by (simp add: reload_def)

lemma reload_empty [simp]: "reload empty_auth_store = Inr EMPTY_STATE"
  by (simp add: reload_def empty_auth_store_def)

lemma prune_simps [simp]:
  "na_nodes (prune now st) = map (\<lambda>(n, r). (n, prune_record now r)) (na_nodes st)"
  "na_nonces (prune now st) = filter (\<lambda>(c, r). \<not> nn_expiresAt r \<le> of_int now) (na_nonces st)"
  "na_nodes (pruneNonces now st) = na_nodes st" "na_enrollment (pruneNonces now st) = na_enrollment st"
  "na_nonces (pruneNonces now st) = filter (\<lambda>(c, r). \<not> nn_expiresAt r \<le> of_int now) (na_nonces st)"
  by (simp_all add: prune_def pruneNonces_def)

lemma prune_record_idem [simp]: "prune_record now (prune_record now r) = prune_record now r"
  by (simp add: prune_record_def)

lemma prune_idem [simp]: "prune now (prune now st) = prune now st"
  by (simp add: prune_def pruneNonces_def case_prod_unfold comp_def)

lemma persist_effect:
  "persistUnlocked now s = (Inr u, s') \<Longrightarrow> reload s' = Inr (prune now (au_state s)) \<and> \<not> list_ex private_text (state_strings (prune now (au_state s)))"
  "persistUnlocked now s = (Inl e, s') \<Longrightarrow> reload s' = reload s"
  unfolding persistUnlocked_def Let_def using reload_persisted [of "prune now (au_state s)" "prune now (au_state s)"]
  by (auto simp del: prune_simps split: if_splits)

lemma auth_mutate_cases:
  assumes "auth_mutate now f s = (res, s')"
  obtains (refused) e where "res = Inl e" "reload s' = reload s"
  | (committed) st x st' where "reload s = Inr st" "f st = (Inr x, st')" "res = Inr x" "reload s' = Inr (prune now st')"
      "\<not> list_ex private_text (state_strings (prune now st'))"
proof (cases "reload s")
  case (Inl e)
  with assms show ?thesis by (intro refused [of e]) (simp_all add: auth_mutate_def)
next
  case (Inr st)
  obtain y st' where f: "f st = (y, st')" by fastforce
  obtain z s1 where p: "persistUnlocked now (s\<lparr>au_state := st'\<rparr>) = (z, s1)" by fastforce
  show ?thesis
  proof (cases y)
    case (Inl e)
    with assms Inr f show ?thesis by (intro refused [of e]) (auto simp: auth_mutate_def)
  next
    case y: (Inr x)
    show ?thesis
    proof (cases z)
      case (Inl e)
      with assms Inr f y p persist_effect(2) [of now "s\<lparr>au_state := st'\<rparr>" e s1] show ?thesis
        by (intro refused [of e]) (auto simp: auth_mutate_def)
    next
      case (Inr u)
      with assms \<open>reload s = Inr st\<close> f y p persist_effect(1) [of now "s\<lparr>au_state := st'\<rparr>" u s1] show ?thesis
        by (intro committed [of st x st']) (auto simp: auth_mutate_def simp del: prune_simps)
    qed
  qed
qed

text \<open>One rule for every mutation: what its body may do is what the store may do.\<close>

lemma auth_mutate_change:
  assumes "\<And>st x st'. f st = (Inr x, st') \<Longrightarrow> \<exists>st1. prune now st' = prune now st1 \<and> auth_change op now st st1"
  shows "reload (snd (auth_mutate now f s)) = reload s \<or>
    (\<exists>st st'. reload s = Inr st \<and> auth_change op now st st' \<and> reload (snd (auth_mutate now f s)) = Inr (prune now st'))"
proof -
  obtain res s' where r: "auth_mutate now f s = (res, s')" by fastforce
  then show ?thesis
  proof (cases rule: auth_mutate_cases)
    case (committed st x st')
    from assms [OF this(2)] obtain st1 where "prune now st' = prune now st1" "auth_change op now st st1" by blast
    with committed r show ?thesis by auto
  qed (use r in simp)
qed

lemma put_node_simps [simp]:
  "na_nodes (put_node n r st) = obj_put n r (na_nodes st)" "na_nonces (put_node n r st) = na_nonces st"
  by (simp_all add: put_node_def)

lemma check_proof_accepts:
  assumes c: "check_proof env now n enc pth st = (Inr None, st')"
  obtains p r k where "decodeNodeProof enc = Some p" "np_nodeId p = n" "checkProofTiming (np_timestamp p) now = None"
    "map_of (na_nodes st) n = Some r" "\<not> nc_revoked r" "nc_authMode r \<noteq> Bearer" "nc_transport r = Some k"
    "list_ex (\<lambda>k'. verifyNodeProofSignature env (ts_publicKey k') p) (live_keys now r k)"
    "map_of (na_nonces st) (np_nonce p) = None" "np_nonce p \<notin> set INHERITED_NONCES" "\<not> nonceCacheFull n (pruneNonces now st)"
    "st' = pruneNonces now (st\<lparr>na_nonces := obj_put (np_nonce p) \<lparr>nn_nodeId = n, nn_expiresAt = np_timestamp p + 5 * 60000\<rparr> (na_nonces (pruneNonces now st))\<rparr>)"
proof -
  obtain p where p: "decodeNodeProof enc = Some p" using c by (cases "decodeNodeProof enc") (simp_all add: check_proof_def)
  note c = c [unfolded check_proof_def p option.case]
  have 1: "np_nodeId p = n" by (rule ccontr) (use c in simp)
  have 2: "np_path p = pth" by (rule ccontr) (use c 1 in simp)
  have 3: "np_protocolVersion p = REACH_PROTOCOL_VERSION" by (rule ccontr) (use c 1 2 in simp)
  note c = c [unfolded 1 2 3, simplified]
  have t: "checkProofTiming (np_timestamp p) now = None" using c by (cases "checkProofTiming (np_timestamp p) now") simp_all
  note c = c [unfolded t option.case]
  obtain r where r: "map_of (na_nodes st) n = Some r" using c by (cases "map_of (na_nodes st) n") simp_all
  note c = c [unfolded r option.case]
  have v: "\<not> nc_revoked r" using c by (cases "nc_revoked r") simp_all
  obtain k where m: "nc_authMode r \<noteq> Bearer" and k: "nc_transport r = Some k"
    using c v by (cases "nc_authMode r"; cases "nc_transport r") simp_all
  have c: "(if map_of (na_nonces st) (np_nonce p) \<noteq> None \<or> np_nonce p \<in> set INHERITED_NONCES then (Inr (Some Replay), st)
      else (let st1 = pruneNonces now st
        in if nonceCacheFull n st1 then (Inr (Some NonceCapacity), st1)
           else if \<not> list_ex (\<lambda>k'. verifyNodeProofSignature env (ts_publicKey k') p) (live_keys now r k) then (Inr (Some WrongKey), st1)
           else (Inr None, pruneNonces now (st1\<lparr>na_nonces :=
             obj_put (np_nonce p) \<lparr>nn_nodeId = n, nn_expiresAt = np_timestamp p + 5 * 60000\<rparr> (na_nonces st1)\<rparr>)))) = (Inr None :: auth_error + proof_failure option, st')"
    using c m v k by (cases "nc_authMode r") simp_all
  show ?thesis
    by (rule that [OF p 1 t r v m k]) (use c in \<open>auto simp: Let_def pruneNonces_def split: if_splits\<close>)
qed

lemma check_proof_other:
  assumes "check_proof env now n enc pth st = (Inr (Some f), st')"
  shows "st' = st \<or> st' = pruneNonces now st"
  using assms unfolding check_proof_def by (auto simp: Let_def split: option.splits if_splits node_auth_mode.splits)

lemma check_proof_no_error: "check_proof env now n enc pth st \<noteq> (Inl e, st')"
  unfolding check_proof_def by (auto simp: Let_def split: option.splits if_splits node_auth_mode.splits)

lemma proof_view:
  "f st = (Inr x, st') \<Longrightarrow> f = check_proof env now n enc pth \<Longrightarrow> \<exists>st1. prune now st' = prune now st1 \<and> auth_change (OpProof n enc pth) now st st1"
proof -
  assume "f st = (Inr x, st')" "f = check_proof env now n enc pth"
  then have c: "check_proof env now n enc pth st = (Inr x, st')" by simp
  show "\<exists>st1. prune now st' = prune now st1 \<and> auth_change (OpProof n enc pth) now st st1"
  proof (cases x)
    case None
    show ?thesis by (rule check_proof_accepts [OF c [unfolded None]]) (blast intro: auth_change.accepted)
  next
    case (Some f)
    with check_proof_other c show ?thesis by (blast intro: auth_change.same auth_change.pruned)
  qed
qed

lemma edit_view: "credential_edit op now n (map_of (na_nodes st) n) r \<Longrightarrow> \<exists>st1. prune now (put_node n r st) = prune now st1 \<and> auth_change op now st st1"
  by (rule exI [of _ "put_node n r st"]) (auto intro: auth_change.edited)

lemma same_view: "\<exists>st1. prune now st = prune now st1 \<and> auth_change op now st st1"
  by (blast intro: auth_change.same)

lemma forget_view:
  "map_of (na_nodes st) n = Some r \<Longrightarrow> nc_revoked r \<Longrightarrow>
     \<exists>st1. prune now (st\<lparr>na_nodes := obj_del n (na_nodes st)\<rparr>) = prune now st1 \<and> auth_change (OpForget n) now st st1"
  by (blast intro: auth_change.forgotten)

lemma invite_view: "\<exists>st1. prune now (st\<lparr>na_enrollment := e\<rparr>) = prune now st1 \<and> auth_change op now st st1"
  by (rule exI [of _ "st\<lparr>na_enrollment := e\<rparr>"]) (auto intro: auth_change.invited)

lemma consume_view:
  assumes "credential_edit op now n (map_of (na_nodes st) n) r"
  shows "\<exists>st1. prune now (put_node n r (st\<lparr>na_enrollment := e\<rparr>)) = prune now st1 \<and> auth_change op now st st1"
  using assms by (intro exI [of _ "put_node n r (st\<lparr>na_enrollment := e\<rparr>)"] conjI refl auth_change.edited [OF assms]) (simp_all add: put_node_def)

lemma consume_body:
  assumes "(case (nc_authMode r, nc_transport r) of
       (Asymmetric, Some k) \<Rightarrow> (Inr (), put_node n (rotate_key now g pem k r) st1)
     | _ \<Rightarrow> (Inr (), put_node n (r\<lparr>nc_transport := Some (new_key now pem), nc_authMode := (if nc_active r \<noteq> None then Migrating else Asymmetric), nc_updatedAt := now\<rparr>) st1))
       = (Inr x, st')"
    and "r = (case map_of (na_nodes st) n of Some r \<Rightarrow> r | None \<Rightarrow> defaultRecord now)" and "\<not> nc_revoked r" and "st1 = st\<lparr>na_enrollment := e\<rparr>"
  shows "\<exists>st2. prune now st' = prune now st2 \<and> auth_change (OpConsume n tok pem g) now st st2"
proof (cases "nc_authMode r = Asymmetric \<and> nc_transport r \<noteq> None")
  case True
  then obtain k where k: "nc_authMode r = Asymmetric" "nc_transport r = Some k" by blast
  with assms(2) have "map_of (na_nodes st) n = Some r" by (auto simp: defaultRecord_def split: option.splits)
  with k assms(3) have "credential_edit (OpConsume n tok pem g) now n (map_of (na_nodes st) n) (rotate_key now g pem k r)"
    by (auto intro: credential_edit.rekeyed)
  from consume_view [OF this, of e] k assms(1,4) show ?thesis by simp
next
  case False
  then have "credential_edit (OpConsume n tok pem g) now n (map_of (na_nodes st) n)
      (r\<lparr>nc_transport := Some (new_key now pem), nc_authMode := (if nc_active r \<noteq> None then Migrating else Asymmetric), nc_updatedAt := now\<rparr>)"
    by (intro credential_edit.keyed [OF refl assms(2,3)]) blast
  from consume_view [OF this, of e] False assms(1,4) show ?thesis by (auto split: node_auth_mode.splits option.splits)
qed

lemma guarded_change:
  assumes "\<not> c \<Longrightarrow> reload (snd x) = reload s \<or> (\<exists>st st'. reload s = Inr st \<and> auth_change op now st st' \<and> reload (snd x) = Inr (prune now st'))"
  shows "reload (snd (if c then (Inl e, s) else x)) = reload s \<or>
    (\<exists>st st'. reload s = Inr st \<and> auth_change op now st st' \<and> reload (snd (if c then (Inl e, s) else x)) = Inr (prune now st'))"
  using assms by (cases c) simp_all

lemma auth_exec_view:
  "reload (auth_exec env now op s) = reload s \<or>
    (\<exists>st st'. reload s = Inr st \<and> auth_change op now st st' \<and> reload (auth_exec env now op s) = Inr (prune now st'))"
proof (cases op)
  case OpInitialize then show ?thesis by (simp add: auth_initialize_def split: sum.split)
next
  case (OpAuthenticate n tok) then show ?thesis by (simp add: authenticate_def Let_def split: sum.split)
next
  case (OpProof n enc pth)
  show ?thesis unfolding OpProof auth_exec.simps authenticateProof_def by (rule auth_mutate_change, erule proof_view) (rule refl)
next
  case (OpImport n tok)
  have "\<exists>st1. prune now st' = prune now st1 \<and> auth_change (OpImport n tok) now st st1"
    if "(if map_of (na_nodes st) n \<noteq> None then (Inr False, st) else (Inr True, put_node n (new_credentials env now tok) st)) = (Inr x, st')" for st x st'
    using that by (auto split: if_splits intro!: same_view edit_view credential_edit.imported)
  then show ?thesis unfolding OpImport auth_exec.simps importLegacy_def by (intro guarded_change auth_mutate_change) blast
next
  case (OpEnroll n tok)
  have "\<exists>st1. prune now st' = prune now st1 \<and> auth_change (OpEnroll n tok) now st st1"
    if "(case map_of (na_nodes st) n of
          Some r \<Rightarrow> if \<not> nc_revoked r then (Inl AlreadyEnrolled, st) else (Inr tok, put_node n (new_credentials env now tok) st)
        | None \<Rightarrow> (Inr tok, put_node n (new_credentials env now tok) st)) = (Inr x, st')" for st x st'
    using that by (auto split: if_splits option.splits intro!: edit_view credential_edit.enrolled)
  then show ?thesis unfolding OpEnroll auth_exec.simps enroll_def by (intro guarded_change auth_mutate_change) blast
next
  case (OpRotate n g tok)
  have "\<exists>st1. prune now st' = prune now st1 \<and> auth_change (OpRotate n g tok) now st st1"
    if "(case map_of (na_nodes st) n of
          None \<Rightarrow> (Inl NotEnrolled, st)
        | Some r \<Rightarrow>
            if nc_revoked r then (Inl NotEnrolled, st)
            else if nc_authMode r = Asymmetric then (Inl AsymmetricBearer, st)
            else (case nc_active r of
                None \<Rightarrow> (Inl NotEnrolled, st)
              | Some a \<Rightarrow> (Inr tok, prune now (put_node n (r\<lparr>nc_previous := nc_previous r @ [a\<lparr>cs_validUntil := Some (of_int now + default_grace g)\<rparr>],
                  nc_active := Some \<lparr>cs_hash = ae_sha env tok, cs_createdAt = now, cs_validUntil = None\<rparr>, nc_updatedAt := now\<rparr>) st)))) = (Inr x, st')" for st x st'
  proof -
    from that obtain r a where r: "map_of (na_nodes st) n = Some r" "\<not> nc_revoked r" "nc_authMode r \<noteq> Asymmetric"
      and st': "st' = prune now (put_node n (r\<lparr>nc_previous := nc_previous r @ [a\<lparr>cs_validUntil := Some (of_int now + default_grace g)\<rparr>],
                  nc_active := Some \<lparr>cs_hash = ae_sha env tok, cs_createdAt = now, cs_validUntil = None\<rparr>, nc_updatedAt := now\<rparr>) st)"
      by (auto split: if_splits option.splits)
    show ?thesis unfolding st' prune_idem by (rule edit_view) (use r in \<open>auto intro: credential_edit.rotated\<close>)
  qed
  then show ?thesis unfolding OpRotate auth_exec.simps rotate_token_def by (intro guarded_change auth_mutate_change) blast
next
  case (OpInvite n ttl tok)
  show ?thesis unfolding OpInvite auth_exec.simps createEnrollmentToken_def Let_def
    by (intro guarded_change auth_mutate_change) (auto split: if_splits option.splits intro!: invite_view)
next
  case (OpConsume n tok pem g)
  show ?thesis unfolding OpConsume auth_exec.simps consumeEnrollment_def
    by (intro guarded_change auth_mutate_change) (auto simp: Let_def simp del: prod.case split: option.splits if_splits intro!: consume_body [OF _ _ _ refl])
next
  case (OpComplete n)
  show ?thesis unfolding OpComplete auth_exec.simps completeMigration_def
    by (rule auth_mutate_change) (auto split: option.splits if_splits intro!: edit_view credential_edit.completed)
next
  case (OpRotateKey n pem g)
  have "\<exists>st1. prune now st' = prune now st1 \<and> auth_change (OpRotateKey n pem g) now st st1"
    if "(case map_of (na_nodes st) n of
          None \<Rightarrow> (Inl NotEnrolled, st)
        | Some r \<Rightarrow> (case nc_transport r of
            None \<Rightarrow> (Inl NotEnrolled, st)
          | Some k \<Rightarrow> if nc_revoked r \<or> nc_authMode r = Bearer then (Inl NotEnrolled, st)
              else (Inr (), put_node n (rotate_key now g pem k r) st))) = (Inr x, st')" for st x st'
    using that by (auto split: option.splits if_splits intro!: edit_view credential_edit.rekeyed)
  then show ?thesis unfolding OpRotateKey auth_exec.simps rotateTransportKey_def by (intro guarded_change auth_mutate_change) blast
next
  case (OpRevoke n)
  show ?thesis unfolding OpRevoke auth_exec.simps revoke_node_def
    by (rule auth_mutate_change) (auto split: option.splits intro!: edit_view credential_edit.locked same_view)
next
  case (OpForget n)
  show ?thesis unfolding OpForget auth_exec.simps forget_node_def
    by (rule auth_mutate_change) (auto split: option.splits if_splits intro!: forget_view same_view)
next
  case (OpIsRevoked n)
  then show ?thesis by (simp add: isRevoked_def split: sum.split)
qed

section \<open>Replay protection\<close>

text \<open>
  A component that accepts messages carrying a nonce: it remembers the nonce of every message it accepts until
  the window of the message closes, and accepts no message whose nonce it remembers.
\<close>

inductive guarded_run :: "(int \<Rightarrow> 's \<Rightarrow> 's \<Rightarrow> bool) \<Rightarrow> (int \<Rightarrow> 's \<Rightarrow> 'p \<Rightarrow> 's \<Rightarrow> bool) \<Rightarrow> 's \<Rightarrow> int \<Rightarrow> 's \<Rightarrow> (int \<times> 'p) list \<Rightarrow> bool"
  for moves accepts init where
  run_start: "guarded_run moves accepts init t init []"
| run_move: "guarded_run moves accepts init t s h \<Longrightarrow> t \<le> t' \<Longrightarrow> moves t' s s' \<Longrightarrow> guarded_run moves accepts init t' s' h"
| run_accept: "guarded_run moves accepts init t s h \<Longrightarrow> t \<le> t' \<Longrightarrow> accepts t' s p s' \<Longrightarrow> guarded_run moves accepts init t' s' (h @ [(t', p)])"

locale replay_window =
  fixes moves :: "int \<Rightarrow> 's \<Rightarrow> 's \<Rightarrow> bool"
    and accepts :: "int \<Rightarrow> 's \<Rightarrow> 'p \<Rightarrow> 's \<Rightarrow> bool"
    and nonce :: "'p \<Rightarrow> 'n"
    and closes :: "'p \<Rightarrow> rat"
    and seen :: "'s \<Rightarrow> 'n \<Rightarrow> rat \<Rightarrow> bool"
  assumes keeps: "moves t s s' \<Longrightarrow> seen s c u \<Longrightarrow> of_int t < u \<Longrightarrow> seen s' c u"
    and accepts_moves: "accepts t s p s' \<Longrightarrow> moves t s s'"
    and fresh: "accepts t s p s' \<Longrightarrow> \<not> seen s (nonce p) u"
    and remembers: "accepts t s p s' \<Longrightarrow> of_int t < closes p \<Longrightarrow> seen s' (nonce p) (closes p)"
begin

lemma window_open:
  "guarded_run moves accepts init t s h \<Longrightarrow> (t0, p) \<in> set h \<Longrightarrow> of_int t < closes p \<Longrightarrow> seen s (nonce p) (closes p)"
proof (induction rule: guarded_run.induct)
  case (run_move t s h t' s')
  then have "of_int t < closes p" by (simp add: order_le_less_trans [of "of_int t" "of_int t'"])
  with run_move show ?case by (blast intro: keeps)
next
  case (run_accept t s h t' q s')
  then have le: "of_int t < closes p" by (simp add: order_le_less_trans [of "of_int t" "of_int t'"])
  from run_accept.prems(1) consider "(t0, p) \<in> set h" | "p = q" by auto
  then show ?case
  proof cases
    case 1
    with run_accept le show ?thesis by (blast intro: keeps accepts_moves)
  next
    case 2
    with run_accept show ?thesis by (blast intro: remembers)
  qed
qed simp

lemma no_replay:
  "guarded_run moves accepts init t s h \<Longrightarrow> i < j \<Longrightarrow> j < length h \<Longrightarrow> nonce (snd (h ! i)) = nonce (snd (h ! j)) \<Longrightarrow>
     closes (snd (h ! i)) \<le> of_int (fst (h ! j))"
proof (induction rule: guarded_run.induct)
  case (run_accept t s h t' p s')
  show ?case
  proof (cases "j < length h")
    case True
    with run_accept show ?thesis by (simp add: nth_append)
  next
    case False
    with run_accept.prems have j: "j = length h" "i < length h" by simp_all
    show ?thesis
    proof (rule ccontr)
      assume "\<not> ?thesis"
      with j have open': "of_int t' < closes (snd (h ! i))" by (simp add: nth_append)
      with run_accept.hyps(2) have "of_int t < closes (snd (h ! i))" by (simp add: order_le_less_trans [of "of_int t" "of_int t'"])
      moreover have "(fst (h ! i), snd (h ! i)) \<in> set h" using j by simp
      ultimately have "seen s (nonce (snd (h ! i))) (closes (snd (h ! i)))" using window_open run_accept.hyps(1) by blast
      with run_accept.prems(3) fresh [OF run_accept.hyps(3)] j show False by (simp add: nth_append)
    qed
  qed
qed simp_all

end

definition auth_moves :: "auth_env \<Rightarrow> int \<Rightarrow> auth_store \<Rightarrow> auth_store \<Rightarrow> bool" where
  "auth_moves env t s s' = (\<exists>op. s' = auth_exec env t op s)"

definition auth_accepts :: "auth_env \<Rightarrow> int \<Rightarrow> auth_store \<Rightarrow> node_auth_proof \<Rightarrow> auth_store \<Rightarrow> bool" where
  "auth_accepts env t s p s' = (\<exists>n enc pth. decodeNodeProof enc = Some p \<and> authenticateProof env t n enc pth s = (Inr None, s'))"

definition nonce_seen :: "auth_store \<Rightarrow> string \<Rightarrow> rat \<Rightarrow> bool" where
  "nonce_seen s c u = (\<exists>st r. reload s = Inr st \<and> map_of (na_nonces st) c = Some r \<and> nn_expiresAt r = u)"

definition window_end :: "node_auth_proof \<Rightarrow> rat" where
  "window_end p = np_timestamp p + of_int NODE_PROOF_MAX_AGE_MS"

lemma map_of_filter_keep: "map_of m c = Some r \<Longrightarrow> P (c, r) \<Longrightarrow> map_of (filter P m) c = Some r"
  by (induction m) auto

lemma change_keeps_nonces:
  assumes "auth_change op now st st'" and "map_of (na_nonces st) c = Some r" and "of_int now < nn_expiresAt r"
  shows "map_of (na_nonces st') c = Some r"
  using assms(1)
proof (cases rule: auth_change.cases)
  case (accepted n enc pth p)
  from accepted assms(2) have ne: "c \<noteq> np_nonce p" by auto
  have "map_of (na_nonces (pruneNonces now st)) c = Some r" using assms(2,3) by (auto intro: map_of_filter_keep)
  with ne have "map_of (obj_put (np_nonce p) v (na_nonces (pruneNonces now st))) c = Some r" for v by (simp add: map_of_obj_put)
  from map_of_filter_keep [OF this] assms(3) accepted show ?thesis by simp
qed (use assms(2,3) in \<open>auto intro: map_of_filter_keep\<close>)

lemma exec_keeps_nonces:
  assumes "nonce_seen s c u" and "of_int t < u"
  shows "nonce_seen (auth_exec env t op s) c u"
proof -
  from assms(1) obtain st r where r: "reload s = Inr st" "map_of (na_nonces st) c = Some r" "nn_expiresAt r = u" by (auto simp: nonce_seen_def)
  from auth_exec_view [of env t op s] show ?thesis
  proof (elim disjE exE conjE)
    fix st1 st' assume "reload s = Inr st1" "auth_change op t st1 st'" "reload (auth_exec env t op s) = Inr (prune t st')"
    with r assms(2) change_keeps_nonces [of op t st st' c r] show ?thesis
      by (auto simp: nonce_seen_def intro!: exI [of _ r] map_of_filter_keep)
  qed (use assms(1) in \<open>simp add: nonce_seen_def\<close>)
qed

lemma authenticateProof_accepts:
  assumes "authenticateProof env now n enc pth s = (Inr None, s')"
  obtains st p r k where "reload s = Inr st" "decodeNodeProof enc = Some p" "np_nodeId p = n" "checkProofTiming (np_timestamp p) now = None"
    "map_of (na_nodes st) n = Some r" "\<not> nc_revoked r" "nc_authMode r \<noteq> Bearer" "nc_transport r = Some k"
    "list_ex (\<lambda>k'. verifyNodeProofSignature env (ts_publicKey k') p) (live_keys now r k)"
    "map_of (na_nonces st) (np_nonce p) = None" "np_nonce p \<notin> set INHERITED_NONCES" "\<not> nonceCacheFull n (pruneNonces now st)"
    "reload s' = Inr (prune now (st\<lparr>na_nonces := obj_put (np_nonce p) \<lparr>nn_nodeId = n, nn_expiresAt = np_timestamp p + 5 * 60000\<rparr> (na_nonces (pruneNonces now st))\<rparr>))"
    "\<not> list_ex private_text (state_strings (prune now (st\<lparr>na_nonces := obj_put (np_nonce p) \<lparr>nn_nodeId = n, nn_expiresAt = np_timestamp p + 5 * 60000\<rparr> (na_nonces (pruneNonces now st))\<rparr>)))"
proof -
  from assms show ?thesis unfolding authenticateProof_def
  proof (cases rule: auth_mutate_cases)
    case (committed st x st')
    have "prune now (pruneNonces now st1) = prune now st1" for st1 by (simp add: prune_def pruneNonces_def)
    with committed show ?thesis by (auto elim!: check_proof_accepts intro!: that)
  qed simp
qed

interpretation nonces: replay_window "auth_moves env" "auth_accepts env" np_nonce window_end nonce_seen for env
proof
  show "nonce_seen s' c u" if "auth_moves env t s s'" "nonce_seen s c u" "of_int t < u" for t s s' c u
    using that exec_keeps_nonces by (auto simp: auth_moves_def)
  show "auth_moves env t s s'" if a: "auth_accepts env t s p s'" for t s p s'
  proof -
    from a obtain n enc pth where "authenticateProof env t n enc pth s = (Inr None, s')" by (auto simp: auth_accepts_def)
    then have "s' = auth_exec env t (OpProof n enc pth) s" by simp
    then show ?thesis unfolding auth_moves_def by blast
  qed
  show "\<not> nonce_seen s (np_nonce p) u" if "auth_accepts env t s p s'" for t s p s' u
    using that by (auto simp: auth_accepts_def nonce_seen_def elim!: authenticateProof_accepts)
  show "nonce_seen s' (np_nonce p) (window_end p)" if "auth_accepts env t s p s'" "of_int t < window_end p" for t s p s'
    using that by (auto simp: auth_accepts_def nonce_seen_def window_end_def NODE_PROOF_MAX_AGE_MS_def map_of_filter_keep map_of_obj_put elim!: authenticateProof_accepts)
qed

definition auth_run :: "auth_env \<Rightarrow> int \<Rightarrow> auth_store \<Rightarrow> (int \<times> node_auth_proof) list \<Rightarrow> bool" where
  "auth_run env = guarded_run (auth_moves env) (auth_accepts env) empty_auth_store"

lemma accepted_in_window: "guarded_run (auth_moves env) (auth_accepts env) init t s h \<Longrightarrow> (t0, p) \<in> set h \<Longrightarrow> of_int t0 \<le> window_end p"
  by (induction rule: guarded_run.induct)
    (auto simp: auth_accepts_def window_end_def checkProofTiming_def elim!: authenticateProof_accepts split: if_splits)

text \<open>
  C23: The gateway accepts no signed proof twice: whatever happens in between (other nodes, rotations, revocations,
  restarts), a proof with the nonce of an accepted one is refused until the window of that proof closes, so the
  same proof can only be accepted again in the single millisecond in which its window ends.
\<close>

theorem no_proof_replay:
  assumes "auth_run env t s h" and "i < j" and "j < length h" and "np_nonce (snd (h ! i)) = np_nonce (snd (h ! j))"
  shows "np_timestamp (snd (h ! i)) + 300000 \<le> of_int (fst (h ! j)) \<and>
    (snd (h ! i) = snd (h ! j) \<longrightarrow> of_int (fst (h ! j)) = np_timestamp (snd (h ! i)) + 300000)"
proof -
  from assms(1) have run: "guarded_run (auth_moves env) (auth_accepts env) empty_auth_store t s h" by (simp add: auth_run_def)
  from nonces.no_replay [OF run assms(2-4)] have late: "window_end (snd (h ! i)) \<le> of_int (fst (h ! j))" .
  have "(fst (h ! j), snd (h ! j)) \<in> set h" using assms(3) by simp
  from accepted_in_window [OF run this] have "of_int (fst (h ! j)) \<le> window_end (snd (h ! j))" .
  with late show ?thesis by (auto simp: window_end_def NODE_PROOF_MAX_AGE_MS_def)
qed

lemma map_of_filter_None: "map_of m c = None \<Longrightarrow> map_of (filter P m) c = None"
  by (induction m) (auto split: if_splits)

lemma obj_put_new: "map_of m c = None \<Longrightarrow> obj_put c v m = m @ [(c, v)]"
  by (auto simp: obj_put_def map_of_eq_None_iff)

lemma pruned_node: "map_of (na_nodes (prune now st)) n = map_option (prune_record now) (map_of (na_nodes st) n)"
  by (simp add: map_of_map)

lemma prune_record_simps [simp]:
  "nc_revoked (prune_record now r) = nc_revoked r" "nc_authMode (prune_record now r) = nc_authMode r" "nc_transport (prune_record now r) = nc_transport r"
  "nc_active (prune_record now r) = nc_active r" "live_keys now (prune_record now r) k = live_keys now r k"
  by (simp_all add: prune_record_def live_keys_def)

text \<open>
  The window of a proof and the memory of its nonce end at the same millisecond, but the proof is still valid
  in it while its nonce is already forgotten: a proof that is accepted exactly five minutes after its timestamp
  is accepted again when it is presented again in that millisecond.
\<close>

theorem proof_replayable_at_window_end:
  assumes "authenticateProof env now n enc pth s = (Inr None, s')" and "decodeNodeProof enc = Some p" and "of_int now = np_timestamp p + 300000"
  shows "fst (authenticateProof env now n enc pth s') = Inr None"
  using assms(1)
proof (rule authenticateProof_accepts)
  fix st r k and q :: node_auth_proof
  let ?R = "\<lparr>nn_nodeId = n, nn_expiresAt = np_timestamp q + 5 * 60000\<rparr>"
  let ?st1 = "st\<lparr>na_nonces := obj_put (np_nonce q) ?R (na_nonces (pruneNonces now st))\<rparr>"
  assume A: "reload s = Inr st" "decodeNodeProof enc = Some q" "np_nodeId q = n" "checkProofTiming (np_timestamp q) now = None"
    "map_of (na_nodes st) n = Some r" "\<not> nc_revoked r" "nc_authMode r \<noteq> Bearer" "nc_transport r = Some k"
    "list_ex (\<lambda>k'. verifyNodeProofSignature env (ts_publicKey k') q) (live_keys now r k)"
    and B: "map_of (na_nonces st) (np_nonce q) = None" "np_nonce q \<notin> set INHERITED_NONCES" "\<not> nonceCacheFull n (pruneNonces now st)"
    and C: "reload s' = Inr (prune now ?st1)" "\<not> list_ex private_text (state_strings (prune now ?st1))"
  from A(2) assms(2,3) have q: "of_int now = np_timestamp q + 300000" by simp
  have new: "map_of (na_nonces (pruneNonces now st)) (np_nonce q) = None" using B(1) by (simp add: map_of_filter_None)
  have gone: "prune now ?st1 = prune now st"
    unfolding obj_put_new [OF new] using q by (simp add: prune_def pruneNonces_def)
  have full: "\<not> nonceCacheFull n (pruneNonces now (prune now st))" using B(3) by (simp add: nonceCacheFull_def)
  have forgotten: "map_of (na_nonces (prune now st)) (np_nonce q) = None" using B(1) by (simp add: map_of_filter_None)
  have node: "map_of (na_nodes (prune now st)) n = Some (prune_record now r)" by (simp add: pruned_node A(5) del: prune_simps)
  obtain st2 where c: "check_proof env now n enc pth (prune now st) = (Inr None, st2)" and st2: "prune now st2 = prune now st"
  proof -
    have path: "np_path q = pth" "np_protocolVersion q = REACH_PROTOCOL_VERSION"
      using assms(1) A(1,2,3) by (auto simp: authenticateProof_def auth_mutate_def check_proof_def split: if_splits prod.splits sum.splits)
    let ?st2 = "pruneNonces now ((pruneNonces now (prune now st))\<lparr>na_nonces := obj_put (np_nonce q) ?R (na_nonces (pruneNonces now (prune now st)))\<rparr>)"
    have "check_proof env now n enc pth (prune now st) = (Inr None, ?st2)"
      using A B(2) path full forgotten node by (cases "nc_authMode r") (simp_all add: check_proof_def Let_def del: prune_simps)
    moreover have "prune now ?st2 = prune now st"
      using q forgotten by (simp add: obj_put_new map_of_filter_None prune_def pruneNonces_def case_prod_unfold comp_def del: prune_simps)
    ultimately show ?thesis by (rule that)
  qed
  have r': "reload s' = Inr (prune now st)" using C(1) unfolding gone .
  have "\<not> list_ex private_text (state_strings (prune now st2))" using C(2) unfolding gone st2 .
  then have "\<exists>s2. persistUnlocked now (s'\<lparr>au_state := st2\<rparr>) = (Inr (), s2)" by (simp add: persistUnlocked_def Let_def)
  then obtain s2 where "persistUnlocked now (s'\<lparr>au_state := st2\<rparr>) = (Inr (), s2)" by blast
  with r' c show "fst (authenticateProof env now n enc pth s') = Inr None" by (simp add: authenticateProof_def auth_mutate_def)
qed

section \<open>The life of a node's credentials\<close>

text \<open>The abstract machine: what a node can authenticate with, and which operation may change it.\<close>

datatype auth_phase = Unknown | BearerOnly | BothWays | KeyOnly | LockedOut

inductive phase_step :: "auth_op \<Rightarrow> string \<Rightarrow> auth_phase \<Rightarrow> auth_phase \<Rightarrow> bool" where
  phase_stays: "phase_step op n a a"
| phase_import: "phase_step (OpImport n tok) n Unknown BearerOnly"
| phase_enroll: "a = Unknown \<or> a = LockedOut \<Longrightarrow> phase_step (OpEnroll n tok) n a BearerOnly"
| phase_first_key: "phase_step (OpConsume n tok pem g) n Unknown KeyOnly"
| phase_add_key: "phase_step (OpConsume n tok pem g) n BearerOnly BothWays"
| phase_complete: "phase_step (OpComplete n) n BothWays KeyOnly"
| phase_revoke: "a \<noteq> Unknown \<Longrightarrow> phase_step (OpRevoke n) n a LockedOut"
| phase_forget: "phase_step (OpForget n) n LockedOut Unknown"

definition node_phase :: "node_credentials option \<Rightarrow> auth_phase" where
  "node_phase c = (case c of None \<Rightarrow> Unknown | Some r \<Rightarrow> if nc_revoked r then LockedOut
     else (case nc_authMode r of Bearer \<Rightarrow> BearerOnly | Migrating \<Rightarrow> BothWays | Asymmetric \<Rightarrow> KeyOnly))"

definition phase_of :: "auth_store \<Rightarrow> string \<Rightarrow> auth_phase" where
  "phase_of s n = (case reload s of Inl _ \<Rightarrow> Unknown | Inr st \<Rightarrow> node_phase (map_of (na_nodes st) n))"

definition creds_wf :: "node_credentials \<Rightarrow> bool" where
  "creds_wf r = (case nc_authMode r of
      Bearer \<Rightarrow> nc_active r \<noteq> None \<and> nc_transport r = None
    | Migrating \<Rightarrow> nc_active r \<noteq> None \<and> nc_transport r \<noteq> None
    | Asymmetric \<Rightarrow> nc_active r = None \<and> nc_previous r = [] \<and> nc_transport r \<noteq> None)"

definition nodes_wf :: "node_auth \<Rightarrow> bool" where
  "nodes_wf st = (\<forall>n r. map_of (na_nodes st) n = Some r \<longrightarrow> creds_wf r)"

definition nonces_ok :: "nonce_record obj \<Rightarrow> bool" where
  "nonces_ok xs = (int (length xs) \<le> MAX_NONCES \<and> (\<forall>n. int (length (filter (\<lambda>(c, r). nn_nodeId r = n) xs)) \<le> MAX_NONCES_PER_NODE))"

lemma credential_edit_phase:
  "credential_edit op now n old r \<Longrightarrow> (\<And>q. old = Some q \<Longrightarrow> creds_wf q) \<Longrightarrow> creds_wf r \<and> phase_step op n (node_phase old) (node_phase (Some r))"
proof (induction rule: credential_edit.induct)
  case (enrolled tok old env)
  then have "node_phase old = Unknown \<or> node_phase old = LockedOut" by (auto simp: node_phase_def split: option.split)
  with enrolled(1) have "phase_step op n (node_phase old) BearerOnly" by (simp add: phase_enroll)
  then show ?case by (simp add: node_phase_def [of "Some _"] creds_wf_def new_credentials_def defaultRecord_def)
next
  case (keyed tok pem g r old)
  show ?case
  proof (cases old)
    case None
    with keyed show ?thesis by (auto simp: node_phase_def creds_wf_def defaultRecord_def intro: phase_first_key)
  next
    case (Some q)
    with keyed have q: "r = q" "creds_wf q" by simp_all
    with keyed(4) have "nc_authMode q \<noteq> Asymmetric" by (auto simp: creds_wf_def)
    with q keyed Some show ?thesis
      by (cases "nc_authMode q") (auto simp: node_phase_def creds_wf_def intro: phase_add_key phase_stays)
  qed
next
  case (completed r)
  then have "creds_wf r" by simp
  with completed show ?case by (cases "nc_authMode r") (auto simp: node_phase_def creds_wf_def intro: phase_complete phase_stays)
next
  case (locked r)
  then have "creds_wf r" by simp
  moreover have "node_phase (Some r) \<noteq> Unknown" by (auto simp: node_phase_def split: node_auth_mode.split)
  ultimately show ?case using locked(1) phase_revoke [of "node_phase (Some r)" n]
    by (auto simp: node_phase_def creds_wf_def split: node_auth_mode.splits)
next
  case (imported tok env)
  then show ?case by (auto simp: node_phase_def creds_wf_def new_credentials_def defaultRecord_def intro: phase_import)
next
  case (rotated r g tok old a)
  then have "creds_wf r" by simp
  with rotated show ?case by (cases "nc_authMode r") (auto simp: node_phase_def creds_wf_def intro: phase_stays)
next
  case (rekeyed tok pem g r k)
  then have "creds_wf r" by simp
  with rekeyed show ?case by (cases "nc_authMode r") (auto simp: node_phase_def creds_wf_def rotate_key_def intro: phase_stays)
qed

lemma auth_change_phase:
  assumes "auth_change op now st st'" and "nodes_wf st"
  shows "nodes_wf st' \<and> phase_step op n (node_phase (map_of (na_nodes st) n)) (node_phase (map_of (na_nodes st') n))"
  using assms(1)
proof (cases rule: auth_change.cases)
  case (edited m r)
  from credential_edit_phase [OF edited(1)] assms(2)
  have "creds_wf r \<and> phase_step op m (node_phase (map_of (na_nodes st) m)) (node_phase (Some r))" by (auto simp: nodes_wf_def)
  with edited(2) assms(2) show ?thesis by (auto simp: nodes_wf_def map_of_obj_put intro: phase_stays)
next
  case (forgotten m r)
  with assms(2) show ?thesis by (auto simp: nodes_wf_def map_of_obj_del node_phase_def intro: phase_stays phase_forget)
qed (use assms(2) in \<open>auto simp: nodes_wf_def intro: phase_stays\<close>)

lemma prune_phase: "node_phase (map_of (na_nodes (prune now st)) n) = node_phase (map_of (na_nodes st) n)"
  by (simp add: pruned_node node_phase_def option.case_eq_if option.map_sel del: prune_simps)

lemma prune_wf: "nodes_wf st \<Longrightarrow> nodes_wf (prune now st)"
  by (auto simp: nodes_wf_def pruned_node creds_wf_def prune_record_def simp del: prune_simps split: node_auth_mode.splits)

lemma nonces_ok_filter: "nonces_ok xs \<Longrightarrow> nonces_ok (filter P xs)"
proof -
  assume ok: "nonces_ok xs"
  have "int (length (filter Q (filter P xs))) \<le> int (length (filter Q xs))" for Q by (induction xs) auto
  moreover have "int (length (filter P xs)) \<le> int (length xs)" by simp
  ultimately show ?thesis using ok unfolding nonces_ok_def by (blast intro: order_trans)
qed

lemma auth_change_nonces:
  assumes "auth_change op now st st'" and "nonces_ok (na_nonces st)"
  shows "nonces_ok (na_nonces st')"
  using assms(1)
proof (cases rule: auth_change.cases)
  case (accepted n enc pth p)
  let ?xs = "na_nonces (pruneNonces now st)"
  have "map_of ?xs (np_nonce p) = None" using accepted by (simp add: map_of_filter_None)
  moreover have "nonces_ok ?xs" using assms(2) nonces_ok_filter by simp
  ultimately have "nonces_ok (obj_put (np_nonce p) \<lparr>nn_nodeId = n, nn_expiresAt = np_timestamp p + 5 * 60000\<rparr> ?xs)"
    using accepted(5) by (auto simp: obj_put_new nonces_ok_def nonceCacheFull_def simp del: prune_simps)
  with accepted show ?thesis by (auto intro: nonces_ok_filter simp del: prune_simps(5) simp: pruneNonces_def)
qed (use assms(2) nonces_ok_filter in auto)

lemma auth_exec_keeps:
  assumes "\<And>st. reload s = Inr st \<Longrightarrow> P st" and "\<And>st st'. auth_change op now st st' \<Longrightarrow> P st \<Longrightarrow> P st'" and "\<And>st. P st \<Longrightarrow> P (prune now st)"
    and "reload (auth_exec env now op s) = Inr st"
  shows "P st"
  using auth_exec_view [of env now op s] assms by auto

lemma auth_reach_inv: "auth_reach env t s \<Longrightarrow> reload s = Inr st \<Longrightarrow> nodes_wf st \<and> nonces_ok (na_nonces st)"
proof (induction arbitrary: st rule: auth_reach.induct)
  case (auth_start t)
  then show ?case by (auto simp: EMPTY_STATE_def nodes_wf_def nonces_ok_def MAX_NONCES_def MAX_NONCES_PER_NODE_def)
next
  case (auth_next t s t' op)
  show ?case
    by (rule auth_exec_keeps [where P = "\<lambda>st. nodes_wf st \<and> nonces_ok (na_nonces st)", OF _ _ _ auth_next.prems])
      (use auth_next.IH auth_change_phase auth_change_nonces prune_wf nonces_ok_filter in \<open>auto simp del: prune_simps(1)\<close>)
qed

text \<open>
  C24: The credential store implements the machine of credential phases: every operation of the store, in every
  state it can reach, moves a node along a step of the machine that the operation names, and leaves every
  other node where it is. In particular a node that has moved to its key never gets back to a bearer token
  unless the owner revokes it first.
\<close>

theorem node_auth_refines_phases:
  assumes "auth_reach env t s"
  shows "phase_step op n (phase_of s n) (phase_of (auth_exec env t' op s) n)"
  using auth_exec_view [of env t' op s]
proof (elim disjE exE conjE)
  fix st st'
  assume A: "reload s = Inr st" "auth_change op t' st st'" "reload (auth_exec env t' op s) = Inr (prune t' st')"
  from auth_reach_inv [OF assms A(1)] auth_change_phase [OF A(2)]
  have "phase_step op n (node_phase (map_of (na_nodes st) n)) (node_phase (map_of (na_nodes st') n))" by blast
  with A show ?thesis by (simp add: phase_of_def prune_phase del: prune_simps)
qed (auto simp: phase_of_def intro: phase_stays)

text \<open>
  The replay cache is bounded in every state the store can reach: at most 65536 nonces are remembered, at
  most 4096 of them for one node.
\<close>

theorem nonce_cache_bounded:
  assumes "auth_reach env t s" and "reload s = Inr st"
  shows "length (na_nonces st) \<le> 65536 \<and> length (filter (\<lambda>(c, r). nn_nodeId r = n) (na_nonces st)) \<le> 4096"
  using auth_reach_inv [OF assms] by (auto simp: nonces_ok_def MAX_NONCES_def MAX_NONCES_PER_NODE_def)

fun auth_exec_all :: "auth_env \<Rightarrow> (int \<times> auth_op) list \<Rightarrow> auth_store \<Rightarrow> auth_store" where
  "auth_exec_all env [] s = s"
| "auth_exec_all env ((t, op) # ops) s = auth_exec_all env ops (auth_exec env t op s)"

fun readmits :: "string \<Rightarrow> auth_op \<Rightarrow> bool" where
  "readmits n (OpEnroll m tok) = (m = n)"
| "readmits n (OpForget m) = (m = n)"
| "readmits n op = False"

definition locked_out :: "string \<Rightarrow> auth_store \<Rightarrow> bool" where
  "locked_out n s = (\<exists>st r. reload s = Inr st \<and> map_of (na_nodes st) n = Some r \<and> nc_revoked r)"

lemma auth_change_locked:
  assumes "auth_change op now st st'" and "map_of (na_nodes st) n = Some r" and "nc_revoked r" and "\<not> readmits n op"
  shows "\<exists>r'. map_of (na_nodes st') n = Some r' \<and> nc_revoked r'"
  using assms(1)
proof (cases rule: auth_change.cases)
  case (edited m q)
  show ?thesis
  proof (cases "m = n")
    case True
    with edited(1) assms(2-4) have "nc_revoked q" by (auto elim!: credential_editE)
    with edited(2) True show ?thesis by (simp add: map_of_obj_put)
  qed (use edited(2) assms(2,3) in \<open>simp add: map_of_obj_put\<close>)
next
  case (forgotten m q)
  with assms(2-4) show ?thesis by (auto simp: map_of_obj_del)
qed (use assms(2,3) in auto)

lemma auth_exec_locked: "locked_out n s \<Longrightarrow> \<not> readmits n op \<Longrightarrow> locked_out n (auth_exec env t op s)"
  using auth_exec_view [of env t op s] auth_change_locked [of op t]
  by (fastforce simp: locked_out_def pruned_node simp del: prune_simps)

lemma auth_exec_all_locked:
  "locked_out n s \<Longrightarrow> (\<And>t op. (t, op) \<in> set ops \<Longrightarrow> \<not> readmits n op) \<Longrightarrow> locked_out n (auth_exec_all env ops s)"
  by (induction env ops s rule: auth_exec_all.induct) (auto intro: auth_exec_locked)

lemma locked_out_refused:
  assumes "locked_out n s"
  shows "fst (authenticate env t n tok s) = Inr False" "fst (authenticateProof env t n enc pth s) \<noteq> Inr None" "fst (isRevoked n s) = Inr True"
proof -
  from assms obtain st r where r: "reload s = Inr st" "map_of (na_nodes st) n = Some r" "nc_revoked r" by (auto simp: locked_out_def)
  then show "fst (authenticate env t n tok s) = Inr False"
    by (simp add: authenticate_def Let_def pruned_node bearer_accepted_def del: prune_simps)
  show "fst (isRevoked n s) = Inr True" using r by (simp add: isRevoked_def)
  show "fst (authenticateProof env t n enc pth s) \<noteq> Inr None"
  proof
    assume "fst (authenticateProof env t n enc pth s) = Inr None"
    then obtain s' where "authenticateProof env t n enc pth s = (Inr None, s')" by (metis prod.collapse)
    then show False using r by (auto elim!: authenticateProof_accepts)
  qed
qed

text \<open>
  C25: A revoked node stays out: once the owner's revocation is confirmed, no token, no signed proof (also none
  within the grace period of an earlier key) and no pending enrollment gets the node back in, whatever
  operations follow, until the owner enrols or forgets that node.
\<close>

theorem revoked_node_stays_out:
  assumes "revoke_node t n s = (Inr True, s1)" and "\<forall>(t', op) \<in> set ops. \<not> readmits n op"
  shows "let s' = auth_exec_all env ops s1 in
    fst (authenticate env now n tok s') = Inr False \<and> fst (authenticateProof env now n enc pth s') \<noteq> Inr None \<and> fst (isRevoked n s') = Inr True"
proof -
  from assms(1) have "locked_out n s1" unfolding revoke_node_def
    by (cases rule: auth_mutate_cases) (auto simp: locked_out_def pruned_node map_of_obj_put simp del: prune_simps split: option.splits)
  then have "locked_out n (auth_exec_all env ops s1)" by (rule auth_exec_all_locked) (use assms(2) in fastforce)
  then show ?thesis using locked_out_refused by (simp add: Let_def)
qed

section \<open>Concrete runs\<close>

definition ex_auth_env :: auth_env where
  "ex_auth_env = \<lparr>ae_sha = (\<lambda>s. CHR ''h'' # s), ae_verify = (\<lambda>k j s. s = k)\<rparr>"

definition ex_keyed :: "int \<Rightarrow> auth_store" where
  "ex_keyed t = auth_exec_all ex_auth_env [(t, OpInvite ''node'' None ''token''), (t, OpConsume ''node'' ''token'' ''PUBLIC KEY'' None)] empty_auth_store"

definition ex_proof :: node_auth_proof where
  "ex_proof = \<lparr>np_nodeId = ''node'', np_timestamp = 0, np_nonce = ''0123456789abcdef'', np_path = ''/node'', np_protocolVersion = 1, np_signature = ''PUBLIC KEY''\<rparr>"

definition ex_present :: "int \<Rightarrow> auth_store \<Rightarrow> (auth_error + proof_failure option) \<times> auth_store" where
  "ex_present t s = authenticateProof ex_auth_env t ''node'' (Some (encodeNodeProof ex_proof)) NODE_PROOF_PATH s"

lemma ex_keyed_reach: "auth_reach ex_auth_env t (ex_keyed t)"
  unfolding ex_keyed_def auth_exec_all.simps by (rule auth_next [OF auth_next [OF auth_start [of _ t]]]) (rule order_refl)+

lemma ex_keyed_run: "auth_run ex_auth_env t (ex_keyed t) []"
  unfolding auth_run_def ex_keyed_def auth_exec_all.simps
  by (rule run_move [OF run_move [OF run_start [of _ _ _ t]]]) (auto simp: auth_moves_def simp del: auth_exec.simps)

lemma ex_decode: "decodeNodeProof (Some (encodeNodeProof ex_proof)) = Some ex_proof"
  by code_simp

text \<open>The stores of the two runs, computed once.\<close>

definition ex_key :: "int \<Rightarrow> node_credentials" where
  "ex_key t = \<lparr>nc_authMode = Asymmetric, nc_active = None, nc_previous = [],
     nc_transport = Some \<lparr>ts_publicKey = ''PUBLIC KEY'', ts_createdAt = t, ts_validUntil = None\<rparr>,
     nc_previousTransport = [], nc_revoked = False, nc_updatedAt = t\<rparr>"

definition ex_key_store :: "int \<Rightarrow> (string \<times> nonce_record) list \<Rightarrow> auth_store" where
  "ex_key_store t ns = \<lparr>au_file = Contents (AuthV2 (Some [(''node'', ex_key t)]) (Some []) (Some ns)),
     au_state = \<lparr>na_nodes = [(''node'', ex_key t)], na_enrollment = [], na_nonces = ns\<rparr>\<rparr>"

definition ex_nonces :: "(string \<times> nonce_record) list" where
  "ex_nonces = [(''0123456789abcdef'', \<lparr>nn_nodeId = ''node'', nn_expiresAt = 300000\<rparr>)]"

lemma ex_keyed_store: "ex_keyed 10 = ex_key_store 10 []"
  by code_simp

lemma ex_presented: "ex_present 10 (ex_key_store 10 []) = (Inr None, ex_key_store 10 ex_nonces)"
  by code_simp

lemma ex_presented_late: "ex_present 300000 (ex_key_store 10 []) = (Inr None, ex_key_store 10 [])"
  by code_simp

lemma ex_present_accepted:
  "fst (ex_present 300000 (ex_keyed 10)) = Inr None" "fst (ex_present 300000 (snd (ex_present 300000 (ex_keyed 10)))) = Inr None"
  by (simp_all add: ex_keyed_store ex_presented_late)

lemma ex_present_step: "fst (ex_present t s) = Inr None \<Longrightarrow> auth_accepts ex_auth_env t s ex_proof (snd (ex_present t s))"
  using ex_decode by (auto simp: auth_accepts_def ex_present_def intro!: exI prod_eqI)

theorem no_proof_replay_witness:
  "\<exists>s h. auth_run ex_auth_env 300000 s h \<and> h = [(300000, ex_proof), (300000, ex_proof)] \<and>
     np_timestamp (snd (h ! 0)) + 300000 \<le> of_int (fst (h ! 1)) \<and> of_int (fst (h ! 1)) = np_timestamp (snd (h ! 0)) + 300000"
proof -
  let ?s1 = "snd (ex_present 300000 (ex_keyed 10))"
  have "auth_run ex_auth_env 300000 ?s1 ([] @ [(300000, ex_proof)])"
    unfolding auth_run_def
    by (rule run_accept [OF ex_keyed_run [of 10, unfolded auth_run_def] _ ex_present_step [OF ex_present_accepted(1)]]) simp
  then have "auth_run ex_auth_env 300000 (snd (ex_present 300000 ?s1)) (([] @ [(300000, ex_proof)]) @ [(300000, ex_proof)])"
    using ex_present_step [OF ex_present_accepted(2)] unfolding auth_run_def by (blast intro: run_accept)
  then have run: "auth_run ex_auth_env 300000 (snd (ex_present 300000 ?s1)) [(300000, ex_proof), (300000, ex_proof)]" by simp
  from no_proof_replay [OF run, of 0 1] run show ?thesis by auto
qed

theorem proof_replayable_at_window_end_witness:
  "fst (ex_present 300000 (snd (ex_present 300000 (ex_keyed 10)))) = Inr None"
proof -
  have "ex_present 300000 (ex_keyed 10) = (Inr None, snd (ex_present 300000 (ex_keyed 10)))"
    using ex_present_accepted(1) by (metis prod.collapse)
  from proof_replayable_at_window_end [OF this [unfolded ex_present_def] ex_decode] show ?thesis
    by (simp add: ex_present_def ex_proof_def)
qed

theorem node_auth_refines_phases_witness:
  "phase_of (ex_keyed 10) ''node'' = KeyOnly \<and>
   phase_step (OpRevoke ''node'') ''node'' (phase_of (ex_keyed 10) ''node'') (phase_of (auth_exec ex_auth_env 20 (OpRevoke ''node'') (ex_keyed 10)) ''node'')"
proof
  show "phase_of (ex_keyed 10) ''node'' = KeyOnly" unfolding ex_keyed_store by code_simp
qed (rule node_auth_refines_phases [OF ex_keyed_reach])

theorem nonce_cache_bounded_witness:
  "\<exists>st. reload (snd (ex_present 10 (ex_keyed 10))) = Inr st \<and> length (na_nonces st) \<le> 65536 \<and>
     length (filter (\<lambda>(c, r). nn_nodeId r = ''node'') (na_nonces st)) \<le> 4096"
proof -
  have r: "auth_reach ex_auth_env 10 (snd (ex_present 10 (ex_keyed 10)))"
    using auth_next [OF ex_keyed_reach, of 10 10 "OpProof ''node'' (Some (encodeNodeProof ex_proof)) NODE_PROOF_PATH"] by (simp add: ex_present_def)
  have "\<exists>st. reload (snd (ex_present 10 (ex_keyed 10))) = Inr st"
    unfolding ex_keyed_store ex_presented snd_conv by (simp add: ex_key_store_def reload_def upgradeState_def)
  then obtain st where st: "reload (snd (ex_present 10 (ex_keyed 10))) = Inr st" ..
  from nonce_cache_bounded [OF r st, of "''node''"] st show ?thesis by blast
qed

theorem revoked_node_stays_out_witness:
  "\<exists>s1. revoke_node 20 ''node'' (ex_keyed 10) = (Inr True, s1) \<and>
     fst (authenticateProof ex_auth_env 30 ''node'' (Some (encodeNodeProof ex_proof)) NODE_PROOF_PATH
       (auth_exec_all ex_auth_env [(25, OpConsume ''node'' ''token'' ''PUBLIC KEY'' None)] s1)) \<noteq> Inr None"
proof -
  have "fst (revoke_node 20 ''node'' (ex_keyed 10)) = Inr True" unfolding ex_keyed_store by code_simp
  then obtain s1 where s1: "revoke_node 20 ''node'' (ex_keyed 10) = (Inr True, s1)" by (metis prod.collapse)
  from revoked_node_stays_out [OF s1, of "[(25, OpConsume ''node'' ''token'' ''PUBLIC KEY'' None)]" ex_auth_env 30] s1 show ?thesis
    by (auto simp: Let_def simp del: auth_exec_all.simps)
qed

end
