(* ===== verification/Reach_Registry.thy ===== *)
theory Reach_Registry
  imports Reach_Node_Auth Reach_Durable "HOL-Library.Char_ord" "HOL-Library.List_Lexorder" "HOL-Library.Multiset"
begin

text \<open>
  The gateway's registry of node connections, \<open>src/src/gateway/registry.ts\<close>, with the negotiation of the
  semantic protocol (\<open>src/src/shared/protocol-negotiation.ts\<close>) and the file of revoked nodes
  (\<open>src/src/shared/revoked-nodes.ts\<close>). Every asynchronous method is split where it awaits the credential
  store: it leaves a \<open>gw_call\<close>, the store answers the call in one event and the method resumes in a later one,
  and any other event may come between. Sockets are numbered in the order they are accepted; a socket says
  hello once, so the identity of a node record is its socket. The lists \<open>gw_asked\<close>, \<open>gw_sent\<close> and
  \<open>gw_outcomes\<close> record the callers of \<open>requestWithTrace\<close>, the frames written to sockets and how the promises
  of the callers were settled. A message is the value it parses to.
\<close>

section \<open>Protocol negotiation\<close>

definition REACH_PROTOCOL_V1 :: string where "REACH_PROTOCOL_V1 = ''1.0''"
definition REACH_PROTOCOL_V2 :: string where "REACH_PROTOCOL_V2 = ''2.0''"
definition REACH_DURABLE_TASK_CAPABILITY :: string where "REACH_DURABLE_TASK_CAPABILITY = ''durable_tasks''"

definition CURRENT_GATEWAY_PROTOCOLS :: "string list" where
  "CURRENT_GATEWAY_PROTOCOLS = [REACH_PROTOCOL_V2, REACH_PROTOCOL_V1]"

definition CURRENT_GATEWAY_CAPABILITIES :: "string list" where
  "CURRENT_GATEWAY_CAPABILITIES = [REACH_DURABLE_TASK_CAPABILITY, ''task_event_stream'', ''two_phase_plan'']"

record negotiated_protocol =
  ng_version :: string
  ng_capabilities :: "string list"

definition known_protocols :: "json list" where
  "known_protocols = [JStr REACH_PROTOCOL_V1, JStr REACH_PROTOCOL_V2]"

fun json_texts :: "json list \<Rightarrow> string list" where
  "json_texts [] = []"
| "json_texts (JStr s # js) = s # json_texts js"
| "json_texts (j # js) = json_texts js"

text \<open>The offer of a hello, \<open>None\<close> where the code throws.\<close>

definition advertisedProtocols :: "json \<Rightarrow> string list option" where
  "advertisedProtocols hello =
     (if jget hello ''protocolVersion'' \<noteq> Some (JNum 1) then None
      else if (case jget hello ''protocolVersionSemantic'' of None \<Rightarrow> False | Some v \<Rightarrow> v \<notin> set known_protocols) then None
      else (case jget hello ''supportedProtocols'' of
          Some (JArr vs) \<Rightarrow>
            if vs = [] \<or> list_ex (\<lambda>v. v \<notin> set known_protocols) vs \<or> length (remdups vs) \<noteq> length vs
               \<or> (case jget hello ''protocolVersionSemantic'' of None \<Rightarrow> False | Some v \<Rightarrow> hd vs \<noteq> v)
            then None else Some (json_texts vs)
        | Some _ \<Rightarrow> None
        | None \<Rightarrow> if jget hello ''protocolVersionSemantic'' = Some (JStr REACH_PROTOCOL_V2) then None else Some [REACH_PROTOCOL_V1]))"

definition offers :: "json \<Rightarrow> string \<Rightarrow> bool" where
  "offers hello c = (case jget hello ''capabilities'' of None \<Rightarrow> False | Some cs \<Rightarrow> jget cs c = Some (JBool True))"

definition negotiateProtocol :: "string list \<Rightarrow> string list \<Rightarrow> json \<Rightarrow> negotiated_protocol option" where
  "negotiateProtocol gatewayProtocols gatewayCapabilities hello = (case advertisedProtocols hello of
      None \<Rightarrow> None
    | Some nodeProtocols \<Rightarrow> (case List.find (\<lambda>v. v \<in> set nodeProtocols) gatewayProtocols of
        None \<Rightarrow> None
      | Some version \<Rightarrow> Some \<lparr>ng_version = version,
          ng_capabilities = rev (remdups (rev (filter (\<lambda>c. version = REACH_PROTOCOL_V2 \<and> offers hello c) gatewayCapabilities)))\<rparr>))"

definition supportsNegotiatedCapability :: "negotiated_protocol \<Rightarrow> string \<Rightarrow> bool" where
  "supportsNegotiatedCapability n c = (ng_version n = REACH_PROTOCOL_V2 \<and> c \<in> set (ng_capabilities n))"

text \<open>The node's side of the negotiation.\<close>

datatype negotiation_phase = Waiting | AdmittedPhase | ClosedPhase

record node_negotiation =
  nn_phase :: negotiation_phase
  nn_negotiated :: negotiated_protocol
  nn_offer :: json

definition new_negotiation :: "json \<Rightarrow> node_negotiation" where
  "new_negotiation offer = \<lparr>nn_phase = Waiting, nn_negotiated = \<lparr>ng_version = REACH_PROTOCOL_V1, ng_capabilities = []\<rparr>, nn_offer = offer\<rparr>"

definition acknowledge :: "json \<Rightarrow> node_negotiation \<Rightarrow> negotiated_protocol option \<times> node_negotiation" where
  "acknowledge ack n =
     (if nn_phase n \<noteq> Waiting then (None, n)
      else if jget ack ''type'' \<noteq> Some (JStr ''hello_ack'') then (None, n)
      else (case (advertisedProtocols (nn_offer n), jget ack ''protocolVersion'', jget ack ''capabilities'') of
          (Some vs, Some (JStr v), Some (JArr cs)) \<Rightarrow>
            if v \<notin> set vs \<or> 4 < length cs \<or> length (remdups cs) \<noteq> length cs
               \<or> list_ex (\<lambda>c. case c of JStr s \<Rightarrow> \<not> offers (nn_offer n) s | _ \<Rightarrow> True) cs \<or> (v = REACH_PROTOCOL_V1 \<and> cs \<noteq> [])
            then (None, n)
            else (let g = \<lparr>ng_version = v, ng_capabilities = json_texts cs\<rparr> in (Some g, n\<lparr>nn_phase := AdmittedPhase, nn_negotiated := g\<rparr>))
        | _ \<Rightarrow> (None, n)))"

definition negotiation_request :: "node_negotiation \<Rightarrow> negotiated_protocol option \<times> node_negotiation" where
  "negotiation_request n = (if nn_phase n = ClosedPhase then (None, n) else (Some (nn_negotiated n), n\<lparr>nn_phase := AdmittedPhase\<rparr>))"

definition negotiation_close :: "node_negotiation \<Rightarrow> node_negotiation" where
  "negotiation_close n = n\<lparr>nn_phase := ClosedPhase\<rparr>"

definition hello_ack :: "negotiated_protocol \<Rightarrow> json" where
  "hello_ack g = JObj [(''type'', JStr ''hello_ack''), (''protocolVersion'', JStr (ng_version g)), (''capabilities'', JArr (map JStr (ng_capabilities g)))]"

section \<open>The file of revoked nodes\<close>

definition normalize_revoked :: "json \<Rightarrow> string list" where
  "normalize_revoked j = (case j of JArr vs \<Rightarrow> rev (remdups (rev (filter (\<lambda>s. s \<noteq> []) (json_texts vs)))) | _ \<Rightarrow> [])"

definition loadRevokedNodes :: "json stored \<Rightarrow> string list option" where
  "loadRevokedNodes f = (case f of Absent \<Rightarrow> Some [] | Unreadable \<Rightarrow> None | Contents j \<Rightarrow> Some (normalize_revoked j))"

definition mutate_revoked :: "(string list \<Rightarrow> string list) \<Rightarrow> json stored \<Rightarrow> string list option \<times> json stored" where
  "mutate_revoked f file = (case loadRevokedNodes file of
      None \<Rightarrow> (None, file)
    | Some ns \<Rightarrow> (Some (f ns), Contents (JArr (map JStr (sort (f ns))))))"

definition addRevokedNode :: "string \<Rightarrow> json stored \<Rightarrow> string list option \<times> json stored" where
  "addRevokedNode n = mutate_revoked (\<lambda>ns. if n \<in> set ns then ns else ns @ [n])"

definition removeRevokedNode :: "string \<Rightarrow> json stored \<Rightarrow> string list option \<times> json stored" where
  "removeRevokedNode n = mutate_revoked (filter (\<lambda>m. m \<noteq> n))"

section \<open>The state of the registry\<close>

record socket_state =
  ss_node :: string
  ss_registered :: bool
  ss_open :: bool

record node_conn =
  nr_hello :: json
  nr_socket :: nat
  nr_connectedAt :: int
  nr_lastSeenAt :: int
  nr_access :: "json option"
  nr_scheduler :: "json option"
  nr_negotiated :: negotiated_protocol

record pending_request =
  pe_caller :: nat
  pe_nodeId :: string
  pe_socket :: nat
  pe_deadline :: int
  pe_responding :: bool

datatype gw_error = GwNodeIdRequired | GwRevoked | GwNotOnline | GwConnectionChanged | GwCapability | GwPendingLimit | GwStore auth_error
  | GwTombstones | GwTimeout | GwUncertain | GwSendFailed | GwNodeFailed "json option" | GwShutdown | GwDeadline

datatype gw_outcome = Answered string nat "json option" "json option" | Failed gw_error

text \<open>What an awaiting method asked the credential store, and what it does with the reply.\<close>

datatype store_ask = AskRevoked string | AskProof string string string | AskBearer string string | AskRevoke string | AskTombstone string

datatype store_reply = RepliedRevoked bool | RepliedAdmitted bool | RepliedDone | RepliedTombstones "string list"

datatype gw_then =
    ThenDispatch string nat bool int
  | ThenFinish string nat string json
  | ThenSweep string nat
  | ThenReadmit string node_authorization
  | ThenAccept string
  | ThenDrop string
  | ThenTombstones

record gw_call =
  gc_ask :: store_ask
  gc_reply :: "(gw_error + store_reply) option"
  gc_then :: gw_then

record gateway =
  gw_nodes :: "node_conn obj"
  gw_pending :: "pending_request obj"
  gw_revoked :: "string list"
  gw_sockets :: "socket_state list"
  gw_calls :: "(nat \<times> gw_call) list"
  gw_next :: nat
  gw_auth :: auth_store
  gw_tombstones :: "json stored"
  gw_asked :: "(nat \<times> string) list"
  gw_sent :: "(string \<times> nat \<times> string \<times> nat) list"
  gw_outcomes :: "(nat \<times> gw_outcome) list"

record gateway_env =
  ge_auth :: auth_env
  ge_decode :: "string \<Rightarrow> json option"
  ge_protocols :: "string list"
  ge_capabilities :: "string list"

definition settle :: "nat \<Rightarrow> gw_outcome \<Rightarrow> gateway \<Rightarrow> gateway" where
  "settle caller out g = g\<lparr>gw_outcomes := gw_outcomes g @ [(caller, out)]\<rparr>"

definition close_socket :: "nat \<Rightarrow> gateway \<Rightarrow> gateway" where
  "close_socket s g = (if s < length (gw_sockets g) then g\<lparr>gw_sockets := (gw_sockets g)[s := (gw_sockets g ! s)\<lparr>ss_open := False\<rparr>]\<rparr> else g)"

definition socket_open :: "nat \<Rightarrow> gateway \<Rightarrow> bool" where
  "socket_open s g = (s < length (gw_sockets g) \<and> ss_open (gw_sockets g ! s))"

definition await :: "store_ask \<Rightarrow> gw_then \<Rightarrow> gateway \<Rightarrow> gateway" where
  "await ask th g = g\<lparr>gw_calls := gw_calls g @ [(gw_next g, \<lparr>gc_ask = ask, gc_reply = None, gc_then = th\<rparr>)], gw_next := gw_next g + 1\<rparr>"

text \<open>\<open>rejectConnection\<close>: every request pending on the socket is rejected, its effect uncertain.\<close>

definition rejectConnection :: "nat \<Rightarrow> gateway \<Rightarrow> gateway" where
  "rejectConnection s g = g\<lparr>gw_pending := filter (\<lambda>(i, p). pe_socket p \<noteq> s) (gw_pending g),
     gw_outcomes := gw_outcomes g @ map (\<lambda>(i, p). (pe_caller p, Failed GwUncertain)) (filter (\<lambda>(i, p). pe_socket p = s) (gw_pending g))\<rparr>"

definition requireNode :: "string \<Rightarrow> gateway \<Rightarrow> gw_error + node_conn" where
  "requireNode n g =
     (if js_trim n = [] then Inl GwNodeIdRequired
      else if n \<in> set (gw_revoked g) then Inl GwRevoked
      else (case map_of (gw_nodes g) n of
          None \<Rightarrow> Inl GwNotOnline
        | Some r \<Rightarrow> if socket_open (nr_socket r) g then Inr r else Inl GwNotOnline))"

definition node_on_socket :: "string \<Rightarrow> nat \<Rightarrow> gateway \<Rightarrow> bool" where
  "node_on_socket n s g = (map_option nr_socket (map_of (gw_nodes g) n) = Some s)"

definition drop_node :: "string \<Rightarrow> nat \<Rightarrow> gateway \<Rightarrow> gateway" where
  "drop_node n s g = (let g1 = close_socket s (rejectConnection s g) in g1\<lparr>gw_nodes := obj_del n (gw_nodes g1)\<rparr>)"

definition tombstone :: "string \<Rightarrow> gateway \<Rightarrow> gateway" where
  "tombstone n g = (if n \<in> set (gw_revoked g) then g else g\<lparr>gw_revoked := gw_revoked g @ [n]\<rparr>)"

section \<open>Requests\<close>

text \<open>\<open>requestWithTrace\<close> up to the check of the credential store; a call that fails before is settled at once.\<close>

definition request_start :: "string \<Rightarrow> bool \<Rightarrow> rat \<Rightarrow> gateway \<Rightarrow> gateway" where
  "request_start n durable timeoutMs g =
     (let c = gw_next g; g1 = g\<lparr>gw_asked := gw_asked g @ [(c, n)]\<rparr>
      in case boundedGatewayMs timeoutMs of
          None \<Rightarrow> settle c (Failed GwDeadline) (g1\<lparr>gw_next := c + 1\<rparr>)
        | Some ms \<Rightarrow> (case requireNode n g of
            Inl e \<Rightarrow> settle c (Failed e) (g1\<lparr>gw_next := c + 1\<rparr>)
          | Inr r \<Rightarrow> await (AskRevoked n) (ThenDispatch n (nr_socket r) durable ms) g1))"

text \<open>The rest of it: the identifier of the request is fresh.\<close>

definition request_dispatch :: "nat \<Rightarrow> string \<Rightarrow> nat \<Rightarrow> bool \<Rightarrow> int \<Rightarrow> string \<Rightarrow> int \<Rightarrow> gw_error + store_reply \<Rightarrow> gateway \<Rightarrow> gateway" where
  "request_dispatch c n s durable ms uuid now reply g = (case reply of
      Inl e \<Rightarrow> settle c (Failed e) g
    | Inr rep \<Rightarrow>
        if rep \<noteq> RepliedRevoked False then settle c (Failed GwRevoked) g
        else (case requireNode n g of
            Inl e \<Rightarrow> settle c (Failed e) g
          | Inr r \<Rightarrow>
              if nr_socket r \<noteq> s then settle c (Failed GwConnectionChanged) g
              else if durable \<and> \<not> supportsNegotiatedCapability (nr_negotiated r) REACH_DURABLE_TASK_CAPABILITY then settle c (Failed GwCapability) g
              else if 2048 \<le> int (length (gw_pending g)) then settle c (Failed GwPendingLimit) g
              else g\<lparr>gw_pending := obj_put uuid \<lparr>pe_caller = c, pe_nodeId = n, pe_socket = s, pe_deadline = now + ms, pe_responding = False\<rparr> (gw_pending g),
                     gw_sent := gw_sent g @ [(uuid, c, n, s)]\<rparr>))"

definition request_timeout :: "string \<Rightarrow> int \<Rightarrow> gateway \<Rightarrow> gateway" where
  "request_timeout i now g = (case map_of (gw_pending g) i of
      None \<Rightarrow> g
    | Some p \<Rightarrow> if pe_deadline p \<le> now then settle (pe_caller p) (Failed GwTimeout) (g\<lparr>gw_pending := obj_del i (gw_pending g)\<rparr>) else g)"

definition send_failed :: "string \<Rightarrow> gateway \<Rightarrow> gateway" where
  "send_failed i g = (case map_of (gw_pending g) i of
      None \<Rightarrow> g
    | Some p \<Rightarrow> settle (pe_caller p) (Failed GwSendFailed) (g\<lparr>gw_pending := obj_del i (gw_pending g)\<rparr>))"

text \<open>\<open>finishResponse\<close> up to and after its check of the credential store.\<close>

definition response_start :: "json \<Rightarrow> string \<Rightarrow> nat \<Rightarrow> gateway \<Rightarrow> gateway" where
  "response_start response n s g = (case (jget response ''id'', jget response ''ok'') of
      (Some (JStr i), Some (JBool b)) \<Rightarrow> (case map_of (gw_pending g) i of
          None \<Rightarrow> g
        | Some p \<Rightarrow>
            if pe_nodeId p \<noteq> n \<or> pe_socket p \<noteq> s \<or> pe_responding p then g
            else await (AskRevoked n) (ThenFinish n s i response) (g\<lparr>gw_pending := obj_put i (p\<lparr>pe_responding := True\<rparr>) (gw_pending g)\<rparr>))
    | _ \<Rightarrow> g)"

definition js_truthy :: "json option \<Rightarrow> bool" where
  "js_truthy v = (case v of None \<Rightarrow> False | Some JNull \<Rightarrow> False | Some (JBool b) \<Rightarrow> b | Some (JNum r) \<Rightarrow> r \<noteq> 0 | Some (JStr s) \<Rightarrow> s \<noteq> [] | Some _ \<Rightarrow> True)"

definition response_outcome :: "string \<Rightarrow> nat \<Rightarrow> json \<Rightarrow> gw_outcome" where
  "response_outcome n s response =
     (if jget response ''ok'' = Some (JBool True)
      then Answered n s (jget response ''result'') (if js_truthy (jget response ''traceId'') then jget response ''traceId'' else None)
      else Failed (GwNodeFailed (if js_truthy (jget response ''error'') then jget response ''error'' else None)))"

definition response_finish :: "string \<Rightarrow> nat \<Rightarrow> string \<Rightarrow> json \<Rightarrow> gw_error + store_reply \<Rightarrow> gateway \<Rightarrow> gateway" where
  "response_finish n s i response reply g = (case reply of
      Inl e \<Rightarrow> close_socket s g
    | Inr rep \<Rightarrow>
        if rep \<noteq> RepliedRevoked False then rejectConnection s g
        else (case map_of (gw_pending g) i of
            None \<Rightarrow> g
          | Some p \<Rightarrow>
              if \<not> node_on_socket n s g \<or> \<not> socket_open s g \<or> n \<in> set (gw_revoked g) then g
              else settle (pe_caller p) (response_outcome n s response) (g\<lparr>gw_pending := obj_del i (gw_pending g)\<rparr>)))"

section \<open>Connections\<close>

text \<open>The upgrade of a connection: path, node id, the tombstone check, then authentication.\<close>

definition ask_credentials :: "string \<Rightarrow> node_authorization \<Rightarrow> gateway \<Rightarrow> gateway" where
  "ask_credentials n auth g = (case auth of
      ProofHeader e \<Rightarrow> await (AskProof n e ''/node'') (ThenAccept n) g
    | BearerToken t \<Rightarrow> await (AskBearer n t) (ThenAccept n) g
    | NoAuthorization \<Rightarrow> g)"

definition upgrade_start :: "string \<Rightarrow> string \<Rightarrow> string \<Rightarrow> gateway \<Rightarrow> gateway" where
  "upgrade_start path header n g =
     (if path \<noteq> ''/node'' \<or> n = [] then g
      else if n \<in> set (gw_revoked g) then await (AskRevoked n) (ThenReadmit n (parseNodeAuthorization header)) g
      else ask_credentials n (parseNodeAuthorization header) g)"

definition upgrade_readmit :: "string \<Rightarrow> node_authorization \<Rightarrow> gw_error + store_reply \<Rightarrow> gateway \<Rightarrow> gateway" where
  "upgrade_readmit n auth reply g =
     (if reply = Inr (RepliedRevoked False) then ask_credentials n auth (g\<lparr>gw_revoked := filter (\<lambda>m. m \<noteq> n) (gw_revoked g)\<rparr>) else g)"

definition upgrade_accept :: "string \<Rightarrow> gw_error + store_reply \<Rightarrow> gateway \<Rightarrow> gateway" where
  "upgrade_accept n reply g =
     (if reply = Inr (RepliedAdmitted True) then g\<lparr>gw_sockets := gw_sockets g @ [\<lparr>ss_node = n, ss_registered = False, ss_open = True\<rparr>]\<rparr> else g)"

definition well_formed_hello :: "json \<Rightarrow> bool" where
  "well_formed_hello hello =
     ((case jget hello ''tools'' of Some (JArr _) \<Rightarrow> True | _ \<Rightarrow> False) \<and> (case jget hello ''allowedRoots'' of Some (JArr _) \<Rightarrow> True | _ \<Rightarrow> False) \<and>
      js_truthy (jget hello ''fingerprint'') \<and> (case jget hello ''agentVersion'' of Some (JStr _) \<Rightarrow> True | Some (JIso _) \<Rightarrow> True | _ \<Rightarrow> False))"

definition non_null :: "json option \<Rightarrow> json option" where
  "non_null v = (if v = Some JNull then None else v)"

text \<open>The first message of a socket.\<close>

definition accept_hello :: "gateway_env \<Rightarrow> nat \<Rightarrow> json \<Rightarrow> int \<Rightarrow> gateway \<Rightarrow> gateway" where
  "accept_hello env s hello now g =
     (let n = ss_node (gw_sockets g ! s)
      in if jget hello ''type'' \<noteq> Some (JStr ''hello'') then close_socket s g
         else if jget hello ''nodeId'' \<noteq> Some (JStr n) \<or> jget hello ''protocolVersion'' \<noteq> Some (JNum (of_int REACH_PROTOCOL_VERSION)) \<or> n \<in> set (gw_revoked g)
         then close_socket s g
         else if \<not> well_formed_hello hello then close_socket s g
         else (case negotiateProtocol (ge_protocols env) (ge_capabilities env) hello of
             None \<Rightarrow> close_socket s g
           | Some ng \<Rightarrow>
               (let g1 = (case map_of (gw_nodes g) n of
                      None \<Rightarrow> g
                    | Some r \<Rightarrow> if nr_socket r \<noteq> s then close_socket (nr_socket r) (rejectConnection (nr_socket r) g) else g)
                in g1\<lparr>gw_nodes := obj_put n \<lparr>nr_hello = hello, nr_socket = s, nr_connectedAt = now, nr_lastSeenAt = now,
                       nr_access = non_null (jget hello ''access''), nr_scheduler = non_null (jget hello ''scheduler''), nr_negotiated = ng\<rparr> (gw_nodes g1),
                      gw_sockets := (gw_sockets g1)[s := (gw_sockets g1 ! s)\<lparr>ss_registered := True\<rparr>]\<rparr>)))"

definition touch_node :: "string \<Rightarrow> int \<Rightarrow> json \<Rightarrow> gateway \<Rightarrow> gateway" where
  "touch_node n now message g = (case map_of (gw_nodes g) n of
      None \<Rightarrow> g
    | Some r \<Rightarrow> g\<lparr>gw_nodes := obj_put n (if jget message ''type'' = Some (JStr ''status'')
          then r\<lparr>nr_lastSeenAt := now, nr_access := non_null (jget message ''access''), nr_scheduler := non_null (jget message ''scheduler'')\<rparr>
          else r\<lparr>nr_lastSeenAt := now\<rparr>) (gw_nodes g)\<rparr>)"

text \<open>A message of a socket; \<open>None\<close> is text that does not parse.\<close>

definition socket_message :: "gateway_env \<Rightarrow> nat \<Rightarrow> json option \<Rightarrow> int \<Rightarrow> gateway \<Rightarrow> gateway" where
  "socket_message env s message now g =
     (if length (gw_sockets g) \<le> s then g
      else (case message of
          None \<Rightarrow> close_socket s g
        | Some m \<Rightarrow>
            if \<not> is_object m then g
            else if \<not> ss_registered (gw_sockets g ! s) then accept_hello env s m now g
            else (let n = ss_node (gw_sockets g ! s)
              in if \<not> node_on_socket n s g \<or> \<not> socket_open s g \<or> n \<in> set (gw_revoked g) then g
                 else (let g1 = touch_node n now m g
                   in if jget m ''type'' = Some (JStr ''response'') then response_start m n s g1 else g1))))"

definition socket_closed :: "nat \<Rightarrow> gateway \<Rightarrow> gateway" where
  "socket_closed s g =
     (if length (gw_sockets g) \<le> s then g
      else (let g1 = close_socket s (rejectConnection s g); n = ss_node (gw_sockets g ! s)
        in if node_on_socket n s g1 then g1\<lparr>gw_nodes := obj_del n (gw_nodes g1)\<rparr> else g1))"

section \<open>Revocation\<close>

definition revoke_start :: "string \<Rightarrow> gateway \<Rightarrow> gateway" where
  "revoke_start n g = await (AskRevoke n) (ThenDrop n) (tombstone n g)"

definition revoke_drop :: "string \<Rightarrow> gw_error + store_reply \<Rightarrow> gateway \<Rightarrow> gateway" where
  "revoke_drop n reply g = (case reply of
      Inl e \<Rightarrow> g
    | Inr rep \<Rightarrow> (let g1 = (case map_of (gw_nodes g) n of None \<Rightarrow> g | Some r \<Rightarrow> drop_node n (nr_socket r) g)
        in await (AskTombstone n) ThenTombstones (g1\<lparr>gw_revoked := []\<rparr>)))"

definition revoke_tombstones :: "gw_error + store_reply \<Rightarrow> gateway \<Rightarrow> gateway" where
  "revoke_tombstones reply g = (case reply of Inr (RepliedTombstones ns) \<Rightarrow> foldl (\<lambda>g n. tombstone n g) g ns | _ \<Rightarrow> g)"

text \<open>One node of the sweep.\<close>

definition sweep_start :: "string \<Rightarrow> gateway \<Rightarrow> gateway" where
  "sweep_start n g = (case map_of (gw_nodes g) n of None \<Rightarrow> g | Some r \<Rightarrow> await (AskRevoked n) (ThenSweep n (nr_socket r)) g)"

definition sweep_finish :: "string \<Rightarrow> nat \<Rightarrow> gw_error + store_reply \<Rightarrow> gateway \<Rightarrow> gateway" where
  "sweep_finish n s reply g = (if reply = Inr (RepliedRevoked True) \<and> node_on_socket n s g then drop_node n s (tombstone n g) else g)"

definition registry_shutdown :: "gateway \<Rightarrow> gateway" where
  "registry_shutdown g =
     (let g1 = foldl (\<lambda>g (n, r). close_socket (nr_socket r) g) g (gw_nodes g)
      in g1\<lparr>gw_nodes := [], gw_pending := [], gw_outcomes := gw_outcomes g1 @ map (\<lambda>(i, p). (pe_caller p, Failed GwShutdown)) (gw_pending g1)\<rparr>)"

definition registry_initialize :: "gateway \<Rightarrow> gateway" where
  "registry_initialize g = (case loadRevokedNodes (gw_tombstones g) of None \<Rightarrow> g | Some ns \<Rightarrow> foldl (\<lambda>g n. tombstone n g) g ns)"

section \<open>Events\<close>

definition as_reply :: "('a \<Rightarrow> store_reply) \<Rightarrow> auth_error + 'a \<Rightarrow> gw_error + store_reply" where
  "as_reply f r = (case r of Inl e \<Rightarrow> Inl (GwStore e) | Inr x \<Rightarrow> Inr (f x))"

definition store_answer :: "gateway_env \<Rightarrow> int \<Rightarrow> store_ask \<Rightarrow> gateway \<Rightarrow> (gw_error + store_reply) \<times> gateway" where
  "store_answer env now ask g = (case ask of
      AskRevoked n \<Rightarrow> (case isRevoked n (gw_auth g) of (r, a) \<Rightarrow> (as_reply RepliedRevoked r, g\<lparr>gw_auth := a\<rparr>))
    | AskProof n e path \<Rightarrow> (case authenticateProof (ge_auth env) now n (ge_decode env e) path (gw_auth g) of (r, a) \<Rightarrow>
        (as_reply (\<lambda>f. RepliedAdmitted (f = None)) r, g\<lparr>gw_auth := a\<rparr>))
    | AskBearer n t \<Rightarrow> (case authenticate (ge_auth env) now n t (gw_auth g) of (r, a) \<Rightarrow> (as_reply RepliedAdmitted r, g\<lparr>gw_auth := a\<rparr>))
    | AskRevoke n \<Rightarrow> (case revoke_node now n (gw_auth g) of (r, a) \<Rightarrow> (as_reply (\<lambda>_. RepliedDone) r, g\<lparr>gw_auth := a\<rparr>))
    | AskTombstone n \<Rightarrow> (case addRevokedNode n (gw_tombstones g) of
        (None, f) \<Rightarrow> (Inl GwTombstones, g\<lparr>gw_tombstones := f\<rparr>) | (Some ns, f) \<Rightarrow> (Inr (RepliedTombstones ns), g\<lparr>gw_tombstones := f\<rparr>)))"

datatype gw_event =
    EvRequest string bool rat | EvUpgrade string string string | EvMessage nat "json option" int | EvClosed nat | EvTimeout string int | EvSendFailed string
  | EvRevoke string | EvSweep string | EvShutdown | EvStore int auth_op | EvAnswer nat int | EvResume nat string int

definition resume_call :: "nat \<Rightarrow> string \<Rightarrow> int \<Rightarrow> gw_then \<Rightarrow> gw_error + store_reply \<Rightarrow> gateway \<Rightarrow> gateway" where
  "resume_call c uuid now th reply g = (case th of
      ThenDispatch n s durable ms \<Rightarrow> request_dispatch c n s durable ms uuid now reply g
    | ThenFinish n s i response \<Rightarrow> response_finish n s i response reply g
    | ThenSweep n s \<Rightarrow> sweep_finish n s reply g
    | ThenReadmit n auth \<Rightarrow> upgrade_readmit n auth reply g
    | ThenAccept n \<Rightarrow> upgrade_accept n reply g
    | ThenDrop n \<Rightarrow> revoke_drop n reply g
    | ThenTombstones \<Rightarrow> revoke_tombstones reply g)"

text \<open>
  One event. An answer goes to a call that has none yet, a call resumes once it has its answer, and the
  identifier of a new request was never used before; other answers and resumptions do not happen.
\<close>

fun gw_exec :: "gateway_env \<Rightarrow> gw_event \<Rightarrow> gateway \<Rightarrow> gateway" where
  "gw_exec env (EvRequest n durable ms) g = request_start n durable ms g"
| "gw_exec env (EvUpgrade path header n) g = upgrade_start path header n g"
| "gw_exec env (EvMessage s m now) g = socket_message env s m now g"
| "gw_exec env (EvClosed s) g = socket_closed s g"
| "gw_exec env (EvTimeout i now) g = request_timeout i now g"
| "gw_exec env (EvSendFailed i) g = send_failed i g"
| "gw_exec env (EvRevoke n) g = revoke_start n g"
| "gw_exec env (EvSweep n) g = sweep_start n g"
| "gw_exec env EvShutdown g = registry_shutdown g"
| "gw_exec env (EvStore now op) g = g\<lparr>gw_auth := auth_exec (ge_auth env) now op (gw_auth g)\<rparr>"
| "gw_exec env (EvAnswer c now) g = (case map_of (gw_calls g) c of
      Some call \<Rightarrow> if gc_reply call = None then (case store_answer env now (gc_ask call) g of
          (r, g1) \<Rightarrow> g1\<lparr>gw_calls := map (\<lambda>(k, x). if k = c then (k, x\<lparr>gc_reply := Some r\<rparr>) else (k, x)) (gw_calls g1)\<rparr>) else g
    | None \<Rightarrow> g)"
| "gw_exec env (EvResume c uuid now) g = (case map_of (gw_calls g) c of
      Some call \<Rightarrow> (case gc_reply call of
          Some r \<Rightarrow> if uuid \<in> fst ` set (gw_sent g) then g
            else resume_call c uuid now (gc_then call) r (g\<lparr>gw_calls := filter (\<lambda>(k, x). k \<noteq> c) (gw_calls g)\<rparr>)
        | None \<Rightarrow> g)
    | None \<Rightarrow> g)"

section \<open>Reachable states\<close>

definition empty_gateway :: "auth_store \<Rightarrow> json stored \<Rightarrow> gateway" where
  "empty_gateway a f = registry_initialize \<lparr>gw_nodes = [], gw_pending = [], gw_revoked = [], gw_sockets = [], gw_calls = [], gw_next = 0, gw_auth = a,
     gw_tombstones = f, gw_asked = [], gw_sent = [], gw_outcomes = []\<rparr>"

inductive gw_reach :: "gateway_env \<Rightarrow> gateway \<Rightarrow> bool" for env where
  gw_start: "gw_reach env (empty_gateway a f)"
| gw_next: "gw_reach env g \<Longrightarrow> gw_reach env (gw_exec env ev g)"

definition node_ok :: "socket_state list \<Rightarrow> string \<Rightarrow> nat \<Rightarrow> bool" where
  "node_ok ss n s = (s < length ss \<and> ss_node (ss ! s) = n \<and> ss_registered (ss ! s))"

definition is_dispatch :: "gw_call \<Rightarrow> bool" where
  "is_dispatch x = (case gc_then x of ThenDispatch n s d ms \<Rightarrow> True | _ \<Rightarrow> False)"

definition dispatchers :: "(nat \<times> gw_call) list \<Rightarrow> nat multiset" where
  "dispatchers cs = mset (map fst (filter (\<lambda>(k, x). is_dispatch x) cs))"

fun call_ok :: "(nat \<times> string) list \<Rightarrow> (string \<times> nat \<times> string \<times> nat) list \<Rightarrow> nat \<Rightarrow> store_ask \<Rightarrow> gw_then \<Rightarrow> bool" where
  "call_ok asked sent k ask (ThenDispatch n s d ms) = ((k, n) \<in> set asked \<and> ask = AskRevoked n)"
| "call_ok asked sent k ask (ThenFinish n s i resp) = ((\<exists>c. (i, c, n, s) \<in> set sent) \<and> ask = AskRevoked n)"
| "call_ok asked sent k ask (ThenAccept n) = ((\<exists>e path. ask = AskProof n e path) \<or> (\<exists>t. ask = AskBearer n t))"
| "call_ok asked sent k ask th = True"

definition outcome_ok :: "(string \<times> nat \<times> string \<times> nat) list \<Rightarrow> nat \<Rightarrow> gw_outcome \<Rightarrow> bool" where
  "outcome_ok sent c out = (case out of Answered n s v t \<Rightarrow> (\<exists>i. (i, c, n, s) \<in> set sent) | Failed e \<Rightarrow> True)"

definition callers :: "pending_request obj \<Rightarrow> nat multiset" where
  "callers ps = mset (map (pe_caller \<circ> snd) ps)"

definition settled :: "(nat \<times> gw_outcome) list \<Rightarrow> nat multiset" where
  "settled os = mset (map fst os)"

text \<open>The callers in \<open>X\<close> are between their call to the store and their next state.\<close>

definition gw_inv :: "nat multiset \<Rightarrow> gateway \<Rightarrow> bool" where
  "gw_inv X g =
     (distinct (map fst (gw_nodes g)) \<and> (\<forall>(n, r) \<in> set (gw_nodes g). node_ok (gw_sockets g) n (nr_socket r)) \<and>
      distinct (map fst (gw_pending g)) \<and> (\<forall>(i, p) \<in> set (gw_pending g). (i, pe_caller p, pe_nodeId p, pe_socket p) \<in> set (gw_sent g)) \<and>
      length (gw_pending g) \<le> 2048 \<and>
      distinct (map fst (gw_sent g)) \<and> (\<forall>(i, c, n, s) \<in> set (gw_sent g). node_ok (gw_sockets g) n s \<and> (c, n) \<in> set (gw_asked g)) \<and>
      distinct (map fst (gw_calls g)) \<and> (\<forall>(k, x) \<in> set (gw_calls g). k < gw_next g \<and> call_ok (gw_asked g) (gw_sent g) k (gc_ask x) (gc_then x)) \<and>
      (\<forall>(c, out) \<in> set (gw_outcomes g). outcome_ok (gw_sent g) c out) \<and>
      distinct (map fst (gw_asked g)) \<and> (\<forall>(c, n) \<in> set (gw_asked g). c < gw_next g) \<and>
      mset (map fst (gw_asked g)) = X + dispatchers (gw_calls g) + callers (gw_pending g) + settled (gw_outcomes g))"

lemma callers_simps [simp]: "callers [] = {#}" "callers ((i, p) # ps) = add_mset (pe_caller p) (callers ps)" "callers (ps @ qs) = callers ps + callers qs"
  by (simp_all add: callers_def)

lemma settled_simps [simp]: "settled [] = {#}" "settled [(c, e)] = {#c#}" "settled (xs @ ys) = settled xs + settled ys"
    "settled (map (\<lambda>(i, p). (pe_caller p, e)) ps) = callers ps"
  by (simp_all add: settled_def callers_def comp_def case_prod_unfold)

lemma is_dispatch_reply [simp]: "is_dispatch (x\<lparr>gc_reply := r\<rparr>) = is_dispatch x"
  by (simp add: is_dispatch_def)

lemma dispatchers_simps [simp]: "dispatchers [] = {#}" "dispatchers (xs @ ys) = dispatchers xs + dispatchers ys"
    "dispatchers ((k, x) # xs) = (if is_dispatch x then add_mset k (dispatchers xs) else dispatchers xs)"
  by (simp_all add: dispatchers_def)

lemma callers_split: "callers ps = callers (filter (\<lambda>(i, p). pe_socket p \<noteq> s) ps) + callers (filter (\<lambda>(i, p). pe_socket p = s) ps)"
  by (induction ps) auto

lemma node_ok_close: "node_ok (ss[t := (ss ! t)\<lparr>ss_open := b\<rparr>]) n s = node_ok ss n s"
  by (cases "s = t") (auto simp: node_ok_def)

lemma node_ok_register: "node_ok ss n s \<Longrightarrow> node_ok (ss[t := (ss ! t)\<lparr>ss_registered := True\<rparr>]) n s"
  by (cases "s = t") (auto simp: node_ok_def)

lemma node_ok_append: "node_ok ss n s \<Longrightarrow> node_ok (ss @ [x]) n s"
  by (auto simp: node_ok_def nth_append)

lemma inv_close_socket [reach_keeps]: "gw_inv X g \<Longrightarrow> gw_inv X (close_socket s g)"
  by (auto simp: gw_inv_def close_socket_def node_ok_close)

lemma inv_tombstone [reach_keeps]: "gw_inv X g \<Longrightarrow> gw_inv X (tombstone n g)"
  by (auto simp: gw_inv_def tombstone_def)

lemma inv_tombstones [reach_keeps]: "gw_inv X g \<Longrightarrow> gw_inv X (foldl (\<lambda>g n. tombstone n g) g ns)"
  by (induction ns arbitrary: g) (auto intro: inv_tombstone)

lemma inv_revoked [reach_keeps]: "gw_inv X g \<Longrightarrow> gw_inv X (g\<lparr>gw_revoked := rs\<rparr>)"
  by (auto simp: gw_inv_def)

lemma inv_auth [reach_keeps]: "gw_inv X g \<Longrightarrow> gw_inv X (g\<lparr>gw_auth := a\<rparr>)" "gw_inv X g \<Longrightarrow> gw_inv X (g\<lparr>gw_tombstones := f\<rparr>)"
  by (auto simp: gw_inv_def)

lemma inv_settle: "gw_inv (add_mset c X) g \<Longrightarrow> outcome_ok (gw_sent g) c out \<Longrightarrow> gw_inv X (settle c out g)"
  by (auto simp: gw_inv_def settle_def)

lemma outcome_failed [simp]: "outcome_ok sent c (Failed e)"
  by (simp add: outcome_ok_def)

lemma inv_await:
  assumes "gw_inv X g" and "call_ok (gw_asked g) (gw_sent g) (gw_next g) ask th" and "\<And>n s d ms. th \<noteq> ThenDispatch n s d ms"
  shows "gw_inv X (await ask th g)"
  using assms by (cases th) (fastforce simp: gw_inv_def await_def is_dispatch_def less_Suc_eq)+

lemma inv_reject [reach_keeps]:
  assumes "gw_inv X g"
  shows "gw_inv X (rejectConnection s g)"
proof -
  have "length (filter P (gw_pending g)) \<le> 2048" for P
    using assms by (auto simp: gw_inv_def intro: le_trans [OF length_filter_le])
  then show ?thesis using assms callers_split [of "gw_pending g" s]
    by (auto simp: gw_inv_def rejectConnection_def distinct_map_filter)
qed

lemma inv_nodes_del [reach_keeps]: "gw_inv X g \<Longrightarrow> gw_inv X (g\<lparr>gw_nodes := obj_del n (gw_nodes g)\<rparr>)"
  using set_obj_del [of n "gw_nodes g"] by (auto simp: gw_inv_def distinct_obj_del)

lemma inv_nodes_put:
  "gw_inv X g \<Longrightarrow> node_ok (gw_sockets g) n (nr_socket r) \<Longrightarrow> gw_inv X (g\<lparr>gw_nodes := obj_put n r (gw_nodes g)\<rparr>)"
  using set_obj_put [of n r "gw_nodes g"] by (auto simp: gw_inv_def distinct_obj_put)

lemma inv_drop_node [reach_keeps]: "gw_inv X g \<Longrightarrow> gw_inv X (drop_node n s g)"
  by (simp add: drop_node_def Let_def inv_nodes_del inv_close_socket inv_reject)

lemma map_of_split: "map_of m k = Some v \<Longrightarrow> distinct (map fst m) \<Longrightarrow> \<exists>a b. m = a @ (k, v) # b \<and> filter (\<lambda>(k', v'). k' \<noteq> k) m = a @ b"
proof (induction m)
  case (Cons x m)
  obtain j w where x: "x = (j, w)" by fastforce
  show ?case
  proof (cases "j = k")
    case True
    with Cons.prems x have "k \<notin> fst ` set m" by auto
    then have "filter (\<lambda>(k', v'). k' \<noteq> k) m = m" by (force simp: filter_id_conv)
    with Cons.prems x True show ?thesis by (intro exI [of _ "[]"] exI [of _ m]) simp
  next
    case False
    with Cons x obtain a b where "m = a @ (k, v) # b" "filter (\<lambda>(k', v'). k' \<noteq> k) m = a @ b" by auto
    with x False show ?thesis by (intro exI [of _ "(j, w) # a"] exI [of _ b]) simp
  qed
qed simp

lemma inv_pending_del:
  assumes "gw_inv X g" and "map_of (gw_pending g) i = Some p"
  shows "gw_inv (add_mset (pe_caller p) X) (g\<lparr>gw_pending := obj_del i (gw_pending g)\<rparr>)"
proof -
  have "distinct (map fst (gw_pending g))" using assms(1) by (simp add: gw_inv_def)
  from map_of_split [OF assms(2) this] obtain a b where ab: "gw_pending g = a @ (i, p) # b" "obj_del i (gw_pending g) = a @ b"
    unfolding obj_del_def by blast
  with assms(1) show ?thesis by (auto simp: gw_inv_def)
qed

lemma inv_call_done:
  assumes "gw_inv X g" and "map_of (gw_calls g) c = Some x"
  shows "gw_inv (if is_dispatch x then add_mset c X else X) (g\<lparr>gw_calls := filter (\<lambda>(k, y). k \<noteq> c) (gw_calls g)\<rparr>)"
proof -
  have "distinct (map fst (gw_calls g))" using assms(1) by (simp add: gw_inv_def)
  from map_of_split [OF assms(2) this] obtain a b where ab: "gw_calls g = a @ (c, x) # b" "filter (\<lambda>(k, y). k \<noteq> c) (gw_calls g) = a @ b" by blast
  with assms(1) show ?thesis by (auto simp: gw_inv_def)
qed

lemma inv_call_answered:
  assumes "gw_inv X g"
  shows "gw_inv X (g\<lparr>gw_calls := map (\<lambda>(k, x). if k = c then (k, x\<lparr>gc_reply := r\<rparr>) else (k, x)) (gw_calls g)\<rparr>)"
proof -
  let ?f = "\<lambda>(k, x). if k = c then (k, x\<lparr>gc_reply := r\<rparr>) else (k, x)"
  have "map fst (map ?f cs) = map fst cs" for cs :: "(nat \<times> gw_call) list"
    by (induction cs) auto
  moreover have "dispatchers (map ?f cs) = dispatchers cs" for cs
  proof (induction cs)
    case (Cons y cs)
    then show ?case by (cases y) simp
  qed simp
  moreover have "\<forall>(k, x) \<in> set (map ?f (gw_calls g)). k < gw_next g \<and> call_ok (gw_asked g) (gw_sent g) k (gc_ask x) (gc_then x)"
  proof (rule ballI)
    fix y assume "y \<in> set (map ?f (gw_calls g))"
    then obtain a b where ab: "(a, b) \<in> set (gw_calls g)" "y = ?f (a, b)" by auto
    have C: "\<forall>(k, x) \<in> set (gw_calls g). k < gw_next g \<and> call_ok (gw_asked g) (gw_sent g) k (gc_ask x) (gc_then x)"
      using assms unfolding gw_inv_def by blast
    from bspec [OF C ab(1)] ab(2) show "case y of (k, x) \<Rightarrow> k < gw_next g \<and> call_ok (gw_asked g) (gw_sent g) k (gc_ask x) (gc_then x)" by (cases "a = c") simp_all
  qed
  ultimately show ?thesis using assms by (simp add: gw_inv_def del: map_map set_map)
qed

lemma await_simps [simp]:
  "gw_asked (await ask th g) = gw_asked g" "gw_sent (await ask th g) = gw_sent g" "gw_outcomes (await ask th g) = gw_outcomes g"
  by (simp_all add: await_def)

lemma requireNode_Inr: "requireNode n g = Inr r \<Longrightarrow> map_of (gw_nodes g) n = Some r"
  by (auto simp: requireNode_def split: if_splits option.splits)

lemma inv_asked:
  assumes "gw_inv X g"
  shows "gw_inv (add_mset (gw_next g) X) (g\<lparr>gw_asked := gw_asked g @ [(gw_next g, n)], gw_next := gw_next g + 1\<rparr>)"
proof -
  have "call_ok (asked @ xs) sent k ask th" if "call_ok asked sent k ask th" for asked xs sent k ask th using that by (cases th) auto
  with assms show ?thesis by (fastforce simp: gw_inv_def less_Suc_eq)
qed

lemma inv_dispatch_call:
  assumes "gw_inv (add_mset c X) g" and "(c, n) \<in> set (gw_asked g)" and "c \<notin> fst ` set (gw_calls g)"
  shows "gw_inv X (g\<lparr>gw_calls := gw_calls g @ [(c, \<lparr>gc_ask = AskRevoked n, gc_reply = None, gc_then = ThenDispatch n s d ms\<rparr>)]\<rparr>)"
  using assms by (auto simp: gw_inv_def is_dispatch_def)

lemma inv_request_start: "gw_inv X g \<Longrightarrow> gw_inv X (request_start n d t g)"
proof -
  assume g: "gw_inv X g"
  let ?g = "g\<lparr>gw_asked := gw_asked g @ [(gw_next g, n)], gw_next := gw_next g + 1\<rparr>"
  have fresh: "gw_next g \<notin> fst ` set (gw_calls g)" using g by (auto simp: gw_inv_def)
  have failed: "gw_inv X (settle (gw_next g) (Failed e) ?g)" for e by (rule inv_settle [OF inv_asked [OF g]]) simp
  have A: "gw_inv X (?g\<lparr>gw_calls := gw_calls ?g @ [(gw_next g, \<lparr>gc_ask = AskRevoked n, gc_reply = None, gc_then = ThenDispatch n s d ms\<rparr>)]\<rparr>)" for s ms
    by (rule inv_dispatch_call [OF inv_asked [OF g]]) (use fresh in simp_all)
  have "gw_inv X (g\<lparr>gw_asked := gw_asked g @ [(gw_next g, n)],
      gw_calls := gw_calls g @ [(gw_next g, \<lparr>gc_ask = AskRevoked n, gc_reply = None, gc_then = ThenDispatch n s d ms\<rparr>)], gw_next := Suc (gw_next g)\<rparr>)" for s ms
    by (rule back_subst [of "gw_inv X", OF A [of s ms]]) simp
  with failed show ?thesis by (auto simp: request_start_def Let_def await_def split: option.split sum.split)
qed

lemma inv_sent:
  assumes "gw_inv (add_mset c X) g" and "(c, n) \<in> set (gw_asked g)" and "node_ok (gw_sockets g) n s" and "i \<notin> fst ` set (gw_sent g)" and "length (gw_pending g) < 2048"
  shows "gw_inv X (g\<lparr>gw_pending := obj_put i \<lparr>pe_caller = c, pe_nodeId = n, pe_socket = s, pe_deadline = d, pe_responding = False\<rparr> (gw_pending g),
     gw_sent := gw_sent g @ [(i, c, n, s)]\<rparr>)"
proof -
  have "\<forall>(i, p) \<in> set (gw_pending g). (i, pe_caller p, pe_nodeId p, pe_socket p) \<in> set (gw_sent g)" using assms(1) unfolding gw_inv_def by blast
  with assms(4) have new: "map_of (gw_pending g) i = None" by (force simp: map_of_eq_None_iff)
  have C: "call_ok asked (sent @ xs) k ask th" if "call_ok asked sent k ask th" for asked xs sent k ask th using that by (cases th) auto
  have O: "outcome_ok (sent @ xs) k out" if "outcome_ok sent k out" for sent xs k out using that by (auto simp: outcome_ok_def split: gw_outcome.splits)
  have P: "i \<notin> fst ` set (gw_pending g)" using new by (simp add: map_of_eq_None_iff)
  note G = assms(1) [unfolded gw_inv_def]
  show ?thesis unfolding obj_put_new [OF new] gw_inv_def
  proof (intro conjI, goal_cases)
    case 9
    from G C show ?case by simp blast
  next
    case 10
    from G O show ?case by simp blast
  qed (use G P assms(2-5) in auto)
qed

lemma inv_request_dispatch:
  assumes "gw_inv (add_mset c X) g" and "(c, n) \<in> set (gw_asked g)" and "uuid \<notin> fst ` set (gw_sent g)"
  shows "gw_inv X (request_dispatch c n s d ms uuid now reply g)"
proof -
  have failed: "gw_inv X (settle c (Failed e) g)" for e by (rule inv_settle [OF assms(1)]) simp
  have "gw_inv X (g\<lparr>gw_pending := obj_put uuid \<lparr>pe_caller = c, pe_nodeId = n, pe_socket = s, pe_deadline = now + ms, pe_responding = False\<rparr> (gw_pending g),
      gw_sent := gw_sent g @ [(uuid, c, n, s)]\<rparr>)" if "requireNode n g = Inr r" "nr_socket r = s" "length (gw_pending g) < 2048" for r
  proof (rule inv_sent [OF assms(1,2) _ assms(3) that(3)])
    show "node_ok (gw_sockets g) n s"
      using map_of_SomeD [OF requireNode_Inr [OF that(1)]] assms(1) that(2) by (auto simp: gw_inv_def)
  qed
  with failed show ?thesis by (auto simp: request_dispatch_def split: sum.split)
qed

lemma inv_request_timeout [reach_keeps]: "gw_inv X g \<Longrightarrow> gw_inv X (request_timeout i now g)"
  by (auto simp: request_timeout_def intro!: inv_settle inv_pending_del split: option.split)

lemma inv_send_failed [reach_keeps]: "gw_inv X g \<Longrightarrow> gw_inv X (send_failed i g)"
  by (auto simp: send_failed_def intro!: inv_settle inv_pending_del split: option.split)

lemma put_absent: "k \<notin> fst ` set m \<Longrightarrow> map (\<lambda>(k', v'). if k' = k then (k', v) else (k', v')) m = m"
  by (induction m) auto

lemma callers_put: "map_of ps i = Some p \<Longrightarrow> distinct (map fst ps) \<Longrightarrow> pe_caller q = pe_caller p \<Longrightarrow> callers (obj_put i q ps) = callers ps"
proof -
  assume a: "map_of ps i = Some p" "distinct (map fst ps)" "pe_caller q = pe_caller p"
  from map_of_split [OF a(1,2)] obtain xs ys where ps: "ps = xs @ (i, p) # ys" by blast
  with a(2) have "i \<notin> fst ` set xs" "i \<notin> fst ` set ys" by auto
  then have "obj_put i q ps = xs @ (i, q) # ys" unfolding ps by (auto simp: obj_put_def put_absent)
  with ps a(3) show ?thesis by simp
qed

lemma inv_response_start: "gw_inv X g \<Longrightarrow> gw_inv X (response_start m n s g)"
proof -
  assume g: "gw_inv X g"
  have "gw_inv X (await (AskRevoked n) (ThenFinish n s i m) (g\<lparr>gw_pending := obj_put i (p\<lparr>pe_responding := True\<rparr>) (gw_pending g)\<rparr>))"
    if p: "map_of (gw_pending g) i = Some p" "pe_nodeId p = n" "pe_socket p = s" for i p
  proof (rule inv_await)
    have i: "(i, pe_caller p, n, s) \<in> set (gw_sent g)" using g map_of_SomeD [OF p(1)] p(2,3) by (auto simp: gw_inv_def)
    have "i \<in> fst ` set (gw_pending g)" using map_of_SomeD [OF p(1)] by force
    then have "map fst (obj_put i (p\<lparr>pe_responding := True\<rparr>) (gw_pending g)) = map fst (gw_pending g)" by (simp add: keys_obj_put)
    then have len: "length (obj_put i (p\<lparr>pe_responding := True\<rparr>) (gw_pending g)) = length (gw_pending g)" by (metis length_map)
    show "gw_inv X (g\<lparr>gw_pending := obj_put i (p\<lparr>pe_responding := True\<rparr>) (gw_pending g)\<rparr>)"
      using g p i len callers_put [OF p(1)] set_obj_put [of i "p\<lparr>pe_responding := True\<rparr>" "gw_pending g"] by (auto simp: gw_inv_def distinct_obj_put)
    show "call_ok (gw_asked (g\<lparr>gw_pending := obj_put i (p\<lparr>pe_responding := True\<rparr>) (gw_pending g)\<rparr>))
        (gw_sent (g\<lparr>gw_pending := obj_put i (p\<lparr>pe_responding := True\<rparr>) (gw_pending g)\<rparr>))
        (gw_next (g\<lparr>gw_pending := obj_put i (p\<lparr>pe_responding := True\<rparr>) (gw_pending g)\<rparr>)) (AskRevoked n) (ThenFinish n s i m)"
      using i by auto
  qed simp
  with g show ?thesis by (auto simp: response_start_def split: option.split json.split)
qed

lemma response_outcome_ok: "(i, c, n, s) \<in> set sent \<Longrightarrow> outcome_ok sent c (response_outcome n s m)"
  by (auto simp: outcome_ok_def response_outcome_def)

lemma inv_response_finish:
  assumes "gw_inv X g" and "(i, c, n, s) \<in> set (gw_sent g)"
  shows "gw_inv X (response_finish n s i m reply g)"
proof -
  have "gw_inv X (settle (pe_caller p) (response_outcome n s m) (g\<lparr>gw_pending := obj_del i (gw_pending g)\<rparr>))" if p: "map_of (gw_pending g) i = Some p" for p
  proof (rule inv_settle [OF inv_pending_del [OF assms(1) p]])
    have "(i, pe_caller p, pe_nodeId p, pe_socket p) \<in> set (gw_sent g)" using assms(1) map_of_SomeD [OF p] by (auto simp: gw_inv_def)
    moreover have "distinct (map fst (gw_sent g))" using assms(1) by (simp add: gw_inv_def)
    ultimately have "pe_caller p = c" using assms(2) by (auto dest: eq_key_imp_eq_value)
    with assms(2) show "outcome_ok (gw_sent (g\<lparr>gw_pending := obj_del i (gw_pending g)\<rparr>)) (pe_caller p) (response_outcome n s m)"
      by (simp add: response_outcome_ok)
  qed
  with assms(1) show ?thesis by (auto simp: response_finish_def intro: inv_close_socket inv_reject split: sum.split option.split)
qed

lemma inv_ask_credentials: "gw_inv X g \<Longrightarrow> gw_inv X (ask_credentials n auth g)"
  by (auto simp: ask_credentials_def intro!: inv_await split: node_authorization.split)

lemma inv_upgrade_start: "gw_inv X g \<Longrightarrow> gw_inv X (upgrade_start path h n g)"
  by (auto simp: upgrade_start_def intro!: inv_await inv_ask_credentials)

lemma inv_upgrade_readmit: "gw_inv X g \<Longrightarrow> gw_inv X (upgrade_readmit n auth reply g)"
  by (simp add: upgrade_readmit_def inv_ask_credentials inv_revoked)

lemma inv_upgrade_accept: "gw_inv X g \<Longrightarrow> gw_inv X (upgrade_accept n reply g)"
  by (auto simp: upgrade_accept_def gw_inv_def intro: node_ok_append)

lemma inv_accept_hello:
  assumes "gw_inv X g" and "s < length (gw_sockets g)"
  shows "gw_inv X (accept_hello env s m now g)"
proof -
  define n where "n = ss_node (gw_sockets g ! s)"
  define g1 where "g1 = (case map_of (gw_nodes g) n of None \<Rightarrow> g
    | Some r \<Rightarrow> if nr_socket r \<noteq> s then close_socket (nr_socket r) (rejectConnection (nr_socket r) g) else g)"
  have len: "length (gw_sockets g1) = length (gw_sockets g)" "ss_node (gw_sockets g1 ! s) = n"
    by (auto simp: g1_def n_def close_socket_def rejectConnection_def nth_list_update split: option.split)
  have "gw_inv X g1" using assms(1) by (auto simp: g1_def intro: inv_close_socket inv_reject split: option.split)
  then have "gw_inv X (g1\<lparr>gw_sockets := (gw_sockets g1)[s := (gw_sockets g1 ! s)\<lparr>ss_registered := True\<rparr>]\<rparr>)"
    by (auto simp: gw_inv_def intro: node_ok_register)
  note put = inv_nodes_put [OF this]
  have "gw_inv X (g1\<lparr>gw_nodes := obj_put n r (gw_nodes g1), gw_sockets := (gw_sockets g1)[s := (gw_sockets g1 ! s)\<lparr>ss_registered := True\<rparr>]\<rparr>)"
    if "nr_socket r = s" for r
    by (rule back_subst [of "gw_inv X", OF put [of n r]]) (use len assms(2) that in \<open>simp_all add: node_ok_def\<close>)
  then show ?thesis using assms(1)
    by (auto simp: accept_hello_def Let_def n_def [symmetric] g1_def [symmetric] intro: inv_close_socket split: option.split)
qed

lemma inv_touch_node: "gw_inv X g \<Longrightarrow> gw_inv X (touch_node n now m g)"
proof -
  assume g: "gw_inv X g"
  have "node_ok (gw_sockets g) n (nr_socket r)" if "map_of (gw_nodes g) n = Some r" for r
    using g map_of_SomeD [OF that] by (auto simp: gw_inv_def)
  with g show ?thesis by (auto simp: touch_node_def intro!: inv_nodes_put split: option.split)
qed

lemma inv_socket_message: "gw_inv X g \<Longrightarrow> gw_inv X (socket_message env s m now g)"
  by (auto simp: socket_message_def Let_def intro!: inv_close_socket inv_accept_hello inv_touch_node inv_response_start split: option.split)

lemma inv_socket_closed: "gw_inv X g \<Longrightarrow> gw_inv X (socket_closed s g)"
  by (simp add: socket_closed_def Let_def inv_nodes_del inv_close_socket inv_reject)

lemma inv_revocation:
  assumes "gw_inv X g"
  shows "gw_inv X (revoke_start n g)" "gw_inv X (revoke_drop n reply g)" "gw_inv X (revoke_tombstones reply g)" "gw_inv X (sweep_start n g)" "gw_inv X (sweep_finish n s reply g)"
  using assms by (auto simp: revoke_start_def revoke_drop_def revoke_tombstones_def sweep_start_def sweep_finish_def Let_def
      intro!: inv_await inv_tombstone inv_tombstones inv_drop_node inv_revoked split: sum.split option.split store_reply.split)

lemma inv_closes: "gw_inv X g \<Longrightarrow> gw_inv X (foldl (\<lambda>g (n, r). close_socket (nr_socket r) g) g ns)"
  by (induction ns arbitrary: g) (auto intro: inv_close_socket)

lemma closes_pending: "gw_pending (foldl (\<lambda>g (n, r). close_socket (nr_socket r) g) g ns) = gw_pending g"
  by (induction ns arbitrary: g) (auto simp: close_socket_def)

lemma inv_shutdown: "gw_inv X g \<Longrightarrow> gw_inv X (registry_shutdown g)"
proof -
  assume "gw_inv X g"
  then have "gw_inv X (foldl (\<lambda>g (n, r). close_socket (nr_socket r) g) g (gw_nodes g))" by (rule inv_closes)
  then show ?thesis by (auto simp: registry_shutdown_def Let_def gw_inv_def)
qed

lemma inv_store_answer: "store_answer env now ask g = (r, g1) \<Longrightarrow> gw_inv X g \<Longrightarrow> gw_inv X g1"
  by (auto simp: store_answer_def intro: inv_auth split: store_ask.splits prod.splits option.splits)

lemma inv_resume:
  assumes "gw_inv X g" and "map_of (gw_calls g) c = Some x" and "uuid \<notin> fst ` set (gw_sent g)"
  shows "gw_inv X (resume_call c uuid now (gc_then x) reply (g\<lparr>gw_calls := filter (\<lambda>(k, y). k \<noteq> c) (gw_calls g)\<rparr>))"
proof -
  have ok: "call_ok (gw_asked g) (gw_sent g) c (gc_ask x) (gc_then x)" using assms(1) map_of_SomeD [OF assms(2)] by (auto simp: gw_inv_def)
  note d = inv_call_done [OF assms(1,2)]
  show ?thesis
  proof (cases "gc_then x")
    case (ThenDispatch n s d ms)
    with ok d assms(3) show ?thesis by (auto simp: resume_call_def is_dispatch_def intro!: inv_request_dispatch)
  next
    case (ThenFinish n s i m)
    with ok obtain k where "(i, k, n, s) \<in> set (gw_sent g)" by auto
    with d ThenFinish show ?thesis by (auto simp: resume_call_def is_dispatch_def intro!: inv_response_finish)
  qed (use d in \<open>auto simp: resume_call_def is_dispatch_def intro!: inv_revocation inv_upgrade_readmit inv_upgrade_accept\<close>)
qed

lemma gw_exec_inv: "gw_inv X g \<Longrightarrow> gw_inv X (gw_exec env ev g)"
proof (cases ev)
  case (EvAnswer c now)
  assume "gw_inv X g"
  with EvAnswer show ?thesis by (auto simp: inv_store_answer inv_call_answered split: option.split prod.split)
next
  case (EvResume c uuid now)
  assume "gw_inv X g"
  with EvResume show ?thesis by (auto simp: inv_resume split: option.split)
qed (auto simp: inv_request_start inv_upgrade_start inv_socket_message inv_socket_closed inv_request_timeout inv_send_failed inv_revocation inv_shutdown inv_auth)

lemma gw_reach_inv: "gw_reach env g \<Longrightarrow> gw_inv {#} g"
proof (induction rule: gw_reach.induct)
  case (gw_start a f)
  show ?case by (auto simp: empty_gateway_def registry_initialize_def intro!: inv_tombstones split: option.split) (simp_all add: gw_inv_def)
qed (rule gw_exec_inv)


text \<open>
  C27: No request is lost and none is answered twice: in every reachable state the callers of the registry are
  exactly those that still wait for the credential store, those that are pending on a socket and those whose
  promise was settled, each caller counted once; and at most 2048 requests are pending.
\<close>

theorem every_caller_accounted_for:
  assumes "gw_reach env g"
  shows "distinct (map fst (gw_asked g)) \<and> mset (map fst (gw_asked g)) = dispatchers (gw_calls g) + callers (gw_pending g) + settled (gw_outcomes g) \<and>
    length (gw_pending g) \<le> 2048"
  using gw_reach_inv [OF assms] by (simp add: gw_inv_def)

section \<open>Revocation stops work\<close>

text \<open>A call that was already told that the node may go on.\<close>

definition admitted_call :: "string \<Rightarrow> gw_call \<Rightarrow> bool" where
  "admitted_call n x = (case gc_then x of
      ThenDispatch m s d ms \<Rightarrow> m = n \<and> gc_reply x = Some (Inr (RepliedRevoked False))
    | ThenFinish m s i resp \<Rightarrow> m = n \<and> gc_reply x = Some (Inr (RepliedRevoked False))
    | ThenAccept m \<Rightarrow> m = n \<and> gc_reply x = Some (Inr (RepliedAdmitted True))
    | _ \<Rightarrow> False)"

fun answered_by :: "string \<Rightarrow> gw_outcome \<Rightarrow> bool" where
  "answered_by n (Answered m s v t) = (m = n)"
| "answered_by n (Failed e) = False"

text \<open>The frames sent to a node, the answers taken from it and the connections it has.\<close>

definition work_of :: "string \<Rightarrow> gateway \<Rightarrow> (string \<times> nat \<times> string \<times> nat) list \<times> (nat \<times> gw_outcome) list \<times> string list" where
  "work_of n g = (filter (\<lambda>(i, c, m, s). m = n) (gw_sent g), filter (\<lambda>(c, out). answered_by n out) (gw_outcomes g), filter (\<lambda>m. m = n) (map ss_node (gw_sockets g)))"

definition shut_out :: "string \<Rightarrow> gateway \<Rightarrow> bool" where
  "shut_out n g = (locked_out n (gw_auth g) \<and> (\<forall>(k, x) \<in> set (gw_calls g). \<not> admitted_call n x))"

fun gw_readmits :: "string \<Rightarrow> gw_event \<Rightarrow> bool" where
  "gw_readmits n (EvStore now op) = readmits n op"
| "gw_readmits n ev = False"

fun gw_run :: "gateway_env \<Rightarrow> gw_event list \<Rightarrow> gateway \<Rightarrow> gateway" where
  "gw_run env [] g = g"
| "gw_run env (ev # evs) g = gw_run env evs (gw_exec env ev g)"

definition stays_out :: "string \<Rightarrow> gateway \<Rightarrow> gateway \<Rightarrow> bool" where
  "stays_out n g g' = ((shut_out n g \<longrightarrow> shut_out n g') \<and> work_of n g' = work_of n g)"

lemma stays_refl [simp]: "stays_out n g g"
  by (simp add: stays_out_def)

lemma stays_trans: "stays_out n g g1 \<Longrightarrow> stays_out n g1 g2 \<Longrightarrow> stays_out n g g2"
  by (simp add: stays_out_def)

lemma stays_fields [simp]:
  "stays_out n g (g1\<lparr>gw_revoked := rs\<rparr>) = stays_out n g g1" "stays_out n g (g1\<lparr>gw_nodes := ns\<rparr>) = stays_out n g g1"
  "stays_out n g (g1\<lparr>gw_pending := ps\<rparr>) = stays_out n g g1" "stays_out n g (g1\<lparr>gw_tombstones := f\<rparr>) = stays_out n g g1"
  "stays_out n g (g1\<lparr>gw_asked := qs\<rparr>) = stays_out n g g1" "stays_out n g (g1\<lparr>gw_next := k\<rparr>) = stays_out n g g1"
  by (simp_all add: stays_out_def shut_out_def work_of_def)

lemma map_same_update: "f y = f (xs ! s) \<Longrightarrow> map f (xs[s := y]) = map f xs"
proof (rule nth_equalityI)
  fix i assume "f y = f (xs ! s)" "i < length (map f (xs[s := y]))"
  then show "map f (xs[s := y]) ! i = map f xs ! i" by (cases "i = s") simp_all
qed simp

lemma stays_close [simp]: "stays_out n g (close_socket s g1) = stays_out n g g1"
proof -
  have "map ss_node ((gw_sockets g1)[s := (gw_sockets g1 ! s)\<lparr>ss_open := b\<rparr>]) = map ss_node (gw_sockets g1)" for b
    by (rule map_same_update) simp
  then show ?thesis by (simp add: stays_out_def shut_out_def work_of_def close_socket_def)
qed

lemma stays_register [simp]: "stays_out n g (g1\<lparr>gw_sockets := (gw_sockets g1)[s := (gw_sockets g1 ! s)\<lparr>ss_registered := True\<rparr>]\<rparr>) = stays_out n g g1"
proof -
  have "map ss_node ((gw_sockets g1)[s := (gw_sockets g1 ! s)\<lparr>ss_registered := True\<rparr>]) = map ss_node (gw_sockets g1)"
    by (rule map_same_update) simp
  then show ?thesis by (simp add: stays_out_def shut_out_def work_of_def)
qed

lemma stays_settle [simp]: "\<not> answered_by n out \<Longrightarrow> stays_out n g (settle c out g1) = stays_out n g g1"
  by (simp add: stays_out_def shut_out_def work_of_def settle_def)

lemma stays_reject [simp]: "stays_out n g (rejectConnection s g1) = stays_out n g g1"
proof -
  have "filter (\<lambda>(c, out). answered_by n out) (map (\<lambda>(i, p). (pe_caller p, Failed GwUncertain)) ps) = []" for ps :: "pending_request obj"
    by (induction ps) auto
  then show ?thesis by (simp add: stays_out_def shut_out_def work_of_def rejectConnection_def)
qed

lemma stays_await [simp]: "stays_out n g (await ask th g1) = stays_out n g g1"
  by (auto simp: stays_out_def shut_out_def work_of_def await_def admitted_call_def split: gw_then.splits)

lemma stays_tombstone [simp]: "stays_out n g (tombstone m g1) = stays_out n g g1"
  by (simp add: tombstone_def)

lemma stays_tombstones [simp]: "stays_out n g (foldl (\<lambda>g m. tombstone m g) g1 ms) = stays_out n g g1"
  by (induction ms arbitrary: g1) simp_all

lemma stays_drop_node [simp]: "stays_out n g (drop_node m s g1) = stays_out n g g1"
  by (simp add: drop_node_def Let_def)

lemma stays_closes [simp]: "stays_out n g (foldl (\<lambda>g (m, r). close_socket (nr_socket r) g) g1 ms) = stays_out n g g1"
proof (induction ms arbitrary: g1)
  case (Cons y ms)
  then show ?case by (cases y) (simp only: foldl_Cons prod.case stays_close)
qed simp

lemma stays_shutdown: "stays_out n g (registry_shutdown g)"
proof -
  let ?g = "foldl (\<lambda>g (m, r). close_socket (nr_socket r) g) g (gw_nodes g)"
  have "stays_out n g ?g" by simp
  moreover have "filter (\<lambda>(c, out). answered_by n out) (map (\<lambda>(i, p). (pe_caller p, Failed GwShutdown)) ps) = []" for ps :: "pending_request obj"
    by (induction ps) auto
  ultimately show ?thesis by (simp add: registry_shutdown_def Let_def stays_out_def shut_out_def work_of_def)
qed

lemma stays_handlers:
  "stays_out n g (request_start m d t g)" "stays_out n g (request_timeout i now g)" "stays_out n g (send_failed i g)" "stays_out n g (response_start v m s g)"
  "stays_out n g (upgrade_start path h m g)" "stays_out n g (upgrade_readmit m auth reply g)" "stays_out n g (socket_closed s g)"
  "stays_out n g (revoke_start m g)" "stays_out n g (revoke_drop m reply g)" "stays_out n g (revoke_tombstones reply g)" "stays_out n g (sweep_start m g)" "stays_out n g (sweep_finish m s reply g)"
  by (auto simp: request_start_def request_timeout_def send_failed_def response_start_def upgrade_start_def ask_credentials_def upgrade_readmit_def socket_closed_def
      revoke_start_def revoke_drop_def revoke_tombstones_def sweep_start_def sweep_finish_def Let_def
      split: option.split sum.split json.split node_authorization.split store_reply.split)

lemma stays_accept_hello: "stays_out n g (accept_hello env s m now g)"
proof -
  have "stays_out n g (g1\<lparr>gw_nodes := ns, gw_sockets := (gw_sockets g1)[s := (gw_sockets g1 ! s)\<lparr>ss_registered := True\<rparr>]\<rparr>)" if "stays_out n g g1" for g1 ns
    by (rule back_subst [of "stays_out n g", where a = "g1\<lparr>gw_sockets := (gw_sockets g1)[s := (gw_sockets g1 ! s)\<lparr>ss_registered := True\<rparr>]\<rparr>\<lparr>gw_nodes := ns\<rparr>"])
      (use that in simp_all)
  then show ?thesis by (auto simp: accept_hello_def Let_def split: option.split)
qed

lemma stays_message: "stays_out n g (socket_message env s m now g)"
proof -
  have "stays_out n g (touch_node k now v g)" for k v by (auto simp: touch_node_def split: option.split)
  then have "stays_out n g (response_start v k s (touch_node k now v g))" for k v by (rule stays_trans) (rule stays_handlers)
  with \<open>\<And>k v. stays_out n g (touch_node k now v g)\<close> show ?thesis
    by (auto simp: socket_message_def Let_def stays_accept_hello split: option.split)
qed

lemma locked_out_exec: "locked_out n a \<Longrightarrow> \<not> readmits n op \<Longrightarrow> a' = auth_exec env now op a \<Longrightarrow> locked_out n a'"
  by (simp add: auth_exec_locked)

lemma locked_out_calls:
  assumes "locked_out n a"
  shows "isRevoked m a = (r1, a1) \<Longrightarrow> locked_out n a1" "authenticateProof env now m e path a = (r2, a2) \<Longrightarrow> locked_out n a2"
    "authenticate env now m t a = (r3, a3) \<Longrightarrow> locked_out n a3" "revoke_node now m a = (r4, a4) \<Longrightarrow> locked_out n a4"
  using locked_out_exec [OF assms, of "OpIsRevoked m" _ env now] locked_out_exec [OF assms, of "OpProof m e path" _ env now]
    locked_out_exec [OF assms, of "OpAuthenticate m t" _ env now] locked_out_exec [OF assms, of "OpRevoke m" _ env now] by simp_all

lemma as_reply_simps: "as_reply f (Inl e) = Inl (GwStore e)" "as_reply f (Inr x) = Inr (f x)"
  by (simp_all add: as_reply_def)

text \<open>The store never tells a call about a locked node to go on.\<close>

lemma store_answer_locked:
  assumes "store_answer env now ask g = (r, g1)" and "locked_out n (gw_auth g)" and "call_ok asked sent k ask th"
  shows "locked_out n (gw_auth g1) \<and> \<not> admitted_call n \<lparr>gc_ask = ask, gc_reply = Some r, gc_then = th\<rparr> \<and>
    gw_calls g1 = gw_calls g \<and> work_of n g1 = work_of n g"
proof -
  have w: "work_of n (g\<lparr>gw_auth := a\<rparr>) = work_of n g" "work_of n (g\<lparr>gw_tombstones := f\<rparr>) = work_of n g" for a f by (simp_all add: work_of_def)
  have "locked_out n (gw_auth g1) \<and> gw_calls g1 = gw_calls g \<and> work_of n g1 = work_of n g"
    using assms(1) w locked_out_calls [OF assms(2)] assms(2)
    by (auto simp: store_answer_def split: store_ask.splits prod.splits option.splits)
  moreover have "r = Inr (RepliedRevoked True)" if "ask = AskRevoked n"
    using assms(1) locked_out_refused(3) [OF assms(2)] that by (auto simp: store_answer_def as_reply_def split: prod.splits sum.splits)
  moreover have "r \<noteq> Inr (RepliedAdmitted True)" if "ask = AskBearer n t" for t
    using assms(1) locked_out_refused(1) [OF assms(2), of "ge_auth env" now t] that by (auto simp: store_answer_def as_reply_def split: prod.splits sum.splits)
  moreover have "r \<noteq> Inr (RepliedAdmitted True)" if "ask = AskProof n e path" for e path
    using assms(1) locked_out_refused(2) [OF assms(2), of "ge_auth env" now "ge_decode env e" path] that
    by (auto simp: store_answer_def as_reply_def split: prod.splits sum.splits)
  ultimately show ?thesis using assms(3) by (cases th) (auto simp: admitted_call_def)
qed

lemma stays_answer:
  assumes "gw_inv X g" and "shut_out n g" and "map_of (gw_calls g) c = Some x" and "store_answer env now (gc_ask x) g = (r, g1)"
  shows "stays_out n g (g1\<lparr>gw_calls := map (\<lambda>(k, y). if k = c then (k, y\<lparr>gc_reply := Some r\<rparr>) else (k, y)) (gw_calls g1)\<rparr>)"
proof -
  have calls: "\<forall>(k, x) \<in> set (gw_calls g). k < gw_next g \<and> call_ok (gw_asked g) (gw_sent g) k (gc_ask x) (gc_then x)" "distinct (map fst (gw_calls g))"
    using assms(1) unfolding gw_inv_def by blast+
  have "(c, x) \<in> set (gw_calls g)" by (rule map_of_SomeD [OF assms(3)])
  with calls(1) have "call_ok (gw_asked g) (gw_sent g) c (gc_ask x) (gc_then x)" by blast
  moreover have "admitted_call n (x\<lparr>gc_reply := Some r\<rparr>) = admitted_call n \<lparr>gc_ask = gc_ask x, gc_reply = Some r, gc_then = gc_then x\<rparr>"
    by (simp add: admitted_call_def split: gw_then.split)
  moreover have "locked_out n (gw_auth g)" using assms(2) by (simp add: shut_out_def)
  ultimately have S: "locked_out n (gw_auth g1)" "\<not> admitted_call n (x\<lparr>gc_reply := Some r\<rparr>)" "gw_calls g1 = gw_calls g" "work_of n g1 = work_of n g"
    using store_answer_locked [OF assms(4)] by blast+
  have none: "\<not> admitted_call n y'" if "(k, y') \<in> set (map (\<lambda>(k, y). if k = c then (k, y\<lparr>gc_reply := Some r\<rparr>) else (k, y)) (gw_calls g))" for k y'
  proof -
    from that obtain y where y: "(k, y) \<in> set (gw_calls g)" "y' = (if k = c then y\<lparr>gc_reply := Some r\<rparr> else y)" by (auto split: if_splits)
    show ?thesis
    proof (cases "k = c")
      case True
      with y(1) \<open>(c, x) \<in> set (gw_calls g)\<close> calls(2) have "y = x" by (auto dest: eq_key_imp_eq_value)
      with y True S(2) show ?thesis by simp
    qed (use y assms(2) in \<open>auto simp: shut_out_def\<close>)
  qed
  have "\<forall>(k, y') \<in> set (map (\<lambda>(k, y). if k = c then (k, y\<lparr>gc_reply := Some r\<rparr>) else (k, y)) (gw_calls g)). \<not> admitted_call n y'"
    using none by (intro ballI) (metis (mono_tags, lifting) case_prod_beta prod.collapse)
  with S(1,3,4) show ?thesis by (simp add: stays_out_def shut_out_def work_of_def del: set_map)
qed

lemma stays_resume:
  assumes "shut_out n g" and "map_of (gw_calls g) c = Some x" and "gc_reply x = Some r"
  shows "stays_out n g (resume_call c uuid now (gc_then x) r (g\<lparr>gw_calls := filter (\<lambda>(k, y). k \<noteq> c) (gw_calls g)\<rparr>))"
proof -
  let ?g = "g\<lparr>gw_calls := filter (\<lambda>(k, y). k \<noteq> c) (gw_calls g)\<rparr>"
  have d: "stays_out n g ?g" by (auto simp: stays_out_def shut_out_def work_of_def)
  have x: "\<not> admitted_call n x" using assms(1) map_of_SomeD [OF assms(2)] by (auto simp: shut_out_def)
  have "stays_out n ?g (resume_call c uuid now (gc_then x) r ?g)"
  proof (cases "gc_then x")
    case (ThenDispatch m s d ms)
    have "stays_out n g' (g'\<lparr>gw_sent := gw_sent g' @ [(uuid, c, m, s)]\<rparr>)" if "m \<noteq> n" for g'
      using that by (simp add: stays_out_def shut_out_def work_of_def)
    from this [of "?g\<lparr>gw_pending := ps\<rparr>" for ps] ThenDispatch x assms(3) show ?thesis
      by (auto simp: resume_call_def request_dispatch_def admitted_call_def split: sum.split) (auto simp: stays_out_def shut_out_def work_of_def)
  next
    case (ThenFinish m s i v)
    with x assms(3) show ?thesis
      by (auto simp: resume_call_def response_finish_def admitted_call_def response_outcome_def split: sum.split option.split)
  next
    case (ThenAccept m)
    with x assms(3) show ?thesis
      by (auto simp: resume_call_def upgrade_accept_def admitted_call_def stays_out_def shut_out_def work_of_def)
  qed (simp_all add: resume_call_def stays_handlers)
  with d show ?thesis by (rule stays_trans)
qed

lemma stays_exec:
  assumes "gw_inv X g" and "shut_out n g" and "\<not> gw_readmits n ev"
  shows "stays_out n g (gw_exec env ev g)"
proof (cases ev)
  case (EvStore now op)
  with assms(2,3) show ?thesis by (auto simp: stays_out_def shut_out_def work_of_def auth_exec_locked)
next
  case (EvAnswer c now)
  with stays_answer [OF assms(1,2)] show ?thesis by (auto split: option.split prod.split)
next
  case (EvResume c uuid now)
  with stays_resume [OF assms(2)] show ?thesis by (auto split: option.split)
qed (simp_all add: stays_handlers stays_message stays_shutdown)

lemma gw_run_reach: "gw_reach env g \<Longrightarrow> gw_reach env (gw_run env evs g)"
  by (induction env evs g rule: gw_run.induct) (auto intro: gw_next)

lemma stays_run: "gw_inv X g \<Longrightarrow> shut_out n g \<Longrightarrow> \<forall>ev \<in> set evs. \<not> gw_readmits n ev \<Longrightarrow> stays_out n g (gw_run env evs g)"
proof (induction env evs g rule: gw_run.induct)
  case (2 env ev evs g)
  then have s: "stays_out n g (gw_exec env ev g)" by (intro stays_exec) auto
  with 2 have "stays_out n (gw_exec env ev g) (gw_run env evs (gw_exec env ev g))" by (auto intro: gw_exec_inv simp: stays_out_def)
  with s show ?case by (auto intro: stays_trans)
qed simp

text \<open>
  C28: Revocation stops work. Once the credential store holds a node as revoked and no call was already told to
  go on, then, whatever happens next on the gateway's sockets, timers and store (also revocations made by
  another process, and while the gateway's own list of revoked nodes is cleared and rebuilt), no frame is
  written to that node, no answer is taken from it and no connection of it is accepted, unless the owner
  enrols or forgets it.
\<close>

theorem revoked_node_gets_no_work:
  assumes "gw_reach env g" and "locked_out n (gw_auth g)" and "\<forall>(k, x) \<in> set (gw_calls g). \<not> admitted_call n x"
    and "\<forall>ev \<in> set evs. \<not> gw_readmits n ev"
  shows "work_of n (gw_run env evs g) = work_of n g"
  using stays_run [OF gw_reach_inv [OF assms(1)] _ assms(4), of env] assms(2,3) by (auto simp: shut_out_def stays_out_def)

section \<open>Both ends agree on the protocol\<close>

lemma json_texts_map [simp]: "json_texts (map JStr xs) = xs"
  by (induction xs) simp_all

definition protocol_capabilities :: "string list" where
  "protocol_capabilities = [REACH_DURABLE_TASK_CAPABILITY, ''task_event_stream'', ''task_reconciliation'', ''two_phase_plan'']"

text \<open>
  Both ends of a connection agree: whatever a node offers, if the gateway negotiates a protocol from the offer,
  the waiting node accepts the acknowledgement the gateway sends and ends with the same version and the same
  capabilities, none of which it did not offer; a second acknowledgement is refused.
\<close>

theorem negotiation_agrees:
  assumes "negotiateProtocol gp gc hello = Some g" and "set gc \<subseteq> set protocol_capabilities"
  shows "fst (acknowledge (hello_ack g) (new_negotiation hello)) = Some g \<and>
    nn_negotiated (snd (acknowledge (hello_ack g) (new_negotiation hello))) = g \<and>
    (\<forall>c \<in> set (ng_capabilities g). offers hello c) \<and>
    fst (acknowledge ack (snd (acknowledge (hello_ack g) (new_negotiation hello)))) = None"
proof -
  from assms(1) obtain vs v where vs: "advertisedProtocols hello = Some vs" "List.find (\<lambda>v. v \<in> set vs) gp = Some v"
    and g: "g = \<lparr>ng_version = v, ng_capabilities = rev (remdups (rev (filter (\<lambda>c. v = REACH_PROTOCOL_V2 \<and> offers hello c) gc)))\<rparr>"
    by (auto simp: negotiateProtocol_def split: option.splits)
  have v: "v \<in> set vs" using find_SomeD [OF vs(2)] by simp
  have caps: "set (ng_capabilities g) \<subseteq> set gc" "\<forall>c \<in> set (ng_capabilities g). offers hello c" "distinct (ng_capabilities g)"
    "ng_capabilities g \<noteq> [] \<Longrightarrow> v = REACH_PROTOCOL_V2" by (auto simp: g filter_empty_conv)
  have "card (set (ng_capabilities g)) \<le> card (set protocol_capabilities)" using caps(1) assms(2) by (intro card_mono) auto
  also have "\<dots> \<le> length protocol_capabilities" by (rule card_length)
  finally have four: "length (ng_capabilities g) \<le> 4" using caps(3) by (simp add: distinct_card protocol_capabilities_def)
  have "distinct (map JStr (ng_capabilities g))" using caps(3) by (simp add: distinct_map inj_on_def)
  then have dist: "length (remdups (map JStr (ng_capabilities g))) = length (map JStr (ng_capabilities g))" by (simp add: distinct_remdups_id)
  have offered: "\<not> list_ex (\<lambda>c. case c of JStr s \<Rightarrow> \<not> offers hello s | _ \<Rightarrow> True) (map JStr (ng_capabilities g))"
    using caps(2) by (simp add: list_ex_iff)
  have version: "ng_version g = v" by (simp add: g)
  have versions: "REACH_PROTOCOL_V2 \<noteq> REACH_PROTOCOL_V1" by (simp add: REACH_PROTOCOL_V1_def REACH_PROTOCOL_V2_def)
  have plain: "v = REACH_PROTOCOL_V1 \<Longrightarrow> ng_capabilities g = []" using caps(4) versions by auto
  have members: "jget (hello_ack g) ''type'' = Some (JStr ''hello_ack'')" "jget (hello_ack g) ''protocolVersion'' = Some (JStr v)"
    "jget (hello_ack g) ''capabilities'' = Some (JArr (map JStr (ng_capabilities g)))" by (simp_all add: hello_ack_def version)
  have same_g: "\<lparr>ng_version = v, ng_capabilities = ng_capabilities g\<rparr> = g" using version by simp
  have ack: "acknowledge (hello_ack g) (new_negotiation hello) = (Some g, (new_negotiation hello)\<lparr>nn_phase := AdmittedPhase, nn_negotiated := g\<rparr>)"
    unfolding acknowledge_def members using vs(1) v four dist offered plain same_g by (auto simp: new_negotiation_def Let_def)
  show ?thesis unfolding ack using caps(2) by (simp add: acknowledge_def)
qed

section \<open>Concrete runs\<close>

definition ex_gateway_env :: gateway_env where
  "ex_gateway_env = \<lparr>ge_auth = ex_auth_env, ge_decode = (\<lambda>e. Some (encodeNodeProof ex_proof)), ge_protocols = CURRENT_GATEWAY_PROTOCOLS,
     ge_capabilities = CURRENT_GATEWAY_CAPABILITIES\<rparr>"

definition ex_hello :: json where
  "ex_hello = JObj [(''type'', JStr ''hello''), (''nodeId'', JStr ''node''), (''protocolVersion'', JNum 1), (''tools'', JArr []), (''allowedRoots'', JArr []),
     (''fingerprint'', JObj []), (''agentVersion'', JStr ''1''), (''supportedProtocols'', JArr [JStr ''2.0'']), (''capabilities'', JObj [(''durable_tasks'', JBool True)])]"

definition ex_dialogue :: "gw_event list" where
  "ex_dialogue = [EvUpgrade ''/node'' ''DexNodeEd25519 x'' ''node'', EvAnswer 0 10, EvResume 0 ''r0'' 10, EvMessage 0 (Some ex_hello) 10,
     EvRequest ''node'' True 60000, EvAnswer 1 11, EvResume 1 ''r1'' 11,
     EvMessage 0 (Some (JObj [(''type'', JStr ''response''), (''id'', JStr ''r1''), (''ok'', JBool True), (''result'', JNum 5)])) 12,
     EvAnswer 2 12, EvResume 2 ''r2'' 12]"

definition ex_gateway :: gateway where
  "ex_gateway = gw_run ex_gateway_env ex_dialogue (empty_gateway (ex_keyed 10) Absent)"

lemma ex_gateway_reach: "gw_reach ex_gateway_env ex_gateway"
  unfolding ex_gateway_def by (rule gw_run_reach) (rule gw_start)

text \<open>The gateway after the dialogue: one connection, one answered dispatch, nothing pending.\<close>

definition ex_gateway_at :: "auth_store \<Rightarrow> gateway" where
  "ex_gateway_at a = \<lparr>gw_nodes = [(''node'', \<lparr>nr_hello = ex_hello, nr_socket = 0, nr_connectedAt = 10, nr_lastSeenAt = 12, nr_access = None,
       nr_scheduler = None, nr_negotiated = \<lparr>ng_version = ''2.0'', ng_capabilities = [''durable_tasks'']\<rparr>\<rparr>)],
     gw_pending = [], gw_revoked = [], gw_sockets = [\<lparr>ss_node = ''node'', ss_registered = True, ss_open = True\<rparr>], gw_calls = [], gw_next = 3,
     gw_auth = a, gw_tombstones = Absent, gw_asked = [(1, ''node'')], gw_sent = [(''r1'', 1, ''node'', 0)],
     gw_outcomes = [(1, Answered ''node'' 0 (Some (JNum 5)) None)]\<rparr>"

lemma ex_gateway_run: "ex_gateway = ex_gateway_at (ex_key_store 10 ex_nonces)"
  unfolding ex_gateway_def ex_keyed_store by code_simp

lemma ex_gateway_answer: "gw_outcomes ex_gateway = [(1, Answered ''node'' 0 (Some (JNum 5)) None)]"
  by (simp add: ex_gateway_run ex_gateway_at_def)


theorem every_caller_accounted_for_witness:
  "mset (map fst (gw_asked ex_gateway)) = dispatchers (gw_calls ex_gateway) + callers (gw_pending ex_gateway) + settled (gw_outcomes ex_gateway)"
  using every_caller_accounted_for [OF ex_gateway_reach] by blast

lemma locked_out_phase: "locked_out n s = (phase_of s n = LockedOut)"
  by (auto simp: locked_out_def phase_of_def node_phase_def split: sum.split option.split node_auth_mode.split)

theorem revoked_node_gets_no_work_witness:
  "\<exists>g. gw_reach ex_gateway_env g \<and> g = gw_run ex_gateway_env [EvStore 20 (OpRevoke ''node'')] ex_gateway \<and>
     work_of ''node'' (gw_run ex_gateway_env [EvRequest ''node'' False 60000, EvAnswer 3 30, EvResume 3 ''r3'' 30] g) = work_of ''node'' g"
proof -
  let ?g = "gw_run ex_gateway_env [EvStore 20 (OpRevoke ''node'')] ex_gateway"
  have r: "gw_reach ex_gateway_env ?g" by (rule gw_run_reach) (rule ex_gateway_reach)
  have l: "locked_out ''node'' (gw_auth ?g)" unfolding locked_out_phase ex_gateway_run by code_simp
  have c: "\<forall>(k, x) \<in> set (gw_calls ?g). \<not> admitted_call ''node'' x"
    unfolding ex_gateway_run by (simp add: ex_gateway_at_def)
  from revoked_node_gets_no_work [OF r l c, of "[EvRequest ''node'' False 60000, EvAnswer 3 30, EvResume 3 ''r3'' 30]"] r show ?thesis by auto
qed

theorem negotiation_agrees_witness:
  "\<exists>g. negotiateProtocol CURRENT_GATEWAY_PROTOCOLS CURRENT_GATEWAY_CAPABILITIES ex_hello = Some g \<and>
     fst (acknowledge (hello_ack g) (new_negotiation ex_hello)) = Some g"
proof -
  have "negotiateProtocol CURRENT_GATEWAY_PROTOCOLS CURRENT_GATEWAY_CAPABILITIES ex_hello = Some \<lparr>ng_version = REACH_PROTOCOL_V2, ng_capabilities = [REACH_DURABLE_TASK_CAPABILITY]\<rparr>"
    by code_simp
  moreover have "set CURRENT_GATEWAY_CAPABILITIES \<subseteq> set protocol_capabilities" by (simp add: CURRENT_GATEWAY_CAPABILITIES_def protocol_capabilities_def)
  ultimately show ?thesis using negotiation_agrees by blast
qed

end
