(* ===== verification/Reach_Results.thy ===== *)
theory Reach_Results
  imports Reach_Plans Reach_Lifecycle
begin

text \<open>
  The store of operation results, \<open>src/src/node/result-store.ts\<close>: a manifest of metadata and one blob
  per handle. A result is bound to its task and to the digest of its text; a large one is handed out as
  a handle that \<open>read\<close> pages through.

  The manifest is kept as the JSON value on disk, so that unknown members survive a rewrite. The text
  of a value (\<open>JSON.stringify\<close>, \<open>JSON.parse\<close>), its digest and its length in bytes are the fields of a
  \<open>result_env\<close>. Handles are the fresh UUIDs of the caller's run.
\<close>

section \<open>Data\<close>

record result_env =
  rz_stringify :: "json \<Rightarrow> string"
  rz_parse :: "string \<Rightarrow> json option"
  rz_sha :: "string \<Rightarrow> string"
  rz_bytes :: "string \<Rightarrow> int"
  rz_inlineLimit :: int
  rz_ttlMs :: int

record result_metadata =
  rm_handle :: string
  rm_taskId :: "string option"
  rm_resultHash :: string
  rm_size :: int
  rm_createdAt :: timestamp
  rm_expiresAt :: timestamp

record result_dir =
  rs_manifest :: "json stored"
  rs_blobs :: "(string \<times> string) list"

datatype result_error =
    ResultUnreadable | ResultSchema | ResultMetadataCorrupt | ResultTypeError | ResultHandle | ResultMissing | ResultBlobMissing
  | ResultBlobMismatch | ResultBlobCorrupt | ResultBinding | ResultLimits

definition RESULT_SCHEMA_VERSION :: rat where
  "RESULT_SCHEMA_VERSION = 1"

definition sha256_text :: "string \<Rightarrow> bool" where
  "sha256_text s = (length s = 64 \<and> list_all is_hex s)"

text \<open>The task of an entry: \<open>null\<close> or a string.\<close>

definition entry_task :: "json \<Rightarrow> string option option" where
  "entry_task v = (case jget v ''taskId'' of Some JNull \<Rightarrow> Some None | Some (JStr t) \<Rightarrow> Some (Some t) | _ \<Rightarrow> None)"

definition entry_metadata :: "string \<Rightarrow> json \<Rightarrow> result_metadata option" where
  "entry_metadata handle v =
     (if \<not> assertPlanId handle \<or> num_field v ''version'' \<noteq> Some RESULT_SCHEMA_VERSION \<or> str_field v ''handle'' \<noteq> Some handle
         \<or> str_field v ''encoding'' \<noteq> Some ''utf8-json'' then None
      else (case (entry_task v, str_field v ''resultHash'', num_field v ''size'', stamp_field v ''createdAt'', stamp_field v ''expiresAt'') of
          (Some t, Some h, Some n, Some c, Some e) \<Rightarrow>
            if sha256_text h \<and> is_safe_integer n \<and> 0 \<le> n
            then Some \<lparr>rm_handle = handle, rm_taskId = t, rm_resultHash = h, rm_size = \<lfloor>n\<rfloor>, rm_createdAt = c, rm_expiresAt = e\<rparr> else None
        | _ \<Rightarrow> None))"

definition metadata_entry :: "result_metadata \<Rightarrow> json" where
  "metadata_entry m = JObj [(''version'', JNum RESULT_SCHEMA_VERSION), (''handle'', JStr (rm_handle m)), (''taskId'', json_opt JStr (rm_taskId m)),
     (''resultHash'', JStr (rm_resultHash m)), (''size'', JNum (of_int (rm_size m))), (''encoding'', JStr ''utf8-json''),
     (''createdAt'', stamp_json (rm_createdAt m)), (''expiresAt'', stamp_json (rm_expiresAt m))]"

text \<open>The entries of a parsed manifest. An array passes the shape check; only an empty one has no entry
  to refuse.\<close>

definition entries_valid :: "(string \<times> json) list \<Rightarrow> bool" where
  "entries_valid es = list_all (\<lambda>(h, v). entry_metadata h v \<noteq> None) es"

definition parse_manifest :: "json \<Rightarrow> result_error + (string \<times> json) list" where
  "parse_manifest v =
     (if num_field v ''version'' \<noteq> Some RESULT_SCHEMA_VERSION then Inl ResultSchema
      else (case jget v ''records'' of
          Some (JObj es) \<Rightarrow> if entries_valid es then Inr es else Inl ResultMetadataCorrupt
        | Some (JArr xs) \<Rightarrow> if xs = [] then Inr [] else Inl ResultMetadataCorrupt
        | Some JNull \<Rightarrow> Inl ResultTypeError
        | _ \<Rightarrow> Inl ResultSchema))"

definition empty_manifest :: json where
  "empty_manifest = JObj [(''version'', JNum RESULT_SCHEMA_VERSION), (''records'', JObj [])]"

definition read_manifest :: "result_dir \<Rightarrow> result_error + json \<times> (string \<times> json) list" where
  "read_manifest d = (case rs_manifest d of
      Absent \<Rightarrow> Inr (empty_manifest, [])
    | Unreadable \<Rightarrow> Inl ResultUnreadable
    | Contents v \<Rightarrow> (case parse_manifest v of Inl e \<Rightarrow> Inl e | Inr es \<Rightarrow> Inr (v, es)))"

text \<open>The document with other entries. Members set on an array are lost when it is printed.\<close>

definition with_entries :: "json \<Rightarrow> (string \<times> json) list \<Rightarrow> json" where
  "with_entries v es = (case v of
      JObj kvs \<Rightarrow> JObj (map (\<lambda>(k, x). (k, if k = ''records'' \<and> \<not> is_array x then JObj es else x)) kvs)
    | _ \<Rightarrow> v)"

section \<open>Operations\<close>

definition checked_limits :: "rat \<Rightarrow> rat \<Rightarrow> result_error + unit" where
  "checked_limits inlineLimit ttlMs =
     (if \<not> is_safe_integer inlineLimit \<or> inlineLimit < 1 \<or> \<not> is_safe_integer ttlMs \<or> ttlMs < 1 then Inl ResultLimits else Inr ())"

definition new_metadata :: "result_env \<Rightarrow> string \<Rightarrow> string option \<Rightarrow> string \<Rightarrow> int \<Rightarrow> result_metadata" where
  "new_metadata E text taskId uuid now = \<lparr>rm_handle = uuid, rm_taskId = taskId, rm_resultHash = rz_sha E text, rm_size = rz_bytes E text,
     rm_createdAt = Iso now, rm_expiresAt = Iso (now + rz_ttlMs E)\<rparr>"

text \<open>The value \<open>undefined\<close> is stored as \<open>null\<close>.\<close>

definition result_text :: "result_env \<Rightarrow> json option \<Rightarrow> string" where
  "result_text E v = (case v of None \<Rightarrow> ''null'' | Some j \<Rightarrow> rz_stringify E j)"

datatype public_value = Inline "json option" | ByHandle string int string

definition boundWithReference ::
  "result_env \<Rightarrow> json option \<Rightarrow> string option \<Rightarrow> string \<Rightarrow> int \<Rightarrow> result_dir \<Rightarrow> (result_error + result_metadata \<times> public_value) \<times> result_dir" where
  "boundWithReference E v taskId uuid now d =
     (let text = result_text E v; m = new_metadata E text taskId uuid now
      in case read_manifest d of
           Inl e \<Rightarrow> (Inl e, d)
         | Inr (doc, es) \<Rightarrow>
             if \<not> assertPlanId uuid then (Inl ResultHandle, d)
             else (Inr (m, if rm_size m \<le> rz_inlineLimit E then Inline v else ByHandle uuid (rm_size m) (take (nat (rz_inlineLimit E)) text)),
                   \<lparr>rs_manifest = Contents (with_entries doc (obj_put uuid (metadata_entry m) es)), rs_blobs = obj_put uuid text (rs_blobs d)\<rparr>))"

definition bound :: "result_env \<Rightarrow> json option \<Rightarrow> string option \<Rightarrow> string \<Rightarrow> int \<Rightarrow> result_dir \<Rightarrow> (result_error + public_value) \<times> result_dir" where
  "bound E v taskId uuid now d = (case boundWithReference E v taskId uuid now d of (Inl e, d') \<Rightarrow> (Inl e, d') | (Inr (m, p), d') \<Rightarrow> (Inr p, d'))"

text \<open>A metadata entry whose expiry is not a date never expires.\<close>

definition result_metadata_of :: "string \<Rightarrow> int \<Rightarrow> result_dir \<Rightarrow> result_error + result_metadata" where
  "result_metadata_of handle now d =
     (if \<not> assertPlanId handle then Inl ResultHandle
      else (case read_manifest d of
          Inl e \<Rightarrow> Inl e
        | Inr (doc, es) \<Rightarrow> (case map_of es handle of
              None \<Rightarrow> Inl ResultMissing
            | Some v \<Rightarrow> (case entry_metadata handle v of
                  None \<Rightarrow> Inl ResultMissing
                | Some m \<Rightarrow> (case date_parse (rm_expiresAt m) of
                      Some t \<Rightarrow> if t \<le> now then Inl ResultMissing else Inr m
                    | None \<Rightarrow> Inr m)))))"

record result_page =
  rp_offset :: rat
  rp_text :: string
  rp_nextOffset :: "rat option"
  rp_totalCharacters :: nat
  rp_resultHash :: string
  rp_taskId :: "string option"

text \<open>\<open>String.prototype.slice\<close> on offsets that are not negative.\<close>

definition js_slice :: "rat \<Rightarrow> rat \<Rightarrow> string \<Rightarrow> string" where
  "js_slice a b s = take (nat \<lfloor>b\<rfloor> - nat \<lfloor>a\<rfloor>) (drop (nat \<lfloor>a\<rfloor>) s)"

text \<open>The page of a text; a number that is not finite is \<open>None\<close>.\<close>

definition page_of :: "result_metadata \<Rightarrow> string \<Rightarrow> rat option \<Rightarrow> rat option \<Rightarrow> result_page" where
  "page_of m text off len =
     (let start = max 0 (min (case off of Some r \<Rightarrow> r | None \<Rightarrow> 0) (of_nat (length text)));
          size = max 1 (min (case len of Some r \<Rightarrow> r | None \<Rightarrow> 64 * 1024) (256 * 1024))
      in \<lparr>rp_offset = start, rp_text = js_slice start (start + size) text,
          rp_nextOffset = (if start + size < of_nat (length text) then Some (start + size) else None),
          rp_totalCharacters = length text, rp_resultHash = rm_resultHash m, rp_taskId = rm_taskId m\<rparr>)"

definition read_page :: "result_env \<Rightarrow> string \<Rightarrow> rat option \<Rightarrow> rat option \<Rightarrow> int \<Rightarrow> result_dir \<Rightarrow> result_error + result_page" where
  "read_page E handle off len now d = (case result_metadata_of handle now d of
      Inl e \<Rightarrow> Inl e
    | Inr m \<Rightarrow> (case map_of (rs_blobs d) handle of
          None \<Rightarrow> Inl ResultBlobMissing
        | Some text \<Rightarrow> if rz_bytes E text \<noteq> rm_size m \<or> rz_sha E text \<noteq> rm_resultHash m then Inl ResultBlobMismatch
            else Inr (page_of m text off len)))"

definition readValue :: "result_env \<Rightarrow> string \<Rightarrow> int \<Rightarrow> result_dir \<Rightarrow> result_error + json" where
  "readValue E handle now d = (case result_metadata_of handle now d of
      Inl e \<Rightarrow> Inl e
    | Inr m \<Rightarrow> (case map_of (rs_blobs d) handle of
          None \<Rightarrow> Inl ResultBlobMissing
        | Some text \<Rightarrow> if rz_sha E text \<noteq> rm_resultHash m then Inl ResultBlobMismatch
            else (case rz_parse E text of None \<Rightarrow> Inl ResultBlobCorrupt | Some v \<Rightarrow> Inr v)))"

definition readValueForTask :: "result_env \<Rightarrow> string \<Rightarrow> string \<Rightarrow> string \<Rightarrow> int \<Rightarrow> result_dir \<Rightarrow> result_error + json" where
  "readValueForTask E handle taskId expectedHash now d = (case result_metadata_of handle now d of
      Inl e \<Rightarrow> Inl e
    | Inr m \<Rightarrow> if rm_taskId m \<noteq> Some taskId \<or> rm_resultHash m \<noteq> expectedHash then Inl ResultBinding else readValue E handle now d)"

definition expired_entry :: "int \<Rightarrow> string \<times> json \<Rightarrow> bool" where
  "expired_entry now e = (case entry_metadata (fst e) (snd e) of
      None \<Rightarrow> False
    | Some m \<Rightarrow> (case date_parse (rm_expiresAt m) of Some t \<Rightarrow> t \<le> now | None \<Rightarrow> False))"

definition sweep_results :: "int \<Rightarrow> result_dir \<Rightarrow> (result_error + nat) \<times> result_dir" where
  "sweep_results now d = (case read_manifest d of
      Inl e \<Rightarrow> (Inl e, d)
    | Inr (doc, es) \<Rightarrow>
        (let gone = filter (expired_entry now) es; kept = filter (\<lambda>e. \<not> expired_entry now e) es
         in (Inr (length gone),
             if gone = [] then d
             else \<lparr>rs_manifest = Contents (with_entries doc kept), rs_blobs = filter (\<lambda>(h, _). h \<notin> fst ` set gone) (rs_blobs d)\<rparr>)))"

section \<open>What the manifest keeps\<close>

lemma entry_metadata_entry:
  assumes "assertPlanId (rm_handle m)" "sha256_text (rm_resultHash m)" "0 \<le> rm_size m" "rm_size m \<le> 2 ^ 53 - 1"
  shows "entry_metadata (rm_handle m) (metadata_entry m) = Some m"
proof -
  have "is_safe_integer (of_int (rm_size m))"
  proof -
    have "(of_int (rm_size m) :: rat) \<le> of_int (2 ^ 53 - 1)" using assms(4) by (simp only: of_int_le_iff)
    with assms(3) show ?thesis by (simp add: is_safe_integer_def)
  qed
  then show ?thesis using assms
    by (cases "rm_taskId m") (simp_all add: entry_metadata_def metadata_entry_def entry_task_def)
qed

text \<open>A document that \<open>read_manifest\<close> accepts, written as an object.\<close>

definition manifest_holds :: "result_dir \<Rightarrow> (string \<times> json) list \<Rightarrow> bool" where
  "manifest_holds d es = (entries_valid es \<and> distinct (map fst es) \<and>
     (case rs_manifest d of
        Absent \<Rightarrow> es = []
      | Unreadable \<Rightarrow> False
      | Contents v \<Rightarrow> (\<exists>kvs. v = JObj kvs \<and> map_of kvs ''version'' = Some (JNum RESULT_SCHEMA_VERSION) \<and> map_of kvs ''records'' = Some (JObj es))))"

lemma read_manifest_holds:
  assumes "manifest_holds d es"
  obtains doc where "read_manifest d = Inr (doc, es)" "\<And>es'. entries_valid es' \<Longrightarrow> distinct (map fst es') \<Longrightarrow>
    manifest_holds (d\<lparr>rs_manifest := Contents (with_entries doc es')\<rparr>) es'"
proof -
  have put: "map_of (map (\<lambda>(k, x). (k, if k = ''records'' \<and> \<not> is_array x then JObj es' else x)) kvs) k =
      map_option (\<lambda>x. if k = ''records'' \<and> \<not> is_array x then JObj es' else x) (map_of kvs k)" for kvs k es'
    by (induction kvs) auto
  show thesis
  proof (cases "rs_manifest d")
    case Absent
    then show thesis using assms that [of empty_manifest]
      by (simp add: manifest_holds_def read_manifest_def with_entries_def empty_manifest_def)
  next
    case (Contents v)
    then obtain kvs where v: "v = JObj kvs" "map_of kvs ''version'' = Some (JNum RESULT_SCHEMA_VERSION)" "map_of kvs ''records'' = Some (JObj es)"
      using assms by (auto simp: manifest_holds_def)
    show thesis
    proof (rule that [of v])
      show "read_manifest d = Inr (v, es)" using Contents v assms by (simp add: read_manifest_def parse_manifest_def manifest_holds_def)
      show "manifest_holds (d\<lparr>rs_manifest := Contents (with_entries v es')\<rparr>) es'" if "entries_valid es'" "distinct (map fst es')" for es'
        using that v by (simp add: manifest_holds_def with_entries_def put)
    qed
  qed (use assms in \<open>simp add: manifest_holds_def\<close>)
qed

section \<open>A stored result is read back\<close>

datatype result_op = StoreResult "json option" "string option" string int | SweepResults int

fun result_exec :: "result_env \<Rightarrow> result_op \<Rightarrow> result_dir \<Rightarrow> result_dir" where
  "result_exec E (StoreResult v t uuid now) d = snd (boundWithReference E v t uuid now d)"
| "result_exec E (SweepResults now) d = snd (sweep_results now d)"

definition run_results :: "result_env \<Rightarrow> result_op list \<Rightarrow> result_dir \<Rightarrow> result_dir" where
  "run_results E ops d = fold (result_exec E) ops d"

definition empty_results :: result_dir where
  "empty_results = \<lparr>rs_manifest = Absent, rs_blobs = []\<rparr>"

fun spares :: "string \<Rightarrow> int \<Rightarrow> result_op \<Rightarrow> bool" where
  "spares h expiry (StoreResult v t uuid now) = (uuid \<noteq> h)"
| "spares h expiry (SweepResults now) = (now < expiry)"

text \<open>What the digest and the byte count of the platform give.\<close>

definition sound_env :: "result_env \<Rightarrow> bool" where
  "sound_env E = (\<forall>s. sha256_text (rz_sha E s) \<and> 0 \<le> rz_bytes E s \<and> rz_bytes E s \<le> 2 ^ 53 - 1)"

lemma manifest_holds_cong: "rs_manifest a = rs_manifest b \<Longrightarrow> manifest_holds a es = manifest_holds b es"
  by (simp add: manifest_holds_def)

lemma new_metadata_entry:
  assumes "sound_env E" "assertPlanId uuid"
  shows "entry_metadata uuid (metadata_entry (new_metadata E text t uuid now)) = Some (new_metadata E text t uuid now)"
  using entry_metadata_entry [of "new_metadata E text t uuid now"] assms by (simp add: new_metadata_def sound_env_def)

lemma store_holds:
  assumes "sound_env E" "manifest_holds d es" "boundWithReference E v t uuid now d = (res, d')"
  obtains (refused) e where "res = Inl e" "d' = d"
  | (stored) p where "res = Inr (new_metadata E (result_text E v) t uuid now, p)" "assertPlanId uuid"
      "manifest_holds d' (obj_put uuid (metadata_entry (new_metadata E (result_text E v) t uuid now)) es)"
      "rs_blobs d' = obj_put uuid (result_text E v) (rs_blobs d)"
proof -
  let ?m = "new_metadata E (result_text E v) t uuid now"
  let ?es = "obj_put uuid (metadata_entry ?m) es"
  obtain doc where r: "read_manifest d = Inr (doc, es)"
    and w: "\<And>es'. entries_valid es' \<Longrightarrow> distinct (map fst es') \<Longrightarrow> manifest_holds (d\<lparr>rs_manifest := Contents (with_entries doc es')\<rparr>) es'"
    using read_manifest_holds [OF assms(2)] by metis
  show thesis
  proof (cases "assertPlanId uuid")
    case True
    have "entries_valid ?es"
      using assms(2) new_metadata_entry [OF assms(1) True] set_obj_put [of uuid "metadata_entry ?m" es]
      by (auto simp: entries_valid_def manifest_holds_def list_all_iff)
    moreover have "distinct (map fst ?es)" using assms(2) by (simp add: manifest_holds_def distinct_obj_put)
    ultimately have "manifest_holds (d\<lparr>rs_manifest := Contents (with_entries doc ?es)\<rparr>) ?es" by (rule w)
    then show thesis using stored True assms(3) by (auto simp: boundWithReference_def Let_def r manifest_holds_def)
  qed (use refused assms(3) in \<open>auto simp: boundWithReference_def Let_def r\<close>)
qed

lemma sweep_holds:
  assumes "manifest_holds d es"
  shows "manifest_holds (snd (sweep_results now d)) (filter (\<lambda>e. \<not> expired_entry now e) es) \<and>
    rs_blobs (snd (sweep_results now d)) = filter (\<lambda>(h, _). h \<notin> fst ` set (filter (expired_entry now) es)) (rs_blobs d)"
proof -
  let ?kept = "filter (\<lambda>e. \<not> expired_entry now e) es"
  obtain doc where r: "read_manifest d = Inr (doc, es)"
    and w: "\<And>es'. entries_valid es' \<Longrightarrow> distinct (map fst es') \<Longrightarrow> manifest_holds (d\<lparr>rs_manifest := Contents (with_entries doc es')\<rparr>) es'"
    using read_manifest_holds [OF assms] by metis
  have "manifest_holds (d\<lparr>rs_manifest := Contents (with_entries doc ?kept)\<rparr>) ?kept"
    using assms by (intro w) (auto simp: entries_valid_def manifest_holds_def list_all_iff distinct_map_filter)
  then have "manifest_holds \<lparr>rs_manifest = Contents (with_entries doc ?kept), rs_blobs = b\<rparr> ?kept" for b
    by (subst manifest_holds_cong [of _ "d\<lparr>rs_manifest := Contents (with_entries doc ?kept)\<rparr>"]) simp_all
  moreover have "?kept = es \<and> filter (\<lambda>(h, _). h \<notin> fst ` set (filter (expired_entry now) es)) (rs_blobs d) = rs_blobs d"
    if "filter (expired_entry now) es = []"
    using that by (auto simp: filter_empty_conv filter_id_conv)
  ultimately show ?thesis using assms
    by (cases "filter (expired_entry now) es = []") (simp_all add: sweep_results_def Let_def r del: filter_False set_filter)
qed

definition result_kept :: "string \<Rightarrow> result_metadata \<Rightarrow> string \<Rightarrow> result_dir \<Rightarrow> bool" where
  "result_kept h m text d = (\<exists>es. manifest_holds d es \<and> map_of es h = Some (metadata_entry m) \<and> map_of (rs_blobs d) h = Some text)"

lemma exec_holds: "sound_env E \<Longrightarrow> manifest_holds d es \<Longrightarrow> \<exists>es'. manifest_holds (result_exec E op d) es'"
proof (cases op)
  case (StoreResult v t uuid now)
  assume E: "sound_env E" and d: "manifest_holds d es"
  show ?thesis unfolding StoreResult result_exec.simps
    by (rule store_holds [where v = v and t = t and uuid = uuid and now = now, OF E d prod.collapse [symmetric]]) (use d in auto)
next
  case (SweepResults now)
  assume "manifest_holds d es"
  from sweep_holds [OF this, of now] SweepResults show ?thesis by auto
qed

lemma run_holds: "sound_env E \<Longrightarrow> manifest_holds d es \<Longrightarrow> \<exists>es'. manifest_holds (run_results E ops d) es'"
  unfolding run_results_def
proof (induction ops arbitrary: d es)
  case (Cons op ops)
  from exec_holds [OF Cons.prems] obtain es' where "manifest_holds (result_exec E op d) es'" by blast
  from Cons.IH [OF Cons.prems(1) this] show ?case by simp
qed auto

lemma map_of_filter_row: "map_of es h = Some v \<Longrightarrow> P (h, v) \<Longrightarrow> distinct (map fst es) \<Longrightarrow> map_of (filter P es) h = Some v"
  by (induction es) (auto simp: map_of_eq_None_iff)

lemma map_of_filter_handle: "P h \<Longrightarrow> map_of (filter (\<lambda>(k, _). P k) b) h = map_of b h"
  by (induction b) auto

lemma exec_keeps:
  assumes "sound_env E" "result_kept h m text d" "spares h t1 op"
    and m: "entry_metadata h (metadata_entry m) = Some m" "rm_expiresAt m = Iso t1"
  shows "result_kept h m text (result_exec E op d)"
proof -
  obtain es where es: "manifest_holds d es" "map_of es h = Some (metadata_entry m)" "map_of (rs_blobs d) h = Some text"
    using assms(2) by (auto simp: result_kept_def)
  show ?thesis
  proof (cases op)
    case (StoreResult v t uuid now)
    show ?thesis unfolding StoreResult result_exec.simps
      by (rule store_holds [where v = v and t = t and uuid = uuid and now = now, OF assms(1) es(1) prod.collapse [symmetric]])
        (use es assms(2,3) StoreResult in \<open>auto simp: result_kept_def map_of_obj_put\<close>)
  next
    case (SweepResults now)
    have live: "\<not> expired_entry now (h, metadata_entry m)" using m assms(3) by (simp add: expired_entry_def SweepResults)
    have dis: "distinct (map fst es)" using es(1) by (simp add: manifest_holds_def)
    have "h \<notin> fst ` set (filter (expired_entry now) es)"
    proof
      assume "h \<in> fst ` set (filter (expired_entry now) es)"
      then obtain v where "(h, v) \<in> set es" "expired_entry now (h, v)" by auto
      with es(2) dis live show False by (auto simp: map_of_eq_Some_iff dest: eq_key_imp_eq_value)
    qed
    from map_of_filter_handle [where P = "\<lambda>k. k \<notin> fst ` set (filter (expired_entry now) es)", OF this, of "rs_blobs d"]
    have "map_of (rs_blobs (snd (sweep_results now d))) h = Some text" using sweep_holds [OF es(1), of now] es(3) by simp
    moreover have "map_of (filter (\<lambda>e. \<not> expired_entry now e) es) h = Some (metadata_entry m)"
      by (rule map_of_filter_row) (use es(2) live dis in simp_all)
    ultimately show ?thesis using sweep_holds [OF es(1), of now] unfolding SweepResults result_exec.simps result_kept_def by blast
  qed
qed

lemma run_keeps:
  assumes "sound_env E" "entry_metadata h (metadata_entry m) = Some m" "rm_expiresAt m = Iso t1"
  shows "result_kept h m text d \<Longrightarrow> \<forall>op \<in> set ops. spares h t1 op \<Longrightarrow> result_kept h m text (run_results E ops d)"
  unfolding run_results_def by (induction ops arbitrary: d) (auto intro: exec_keeps [OF assms(1) _ _ assms(2,3)])

lemma kept_readable:
  assumes "result_kept h m text d" "entry_metadata h (metadata_entry m) = Some m" "rm_expiresAt m = Iso t1" "now < t1"
  shows "result_metadata_of h now d = Inr m" "map_of (rs_blobs d) h = Some text"
proof -
  obtain es where es: "manifest_holds d es" "map_of es h = Some (metadata_entry m)" "map_of (rs_blobs d) h = Some text"
    using assms(1) by (auto simp: result_kept_def)
  obtain doc where r: "read_manifest d = Inr (doc, es)" using read_manifest_holds [OF es(1)] by metis
  have "assertPlanId h" using assms(2) by (auto simp: entry_metadata_def split: if_splits)
  with r es assms(2-4) show "result_metadata_of h now d = Inr m" by (simp add: result_metadata_of_def)
  show "map_of (rs_blobs d) h = Some text" by (fact es(3))
qed

text \<open>
  C33: A result that was stored for a task is read back under its handle, its task and its digest, until it
  expires, whatever other results are stored and whatever sweeps run in between.
\<close>

theorem stored_result_reads_back:
  assumes "sound_env E" and "rz_parse E (rz_stringify E v) = Some v"
    and "boundWithReference E (Some v) (Some taskId) uuid now (run_results E before empty_results) = (Inr (m, p), d)"
    and "\<forall>op \<in> set after. spares uuid (now + rz_ttlMs E) op" and "now' < now + rz_ttlMs E"
  shows "readValueForTask E uuid taskId (rm_resultHash m) now' (run_results E after d) = Inr v"
proof -
  have "manifest_holds empty_results []" by (simp add: manifest_holds_def empty_results_def entries_valid_def)
  then obtain es where es: "manifest_holds (run_results E before empty_results) es" using run_holds [OF assms(1)] by blast
  have m: "m = new_metadata E (rz_stringify E v) (Some taskId) uuid now" and u: "assertPlanId uuid"
    and k: "result_kept uuid m (rz_stringify E v) d"
    by (rule store_holds [OF assms(1) es assms(3)]; auto simp: result_text_def result_kept_def map_of_obj_put)+
  have e: "entry_metadata uuid (metadata_entry m) = Some m" and t: "rm_expiresAt m = Iso (now + rz_ttlMs E)"
    using new_metadata_entry [OF assms(1) u] by (simp_all add: m new_metadata_def)
  have k': "result_kept uuid m (rz_stringify E v) (run_results E after d)" by (rule run_keeps [OF assms(1) e t k assms(4)])
  show ?thesis using kept_readable [OF k' e t assms(5)] assms(2)
    by (simp add: readValueForTask_def readValue_def m new_metadata_def)
qed

text \<open>A concrete platform: the text of a string value is the value itself in quotes, and a digest of
  64 digits.\<close>

definition ex_result_env :: result_env where
  "ex_result_env = \<lparr>rz_stringify = (\<lambda>j. case j of JStr s \<Rightarrow> CHR ''q'' # s | _ \<Rightarrow> []),
     rz_parse = (\<lambda>s. case s of [] \<Rightarrow> None | c # r \<Rightarrow> Some (JStr r)), rz_sha = (\<lambda>s. replicate 63 CHR ''0'' @ (if s = [] then ''0'' else ''1'')),
     rz_bytes = (\<lambda>s. 5), rz_inlineLimit = 2, rz_ttlMs = 100\<rparr>"

definition ex_handle_a :: string where
  "ex_handle_a = ''00000000-0000-4000-8000-00000000000a''"

definition ex_handle_b :: string where
  "ex_handle_b = ''00000000-0000-4000-8000-00000000000b''"

definition ex_stored :: "(result_error + result_metadata \<times> public_value) \<times> result_dir" where
  "ex_stored = boundWithReference ex_result_env (Some (JStr ''abcd'')) (Some ''task'') ex_handle_a 10 empty_results"

lemma ex_sound: "sound_env ex_result_env"
  by (auto simp: sound_env_def ex_result_env_def sha256_text_def numeral_eq_Suc is_hex_def is_lower_hex_def is_digit_def)

lemma ex_stored_eq: "\<exists>m p. fst ex_stored = Inr (m, p) \<and> rm_resultHash m = rz_sha ex_result_env ''qabcd''"
  by (simp add: ex_stored_def boundWithReference_def Let_def read_manifest_def empty_results_def new_metadata_def result_text_def ex_result_env_def
      ex_handle_a_def assertPlanId_def hex_block_def is_hex_def is_lower_hex_def is_digit_def)

theorem stored_result_reads_back_witness:
  "readValueForTask ex_result_env ex_handle_a ''task'' (rz_sha ex_result_env ''qabcd'') 109
     (run_results ex_result_env [StoreResult None None ex_handle_b 50, SweepResults 60] (snd ex_stored)) = Inr (JStr ''abcd'')"
proof -
  obtain m p where e: "boundWithReference ex_result_env (Some (JStr ''abcd'')) (Some ''task'') ex_handle_a 10 (run_results ex_result_env [] empty_results) = (Inr (m, p), snd ex_stored)"
      and h: "rm_resultHash m = rz_sha ex_result_env ''qabcd''"
    using ex_stored_eq by (auto simp: ex_stored_def run_results_def prod_eq_iff)
  have "\<forall>op \<in> set [StoreResult None None ex_handle_b 50, SweepResults 60]. spares ex_handle_a (10 + rz_ttlMs ex_result_env) op"
    by (simp add: ex_result_env_def ex_handle_a_def ex_handle_b_def)
  from stored_result_reads_back [OF ex_sound _ e this, of 109] show ?thesis by (simp add: h) (simp add: ex_result_env_def)
qed

section \<open>Nothing but the bound tx is handed back\<close>

text \<open>
  A value that recovery accepts for a task is the parsed text of a blob whose digest is the expected
  one and whose entry names that task and has not expired; with a digest that is injective on the
  texts, it is the text the digest was taken of.
\<close>

theorem recovered_result_is_bound:
  assumes "readValueForTask E handle taskId expectedHash now d = Inr v"
  shows "\<exists>m tx. result_metadata_of handle now d = Inr m \<and> rm_taskId m = Some taskId \<and> rm_resultHash m = expectedHash \<and>
     (\<forall>t. date_parse (rm_expiresAt m) = Some t \<longrightarrow> now < t) \<and> map_of (rs_blobs d) handle = Some tx \<and>
     rz_sha E tx = expectedHash \<and> rz_parse E tx = Some v \<and> (inj (rz_sha E) \<longrightarrow> (\<forall>tx'. rz_sha E tx' = expectedHash \<longrightarrow> tx' = tx))"
proof -
  obtain m where m: "result_metadata_of handle now d = Inr m" "rm_taskId m = Some taskId" "rm_resultHash m = expectedHash" "readValue E handle now d = Inr v"
    using assms by (auto simp: readValueForTask_def split: sum.splits if_splits)
  moreover have "\<forall>t. date_parse (rm_expiresAt m) = Some t \<longrightarrow> now < t"
    using m(1) by (auto simp: result_metadata_of_def split: if_splits sum.splits option.splits prod.splits)
  moreover obtain tx where "map_of (rs_blobs d) handle = Some tx" "rz_sha E tx = expectedHash" "rz_parse E tx = Some v"
    using m by (auto simp: readValue_def split: option.splits if_splits)
  ultimately show ?thesis by (metis injD)
qed

theorem recovered_result_is_bound_witness:
  "\<exists>m tx. result_metadata_of ex_handle_a 109 (run_results ex_result_env [SweepResults 60] (snd ex_stored)) = Inr m \<and> rm_taskId m = Some ''task'' \<and>
     rz_parse ex_result_env tx = Some (JStr ''abcd'')"
proof -
  have "readValueForTask ex_result_env ex_handle_a ''task'' (replicate 63 CHR ''0'' @ ''1'') 109
     (run_results ex_result_env [SweepResults 60] (snd ex_stored)) = Inr (JStr ''abcd'')"
    by code_simp
  from recovered_result_is_bound [OF this] show ?thesis by blast
qed

section \<open>Paging\<close>

text \<open>A reader that follows \<open>nextOffset\<close>, \<open>fuel\<close> pages at most.\<close>

fun read_pages :: "nat \<Rightarrow> result_env \<Rightarrow> string \<Rightarrow> rat \<Rightarrow> rat option \<Rightarrow> int \<Rightarrow> result_dir \<Rightarrow> string option" where
  "read_pages 0 E handle off len now d = None"
| "read_pages (Suc n) E handle off len now d = (case read_page E handle (Some off) len now d of
      Inl e \<Rightarrow> None
    | Inr p \<Rightarrow> (case rp_nextOffset p of
          None \<Rightarrow> Some (rp_text p)
        | Some nx \<Rightarrow> map_option ((@) (rp_text p)) (read_pages n E handle nx len now d)))"

lemma js_slice_step: "0 \<le> a \<Longrightarrow> a \<le> b \<Longrightarrow> js_slice a b s @ drop (nat \<lfloor>b\<rfloor>) s = drop (nat \<lfloor>a\<rfloor>) s"
proof -
  assume "0 \<le> a" "a \<le> b"
  then have "nat \<lfloor>a\<rfloor> \<le> nat \<lfloor>b\<rfloor>" by (intro nat_mono floor_mono)
  then show ?thesis unfolding js_slice_def by (metis append_take_drop_id drop_drop le_add_diff_inverse2)
qed

lemma js_slice_last: "of_nat (length s) \<le> b \<Longrightarrow> js_slice a b s = drop (nat \<lfloor>a\<rfloor>) s"
proof -
  assume "of_nat (length s) \<le> b"
  then have "int (length s) \<le> \<lfloor>b\<rfloor>" by (simp add: le_floor_iff)
  then have "length s \<le> nat \<lfloor>b\<rfloor>" by linarith
  then show ?thesis by (simp add: js_slice_def)
qed

lemma read_pages_from:
  assumes m: "result_metadata_of handle now d = Inr m" "map_of (rs_blobs d) handle = Some tx" "rz_bytes E tx = rm_size m" "rz_sha E tx = rm_resultHash m"
  shows "0 \<le> off \<Longrightarrow> off \<le> of_nat (length tx) \<Longrightarrow> of_nat (length tx) - off \<le> of_nat n \<Longrightarrow>
    read_pages (Suc n) E handle off len now d = Some (drop (nat \<lfloor>off\<rfloor>) tx)"
proof (induction n arbitrary: off)
  case 0
  then have "read_page E handle (Some off) len now d = Inr (page_of m tx (Some off) len)" using m by (simp add: read_page_def)
  moreover have "of_nat (length tx) \<le> off + max 1 (min (case len of Some r \<Rightarrow> r | None \<Rightarrow> 64 * 1024) (256 * 1024))" using 0 by simp
  ultimately show ?case using 0 by (simp add: page_of_def Let_def js_slice_last)
next
  case (Suc n)
  define size where "size = max 1 (min (case len of Some r \<Rightarrow> r | None \<Rightarrow> 64 * 1024) (256 * 1024 :: rat))"
  have size: "1 \<le> size" by (simp add: size_def)
  have p: "read_page E handle (Some off) len now d = Inr (page_of m tx (Some off) len)" using m by (simp add: read_page_def)
  have t: "rp_text (page_of m tx (Some off) len) = js_slice off (off + size) tx"
    and nx: "rp_nextOffset (page_of m tx (Some off) len) = (if off + size < of_nat (length tx) then Some (off + size) else None)"
    using Suc.prems by (simp_all add: page_of_def Let_def size_def)
  show ?case
  proof (cases "off + size < of_nat (length tx)")
    case True
    have "read_pages (Suc n) E handle (off + size) len now d = Some (drop (nat \<lfloor>off + size\<rfloor>) tx)"
      by (rule Suc.IH) (use Suc.prems size True in simp_all)
    then show ?thesis unfolding read_pages.simps(2) [of "Suc n"] using p t nx True js_slice_step [of off "off + size" tx] Suc.prems size
      by (simp del: read_pages.simps)
  next
    case False
    then show ?thesis unfolding read_pages.simps(2) [of "Suc n"] using p t nx by (simp add: js_slice_last del: read_pages.simps)
  qed
qed

text \<open>
  Paging through a result ends and loses nothing: whatever page length the reader asks for (also a
  fractional, negative or missing one), following the next offset from 0 reaches the end within one page
  more than the text has characters, and the pages joined are the stored text, whose digest is the one
  each page names.
\<close>

theorem pages_rebuild_the_result:
  assumes "read_page E handle (Some 0) len now d = Inr p"
  shows "\<exists>tx. map_of (rs_blobs d) handle = Some tx \<and> rz_sha E tx = rp_resultHash p \<and> rp_totalCharacters p = length tx \<and>
     read_pages (Suc (length tx)) E handle 0 len now d = Some tx"
proof -
  obtain m tx where m: "result_metadata_of handle now d = Inr m" "map_of (rs_blobs d) handle = Some tx" "rz_bytes E tx = rm_size m"
      "rz_sha E tx = rm_resultHash m" and p: "p = page_of m tx (Some 0) len"
    using assms by (auto simp: read_page_def split: sum.splits option.splits if_splits)
  from read_pages_from [OF m, of 0 "length tx" len] m p show ?thesis by (simp add: page_of_def Let_def del: read_pages.simps)
qed

theorem pages_rebuild_the_result_witness:
  "read_pages 6 ex_result_env ex_handle_a 0 (Some 2) 20 (snd ex_stored) = Some ''qabcd''"
proof -
  have "(case read_page ex_result_env ex_handle_a (Some 0) (Some 2) 20 (snd ex_stored) of Inl e \<Rightarrow> False | Inr p \<Rightarrow> rp_totalCharacters p = 5)"
    and b: "map_of (rs_blobs (snd ex_stored)) ex_handle_a = Some ''qabcd''" by code_simp+
  then obtain p where p: "read_page ex_result_env ex_handle_a (Some 0) (Some 2) 20 (snd ex_stored) = Inr p" "rp_totalCharacters p = 5"
    by (auto split: sum.splits)
  from pages_rebuild_the_result [OF p(1)] b show ?thesis by (simp add: numeral_eq_Suc del: read_pages.simps)
qed

end
