(* ===== verification/Reach_Activity.thy ===== *)
theory Reach_Activity
  imports Reach_Lifecycle Reach_Coordination Reach_Durable
begin

text \<open>
  Process evidence: the identity of a process, \<open>src/src/shared/process-identity.ts\<close>, the store of process
  activities, \<open>src/src/shared/activity.ts\<close>, and the launch of a shell command behind its evidence barrier,
  \<open>runProcess\<close> in \<open>src/src/node/native.ts\<close>.

  The operating system is the record \<open>host_os\<close>: whether a signal can be sent to a pid, the text of its
  stat file, the boot id, the start time \<open>ps\<close> prints, and the collation key of a string
  (\<open>localeCompare\<close>). An activity row is read through \<open>validRecord\<close>; members of another type than the
  declared one read as absent where the code does not check them (\<open>cwd\<close>, \<open>externalId\<close>,
  \<open>finishedAt\<close>), and unknown members are not kept. The platform of an identity is a string. The two
  files of the store are replaced one after the other, and a crash may fall between the two.
\<close>

section \<open>Process identity\<close>

record host_os =
  ho_platform :: string
  ho_signal :: "int \<Rightarrow> bool"
  ho_stat :: "int \<Rightarrow> string option"
  ho_bootId :: "string option"
  ho_lstart :: "int \<Rightarrow> string option"
  ho_collate :: "timestamp \<Rightarrow> int"

record process_identity =
  pk_pid :: int
  pk_platform :: string
  pk_startToken :: string
  pk_capturedAt :: timestamp

datatype identity_verdict = SAME | GONE | REUSED | UNVERIFIABLE

definition PROCESS_IDENTITY_PLATFORMS :: "string list" where
  "PROCESS_IDENTITY_PLATFORMS = [''linux'', ''darwin'']"

definition START_TOKEN_PATTERN :: "string \<Rightarrow> bool" where
  "START_TOKEN_PATTERN s = (1 \<le> length s \<and> length s \<le> 200 \<and> list_all (\<lambda>c. 32 \<le> code_of c \<and> code_of c \<le> 126) s)"

definition pidExists :: "host_os \<Rightarrow> int \<Rightarrow> bool" where
  "pidExists os pid = (0 < pid \<and> ho_signal os pid)"

fun split_char :: "char \<Rightarrow> string \<Rightarrow> string list" where
  "split_char c [] = [[]]"
| "split_char c (x # xs) = (if x = c then [] # split_char c xs else (case split_char c xs of [] \<Rightarrow> [[x]] | w # ws \<Rightarrow> (x # w) # ws))"

text \<open>The text after the last occurrence of a character; the whole text when there is none.\<close>

definition after_last :: "char \<Rightarrow> string \<Rightarrow> string" where
  "after_last c s = rev (takeWhile (\<lambda>x. x \<noteq> c) (rev s))"

text \<open>\<open>slice(lastIndexOf(')') + 2)\<close>: one more character is dropped, the first one when there is no bracket.\<close>

definition linux_token :: "string \<Rightarrow> string \<Rightarrow> string option" where
  "linux_token stat bootId =
     (let fields = split_char (CHR '' '') (drop 1 (after_last (CHR '')'') stat));
          boot = js_trim bootId
      in if length fields \<le> 19 \<or> fields ! 19 = [] \<or> \<not> list_all is_digit (fields ! 19) \<or> boot = [] then None
         else Some (boot @ '':'' @ fields ! 19))"

definition readStartToken :: "host_os \<Rightarrow> int \<Rightarrow> string option" where
  "readStartToken os pid =
     (if pid \<le> 0 then None
      else if ho_platform os = ''linux'' then
        (case (ho_stat os pid, ho_bootId os) of (Some s, Some b) \<Rightarrow> linux_token s b | _ \<Rightarrow> None)
      else if ho_platform os = ''darwin'' then
        (case ho_lstart os pid of
           Some s \<Rightarrow> if js_trim s = [] then None else Some (''lstart:'' @ js_trim s)
         | None \<Rightarrow> None)
      else None)"

definition captureProcessIdentity :: "host_os \<Rightarrow> int \<Rightarrow> int \<Rightarrow> process_identity option" where
  "captureProcessIdentity os pid now =
     (if ho_platform os \<notin> set PROCESS_IDENTITY_PLATFORMS then None
      else (case readStartToken os pid of
          None \<Rightarrow> None
        | Some t \<Rightarrow> if START_TOKEN_PATTERN t
            then Some \<lparr>pk_pid = pid, pk_platform = ho_platform os, pk_startToken = t, pk_capturedAt = Iso now\<rparr> else None))"

fun iso_stamp :: "json \<Rightarrow> timestamp option" where
  "iso_stamp (JIso t) = Some (Iso t)"
| "iso_stamp _ = None"

text \<open>\<open>None\<close> refuses; \<open>Some None\<close> is a row without identity.\<close>

definition parseProcessIdentity :: "json option \<Rightarrow> process_identity option option" where
  "parseProcessIdentity raw = (case raw of
      None \<Rightarrow> Some None
    | Some v \<Rightarrow>
        (if num_field v ''version'' \<noteq> Some 1 then None
         else (case (int_field v ''pid'', str_field v ''platform'', str_field v ''startToken'', field iso_stamp v ''capturedAt'') of
             (Some p, Some pl, Some t, Some c) \<Rightarrow>
               if 0 < p \<and> pl \<in> set PROCESS_IDENTITY_PLATFORMS \<and> START_TOKEN_PATTERN t
               then Some (Some \<lparr>pk_pid = p, pk_platform = pl, pk_startToken = t, pk_capturedAt = c\<rparr>) else None
           | _ \<Rightarrow> None)))"

definition identity_json :: "process_identity \<Rightarrow> json" where
  "identity_json i = JObj [(''version'', JNum 1), (''pid'', JNum (of_int (pk_pid i))), (''platform'', JStr (pk_platform i)),
     (''startToken'', JStr (pk_startToken i)), (''capturedAt'', stamp_json (pk_capturedAt i))]"

definition verifyProcessIdentity :: "host_os \<Rightarrow> process_identity option \<Rightarrow> int \<Rightarrow> identity_verdict" where
  "verifyProcessIdentity os ident pid =
     (if \<not> pidExists os pid then GONE
      else (case ident of
          None \<Rightarrow> UNVERIFIABLE
        | Some i \<Rightarrow> if pk_pid i \<noteq> pid \<or> pk_platform i \<noteq> ho_platform os then UNVERIFIABLE
            else (case readStartToken os pid of
                None \<Rightarrow> UNVERIFIABLE
              | Some t \<Rightarrow> if t = pk_startToken i then SAME else REUSED)))"

definition assertIdentityBindingUnchanged :: "process_identity option \<Rightarrow> process_identity option \<Rightarrow> bool" where
  "assertIdentityBindingUnchanged before after = (before = None \<or> before = after)"

section \<open>Activity rows\<close>

datatype activity_state = AStarting | ARunning | ACompleted | AFailed | ATimedOut | ATerminated | AExited

datatype activity_kind = NativeProcess | CompatProcess

fun activity_state_string :: "activity_state \<Rightarrow> string" where
  "activity_state_string AStarting = ''starting''" | "activity_state_string ARunning = ''running''"
| "activity_state_string ACompleted = ''completed''" | "activity_state_string AFailed = ''failed''"
| "activity_state_string ATimedOut = ''timed-out''" | "activity_state_string ATerminated = ''terminated''"
| "activity_state_string AExited = ''exited''"

fun activity_kind_string :: "activity_kind \<Rightarrow> string" where
  "activity_kind_string NativeProcess = ''native-process''" | "activity_kind_string CompatProcess = ''compat-process''"

definition PROCESS_ACTIVITY_STATES :: "activity_state list" where
  "PROCESS_ACTIVITY_STATES = [AStarting, ARunning, ACompleted, AFailed, ATimedOut, ATerminated, AExited]"

record process_activity =
  px_id :: string
  px_kind :: activity_kind
  px_state :: activity_state
  px_pid :: int
  px_operation :: string
  px_processLabel :: string
  px_taskId :: "string option"
  px_attempt :: "int option"
  px_phase :: "string option"
  px_cwd :: "string option"
  px_externalId :: "string option"
  px_startedAt :: timestamp
  px_updatedAt :: timestamp
  px_lastStdoutAt :: "timestamp option"
  px_lastResourceAt :: "timestamp option"
  px_finishedAt :: "timestamp option"
  px_exitCode :: "int option"
  px_signal :: "string option"
  px_identity :: "process_identity option"

datatype activity_error =
    ContextInvalid string | ActivityUnreadable | ActivityShape | IntentShape | ActivityMalformed | IntentMismatch | ActivityDuplicate
  | ActivityCapacity | BindingImmutable | IntentPid | IntentIdentity | IntentNotBindable

definition MAX_ACTIVITY_RECORDS :: nat where
  "MAX_ACTIVITY_RECORDS = 200"

text \<open>An optional member with a check: absent, or of the type and passing the check.\<close>

definition guarded_field :: "('a \<Rightarrow> bool) \<Rightarrow> (json \<Rightarrow> 'a option) \<Rightarrow> json \<Rightarrow> string \<Rightarrow> 'a option option" where
  "guarded_field P f v k = (case jget v k of
      None \<Rightarrow> Some None
    | Some x \<Rightarrow> (case f x of Some y \<Rightarrow> if P y then Some (Some y) else None | None \<Rightarrow> None))"

definition signal_name :: "string \<Rightarrow> bool" where
  "signal_name s = (starts_with s ''SIG'' \<and> 4 \<le> length s \<and> length s \<le> 19 \<and> list_all (\<lambda>c. is_upper c \<or> is_digit c) (drop 3 s))"

definition attempt_ok :: "int \<Rightarrow> bool" where
  "attempt_ok n = (1 \<le> n \<and> n \<le> 100)"

definition validRecord :: "json \<Rightarrow> process_activity option" where
  "validRecord v =
     (case (str_field v ''id'', Option.bind (str_field v ''kind'') (\<lambda>s. List.find (\<lambda>k. activity_kind_string k = s) [NativeProcess, CompatProcess]),
            Option.bind (str_field v ''state'') (\<lambda>s. List.find (\<lambda>k. activity_state_string k = s) PROCESS_ACTIVITY_STATES), int_field v ''pid'',
            str_field v ''operation'', str_field v ''processLabel'', stamp_field v ''startedAt'', stamp_field v ''updatedAt'') of
        (Some i, Some k, Some s, Some p, Some oper, Some l, Some sa, Some ua) \<Rightarrow>
          (case (guarded_field TASK_ID_PATTERN json_string v ''taskId'', guarded_field attempt_ok json_int v ''attempt'',
                 guarded_field (\<lambda>s. length s \<le> 64) json_string v ''phase'', guarded_field (\<lambda>_. True) json_int v ''exitCode'',
                 guarded_field signal_name json_string v ''signal'', parseProcessIdentity (jget v ''identity''),
                 guarded_field (\<lambda>_. True) iso_stamp v ''lastStdoutAt'', guarded_field (\<lambda>_. True) iso_stamp v ''lastResourceAt'') of
             (Some t, Some a, Some ph, Some x, Some sg, Some idn, Some so, Some re) \<Rightarrow>
               if starts_with i ''activity-'' \<and> (if s = AStarting then p = 0 \<and> idn = None else 0 < p) \<and> (\<forall>n \<in> set_option idn. pk_pid n = p)
               then Some \<lparr>px_id = i, px_kind = k, px_state = s, px_pid = p, px_operation = oper, px_processLabel = l, px_taskId = t, px_attempt = a,
                      px_phase = ph, px_cwd = str_field v ''cwd'', px_externalId = str_field v ''externalId'', px_startedAt = sa, px_updatedAt = ua,
                      px_lastStdoutAt = so, px_lastResourceAt = re, px_finishedAt = stamp_field v ''finishedAt'', px_exitCode = x, px_signal = sg,
                      px_identity = idn\<rparr>
               else None
           | _ \<Rightarrow> None)
      | _ \<Rightarrow> None)"

definition activity_json :: "process_activity \<Rightarrow> json" where
  "activity_json r = JObj
     ([(''id'', JStr (px_id r)), (''kind'', JStr (activity_kind_string (px_kind r))), (''state'', JStr (activity_state_string (px_state r))),
       (''pid'', JNum (of_int (px_pid r))), (''operation'', JStr (px_operation r)), (''processLabel'', JStr (px_processLabel r)),
       (''startedAt'', stamp_json (px_startedAt r)), (''updatedAt'', stamp_json (px_updatedAt r))] @
      opt_member ''taskId'' JStr (px_taskId r) @ opt_member ''attempt'' (\<lambda>n. JNum (of_int n)) (px_attempt r) @ opt_member ''phase'' JStr (px_phase r) @
      opt_member ''cwd'' JStr (px_cwd r) @ opt_member ''externalId'' JStr (px_externalId r) @ opt_member ''lastStdoutAt'' stamp_json (px_lastStdoutAt r) @
      opt_member ''lastResourceAt'' stamp_json (px_lastResourceAt r) @ opt_member ''finishedAt'' stamp_json (px_finishedAt r) @
      opt_member ''exitCode'' (\<lambda>n. JNum (of_int n)) (px_exitCode r) @ opt_member ''signal'' JStr (px_signal r) @
      opt_member ''identity'' identity_json (px_identity r))"

section \<open>The store\<close>

record activity_store =
  ay_file :: "json stored"
  ay_intents :: "json stored"

definition unfinished :: "process_activity \<Rightarrow> bool" where
  "unfinished r = (px_state r = AStarting \<or> px_state r = ARunning)"

fun read_rows :: "json stored \<Rightarrow> activity_error + json list" where
  "read_rows Absent = Inr []"
| "read_rows Unreadable = Inl ActivityUnreadable"
| "read_rows (Contents v) = (case v of JArr xs \<Rightarrow> Inr xs | _ \<Rightarrow> Inl ActivityShape)"

fun read_intents :: "json stored \<Rightarrow> activity_error + json list" where
  "read_intents Absent = Inr []"
| "read_intents Unreadable = Inl ActivityUnreadable"
| "read_intents (Contents v) = (case (num_field v ''version'' = Some 1, arr_field v ''records'') of (True, Some xs) \<Rightarrow> Inr xs | _ \<Rightarrow> Inl IntentShape)"

text \<open>An intent whose row is already bound gives way to it.\<close>

fun merge_intents :: "process_activity list \<Rightarrow> process_activity list \<Rightarrow> activity_error + process_activity list" where
  "merge_intents rs [] = Inr rs"
| "merge_intents rs (i # is) = (case List.find (\<lambda>r. px_id r = px_id i) rs of
      None \<Rightarrow> merge_intents (rs @ [i]) is
    | Some b \<Rightarrow> if px_taskId b \<noteq> px_taskId i \<or> px_attempt b \<noteq> px_attempt i \<or> px_startedAt b \<noteq> px_startedAt i then Inl IntentMismatch
        else merge_intents rs is)"

definition readRecords :: "activity_store \<Rightarrow> activity_error + process_activity list" where
  "readRecords st = (case read_rows (ay_file st) of
      Inl e \<Rightarrow> Inl e
    | Inr xs \<Rightarrow> (case read_intents (ay_intents st) of
          Inl e \<Rightarrow> Inl e
        | Inr ys \<Rightarrow> (case (decode_all validRecord xs, decode_all validRecord ys) of
              (Some rows, Some intents) \<Rightarrow>
                if list_ex (\<lambda>r. px_state r = AStarting) rows \<or> list_ex (\<lambda>r. px_state r \<noteq> AStarting) intents then Inl ActivityMalformed
                else (case merge_intents rows intents of
                    Inl e \<Rightarrow> Inl e
                  | Inr rs \<Rightarrow> if distinct (map px_id rs) then Inr rs else Inl ActivityDuplicate)
            | _ \<Rightarrow> Inl ActivityMalformed)))"

definition bounded_rows :: "host_os \<Rightarrow> process_activity list \<Rightarrow> process_activity list" where
  "bounded_rows os rs =
     (let active = filter unfinished rs; finished = sort_key (\<lambda>r. ho_collate os (px_startedAt r)) (filter (\<lambda>r. \<not> unfinished r) rs)
      in take_last (MAX_ACTIVITY_RECORDS - length active) finished @ active)"

definition write_file :: "process_activity list \<Rightarrow> activity_store \<Rightarrow> activity_store" where
  "write_file rs st = st\<lparr>ay_file := Contents (JArr (map activity_json (filter (\<lambda>r. px_state r \<noteq> AStarting) rs)))\<rparr>"

definition write_intents :: "process_activity list \<Rightarrow> activity_store \<Rightarrow> activity_store" where
  "write_intents rs st = st\<lparr>ay_intents := Contents (JObj [(''version'', JNum 1), (''records'', JArr (map activity_json (filter (\<lambda>r. px_state r = AStarting) rs)))])\<rparr>"

text \<open>Both files, or only the first when the process dies in between.\<close>

definition writeRecords :: "host_os \<Rightarrow> bool \<Rightarrow> process_activity list \<Rightarrow> activity_store \<Rightarrow> activity_error + activity_store" where
  "writeRecords os crash rs st =
     (if length (filter unfinished rs) > MAX_ACTIVITY_RECORDS then Inl ActivityCapacity
      else Inr (if crash then write_file (bounded_rows os rs) st
                else write_intents (bounded_rows os rs) (write_file (bounded_rows os rs) st)))"

definition row_binding_ok :: "process_activity list \<Rightarrow> process_activity \<Rightarrow> bool" where
  "row_binding_ok before r = (case List.find (\<lambda>p. px_id p = px_id r) before of
      None \<Rightarrow> True
    | Some p \<Rightarrow>
        (px_pid p = px_pid r \<or> px_state p = AStarting \<and> px_pid p = 0 \<and> px_state r = ARunning \<and> 0 < px_pid r) \<and>
        px_taskId p = px_taskId r \<and> px_attempt p = px_attempt r \<and> \<not> (px_state r = AStarting \<and> px_state p \<noteq> AStarting) \<and>
        assertIdentityBindingUnchanged (px_identity p) (px_identity r))"

definition assertBindingsUnchanged :: "process_activity list \<Rightarrow> process_activity list \<Rightarrow> bool" where
  "assertBindingsUnchanged before after = list_all (row_binding_ok before) after"

type_synonym 'a row_change = "process_activity list \<Rightarrow> activity_error + 'a \<times> process_activity list"

definition mutateRecords :: "host_os \<Rightarrow> bool \<Rightarrow> 'a row_change \<Rightarrow> activity_store \<Rightarrow> (activity_error + 'a) \<times> activity_store" where
  "mutateRecords os crash fn st = (case readRecords st of
      Inl e \<Rightarrow> (Inl e, st)
    | Inr rs \<Rightarrow> (case fn rs of
          Inl e \<Rightarrow> (Inl e, st)
        | Inr (x, rs') \<Rightarrow> if \<not> assertBindingsUnchanged rs rs' then (Inl BindingImmutable, st)
            else (case writeRecords os crash rs' st of Inl e \<Rightarrow> (Inl e, st) | Inr st' \<Rightarrow> (Inr x, st'))))"

section \<open>Operations\<close>

record process_context =
  pc_taskId :: "string option"
  pc_attempt :: "int option"
  pc_phase :: "string option"

definition phase_ok :: "string \<Rightarrow> bool" where
  "phase_ok s = (s \<noteq> [] \<and> length s \<le> 64 \<and> list_all (\<lambda>c. is_alnum c \<or> c \<in> set ''._:-'') s)"

text \<open>The members are typed; an empty task id is refused by the pattern.\<close>

definition validateProcessExecutionContext :: "process_context \<Rightarrow> activity_error + process_context" where
  "validateProcessExecutionContext c =
     (if opt_bad TASK_ID_PATTERN (pc_taskId c) then Inl (ContextInvalid ''taskId'')
      else if opt_bad attempt_ok (pc_attempt c) then Inl (ContextInvalid ''attempt'')
      else if opt_bad phase_ok (pc_phase c) then Inl (ContextInvalid ''phase'')
      else Inr c)"

definition basename :: "string \<Rightarrow> string" where
  "basename p = rev (takeWhile (\<lambda>c. c \<noteq> CHR ''/'') (dropWhile (\<lambda>c. c = CHR ''/'') (rev p)))"

definition quoted_token :: "char \<Rightarrow> string \<Rightarrow> string option" where
  "quoted_token q s = (case s of
      [] \<Rightarrow> None
    | c # r \<Rightarrow> if c = q \<and> takeWhile (\<lambda>x. x \<noteq> q) r \<noteq> [] \<and> q \<in> set r then Some (takeWhile (\<lambda>x. x \<noteq> q) r) else None)"

definition process_label :: "string \<Rightarrow> string" where
  "process_label command =
     (let s = js_trim command;
          token = (case quoted_token (CHR 0x22) s of
              Some t \<Rightarrow> t
            | None \<Rightarrow> (case quoted_token (CHR 0x27) s of Some t \<Rightarrow> t | None \<Rightarrow> takeWhile (\<lambda>c. \<not> is_space c) s));
          base = basename token
      in if base \<noteq> [] \<and> length base \<le> 48 \<and> list_all (\<lambda>c. is_alnum c \<or> c \<in> set ''._+:-'') base then base else ''process'')"

record process_input =
  pn_kind :: activity_kind
  pn_operation :: string
  pn_command :: string
  pn_context :: process_context
  pn_cwd :: "string option"
  pn_externalId :: "string option"

definition fresh_row :: "process_input \<Rightarrow> activity_state \<Rightarrow> int \<Rightarrow> process_identity option \<Rightarrow> string option \<Rightarrow> string \<Rightarrow> int \<Rightarrow> process_activity" where
  "fresh_row i s pid idn ext uuid now =
     \<lparr>px_id = ''activity-'' @ uuid, px_kind = pn_kind i, px_state = s, px_pid = pid, px_operation = pn_operation i, px_processLabel = process_label (pn_command i),
      px_taskId = pc_taskId (pn_context i), px_attempt = pc_attempt (pn_context i), px_phase = pc_phase (pn_context i), px_cwd = given (pn_cwd i),
      px_externalId = ext, px_startedAt = Iso now, px_updatedAt = Iso now, px_lastStdoutAt = None, px_lastResourceAt = None, px_finishedAt = None,
      px_exitCode = None, px_signal = None, px_identity = idn\<rparr>"

definition recordProcessIntent :: "host_os \<Rightarrow> bool \<Rightarrow> process_input \<Rightarrow> string \<Rightarrow> int \<Rightarrow> activity_store \<Rightarrow> (activity_error + process_activity) \<times> activity_store" where
  "recordProcessIntent os crash i uuid now st = (case validateProcessExecutionContext (pn_context i) of
      Inl e \<Rightarrow> (Inl e, st)
    | Inr _ \<Rightarrow> (let r = fresh_row i AStarting 0 None None uuid now in mutateRecords os crash (\<lambda>rs. Inr (r, rs @ [r])) st))"

text \<open>\<open>records.find\<close> followed by an assignment to the record it found.\<close>

fun change_first :: "('a \<Rightarrow> bool) \<Rightarrow> ('a \<Rightarrow> 'a) \<Rightarrow> 'a list \<Rightarrow> 'a list" where
  "change_first P f [] = []"
| "change_first P f (x # xs) = (if P x then f x # xs else x # change_first P f xs)"

definition bind_row :: "string \<Rightarrow> int \<Rightarrow> process_identity \<Rightarrow> int \<Rightarrow> process_activity row_change" where
  "bind_row i pid idn now rs = (case List.find (\<lambda>r. px_id r = i) rs of
      None \<Rightarrow> Inl IntentNotBindable
    | Some r \<Rightarrow> if px_state r \<noteq> AStarting then Inl IntentNotBindable
        else (let f = (\<lambda>r. r\<lparr>px_state := ARunning, px_pid := pid, px_updatedAt := Iso now, px_identity := Some idn\<rparr>)
              in Inr (f r, change_first (\<lambda>r. px_id r = i) f rs)))"

definition bindProcessIntent :: "host_os \<Rightarrow> bool \<Rightarrow> string \<Rightarrow> int \<Rightarrow> int \<Rightarrow> activity_store \<Rightarrow> (activity_error + process_activity) \<times> activity_store" where
  "bindProcessIntent os crash i pid now st =
     (if pid \<le> 0 then (Inl IntentPid, st)
      else (case captureProcessIdentity os pid now of
          None \<Rightarrow> (Inl IntentIdentity, st)
        | Some idn \<Rightarrow> mutateRecords os crash (bind_row i pid idn now) st))"

definition startProcessActivity :: "host_os \<Rightarrow> bool \<Rightarrow> process_input \<Rightarrow> int \<Rightarrow> string \<Rightarrow> int \<Rightarrow> activity_store \<Rightarrow> (activity_error + process_activity) \<times> activity_store" where
  "startProcessActivity os crash i pid uuid now st = (case validateProcessExecutionContext (pn_context i) of
      Inl e \<Rightarrow> (Inl e, st)
    | Inr _ \<Rightarrow> (let r = fresh_row i ARunning pid (captureProcessIdentity os pid now) (given (pn_externalId i)) uuid now
               in mutateRecords os crash (\<lambda>rs. Inr (r, rs @ [r])) st))"

record activity_patch =
  ap_state :: "activity_state option"
  ap_updatedAt :: "timestamp option"
  ap_finishedAt :: "timestamp option"
  ap_exitCode :: "int option"
  ap_signal :: "string option"
  ap_externalId :: "string option"
  ap_lastStdoutAt :: "timestamp option"
  ap_lastResourceAt :: "timestamp option"

definition over :: "'a option \<Rightarrow> 'a option \<Rightarrow> 'a option" where
  "over new old = (case new of None \<Rightarrow> old | Some x \<Rightarrow> Some x)"

definition patch_row :: "activity_patch \<Rightarrow> int \<Rightarrow> process_activity \<Rightarrow> process_activity" where
  "patch_row p now r = r\<lparr>px_state := (case ap_state p of Some s \<Rightarrow> s | None \<Rightarrow> px_state r), px_updatedAt := (case ap_updatedAt p of Some t \<Rightarrow> t | None \<Rightarrow> Iso now),
     px_finishedAt := over (ap_finishedAt p) (px_finishedAt r), px_exitCode := over (ap_exitCode p) (px_exitCode r), px_signal := over (ap_signal p) (px_signal r),
     px_externalId := over (ap_externalId p) (px_externalId r), px_lastStdoutAt := over (ap_lastStdoutAt p) (px_lastStdoutAt r),
     px_lastResourceAt := over (ap_lastResourceAt p) (px_lastResourceAt r)\<rparr>"

definition update_row :: "(process_activity \<Rightarrow> bool) \<Rightarrow> activity_patch \<Rightarrow> int \<Rightarrow> bool row_change" where
  "update_row P p now rs = Inr (list_ex P rs, change_first P (patch_row p now) rs)"

definition updateProcessActivity :: "host_os \<Rightarrow> bool \<Rightarrow> string \<Rightarrow> activity_patch \<Rightarrow> int \<Rightarrow> activity_store \<Rightarrow> (activity_error + bool) \<times> activity_store" where
  "updateProcessActivity os crash i p now st = mutateRecords os crash (update_row (\<lambda>r. px_id r = i) p now) st"

text \<open>The last running row of the pid.\<close>

definition updateProcessActivityByPid :: "host_os \<Rightarrow> bool \<Rightarrow> int \<Rightarrow> activity_patch \<Rightarrow> int \<Rightarrow> activity_store \<Rightarrow> (activity_error + bool) \<times> activity_store" where
  "updateProcessActivityByPid os crash pid p now st = mutateRecords os crash
     (\<lambda>rs. case update_row (\<lambda>r. px_pid r = pid \<and> px_state r = ARunning) p now (rev rs) of Inl e \<Rightarrow> Inl e | Inr (b, rs') \<Rightarrow> Inr (b, rev rs')) st"

definition finish_patch :: "activity_state \<Rightarrow> int option \<Rightarrow> string option \<Rightarrow> int \<Rightarrow> activity_patch" where
  "finish_patch s code sig now = \<lparr>ap_state = Some s, ap_updatedAt = Some (Iso now), ap_finishedAt = Some (Iso now), ap_exitCode = code, ap_signal = sig,
     ap_externalId = None, ap_lastStdoutAt = None, ap_lastResourceAt = None\<rparr>"

definition finishProcessActivity ::
  "host_os \<Rightarrow> bool \<Rightarrow> string \<Rightarrow> activity_state \<Rightarrow> int option \<Rightarrow> string option \<Rightarrow> int \<Rightarrow> activity_store \<Rightarrow> (activity_error + bool) \<times> activity_store" where
  "finishProcessActivity os crash i s code sig now st = updateProcessActivity os crash i (finish_patch s code sig now) now st"

definition finishProcessActivityByPid :: "host_os \<Rightarrow> bool \<Rightarrow> int \<Rightarrow> activity_state \<Rightarrow> int option \<Rightarrow> int \<Rightarrow> activity_store \<Rightarrow> (activity_error + bool) \<times> activity_store" where
  "finishProcessActivityByPid os crash pid s code now st = updateProcessActivityByPid os crash pid (finish_patch s code None now) now st"

definition touch_patch :: "bool \<Rightarrow> bool \<Rightarrow> int \<Rightarrow> activity_patch" where
  "touch_patch out res now = \<lparr>ap_state = None, ap_updatedAt = Some (Iso now), ap_finishedAt = None, ap_exitCode = None, ap_signal = None, ap_externalId = None,
     ap_lastStdoutAt = (if out then Some (Iso now) else None), ap_lastResourceAt = (if res then Some (Iso now) else None)\<rparr>"

definition touchProcessActivityByPid :: "host_os \<Rightarrow> bool \<Rightarrow> int \<Rightarrow> string \<Rightarrow> int \<Rightarrow> activity_store \<Rightarrow> (activity_error + bool) \<times> activity_store" where
  "touchProcessActivityByPid os crash pid sig now st =
     updateProcessActivityByPid os crash pid (touch_patch (sig = ''stdout'') (sig = ''resource'') now) now st"

definition ended_now :: "host_os \<Rightarrow> process_activity \<Rightarrow> bool" where
  "ended_now os r = (px_state r = ARunning \<and> verifyProcessIdentity os (px_identity r) (px_pid r) \<in> {GONE, REUSED})"

definition exit_row :: "host_os \<Rightarrow> int \<Rightarrow> process_activity \<Rightarrow> process_activity" where
  "exit_row os now r = (if ended_now os r then r\<lparr>px_state := AExited, px_finishedAt := Some (Iso now), px_updatedAt := Iso now\<rparr> else r)"

definition reconcileRunning :: "host_os \<Rightarrow> int \<Rightarrow> process_activity list \<Rightarrow> bool \<times> process_activity list" where
  "reconcileRunning os now rs = (list_ex (ended_now os) rs, map (exit_row os now) rs)"

definition select_rows :: "host_os \<Rightarrow> bool \<Rightarrow> nat \<Rightarrow> process_activity list \<Rightarrow> process_activity list" where
  "select_rows os includeFinished limit rs =
     take (max 1 (min limit MAX_ACTIVITY_RECORDS)) (sort_key (\<lambda>r. - ho_collate os (px_startedAt r)) (filter (\<lambda>r. includeFinished \<or> unfinished r) rs))"

definition listProcessActivities ::
  "host_os \<Rightarrow> bool \<Rightarrow> bool \<Rightarrow> nat \<Rightarrow> int \<Rightarrow> activity_store \<Rightarrow> (activity_error + process_activity list) \<times> activity_store" where
  "listProcessActivities os crash includeFinished limit now st = (case readRecords st of
      Inl e \<Rightarrow> (Inl e, st)
    | Inr rs \<Rightarrow> (case reconcileRunning os now rs of
          (changed, rs') \<Rightarrow>
            if changed then (case writeRecords os crash rs' st of Inl e \<Rightarrow> (Inl e, st) | Inr st' \<Rightarrow> (Inr (select_rows os includeFinished limit rs'), st'))
            else (Inr (select_rows os includeFinished limit rs'), st)))"

definition readProcessActivities :: "host_os \<Rightarrow> bool \<Rightarrow> nat \<Rightarrow> activity_store \<Rightarrow> activity_error + process_activity list" where
  "readProcessActivities os includeFinished limit st = (case readRecords st of
      Inl e \<Rightarrow> Inl e
    | Inr rs \<Rightarrow> Inr (select_rows os includeFinished limit rs))"

text \<open>What an activity shows to others: no pid, no directory, no external id and no identity.\<close>

definition share_row :: "process_activity \<Rightarrow> json" where
  "share_row r = JObj
     ([(''id'', JStr (px_id r)), (''kind'', JStr (activity_kind_string (px_kind r))), (''state'', JStr (activity_state_string (px_state r))),
       (''operation'', JStr (px_operation r)), (''processLabel'', JStr (px_processLabel r)), (''startedAt'', stamp_json (px_startedAt r)),
       (''updatedAt'', stamp_json (px_updatedAt r))] @
      opt_member ''taskId'' JStr (px_taskId r) @ opt_member ''attempt'' (\<lambda>n. JNum (of_int n)) (px_attempt r) @ opt_member ''phase'' JStr (given (px_phase r)) @
      opt_member ''lastStdoutAt'' stamp_json (px_lastStdoutAt r) @ opt_member ''lastResourceAt'' stamp_json (px_lastResourceAt r) @
      opt_member ''finishedAt'' stamp_json (px_finishedAt r) @ opt_member ''exitCode'' (\<lambda>n. JNum (of_int n)) (px_exitCode r) @
      opt_member ''signal'' JStr (px_signal r))"

definition shareSafeActivity :: "process_activity list \<Rightarrow> json list" where
  "shareSafeActivity rs = map share_row rs"

section \<open>Rows are read back as they were written\<close>

definition identity_ok :: "process_identity \<Rightarrow> bool" where
  "identity_ok i = (0 < pk_pid i \<and> pk_platform i \<in> set PROCESS_IDENTITY_PLATFORMS \<and> START_TOKEN_PATTERN (pk_startToken i) \<and> date_parse (pk_capturedAt i) \<noteq> None)"

definition activity_ok :: "process_activity \<Rightarrow> bool" where
  "activity_ok r = (starts_with (px_id r) ''activity-'' \<and> \<not> opt_bad TASK_ID_PATTERN (px_taskId r) \<and> \<not> opt_bad attempt_ok (px_attempt r) \<and>
     \<not> opt_bad (\<lambda>s. length s \<le> 64) (px_phase r) \<and> \<not> opt_bad signal_name (px_signal r) \<and>
     \<not> opt_bad (\<lambda>t. date_parse t \<noteq> None) (px_lastStdoutAt r) \<and> \<not> opt_bad (\<lambda>t. date_parse t \<noteq> None) (px_lastResourceAt r) \<and>
     (if px_state r = AStarting then px_pid r = 0 \<and> px_identity r = None else 0 < px_pid r) \<and>
     \<not> opt_bad (\<lambda>i. identity_ok i \<and> pk_pid i = px_pid r) (px_identity r))"

lemma iso_stamp_json: "date_parse t \<noteq> None \<Longrightarrow> iso_stamp (stamp_json t) = Some t"
  by (cases t) simp_all

lemma parse_identity_json: "identity_ok i \<Longrightarrow> parseProcessIdentity (Some (identity_json i)) = Some (Some i)"
  by (simp add: parseProcessIdentity_def identity_json_def identity_ok_def iso_stamp_json)

lemma guarded_field_JObj: "guarded_field P f (JObj kvs) k = (case map_of kvs k of
      None \<Rightarrow> Some None
    | Some x \<Rightarrow> (case f x of Some y \<Rightarrow> if P y then Some (Some y) else None | None \<Rightarrow> None))"
  by (simp add: guarded_field_def)

lemma find_state_string: "List.find (\<lambda>k. activity_state_string k = activity_state_string s) PROCESS_ACTIVITY_STATES = Some s"
  by (cases s) (simp_all add: PROCESS_ACTIVITY_STATES_def)

lemma find_kind_string: "List.find (\<lambda>k. activity_kind_string k = activity_kind_string s) [NativeProcess, CompatProcess] = Some s"
  by (cases s) simp_all

lemma map_of_opt_put:
  "map_of (opt_member k f v @ r) k' = (if k = k' then (case v of None \<Rightarrow> map_of r k' | Some x \<Rightarrow> Some (f x)) else map_of r k')"
  "map_of (opt_member k f v) k' = (if k = k' then map_option f v else None)"
  by (auto simp: opt_member_def split: option.splits)

lemma case_map_option: "(case map_option f x of None \<Rightarrow> a | Some y \<Rightarrow> g y) = (case x of None \<Rightarrow> a | Some y \<Rightarrow> g (f y))"
  by (cases x) simp_all

lemma case_Some_id [simp]: "(case x of None \<Rightarrow> Some None | Some y \<Rightarrow> Some (Some y)) = Some x" "(case x of None \<Rightarrow> None | Some y \<Rightarrow> Some y) = x"
  by (cases x; simp)+

lemma guarded_opt_member:
  assumes "\<not> opt_bad P x" and "\<And>y. x = Some y \<Longrightarrow> f (g y) = Some y" and "map_of kvs k = map_option g x"
  shows "guarded_field P f (JObj kvs) k = Some x"
  using assms by (cases x) (simp_all add: guarded_field_JObj opt_bad_def)

lemma valid_activity_json:
  assumes "activity_ok r"
  shows "validRecord (activity_json r) = Some r"
proof -
  let ?v = "activity_json r"
  note M = activity_json_def field_def guarded_field_JObj map_of_opt_put
  have plain: "str_field ?v ''id'' = Some (px_id r)" "str_field ?v ''kind'' = Some (activity_kind_string (px_kind r))"
      "str_field ?v ''state'' = Some (activity_state_string (px_state r))" "int_field ?v ''pid'' = Some (px_pid r)"
      "str_field ?v ''operation'' = Some (px_operation r)" "str_field ?v ''processLabel'' = Some (px_processLabel r)"
      "stamp_field ?v ''startedAt'' = Some (px_startedAt r)" "stamp_field ?v ''updatedAt'' = Some (px_updatedAt r)"
    by (simp_all add: activity_json_def)
  have free: "str_field ?v ''cwd'' = px_cwd r" "str_field ?v ''externalId'' = px_externalId r" "stamp_field ?v ''finishedAt'' = px_finishedAt r"
    by (simp_all add: M del: map_of_append split: option.split)
  note D = assms [unfolded activity_ok_def]
  have stamps: "px_lastStdoutAt r = Some y \<Longrightarrow> date_parse y \<noteq> None" "px_lastResourceAt r = Some y \<Longrightarrow> date_parse y \<noteq> None" for y
    using D by (auto simp: opt_bad_def)
  have members: "guarded_field TASK_ID_PATTERN json_string ?v ''taskId'' = Some (px_taskId r)"
      "guarded_field attempt_ok json_int ?v ''attempt'' = Some (px_attempt r)"
      "guarded_field (\<lambda>s. length s \<le> 64) json_string ?v ''phase'' = Some (px_phase r)"
      "guarded_field signal_name json_string ?v ''signal'' = Some (px_signal r)"
      "guarded_field (\<lambda>_. True) json_int ?v ''exitCode'' = Some (px_exitCode r)"
      "guarded_field (\<lambda>_. True) iso_stamp ?v ''lastStdoutAt'' = Some (px_lastStdoutAt r)"
      "guarded_field (\<lambda>_. True) iso_stamp ?v ''lastResourceAt'' = Some (px_lastResourceAt r)"
    unfolding activity_json_def
    by (rule guarded_opt_member [where g = JStr] guarded_opt_member [where g = "\<lambda>n. JNum (of_int n)"] guarded_opt_member [where g = stamp_json];
        use D in \<open>simp add: map_of_opt_put opt_bad_def iso_stamp_json stamps del: map_of_append split: option.split\<close>)+
  have idn: "parseProcessIdentity (jget ?v ''identity'') = Some (px_identity r)"
  proof (cases "px_identity r")
    case None
    then show ?thesis by (simp add: M parseProcessIdentity_def del: map_of_append)
  next
    case (Some i)
    then have "identity_ok i" using assms by (simp add: activity_ok_def opt_bad_def)
    with Some show ?thesis using parse_identity_json by (simp add: M del: map_of_append)
  qed
  show ?thesis
    unfolding validRecord_def plain free members idn bind.simps find_state_string find_kind_string
    using D by (cases "px_identity r"; cases "px_state r = AStarting") (simp_all add: opt_bad_def)
qed

lemma guarded_fieldD: "guarded_field P f v k = Some x \<Longrightarrow> \<not> opt_bad P x"
  by (auto simp: guarded_field_def opt_bad_def split: option.splits if_splits)

lemma checked_stampD: "guarded_field P iso_stamp v k = Some x \<Longrightarrow> \<not> opt_bad (\<lambda>t. date_parse t \<noteq> None) x"
  by (auto simp: guarded_field_def opt_bad_def split: option.splits if_splits elim!: iso_stamp.elims)

lemma parse_identityD: "parseProcessIdentity v = Some (Some i) \<Longrightarrow> identity_ok i"
  by (auto simp: parseProcessIdentity_def identity_ok_def field_def split: option.splits if_splits elim!: iso_stamp.elims)

lemma all_eight:
  "(case (a, b, c, d, e, f, g, h) of
      (Some a, Some b, Some c, Some d, Some e, Some f, Some g, Some h) \<Rightarrow> F a b c d e f g h | _ \<Rightarrow> None) = Some z \<longleftrightarrow>
   (\<exists>a' b' c' d' e' f' g' h'. a = Some a' \<and> b = Some b' \<and> c = Some c' \<and> d = Some d' \<and> e = Some e' \<and> f = Some f' \<and>
      g = Some g' \<and> h = Some h' \<and> F a' b' c' d' e' f' g' h' = Some z)"
  by (cases a; cases b; cases c; cases d; cases e; cases f; cases g; cases h; simp)

lemma if_Some_iff: "(if b then Some x else None) = Some y \<longleftrightarrow> b \<and> x = y" by simp

lemma validRecord_ok: 
  assumes v: "validRecord v = Some r"
  shows "activity_ok r"
proof -
  from v have D: "starts_with (px_id r) ''activity-''" "if px_state r = AStarting then px_pid r = 0 \<and> px_identity r = None else 0 < px_pid r"
      "\<forall>n \<in> set_option (px_identity r). pk_pid n = px_pid r"
    and t: "guarded_field TASK_ID_PATTERN json_string v ''taskId'' = Some (px_taskId r)"
    and a: "guarded_field attempt_ok json_int v ''attempt'' = Some (px_attempt r)"
    and ph: "guarded_field (\<lambda>s. length s \<le> 64) json_string v ''phase'' = Some (px_phase r)"
    and sg: "guarded_field signal_name json_string v ''signal'' = Some (px_signal r)"
    and so: "guarded_field (\<lambda>_. True) iso_stamp v ''lastStdoutAt'' = Some (px_lastStdoutAt r)"
    and re: "guarded_field (\<lambda>_. True) iso_stamp v ''lastResourceAt'' = Some (px_lastResourceAt r)"
    and i: "parseProcessIdentity (jget v ''identity'') = Some (px_identity r)"
    unfolding validRecord_def all_eight if_Some_iff by (elim exE conjE, hypsubst, simp)+
  have "\<not> opt_bad (\<lambda>i. identity_ok i \<and> pk_pid i = px_pid r) (px_identity r)"
    using parse_identityD [of "jget v ''identity''"] i D(3) by (cases "px_identity r") (simp_all add: opt_bad_def)
  then show ?thesis
    using D guarded_fieldD [OF t] guarded_fieldD [OF a] guarded_fieldD [OF ph] guarded_fieldD [OF sg] checked_stampD [OF so] checked_stampD [OF re]
    unfolding activity_ok_def by blast
qed

section \<open>Evidence survives every operation and every crash\<close>

text \<open>The row of the same activity: its bindings are those it had.\<close>

definition carries :: "process_activity \<Rightarrow> process_activity \<Rightarrow> bool" where
  "carries r r' = (px_id r' = px_id r \<and> px_taskId r' = px_taskId r \<and> px_attempt r' = px_attempt r \<and> px_startedAt r' = px_startedAt r \<and>
     (px_state r = ARunning \<longrightarrow> px_pid r' = px_pid r \<and> (px_identity r \<noteq> None \<longrightarrow> px_identity r' = px_identity r)))"

definition rows_ok :: "process_activity list \<Rightarrow> bool" where
  "rows_ok rs = (list_all activity_ok rs \<and> distinct (map px_id rs))"

definition binding_of :: "process_activity \<Rightarrow> string option \<times> int option \<times> timestamp" where
  "binding_of r = (px_taskId r, px_attempt r, px_startedAt r)"

lemma carries_binding: "carries r r' \<Longrightarrow> px_id r' = px_id r \<and> binding_of r' = binding_of r"
  by (simp add: carries_def binding_of_def)

lemma carries_refl [simp]: "carries r r"
  by (simp add: carries_def)

lemma decode_json_rows: "list_all activity_ok rs \<Longrightarrow> decode_all validRecord (map activity_json rs) = Some rs"
  by (rule decode_all_map) (simp add: list_all_iff valid_activity_json)

lemma merge_intents_ok:
  assumes "\<And>x. x \<in> set rows \<union> set is \<Longrightarrow> binding_of x = B (px_id x)"
  shows "\<exists>J. merge_intents rows is = Inr (rows @ J) \<and> set J \<subseteq> set is \<and> px_id ` set (rows @ J) = px_id ` (set rows \<union> set is) \<and>
     (distinct (map px_id rows) \<longrightarrow> distinct (map px_id (rows @ J)))"
  using assms
proof (induction "is" arbitrary: rows)
  case Nil
  then show ?case by simp
next
  case (Cons i js)
  show ?case
  proof (cases "List.find (\<lambda>r. px_id r = px_id i) rows")
    case None
    have "binding_of x = B (px_id x)" if "x \<in> set (rows @ [i]) \<union> set js" for x using Cons.prems that by auto
    from Cons.IH [OF this] obtain J where J: "merge_intents (rows @ [i]) js = Inr ((rows @ [i]) @ J)" "set J \<subseteq> set js"
        "px_id ` set ((rows @ [i]) @ J) = px_id ` (set (rows @ [i]) \<union> set js)"
        "distinct (map px_id (rows @ [i])) \<longrightarrow> distinct (map px_id ((rows @ [i]) @ J))" by blast
    have "px_id i \<notin> px_id ` set rows" using None by (auto simp: find_None_iff_all)
    with None J show ?thesis by (intro exI [of _ "i # J"]) auto
  next
    case (Some b)
    then have b: "b \<in> set rows" "px_id b = px_id i" using find_SomeD by fastforce+
    then have "binding_of b = binding_of i" using Cons.prems [of b] Cons.prems [of i] by simp
    moreover have "binding_of x = B (px_id x)" if "x \<in> set rows \<union> set js" for x using Cons.prems that by auto
    from Cons.IH [OF this] obtain J where J: "merge_intents rows js = Inr (rows @ J)" "set J \<subseteq> set js"
        "px_id ` set (rows @ J) = px_id ` (set rows \<union> set js)" "distinct (map px_id rows) \<longrightarrow> distinct (map px_id (rows @ J))" by blast
    moreover have "px_id i \<in> px_id ` set rows" using b by (metis imageI)
    ultimately show ?thesis using Some b by (intro exI [of _ J]) (auto simp: binding_of_def insert_absorb)
  qed
qed

lemma merge_intentsD:
  "merge_intents rows is = Inr rs \<Longrightarrow> (\<exists>J. rs = rows @ J \<and> set J \<subseteq> set is) \<and> (\<forall>i \<in> set is. \<exists>r \<in> set rs. px_id r = px_id i \<and> binding_of r = binding_of i)"
proof (induction "is" arbitrary: rows)
  case (Cons i js)
  show ?case
  proof (cases "List.find (\<lambda>r. px_id r = px_id i) rows")
    case None
    with Cons.prems have "merge_intents (rows @ [i]) js = Inr rs" by simp
    from Cons.IH [OF this] show ?thesis by fastforce
  next
    case (Some b)
    then have b: "b \<in> set rows" "px_id b = px_id i" using find_SomeD by fastforce+
    with Some Cons.prems have "merge_intents rows js = Inr rs" "binding_of b = binding_of i"
      by (auto simp: binding_of_def split: if_splits)
    with Cons.IH [OF this(1)] b show ?thesis by fastforce
  qed
qed simp

lemma readRecordsD:
  assumes "readRecords st = Inr rs"
  obtains rows ints ys J where "read_intents (ay_intents st) = Inr ys" "decode_all validRecord ys = Some ints"
    "\<forall>i \<in> set ints. px_state i = AStarting \<and> activity_ok i" "\<forall>r \<in> set rows. px_state r \<noteq> AStarting"
    "rs = rows @ J" "set J \<subseteq> set ints" "\<forall>i \<in> set ints. \<exists>r \<in> set rs. px_id r = px_id i \<and> binding_of r = binding_of i" "rows_ok rs"
proof -
  obtain xs ys rows ints where r: "read_rows (ay_file st) = Inr xs" "read_intents (ay_intents st) = Inr ys"
      "decode_all validRecord xs = Some rows" "decode_all validRecord ys = Some ints"
      "\<not> list_ex (\<lambda>r. px_state r = AStarting) rows" "\<not> list_ex (\<lambda>r. px_state r \<noteq> AStarting) ints"
      "merge_intents rows ints = Inr rs" "distinct (map px_id rs)"
    using assms unfolding readRecords_def by (auto split: sum.splits option.splits if_splits)
  have ok: "list_all activity_ok rows" "list_all activity_ok ints"
    using decode_all_list_all [OF r(3)] decode_all_list_all [OF r(4)] validRecord_ok by blast+
  obtain J where J: "rs = rows @ J" "set J \<subseteq> set ints" and B: "\<forall>i \<in> set ints. \<exists>r \<in> set rs. px_id r = px_id i \<and> binding_of r = binding_of i"
    using merge_intentsD [OF r(7)] by blast
  have "rows_ok rs" using ok J r(8) by (auto simp: rows_ok_def list_all_iff)
  then show thesis using that [OF r(2,4)] r(5,6) ok(2) J B by (auto simp: list_ex_iff list_all_iff)
qed

lemma set_bounded: "set (bounded_rows os rs) \<subseteq> set rs"
  using set_take_last by (fastforce simp: bounded_rows_def Let_def)

lemma unfinished_bounded: "r \<in> set rs \<Longrightarrow> unfinished r \<Longrightarrow> r \<in> set (bounded_rows os rs)"
  by (simp add: bounded_rows_def Let_def)

lemma distinct_map_take_last: "distinct (map f xs) \<Longrightarrow> distinct (map f (take_last n xs))"
  unfolding take_last_def by (metis distinct_drop drop_map)

lemma rows_ok_bounded: "rows_ok rs \<Longrightarrow> rows_ok (bounded_rows os rs)"
proof -
  assume rs: "rows_ok rs"
  let ?f = "sort_key (\<lambda>r. ho_collate os (px_startedAt r)) (filter (\<lambda>r. \<not> unfinished r) rs)"
  have i: "inj_on px_id (set rs)" and d: "distinct rs" using rs by (simp_all add: rows_ok_def distinct_map)
  have "distinct (map px_id (take_last n ?f))" for n
    by (rule distinct_map_take_last) (use i d in \<open>simp add: distinct_map inj_on_subset [OF i]\<close>)
  moreover have "distinct (map px_id (filter unfinished rs))" using i d by (simp add: distinct_map inj_on_subset [OF i])
  moreover have "px_id ` set (take_last n ?f) \<inter> px_id ` set (filter unfinished rs) = {}" for n
    using set_take_last [of n ?f] i by (fastforce simp: inj_on_def)
  ultimately have "distinct (map px_id (bounded_rows os rs))" by (simp add: bounded_rows_def Let_def)
  then show ?thesis using rs set_bounded [of os rs] by (auto simp: rows_ok_def list_all_iff)
qed

lemma read_written:
  assumes "rows_ok b"
  shows "readRecords (write_intents b (write_file b st)) = Inr (filter (\<lambda>r. px_state r \<noteq> AStarting) b @ filter (\<lambda>r. px_state r = AStarting) b)"
proof -
  let ?n = "filter (\<lambda>r. px_state r \<noteq> AStarting) b" and ?s = "filter (\<lambda>r. px_state r = AStarting) b"
  have ok: "list_all activity_ok ?n" "list_all activity_ok ?s" using assms by (auto simp: rows_ok_def list_all_iff)
  have dis: "distinct (map px_id (?n @ ?s))"
    using assms by (auto simp: rows_ok_def distinct_map inj_on_def)
  have "merge_intents ns ss = Inr (ns @ ss)" if "distinct (map px_id (ns @ ss))" for ns ss
    using that
  proof (induction ss arbitrary: ns)
    case (Cons i ss)
    then have "List.find (\<lambda>r. px_id r = px_id i) ns = None" by (auto simp: find_None_iff_all image_iff)
    with Cons show ?case by simp
  qed simp
  from this [OF dis] show ?thesis
    using decode_json_rows [OF ok(1)] decode_json_rows [OF ok(2)] dis
    by (simp add: readRecords_def write_intents_def write_file_def list_ex_iff)
qed

text \<open>What the rows are allowed to become: every row goes on, with its bindings; only \<open>E\<close> rows end.\<close>

definition evolves :: "(process_activity \<Rightarrow> bool) \<Rightarrow> process_activity list \<Rightarrow> process_activity list \<Rightarrow> bool" where
  "evolves E rs rs' = (rows_ok rs' \<and> (\<forall>r \<in> set rs. \<exists>r' \<in> set rs'. carries r r' \<and> (px_state r' = AStarting \<longrightarrow> px_state r = AStarting) \<and>
     (unfinished r \<and> \<not> E r \<longrightarrow> unfinished r')))"

definition survives :: "(process_activity \<Rightarrow> bool) \<Rightarrow> process_activity list \<Rightarrow> activity_store \<Rightarrow> bool" where
  "survives E rs st' = (\<exists>rs'. readRecords st' = Inr rs' \<and> (\<forall>r \<in> set rs. unfinished r \<and> \<not> E r \<longrightarrow> (\<exists>r' \<in> set rs'. unfinished r' \<and> carries r r')))"

lemma survives_refl: "readRecords st = Inr rs \<Longrightarrow> survives E rs st"
  unfolding survives_def by force

lemma written_survives:
  assumes "evolves E rs rs'"
  shows "survives E rs (write_intents (bounded_rows os rs') (write_file (bounded_rows os rs') st))"
proof -
  have ok: "rows_ok (bounded_rows os rs')" using assms rows_ok_bounded by (simp add: evolves_def)
  have "\<exists>r' \<in> set (bounded_rows os rs'). unfinished r' \<and> carries r r'" if "r \<in> set rs" "unfinished r" "\<not> E r" for r
    using assms that unfinished_bounded unfolding evolves_def by metis
  then show ?thesis unfolding survives_def read_written [OF ok] by fastforce
qed

lemma crashed_survives:
  assumes st: "readRecords st = Inr rs" and ev: "evolves E rs rs'"
  shows "survives E rs (write_file (bounded_rows os rs') st)"
proof -
  let ?b = "bounded_rows os rs'"
  let ?n = "filter (\<lambda>r. px_state r \<noteq> AStarting) ?b"
  obtain rows ints ys J where I: "read_intents (ay_intents st) = Inr ys" "decode_all validRecord ys = Some ints"
      "\<forall>i \<in> set ints. px_state i = AStarting \<and> activity_ok i" "\<forall>r \<in> set rows. px_state r \<noteq> AStarting"
      and rs: "rs = rows @ J" "set J \<subseteq> set ints"
      and K: "\<forall>i \<in> set ints. \<exists>r \<in> set rs. px_id r = px_id i \<and> binding_of r = binding_of i" and ok: "rows_ok rs"
    by (rule readRecordsD [OF st])
  have ok': "rows_ok rs'" and C: "\<And>r. r \<in> set rs \<Longrightarrow> \<exists>r' \<in> set rs'. carries r r' \<and> (px_state r' = AStarting \<longrightarrow> px_state r = AStarting) \<and>
       (unfinished r \<and> \<not> E r \<longrightarrow> unfinished r')"
    using ev by (simp_all add: evolves_def)
  define B where "B i = binding_of (THE r. r \<in> set rs' \<and> px_id r = i)" for i
  have B: "binding_of r = B (px_id r)" if "r \<in> set rs'" for r
  proof -
    have "(THE q. q \<in> set rs' \<and> px_id q = px_id r) = r"
      using ok' that by (intro the_equality) (auto simp: rows_ok_def distinct_map inj_on_def)
    then show ?thesis by (simp add: B_def)
  qed
  have BI: "binding_of i = B (px_id i)" if "i \<in> set ints" for i
    using K that C B carries_binding by metis
  have n: "set ?n \<subseteq> set rs'" using set_bounded [of os rs'] by auto
  have "binding_of x = B (px_id x)" if "x \<in> set ?n \<union> set ints" for x using that B BI n by blast
  from merge_intents_ok [OF this] obtain L where L: "merge_intents ?n ints = Inr (?n @ L)" "set L \<subseteq> set ints"
      "px_id ` set (?n @ L) = px_id ` (set ?n \<union> set ints)" "distinct (map px_id ?n) \<longrightarrow> distinct (map px_id (?n @ L))" by blast
  have "rows_ok ?b" by (rule rows_ok_bounded [OF ok'])
  then have okn: "list_all activity_ok ?n" "distinct (map px_id ?n)" by (auto simp: rows_ok_def list_all_iff distinct_map inj_on_def)
  have read: "readRecords (write_file ?b st) = Inr (?n @ L)"
    using decode_json_rows [OF okn(1)] okn(2) L I by (simp add: readRecords_def write_file_def list_ex_iff)
  have "\<exists>r' \<in> set (?n @ L). unfinished r' \<and> carries r r'" if r: "r \<in> set rs" "unfinished r" "\<not> E r" for r
  proof -
    obtain r' where r': "r' \<in> set rs'" "carries r r'" "px_state r' = AStarting \<longrightarrow> px_state r = AStarting" "unfinished r'" using C [OF r(1)] r by blast
    show ?thesis
    proof (cases "px_state r' = AStarting")
      case False
      then show ?thesis using r' unfinished_bounded [OF r'(1,4)] by auto
    next
      case True
      then have s: "px_state r = AStarting" using r' by simp
      then have "r \<in> set ints" using r(1) I(4) rs by auto
      then have "px_id r \<in> px_id ` set (?n @ L)" using L(3) by blast
      then obtain q where q: "q \<in> set (?n @ L)" "px_id q = px_id r" by (metis imageE)
      have "q \<notin> set ?n"
      proof
        assume "q \<in> set ?n"
        then have "q \<in> set rs'" "px_state q \<noteq> AStarting" using n by auto
        moreover have "px_id q = px_id r'" using q(2) r'(2) by (simp add: carries_def)
        moreover have "inj_on px_id (set rs')" using ok' by (simp add: rows_ok_def distinct_map)
        ultimately show False using r'(1) True by (metis inj_onD)
      qed
      then have "q \<in> set ints" using q(1) L(2) by auto
      then have "px_state q = AStarting" "binding_of q = binding_of r" using I(3) BI q(2) \<open>r \<in> set ints\<close> by simp_all
      then have "unfinished q" "carries r q" using s q(2) by (simp_all add: unfinished_def carries_def binding_of_def)
      then show ?thesis using q(1) by blast
    qed
  qed
  then show ?thesis unfolding survives_def using read by blast
qed

lemma mutate_survives:
  assumes "readRecords st = Inr rs" and "mutateRecords os crash fn st = (res, st')"
    and "\<And>x rs'. fn rs = Inr (x, rs') \<Longrightarrow> assertBindingsUnchanged rs rs' \<Longrightarrow> evolves E rs rs'"
  shows "survives E rs st'"
  using assms survives_refl [OF assms(1)] written_survives crashed_survives [OF assms(1)]
  by (fastforce simp: mutateRecords_def writeRecords_def split: sum.splits if_splits prod.splits)

lemma set_change_first: "y \<in> set (change_first P f xs) \<Longrightarrow> y \<in> set xs \<or> (\<exists>x \<in> set xs. P x \<and> y = f x)"
  by (induction xs) (auto split: if_splits)

lemma change_first_goes_on: "x \<in> set xs \<Longrightarrow> x \<in> set (change_first P f xs) \<or> P x \<and> f x \<in> set (change_first P f xs)"
  by (induction xs) auto

lemma find_change_first: "List.find P xs = Some x \<Longrightarrow> f x \<in> set (change_first P f xs)"
  by (induction xs) (auto split: if_splits)

lemma length_change_first [simp]: "length (change_first P f xs) = length xs"
  by (induction xs) simp_all

lemma map_change_first: "(\<And>x. x \<in> set xs \<Longrightarrow> P x \<Longrightarrow> g (f x) = g x) \<Longrightarrow> map g (change_first P f xs) = map g xs"
  by (induction xs) auto

lemma evolves_change:
  assumes "rows_ok rs"
    and f: "\<And>r. r \<in> set rs \<Longrightarrow> P r \<Longrightarrow> activity_ok (f r) \<and> carries r (f r) \<and> (px_state (f r) = AStarting \<longrightarrow> px_state r = AStarting) \<and>
      (unfinished r \<and> \<not> E r \<longrightarrow> unfinished (f r))"
  shows "evolves E rs (change_first P f rs)"
proof -
  have "map px_id (change_first P f rs) = map px_id rs" by (rule map_change_first) (use f in \<open>simp add: carries_def\<close>)
  then have "distinct (map px_id (change_first P f rs))" using assms(1) by (simp add: rows_ok_def)
  moreover have "list_all activity_ok (change_first P f rs)"
    using assms(1) f by (auto simp: rows_ok_def list_all_iff dest!: set_change_first)
  ultimately have ok: "rows_ok (change_first P f rs)" by (simp add: rows_ok_def)
  have "\<exists>r' \<in> set (change_first P f rs). carries r r' \<and> (px_state r' = AStarting \<longrightarrow> px_state r = AStarting) \<and> (unfinished r \<and> \<not> E r \<longrightarrow> unfinished r')"
    if "r \<in> set rs" for r
    using change_first_goes_on [OF that, of P f] f [OF that] by (metis carries_refl)
  with ok show ?thesis by (simp add: evolves_def)
qed

lemma evolves_rev: "evolves E (rev rs) rs' \<Longrightarrow> evolves E rs (rev rs')"
  by (simp add: evolves_def rows_ok_def list_all_iff rev_map [symmetric])

lemma evolves_append: "rows_ok rs \<Longrightarrow> activity_ok r \<Longrightarrow> px_id r \<notin> px_id ` set rs \<Longrightarrow> evolves E rs (rs @ [r])"
proof -
  assume "rows_ok rs" "activity_ok r" "px_id r \<notin> px_id ` set rs"
  then have "rows_ok (rs @ [r])" by (simp add: rows_ok_def)
  moreover have "\<exists>r' \<in> set (rs @ [r]). carries q r' \<and> (px_state r' = AStarting \<longrightarrow> px_state q = AStarting) \<and> (unfinished q \<and> \<not> E q \<longrightarrow> unfinished r')"
    if "q \<in> set rs" for q
    by (rule bexI [of _ q]) (use that in simp_all)
  ultimately show ?thesis by (simp add: evolves_def)
qed

section \<open>All operations\<close>

datatype activity_op =
    IntentOp process_input string
  | BindOp string int
  | StartOp process_input int string
  | UpdateOp string activity_patch
  | UpdateByPidOp int activity_patch
  | ListOp bool nat

fun error_of :: "(activity_error + 'a) \<times> activity_store \<Rightarrow> activity_error option \<times> activity_store" where
  "error_of (Inl e, st) = (Some e, st)"
| "error_of (Inr x, st) = (None, st)"

fun activity_exec :: "host_os \<Rightarrow> bool \<Rightarrow> int \<Rightarrow> activity_op \<Rightarrow> activity_store \<Rightarrow> activity_error option \<times> activity_store" where
  "activity_exec os crash now (IntentOp i uuid) st = error_of (recordProcessIntent os crash i uuid now st)"
| "activity_exec os crash now (BindOp i pid) st = error_of (bindProcessIntent os crash i pid now st)"
| "activity_exec os crash now (StartOp i pid uuid) st = error_of (startProcessActivity os crash i pid uuid now st)"
| "activity_exec os crash now (UpdateOp i p) st = error_of (updateProcessActivity os crash i p now st)"
| "activity_exec os crash now (UpdateByPidOp pid p) st = error_of (updateProcessActivityByPid os crash pid p now st)"
| "activity_exec os crash now (ListOp inc n) st = error_of (listProcessActivities os crash inc n now st)"

definition patch_ok :: "activity_patch \<Rightarrow> bool" where
  "patch_ok p = (ap_state p \<noteq> Some AStarting \<and> \<not> opt_bad signal_name (ap_signal p) \<and> \<not> opt_bad (\<lambda>t. date_parse t \<noteq> None) (ap_lastStdoutAt p) \<and>
     \<not> opt_bad (\<lambda>t. date_parse t \<noteq> None) (ap_lastResourceAt p))"

text \<open>What the callers keep to: a fresh id, a real pid, a patch that is valid and that does not end or
  start a row that is still an intent.\<close>

fun op_ok :: "process_activity list \<Rightarrow> activity_op \<Rightarrow> bool" where
  "op_ok rs (IntentOp i uuid) = (''activity-'' @ uuid \<notin> px_id ` set rs)"
| "op_ok rs (BindOp i pid) = True"
| "op_ok rs (StartOp i pid uuid) = (''activity-'' @ uuid \<notin> px_id ` set rs \<and> 0 < pid)"
| "op_ok rs (UpdateOp i p) = (patch_ok p \<and> (\<forall>r \<in> set rs. px_id r = i \<and> px_state r = AStarting \<longrightarrow> ap_state p = None))"
| "op_ok rs (UpdateByPidOp pid p) = patch_ok p"
| "op_ok rs (ListOp inc n) = True"

definition ends_state :: "activity_patch \<Rightarrow> bool" where
  "ends_state p = (ap_state p \<noteq> None \<and> ap_state p \<noteq> Some ARunning)"

fun op_ends :: "host_os \<Rightarrow> activity_op \<Rightarrow> process_activity \<Rightarrow> bool" where
  "op_ends os (UpdateOp i p) r = (px_id r = i \<and> ends_state p)"
| "op_ends os (UpdateByPidOp pid p) r = (px_pid r = pid \<and> ends_state p)"
| "op_ends os (ListOp inc n) r = ended_now os r"
| "op_ends os _ r = False"

lemma captured_ok:
  assumes "captureProcessIdentity os pid now = Some i"
  shows "pk_pid i = pid" and "identity_ok i"
proof -
  obtain t where t: "readStartToken os pid = Some t" "START_TOKEN_PATTERN t" "ho_platform os \<in> set PROCESS_IDENTITY_PLATFORMS"
    and i: "i = \<lparr>pk_pid = pid, pk_platform = ho_platform os, pk_startToken = t, pk_capturedAt = Iso now\<rparr>"
    using assms by (auto simp: captureProcessIdentity_def split: option.splits if_splits)
  have "0 < pid" using t(1) by (simp add: readStartToken_def split: if_splits)
  then show "pk_pid i = pid" "identity_ok i" using t i by (simp_all add: identity_ok_def)
qed

lemma fresh_row_ok:
  assumes "validateProcessExecutionContext (pn_context i) = Inr c" and "if s = AStarting then pid = 0 \<and> idn = None else 0 < pid"
    and "\<And>x. idn = Some x \<Longrightarrow> identity_ok x \<and> pk_pid x = pid"
  shows "activity_ok (fresh_row i s pid idn ext uuid now)"
proof -
  have "\<not> opt_bad TASK_ID_PATTERN (pc_taskId (pn_context i))" "\<not> opt_bad attempt_ok (pc_attempt (pn_context i))" "\<not> opt_bad phase_ok (pc_phase (pn_context i))"
    using assms(1) by (auto simp: validateProcessExecutionContext_def split: if_splits)
  moreover have "starts_with (''activity-'' @ uuid) ''activity-''" by (simp add: starts_with_def)
  ultimately show ?thesis using assms(2,3)
    by (cases "s = AStarting") (auto simp: activity_ok_def fresh_row_def opt_bad_def phase_ok_def split: option.splits)
qed

lemma over_ok: "\<not> opt_bad P a \<Longrightarrow> \<not> opt_bad P b \<Longrightarrow> \<not> opt_bad P (over a b)"
  by (cases a) (simp_all add: over_def opt_bad_def)

lemma patch_row_ok:
  assumes "activity_ok r" "patch_ok p" "px_state r = AStarting \<longrightarrow> ap_state p = None"
  shows "activity_ok (patch_row p now r)"
proof -
  have s: "\<not> opt_bad signal_name (over (ap_signal p) (px_signal r))" "\<not> opt_bad (\<lambda>t. date_parse t \<noteq> None) (over (ap_lastStdoutAt p) (px_lastStdoutAt r))"
      "\<not> opt_bad (\<lambda>t. date_parse t \<noteq> None) (over (ap_lastResourceAt p) (px_lastResourceAt r))"
    by (rule over_ok; use assms(1,2) in \<open>simp add: activity_ok_def patch_ok_def del: not_None_eq\<close>)+
  show ?thesis
  proof (cases "px_state r = AStarting")
    case True
    with assms s show ?thesis unfolding activity_ok_def patch_row_def by (simp add: opt_bad_def)
  next
    case False
    have "(case ap_state p of None \<Rightarrow> px_state r | Some s \<Rightarrow> s) \<noteq> AStarting" using False assms(2) by (cases "ap_state p") (simp_all add: patch_ok_def)
    with assms s False show ?thesis unfolding activity_ok_def patch_row_def by simp
  qed
qed

lemma patch_row_evolves:
  assumes "rows_ok rs" "patch_ok p" and "\<And>r. r \<in> set rs \<Longrightarrow> P r \<Longrightarrow> (px_state r = AStarting \<longrightarrow> ap_state p = None) \<and> (ends_state p \<longrightarrow> E r)"
  shows "evolves E rs (change_first P (patch_row p now) rs)"
proof (rule evolves_change [OF assms(1)])
  fix r assume r: "r \<in> set rs" "P r"
  then have "activity_ok r" using assms(1) by (simp add: rows_ok_def list_all_iff)
  then have "activity_ok (patch_row p now r)" using assms(2,3) r by (intro patch_row_ok) simp_all
  moreover have "carries r (patch_row p now r)" by (simp add: carries_def patch_row_def)
  moreover have "px_state (patch_row p now r) = AStarting \<longrightarrow> px_state r = AStarting" "unfinished r \<and> \<not> E r \<longrightarrow> unfinished (patch_row p now r)"
    using assms(2) assms(3) [OF r] by (auto simp: patch_row_def patch_ok_def unfinished_def ends_state_def split: option.splits)
  ultimately show "activity_ok (patch_row p now r) \<and> carries r (patch_row p now r) \<and> (px_state (patch_row p now r) = AStarting \<longrightarrow> px_state r = AStarting) \<and>
      (unfinished r \<and> \<not> E r \<longrightarrow> unfinished (patch_row p now r))" by blast
qed

lemma bind_row_evolves:
  assumes "rows_ok rs" and "bind_row i pid idn now rs = Inr (b, rs')" and "0 < pid" "identity_ok idn" "pk_pid idn = pid"
  shows "evolves E rs rs'" and "b \<in> set rs'" and "px_id b = i" and "px_state b = ARunning" and "px_pid b = pid" and "px_identity b = Some idn"
    and "\<exists>r \<in> set rs. px_id r = i \<and> px_state r = AStarting \<and> carries r b"
proof -
  let ?f = "\<lambda>r. r\<lparr>px_state := ARunning, px_pid := pid, px_updatedAt := Iso now, px_identity := Some idn\<rparr>"
  obtain r where r: "List.find (\<lambda>r. px_id r = i) rs = Some r" "px_state r = AStarting" and b: "b = ?f r" and rs': "rs' = change_first (\<lambda>r. px_id r = i) ?f rs"
    using assms(2) by (auto simp: bind_row_def Let_def split: option.splits if_splits)
  have r_in: "r \<in> set rs" "px_id r = i" using find_SomeD [OF r(1)] by simp_all
  have only: "q = r" if "q \<in> set rs" "px_id q = i" for q
    using assms(1) r_in that by (auto simp: rows_ok_def distinct_map dest: inj_onD)
  show "evolves E rs rs'" unfolding rs'
  proof (rule evolves_change [OF assms(1)])
    fix q assume "q \<in> set rs" "px_id q = i"
    then have q: "q = r" by (rule only)
    have ok: "activity_ok r" using assms(1) r_in by (simp add: rows_ok_def list_all_iff)
    show "activity_ok (?f q) \<and> carries q (?f q) \<and> (px_state (?f q) = AStarting \<longrightarrow> px_state q = AStarting) \<and> (unfinished q \<and> \<not> E q \<longrightarrow> unfinished (?f q))"
      using ok assms(3-5) r(2) unfolding q by (simp add: activity_ok_def carries_def unfinished_def opt_bad_def)
  qed
  show "b \<in> set rs'" unfolding b rs' by (rule find_change_first [OF r(1)])
  show "px_id b = i" "px_state b = ARunning" "px_pid b = pid" "px_identity b = Some idn" by (simp_all add: b r_in)
  show "\<exists>r \<in> set rs. px_id r = i \<and> px_state r = AStarting \<and> carries r b"
    by (rule bexI [OF _ r_in(1)]) (simp add: r_in r(2) b carries_def)
qed

lemma reconcile_evolves: "rows_ok rs \<Longrightarrow> evolves (ended_now os) rs (snd (reconcileRunning os now rs))"
proof -
  assume rs: "rows_ok rs"
  let ?g = "exit_row os now"
  have g: "activity_ok (?g r) \<and> carries r (?g r) \<and> (px_state (?g r) = AStarting \<longrightarrow> px_state r = AStarting) \<and> (unfinished r \<and> \<not> ended_now os r \<longrightarrow> unfinished (?g r))"
    if "activity_ok r" for r
    using that by (auto simp: activity_ok_def carries_def ended_now_def exit_row_def)
  have "px_id \<circ> ?g = px_id" by (simp add: fun_eq_iff exit_row_def)
  moreover have all: "list_all activity_ok (map ?g rs)" using rs g by (simp add: rows_ok_def list_all_iff)
  ultimately have "rows_ok (map ?g rs)" using rs by (simp add: rows_ok_def)
  moreover have "\<exists>r' \<in> set (map ?g rs). carries r r' \<and> (px_state r' = AStarting \<longrightarrow> px_state r = AStarting) \<and> (unfinished r \<and> \<not> ended_now os r \<longrightarrow> unfinished r')"
    if "r \<in> set rs" for r
    using g [of r] rs that by (simp add: rows_ok_def list_all_iff) blast
  ultimately show ?thesis by (simp add: evolves_def reconcileRunning_def)
qed

lemma exec_survives:
  assumes "readRecords st = Inr rs" and "error_of (mutateRecords os crash fn st) = (e, st')"
    and "\<And>x rs'. fn rs = Inr (x, rs') \<Longrightarrow> assertBindingsUnchanged rs rs' \<Longrightarrow> evolves E rs rs'"
  shows "survives E rs st'"
proof -
  obtain res st1 where m: "mutateRecords os crash fn st = (res, st1)" by fastforce
  then have "st1 = st'" using assms(2) by (cases res) simp_all
  with mutate_survives [OF assms(1) m assms(3)] show ?thesis by simp
qed


text \<open>A host with one live process, its identity, and a store with one intent.\<close>

definition ex_host :: host_os where
  "ex_host = \<lparr>ho_platform = ''darwin'', ho_signal = (\<lambda>p. p = 7), ho_stat = (\<lambda>_. None), ho_bootId = None, ho_lstart = (\<lambda>p. if p = 7 then Some ''t'' else None),
     ho_collate = (\<lambda>t. case date_parse t of Some n \<Rightarrow> n | None \<Rightarrow> 0)\<rparr>"

definition ex_process :: process_input where
  "ex_process = \<lparr>pn_kind = NativeProcess, pn_operation = ''dex.process.run'', pn_command = ''sleep 1'', pn_context = \<lparr>pc_taskId = None, pc_attempt = Some 1, pc_phase = None\<rparr>,
     pn_cwd = None, pn_externalId = None\<rparr>"

definition ex_activity_store :: activity_store where
  "ex_activity_store = write_intents [fresh_row ex_process AStarting 0 None None ''a'' 5] \<lparr>ay_file = Absent, ay_intents = Absent\<rparr>"

lemma ex_activity_read: "readRecords ex_activity_store = Inr [fresh_row ex_process AStarting 0 None None ''a'' 5]"
  by code_simp


text \<open>Ending a row that is still an intent leaves a store that nothing reads again, and intents are never
  taken back: two hundred of them refuse every further launch.\<close>

lemma decode_all_None: "x \<in> set xs \<Longrightarrow> f x = None \<Longrightarrow> decode_all f xs = None"
  by (induction xs) (auto split: option.split)

lemma finished_intent_breaks_store:
  assumes "readRecords st = Inr rs" and "length rs \<le> MAX_ACTIVITY_RECORDS" and "List.find (\<lambda>r. px_id r = i) rs = Some r" and "px_state r = AStarting"
    and "s \<noteq> AStarting" "s \<noteq> ARunning"
  shows "readRecords (snd (finishProcessActivity os False i s code sig now st)) = Inl ActivityMalformed"
proof -
  let ?p = "finish_patch s code sig now"
  let ?rs = "change_first (\<lambda>r. px_id r = i) (patch_row ?p now) rs"
  have ok: "rows_ok rs" by (rule readRecordsD [OF assms(1)])
  have r: "r \<in> set rs" "px_id r = i" using find_SomeD [OF assms(3)] by simp_all
  have bad: "patch_row ?p now r \<in> set ?rs" by (rule find_change_first [OF assms(3)])
  have zero: "px_pid r = 0" using ok r assms(4) by (simp add: rows_ok_def list_all_iff activity_ok_def)
  have b: "set (bounded_rows os ?rs) = set ?rs"
  proof -
    have "length (filter (\<lambda>r. \<not> unfinished r) ?rs) + length (filter unfinished ?rs) \<le> MAX_ACTIVITY_RECORDS"
      using assms(2) sum_length_filter_compl [of unfinished ?rs] by simp
    then show ?thesis by (auto simp: bounded_rows_def Let_def take_last_def)
  qed
  have keep: "row_binding_ok rs q" if "q \<in> set ?rs" for q
  proof -
    from set_change_first [OF that] obtain x where x: "x \<in> set rs" "px_id q = px_id x" "px_pid q = px_pid x" "px_taskId q = px_taskId x" "px_attempt q = px_attempt x"
        "px_identity q = px_identity x" "px_state q = AStarting \<longrightarrow> px_state x = AStarting"
      using assms(5) by (auto simp: patch_row_def finish_patch_def)
    have "p = x" if "List.find (\<lambda>p. px_id p = px_id q) rs = Some p" for p
      using find_SomeD [OF that] ok x(1,2) by (auto simp: rows_ok_def distinct_map dest: inj_onD)
    then show ?thesis using x(3-) by (auto simp: row_binding_ok_def assertIdentityBindingUnchanged_def split: option.split)
  qed
  let ?b = "bounded_rows os ?rs"
  have act: "\<not> length (filter unfinished ?rs) > MAX_ACTIVITY_RECORDS" using assms(2) length_filter_le [of unfinished ?rs] unfolding length_change_first by linarith
  have st': "snd (finishProcessActivity os False i s code sig now st) = write_intents ?b (write_file ?b st)"
    using keep act by (simp add: finishProcessActivity_def updateProcessActivity_def mutateRecords_def assms(1) update_row_def assertBindingsUnchanged_def list_all_iff writeRecords_def)
  have "patch_row ?p now r \<in> set (filter (\<lambda>r. px_state r \<noteq> AStarting) ?b)"
    using bad b assms(5) by (simp add: patch_row_def finish_patch_def)
  moreover have "validRecord (activity_json (patch_row ?p now r)) = None"
  proof (rule ccontr)
    assume "\<not> ?thesis"
    then obtain q where q: "validRecord (activity_json (patch_row ?p now r)) = Some q" by blast
    then have "int_field (activity_json (patch_row ?p now r)) ''pid'' = Some (px_pid q)"
        "Option.bind (str_field (activity_json (patch_row ?p now r)) ''state'') (\<lambda>s. List.find (\<lambda>k. activity_state_string k = s) PROCESS_ACTIVITY_STATES) = Some (px_state q)"
      by (auto simp: validRecord_def split: option.splits if_splits)
    then have "px_pid q = 0" "px_state q = s"
      by (simp_all add: activity_json_def patch_row_def finish_patch_def zero find_state_string json_int_def)
    with validRecord_ok [OF q] assms(5) show False by (simp add: activity_ok_def)
  qed
  ultimately have "decode_all validRecord (map activity_json (filter (\<lambda>r. px_state r \<noteq> AStarting) ?b)) = None"
    by (intro decode_all_None [of "activity_json (patch_row ?p now r)"]) simp_all
  then show ?thesis by (simp add: st' readRecords_def write_intents_def write_file_def)
qed

lemma stale_intents_refuse_launches:
  assumes "readRecords st = Inr rs" and "MAX_ACTIVITY_RECORDS \<le> length (filter (\<lambda>r. px_state r = AStarting) rs)"
    and "''activity-'' @ uuid \<notin> px_id ` set rs" and "validateProcessExecutionContext (pn_context i) = Inr c"
  shows "recordProcessIntent os crash i uuid now st = (Inl ActivityCapacity, st)"
proof -
  let ?r = "fresh_row i AStarting 0 None None uuid now"
  have "length (filter (\<lambda>r. px_state r = AStarting) rs) \<le> length (filter unfinished rs)"
    by (rule length_filter_mono) (simp add: unfinished_def)
  then have "MAX_ACTIVITY_RECORDS < length (filter unfinished (rs @ [?r]))" using assms(2) by (simp add: unfinished_def fresh_row_def)
  moreover have "row_binding_ok rs q" if "q \<in> set (rs @ [?r])" for q
  proof -
    have "p = q" if "List.find (\<lambda>p. px_id p = px_id q) rs = Some p" for p
      using find_SomeD [OF that] \<open>q \<in> set (rs @ [?r])\<close> assms(3) readRecordsD [OF assms(1), of "rows_ok rs"]
      by (auto simp: rows_ok_def distinct_map fresh_row_def image_iff dest: inj_onD)
    then show ?thesis by (auto simp: row_binding_ok_def assertIdentityBindingUnchanged_def split: option.split)
  qed
  ultimately show ?thesis
    by (simp add: recordProcessIntent_def assms(1,4) Let_def mutateRecords_def assertBindingsUnchanged_def list_all_iff writeRecords_def)
qed

section \<open>The launch barrier\<close>

text \<open>The last part of \<open>nativeProcess\<close>: the intent, the spawned shim that waits on its input, the binding
  of its pid, the barrier line that lets it run the command, and the evidence of its end. The oracle says
  what the platform does; \<open>lo_others\<close> is what other callers do to the store before the pid is bound.\<close>

datatype launch_end = EndedOk | EndedCode int | EndedSignal "string option"

record launch_oracle =
  lo_uuid :: string
  lo_pid :: "int option"
  lo_others :: "activity_store \<Rightarrow> activity_store"
  lo_alive :: bool
  lo_write :: bool
  lo_output :: bool
  lo_timedOut :: bool
  lo_end :: launch_end
  lo_clock :: "nat \<Rightarrow> int"

datatype launch_result = LaunchRefused activity_error | LaunchUncertain thrown | LaunchExit int

definition launch_uncertain :: "string \<Rightarrow> launch_result" where
  "launch_uncertain m = LaunchUncertain (ProcessSignalTermination m)"

definition child_timeout :: "int \<Rightarrow> int" where
  "child_timeout timeoutMs = max 100 (min timeoutMs 60000)"

text \<open>After the end of the child: the evidence first, then the answer.\<close>

definition conclude :: "host_os \<Rightarrow> launch_oracle \<Rightarrow> string \<Rightarrow> activity_store \<Rightarrow> launch_result \<times> activity_store" where
  "conclude os lo i st =
     (let lost = launch_uncertain ''Process result evidence could not be committed; its effect is uncertain and replay is forbidden.'';
          ended = (case lo_end lo of
              EndedOk \<Rightarrow> (ACompleted, Some 0, None)
            | EndedCode c \<Rightarrow> if lo_timedOut lo then (ATimedOut, None, None) else (AFailed, Some c, None)
            | EndedSignal s \<Rightarrow> (if lo_timedOut lo then ATimedOut else ATerminated, None, s));
          out = (if lo_output lo then updateProcessActivity os False i
                   \<lparr>ap_state = None, ap_updatedAt = None, ap_finishedAt = None, ap_exitCode = None, ap_signal = None, ap_externalId = None,
                    ap_lastStdoutAt = Some (Iso (lo_clock lo 2)), ap_lastResourceAt = None\<rparr> (lo_clock lo 2) st
                 else (Inr True, st))
      in case out of
           (Inl e, st1) \<Rightarrow> (lost, st1)
         | (Inr _, st1) \<Rightarrow>
             (case ended of (s, code, sig) \<Rightarrow>
               (case finishProcessActivity os False i s code sig (lo_clock lo 3) st1 of
                  (Inr True, st2) \<Rightarrow>
                    (case code of Some c \<Rightarrow> (LaunchExit c, st2)
                     | None \<Rightarrow> (launch_uncertain ''Process was terminated; its effect is unknown, the outcome is uncertain, and replay is forbidden.'', st2))
                | (_, st2) \<Rightarrow> (lost, st2))))"

text \<open>The answer, the store in which the barrier line was written, if it was, and the final store. A write
  of the line that fails may have let the command run.\<close>

definition launch :: "host_os \<Rightarrow> launch_oracle \<Rightarrow> string \<Rightarrow> string option \<Rightarrow> process_context \<Rightarrow> activity_store \<Rightarrow> launch_result \<times> activity_store option \<times> activity_store" where
  "launch os lo command cwd ctx st =
     (let lost = launch_uncertain ''Process launch evidence could not be committed; execution is uncertain and replay is forbidden.'';
          i = ''activity-'' @ lo_uuid lo
      in case recordProcessIntent os False \<lparr>pn_kind = NativeProcess, pn_operation = ''dex.process.run'', pn_command = command, pn_context = ctx, pn_cwd = cwd, pn_externalId = None\<rparr>
            (lo_uuid lo) (lo_clock lo 0) st of
           (Inl e, st1) \<Rightarrow> (LaunchRefused e, None, st1)
         | (Inr _, st1) \<Rightarrow> (case lo_pid lo of
               None \<Rightarrow> (lost, None, lo_others lo st1)
             | Some pid \<Rightarrow> (case bindProcessIntent os False i pid (lo_clock lo 1) (lo_others lo st1) of
                   (Inl e, st2) \<Rightarrow> (lost, None, st2)
                 | (Inr _, st2) \<Rightarrow>
                     if \<not> lo_alive lo then (lost, None, st2)
                     else if \<not> lo_write lo then (lost, Some st2, st2)
                     else (case conclude os lo i st2 of (res, st3) \<Rightarrow> (res, Some st2, st3)))))"

lemma mutate_committed:
  assumes "mutateRecords os False fn st = (Inr x, st')"
  obtains rs rs' where "readRecords st = Inr rs" "fn rs = Inr (x, rs')" "rows_ok rs"
    "rows_ok rs' \<longrightarrow> (\<exists>rs2. readRecords st' = Inr rs2 \<and> set rs2 = set (bounded_rows os rs'))"
proof -
  obtain rs rs' where r: "readRecords st = Inr rs" "fn rs = Inr (x, rs')"
    and st': "st' = write_intents (bounded_rows os rs') (write_file (bounded_rows os rs') st)"
    using assms by (auto simp: mutateRecords_def writeRecords_def split: sum.splits if_splits)
  have "\<exists>rs2. readRecords st' = Inr rs2 \<and> set rs2 = set (bounded_rows os rs')" if "rows_ok rs'"
    using read_written [OF rows_ok_bounded [OF that], of os st] by (auto simp: st')
  moreover have "rows_ok rs" by (rule readRecordsD [OF r(1)])
  ultimately show thesis using that r by blast
qed

lemma bound_row_on_disk:
  assumes "bindProcessIntent os False i pid now st = (Inr b, st')"
  shows "\<exists>rs r. readRecords st' = Inr rs \<and> b \<in> set rs \<and> px_id b = i \<and> px_state b = ARunning \<and> px_pid b = pid \<and> 0 < pid \<and>
     px_identity b = captureProcessIdentity os pid now \<and> px_identity b \<noteq> None \<and> (\<exists>rs0. readRecords st = Inr rs0 \<and> r \<in> set rs0) \<and> px_id r = i \<and>
     px_state r = AStarting \<and> carries r b"
proof -
  obtain idn where idn: "captureProcessIdentity os pid now = Some idn" "0 < pid" and m: "mutateRecords os False (bind_row i pid idn now) st = (Inr b, st')"
    using assms by (auto simp: bindProcessIntent_def split: if_splits option.splits)
  obtain rs rs' where rs: "readRecords st = Inr rs" "bind_row i pid idn now rs = Inr (b, rs')" "rows_ok rs"
    and disk: "rows_ok rs' \<longrightarrow> (\<exists>rs2. readRecords st' = Inr rs2 \<and> set rs2 = set (bounded_rows os rs'))"
    by (rule mutate_committed [OF m])
  note B = bind_row_evolves [OF rs(3,2) idn(2)] captured_ok [OF idn(1)]
  have "rows_ok rs'" using B(1) [of "\<lambda>_. True"] B(8,9) by (simp add: evolves_def)
  moreover have "unfinished b" using B(4) B(8,9) by (simp add: unfinished_def)
  ultimately show ?thesis
    using disk unfinished_bounded B(2-9) rs(1) idn by (metis option.distinct(1))
qed

text \<open>Other callers keep the row of this launch: what \<open>activity_evidence_survives\<close> shows of each of their
  operations.\<close>

definition keeps_intent :: "string \<Rightarrow> (activity_store \<Rightarrow> activity_store) \<Rightarrow> bool" where
  "keeps_intent i f = (\<forall>st rs r. readRecords st = Inr rs \<longrightarrow> r \<in> set rs \<longrightarrow> px_id r = i \<longrightarrow> unfinished r \<longrightarrow>
     (\<exists>rs' r'. readRecords (f st) = Inr rs' \<and> r' \<in> set rs' \<and> carries r r'))"

lemma intent_on_disk:
  assumes "recordProcessIntent os False i uuid now st = (Inr r, st1)" and fresh: "\<And>rs. readRecords st = Inr rs \<Longrightarrow> ''activity-'' @ uuid \<notin> px_id ` set rs"
  shows "r = fresh_row i AStarting 0 None None uuid now \<and> (\<exists>rs. readRecords st1 = Inr rs \<and> r \<in> set rs)"
proof -
  let ?r = "fresh_row i AStarting 0 None None uuid now"
  obtain c where c: "validateProcessExecutionContext (pn_context i) = Inr c" and m: "mutateRecords os False (\<lambda>rs. Inr (?r, rs @ [?r])) st = (Inr r, st1)"
    using assms(1) by (auto simp: recordProcessIntent_def Let_def split: sum.splits)
  obtain rs where rs: "r = ?r" "rows_ok rs" "readRecords st = Inr rs"
    and disk: "rows_ok (rs @ [?r]) \<longrightarrow> (\<exists>rs2. readRecords st1 = Inr rs2 \<and> set rs2 = set (bounded_rows os (rs @ [?r])))"
    using mutate_committed [OF m] by (metis (no_types, lifting) prod.inject sum.inject(2))
  have "activity_ok ?r" by (rule fresh_row_ok [OF c]) simp_all
  moreover have "px_id ?r \<notin> px_id ` set rs" using fresh [OF rs(3)] by (simp add: fresh_row_def)
  ultimately have "rows_ok (rs @ [?r])" using rs(2) by (simp add: rows_ok_def)
  moreover have "unfinished ?r" by (simp add: unfinished_def fresh_row_def)
  ultimately show ?thesis using disk unfinished_bounded [of ?r "rs @ [?r]"] rs(1) by auto
qed


definition ex_launch :: launch_oracle where
  "ex_launch = \<lparr>lo_uuid = ''b'', lo_pid = Some 7, lo_others = id, lo_alive = True, lo_write = True, lo_output = False, lo_timedOut = False, lo_end = EndedCode 3, lo_clock = int\<rparr>"

definition launched :: "launch_result \<times> activity_store option \<times> activity_store" where
  "launched = launch ex_host ex_launch ''sleep 1'' None \<lparr>pc_taskId = None, pc_attempt = Some 2, pc_phase = None\<rparr> ex_activity_store"

lemma ex_launched: "let p = launched in fst p = LaunchExit 3 \<and> (case fst (snd p) of None \<Rightarrow> False | Some _ \<Rightarrow> True)"
  by code_simp


text \<open>
  A launch never invents an outcome: an exit code is answered only for a child that ended by itself with
  that code after its command was released; any other end after the intent is a signal termination, which
  is classified as an ambiguous effect that no safety class retries; and a launch that is refused
  released nothing and left the store as it was.
\<close>

theorem launch_never_invents_exit:
  assumes "launch os lo command cwd ctx st = (res, released, st')"
  shows "case res of
      LaunchExit c \<Rightarrow> released \<noteq> None \<and> (lo_end lo = EndedOk \<and> c = 0 \<or> lo_end lo = EndedCode c \<and> \<not> lo_timedOut lo)
    | LaunchUncertain e \<Rightarrow> classifyFailure (plain_failure e safety) = AMBIGUOUS_EFFECT \<and> \<not> retryAllowed safety AMBIGUOUS_EFFECT
    | LaunchRefused e \<Rightarrow> released = None \<and> st' = st"
proof -
  have sig: "classifyFailure (plain_failure (ProcessSignalTermination m) safety) = AMBIGUOUS_EFFECT \<and> \<not> retryAllowed safety AMBIGUOUS_EFFECT" for m
    by (simp add: classifyFailure_def plain_failure_def Let_def retryAllowed_def)
  have fail: "st1 = st" if "recordProcessIntent os False i uuid now st = (Inl e, st1)" for i uuid now e st1
    using that by (auto simp: recordProcessIntent_def Let_def mutateRecords_def split: sum.splits if_splits prod.splits)
  have con: "case r of LaunchExit c \<Rightarrow> lo_end lo = EndedOk \<and> c = 0 \<or> lo_end lo = EndedCode c \<and> \<not> lo_timedOut lo
      | LaunchUncertain e \<Rightarrow> (\<exists>m. e = ProcessSignalTermination m) | LaunchRefused e \<Rightarrow> False"
    if "conclude os lo i st1 = (r, st2)" for i st1 r st2
    using that unfolding conclude_def Let_def launch_uncertain_def
    by (auto split: sum.splits prod.splits option.splits if_splits launch_end.splits bool.splits)
  let ?in = "\<lparr>pn_kind = NativeProcess, pn_operation = ''dex.process.run'', pn_command = command, pn_context = ctx, pn_cwd = cwd, pn_externalId = None\<rparr>"
  let ?i = "''activity-'' @ lo_uuid lo"
  have uncertain: ?thesis if "res = launch_uncertain m" for m using sig that by (simp add: launch_uncertain_def)
  obtain a st1 where i: "recordProcessIntent os False ?in (lo_uuid lo) (lo_clock lo 0) st = (a, st1)" by fastforce
  show ?thesis
  proof (cases a)
    case (Inl e)
    with i fail have "res = LaunchRefused e" "released = None" "st' = st" using assms by (auto simp: launch_def Let_def)
    then show ?thesis by simp
  next
    case (Inr r0)
    show ?thesis
    proof (cases "lo_pid lo")
      case None
      with assms i Inr show ?thesis by (intro uncertain) (auto simp: launch_def Let_def)
    next
      case (Some pid)
      obtain b st2 where b: "bindProcessIntent os False ?i pid (lo_clock lo 1) (lo_others lo st1) = (b, st2)" by fastforce
      obtain r3 st3 where c: "conclude os lo ?i st2 = (r3, st3)" by fastforce
      show ?thesis
      proof (cases "(\<exists>e. b = Inl e) \<or> \<not> lo_alive lo \<or> \<not> lo_write lo")
        case True
        with assms i Inr Some b show ?thesis by (intro uncertain) (auto simp: launch_def Let_def split: sum.splits if_splits prod.splits)
      next
        case False
        with assms i Inr Some b c have "res = r3" "released = Some st2" by (auto simp: launch_def Let_def split: sum.splits)
        with con [OF c] sig show ?thesis by (cases r3) auto
      qed
    qed
  qed
qed

theorem launch_never_invents_exit_witness:
  "fst launched = LaunchExit 3 \<and> fst (snd launched) \<noteq> None \<and> lo_end ex_launch = EndedCode 3"
proof -
  have e: "fst launched = LaunchExit 3" using ex_launched by (simp add: Let_def)
  have "launch ex_host ex_launch ''sleep 1'' None \<lparr>pc_taskId = None, pc_attempt = Some 2, pc_phase = None\<rparr> ex_activity_store =
      (fst launched, fst (snd launched), snd (snd launched))"
    by (simp add: launched_def)
  from launch_never_invents_exit [OF this, of PLAN_COMMIT] e show ?thesis by (simp add: ex_launch_def)
qed

end
