(* ===== verification/Reach_Recovery.thy ===== *)
theory Reach_Recovery
  imports Reach_Results Reach_Activity Reach_Ledger
begin

text \<open>
  What becomes of a task whose execution failed, whose node restarted, or whose owner intervenes:
  \<open>src/src/node/task-failure.ts\<close>, \<open>src/src/node/boot-recovery.ts\<close> (over \<open>decideBootRecovery\<close> of
  \<open>src/src/shared/task-recovery.ts\<close>) and \<open>src/src/node/task-control.ts\<close>, on the task store, the result
  store, the activity rows and the leases of this development.

  One \<open>recovery_world\<close> holds the files; \<open>rw_calls\<close> counts the operations, and a \<open>recovery_env\<close> gives each
  of them its clock and its fresh id. The evidence of the boot (activity rows, coordinator status, the
  verdict on a row) is what the options of the code inject. Heartbeats and releases of leases are
  recorded as calls; the code ignores their outcome.
\<close>

section \<open>The world\<close>

datatype lease_call = HeartbeatCall string | ReleaseCall string

record recovery_world =
  rw_tasks :: task_world
  rw_results :: result_dir
  rw_access :: access_store
  rw_leases :: "lease_call list"
  rw_calls :: nat

record recovery_env =
  bv_env :: task_env
  bv_results :: result_env
  bv_node :: "string \<Rightarrow> node_env"
  bv_ids :: "nat \<Rightarrow> string"
  bv_clock :: "nat \<Rightarrow> int"
  bv_activities :: "process_activity list option"
  bv_status :: "work_status option"
  bv_connected :: bool
  bv_verify :: "process_activity \<Rightarrow> identity_verdict"

datatype recovery_error =
    RecTask task_error | RecResult result_error | RecPolicy "access_error list" | RecMissing | RecNotRunning task_state
  | RecReference | RecNotAmbiguous task_state | RecRetry | RecNotTerminal task_state

type_synonym 'a recovery = "recovery_world \<Rightarrow> (recovery_error + 'a) \<times> recovery_world"

definition rec_bind :: "'a recovery \<Rightarrow> ('a \<Rightarrow> 'b recovery) \<Rightarrow> 'b recovery" where
  "rec_bind m f w = (case m w of (Inl e, w1) \<Rightarrow> (Inl e, w1) | (Inr x, w1) \<Rightarrow> f x w1)"

definition rec_return :: "'a \<Rightarrow> 'a recovery" where
  "rec_return x w = (Inr x, w)"

definition rec_fail :: "recovery_error \<Rightarrow> 'a recovery" where
  "rec_fail e w = (Inl e, w)"

definition on_tasks :: "recovery_env \<Rightarrow> (string \<Rightarrow> int \<Rightarrow> task_world \<Rightarrow> (task_error + 'a) \<times> task_world) \<Rightarrow> 'a recovery" where
  "on_tasks RE f w = (case f (bv_ids RE (rw_calls w)) (bv_clock RE (rw_calls w)) (rw_tasks w) of
      (res, tw) \<Rightarrow> (case res of Inl e \<Rightarrow> Inl (RecTask e) | Inr x \<Rightarrow> Inr x, w\<lparr>rw_tasks := tw, rw_calls := Suc (rw_calls w)\<rparr>))"

definition rec_update :: "recovery_env \<Rightarrow> string \<Rightarrow> task_update \<Rightarrow> task_record recovery" where
  "rec_update RE t u = on_tasks RE (update_task (bv_env RE) t u)"

definition rec_transition :: "recovery_env \<Rightarrow> string \<Rightarrow> task_state \<Rightarrow> string \<Rightarrow> task_record recovery" where
  "rec_transition RE t s status = on_tasks RE (transition (bv_env RE) t s (Some status) None)"

definition rec_read :: "recovery_env \<Rightarrow> string \<Rightarrow> task_record option recovery" where
  "rec_read RE t w = (case read_task (bv_env RE) t (bv_clock RE (rw_calls w)) (rw_tasks w) of Inl e \<Rightarrow> (Inl (RecTask e), w) | Inr r \<Rightarrow> (Inr r, w))"

definition rec_load :: "recovery_env \<Rightarrow> task_record list recovery" where
  "rec_load RE w = (case loadActiveTasks (bv_env RE) (bv_clock RE (rw_calls w)) (rw_tasks w) of Inl e \<Rightarrow> (Inl (RecTask e), w) | Inr rs \<Rightarrow> (Inr rs, w))"

definition status_update :: "string \<Rightarrow> task_update" where
  "status_update s = \<lparr>tu_state = None, tu_status = Some s, tu_resultRef = None, tu_resultHash = None, tu_failureClass = None\<rparr>"

definition class_update :: "failure_class \<Rightarrow> task_update" where
  "class_update f = \<lparr>tu_state = None, tu_status = None, tu_resultRef = None, tu_resultHash = None, tu_failureClass = Some (Some (failure_string f))\<rparr>"

fun decimal :: "nat \<Rightarrow> string" where
  "decimal n = (if n < 10 then [char_of (48 + n)] else decimal (n div 10) @ [char_of (48 + n mod 10)])"

declare decimal.simps [simp del]

definition show_int :: "int \<Rightarrow> string" where
  "show_int i = (if i < 0 then CHR ''-'' # decimal (nat (- i)) else decimal (nat i))"

section \<open>A failed execution\<close>

definition persistTaskFailure :: "recovery_env \<Rightarrow> string \<Rightarrow> safety_class \<Rightarrow> thrown \<Rightarrow> bool \<Rightarrow> task_record recovery" where
  "persistTaskFailure RE taskId safety err executionStarted = rec_bind (rec_read RE taskId) (\<lambda>found. case found of
      None \<Rightarrow> rec_fail RecMissing
    | Some before \<Rightarrow>
        if isTerminal (tr_state before) \<or> tr_state before = AMBIGUOUS then rec_return before
        else (let unstarted = unstartedFailureOutcome err (Some (tr_state before)) executionStarted;
                  f0 = (case unstarted of Some (f, _) \<Rightarrow> f | None \<Rightarrow> classifyFailure (plain_failure err safety));
                  f1 = (if unstarted = None \<and> safety \<noteq> PURE_READ_IDEMPOTENT then AMBIGUOUS_EFFECT else f0);
                  next_state = (case unstarted of Some (_, s) \<Rightarrow> s | None \<Rightarrow> if f1 = AMBIGUOUS_EFFECT then AMBIGUOUS else FAILED)
              in rec_update RE taskId
                   \<lparr>tu_state = Some next_state,
                    tu_status = Some (''Task stopped'' @ (if unstarted \<noteq> None then '' before execution'' else []) @ '': '' @ failure_string f1 @ ''.''),
                    tu_resultRef = None, tu_resultHash = None, tu_failureClass = Some (Some (failure_string f1))\<rparr>))"

definition persistProcessExitFailure :: "recovery_env \<Rightarrow> string \<Rightarrow> int \<Rightarrow> json \<Rightarrow> task_record recovery" where
  "persistProcessExitFailure RE taskId exitCode evidence = rec_bind (rec_read RE taskId) (\<lambda>found. case found of
      None \<Rightarrow> rec_fail RecMissing
    | Some before \<Rightarrow>
        if tr_state before \<noteq> RUNNING then rec_fail (RecNotRunning (tr_state before))
        else (\<lambda>w. case boundWithReference (bv_results RE) (Some evidence) (Some taskId) (bv_ids RE (rw_calls w)) (bv_clock RE (rw_calls w)) (rw_results w) of
            (Inl e, d) \<Rightarrow> (Inl (RecResult e), w\<lparr>rw_results := d, rw_calls := Suc (rw_calls w)\<rparr>)
          | (Inr (m, _), d) \<Rightarrow>
              rec_update RE taskId
                \<lparr>tu_state = Some FAILED, tu_status = Some (''Task failed: process exited with status '' @ show_int exitCode @ ''.''),
                 tu_resultRef = Some (Some (rm_handle m)), tu_resultHash = Some (Some (rm_resultHash m)), tu_failureClass = Some (Some (failure_string EXECUTION_FAILED))\<rparr>
                (w\<lparr>rw_results := d, rw_calls := Suc (rw_calls w)\<rparr>)))"

section \<open>Boot reconciliation\<close>

type_synonym boot_decision = "reconciliation_decision \<times> string"

text \<open>The sentence that goes with each decision, branch by branch.\<close>

definition bootRecoveryReason :: "boot_recovery_evidence \<Rightarrow> string" where
  "bootRecoveryReason e =
     (if br_contradictoryEvidence e then ''TaskStore, coordinator, and process evidence disagree; contradictory state was preserved for explicit reconciliation.''
      else (case decideBootRecovery e of
          FINISH_FROM_DURABLE_EVIDENCE \<Rightarrow> ''A persisted result reference and verified result body are available.''
        | MONITOR_ORPHAN \<Rightarrow> ''An identity-verified orphan process is still running and no supervisor can observe its effect; the task is AMBIGUOUS and replay is forbidden.''
        | REATTACH \<Rightarrow>
            if br_hasMatchingLease e \<and> br_processAlive e \<and> br_transportConnected e \<and> (br_hasMatchingLiveActivity e \<or> br_safetyClass e \<noteq> ''PROCESS_UNKNOWN_EFFECT'') then
              (if br_hasMatchingLiveActivity e then ''The matching task activity and coordinator lease are live; execution was not replayed.''
               else ''The coordinator lease is live for this task; execution was not replayed.'')
            else ''The coordinator queue ticket still names this task and attempt; its FIFO position was preserved.''
        | RETRY_SAFE \<Rightarrow>
            if br_state e = ACCEPTED \<or> br_state e = PREPARING then ''The task had not reached execution and no live execution evidence remains.''
            else ''The interrupted operation is a pure read with no remaining execution evidence.''
        | RD_AMBIGUOUS \<Rightarrow> ''A running task lost process or transport evidence before a durable result was recorded; replay is forbidden.''
        | _ \<Rightarrow> ''Execution state cannot be resolved from durable evidence; owner reconciliation is required.''))"

definition names_attempt :: "task_record \<Rightarrow> string option \<Rightarrow> int option \<Rightarrow> bool" where
  "names_attempt r taskId attempt = (taskId = Some (tr_taskId r) \<and> (attempt = None \<or> attempt = Some (tr_attemptNumber r)))"

definition matchingActivity :: "task_record \<Rightarrow> process_activity list \<Rightarrow> process_activity option" where
  "matchingActivity r rows = List.find (\<lambda>a. names_attempt r (px_taskId a) (px_attempt a)) rows"

definition matchingLease :: "task_record \<Rightarrow> work_status option \<Rightarrow> work_lease option" where
  "matchingLease r s = Option.bind s (\<lambda>s. List.find (\<lambda>l. names_attempt r (wl_taskId l) (wl_attempt l)) (ws_leases s))"

definition matchingTicket :: "task_record \<Rightarrow> work_status option \<Rightarrow> work_queue_ticket option" where
  "matchingTicket r s = Option.bind s (\<lambda>s. List.find (\<lambda>t. names_attempt r (wt_taskId t) (wt_attempt t)) (ws_tickets s))"

definition hasVerifiedResult :: "recovery_env \<Rightarrow> task_record \<Rightarrow> recovery_world \<Rightarrow> bool" where
  "hasVerifiedResult RE r w = (case (given (tr_resultRef r), given (tr_resultHash r)) of
      (Some ref, Some h) \<Rightarrow> (case readValueForTask (bv_results RE) ref (tr_taskId r) h (bv_clock RE (rw_calls w)) (rw_results w) of Inr _ \<Rightarrow> True | Inl _ \<Rightarrow> False)
    | _ \<Rightarrow> False)"

definition verdictFor :: "recovery_env \<Rightarrow> process_activity option \<Rightarrow> identity_verdict option" where
  "verdictFor RE activity = (case activity of
      None \<Rightarrow> None
    | Some a \<Rightarrow> Some (if px_state a = AStarting then UNVERIFIABLE else if px_state a \<noteq> ARunning then GONE else bv_verify RE a))"

definition lease_call :: "(string \<Rightarrow> lease_call) \<Rightarrow> work_lease option \<Rightarrow> unit recovery" where
  "lease_call f lease w = (case Option.bind lease (\<lambda>l. given (Some (wl_id l))) of
      None \<Rightarrow> (Inr (), w)
    | Some i \<Rightarrow> (Inr (), w\<lparr>rw_leases := rw_leases w @ [f i]\<rparr>))"

definition keepLeaseWhileOrphanRuns :: "work_lease option \<Rightarrow> unit recovery" where
  "keepLeaseWhileOrphanRuns = lease_call HeartbeatCall"

definition releaseEndedOrphanLease :: "work_lease option \<Rightarrow> unit recovery" where
  "releaseEndedOrphanLease = lease_call ReleaseCall"

definition setStatusIfChanged :: "recovery_env \<Rightarrow> task_record \<Rightarrow> string \<Rightarrow> unit recovery" where
  "setStatusIfChanged RE r status = (if tr_status r = status then rec_return () else rec_bind (rec_update RE (tr_taskId r) (status_update status)) (\<lambda>_. rec_return ()))"

definition superviseAmbiguous ::
  "recovery_env \<Rightarrow> task_record \<Rightarrow> process_activity option \<Rightarrow> identity_verdict option \<Rightarrow> work_lease option \<Rightarrow> boot_decision recovery" where
  "superviseAmbiguous RE r activity verdict lease = (case activity of
      None \<Rightarrow> rec_return (RD_INPUT_REQUIRED, ''Execution state cannot be resolved from durable evidence; owner reconciliation is required.'')
    | Some a \<Rightarrow>
        if \<not> unfinished a \<or> verdict = Some GONE \<or> verdict = Some REUSED then
          (let why = ''The recorded process has ended; its final effect is not observable. The task stays AMBIGUOUS and is not replayed.''
           in rec_bind (releaseEndedOrphanLease lease) (\<lambda>_. rec_bind (setStatusIfChanged RE r why) (\<lambda>_. rec_return (RD_INPUT_REQUIRED, why))))
        else if verdict = Some SAME then
          (let why = ''Orphan process '' @ show_int (px_pid a) @ '' is running with verified identity; its effect is not observable here. The task stays AMBIGUOUS and is not replayed.''
           in rec_bind (keepLeaseWhileOrphanRuns lease) (\<lambda>_. rec_bind (setStatusIfChanged RE r why) (\<lambda>_. rec_return (MONITOR_ORPHAN, why))))
        else
          (let why = ''Orphan process identity cannot be verified; the task stays AMBIGUOUS, the lease is kept, and replay is forbidden.''
           in rec_bind (keepLeaseWhileOrphanRuns lease) (\<lambda>_. rec_bind (setStatusIfChanged RE r why) (\<lambda>_. rec_return (DEGRADED, why)))))"

text \<open>A loop over tasks that stops at the first error.\<close>

fun rec_each :: "('a \<Rightarrow> 'b recovery) \<Rightarrow> 'a list \<Rightarrow> 'b list recovery" where
  "rec_each f [] = rec_return []"
| "rec_each f (x # xs) = rec_bind (f x) (\<lambda>y. rec_bind (rec_each f xs) (\<lambda>ys. rec_return (y # ys)))"

definition supervise_one :: "recovery_env \<Rightarrow> task_record \<Rightarrow> (string \<times> boot_decision) recovery" where
  "supervise_one RE r = (case bv_activities RE of
      None \<Rightarrow> rec_return (tr_taskId r, RD_AMBIGUOUS, ''Activity evidence is unavailable; the task stays AMBIGUOUS and replay is forbidden.'')
    | Some rows \<Rightarrow> (let a = matchingActivity r rows
        in rec_bind (superviseAmbiguous RE r a (verdictFor RE a) (matchingLease r (bv_status RE))) (\<lambda>d. rec_return (tr_taskId r, d))))"

definition superviseAmbiguousTasks :: "recovery_env \<Rightarrow> (string \<times> boot_decision) list recovery" where
  "superviseAmbiguousTasks RE = rec_bind (rec_load RE) (\<lambda>rs. rec_each (supervise_one RE) (filter (\<lambda>r. tr_state r = AMBIGUOUS) rs))"

definition boot_activity :: "recovery_env \<Rightarrow> task_record \<Rightarrow> process_activity option" where
  "boot_activity RE r = (case bv_activities RE of None \<Rightarrow> None | Some rows \<Rightarrow> matchingActivity r rows)"

text \<open>The evidence of one task, put together.\<close>

definition boot_evidence :: "recovery_env \<Rightarrow> task_record \<Rightarrow> recovery_world \<Rightarrow> boot_recovery_evidence" where
  "boot_evidence RE r w =
     (let activity = boot_activity RE r; lease = matchingLease r (bv_status RE); verdict = verdictFor RE activity;
          live = (verdict = Some SAME); running = (tr_state r = RUNNING);
          contradictory = (running \<and> bv_activities RE = None \<or> running \<and> verdict = Some UNVERIFIABLE \<or>
            running \<and> (activity \<noteq> None \<and> lease = None \<or> tr_safetyClass r = Some ''PROCESS_UNKNOWN_EFFECT'' \<and> lease \<noteq> None \<and> \<not> live))
      in \<lparr>br_state = tr_state r, br_safetyClass = (case tr_safetyClass r of Some s \<Rightarrow> s | None \<Rightarrow> ''PROCESS_UNKNOWN_EFFECT''),
          br_hasDurableResult = hasVerifiedResult RE r w, br_hasMatchingLiveActivity = live, br_hasMatchingLease = (lease \<noteq> None),
          br_hasMatchingQueueTicket = (matchingTicket r (bv_status RE) \<noteq> None), br_processAlive = live,
          br_transportConnected = bv_connected RE, br_contradictoryEvidence = contradictory\<rparr>)"

definition boot_act :: "recovery_env \<Rightarrow> task_record \<Rightarrow> boot_decision \<Rightarrow> unit recovery" where
  "boot_act RE r dec =
     (let t = tr_taskId r; why = snd dec; ambiguous = rec_bind (rec_update RE t (class_update AMBIGUOUS_EFFECT)) (\<lambda>_. rec_transition RE t AMBIGUOUS why);
          skip = (\<lambda>_. rec_return ())
      in case fst dec of
           FINISH_FROM_DURABLE_EVIDENCE \<Rightarrow>
             if isTerminal (tr_state r) then rec_return ()
             else rec_bind (rec_transition RE t COMPLETED ''Boot reconciliation completed the task from verified durable result evidence.'') skip
         | MONITOR_ORPHAN \<Rightarrow> rec_bind ambiguous (\<lambda>_. keepLeaseWhileOrphanRuns (matchingLease r (bv_status RE)))
         | RD_AMBIGUOUS \<Rightarrow> if tr_state r = RUNNING then rec_bind ambiguous skip else setStatusIfChanged RE r why
         | DEGRADED \<Rightarrow> if tr_state r = RUNNING then rec_bind ambiguous skip else setStatusIfChanged RE r why
         | RD_INPUT_REQUIRED \<Rightarrow> if tr_state r = RUNNING then rec_bind (rec_transition RE t INPUT_REQUIRED why) skip else setStatusIfChanged RE r why
         | RETRY_SAFE \<Rightarrow>
             if tr_state r = RUNNING then
               rec_bind (rec_transition RE t FAILED ''Boot found no execution evidence for an interrupted pure read; it may be retried under a new request.'')
                 (\<lambda>_. rec_bind (rec_update RE t (class_update TRANSIENT_TRANSPORT)) skip)
             else rec_bind (rec_update RE t (status_update why)) skip
         | REATTACH \<Rightarrow> rec_bind (rec_update RE t (status_update why)) skip)"

definition boot_one :: "recovery_env \<Rightarrow> (string \<Rightarrow> bool) \<Rightarrow> task_record \<Rightarrow> (string \<times> boot_decision) recovery" where
  "boot_one RE q r w =
     (if q (tr_taskId r) then
        rec_return (tr_taskId r, RD_INPUT_REQUIRED, ''Owner-quarantined historical task: effect unknown, replay forbidden, record preserved unchanged.'') w
      else if tr_state r = AMBIGUOUS then
        rec_bind (superviseAmbiguous RE r (boot_activity RE r) (verdictFor RE (boot_activity RE r)) (matchingLease r (bv_status RE)))
          (\<lambda>d. rec_return (tr_taskId r, d)) w
      else (let e = boot_evidence RE r w; dec = (decideBootRecovery e, bootRecoveryReason e)
            in rec_bind (boot_act RE r dec) (\<lambda>_. rec_return (tr_taskId r, dec)) w))"

definition reconcileBootTasks :: "recovery_env \<Rightarrow> (string \<times> boot_decision) list recovery" where
  "reconcileBootTasks RE = rec_bind (rec_load RE) (\<lambda>rs.
     if rs = [] then rec_return []
     else (case tv_quarantined (bv_env RE) of
         None \<Rightarrow> rec_fail (RecTask QuarantineUnreadable)
       | Some q \<Rightarrow> rec_each (boot_one RE q) rs))"

section \<open>Owner controls\<close>

record needs_andrew =
  nd_decision :: string
  nd_evidence :: "string list"
  nd_choices :: "string list"

definition needsAndrew :: "task_record \<Rightarrow> needs_andrew option" where
  "needsAndrew r =
     (if tr_state r = INPUT_REQUIRED then
        Some \<lparr>nd_decision = tr_status r, nd_evidence = [''Task state is INPUT_REQUIRED. Node status: '' @ tr_status r],
              nd_choices = [''provide the missing input and resume'', ''cancel the task'']\<rparr>
      else if tr_state r = AMBIGUOUS \<or> tr_failureClass r = Some ''AMBIGUOUS_EFFECT'' then
        Some \<lparr>nd_decision = ''Decide whether verified evidence reconciles the uncertain external effect or the task must be cancelled.'',
              nd_evidence = tr_status r # (case given (tr_failureClass r) of Some f \<Rightarrow> [''failureClass='' @ f] | None \<Rightarrow> []),
              nd_choices = [''reconcile with an evidence reference'', ''cancel the task'']\<rparr>
      else None)"

definition CONTROL_REF :: "string \<Rightarrow> bool" where
  "CONTROL_REF s = (1 \<le> length s \<and> length s \<le> 160 \<and> list_all (\<lambda>c. is_alnum c \<or> c \<in> set ''._:-'') s)"

definition ownerControlAuthority :: "recovery_env \<Rightarrow> string \<Rightarrow> (access_mode \<times> int) recovery" where
  "ownerControlAuthority RE nodeId w =
     (let now = bv_clock RE (rw_calls w); p = inspectAccessPolicyFile (bv_node RE nodeId) (rw_access w) now
      in if \<not> pi_valid p then (Inl (RecPolicy (pi_errors p)), w) else (Inr (resolveMode (pi_state p) now, as_revision (pi_state p)), w))"

text \<open>The opening of every control: not quarantined, the task exists, the owner's policy is valid.\<close>

definition guard_control :: "recovery_env \<Rightarrow> string \<Rightarrow> unit recovery" where
  "guard_control RE t w = (case assertNotQuarantined (bv_env RE) t of Inl e \<Rightarrow> (Inl (RecTask e), w) | Inr _ \<Rightarrow> (Inr (), w))"

definition controlled_task :: "recovery_env \<Rightarrow> string \<Rightarrow> task_record recovery" where
  "controlled_task RE t = rec_bind (rec_read RE t) (\<lambda>found. case found of
      None \<Rightarrow> rec_fail RecMissing
    | Some r \<Rightarrow> rec_bind (ownerControlAuthority RE (tr_nodeId r)) (\<lambda>_. rec_return r))"

definition control_event :: "recovery_env \<Rightarrow> string \<Rightarrow> task_record \<Rightarrow> string \<Rightarrow> string option \<Rightarrow> string \<Rightarrow> unit recovery" where
  "control_event RE t r control evidenceRef summary = rec_bind (on_tasks RE (\<lambda>eventId now. log_event (bv_env RE) eventId now
      \<lparr>te_eventId = [], te_at = Iso 0, te_taskId = t, te_kind = EvControl, te_state = Some (tr_state r), te_toState = None, te_actorId = None, te_nodeId = None,
       te_operation = None, te_attempt = None, te_summary = Some summary, te_control = Some control, te_evidenceRef = evidenceRef, te_traceId = given (tr_traceId r),
       te_failureClass = None, te_historyGap = False\<rparr>)) (\<lambda>_. rec_return ())"

text \<open>Classes are compared as strings; a class the policy does not know is not one it refuses.\<close>

definition retry_named :: "string \<Rightarrow> string \<Rightarrow> bool" where
  "retry_named safety failure =
     (\<not> (\<exists>f \<in> set FAILURE_CLASSES. failure_string f = failure \<and> \<not> retryAllowed PURE_READ_IDEMPOTENT f) \<and>
      (\<exists>s \<in> set SAFETY_CLASSES. safety_string s = safety \<and> retryAllowed s EXECUTION_FAILED))"

definition child_input :: "task_record \<Rightarrow> bool \<Rightarrow> string \<Rightarrow> task_create_input" where
  "child_input r retry hex = \<lparr>tc_taskId = None, tc_actorId = tr_actorId r, tc_nodeId = tr_nodeId r, tc_operation = tr_operation r,
     tc_idempotencyKey = (if retry then ''retry'' else ''reset'') @ ''_'' @ take_last 20 (tr_taskId r) @ ''_'' @ hex, tc_payloadSha256 = tr_payloadSha256 r,
     tc_policyHash = given (tr_policyHash r), tc_authority = None, tc_traceId = given (tr_traceId r), tc_parentTaskId = Some (tr_taskId r),
     tc_rootTaskId = Some (tr_rootTaskId r), tc_taskDepth = Some (tr_taskDepth r + 1), tc_attemptBudget = Some (tr_attemptBudget r),
     tc_safetyClass = given (tr_safetyClass r), tc_mutationLevel = given (tr_mutationLevel r), tc_repoContext = tr_repoContext r\<rparr>"

definition resetTask :: "recovery_env \<Rightarrow> string \<Rightarrow> bool \<Rightarrow> string \<Rightarrow> string \<Rightarrow> task_record recovery" where
  "resetTask RE taskId retry hex freshId = rec_bind (guard_control RE taskId) (\<lambda>_. rec_bind (controlled_task RE taskId) (\<lambda>r.
     if retry \<and> (case given (tr_failureClass r) of None \<Rightarrow> True
          | Some f \<Rightarrow> \<not> retry_named (case given (tr_safetyClass r) of Some s \<Rightarrow> s | None \<Rightarrow> ''DESTRUCTIVE'') f) then rec_fail RecRetry
     else if \<not> isTerminal (tr_state r) then rec_fail (RecNotTerminal (tr_state r))
     else rec_bind (on_tasks RE (archive (bv_env RE) taskId)) (\<lambda>_.
          rec_bind (on_tasks RE (create (bv_env RE) (child_input r retry hex) freshId)) (\<lambda>child.
          rec_bind (control_event RE (tr_taskId child) child (if retry then ''retry'' else ''reset'') (Some (tr_taskId r))
              (''Created from preserved '' @ (if retry then ''retry'' else ''reset'') @ '' source '' @ tr_taskId r @ ''.'')) (\<lambda>_. rec_return child)))))"

definition cancelTask :: "recovery_env \<Rightarrow> string \<Rightarrow> task_record recovery" where
  "cancelTask RE taskId = rec_bind (guard_control RE taskId) (\<lambda>_. rec_bind (controlled_task RE taskId) (\<lambda>r.
     if isTerminal (tr_state r) then rec_return r
     else rec_transition RE taskId CANCELLED ''Task cancellation requested by the owner CLI after current policy re-check.''))"

definition reconcileTask :: "recovery_env \<Rightarrow> string \<Rightarrow> string \<Rightarrow> task_record recovery" where
  "reconcileTask RE taskId evidenceRef = rec_bind (guard_control RE taskId) (\<lambda>_.
     if \<not> CONTROL_REF evidenceRef then rec_fail RecReference
     else rec_bind (controlled_task RE taskId) (\<lambda>r.
       if tr_state r \<noteq> AMBIGUOUS then rec_fail (RecNotAmbiguous (tr_state r))
       else rec_bind (rec_transition RE taskId RECONCILED (''Owner reconciled the task using evidence reference '' @ evidenceRef @ ''.'')) (\<lambda>u.
            rec_bind (control_event RE taskId u ''reconcile'' (Some evidenceRef) (tr_status u)) (\<lambda>_. rec_return u))))"

definition requestPause :: "recovery_env \<Rightarrow> string \<Rightarrow> string \<Rightarrow> task_record recovery" where
  "requestPause RE taskId phase = rec_bind (guard_control RE taskId) (\<lambda>_.
     if \<not> CONTROL_REF phase then rec_fail RecReference
     else rec_bind (controlled_task RE taskId) (\<lambda>r.
       rec_bind (rec_update RE taskId (status_update (''Pause requested after phase '' @ phase @ ''; worker acknowledgement remains observable in the task log.''))) (\<lambda>u.
       rec_bind (control_event RE taskId u (''pause-after-phase:'' @ phase) None (tr_status u)) (\<lambda>_. rec_return u))))"

definition resumeTask :: "recovery_env \<Rightarrow> string \<Rightarrow> task_record recovery" where
  "resumeTask RE taskId = rec_bind (guard_control RE taskId) (\<lambda>_. rec_bind (controlled_task RE taskId) (\<lambda>r.
     rec_bind (rec_update RE taskId (status_update ''Resume requested by the owner CLI after current policy re-check.'')) (\<lambda>u.
     rec_bind (control_event RE taskId u ''resume'' None (tr_status u)) (\<lambda>_. rec_return u))))"

section \<open>What one operation may do to a task\<close>

text \<open>Only task \<open>i\<close> is touched: its identity stays, and its state stays or goes to one of \<open>S\<close>.\<close>

definition moves :: "task_state set \<Rightarrow> string \<Rightarrow> task_document \<Rightarrow> task_document \<Rightarrow> bool" where
  "moves S i d d' = ((\<forall>j. j \<noteq> i \<longrightarrow> lookup_task d' j = lookup_task d j) \<and>
     (lookup_task d' i = lookup_task d i \<or>
      (\<exists>r r'. lookup_task d i = Some r \<and> lookup_task d' i = Some r' \<and> identity_of r' = identity_of r \<and> tr_archivedAtUtc r' = tr_archivedAtUtc r \<and>
         (tr_state r' = tr_state r \<or> legalTransition (tr_state r) (tr_state r') \<and> tr_state r' \<in> S))))"

lemma moves_refl: "moves S i d d"
  by (simp add: moves_def)

lemma moves_trans: "moves {} i d d1 \<Longrightarrow> moves S i d1 d2 \<Longrightarrow> moves S i d d2" "moves S i d d1 \<Longrightarrow> moves {} i d1 d2 \<Longrightarrow> moves S i d d2"
  by (cases "lookup_task d i"; cases "lookup_task d1 i"; cases "lookup_task d2 i"; simp add: moves_def; metis)+

lemma moves_mono: "moves S i d d' \<Longrightarrow> S \<subseteq> T \<Longrightarrow> moves T i d d'"
  by (auto simp: moves_def)

definition effect :: "task_state set \<Rightarrow> string \<Rightarrow> task_document \<Rightarrow> recovery_world \<Rightarrow> bool" where
  "effect S i d w' = (\<exists>d'. holds (rw_tasks w') d' \<and> moves S i d d')"

lemma changed_effect:
  assumes w: "holds tw d" and run: "then_log env eventId now ev (mutate env now (change_active f i) tw) = (res, tw')"
    and f: "\<And>r r'. f r = Inr r' \<Longrightarrow> record_ok r \<Longrightarrow> record_ok r' \<and> identity_of r' = identity_of r \<and> tr_archivedAtUtc r' = tr_archivedAtUtc r \<and>
      (tr_state r' = tr_state r \<or> legalTransition (tr_state r) (tr_state r') \<and> tr_state r' \<in> S)"
  shows "\<exists>d'. holds tw' d' \<and> moves S i d d' \<and> (case res of Inl e \<Rightarrow> True | Inr r' \<Rightarrow> \<exists>r. lookup_task d i = Some r \<and> f r = Inr r' \<and> lookup_task d' i = Some r')"
proof -
  have d: "entries_ok d" using w by (simp add: holds_def doc_ok_def)
  obtain r1 tw1 where m: "mutate env now (change_active f i) tw = (r1, tw1)" by fastforce
  have body: "entries_ok d' \<and> (\<exists>r. lookup_task d i = Some r \<and> f r = Inr x \<and> record_ok r \<and> lookup_task d' i = Some x)"
    if "change_active f i d = Inr (x, d')" for x d'
  proof -
    have g: "f r = Inr r' \<Longrightarrow> record_ok r \<Longrightarrow> record_ok r' \<and> identity_of r' = identity_of r \<and> tr_archivedAtUtc r' = tr_archivedAtUtc r \<and>
      (tr_state r' = tr_state r \<or> legalTransition (tr_state r) (tr_state r'))" for r r' using f by blast
    from change_active_effect [OF d that g] obtain r where r: "entries_ok d'" "lookup_task d' i = Some x" "lookup_task d i = Some r" "f r = Inr x" by blast
    have "record_ok r" using entries_okD(3,4) [OF d] r(3) by (auto simp: lookup_task_def split: option.splits)
    with r show ?thesis by blast
  qed
  have k: "entries_ok d'" if "change_active f i d = Inr (x, d')" for x d' using body [OF that] by blast
  have "\<exists>d'. holds tw1 d' \<and> moves S i d d' \<and> (case r1 of Inl e \<Rightarrow> True | Inr r' \<Rightarrow> \<exists>r. lookup_task d i = Some r \<and> f r = Inr r' \<and> lookup_task d' i = Some r')"
  proof (rule mutate_cases [OF w m k])
    fix e assume "r1 = Inl e" "tw1 = tw"
    then show ?thesis using w moves_refl by auto
  next
    fix x d' d''
    assume c: "change_active f i d = Inr (x, d')" "r1 = Inr x" "holds tw1 d''" "td_records d'' = td_records d'" "td_archived d'' = td_archived d'"
    have l: "lookup_task d'' = lookup_task d'" by (simp add: lookup_task_def c(4,5) fun_eq_iff split: option.split)
    obtain r where r: "lookup_task d i = Some r" "f r = Inr x" "record_ok r" "lookup_task d' i = Some x" using body [OF c(1)] by blast
    have "moves S i d d''" using r f [OF r(2,3)] change_frame [OF c(1)] by (auto simp: moves_def l)
    with c r show ?thesis by (auto simp: l)
  qed
  then obtain d' where d': "holds tw1 d'" "moves S i d d'"
      "case r1 of Inl e \<Rightarrow> True | Inr r' \<Rightarrow> \<exists>r. lookup_task d i = Some r \<and> f r = Inr r' \<and> lookup_task d' i = Some r'" by blast
  from then_log_effect [OF run [unfolded m] d'(1)] have "holds tw' d'" by blast
  moreover have "res = r1" if "res = Inr x" for x
    using run m that by (auto simp: then_log_def split: sum.splits prod.splits)
  ultimately show ?thesis using d'(2,3) by (cases res) auto
qed

lemma on_tasksD:
  assumes "on_tasks RE f w = (res, w')"
  obtains r tw where "f (bv_ids RE (rw_calls w)) (bv_clock RE (rw_calls w)) (rw_tasks w) = (r, tw)"
    "w' = w\<lparr>rw_tasks := tw, rw_calls := Suc (rw_calls w)\<rparr>" "res = (case r of Inl e \<Rightarrow> Inl (RecTask e) | Inr x \<Rightarrow> Inr x)"
  using assms by (auto simp: on_tasks_def split: prod.splits)

text \<open>The frame of the recovery operations: files other than the task store, and lease calls, stay.\<close>

definition same_rest :: "recovery_world \<Rightarrow> recovery_world \<Rightarrow> bool" where
  "same_rest w w' = (rw_leases w' = rw_leases w \<and> rw_results w' = rw_results w \<and> rw_access w' = rw_access w)"

lemma rec_update_effect:
  assumes "rec_update RE i u w = (res, w')" and w: "holds (rw_tasks w) d"
  shows "effect (set_option (tu_state u)) i d w' \<and> same_rest w w'"
    and "res = Inr r' \<Longrightarrow> \<exists>d' r. holds (rw_tasks w') d' \<and> moves (set_option (tu_state u)) i d d' \<and> lookup_task d i = Some r \<and> lookup_task d' i = Some r' \<and>
      update_record (bv_env RE) u (bv_clock RE (rw_calls w)) r = Inr r'"
proof -
  obtain r tw where run: "update_task (bv_env RE) i u (bv_ids RE (rw_calls w)) (bv_clock RE (rw_calls w)) (rw_tasks w) = (r, tw)"
    and w': "w' = w\<lparr>rw_tasks := tw, rw_calls := Suc (rw_calls w)\<rparr>" and res: "res = (case r of Inl e \<Rightarrow> Inl (RecTask e) | Inr x \<Rightarrow> Inr x)"
    using assms(1) unfolding rec_update_def by (rule on_tasksD)
  have f: "record_ok x' \<and> identity_of x' = identity_of x \<and> tr_archivedAtUtc x' = tr_archivedAtUtc x \<and>
      (tr_state x' = tr_state x \<or> legalTransition (tr_state x) (tr_state x') \<and> tr_state x' \<in> set_option (tu_state u))"
    if "update_record env u now x = Inr x'" "record_ok x" for env now x x'
  proof -
    have "tr_state x' = (case tu_state u of Some s \<Rightarrow> s | None \<Rightarrow> tr_state x)"
      using that(1) by (auto simp: update_record_def split: sum.splits)
    with update_record_keeps [OF that] show ?thesis by (cases "tu_state u") auto
  qed
  have E: "\<exists>d'. holds tw d' \<and> moves (set_option (tu_state u)) i d d' \<and>
      (case r of Inl e \<Rightarrow> True | Inr r' \<Rightarrow> \<exists>x. lookup_task d i = Some x \<and> update_record (bv_env RE) u (bv_clock RE (rw_calls w)) x = Inr r' \<and> lookup_task d' i = Some r')"
  proof -
    have "(\<exists>e. r = Inl e) \<and> tw = rw_tasks w \<or> (\<exists>ev. then_log (bv_env RE) (bv_ids RE (rw_calls w)) (bv_clock RE (rw_calls w)) ev
        (mutate (bv_env RE) (bv_clock RE (rw_calls w)) (change_active (update_record (bv_env RE) u (bv_clock RE (rw_calls w))) i) (rw_tasks w)) = (r, tw))"
      using run unfolding update_task_def by (auto split: if_splits sum.splits)
    then show ?thesis
    proof
      assume "\<exists>ev. then_log (bv_env RE) (bv_ids RE (rw_calls w)) (bv_clock RE (rw_calls w)) ev
        (mutate (bv_env RE) (bv_clock RE (rw_calls w)) (change_active (update_record (bv_env RE) u (bv_clock RE (rw_calls w))) i) (rw_tasks w)) = (r, tw)"
      then obtain ev where "then_log (bv_env RE) (bv_ids RE (rw_calls w)) (bv_clock RE (rw_calls w)) ev
        (mutate (bv_env RE) (bv_clock RE (rw_calls w)) (change_active (update_record (bv_env RE) u (bv_clock RE (rw_calls w))) i) (rw_tasks w)) = (r, tw)" ..
      from changed_effect [OF w this f] show ?thesis .
    qed (use w moves_refl in auto)
  qed
  then show "effect (set_option (tu_state u)) i d w' \<and> same_rest w w'" by (auto simp: effect_def w' same_rest_def)
  show "res = Inr r' \<Longrightarrow> \<exists>d' r. holds (rw_tasks w') d' \<and> moves (set_option (tu_state u)) i d d' \<and> lookup_task d i = Some r \<and> lookup_task d' i = Some r' \<and>
      update_record (bv_env RE) u (bv_clock RE (rw_calls w)) r = Inr r'"
    using E res by (auto simp: w' split: sum.splits)
qed

lemma rec_transition_effect:
  assumes "rec_transition RE i s status w = (res, w')" and w: "holds (rw_tasks w) d"
  shows "effect {s} i d w' \<and> same_rest w w'"
    and "res = Inr r' \<Longrightarrow> \<exists>d' r. holds (rw_tasks w') d' \<and> moves {s} i d d' \<and> lookup_task d i = Some r \<and> lookup_task d' i = Some r' \<and>
      transition_record (bv_env RE) s (Some status) None (bv_clock RE (rw_calls w)) r = Inr r'"
proof -
  obtain r tw where run: "transition (bv_env RE) i s (Some status) None (bv_ids RE (rw_calls w)) (bv_clock RE (rw_calls w)) (rw_tasks w) = (r, tw)"
    and w': "w' = w\<lparr>rw_tasks := tw, rw_calls := Suc (rw_calls w)\<rparr>" and res: "res = (case r of Inl e \<Rightarrow> Inl (RecTask e) | Inr x \<Rightarrow> Inr x)"
    using assms(1) unfolding rec_transition_def by (rule on_tasksD)
  have f: "record_ok x' \<and> identity_of x' = identity_of x \<and> tr_archivedAtUtc x' = tr_archivedAtUtc x \<and>
      (tr_state x' = tr_state x \<or> legalTransition (tr_state x) (tr_state x') \<and> tr_state x' \<in> {s})"
    if "transition_record env s st ex now x = Inr x'" "record_ok x" for env st ex now x x'
  proof -
    have "tr_state x' = s" using that(1) by (auto simp: transition_record_def split: if_splits)
    with transition_record_keeps [OF that] show ?thesis by auto
  qed
  have E: "\<exists>d'. holds tw d' \<and> moves {s} i d d' \<and>
      (case r of Inl e \<Rightarrow> True | Inr r' \<Rightarrow> \<exists>x. lookup_task d i = Some x \<and> transition_record (bv_env RE) s (Some status) None (bv_clock RE (rw_calls w)) x = Inr r' \<and> lookup_task d' i = Some r')"
  proof -
    have "(\<exists>e. r = Inl e) \<and> tw = rw_tasks w \<or> (\<exists>ev. then_log (bv_env RE) (bv_ids RE (rw_calls w)) (bv_clock RE (rw_calls w)) ev
        (mutate (bv_env RE) (bv_clock RE (rw_calls w)) (change_active (transition_record (bv_env RE) s (Some status) None (bv_clock RE (rw_calls w))) i) (rw_tasks w)) = (r, tw))"
      using run unfolding transition_def by (auto split: if_splits sum.splits)
    then show ?thesis
    proof
      assume "\<exists>ev. then_log (bv_env RE) (bv_ids RE (rw_calls w)) (bv_clock RE (rw_calls w)) ev
        (mutate (bv_env RE) (bv_clock RE (rw_calls w)) (change_active (transition_record (bv_env RE) s (Some status) None (bv_clock RE (rw_calls w))) i) (rw_tasks w)) = (r, tw)"
      then obtain ev where "then_log (bv_env RE) (bv_ids RE (rw_calls w)) (bv_clock RE (rw_calls w)) ev
        (mutate (bv_env RE) (bv_clock RE (rw_calls w)) (change_active (transition_record (bv_env RE) s (Some status) None (bv_clock RE (rw_calls w))) i) (rw_tasks w)) = (r, tw)" ..
      from changed_effect [OF w this f] show ?thesis .
    qed (use w moves_refl in auto)
  qed
  then show "effect {s} i d w' \<and> same_rest w w'" by (auto simp: effect_def w' same_rest_def)
  show "res = Inr r' \<Longrightarrow> \<exists>d' r. holds (rw_tasks w') d' \<and> moves {s} i d d' \<and> lookup_task d i = Some r \<and> lookup_task d' i = Some r' \<and>
      transition_record (bv_env RE) s (Some status) None (bv_clock RE (rw_calls w)) r = Inr r'"
    using E res by (auto simp: w' split: sum.splits)
qed

lemma effect_refl: "holds (rw_tasks w) d \<Longrightarrow> effect S i d w"
  unfolding effect_def using moves_refl by blast

lemma effect_mono: "effect S i d w \<Longrightarrow> S \<subseteq> T \<Longrightarrow> effect T i d w"
  unfolding effect_def using moves_mono by blast

section \<open>A failed execution never hides an effect\<close>


section \<open>Boot reconciliation is conservative\<close>

definition log_grows :: "lease_call set \<Rightarrow> recovery_world \<Rightarrow> recovery_world \<Rightarrow> bool" where
  "log_grows L w w' = (set (rw_leases w') \<subseteq> set (rw_leases w) \<union> L \<and> rw_results w' = rw_results w)"

lemma same_rest_log: "same_rest w w' \<Longrightarrow> log_grows L w w'"
  by (simp add: same_rest_def log_grows_def)

lemma log_grows_refl: "log_grows L w w"
  by (simp add: log_grows_def)

lemma log_grows_trans: "log_grows L w w1 \<Longrightarrow> log_grows L w1 w2 \<Longrightarrow> log_grows L w w2"
  by (auto simp: log_grows_def)

text \<open>The effect of one task: on the store, and on the calls made for its lease.\<close>

definition task_effect :: "task_state set \<Rightarrow> lease_call set \<Rightarrow> string \<Rightarrow> task_document \<Rightarrow> recovery_world \<Rightarrow> recovery_world \<Rightarrow> bool" where
  "task_effect S L i d w w' = (effect S i d w' \<and> log_grows L w w')"

lemma task_effect_refl: "holds (rw_tasks w) d \<Longrightarrow> task_effect S L i d w w"
  by (simp add: task_effect_def effect_refl log_grows_refl)

lemma task_effect_mono: "task_effect S L i d w w' \<Longrightarrow> S \<subseteq> T \<Longrightarrow> L \<subseteq> M \<Longrightarrow> task_effect T M i d w w'"
  unfolding task_effect_def using effect_mono by (fastforce simp: log_grows_def)

lemma task_effect_trans:
  assumes "task_effect S L i d w w1" and "\<And>d1. holds (rw_tasks w1) d1 \<Longrightarrow> task_effect T L i d1 w1 w2" and "S = {} \<or> T = {}"
  shows "task_effect (S \<union> T) L i d w w2"
proof -
  obtain d1 where d1: "holds (rw_tasks w1) d1" "moves S i d d1" and l1: "log_grows L w w1" using assms(1) unfolding task_effect_def effect_def by blast
  obtain d2 where d2: "holds (rw_tasks w2) d2" "moves T i d1 d2" and l2: "log_grows L w1 w2" using assms(2) [OF d1(1)] unfolding task_effect_def effect_def by blast
  have "moves (S \<union> T) i d d2"
    using assms(3)
  proof
    assume "S = {}"
    then show ?thesis using moves_trans(1) [of i d d1 T d2] d1(2) d2(2) by simp
  next
    assume "T = {}"
    then show ?thesis using moves_trans(2) [of S i d d1 d2] d1(2) d2(2) by simp
  qed
  with d2(1) log_grows_trans [OF l1 l2] show ?thesis unfolding task_effect_def effect_def by blast
qed

lemma bind_effect:
  assumes "rec_bind m f w = (res, w')" and "\<And>a w1. m w = (a, w1) \<Longrightarrow> task_effect S L i d w w1"
    and "\<And>x w1 d1 r2 w2. m w = (Inr x, w1) \<Longrightarrow> holds (rw_tasks w1) d1 \<Longrightarrow> f x w1 = (r2, w2) \<Longrightarrow> task_effect T L i d1 w1 w2" and "S = {} \<or> T = {}"
  shows "task_effect (S \<union> T) L i d w w'"
proof -
  obtain a w1 where m: "m w = (a, w1)" by fastforce
  show ?thesis
  proof (cases a)
    case (Inl e)
    then have "w' = w1" using assms(1) m by (simp add: rec_bind_def)
    with assms(2) [OF m] show ?thesis by (auto intro: task_effect_mono)
  next
    case (Inr x)
    then have "f x w1 = (res, w')" using assms(1) m by (simp add: rec_bind_def)
    with Inr m show ?thesis by (intro task_effect_trans [OF assms(2) [OF m] _ assms(4)]) (rule assms(3), simp_all)
  qed
qed

lemma return_effect: "rec_return x w = (res, w') \<Longrightarrow> holds (rw_tasks w) d \<Longrightarrow> task_effect S L i d w w'"
  by (auto simp: rec_return_def task_effect_refl)

lemma update_effect: "rec_update RE i u w = (res, w') \<Longrightarrow> holds (rw_tasks w) d \<Longrightarrow> tu_state u = None \<Longrightarrow> task_effect {} L i d w w'"
  using rec_update_effect(1) same_rest_log by (fastforce simp: task_effect_def)

lemma transition_effect: "rec_transition RE i s status w = (res, w') \<Longrightarrow> holds (rw_tasks w) d \<Longrightarrow> task_effect {s} L i d w w'"
  using rec_transition_effect(1) same_rest_log by (fastforce simp: task_effect_def)

lemma lease_effect: "lease_call f lease w = (res, w') \<Longrightarrow> holds (rw_tasks w) d \<Longrightarrow> task_effect {} {f (wl_id l) | l. lease = Some l} i d w w'"
  unfolding task_effect_def lease_call_def
  by (cases lease) (auto simp: effect_refl log_grows_def given_def split: option.splits if_splits)

lemma status_effect: "setStatusIfChanged RE r s w = (res, w') \<Longrightarrow> holds (rw_tasks w) d \<Longrightarrow> task_effect {} L (tr_taskId r) d w w'"
proof (cases "tr_status r = s")
  case False
  assume run: "setStatusIfChanged RE r s w = (res, w')" and h: "holds (rw_tasks w) d"
  have "rec_bind (rec_update RE (tr_taskId r) (status_update s)) (\<lambda>_. rec_return ()) w = (res, w')"
    using run False by (simp add: setStatusIfChanged_def)
  then have "task_effect ({} \<union> {}) L (tr_taskId r) d w w'"
    by (rule bind_effect) (use h in \<open>auto intro: update_effect return_effect simp: status_update_def\<close>)
  then show ?thesis by simp
qed (simp add: setStatusIfChanged_def return_effect)

text \<open>What the evidence of a running task permits, and the calls its lease may receive.\<close>

definition has_result :: "recovery_env \<Rightarrow> task_record \<Rightarrow> recovery_world \<Rightarrow> bool" where
  "has_result RE r w = (\<exists>ref h n v. tr_resultRef r = Some ref \<and> tr_resultHash r = Some h \<and>
     readValueForTask (bv_results RE) ref (tr_taskId r) h (bv_clock RE n) (rw_results w) = Inr v)"

definition boot_moves :: "recovery_env \<Rightarrow> task_record \<Rightarrow> recovery_world \<Rightarrow> task_state set" where
  "boot_moves RE r w = {s. tr_state r = RUNNING \<and> (s = AMBIGUOUS \<or> s = INPUT_REQUIRED \<or> s = COMPLETED \<and> has_result RE r w \<or>
     s = FAILED \<and> tr_safetyClass r = Some ''PURE_READ_IDEMPOTENT'' \<and> bv_activities RE \<noteq> None \<and> boot_activity RE r = None \<and> matchingLease r (bv_status RE) = None)}"

definition boot_lease_calls :: "recovery_env \<Rightarrow> task_record \<Rightarrow> lease_call set" where
  "boot_lease_calls RE r = {c. \<exists>l. matchingLease r (bv_status RE) = Some l \<and> (c = HeartbeatCall (wl_id l) \<or>
     c = ReleaseCall (wl_id l) \<and> tr_state r = AMBIGUOUS \<and> boot_activity RE r \<noteq> None \<and>
       (verdictFor RE (boot_activity RE r) = Some GONE \<or> verdictFor RE (boot_activity RE r) = Some REUSED))}"

lemma supervise_effect:
  assumes run: "superviseAmbiguous RE r a (verdictFor RE a) (matchingLease r (bv_status RE)) w = (res, w')" and h: "holds (rw_tasks w) d"
    and a: "a = boot_activity RE r" "tr_state r = AMBIGUOUS"
  shows "task_effect {} (boot_lease_calls RE r) (tr_taskId r) d w w'"
proof -
  have seq: "task_effect {} (boot_lease_calls RE r) (tr_taskId r) d w w'"
    if run: "rec_bind (lease_call f (matchingLease r (bv_status RE))) (\<lambda>_. rec_bind (setStatusIfChanged RE r why) (\<lambda>_. rec_return x)) w = (res, w')"
      and f: "\<And>l. matchingLease r (bv_status RE) = Some l \<Longrightarrow> f (wl_id l) \<in> boot_lease_calls RE r" for f why and x :: boot_decision
  proof -
    have "task_effect ({} \<union> ({} \<union> {})) (boot_lease_calls RE r) (tr_taskId r) d w w'"
      using run
    proof (rule bind_effect)
      fix a1 w1 assume "lease_call f (matchingLease r (bv_status RE)) w = (a1, w1)"
      from lease_effect [OF this h] show "task_effect {} (boot_lease_calls RE r) (tr_taskId r) d w w1" by (rule task_effect_mono) (use f in auto)
    next
      fix d1 w1 r2 w2 assume "holds (rw_tasks w1) d1" "rec_bind (setStatusIfChanged RE r why) (\<lambda>_. rec_return x) w1 = (r2, w2)"
      then show "task_effect ({} \<union> {}) (boot_lease_calls RE r) (tr_taskId r) d1 w1 w2"
        by (intro bind_effect [where m = "setStatusIfChanged RE r why"]) (auto intro: status_effect return_effect)
    qed simp
    then show ?thesis by simp
  qed
  have beat: "HeartbeatCall (wl_id l) \<in> boot_lease_calls RE r" if "matchingLease r (bv_status RE) = Some l" for l
    using that by (simp add: boot_lease_calls_def)
  show ?thesis
  proof (cases a)
    case None
    then show ?thesis using run h by (simp add: superviseAmbiguous_def return_effect)
  next
    case (Some x)
    have gone: "\<not> unfinished x \<Longrightarrow> verdictFor RE a = Some GONE" by (auto simp: verdictFor_def Some unfinished_def)
    show ?thesis
    proof (cases "\<not> unfinished x \<or> verdictFor RE a = Some GONE \<or> verdictFor RE a = Some REUSED")
      case True
      then have b: "boot_activity RE r = Some x" and v: "verdictFor RE a = Some GONE \<or> verdictFor RE a = Some REUSED" using gone a Some by auto
      have "task_effect {} (boot_lease_calls RE r) (tr_taskId r) d w w'"
        using run True unfolding superviseAmbiguous_def Some option.case Let_def releaseEndedOrphanLease_def if_P
        by (rule_tac seq) (use v a b in \<open>auto simp: boot_lease_calls_def\<close>)
      then show ?thesis .
    next
      case False
      then show ?thesis
        using run unfolding superviseAmbiguous_def Some option.case Let_def keepLeaseWhileOrphanRuns_def if_not_P
        by (cases "verdictFor RE a = Some SAME") (auto intro!: seq beat simp: Some)
    qed
  qed
qed

definition act_states :: "task_record \<Rightarrow> reconciliation_decision \<Rightarrow> task_state set" where
  "act_states r k = (case k of
      FINISH_FROM_DURABLE_EVIDENCE \<Rightarrow> {COMPLETED}
    | MONITOR_ORPHAN \<Rightarrow> {AMBIGUOUS}
    | RD_AMBIGUOUS \<Rightarrow> if tr_state r = RUNNING then {AMBIGUOUS} else {}
    | DEGRADED \<Rightarrow> if tr_state r = RUNNING then {AMBIGUOUS} else {}
    | RD_INPUT_REQUIRED \<Rightarrow> if tr_state r = RUNNING then {INPUT_REQUIRED} else {}
    | RETRY_SAFE \<Rightarrow> if tr_state r = RUNNING then {FAILED} else {}
    | REATTACH \<Rightarrow> {})"

lemma ambiguous_effect:
  assumes "rec_bind (rec_update RE i (class_update f)) (\<lambda>_. rec_transition RE i s why) w = (res, w')" and "holds (rw_tasks w) d"
  shows "task_effect {s} L i d w w'"
proof -
  have "task_effect ({} \<union> {s}) L i d w w'"
    using assms(1) by (rule bind_effect) (use assms(2) in \<open>auto intro: update_effect transition_effect simp: class_update_def\<close>)
  then show ?thesis by simp
qed

lemma skip_effect:
  assumes "rec_bind m (\<lambda>_. rec_return ()) w = (res, w')" and "\<And>a w1. m w = (a, w1) \<Longrightarrow> task_effect S L i d w w1"
  shows "task_effect S L i d w w'"
proof -
  have "task_effect (S \<union> {}) L i d w w'" using assms(1) by (rule bind_effect) (auto intro: assms(2) return_effect)
  then show ?thesis by simp
qed

lemma boot_act_effect:
  assumes run: "boot_act RE r (k, why) w = (res, w')" and h: "holds (rw_tasks w) d"
  shows "task_effect (act_states r k) (boot_lease_calls RE r) (tr_taskId r) d w w'"
proof -
  let ?L = "boot_lease_calls RE r" and ?i = "tr_taskId r"
  have T: "task_effect {s} ?L ?i d w w'" if "rec_bind (rec_transition RE ?i s x) (\<lambda>_. rec_return ()) w = (res, w')" for s x
    by (rule skip_effect [OF that]) (rule transition_effect [OF _ h])
  have A: "task_effect {s} ?L ?i d w w'" if "rec_bind (rec_bind (rec_update RE ?i (class_update f)) (\<lambda>_. rec_transition RE ?i s x)) (\<lambda>_. rec_return ()) w = (res, w')" for s x f
    by (rule skip_effect [OF that]) (rule ambiguous_effect [OF _ h])
  have U: "task_effect {} ?L ?i d w w'" if "rec_bind (rec_update RE ?i (status_update x)) (\<lambda>_. rec_return ()) w = (res, w')" for x
    by (rule skip_effect [OF that]) (rule update_effect [OF _ h], assumption, simp add: status_update_def)
  have C: "task_effect {} ?L ?i d w w'" if "setStatusIfChanged RE r x w = (res, w')" for x by (rule status_effect [OF that h])
  show ?thesis
  proof (cases k)
    case FINISH_FROM_DURABLE_EVIDENCE
    then show ?thesis using run T h by (auto simp: boot_act_def Let_def act_states_def intro: return_effect split: if_splits)
  next
    case MONITOR_ORPHAN
    have "task_effect ({AMBIGUOUS} \<union> {}) ?L ?i d w w'"
    proof (rule bind_effect)
      show "rec_bind (rec_bind (rec_update RE ?i (class_update AMBIGUOUS_EFFECT)) (\<lambda>_. rec_transition RE ?i AMBIGUOUS why))
          (\<lambda>_. keepLeaseWhileOrphanRuns (matchingLease r (bv_status RE))) w = (res, w')"
        using run by (simp add: boot_act_def MONITOR_ORPHAN Let_def)
    next
      fix d1 w1 r2 w2 assume "holds (rw_tasks w1) d1" "keepLeaseWhileOrphanRuns (matchingLease r (bv_status RE)) w1 = (r2, w2)"
      then show "task_effect {} ?L ?i d1 w1 w2"
        unfolding keepLeaseWhileOrphanRuns_def
        by - (rule task_effect_mono [OF lease_effect], assumption+, auto simp: boot_lease_calls_def)
    qed (auto intro: ambiguous_effect [OF _ h])
    then show ?thesis by (simp add: act_states_def MONITOR_ORPHAN)
  next
    case RETRY_SAFE
    show ?thesis
    proof (cases "tr_state r = RUNNING")
      case True
      have "task_effect ({FAILED} \<union> {}) ?L ?i d w w'"
      proof (rule bind_effect)
        show "rec_bind (rec_transition RE ?i FAILED ''Boot found no execution evidence for an interrupted pure read; it may be retried under a new request.'')
            (\<lambda>_. rec_bind (rec_update RE ?i (class_update TRANSIENT_TRANSPORT)) (\<lambda>_. rec_return ())) w = (res, w')"
          using run True by (simp add: boot_act_def RETRY_SAFE Let_def)
      next
        fix d1 w1 r2 w2 assume "holds (rw_tasks w1) d1" "rec_bind (rec_update RE ?i (class_update TRANSIENT_TRANSPORT)) (\<lambda>_. rec_return ()) w1 = (r2, w2)"
        then show "task_effect {} ?L ?i d1 w1 w2"
          by - (rule skip_effect, assumption, rule update_effect, assumption+, simp add: class_update_def)
      qed (auto intro: transition_effect [OF _ h])
      then show ?thesis by (simp add: act_states_def RETRY_SAFE True)
    qed (use run U in \<open>simp add: boot_act_def RETRY_SAFE Let_def act_states_def\<close>)
  qed (use run T A U C in \<open>auto simp: boot_act_def Let_def act_states_def split: if_splits\<close>)
qed

lemma act_states_permitted:
  assumes "k = decideBootRecovery (boot_evidence RE r w)"
  shows "tr_state r = RUNNING \<Longrightarrow> act_states r k \<subseteq> boot_moves RE r w" and "tr_state r \<noteq> RUNNING \<Longrightarrow> act_states r k \<subseteq> {COMPLETED}"
proof -
  let ?e = "boot_evidence RE r w"
  show "act_states r k \<subseteq> {COMPLETED}" if "tr_state r \<noteq> RUNNING"
    using that assms by (auto simp: act_states_def decideBootRecovery_def Let_def boot_evidence_def split: if_splits reconciliation_decision.splits)
  assume r: "tr_state r = RUNNING"
  have "has_result RE r w" if "k = FINISH_FROM_DURABLE_EVIDENCE"
  proof -
    have "hasVerifiedResult RE r w"
      using that assms by (auto simp: decideBootRecovery_def Let_def boot_evidence_def split: if_splits)
    then show ?thesis by (auto simp: hasVerifiedResult_def has_result_def given_def split: option.splits sum.splits if_splits)
  qed
  moreover have "tr_safetyClass r = Some ''PURE_READ_IDEMPOTENT'' \<and> bv_activities RE \<noteq> None \<and> boot_activity RE r = None \<and> matchingLease r (bv_status RE) = None"
    if "k = RETRY_SAFE"
  proof -
    have "\<not> br_contradictoryEvidence ?e" "br_safetyClass ?e = ''PURE_READ_IDEMPOTENT''" "\<not> br_hasMatchingLease ?e"
      using that assms r by (auto simp: decideBootRecovery_def Let_def boot_evidence_def split: if_splits)
    then show ?thesis using r by (auto simp: boot_evidence_def Let_def split: option.splits)
  qed
  ultimately show "act_states r k \<subseteq> boot_moves RE r w"
    using r by (cases k) (auto simp: act_states_def boot_moves_def)
qed

text \<open>What boot reconciliation may make of one record.\<close>

definition boot_allows :: "recovery_env \<Rightarrow> (string \<Rightarrow> bool) \<Rightarrow> recovery_world \<Rightarrow> task_record \<Rightarrow> task_record \<Rightarrow> bool" where
  "boot_allows RE q w r r' = (identity_of r' = identity_of r \<and> tr_archivedAtUtc r' = tr_archivedAtUtc r \<and>
     (tr_state r' = tr_state r \<or> tr_state r' \<in> boot_moves RE r w) \<and> (q (tr_taskId r) \<longrightarrow> r' = r))"

lemma boot_one_step:
  assumes run: "boot_one RE q r w = (res, w')" and h: "holds (rw_tasks w) d" and r: "lookup_task d (tr_taskId r) = Some r"
    and w0: "rw_results w = rw_results w0"
  shows "\<exists>d' r'. holds (rw_tasks w') d' \<and> (\<forall>j. j \<noteq> tr_taskId r \<longrightarrow> lookup_task d' j = lookup_task d j) \<and> lookup_task d' (tr_taskId r) = Some r' \<and>
     boot_allows RE q w0 r r' \<and> rw_results w' = rw_results w0 \<and>
     set (rw_leases w') \<subseteq> set (rw_leases w) \<union> (if q (tr_taskId r) then {} else boot_lease_calls RE r)"
proof (cases "q (tr_taskId r)")
  case True
  then have "w' = w" using run by (auto simp: boot_one_def rec_return_def)
  then show ?thesis using h r w0 True by (auto simp: boot_allows_def)
next
  case False
  have fin: ?thesis if e: "task_effect S (boot_lease_calls RE r) (tr_taskId r) d w w'"
    and S: "tr_state r = RUNNING \<Longrightarrow> S \<subseteq> boot_moves RE r w0" "tr_state r \<noteq> RUNNING \<Longrightarrow> S \<subseteq> {COMPLETED}" for S
  proof -
    obtain d' where d': "holds (rw_tasks w') d'" "moves S (tr_taskId r) d d'" and l: "log_grows (boot_lease_calls RE r) w w'"
      using e by (auto simp: task_effect_def effect_def)
    obtain r' where r': "lookup_task d' (tr_taskId r) = Some r'" "identity_of r' = identity_of r" "tr_archivedAtUtc r' = tr_archivedAtUtc r"
        "tr_state r' = tr_state r \<or> legalTransition (tr_state r) (tr_state r') \<and> tr_state r' \<in> S"
      using d'(2) r by (auto simp: moves_def)
    have "tr_state r' = tr_state r \<or> tr_state r' \<in> boot_moves RE r w0"
    proof (cases "tr_state r = RUNNING")
      case True
      then show ?thesis using r'(4) S(1) by blast
    next
      case False
      then have "\<not> legalTransition (tr_state r) COMPLETED" by (cases "tr_state r") (simp_all add: legalTransition_def)
      then show ?thesis using r'(4) S(2) [OF False] by auto
    qed
    then show ?thesis using d' l r' False w0 by (auto simp: moves_def boot_allows_def log_grows_def)
  qed
  show ?thesis
  proof (cases "tr_state r = AMBIGUOUS")
    case True
    have "task_effect ({} \<union> {}) (boot_lease_calls RE r) (tr_taskId r) d w w'"
    proof (rule bind_effect)
      show "rec_bind (superviseAmbiguous RE r (boot_activity RE r) (verdictFor RE (boot_activity RE r)) (matchingLease r (bv_status RE)))
          (\<lambda>d. rec_return (tr_taskId r, d)) w = (res, w')"
        using run False True by (simp add: boot_one_def)
    qed (use h True in \<open>auto intro: supervise_effect return_effect\<close>)
    then show ?thesis unfolding Un_empty by (rule fin) blast+
  next
    case not_amb: False
    let ?k = "decideBootRecovery (boot_evidence RE r w)"
    have "task_effect (act_states r ?k \<union> {}) (boot_lease_calls RE r) (tr_taskId r) d w w'"
    proof (rule bind_effect)
      show "rec_bind (boot_act RE r (?k, bootRecoveryReason (boot_evidence RE r w))) (\<lambda>_. rec_return (tr_taskId r, ?k, bootRecoveryReason (boot_evidence RE r w))) w = (res, w')"
        using run False not_amb by (simp add: boot_one_def Let_def)
    qed (use h in \<open>auto intro: boot_act_effect return_effect\<close>)
    moreover have "boot_moves RE r w = boot_moves RE r w0" by (simp add: boot_moves_def has_result_def w0)
    ultimately show ?thesis using act_states_permitted [of ?k RE r w] by (intro fin) simp_all
  qed
qed

lemma boot_each:
  assumes "\<And>r. r \<in> set rs \<Longrightarrow> lookup_task d (tr_taskId r) = Some r" and "distinct (map tr_taskId rs)"
    and "rec_each (boot_one RE q) rs w = (res, w')" and "holds (rw_tasks w) d" and "rw_results w = rw_results w0"
  shows "\<exists>d'. holds (rw_tasks w') d' \<and> (\<forall>j. j \<notin> tr_taskId ` set rs \<longrightarrow> lookup_task d' j = lookup_task d j) \<and>
     (\<forall>r \<in> set rs. \<exists>r'. lookup_task d' (tr_taskId r) = Some r' \<and> boot_allows RE q w0 r r') \<and>
     set (rw_leases w') \<subseteq> set (rw_leases w) \<union> (\<Union>r \<in> {r \<in> set rs. \<not> q (tr_taskId r)}. boot_lease_calls RE r)"
  using assms
proof (induction rs arbitrary: d w res)
  case Nil
  then show ?case by (auto simp: rec_return_def)
next
  case (Cons r rs)
  obtain a w1 where a: "boot_one RE q r w = (a, w1)" by fastforce
  have r: "lookup_task d (tr_taskId r) = Some r" using Cons.prems(1) by simp
  obtain d1 r1 where d1: "holds (rw_tasks w1) d1" "\<forall>j. j \<noteq> tr_taskId r \<longrightarrow> lookup_task d1 j = lookup_task d j" "lookup_task d1 (tr_taskId r) = Some r1"
      "boot_allows RE q w0 r r1" "rw_results w1 = rw_results w0" "set (rw_leases w1) \<subseteq> set (rw_leases w) \<union> (if q (tr_taskId r) then {} else boot_lease_calls RE r)"
    using boot_one_step [OF a Cons.prems(4) r Cons.prems(5)] by blast
  have ne: "tr_taskId x \<noteq> tr_taskId r" if "x \<in> set rs" for x
  proof -
    have "tr_taskId x \<in> tr_taskId ` set rs" using that by (rule imageI)
    moreover have "tr_taskId r \<notin> tr_taskId ` set rs" using Cons.prems(2) by simp
    ultimately show ?thesis by metis
  qed
  have look: "lookup_task d1 (tr_taskId x) = Some x" if "x \<in> set rs" for x using d1(2) ne [OF that] Cons.prems(1) [of x] that by simp
  have self: "boot_allows RE q w0 x x" for x by (simp add: boot_allows_def)
  have l1: "set (rw_leases w1) \<subseteq> set (rw_leases w) \<union> (\<Union>x \<in> {x \<in> set (r # rs). \<not> q (tr_taskId x)}. boot_lease_calls RE x)"
    using d1(6) by (cases "q (tr_taskId r)") auto
  show ?case
  proof (cases a)
    case (Inl e)
    then have "w' = w1" using Cons.prems(3) a by (simp add: rec_bind_def)
    then show ?thesis using d1(1-4) l1 look self by (intro exI [of _ d1]) auto
  next
    case (Inr y)
    obtain b where b: "rec_each (boot_one RE q) rs w1 = (b, w')"
      using Cons.prems(3) a Inr by (auto simp: rec_bind_def rec_return_def split: prod.splits sum.splits)
    have "distinct (map tr_taskId rs)" using Cons.prems(2) by simp
    from Cons.IH [OF look this b d1(1,5)] obtain d' where d': "holds (rw_tasks w') d'" "\<forall>j. j \<notin> tr_taskId ` set rs \<longrightarrow> lookup_task d' j = lookup_task d1 j"
        "\<forall>r \<in> set rs. \<exists>r'. lookup_task d' (tr_taskId r) = Some r' \<and> boot_allows RE q w0 r r'"
        "set (rw_leases w') \<subseteq> set (rw_leases w1) \<union> (\<Union>r \<in> {r \<in> set rs. \<not> q (tr_taskId r)}. boot_lease_calls RE r)"
      by blast
    have "tr_taskId r \<notin> tr_taskId ` set rs" using Cons.prems(2) by simp
    then have "lookup_task d' (tr_taskId r) = Some r1" using d'(2) d1(3) by simp
    moreover have "set (rw_leases w') \<subseteq> set (rw_leases w) \<union> (\<Union>x \<in> {x \<in> set (r # rs). \<not> q (tr_taskId x)}. boot_lease_calls RE x)"
      using d'(4) l1 by auto
    ultimately show ?thesis using d'(1-3) d1(2,4) by (intro exI [of _ d']) auto
  qed
qed

text \<open>
  C29: A restart neither replays nor forgets: boot reconciliation, also when it stops at an error, leaves a
  readable store with the same tasks, in which a record changes its state only if it was RUNNING, and
  then only to AMBIGUOUS or INPUT_REQUIRED, to COMPLETED when its bound result is still readable and
  verified, or to FAILED when it is a pure read and the readable activity evidence and the coordinator
  name neither a process nor a lease of it. A quarantined record is not touched. A lease is released
  only for an AMBIGUOUS task whose recorded process is known to have ended.
\<close>

theorem boot_neither_replays_nor_forgets:
  assumes "holds (rw_tasks w) d" and "reconcileBootTasks RE w = (res, w')" and "tv_quarantined (bv_env RE) = Some q"
  shows "\<exists>d'. holds (rw_tasks w') d' \<and>
     (\<forall>i. lookup_task d i = None \<longrightarrow> lookup_task d' i = None) \<and>
     (\<forall>i r. lookup_task d i = Some r \<longrightarrow> (\<exists>r'. lookup_task d' i = Some r' \<and> boot_allows RE q w r r' \<and> (isTerminal (tr_state r) \<longrightarrow> r' = r))) \<and>
     (\<forall>c \<in> set (rw_leases w'). c \<in> set (rw_leases w) \<or> (\<exists>r. lookup_task d (tr_taskId r) = Some r \<and> \<not> q (tr_taskId r) \<and> c \<in> boot_lease_calls RE r))"
proof -
  let ?rs = "filter (\<lambda>r. \<not> isTerminal (tr_state r)) (map snd (td_records d))"
  have load: "rec_load RE w = (Inr ?rs, w)" using readDocument_holds [OF assms(1)] by (simp add: rec_load_def loadActiveTasks_def)
  have ok: "entries_ok d" using assms(1) by (simp add: holds_def doc_ok_def)
  have key: "map tr_taskId (map snd (td_records d)) = map fst (td_records d)"
    using ok by (auto simp: entries_ok_def active_ok_def)
  have dis: "distinct (map tr_taskId ?rs)"
    using ok key by (metis (no_types, lifting) distinct_map_filter entries_okD(1))
  have look: "lookup_task d (tr_taskId r) = Some r" if "r \<in> set ?rs" for r
  proof -
    have "r \<in> snd ` set (td_records d)" using that by simp
    then obtain i where "(i, r) \<in> set (td_records d)" by force
    moreover have "tr_taskId r = i" using ok calculation by (auto simp: entries_ok_def active_ok_def)
    ultimately show ?thesis using entries_okD(1) [OF ok] by (simp add: lookup_task_def)
  qed
  have self: "boot_allows RE q w x x" for x by (simp add: boot_allows_def)
  obtain res' where run: "rec_each (boot_one RE q) ?rs w = (res', w')"
    using assms(2,3) load by (cases "?rs = []") (auto simp: reconcileBootTasks_def rec_bind_def rec_return_def)
  obtain d' where d': "holds (rw_tasks w') d'" "\<forall>j. j \<notin> tr_taskId ` set ?rs \<longrightarrow> lookup_task d' j = lookup_task d j"
      "\<forall>r \<in> set ?rs. \<exists>r'. lookup_task d' (tr_taskId r) = Some r' \<and> boot_allows RE q w r r'"
      "set (rw_leases w') \<subseteq> set (rw_leases w) \<union> (\<Union>r \<in> {r \<in> set ?rs. \<not> q (tr_taskId r)}. boot_lease_calls RE r)"
    using boot_each [OF look dis run assms(1) refl] by blast
  have "\<exists>r'. lookup_task d' i = Some r' \<and> boot_allows RE q w r r' \<and> (isTerminal (tr_state r) \<longrightarrow> r' = r)" if "lookup_task d i = Some r" for i r
  proof (cases "i \<in> tr_taskId ` set ?rs")
    case True
    then obtain x where "x \<in> set ?rs" "i = tr_taskId x" by blast
    with look that d'(3) show ?thesis by fastforce
  next
    case False
    with d'(2) that self show ?thesis by auto
  qed
  moreover have "lookup_task d' i = None" if none: "lookup_task d i = None" for i
  proof -
    have "i \<notin> tr_taskId ` set ?rs"
    proof
      assume "i \<in> tr_taskId ` set ?rs"
      then obtain x where "x \<in> set ?rs" "i = tr_taskId x" ..
      with look none show False by simp
    qed
    with d'(2) none show ?thesis by simp
  qed
  moreover have "c \<in> set (rw_leases w) \<or> (\<exists>r. lookup_task d (tr_taskId r) = Some r \<and> \<not> q (tr_taskId r) \<and> c \<in> boot_lease_calls RE r)"
    if "c \<in> set (rw_leases w')" for c
  proof -
    have "c \<in> set (rw_leases w) \<or> (\<exists>r \<in> set ?rs. \<not> q (tr_taskId r) \<and> c \<in> boot_lease_calls RE r)" using d'(4) that by blast
    with look show ?thesis by blast
  qed
  ultimately show ?thesis using d'(1) by blast
qed

section \<open>Two errors of supervision and control\<close>

text \<open>
  One quarantined task stops the supervision of the tasks after it: when an AMBIGUOUS task that the
  owner quarantined has activity evidence, writing its status is refused and the periodic supervision
  ends there with that error. The lease of an orphan behind it in the store is not kept alive.
\<close>

theorem quarantined_task_stops_supervision:
  assumes "rec_load RE w = (Inr (xs @ r # ys), w)" and "\<forall>x \<in> set xs. tr_state x \<noteq> AMBIGUOUS" and "tr_state r = AMBIGUOUS"
    and "boot_activity RE r \<noteq> None" and "tv_quarantined (bv_env RE) = Some q" and "q (tr_taskId r)" and "TASK_ID_PATTERN (tr_taskId r)"
    and "length (tr_status r) < 50"
  shows "\<exists>w'. superviseAmbiguousTasks RE w = (Inl (RecTask TaskQuarantined), w') \<and> rw_tasks w' = rw_tasks w \<and>
     (\<forall>c \<in> set (rw_leases w'). c \<in> set (rw_leases w) \<or> c \<in> boot_lease_calls RE r)"
proof -
  obtain rows a where rows: "bv_activities RE = Some rows" and a: "matchingActivity r rows = Some a" and ba: "boot_activity RE r = Some a"
    using assms(4) by (auto simp: boot_activity_def split: option.splits)
  have refuse: "\<exists>w1. setStatusIfChanged RE r s v = (Inl (RecTask TaskQuarantined), w1) \<and> rw_tasks w1 = rw_tasks v \<and> rw_leases w1 = rw_leases v" if "50 \<le> length s" for s v
  proof -
    have "tr_status r \<noteq> s" using assms(8) that by auto
    then show ?thesis using assms(5-7)
      by (simp add: setStatusIfChanged_def rec_bind_def rec_update_def on_tasks_def update_task_def assertNotQuarantined_def)
  qed
  have seq: "\<exists>w'. rec_bind (lease_call f (matchingLease r (bv_status RE))) (\<lambda>_. rec_bind (setStatusIfChanged RE r s) (\<lambda>_. rec_return x)) w = (Inl (RecTask TaskQuarantined), w')
      \<and> rw_tasks w' = rw_tasks w \<and> (\<forall>c \<in> set (rw_leases w'). c \<in> set (rw_leases w) \<or> c \<in> boot_lease_calls RE r)"
    if "50 \<le> length s" and f: "\<And>l. matchingLease r (bv_status RE) = Some l \<Longrightarrow> f (wl_id l) \<in> boot_lease_calls RE r" for f s and x :: boot_decision
  proof -
    obtain v where v: "lease_call f (matchingLease r (bv_status RE)) w = (Inr (), v)" "rw_tasks v = rw_tasks w"
        "\<forall>c \<in> set (rw_leases v). c \<in> set (rw_leases w) \<or> c \<in> boot_lease_calls RE r"
    proof (cases "matchingLease r (bv_status RE)")
      case None
      then show ?thesis using that by (simp add: lease_call_def)
    next
      case (Some l)
      then show ?thesis using f [OF Some] that by (cases "wl_id l = []") (simp_all add: lease_call_def given_def)
    qed
    from refuse [OF that(1), of v] v show ?thesis by (auto simp: rec_bind_def)
  qed
  have beat: "\<And>l. matchingLease r (bv_status RE) = Some l \<Longrightarrow> HeartbeatCall (wl_id l) \<in> boot_lease_calls RE r" by (simp add: boot_lease_calls_def)
  have gone: "\<not> unfinished a \<Longrightarrow> verdictFor RE (Some a) = Some GONE" by (auto simp: verdictFor_def unfinished_def)
  have free: "\<not> unfinished a \<or> verdictFor RE (Some a) = Some GONE \<or> verdictFor RE (Some a) = Some REUSED \<Longrightarrow>
      matchingLease r (bv_status RE) = Some l \<Longrightarrow> ReleaseCall (wl_id l) \<in> boot_lease_calls RE r" for l
    using gone ba assms(3) by (auto simp: boot_lease_calls_def)
  have "\<exists>w'. superviseAmbiguous RE r (Some a) (verdictFor RE (Some a)) (matchingLease r (bv_status RE)) w = (Inl (RecTask TaskQuarantined), w')
      \<and> rw_tasks w' = rw_tasks w \<and> (\<forall>c \<in> set (rw_leases w'). c \<in> set (rw_leases w) \<or> c \<in> boot_lease_calls RE r)"
    unfolding superviseAmbiguous_def option.case Let_def keepLeaseWhileOrphanRuns_def releaseEndedOrphanLease_def
    by (auto intro!: seq beat free)
  then obtain w' where w': "superviseAmbiguous RE r (Some a) (verdictFor RE (Some a)) (matchingLease r (bv_status RE)) w = (Inl (RecTask TaskQuarantined), w')"
      "rw_tasks w' = rw_tasks w" "\<forall>c \<in> set (rw_leases w'). c \<in> set (rw_leases w) \<or> c \<in> boot_lease_calls RE r" by blast
  have "filter (\<lambda>x. tr_state x = AMBIGUOUS) (xs @ r # ys) = r # filter (\<lambda>x. tr_state x = AMBIGUOUS) ys"
    using assms(2,3) by (simp add: filter_empty_conv)
  then have "superviseAmbiguousTasks RE w = (Inl (RecTask TaskQuarantined), w')"
    using assms(1) w'(1) rows a by (simp add: superviseAmbiguousTasks_def rec_bind_def supervise_one_def Let_def)
  with w'(2,3) show ?thesis by blast
qed

lemma long_pause_phase_refused: "152 < length phase \<Longrightarrow> \<nexists>r. fst (requestPause RE t phase w) = Inr r"
proof -
  assume "152 < length phase"
  then have "\<exists>e. fst (rec_update RE t (status_update (''Pause requested after phase '' @ phase @ ''; worker acknowledgement remains observable in the task log.'')) v) = Inl e" for v
    by (auto simp: rec_update_def on_tasks_def update_task_def status_update_def opt_bad_def split: prod.split sum.splits)
  then show ?thesis unfolding requestPause_def
    by (auto simp: rec_bind_def rec_fail_def split: prod.splits sum.splits) (metis fst_conv sum.distinct(1))+
qed

section \<open>Owner controls\<close>

datatype control = ResetControl bool string string | CancelControl | ReconcileControl string | PauseControl string | ResumeControl

fun run_control :: "recovery_env \<Rightarrow> string \<Rightarrow> control \<Rightarrow> task_record recovery" where
  "run_control RE t (ResetControl retry hex freshId) = resetTask RE t retry hex freshId"
| "run_control RE t CancelControl = cancelTask RE t"
| "run_control RE t (ReconcileControl ref) = reconcileTask RE t ref"
| "run_control RE t (PauseControl phase) = requestPause RE t phase"
| "run_control RE t ResumeControl = resumeTask RE t"

lemma controlled_taskD:
  assumes "controlled_task RE t w = (a, v)"
  shows "v = w \<and> (\<forall>r. a = Inr r \<longrightarrow> read_task (bv_env RE) t (bv_clock RE (rw_calls w)) (rw_tasks w) = Inr (Some r) \<and>
     pi_valid (inspectAccessPolicyFile (bv_node RE (tr_nodeId r)) (rw_access w) (bv_clock RE (rw_calls w))))"
  using assms unfolding controlled_task_def rec_bind_def rec_read_def ownerControlAuthority_def Let_def rec_fail_def rec_return_def
  by (auto split: sum.splits prod.splits option.splits if_splits)

lemma guard_controlD: "guard_control RE t w = (a, v) \<Longrightarrow> v = w \<and> (a = Inr () \<longrightarrow> assertNotQuarantined (bv_env RE) t = Inr ())"
  by (auto simp: guard_control_def split: sum.splits)

lemma rec_bindD: "rec_bind m f w = (res, w') \<Longrightarrow> (\<exists>e. m w = (Inl e, w') \<and> res = Inl e) \<or> (\<exists>x v. m w = (Inr x, v) \<and> f x v = (res, w'))"
  by (auto simp: rec_bind_def split: prod.splits sum.splits)

text \<open>
  An owner control that changes anything was entitled to: the task was not quarantined (and the
  quarantine log could be read), it existed, and the owner's access policy was valid at that moment;
  a reset or retry was made of a finished task only, a cancellation of an unfinished one, and a
  reconciliation of an AMBIGUOUS one with a bounded evidence reference.
\<close>

theorem control_needs_valid_policy:
  assumes "run_control RE t c w = (res, w')" and "w' \<noteq> w"
  shows "assertNotQuarantined (bv_env RE) t = Inr () \<and> (\<exists>r. read_task (bv_env RE) t (bv_clock RE (rw_calls w)) (rw_tasks w) = Inr (Some r) \<and>
     pi_valid (inspectAccessPolicyFile (bv_node RE (tr_nodeId r)) (rw_access w) (bv_clock RE (rw_calls w))) \<and>
     (case c of ResetControl retry hex freshId \<Rightarrow> isTerminal (tr_state r)
      | CancelControl \<Rightarrow> \<not> isTerminal (tr_state r)
      | ReconcileControl ref \<Rightarrow> tr_state r = AMBIGUOUS \<and> CONTROL_REF ref
      | PauseControl phase \<Rightarrow> CONTROL_REF phase
      | ResumeControl \<Rightarrow> True))"
proof -
  have G: "assertNotQuarantined (bv_env RE) t = Inr () \<and> k w = (res, w')" if "rec_bind (guard_control RE t) (\<lambda>_. k) w = (res, w')" for k :: "task_record recovery"
    using rec_bindD [OF that] guard_controlD [of RE t w] assms(2) by auto
  have C: "\<exists>r. read_task (bv_env RE) t (bv_clock RE (rw_calls w)) (rw_tasks w) = Inr (Some r) \<and>
      pi_valid (inspectAccessPolicyFile (bv_node RE (tr_nodeId r)) (rw_access w) (bv_clock RE (rw_calls w))) \<and> k r w = (res, w')"
    if "rec_bind (controlled_task RE t) k w = (res, w')" for k :: "task_record \<Rightarrow> task_record recovery"
    using rec_bindD [OF that] controlled_taskD [of RE t w] assms(2) by fastforce
  have F: "rec_fail e w \<noteq> (res, w')" "rec_return x w \<noteq> (res, w')" for e and x :: task_record
    using assms(2) by (auto simp: rec_fail_def rec_return_def)
  show ?thesis
  proof (cases c)
    case (ResetControl retry hex freshId)
    then show ?thesis using assms(1) F by (auto simp: resetTask_def dest!: G C split: if_splits)
  next
    case CancelControl
    then show ?thesis using assms(1) F by (auto simp: cancelTask_def dest!: G C split: if_splits)
  next
    case (ReconcileControl ref)
    then show ?thesis using assms(1) F by (auto simp: reconcileTask_def dest!: G C split: if_splits)
  next
    case (PauseControl phase)
    then show ?thesis using assms(1) F by (auto simp: requestPause_def dest!: G C split: if_splits)
  next
    case ResumeControl
    then show ?thesis using assms(1) F by (auto simp: resumeTask_def dest!: G C)
  qed
qed

section \<open>Concrete worlds\<close>

definition ex_task_in :: "task_state \<Rightarrow> task_record" where
  "ex_task_in s = ex_record\<lparr>tr_state := s, tr_safetyClass := Some ''PROCESS_UNKNOWN_EFFECT''\<rparr>"

definition ex_recovery :: "(string \<Rightarrow> bool) \<Rightarrow> recovery_env" where
  "ex_recovery q = \<lparr>bv_env = ex_task_env\<lparr>tv_quarantined := Some q\<rparr>, bv_results = ex_result_env, bv_node = (\<lambda>_. ex_env), bv_ids = (\<lambda>_. ''e''), bv_clock = (\<lambda>_. 5),
     bv_activities = Some [(fresh_row ex_process ARunning 7 None None ''a'' 5)\<lparr>px_taskId := Some ex_task_id\<rparr>], bv_status = None, bv_connected = True, bv_verify = (\<lambda>_. GONE)\<rparr>"

definition ex_recovery_world :: "task_world \<Rightarrow> recovery_world" where
  "ex_recovery_world tw = \<lparr>rw_tasks = tw, rw_results = empty_results, rw_access = np_access ex_node, rw_leases = [], rw_calls = 0\<rparr>"

lemma ex_task_in_fields:
  "tr_taskId (ex_task_in s) = ex_task_id" "tr_rootTaskId (ex_task_in s) = ex_task_id" "tr_nodeId (ex_task_in s) = ''node''" "tr_actorId (ex_task_in s) = ''actor''"
  "tr_idempotencyKey (ex_task_in s) = ''key''" "tr_archivedAtUtc (ex_task_in s) = None" "tr_state (ex_task_in s) = s" "tr_attemptNumber (ex_task_in s) = 1"
  "tr_status (ex_task_in s) = ''Task accepted and durably persisted on node storage.''"
  by (simp_all add: ex_task_in_def ex_record_def new_record_def ex_create_def)

lemma ex_task_in_world:
  obtains tw d where "holds tw d" "td_records d = [(ex_task_id, ex_task_in s)]" "td_archived d = []" "lookup_task d ex_task_id = Some (ex_task_in s)"
proof -
  obtain ix where ix: "buildIndex [(ex_task_id, ex_task_in s)] [] = Some ix"
    by (cases s; simp add: buildIndex_def addIndex_def index_push_def emptyIndex_def PROTOTYPE_KEYS_def ex_task_id_def ex_task_in_fields [unfolded ex_task_id_def])
  note D = record_okD [OF ex_record_ok]
  have ok: "record_ok (ex_task_in s)" by (rule record_ok_cong [OF ex_record_ok]) (use D in \<open>simp_all add: ex_task_in_def\<close>)
  define d where "d = \<lparr>td_records = [(ex_task_id, ex_task_in s)], td_archived = [], td_index = ix, td_updatedAtUtc = Iso 5\<rparr>"
  have "holds \<lparr>tw_store = Contents (encodeDocument d), tw_events = []\<rparr> d"
    using ok ix by (simp add: holds_def doc_ok_def entries_ok_def d_def active_ok_def ex_task_in_fields)
  then show thesis using that by (simp add: d_def lookup_task_def)
qed


theorem boot_neither_replays_nor_forgets_witness:
  "\<exists>tw d' r'. holds (rw_tasks (snd (reconcileBootTasks (ex_recovery (\<lambda>_. False)) (ex_recovery_world tw)))) d' \<and> lookup_task d' ex_task_id = Some r' \<and>
     tr_state r' \<notin> {FAILED, CANCELLED, RECONCILED}"
proof -
  obtain tw d where d: "holds tw d" "lookup_task d ex_task_id = Some (ex_task_in RUNNING)" by (rule ex_task_in_world)
  have h: "holds (rw_tasks (ex_recovery_world tw)) d" using d(1) by (simp add: ex_recovery_world_def)
  have q: "tv_quarantined (bv_env (ex_recovery (\<lambda>_. False))) = Some (\<lambda>_. False)" by (simp add: ex_recovery_def ex_task_env_def)
  from boot_neither_replays_nor_forgets [OF h prod.collapse [symmetric] q] obtain d' r' where
    r': "holds (rw_tasks (snd (reconcileBootTasks (ex_recovery (\<lambda>_. False)) (ex_recovery_world tw)))) d'" "lookup_task d' ex_task_id = Some r'"
      "boot_allows (ex_recovery (\<lambda>_. False)) (\<lambda>_. False) (ex_recovery_world tw) (ex_task_in RUNNING) r'"
    using d(2) by blast
  have "tr_safetyClass (ex_task_in RUNNING) = Some ''PROCESS_UNKNOWN_EFFECT''" by (simp add: ex_task_in_def)
  then have "tr_state r' \<notin> {FAILED, CANCELLED, RECONCILED}" using r'(3) by (auto simp: boot_allows_def boot_moves_def ex_task_in_fields)
  with r' show ?thesis by blast
qed

theorem quarantined_task_stops_supervision_witness:
  "\<exists>tw w'. superviseAmbiguousTasks (ex_recovery (\<lambda>i. i = ex_task_id)) (ex_recovery_world tw) = (Inl (RecTask TaskQuarantined), w')"
proof -
  let ?RE = "ex_recovery (\<lambda>i. i = ex_task_id)" and ?r = "(ex_task_in AMBIGUOUS)\<lparr>tr_status := ''unknown''\<rparr>"
  obtain ix where ix: "buildIndex [(ex_task_id, ?r)] [] = Some ix"
    by (simp add: buildIndex_def addIndex_def index_push_def emptyIndex_def PROTOTYPE_KEYS_def ex_task_id_def ex_task_in_fields [unfolded ex_task_id_def])
  note D = record_okD [OF ex_record_ok]
  have ok: "record_ok ?r" by (rule record_ok_cong [OF ex_record_ok]) (use D in \<open>simp_all add: ex_task_in_def\<close>)
  define d where "d = \<lparr>td_records = [(ex_task_id, ?r)], td_archived = [], td_index = ix, td_updatedAtUtc = Iso 5\<rparr>"
  define tw where "tw = \<lparr>tw_store = Contents (encodeDocument d), tw_events = []\<rparr>"
  have h: "holds tw d" using ok ix by (simp add: holds_def doc_ok_def entries_ok_def d_def active_ok_def ex_task_in_fields tw_def)
  have l: "rec_load ?RE (ex_recovery_world tw) = (Inr ([] @ ?r # []), ex_recovery_world tw)"
    using readDocument_holds [OF h] by (simp add: rec_load_def loadActiveTasks_def ex_recovery_world_def d_def isTerminal_def TERMINAL_TASK_STATES_def ex_task_in_fields)
  have a: "boot_activity ?RE ?r \<noteq> None"
    by (simp add: boot_activity_def ex_recovery_def matchingActivity_def names_attempt_def fresh_row_def ex_process_def ex_task_in_fields)
  have q: "tv_quarantined (bv_env ?RE) = Some (\<lambda>i. i = ex_task_id)" by (simp add: ex_recovery_def)
  from quarantined_task_stops_supervision [OF l _ _ a q] show ?thesis by (auto simp: ex_task_in_fields ex_task_guards)
qed

theorem control_needs_valid_policy_witness:
  "\<exists>tw r. read_task ex_task_env ex_task_id 5 tw = Inr (Some r) \<and> \<not> isTerminal (tr_state r) \<and> pi_valid (inspectAccessPolicyFile ex_env (np_access ex_node) 5)"
proof -
  let ?RE = "ex_recovery (\<lambda>_. False)"
  obtain tw d where d: "holds tw d" "lookup_task d ex_task_id = Some (ex_task_in RUNNING)" by (rule ex_task_in_world)
  have p: "pi_valid (inspectAccessPolicyFile ex_env (np_access ex_node) 5)" by code_simp
  have r: "read_task (bv_env ?RE) ex_task_id 5 tw = Inr (Some (ex_task_in RUNNING))"
    using readDocument_holds [OF d(1)] d(2) by (simp add: read_task_def ex_task_guards)
  have "controlled_task ?RE ex_task_id (ex_recovery_world tw) = (Inr (ex_task_in RUNNING), ex_recovery_world tw)"
    using r p by (simp add: controlled_task_def rec_bind_def rec_read_def ownerControlAuthority_def Let_def rec_return_def ex_recovery_world_def ex_recovery_def)
  moreover have "guard_control ?RE ex_task_id v = (Inr (), v)" for v by (simp add: guard_control_def assertNotQuarantined_def ex_recovery_def)
  ultimately have "rw_calls (snd (run_control ?RE ex_task_id CancelControl (ex_recovery_world tw))) = 1"
    by (simp add: cancelTask_def rec_bind_def isTerminal_def TERMINAL_TASK_STATES_def ex_task_in_fields rec_transition_def on_tasks_def ex_recovery_world_def split: prod.split)
  then have "snd (run_control ?RE ex_task_id CancelControl (ex_recovery_world tw)) \<noteq> ex_recovery_world tw" by (auto simp: ex_recovery_world_def)
  from control_needs_valid_policy [OF prod.collapse [symmetric] this] have
    "\<exists>r. read_task (bv_env ?RE) ex_task_id 5 tw = Inr (Some r) \<and> \<not> isTerminal (tr_state r) \<and> pi_valid (inspectAccessPolicyFile ex_env (np_access ex_node) 5)"
    by (auto simp: ex_recovery_world_def ex_recovery_def)
  moreover have "read_task (bv_env ?RE) ex_task_id 5 tw = read_task ex_task_env ex_task_id 5 tw"
    by (simp add: read_task_def readDocument_def ex_recovery_def ex_task_env_def)
  ultimately show ?thesis by metis
qed

end
