(* ===== verification/Reach_Router.thy ===== *)
theory Reach_Router
  imports Reach_Ledger "HOL-Library.Multiset"
begin

text \<open>
  The DEX command router: the canonical command manifest a DEX release publishes
  (\<open>src/src/shared/dex-canonical-contract.ts\<close>), the table that maps its commands to operations of this
  program, the routing of one command to one node, the validation of handoffs between products, and the
  search projection (\<open>src/src/shared/dex-command-router.ts\<close>). All of it is pure; the interface that
  resolves references in another product is a parameter, a function from a query to a verdict, or no
  verdict where the call throws. A refusal keeps its code, the index of the entry it is about and its
  sentence; the details record, which repeats values of the request, is left out.
\<close>

section \<open>The contract vocabulary\<close>

definition DEX_CONTRACT_MAJOR :: nat where "DEX_CONTRACT_MAJOR = 1"

datatype dex_modifier = MLog | MProve | MAwe | MPerf | MDeep | MFast | MDry | MNoRegress | MMobile | MShip

datatype dex_command_class = ClassRead | ClassWorkflow | ClassMutate | ClassControl | ClassAdmin

datatype dex_mutation_level = LevelNone | LevelStaged | LevelCommit | LevelDestructive

datatype dex_product = PSession | PCapsule | PMuseum | PRemix | PSidequest | PDropzone | PPair | PWitness

datatype dex_scope =
    SSession | SDropzone | SPair | SCapsule | SMuseum | SRemix | SSidequest | SWitness
  | SReach | SMaint | SControlRoom | SGlobal

datatype dex_trust_domain = TrustRemote | TrustMaintenance | TrustProduct | TrustEvidence | TrustControl

definition DEX_MODIFIERS :: "dex_modifier list" where
  "DEX_MODIFIERS = [MLog, MProve, MAwe, MPerf, MDeep, MFast, MDry, MNoRegress, MMobile, MShip]"

fun modifier_string :: "dex_modifier \<Rightarrow> string" where
  "modifier_string MLog = ''+LOG''" | "modifier_string MProve = ''+PROVE''" | "modifier_string MAwe = ''+AWE''"
| "modifier_string MPerf = ''+PERF''" | "modifier_string MDeep = ''+DEEP''" | "modifier_string MFast = ''+FAST''"
| "modifier_string MDry = ''+DRY''" | "modifier_string MNoRegress = ''+NO-REGRESS''" | "modifier_string MMobile = ''+MOBILE''"
| "modifier_string MShip = ''+SHIP''"

definition DEX_COMMAND_CLASSES :: "dex_command_class list" where
  "DEX_COMMAND_CLASSES = [ClassRead, ClassWorkflow, ClassMutate, ClassControl, ClassAdmin]"

fun class_string :: "dex_command_class \<Rightarrow> string" where
  "class_string ClassRead = ''READ''" | "class_string ClassWorkflow = ''WORKFLOW''" | "class_string ClassMutate = ''MUTATE''"
| "class_string ClassControl = ''CONTROL''" | "class_string ClassAdmin = ''ADMIN''"

text \<open>From the least to the most consequential.\<close>

definition DEX_MUTATION_LEVELS :: "dex_mutation_level list" where
  "DEX_MUTATION_LEVELS = [LevelNone, LevelStaged, LevelCommit, LevelDestructive]"

fun level_string :: "dex_mutation_level \<Rightarrow> string" where
  "level_string LevelNone = ''NONE''" | "level_string LevelStaged = ''STAGED''" | "level_string LevelCommit = ''COMMIT''"
| "level_string LevelDestructive = ''DESTRUCTIVE''"

definition level_rank :: "dex_mutation_level \<Rightarrow> nat" where
  "level_rank l = length (takeWhile (\<lambda>x. x \<noteq> l) DEX_MUTATION_LEVELS)"

definition DEX_PRODUCT_IDS :: "dex_product list" where
  "DEX_PRODUCT_IDS = [PSession, PCapsule, PMuseum, PRemix, PSidequest, PDropzone, PPair, PWitness]"

fun product_string :: "dex_product \<Rightarrow> string" where
  "product_string PSession = ''session''" | "product_string PCapsule = ''capsule''" | "product_string PMuseum = ''museum''"
| "product_string PRemix = ''remix''" | "product_string PSidequest = ''sidequest''" | "product_string PDropzone = ''dropzone''"
| "product_string PPair = ''pair''" | "product_string PWitness = ''witness''"

definition DEX_PRODUCT_SCOPES :: "dex_scope list" where
  "DEX_PRODUCT_SCOPES = [SSession, SDropzone, SPair, SCapsule, SMuseum, SRemix, SSidequest, SWitness]"

definition DEX_NON_PRODUCT_SCOPES :: "dex_scope list" where
  "DEX_NON_PRODUCT_SCOPES = [SReach, SMaint, SControlRoom, SGlobal]"

definition DEX_SCOPES :: "dex_scope list" where
  "DEX_SCOPES = DEX_PRODUCT_SCOPES @ DEX_NON_PRODUCT_SCOPES"

fun scope_string :: "dex_scope \<Rightarrow> string" where
  "scope_string SSession = ''SESSION''" | "scope_string SDropzone = ''DROPZONE''" | "scope_string SPair = ''PAIR''"
| "scope_string SCapsule = ''CAPSULE''" | "scope_string SMuseum = ''MUSEUM''" | "scope_string SRemix = ''REMIX''"
| "scope_string SSidequest = ''SIDEQUEST''" | "scope_string SWitness = ''WITNESS''" | "scope_string SReach = ''REACH''"
| "scope_string SMaint = ''MAINT''" | "scope_string SControlRoom = ''CONTROL_ROOM''" | "scope_string SGlobal = ''GLOBAL''"

definition DEX_OBJECT_KINDS :: "string list" where
  "DEX_OBJECT_KINDS = [''task'', ''room'', ''artifact'', ''case'', ''quest'']"

definition DEX_TRUST_DOMAINS :: "dex_trust_domain list" where
  "DEX_TRUST_DOMAINS = [TrustRemote, TrustMaintenance, TrustProduct, TrustEvidence, TrustControl]"

fun trust_string :: "dex_trust_domain \<Rightarrow> string" where
  "trust_string TrustRemote = ''remote-control''" | "trust_string TrustMaintenance = ''maintenance''"
| "trust_string TrustProduct = ''product''" | "trust_string TrustEvidence = ''evidence''" | "trust_string TrustControl = ''control''"

text \<open>The product a scope names; the other four scopes are not products.\<close>

definition productForScope :: "dex_scope \<Rightarrow> dex_product option" where
  "productForScope s = (if s \<in> set DEX_PRODUCT_SCOPES then List.find (\<lambda>p. product_string p = to_lower (scope_string s)) DEX_PRODUCT_IDS else None)"

datatype router_code =
    MANIFEST_INVALID | DEX_CONTRACT_MAJOR_MISMATCH | COMMAND_MAJOR_MISMATCH | UNKNOWN_COMMAND | NODE_ID_REQUIRED | NODE_NOT_FOUND
  | NODE_NOT_ONLINE | CAPABILITY_UNSUPPORTED_ON_NODE | ADAPTER_MAJOR_MISMATCH | INPUT_NOT_ACCEPTED | DATA_NOT_PROMOTED
  | OPERATION_NOT_IN_CATALOGUE | HANDOFF_INVALID | WITNESS_REMIX_EDGE_FORBIDDEN | SYNTHETIC_MANIFEST_IN_PRODUCTION
  | MODIFIER_UNKNOWN | MODIFIER_MUTATION_FORBIDDEN | REFERENCE_VERIFIER_UNAVAILABLE | REFERENCE_NOT_FOUND | REFERENCE_WRONG_BINDING
  | REFERENCE_REVOKED_OR_INAPPLICABLE | REACH_MAPPING_ABSENT

record router_refusal =
  rf_code :: router_code
  rf_index :: "nat option"
  rf_why :: string

definition refuse :: "router_code \<Rightarrow> string \<Rightarrow> router_refusal" where
  "refuse code why = \<lparr>rf_code = code, rf_index = None, rf_why = why\<rparr>"

definition refuse_at :: "nat \<Rightarrow> string \<Rightarrow> router_refusal" where
  "refuse_at i why = \<lparr>rf_code = MANIFEST_INVALID, rf_index = Some i, rf_why = why\<rparr>"

section \<open>Versions\<close>

text \<open>Three numbers without leading zeros, separated by dots.\<close>

definition numeric_part :: "string \<Rightarrow> bool" where
  "numeric_part s = (s \<noteq> [] \<and> list_all is_digit s \<and> (hd s = CHR ''0'' \<longrightarrow> s = ''0''))"

fun semver_parts :: "nat \<Rightarrow> string \<Rightarrow> bool" where
  "semver_parts 0 s = numeric_part s"
| "semver_parts (Suc n) s = (numeric_part (takeWhile is_digit s) \<and>
     (case dropWhile is_digit s of [] \<Rightarrow> False | c # r \<Rightarrow> c = CHR ''.'' \<and> semver_parts n r))"

definition semver :: "string \<Rightarrow> bool" where
  "semver s = semver_parts 2 s"

definition semverMajor :: "string \<Rightarrow> nat option" where
  "semverMajor s = (if semver s then digits_value 10 0 (takeWhile is_digit s) else None)"

definition isSemver :: "json option \<Rightarrow> string option" where
  "isSemver v = (case v of Some (JStr s) \<Rightarrow> if semver s then Some s else None | _ \<Rightarrow> None)"

fun isPlainObject :: "json \<Rightarrow> bool" where
  "isPlainObject (JObj kvs) = True"
| "isPlainObject j = False"

section \<open>The canonical manifest\<close>

record canonical_command =
  ca_name :: string
  ca_canonical :: string
  ca_slash :: string
  ca_aliases :: "string list"
  ca_commandClass :: dex_command_class
  ca_scope :: dex_scope
  ca_mutationLevel :: dex_mutation_level
  ca_objectKinds :: "string list"
  ca_supportedModifiers :: "dex_modifier list"
  ca_workflowId :: string
  ca_outputs :: "string list"
  ca_skillBinding :: "string option"
  ca_effect :: string
  ca_appCommand :: "string option"
  ca_trustDomain :: dex_trust_domain

record canonical_manifest =
  cm_manifestVersion :: string
  cm_synthetic :: bool
  cm_commands :: "canonical_command list"

definition ENVELOPE_KEYS :: "string list" where
  "ENVELOPE_KEYS = [''manifestVersion'', ''synthetic'', ''commands'']"

definition ENTRY_KEYS :: "string list" where
  "ENTRY_KEYS = [''name'', ''canonical'', ''slash'', ''aliases'', ''commandClass'', ''scope'', ''mutationLevel'', ''objectKinds'',
     ''supportedModifiers'', ''workflowId'', ''outputs'', ''skillBinding'', ''effect'', ''appCommand'', ''trustDomain'']"

fun own_keys :: "json \<Rightarrow> string list" where
  "own_keys (JObj kvs) = map fst kvs"
| "own_keys j = []"

text \<open>The first key that is not in a closed list of keys.\<close>

definition unknown_key :: "string list \<Rightarrow> json \<Rightarrow> string option" where
  "unknown_key keys j = List.find (\<lambda>k. k \<notin> set keys) (own_keys j)"

definition COMMAND_NAME :: "string \<Rightarrow> bool" where
  "COMMAND_NAME s = (case s of [] \<Rightarrow> False
     | c # r \<Rightarrow> is_upper c \<and> 1 \<le> length r \<and> length r \<le> 31 \<and> list_all (\<lambda>x. is_upper x \<or> is_digit x \<or> x = CHR ''_'') r)"

definition isStringArray :: "json option \<Rightarrow> string list option" where
  "isStringArray v = (case v of Some (JArr xs) \<Rightarrow> decode_all json_string xs | _ \<Rightarrow> None)"

definition oneOf :: "('a \<Rightarrow> string) \<Rightarrow> 'a list \<Rightarrow> json option \<Rightarrow> 'a option" where
  "oneOf f xs v = (case v of Some (JStr s) \<Rightarrow> List.find (\<lambda>x. f x = s) xs | _ \<Rightarrow> None)"

text \<open>A string or null; the outer \<open>None\<close> is a value of another type.\<close>

definition text_or_null :: "json option \<Rightarrow> string option option" where
  "text_or_null v = (case v of Some JNull \<Rightarrow> Some None | Some (JStr s) \<Rightarrow> Some (Some s) | _ \<Rightarrow> None)"

definition modifier_list :: "json option \<Rightarrow> dex_modifier list option" where
  "modifier_list v = (case v of
      Some (JArr xs) \<Rightarrow> (case decode_all (\<lambda>x. oneOf modifier_string DEX_MODIFIERS (Some x)) xs of
          Some ms \<Rightarrow> if distinct ms then Some ms else None
        | None \<Rightarrow> None)
    | _ \<Rightarrow> None)"

text \<open>The two shapes of a check: a value that must be there, and a condition that must not hold.\<close>

definition need :: "'e \<Rightarrow> 'a option \<Rightarrow> ('a \<Rightarrow> 'e + 'b) \<Rightarrow> 'e + 'b" where
  "need why v k = (case v of None \<Rightarrow> Inl why | Some x \<Rightarrow> k x)"

definition deny :: "bool \<Rightarrow> 'e \<Rightarrow> 'e + 'b \<Rightarrow> 'e + 'b" where
  "deny c why k = (if c then Inl why else k)"

definition nonEmpty :: "json option \<Rightarrow> string option" where
  "nonEmpty v = (case v of Some (JStr s) \<Rightarrow> if s = [] then None else Some s | _ \<Rightarrow> None)"

text \<open>An entry is checked in two parts: what identifies it, before the check for duplicates, and the rest.\<close>

definition command_head :: "json \<Rightarrow> string + string" where
  "command_head j =
     deny (\<not> isPlainObject j) ''must be an object''
    (deny (unknown_key ENTRY_KEYS j \<noteq> None) ''unknown field''
    (deny (List.find (\<lambda>k. jget j k = None) ENTRY_KEYS \<noteq> None) ''missing field''
    (need ''name is not a canonical command name'' (str_field j ''name'') (\<lambda>name.
     deny (\<not> COMMAND_NAME name) ''name is not a canonical command name''
    (deny (jget j ''canonical'' \<noteq> Some (JStr (''DEX//'' @ name))) ''canonical must be DEX//<name>''
    (deny (jget j ''slash'' \<noteq> Some (JStr (''/'' @ to_lower name))) ''slash must be /<name> in lowercase'' (Inr name)))))))"

definition command_body :: "string \<Rightarrow> json \<Rightarrow> string + canonical_command" where
  "command_body name j =
     need ''aliases must be an array of strings'' (isStringArray (jget j ''aliases'')) (\<lambda>aliases.
     need ''commandClass is not a DEX command class'' (oneOf class_string DEX_COMMAND_CLASSES (jget j ''commandClass'')) (\<lambda>cls.
     need ''scope is not a DEX scope'' (oneOf scope_string DEX_SCOPES (jget j ''scope'')) (\<lambda>scope.
     need ''mutationLevel is not a DEX mutation level'' (oneOf level_string DEX_MUTATION_LEVELS (jget j ''mutationLevel'')) (\<lambda>level.
     need ''objectKinds contains an unknown kind'' (isStringArray (jget j ''objectKinds'')) (\<lambda>kinds.
     deny (\<not> list_all (\<lambda>k. k \<in> set DEX_OBJECT_KINDS) kinds) ''objectKinds contains an unknown kind'' (
     need ''supportedModifiers must be a unique list of DEX modifiers'' (modifier_list (jget j ''supportedModifiers'')) (\<lambda>mods.
     need ''workflowId must be a non-empty string'' (nonEmpty (jget j ''workflowId'')) (\<lambda>workflow.
     need ''outputs must be an array of strings'' (isStringArray (jget j ''outputs'')) (\<lambda>outputs.
     need ''skillBinding must be a string or null'' (text_or_null (jget j ''skillBinding'')) (\<lambda>skill.
     need ''effect must be a string'' (str_field j ''effect'') (\<lambda>eff.
     need ''appCommand must be a string or null'' (text_or_null (jget j ''appCommand'')) (\<lambda>app.
     need ''trustDomain is not a DEX trust domain'' (oneOf trust_string DEX_TRUST_DOMAINS (jget j ''trustDomain'')) (\<lambda>trust.
     Inr \<lparr>ca_name = name, ca_canonical = ''DEX//'' @ name, ca_slash = ''/'' @ to_lower name, ca_aliases = aliases,
          ca_commandClass = cls, ca_scope = scope, ca_mutationLevel = level, ca_objectKinds = kinds, ca_supportedModifiers = mods,
          ca_workflowId = workflow, ca_outputs = outputs, ca_skillBinding = skill, ca_effect = eff, ca_appCommand = app, ca_trustDomain = trust\<rparr>)))))))))))))"

fun load_commands :: "nat \<Rightarrow> canonical_command list \<Rightarrow> json list \<Rightarrow> router_refusal + canonical_command list" where
  "load_commands i acc [] = Inr acc"
| "load_commands i acc (j # js) = (case command_head j of
      Inl why \<Rightarrow> Inl (refuse_at i why)
    | Inr name \<Rightarrow>
        if \<exists>c \<in> set acc. ca_canonical c = ''DEX//'' @ name \<or> ca_slash c = ''/'' @ to_lower name
        then Inl (refuse MANIFEST_INVALID ''duplicate command'')
        else (case command_body name j of
            Inl why \<Rightarrow> Inl (refuse_at i why)
          | Inr c \<Rightarrow> load_commands (Suc i) (acc @ [c]) js))"

text \<open>\<open>production\<close> refuses synthetic documents; a flag of another type is refused anywhere.\<close>

definition bad_flag :: "json \<Rightarrow> string \<Rightarrow> bool" where
  "bad_flag j k = (jget j k \<noteq> None \<and> bool_field j k = None)"

definition loadCanonicalManifest :: "json \<Rightarrow> bool \<Rightarrow> router_refusal + canonical_manifest" where
  "loadCanonicalManifest raw production =
     deny (\<not> isPlainObject raw) (refuse MANIFEST_INVALID ''canonical manifest must be a JSON object'')
    (need (refuse MANIFEST_INVALID ''manifestVersion must be semver'') (isSemver (jget raw ''manifestVersion'')) (\<lambda>version.
     deny (semverMajor version \<noteq> Some DEX_CONTRACT_MAJOR) (refuse DEX_CONTRACT_MAJOR_MISMATCH ''manifest contract major is not the pinned major'')
    (deny (unknown_key ENVELOPE_KEYS raw \<noteq> None) (refuse MANIFEST_INVALID ''unknown manifest field'')
    (deny (bad_flag raw ''synthetic'') (refuse MANIFEST_INVALID ''synthetic must be a boolean'')
    (deny (production \<and> bool_field raw ''synthetic'' = Some True)
       (refuse SYNTHETIC_MANIFEST_IN_PRODUCTION ''a synthetic manifest cannot be loaded as production configuration'')
    (need (refuse MANIFEST_INVALID ''commands must be a non-empty array'') (arr_field raw ''commands'') (\<lambda>js.
     deny (js = []) (refuse MANIFEST_INVALID ''commands must be a non-empty array'')
    (case load_commands 0 [] js of
        Inl e \<Rightarrow> Inl e
      | Inr cs \<Rightarrow> Inr \<lparr>cm_manifestVersion = version, cm_synthetic = (bool_field raw ''synthetic'' = Some True), cm_commands = cs\<rparr>))))))))"

section \<open>Mapping commands to operations\<close>

datatype data_class = DataPublic | DataPrivate | DataSealed

datatype input_origin = OriginOwner | OriginDropzone

definition DATA_CLASSES :: "data_class list" where "DATA_CLASSES = [DataPublic, DataPrivate, DataSealed]"

fun data_class_string :: "data_class \<Rightarrow> string" where
  "data_class_string DataPublic = ''PUBLIC''" | "data_class_string DataPrivate = ''PRIVATE''" | "data_class_string DataSealed = ''SEALED''"

definition INPUT_ORIGINS :: "input_origin list" where "INPUT_ORIGINS = [OriginOwner, OriginDropzone]"

fun origin_string :: "input_origin \<Rightarrow> string" where
  "origin_string OriginOwner = ''owner''" | "origin_string OriginDropzone = ''dropzone''"

definition REACH_MAPPING_SCHEMA :: string where "REACH_MAPPING_SCHEMA = ''reach.dex-command-mappings''"
definition REACH_MAPPING_VERSION :: string where "REACH_MAPPING_VERSION = ''1.0.0''"

definition MAPPING_TABLE_KEYS :: "string list" where
  "MAPPING_TABLE_KEYS = [''schema'', ''version'', ''synthetic'', ''mappings'']"

definition MAPPING_KEYS :: "string list" where
  "MAPPING_KEYS = [''command'', ''authority'', ''invokesReach'', ''reachOperation'', ''product'', ''safetyClass'', ''dataClass'', ''inputOrigin'']"

record command_entry =
  ce_id :: string
  ce_version :: string
  ce_scope :: dex_scope
  ce_mutationLevel :: dex_mutation_level
  ce_product :: "dex_product option"
  ce_safetyClass :: safety_class
  ce_dataClass :: data_class
  ce_inputOrigin :: input_origin
  ce_invokesReach :: bool
  ce_modifiers :: "dex_modifier list"
  ce_reachOperation :: "string option"

record loaded_manifest =
  lm_contractVersion :: string
  lm_synthetic :: bool
  lm_commands :: "command_entry list"
  lm_unroutable :: "(string \<times> dex_scope) list"
  lm_canonicalCount :: nat

fun SAFETY_CEILING :: "safety_class \<Rightarrow> nat" where
  "SAFETY_CEILING PURE_READ_IDEMPOTENT = 0"
| "SAFETY_CEILING SIDE_EFFECTING_IDEMPOTENT = 1"
| "SAFETY_CEILING PLAN_COMMIT = 2"
| "SAFETY_CEILING PROCESS_UNKNOWN_EFFECT = 3"
| "SAFETY_CEILING DESTRUCTIVE = 3"

definition absent_or_null :: "json option \<Rightarrow> bool" where
  "absent_or_null v = (v = None \<or> v = Some JNull)"

text \<open>The operation a mapping names: required when the command invokes this program, forbidden when not.\<close>

definition mapped_operation :: "json \<Rightarrow> string + string option" where
  "mapped_operation m = (case bool_field m ''invokesReach'' of
      None \<Rightarrow> Inl ''invokesReach must be declared true or false''
    | Some True \<Rightarrow> (case nonEmpty (jget m ''reachOperation'') of
          None \<Rightarrow> Inl ''reachOperation is required when invokesReach is true''
        | Some oper \<Rightarrow> Inr (Some oper))
    | Some False \<Rightarrow>
        if absent_or_null (jget m ''reachOperation'') then Inr None else Inl ''reachOperation must be absent when invokesReach is false'')"

definition bind_entry :: "canonical_manifest \<Rightarrow> string list \<Rightarrow> json \<Rightarrow> string + command_entry" where
  "bind_entry C taken m =
     deny (\<not> isPlainObject m) ''must be an object''
    (deny (unknown_key MAPPING_KEYS m \<noteq> None) ''unknown field''
    (need ''command must be a string'' (str_field m ''command'') (\<lambda>command.
     need ''maps a command that is not in the canonical DEX manifest'' (List.find (\<lambda>c. ca_canonical c = command) (cm_commands C)) (\<lambda>dex.
     deny (command \<in> set taken) ''duplicate mapping''
    (need ''authority must name the document that grants this mapping'' (nonEmpty (jget m ''authority'')) (\<lambda>authority.
     deny (200 < length authority) ''authority must name the document that grants this mapping''
    (case mapped_operation m of Inl why \<Rightarrow> Inl why | Inr oper \<Rightarrow>
     need ''safetyClass is not a REACH safety class'' (oneOf safety_string SAFETY_CLASSES (jget m ''safetyClass'')) (\<lambda>safety.
     need ''dataClass must be PUBLIC, PRIVATE or SEALED'' (oneOf data_class_string DATA_CLASSES (jget m ''dataClass'')) (\<lambda>dclass.
     need ''inputOrigin must be owner or dropzone'' (oneOf origin_string INPUT_ORIGINS (jget m ''inputOrigin'')) (\<lambda>origin.
     deny ((case jget m ''product'' of None \<Rightarrow> JNull | Some v \<Rightarrow> v) \<noteq> json_opt (\<lambda>p. JStr (product_string p)) (productForScope (ca_scope dex)))
       ''product must be the product of the scope''
    (deny (level_rank (ca_mutationLevel dex) < SAFETY_CEILING safety) ''safetyClass exceeds the DEX mutation level''
    (deny (case oper of Some x \<Rightarrow> isKnownOperation x \<and> classifyOperationSafety x \<noteq> safety | None \<Rightarrow> False)
       ''safetyClass does not match the catalogued safety class of the operation''
    (deny (ca_scope dex = SDropzone \<and> origin \<noteq> OriginDropzone) ''a DROPZONE command must declare inputOrigin dropzone''
    (deny (ca_scope dex = SPair \<and> dclass = DataPublic)
       ''a PAIR command must declare PRIVATE or SEALED data until DEX defines a public PAIR contract''
    (Inr \<lparr>ce_id = ca_canonical dex, ce_version = cm_manifestVersion C, ce_scope = ca_scope dex, ce_mutationLevel = ca_mutationLevel dex,
          ce_product = productForScope (ca_scope dex), ce_safetyClass = safety, ce_dataClass = dclass, ce_inputOrigin = origin,
          ce_invokesReach = (oper \<noteq> None), ce_modifiers = ca_supportedModifiers dex, ce_reachOperation = oper\<rparr>)))))))))))))))"

fun bind_entries :: "canonical_manifest \<Rightarrow> nat \<Rightarrow> command_entry list \<Rightarrow> json list \<Rightarrow> router_refusal + command_entry list" where
  "bind_entries C i acc [] = Inr acc"
| "bind_entries C i acc (m # ms) = (case bind_entry C (map ce_id acc) m of
      Inl why \<Rightarrow> Inl (refuse_at i why)
    | Inr e \<Rightarrow> bind_entries C (Suc i) (acc @ [e]) ms)"

definition bindMappings :: "canonical_manifest \<Rightarrow> json \<Rightarrow> bool \<Rightarrow> router_refusal + loaded_manifest" where
  "bindMappings C table production =
     deny (\<not> isPlainObject table) (refuse MANIFEST_INVALID ''mapping table: must be an object'')
    (deny (jget table ''schema'' \<noteq> Some (JStr REACH_MAPPING_SCHEMA)) (refuse MANIFEST_INVALID ''mapping table: schema must be reach.dex-command-mappings'')
    (need (refuse MANIFEST_INVALID ''mapping table: version must be semver'') (isSemver (jget table ''version'')) (\<lambda>version.
     deny (semverMajor version \<noteq> semverMajor REACH_MAPPING_VERSION) (refuse MANIFEST_INVALID ''mapping table: mapping table major version is not supported'')
    (deny (unknown_key MAPPING_TABLE_KEYS table \<noteq> None) (refuse MANIFEST_INVALID ''mapping table: unknown field'')
    (deny (bad_flag table ''synthetic'') (refuse MANIFEST_INVALID ''mapping table: synthetic must be a boolean'')
    (deny (production \<and> bool_field table ''synthetic'' = Some True)
       (refuse SYNTHETIC_MANIFEST_IN_PRODUCTION ''a synthetic mapping table cannot be loaded as production configuration'')
    (need (refuse MANIFEST_INVALID ''mapping table: mappings must be an array'') (arr_field table ''mappings'') (\<lambda>ms.
     case bind_entries C 0 [] ms of
        Inl e \<Rightarrow> Inl e
      | Inr es \<Rightarrow> Inr \<lparr>lm_contractVersion = cm_manifestVersion C,
          lm_synthetic = (cm_synthetic C \<or> bool_field table ''synthetic'' = Some True), lm_commands = es,
          lm_unroutable = map (\<lambda>c. (ca_canonical c, ca_scope c)) (filter (\<lambda>c. ca_canonical c \<notin> set (map ce_id es)) (cm_commands C)),
          lm_canonicalCount = length (cm_commands C)\<rparr>))))))))"

definition loadRoutableManifest :: "json \<Rightarrow> json \<Rightarrow> bool \<Rightarrow> router_refusal + loaded_manifest" where
  "loadRoutableManifest canonical mappings production = (case loadCanonicalManifest canonical production of
      Inl e \<Rightarrow> Inl e
    | Inr C \<Rightarrow> bindMappings C mappings production)"

section \<open>References in other products\<close>

datatype reference_kind = PromotionRef | AcceptanceRef

record reference_query =
  rq_kind :: reference_kind
  rq_ref :: string
  rq_product :: dex_product
  rq_command :: string
  rq_targetId :: string
  rq_nodeId :: "string option"
  rq_dataClass :: data_class

datatype reference_verdict = VERIFIED | RefNotFound | RefWrongBinding | RefRevoked | RefInapplicable | RefUnavailable

type_synonym reference_verifier = "reference_query \<Rightarrow> reference_verdict option"

fun verdictRefusal :: "reference_verdict \<Rightarrow> router_refusal" where
  "verdictRefusal RefNotFound = refuse REFERENCE_NOT_FOUND ''reference does not resolve in the authoritative product interface''"
| "verdictRefusal RefWrongBinding = refuse REFERENCE_WRONG_BINDING ''reference is bound to another object, product or target''"
| "verdictRefusal RefRevoked = refuse REFERENCE_REVOKED_OR_INAPPLICABLE ''reference is revoked or does not apply to this command''"
| "verdictRefusal RefInapplicable = refuse REFERENCE_REVOKED_OR_INAPPLICABLE ''reference is revoked or does not apply to this command''"
| "verdictRefusal _ = refuse REFERENCE_VERIFIER_UNAVAILABLE ''reference could not be verified; dispatch is refused''"

text \<open>A call that throws counts as unavailable.\<close>

fun verifyReferences :: "(reference_kind \<times> string) list \<Rightarrow> (reference_kind \<Rightarrow> string \<Rightarrow> reference_query) \<Rightarrow> reference_verifier \<Rightarrow> router_refusal option" where
  "verifyReferences [] base v = None"
| "verifyReferences ((kind, ref) # refs) base v =
     (let verdict = (case v (base kind ref) of Some x \<Rightarrow> x | None \<Rightarrow> RefUnavailable)
      in if verdict \<noteq> VERIFIED then Some (verdictRefusal verdict) else verifyReferences refs base v)"

section \<open>Routing one command\<close>

definition DEX_ROUTER_CAPABILITY :: string where "DEX_ROUTER_CAPABILITY = ''dex_command_router''"

record router_node =
  rn_nodeId :: string
  rn_enrolled :: bool
  rn_online :: bool
  rn_capabilities :: json
  rn_productAdapters :: "(dex_product \<times> string) list"

record route_request =
  rr_command :: string
  rr_commandVersion :: "string option"
  rr_nodeId :: "string option"
  rr_targetId :: "string option"
  rr_acceptanceRef :: "string option"
  rr_promotionRef :: "string option"
  rr_modifiers :: "string list"

record route_plan =
  rp_nodeId :: "string option"
  rp_command :: command_entry
  rp_reachOperation :: "string option"
  rp_previewOf :: "string option"
  rp_modifiers :: "string list"
  rp_dryRun :: bool
  rp_previewOnly :: bool
  rp_effectiveMutationLevel :: dex_mutation_level
  rp_requiresHumanConfirmation :: bool
  rp_authorityFromModifiers :: bool
  rp_gatesSkipped :: bool
  rp_referencesVerified :: bool

definition as_modifier :: "string \<Rightarrow> dex_modifier option" where
  "as_modifier s = List.find (\<lambda>m. modifier_string m = s) DEX_MODIFIERS"

text \<open>Known, supported by the command, and not supplied before.\<close>

fun check_modifiers :: "command_entry \<Rightarrow> string list \<Rightarrow> string list \<Rightarrow> router_refusal option" where
  "check_modifiers e seen [] = None"
| "check_modifiers e seen (m # ms) = (case as_modifier m of
      None \<Rightarrow> Some (refuse MODIFIER_UNKNOWN ''modifier is not a DEX modifier'')
    | Some x \<Rightarrow>
        if x \<notin> set (ce_modifiers e) then Some (refuse MODIFIER_UNKNOWN ''modifier is not supported by this command'')
        else if m \<in> set seen then Some (refuse MODIFIER_UNKNOWN ''modifier was supplied more than once'')
        else check_modifiers e (seen @ [m]) ms)"

definition wrong_version :: "command_entry \<Rightarrow> route_request \<Rightarrow> bool" where
  "wrong_version e rq = (case rr_commandVersion rq of None \<Rightarrow> False
     | Some v \<Rightarrow> semverMajor v = None \<or> semverMajor v \<noteq> semverMajor (ce_version e))"

text \<open>The node of a command that invokes this program: exactly the one the request names.\<close>

definition select_node :: "command_entry \<Rightarrow> route_request \<Rightarrow> router_node list \<Rightarrow> router_refusal + router_node option" where
  "select_node e rq nodes =
     (if \<not> ce_invokesReach e then Inr None
      else need (refuse NODE_ID_REQUIRED ''an exact node_id is required; the router never selects a node'') (given (rr_nodeId rq)) (\<lambda>i.
        need (refuse NODE_NOT_FOUND ''no enrolled node has the requested exact node_id'') (List.find (\<lambda>n. rn_nodeId n = i) nodes) (\<lambda>n.
        deny (\<not> rn_enrolled n \<or> \<not> rn_online n) (refuse NODE_NOT_ONLINE ''the requested node is not enrolled and online'')
       (deny (jget (rn_capabilities n) DEX_ROUTER_CAPABILITY \<noteq> Some (JBool True))
          (refuse CAPABILITY_UNSUPPORTED_ON_NODE ''node does not advertise dex_command_router'')
       (case ce_product e of
          None \<Rightarrow> Inr (Some n)
        | Some p \<Rightarrow> need (refuse CAPABILITY_UNSUPPORTED_ON_NODE ''node advertises no adapter of the product'') (map_of (rn_productAdapters n) p) (\<lambda>v.
            deny (semverMajor v \<noteq> Some DEX_CONTRACT_MAJOR) (refuse ADAPTER_MAJOR_MISMATCH ''node adapter major does not match the pinned major'')
              (Inr (Some n))))))))"

definition supplied_refs :: "string option \<Rightarrow> string option \<Rightarrow> (reference_kind \<times> string) list" where
  "supplied_refs acceptance promotion =
     (case given acceptance of Some r \<Rightarrow> [(AcceptanceRef, r)] | None \<Rightarrow> []) @ (case given promotion of Some r \<Rightarrow> [(PromotionRef, r)] | None \<Rightarrow> [])"

text \<open>Every supplied reference is resolved; the result says whether there was one.\<close>

definition check_references :: "command_entry \<Rightarrow> route_request \<Rightarrow> router_node option \<Rightarrow> reference_verifier option \<Rightarrow> router_refusal + bool" where
  "check_references e rq node verifier =
     (let refs = supplied_refs (rr_acceptanceRef rq) (rr_promotionRef rq)
      in if refs = [] then Inr False
         else need (refuse REFERENCE_VERIFIER_UNAVAILABLE ''no authoritative product interface is available to verify references; dispatch is refused'') verifier (\<lambda>v.
           need (refuse REFERENCE_WRONG_BINDING ''a reference cannot be bound without a target'') (given (rr_targetId rq)) (\<lambda>target.
           need (refuse REFERENCE_WRONG_BINDING ''a reference cannot be bound to a command that names no product'') (ce_product e) (\<lambda>p.
           case verifyReferences refs (\<lambda>kind ref. \<lparr>rq_kind = kind, rq_ref = ref, rq_product = p, rq_command = ce_id e, rq_targetId = target,
               rq_nodeId = map_option rn_nodeId node, rq_dataClass = ce_dataClass e\<rparr>) v of
             Some x \<Rightarrow> Inl x
           | None \<Rightarrow> Inr True))))"

text \<open>The plan of a command that passed every gate.\<close>

definition route_plan_of :: "command_entry \<Rightarrow> string list \<Rightarrow> router_node option \<Rightarrow> bool \<Rightarrow> route_plan" where
  "route_plan_of e ms node verified =
     (let dry = modifier_string MDry \<in> set ms; readOnly = (ce_safetyClass e = PURE_READ_IDEMPOTENT);
          dispatches = (ce_reachOperation e \<noteq> None \<and> (\<not> dry \<or> readOnly))
      in \<lparr>rp_nodeId = map_option rn_nodeId node, rp_command = e,
          rp_reachOperation = (if dispatches then ce_reachOperation e else None),
          rp_previewOf = (if dry \<and> \<not> dispatches then ce_reachOperation e else None),
          rp_modifiers = ms, rp_dryRun = dry, rp_previewOnly = dry,
          rp_effectiveMutationLevel = (if dry then LevelNone else ce_mutationLevel e),
          rp_requiresHumanConfirmation = (ce_mutationLevel e = LevelDestructive \<or> ce_mutationLevel e = LevelCommit \<or> modifier_string MShip \<in> set ms),
          rp_authorityFromModifiers = False, rp_gatesSkipped = False, rp_referencesVerified = verified\<rparr>)"

definition routeCommand :: "loaded_manifest \<Rightarrow> route_request \<Rightarrow> router_node list \<Rightarrow> reference_verifier option \<Rightarrow> router_refusal + route_plan" where
  "routeCommand M rq nodes verifier =
     (case List.find (\<lambda>e. ce_id e = rr_command rq) (lm_commands M) of
        None \<Rightarrow> (case map_of (lm_unroutable M) (rr_command rq) of
            Some s \<Rightarrow> Inl (refuse REACH_MAPPING_ABSENT ''the command has no authoritative REACH mapping, so REACH will not route it'')
          | None \<Rightarrow> Inl (refuse UNKNOWN_COMMAND ''command is not in the loaded manifest''))
      | Some e \<Rightarrow>
          deny (wrong_version e rq) (refuse COMMAND_MAJOR_MISMATCH ''requested command major does not match the manifest'')
         (case check_modifiers e [] (rr_modifiers rq) of Some x \<Rightarrow> Inl x
          | None \<Rightarrow> (case select_node e rq nodes of Inl x \<Rightarrow> Inl x
          | Inr node \<Rightarrow>
              deny (ce_inputOrigin e = OriginDropzone \<and> given (rr_acceptanceRef rq) = None)
                (refuse INPUT_NOT_ACCEPTED ''dropzone input is untrusted until an accepted input reference is supplied'')
             (deny (ce_dataClass e \<noteq> DataPublic \<and> given (rr_promotionRef rq) = None)
                (refuse DATA_NOT_PROMOTED ''data is not routable without an explicit promotion'')
             (case check_references e rq node verifier of Inl x \<Rightarrow> Inl x
              | Inr verified \<Rightarrow>
                  deny (ce_invokesReach e \<and> (case ce_reachOperation e of Some x \<Rightarrow> \<not> isKnownOperation x | None \<Rightarrow> True))
                    (refuse OPERATION_NOT_IN_CATALOGUE ''manifest names an operation REACH does not catalogue'')
                 (let p = route_plan_of e (rr_modifiers rq) node verified
                  in deny (rp_dryRun p \<and> rp_reachOperation p \<noteq> None \<and> ce_safetyClass e \<noteq> PURE_READ_IDEMPOTENT)
                       (refuse MODIFIER_MUTATION_FORBIDDEN ''+DRY plan would dispatch a mutating operation'') (Inr p)))))))"

section \<open>Handoffs\<close>

record handoff_descriptor =
  hd_sourceProduct :: dex_product
  hd_sourceObjectKind :: string
  hd_targetProduct :: dex_product
  hd_targetObjectKind :: string
  hd_contractSchema :: string
  hd_contractVersion :: string
  hd_reason :: string

record handoff_receiver =
  hr_productId :: dex_product
  hr_acceptedContracts :: "string list"

record handoff_options =
  ho_promotionRef :: "string option"
  ho_acceptanceRef :: "string option"
  ho_targetId :: "string option"
  ho_verifier :: "reference_verifier option"

definition HANDOFF_KEYS :: "string list" where
  "HANDOFF_KEYS = [''sourceProduct'', ''sourceObjectKind'', ''targetProduct'', ''targetObjectKind'', ''contractSchema'', ''contractVersion'', ''availability'', ''reason'']"

definition short_text :: "json \<Rightarrow> string \<Rightarrow> string option" where
  "short_text j k = (case nonEmpty (jget j k) of Some s \<Rightarrow> if length s \<le> 256 then Some s else None | None \<Rightarrow> None)"

text \<open>The shape of a descriptor, with its availability.\<close>

definition decode_handoff :: "json \<Rightarrow> string + handoff_descriptor \<times> bool" where
  "decode_handoff raw =
     deny (\<not> isPlainObject raw) ''handoff must be an object''
    (deny (unknown_key HANDOFF_KEYS raw \<noteq> None) ''unknown handoff field''
    (need ''sourceObjectKind must be a non-empty string'' (short_text raw ''sourceObjectKind'') (\<lambda>sk.
     need ''targetObjectKind must be a non-empty string'' (short_text raw ''targetObjectKind'') (\<lambda>tk.
     need ''contractSchema must be a non-empty string'' (short_text raw ''contractSchema'') (\<lambda>schema.
     need ''reason must be a non-empty string'' (short_text raw ''reason'') (\<lambda>why.
     need ''sourceProduct and targetProduct must be known DEX products'' (oneOf product_string DEX_PRODUCT_IDS (jget raw ''sourceProduct'')) (\<lambda>sp.
     need ''sourceProduct and targetProduct must be known DEX products'' (oneOf product_string DEX_PRODUCT_IDS (jget raw ''targetProduct'')) (\<lambda>tp.
     deny (jget raw ''availability'' \<noteq> Some (JStr ''AVAILABLE'') \<and> jget raw ''availability'' \<noteq> Some (JStr ''UNAVAILABLE''))
       ''availability must be AVAILABLE or UNAVAILABLE''
    (need ''contractVersion must be semver'' (isSemver (jget raw ''contractVersion'')) (\<lambda>version.
     Inr (\<lparr>hd_sourceProduct = sp, hd_sourceObjectKind = sk, hd_targetProduct = tp, hd_targetObjectKind = tk, hd_contractSchema = schema,
           hd_contractVersion = version, hd_reason = why\<rparr>, jget raw ''availability'' = Some (JStr ''AVAILABLE''))))))))))))"

definition contract_of :: "handoff_descriptor \<Rightarrow> string" where
  "contract_of h = hd_contractSchema h @ ''@'' @ hd_contractVersion h"

text \<open>The reference the source product demands before its content leaves.\<close>

definition source_firewall :: "handoff_descriptor \<Rightarrow> handoff_options \<Rightarrow> router_refusal + (reference_kind \<times> string) list" where
  "source_firewall h opt =
     (if hd_sourceProduct h = PPair then
        need (refuse DATA_NOT_PROMOTED ''PAIR content leaves PAIR only through an explicit promotion'') (given (ho_promotionRef opt)) (\<lambda>r. Inr [(PromotionRef, r)])
      else if hd_sourceProduct h = PDropzone then
        need (refuse INPUT_NOT_ACCEPTED ''DROPZONE content is untrusted until it is accepted'') (given (ho_acceptanceRef opt)) (\<lambda>r. Inr [(AcceptanceRef, r)])
      else Inr [])"

definition validateHandoff :: "json \<Rightarrow> handoff_receiver \<Rightarrow> handoff_options \<Rightarrow> router_refusal + handoff_descriptor" where
  "validateHandoff raw receiver opt =
     (case decode_handoff raw of Inl why \<Rightarrow> Inl (refuse HANDOFF_INVALID why)
      | Inr (h, available) \<Rightarrow>
          deny (hd_sourceProduct h = PWitness \<and> hd_targetProduct h = PRemix)
            (refuse WITNESS_REMIX_EDGE_FORBIDDEN ''WITNESS evidence may never hand off to REMIX'')
         (deny (hd_targetProduct h \<noteq> hr_productId receiver) (refuse HANDOFF_INVALID ''receiver product does not match'')
         (deny (contract_of h \<notin> set (hr_acceptedContracts receiver)) (refuse HANDOFF_INVALID ''receiver does not accept contract'')
         (deny (\<not> available) (refuse HANDOFF_INVALID ''the handoff is not available'')
         (case source_firewall h opt of Inl x \<Rightarrow> Inl x
          | Inr refs \<Rightarrow>
              if refs = [] then Inr h
              else need (refuse REFERENCE_VERIFIER_UNAVAILABLE ''no authoritative product interface is available to verify references; the handoff is refused'')
                     (ho_verifier opt) (\<lambda>v.
                   need (refuse REFERENCE_WRONG_BINDING ''a reference cannot be bound without a target'') (given (ho_targetId opt)) (\<lambda>target.
                   case verifyReferences refs (\<lambda>kind ref. \<lparr>rq_kind = kind, rq_ref = ref, rq_product = hd_sourceProduct h,
                       rq_command = ''handoff:'' @ contract_of h, rq_targetId = target, rq_nodeId = None, rq_dataClass = DataPrivate\<rparr>) v of
                     Some x \<Rightarrow> Inl x
                   | None \<Rightarrow> Inr h)))))))"

section \<open>Search projections\<close>

record search_source =
  ss_id :: string
  ss_product :: dex_product
  ss_dataClass :: data_class

record search_projection =
  sp_rebuildable :: bool
  sp_authoritative :: bool
  sp_sourceDigest :: string
  sp_entries :: "search_source list"
  sp_excludedUnpromoted :: nat

definition source_json :: "search_source \<Rightarrow> json" where
  "source_json s = JObj [(''id'', JStr (ss_id s)), (''product'', JStr (product_string (ss_product s))), (''dataClass'', JStr (data_class_string (ss_dataClass s)))]"

text \<open>The comparator orders by the code units of the id; the sort is stable.\<close>

definition projectSearchEntries :: "(json \<Rightarrow> string) \<Rightarrow> search_source list \<Rightarrow> string list \<Rightarrow> search_projection" where
  "projectSearchEntries sha sources promoted =
     (let ordered = sort_key (\<lambda>s. map code_of (ss_id s)) sources; entries = filter (\<lambda>s. ss_dataClass s = DataPublic \<or> ss_id s \<in> set promoted) ordered
      in \<lparr>sp_rebuildable = True, sp_authoritative = False, sp_sourceDigest = hashValue sha (JArr (map source_json ordered)), sp_entries = entries,
          sp_excludedUnpromoted = length ordered - length entries\<rparr>)"

section \<open>What a check that passed says\<close>

lemma need_Inr [reach_defs]: "need why v k = Inr y \<longleftrightarrow> (\<exists>x. v = Some x \<and> k x = Inr y)"
  by (cases v) (simp_all add: need_def)

lemma deny_Inr [reach_defs]: "deny c why k = Inr y \<longleftrightarrow> \<not> c \<and> k = Inr y"
  by (simp add: deny_def)

lemma case_sum_Inr [reach_defs]: "(case r of Inl e \<Rightarrow> Inl e | Inr x \<Rightarrow> k x) = Inr y \<longleftrightarrow> (\<exists>x. r = Inr x \<and> k x = Inr y)"
  by (cases r) simp_all

lemma case_located_Inr: "(case r of Inl e \<Rightarrow> Inl (f e) | Inr x \<Rightarrow> k x) = Inr y \<longleftrightarrow> (\<exists>x. r = Inr x \<and> k x = Inr y)"
  by (cases r) simp_all

lemma if_Inl_Inr: "(if c then Inl e else k) = Inr y \<longleftrightarrow> \<not> c \<and> k = Inr y"
  by simp

lemma case_refusal_Inr [reach_defs]: "(case r of Some e \<Rightarrow> Inl e | None \<Rightarrow> k) = Inr y \<longleftrightarrow> r = None \<and> k = Inr y"
  by (cases r) simp_all

lemma unknown_key_None: "unknown_key keys j = None \<longleftrightarrow> (\<forall>k \<in> set (own_keys j). k \<in> set keys)"
  by (auto simp: unknown_key_def find_None_iff_all)

lemma given_Some: "given t = Some s \<longleftrightarrow> t = Some s \<and> s \<noteq> []"
  by (auto simp: given_def split: option.splits if_splits)

lemma verifyReferences_None:
  "verifyReferences refs base v = None \<longleftrightarrow> (\<forall>(kind, r) \<in> set refs. v (base kind r) = Some VERIFIED)"
proof (induction refs)
  case (Cons kr refs)
  then show ?case by (cases kr, cases "v (base (fst kr) (snd kr))") (auto simp: Let_def)
qed simp

section \<open>The manifest\<close>

text \<open>What an entry of the joined manifest takes from the canonical command and from its mapping.\<close>

definition entry_of :: "canonical_manifest \<Rightarrow> canonical_command \<Rightarrow> command_entry \<Rightarrow> bool" where
  "entry_of C dex e = (ce_id e = ca_canonical dex \<and> ce_version e = cm_manifestVersion C \<and> ce_scope e = ca_scope dex \<and>
     ce_mutationLevel e = ca_mutationLevel dex \<and> ce_product e = productForScope (ca_scope dex) \<and> ce_modifiers e = ca_supportedModifiers dex)"

definition entry_ok :: "command_entry \<Rightarrow> bool" where
  "entry_ok e = (SAFETY_CEILING (ce_safetyClass e) \<le> level_rank (ce_mutationLevel e) \<and>
     (ce_invokesReach e \<longleftrightarrow> ce_reachOperation e \<noteq> None) \<and>
     (\<forall>x. ce_reachOperation e = Some x \<longrightarrow> isKnownOperation x \<longrightarrow> classifyOperationSafety x = ce_safetyClass e) \<and>
     (ce_scope e = SDropzone \<longrightarrow> ce_inputOrigin e = OriginDropzone) \<and> (ce_scope e = SPair \<longrightarrow> ce_dataClass e \<noteq> DataPublic))"

lemma bind_entryD:
  assumes "bind_entry C taken m = Inr e"
  obtains dex oper safety dclass origin where "List.find (\<lambda>c. ca_canonical c = ca_canonical dex) (cm_commands C) = Some dex"
    and "str_field m ''command'' = Some (ca_canonical dex)" and "ca_canonical dex \<notin> set taken"
    and "SAFETY_CEILING safety \<le> level_rank (ca_mutationLevel dex)"
    and "\<not> (case oper of Some x \<Rightarrow> isKnownOperation x \<and> classifyOperationSafety x \<noteq> safety | None \<Rightarrow> False)"
    and "\<not> (ca_scope dex = SDropzone \<and> origin \<noteq> OriginDropzone)" and "\<not> (ca_scope dex = SPair \<and> dclass = DataPublic)"
    and "e = \<lparr>ce_id = ca_canonical dex, ce_version = cm_manifestVersion C, ce_scope = ca_scope dex, ce_mutationLevel = ca_mutationLevel dex,
          ce_product = productForScope (ca_scope dex), ce_safetyClass = safety, ce_dataClass = dclass, ce_inputOrigin = origin,
          ce_invokesReach = (oper \<noteq> None), ce_modifiers = ca_supportedModifiers dex, ce_reachOperation = oper\<rparr>"
proof -
  from assms obtain command dex oper safety dclass origin where "str_field m ''command'' = Some command"
    and f: "List.find (\<lambda>c. ca_canonical c = command) (cm_commands C) = Some dex" and "command \<notin> set taken"
    and "\<not> level_rank (ca_mutationLevel dex) < SAFETY_CEILING safety"
    and "\<not> (case oper of Some x \<Rightarrow> isKnownOperation x \<and> classifyOperationSafety x \<noteq> safety | None \<Rightarrow> False)"
    and "\<not> (ca_scope dex = SDropzone \<and> origin \<noteq> OriginDropzone)" and "\<not> (ca_scope dex = SPair \<and> dclass = DataPublic)"
    and "\<lparr>ce_id = ca_canonical dex, ce_version = cm_manifestVersion C, ce_scope = ca_scope dex, ce_mutationLevel = ca_mutationLevel dex,
          ce_product = productForScope (ca_scope dex), ce_safetyClass = safety, ce_dataClass = dclass, ce_inputOrigin = origin,
          ce_invokesReach = (oper \<noteq> None), ce_modifiers = ca_supportedModifiers dex, ce_reachOperation = oper\<rparr> = e"
    unfolding bind_entry_def need_Inr deny_Inr case_sum_Inr sum.inject by blast
  moreover from find_SomeD [OF f] have "ca_canonical dex = command" by simp
  ultimately show thesis using that [of dex safety oper origin dclass] f by simp
qed

lemma bind_entry_ok:
  assumes "bind_entry C taken m = Inr e"
  shows "entry_ok e" and "ce_id e \<notin> set taken" and "str_field m ''command'' = Some (ce_id e)"
    and "\<exists>dex \<in> set (cm_commands C). entry_of C dex e"
  using assms by (elim bind_entryD; fastforce simp: entry_ok_def entry_of_def dest: find_SomeD split: option.splits)+

lemma bind_entries_ok:
  assumes "bind_entries C i acc ms = Inr es" and "\<forall>e \<in> set acc. entry_ok e \<and> (\<exists>dex \<in> set (cm_commands C). entry_of C dex e)"
    and "distinct (map ce_id acc)"
  shows "(\<forall>e \<in> set es. entry_ok e \<and> (\<exists>dex \<in> set (cm_commands C). entry_of C dex e) \<and>
      (e \<in> set acc \<or> (\<exists>m \<in> set ms. str_field m ''command'' = Some (ce_id e)))) \<and> distinct (map ce_id es)"
  using assms
proof (induction ms arbitrary: i acc)
  case (Cons m ms)
  from Cons.prems(1) obtain e where e: "bind_entry C (map ce_id acc) m = Inr e" and "bind_entries C (Suc i) (acc @ [e]) ms = Inr es"
    unfolding bind_entries.simps case_located_Inr by blast
  from Cons.IH [OF this(2)] Cons.prems bind_entry_ok [OF e] show ?case by auto
qed auto

lemma loaded_entries:
  assumes "loadRoutableManifest canonical table production = Inr M"
  obtains C ms where "loadCanonicalManifest canonical production = Inr C" and "arr_field table ''mappings'' = Some ms"
    and "\<forall>e \<in> set (lm_commands M). entry_ok e \<and> (\<exists>dex \<in> set (cm_commands C). entry_of C dex e) \<and> (\<exists>m \<in> set ms. str_field m ''command'' = Some (ce_id e))"
    and "distinct (map ce_id (lm_commands M))" and "lm_contractVersion M = cm_manifestVersion C"
    and "lm_unroutable M = map (\<lambda>c. (ca_canonical c, ca_scope c)) (filter (\<lambda>c. ca_canonical c \<notin> set (map ce_id (lm_commands M))) (cm_commands C))"
    and "lm_canonicalCount M = length (cm_commands C)"
proof -
  from assms obtain C where C: "loadCanonicalManifest canonical production = Inr C" and "bindMappings C table production = Inr M"
    by (auto simp: loadRoutableManifest_def split: sum.splits)
  from this(2) obtain ms es where "arr_field table ''mappings'' = Some ms" "bind_entries C 0 [] ms = Inr es"
    and M: "lm_commands M = es" "lm_contractVersion M = cm_manifestVersion C" "lm_canonicalCount M = length (cm_commands C)"
      "lm_unroutable M = map (\<lambda>c. (ca_canonical c, ca_scope c)) (filter (\<lambda>c. ca_canonical c \<notin> set (map ce_id es)) (cm_commands C))"
    unfolding bindMappings_def need_Inr deny_Inr case_sum_Inr by auto
  with bind_entries_ok [of C 0 "[]" ms es] C that [of C ms] show thesis by auto
qed

lemma command_head_name: "command_head j = Inr name \<Longrightarrow> COMMAND_NAME name"
  unfolding command_head_def need_Inr deny_Inr by auto

definition command_ok :: "canonical_command \<Rightarrow> bool" where
  "command_ok c = (COMMAND_NAME (ca_name c) \<and> ca_canonical c = ''DEX//'' @ ca_name c \<and> ca_slash c = ''/'' @ to_lower (ca_name c) \<and>
     set (ca_objectKinds c) \<subseteq> set DEX_OBJECT_KINDS \<and> distinct (ca_supportedModifiers c) \<and> ca_workflowId c \<noteq> [])"

lemma nonEmpty_Some: "nonEmpty v = Some s \<longleftrightarrow> v = Some (JStr s) \<and> s \<noteq> []"
  by (auto simp: nonEmpty_def split: option.splits json.splits if_splits)

lemma command_body_ok:
  assumes "command_body name j = Inr c" and "COMMAND_NAME name"
  shows "command_ok c" and "ca_name c = name"
proof -
  from assms(1) obtain aliases cls scope level kinds mods workflow outputs skill eff app trust
    where "\<not> \<not> list_all (\<lambda>k. k \<in> set DEX_OBJECT_KINDS) kinds" and m: "modifier_list (jget j ''supportedModifiers'') = Some mods"
    and w: "nonEmpty (jget j ''workflowId'') = Some workflow"
    and c: "\<lparr>ca_name = name, ca_canonical = ''DEX//'' @ name, ca_slash = ''/'' @ to_lower name, ca_aliases = aliases,
          ca_commandClass = cls, ca_scope = scope, ca_mutationLevel = level, ca_objectKinds = kinds, ca_supportedModifiers = mods,
          ca_workflowId = workflow, ca_outputs = outputs, ca_skillBinding = skill, ca_effect = eff, ca_appCommand = app, ca_trustDomain = trust\<rparr> = c"
    unfolding command_body_def need_Inr deny_Inr sum.inject by blast
  moreover from m have "distinct mods" by (auto simp: modifier_list_def split: option.splits json.splits if_splits)
  moreover from w have "workflow \<noteq> []" by (simp add: nonEmpty_Some)
  ultimately show "command_ok c" "ca_name c = name" using assms(2) by (auto simp: command_ok_def list_all_iff)
qed

lemma load_commands_ok:
  assumes "load_commands i acc js = Inr cs" and "\<forall>c \<in> set acc. command_ok c" and "distinct (map ca_canonical acc)" and "distinct (map ca_slash acc)"
  shows "(\<forall>c \<in> set cs. command_ok c) \<and> distinct (map ca_canonical cs) \<and> distinct (map ca_slash cs) \<and> length cs = length acc + length js"
  using assms
proof (induction js arbitrary: i acc)
  case (Cons j js)
  from Cons.prems(1) obtain name c where n: "command_head j = Inr name" and c: "command_body name j = Inr c"
    and fresh: "\<not> (\<exists>c \<in> set acc. ca_canonical c = ''DEX//'' @ name \<or> ca_slash c = ''/'' @ to_lower name)" and rest: "load_commands (Suc i) (acc @ [c]) js = Inr cs"
    unfolding load_commands.simps case_located_Inr if_Inl_Inr by blast
  from command_body_ok [OF c command_head_name [OF n]] have "command_ok c" "ca_canonical c = ''DEX//'' @ name" "ca_slash c = ''/'' @ to_lower name"
    by (auto simp: command_ok_def)
  with Cons.prems(2-4) fresh have "\<forall>x \<in> set (acc @ [c]). command_ok x" "distinct (map ca_canonical (acc @ [c]))" "distinct (map ca_slash (acc @ [c]))"
    by (simp, fastforce, fastforce)
  from Cons.IH [OF rest this] show ?case by simp
qed auto

lemma canonical_manifest_ok:
  assumes "loadCanonicalManifest raw production = Inr C"
  shows "\<forall>c \<in> set (cm_commands C). command_ok c" and "distinct (map ca_canonical (cm_commands C))"
    and "distinct (map ca_slash (cm_commands C))" and "semver (cm_manifestVersion C)" and "cm_commands C \<noteq> []" and "semverMajor (cm_manifestVersion C) = Some DEX_CONTRACT_MAJOR" and "production \<Longrightarrow> \<not> cm_synthetic C"
proof -
  from assms obtain version js cs where "isSemver (jget raw ''manifestVersion'') = Some version" "\<not> semverMajor version \<noteq> Some DEX_CONTRACT_MAJOR" "js \<noteq> []" "load_commands 0 [] js = Inr cs"
    and s: "\<not> (production \<and> bool_field raw ''synthetic'' = Some True)"
    and C: "\<lparr>cm_manifestVersion = version, cm_synthetic = (bool_field raw ''synthetic'' = Some True), cm_commands = cs\<rparr> = C"
    unfolding loadCanonicalManifest_def need_Inr deny_Inr case_sum_Inr sum.inject by blast
  with load_commands_ok [of 0 "[]" js cs] show "\<forall>c \<in> set (cm_commands C). command_ok c" "distinct (map ca_canonical (cm_commands C))"
    "distinct (map ca_slash (cm_commands C))" "semver (cm_manifestVersion C)" "cm_commands C \<noteq> []" "semverMajor (cm_manifestVersion C) = Some DEX_CONTRACT_MAJOR" "production \<Longrightarrow> \<not> cm_synthetic C"
    by (auto simp: isSemver_def split: option.splits json.splits if_splits)
qed

lemma production_not_synthetic:
  assumes "loadRoutableManifest canonical table True = Inr M"
  shows "\<not> lm_synthetic M"
proof -
  from assms obtain C where C: "loadCanonicalManifest canonical True = Inr C" and b: "bindMappings C table True = Inr M"
    unfolding loadRoutableManifest_def case_sum_Inr by blast
  from b obtain version ms es where "\<not> (True \<and> bool_field table ''synthetic'' = Some True)"
    and "\<lparr>lm_contractVersion = cm_manifestVersion C, lm_synthetic = (cm_synthetic C \<or> bool_field table ''synthetic'' = Some True), lm_commands = es,
          lm_unroutable = map (\<lambda>c. (ca_canonical c, ca_scope c)) (filter (\<lambda>c. ca_canonical c \<notin> set (map ce_id es)) (cm_commands C)),
          lm_canonicalCount = length (cm_commands C)\<rparr> = M"
    unfolding bindMappings_def need_Inr deny_Inr case_sum_Inr sum.inject by blast
  with canonical_manifest_ok(7) [OF C] show ?thesis by auto
qed

text \<open>
  C38: A joined manifest is well formed: every canonical command is either routable or listed as unroutable
  and never both, each under its own id, every routable entry keeps the scope, mutation level and modifiers
  of the canonical command, its product is the product of that scope, its safety class stays below the
  mutation level, and a production manifest is never synthetic.
\<close>

theorem routable_manifest_is_well_formed:
  assumes "loadRoutableManifest canonical table production = Inr M"
  shows "\<exists>C. loadCanonicalManifest canonical production = Inr C \<and>
     set (map ce_id (lm_commands M)) \<union> set (map fst (lm_unroutable M)) = set (map ca_canonical (cm_commands C)) \<and>
     distinct (map ce_id (lm_commands M) @ map fst (lm_unroutable M)) \<and>
     lm_canonicalCount M = length (lm_commands M) + length (lm_unroutable M) \<and>
     (\<forall>e \<in> set (lm_commands M). entry_ok e \<and> (\<exists>dex \<in> set (cm_commands C). entry_of C dex e)) \<and> (production \<longrightarrow> \<not> lm_synthetic M)"
proof -
  from assms obtain C ms where C: "loadCanonicalManifest canonical production = Inr C"
    and es: "\<forall>e \<in> set (lm_commands M). entry_ok e \<and> (\<exists>dex \<in> set (cm_commands C). entry_of C dex e) \<and> (\<exists>m \<in> set ms. str_field m ''command'' = Some (ce_id e))"
    and d: "distinct (map ce_id (lm_commands M))"
    and u: "lm_unroutable M = map (\<lambda>c. (ca_canonical c, ca_scope c)) (filter (\<lambda>c. ca_canonical c \<notin> set (map ce_id (lm_commands M))) (cm_commands C))"
    and n: "lm_canonicalCount M = length (cm_commands C)"
    by (rule loaded_entries)
  define rest where "rest = filter (\<lambda>c. ca_canonical c \<notin> set (map ce_id (lm_commands M))) (cm_commands C)"
  have fst_u: "map fst (lm_unroutable M) = map ca_canonical rest" by (simp add: u rest_def)
  from es have sub: "set (map ce_id (lm_commands M)) \<subseteq> set (map ca_canonical (cm_commands C))" by (fastforce simp: entry_of_def)
  then have un: "set (map ce_id (lm_commands M)) \<union> set (map fst (lm_unroutable M)) = set (map ca_canonical (cm_commands C))"
    unfolding fst_u rest_def by auto
  moreover have dd: "distinct (map ce_id (lm_commands M) @ map fst (lm_unroutable M))"
    using d canonical_manifest_ok(2) [OF C] unfolding fst_u rest_def by (auto simp: distinct_map_filter) (metis imageI)
  moreover have "lm_canonicalCount M = length (lm_commands M) + length (lm_unroutable M)"
    using distinct_card [OF dd] distinct_card [OF canonical_manifest_ok(2) [OF C]] un by (simp add: n)
  moreover have "production \<longrightarrow> \<not> lm_synthetic M"
    using production_not_synthetic assms by (cases production) auto
  ultimately show ?thesis using C es by blast
qed

section \<open>The gates of routing\<close>

text \<open>The query that a reference of one kind is resolved with, for one entry and request.\<close>

definition route_query :: "command_entry \<Rightarrow> route_request \<Rightarrow> string option \<Rightarrow> reference_kind \<Rightarrow> string \<Rightarrow> dex_product \<Rightarrow> string \<Rightarrow> reference_query" where
  "route_query e rq node kind ref p target = \<lparr>rq_kind = kind, rq_ref = ref, rq_product = p, rq_command = ce_id e, rq_targetId = target,
     rq_nodeId = node, rq_dataClass = ce_dataClass e\<rparr>"

text \<open>A reference of a kind was supplied, and the verifier confirmed it for exactly this command, target and node.\<close>

definition verified_ref :: "command_entry \<Rightarrow> route_request \<Rightarrow> string option \<Rightarrow> reference_verifier option \<Rightarrow> reference_kind \<Rightarrow> string option \<Rightarrow> bool" where
  "verified_ref e rq node verifier kind supplied = (\<exists>v r target p. verifier = Some v \<and> supplied = Some r \<and> r \<noteq> [] \<and>
     rr_targetId rq = Some target \<and> target \<noteq> [] \<and> ce_product e = Some p \<and> v (route_query e rq node kind r p target) = Some VERIFIED)"

text \<open>The node is the one the request names, live, and advertises the router and the adapter of the product.\<close>

definition node_serves :: "command_entry \<Rightarrow> route_request \<Rightarrow> router_node \<Rightarrow> bool" where
  "node_serves e rq n = (rr_nodeId rq = Some (rn_nodeId n) \<and> rn_nodeId n \<noteq> [] \<and> rn_enrolled n \<and> rn_online n \<and>
     jget (rn_capabilities n) DEX_ROUTER_CAPABILITY = Some (JBool True) \<and>
     (\<forall>p. ce_product e = Some p \<longrightarrow> (\<exists>v. map_of (rn_productAdapters n) p = Some v \<and> semverMajor v = Some DEX_CONTRACT_MAJOR)))"

lemma select_node_Inr:
  assumes "select_node e rq nodes = Inr node"
  shows "(ce_invokesReach e \<longrightarrow> (\<exists>n \<in> set nodes. node = Some n \<and> node_serves e rq n)) \<and> (\<not> ce_invokesReach e \<longrightarrow> node = None)"
proof (cases "ce_invokesReach e")
  case True
  with assms obtain i n where "given (rr_nodeId rq) = Some i" "List.find (\<lambda>n. rn_nodeId n = i) nodes = Some n"
    and "\<not> (\<not> rn_enrolled n \<or> \<not> rn_online n)" "\<not> jget (rn_capabilities n) DEX_ROUTER_CAPABILITY \<noteq> Some (JBool True)"
    and p: "(case ce_product e of None \<Rightarrow> Inr (Some n)
        | Some p \<Rightarrow> need (refuse CAPABILITY_UNSUPPORTED_ON_NODE ''node advertises no adapter of the product'') (map_of (rn_productAdapters n) p) (\<lambda>v.
            deny (semverMajor v \<noteq> Some DEX_CONTRACT_MAJOR) (refuse ADAPTER_MAJOR_MISMATCH ''node adapter major does not match the pinned major'')
              (Inr (Some n)))) = Inr node"
    by (auto simp: select_node_def need_Inr deny_Inr)
  moreover from p have "node = Some n \<and> (\<forall>p. ce_product e = Some p \<longrightarrow> (\<exists>v. map_of (rn_productAdapters n) p = Some v \<and> semverMajor v = Some DEX_CONTRACT_MAJOR))"
    by (cases "ce_product e") (auto simp: need_Inr deny_Inr)
  ultimately show ?thesis using True by (auto simp: node_serves_def given_Some dest: find_SomeD)
qed (use assms in \<open>simp add: select_node_def\<close>)

lemma supplied_refs_mem:
  "(kind, r) \<in> set (supplied_refs acceptance promotion) \<longleftrightarrow>
     kind = AcceptanceRef \<and> given acceptance = Some r \<or> kind = PromotionRef \<and> given promotion = Some r"
  by (auto simp: supplied_refs_def split: option.splits)

lemma check_references_Inr:
  assumes "check_references e rq node verifier = Inr b"
  shows "given (rr_acceptanceRef rq) \<noteq> None \<Longrightarrow> verified_ref e rq (map_option rn_nodeId node) verifier AcceptanceRef (rr_acceptanceRef rq)"
    and "given (rr_promotionRef rq) \<noteq> None \<Longrightarrow> verified_ref e rq (map_option rn_nodeId node) verifier PromotionRef (rr_promotionRef rq)"
    and "b \<longleftrightarrow> given (rr_acceptanceRef rq) \<noteq> None \<or> given (rr_promotionRef rq) \<noteq> None"
proof -
  let ?refs = "supplied_refs (rr_acceptanceRef rq) (rr_promotionRef rq)"
  have ne: "?refs = [] \<longleftrightarrow> given (rr_acceptanceRef rq) = None \<and> given (rr_promotionRef rq) = None"
    by (auto simp: supplied_refs_def split: option.splits)
  have "\<exists>v target p. b \<and> verifier = Some v \<and> given (rr_targetId rq) = Some target \<and> ce_product e = Some p \<and>
      verifyReferences ?refs (\<lambda>kind ref. route_query e rq (map_option rn_nodeId node) kind ref p target) v = None" if "?refs \<noteq> []"
    using assms unfolding check_references_def Let_def if_not_P [OF that] need_Inr case_refusal_Inr route_query_def by auto
  then have *: "b \<and> verified_ref e rq (map_option rn_nodeId node) verifier kind (Some r)" if "(kind, r) \<in> set ?refs" for kind r
    using that given_Some supplied_refs_mem unfolding verified_ref_def verifyReferences_None by fastforce
  show "given (rr_acceptanceRef rq) \<noteq> None \<Longrightarrow> verified_ref e rq (map_option rn_nodeId node) verifier AcceptanceRef (rr_acceptanceRef rq)"
    and "given (rr_promotionRef rq) \<noteq> None \<Longrightarrow> verified_ref e rq (map_option rn_nodeId node) verifier PromotionRef (rr_promotionRef rq)"
    using * supplied_refs_mem given_Some by (metis not_None_eq)+
  show "b \<longleftrightarrow> given (rr_acceptanceRef rq) \<noteq> None \<or> given (rr_promotionRef rq) \<noteq> None"
  proof (cases "?refs = []")
    case True
    with assms ne show ?thesis by (simp add: check_references_def)
  next
    case False
    with ne * show ?thesis by (metis list.set_intros(1) neq_Nil_conv surj_pair)
  qed
qed

lemma routeCommandD:
  assumes "routeCommand M rq nodes verifier = Inr p"
  obtains e node verified where "e \<in> set (lm_commands M)" and "List.find (\<lambda>e. ce_id e = rr_command rq) (lm_commands M) = Some e"
    and "ce_id e = rr_command rq" and "\<not> wrong_version e rq" and "check_modifiers e [] (rr_modifiers rq) = None"
    and "select_node e rq nodes = Inr node" and "\<not> (ce_inputOrigin e = OriginDropzone \<and> given (rr_acceptanceRef rq) = None)"
    and "\<not> (ce_dataClass e \<noteq> DataPublic \<and> given (rr_promotionRef rq) = None)" and "check_references e rq node verifier = Inr verified"
    and "\<not> (ce_invokesReach e \<and> (case ce_reachOperation e of Some x \<Rightarrow> \<not> isKnownOperation x | None \<Rightarrow> True))"
    and "p = route_plan_of e (rr_modifiers rq) node verified"
    and "\<not> (rp_dryRun p \<and> rp_reachOperation p \<noteq> None \<and> ce_safetyClass e \<noteq> PURE_READ_IDEMPOTENT)"
proof -
  from assms obtain e where f: "List.find (\<lambda>e. ce_id e = rr_command rq) (lm_commands M) = Some e"
    by (cases "List.find (\<lambda>e. ce_id e = rr_command rq) (lm_commands M)") (auto simp: routeCommand_def split: option.splits)
  from assms obtain node verified where "\<not> wrong_version e rq" "check_modifiers e [] (rr_modifiers rq) = None"
    "select_node e rq nodes = Inr node" "\<not> (ce_inputOrigin e = OriginDropzone \<and> given (rr_acceptanceRef rq) = None)"
    "\<not> (ce_dataClass e \<noteq> DataPublic \<and> given (rr_promotionRef rq) = None)" "check_references e rq node verifier = Inr verified"
    "\<not> (ce_invokesReach e \<and> (case ce_reachOperation e of Some x \<Rightarrow> \<not> isKnownOperation x | None \<Rightarrow> True))"
    "\<not> (rp_dryRun (route_plan_of e (rr_modifiers rq) node verified) \<and> rp_reachOperation (route_plan_of e (rr_modifiers rq) node verified) \<noteq> None \<and>
        ce_safetyClass e \<noteq> PURE_READ_IDEMPOTENT)"
    "route_plan_of e (rr_modifiers rq) node verified = p"
    unfolding routeCommand_def f option.case case_refusal_Inr case_sum_Inr deny_Inr Let_def sum.inject by blast
  with find_SomeD [OF f] f that show thesis by blast
qed

text \<open>
  C37: A routed plan is justified by its inputs. Its command is a canonical command that a mapping names; the
  operation it dispatches, if any, is catalogued with exactly the safety class of the entry, which stays
  below the command's mutation level; it goes to the one node the request names, enrolled, online and with
  the adapter of the product; data that is not public and input from the dropzone carry a reference that the
  authoritative interface confirmed for this command, target and node; and a dry run dispatches pure reads only.
\<close>

theorem routed_plan_is_justified:
  assumes "loadRoutableManifest canonical table production = Inr M" and "routeCommand M rq nodes verifier = Inr p" and "e = rp_command p"
  shows "ce_id e = rr_command rq \<and>
     (\<exists>C ms. loadCanonicalManifest canonical production = Inr C \<and> (\<exists>dex \<in> set (cm_commands C). entry_of C dex e) \<and>
        arr_field table ''mappings'' = Some ms \<and> (\<exists>m \<in> set ms. str_field m ''command'' = Some (rr_command rq))) \<and>
     (\<forall>x. rp_reachOperation p = Some x \<longrightarrow> isKnownOperation x \<and> classifyOperationSafety x = ce_safetyClass e \<and>
        SAFETY_CEILING (classifyOperationSafety x) \<le> level_rank (ce_mutationLevel e) \<and>
        (\<exists>n \<in> set nodes. rp_nodeId p = Some (rn_nodeId n) \<and> node_serves e rq n) \<and> (rp_dryRun p \<longrightarrow> classifyOperationSafety x = PURE_READ_IDEMPOTENT)) \<and>
     (ce_dataClass e \<noteq> DataPublic \<longrightarrow> verified_ref e rq (rp_nodeId p) verifier PromotionRef (rr_promotionRef rq)) \<and>
     (ce_inputOrigin e = OriginDropzone \<longrightarrow> verified_ref e rq (rp_nodeId p) verifier AcceptanceRef (rr_acceptanceRef rq))"
proof -
  from assms(1) obtain C ms where C: "loadCanonicalManifest canonical production = Inr C" "arr_field table ''mappings'' = Some ms"
    and es: "\<forall>e \<in> set (lm_commands M). entry_ok e \<and> (\<exists>dex \<in> set (cm_commands C). entry_of C dex e) \<and> (\<exists>m \<in> set ms. str_field m ''command'' = Some (ce_id e))"
    by (rule loaded_entries)
  from assms(2) obtain e' node verified where e': "e' \<in> set (lm_commands M)" "ce_id e' = rr_command rq"
    and n: "select_node e' rq nodes = Inr node" and g: "\<not> (ce_inputOrigin e' = OriginDropzone \<and> given (rr_acceptanceRef rq) = None)"
      "\<not> (ce_dataClass e' \<noteq> DataPublic \<and> given (rr_promotionRef rq) = None)" and r: "check_references e' rq node verifier = Inr verified"
    and k: "\<not> (ce_invokesReach e' \<and> (case ce_reachOperation e' of Some x \<Rightarrow> \<not> isKnownOperation x | None \<Rightarrow> True))"
    and p: "p = route_plan_of e' (rr_modifiers rq) node verified"
    by (rule routeCommandD)
  have e: "e = e'" "rp_nodeId p = map_option rn_nodeId node" by (simp_all add: assms(3) p route_plan_of_def Let_def)
  have "\<exists>C ms. loadCanonicalManifest canonical production = Inr C \<and> (\<exists>dex \<in> set (cm_commands C). entry_of C dex e) \<and>
      arr_field table ''mappings'' = Some ms \<and> (\<exists>m \<in> set ms. str_field m ''command'' = Some (rr_command rq))"
    using C es e' e by metis
  moreover have "isKnownOperation x \<and> classifyOperationSafety x = ce_safetyClass e \<and> SAFETY_CEILING (classifyOperationSafety x) \<le> level_rank (ce_mutationLevel e) \<and>
      (\<exists>n \<in> set nodes. rp_nodeId p = Some (rn_nodeId n) \<and> node_serves e rq n) \<and> (rp_dryRun p \<longrightarrow> classifyOperationSafety x = PURE_READ_IDEMPOTENT)"
    if x: "rp_reachOperation p = Some x" for x
  proof -
    from x have op: "ce_reachOperation e' = Some x" and dry: "rp_dryRun p \<longrightarrow> ce_safetyClass e' = PURE_READ_IDEMPOTENT"
      by (auto simp: p route_plan_of_def Let_def split: if_splits)
    from es e' have ok: "entry_ok e'" by blast
    with op have inv: "ce_invokesReach e'" by (simp add: entry_ok_def)
    with k op have known: "isKnownOperation x" by simp
    with ok op have "classifyOperationSafety x = ce_safetyClass e'" by (simp add: entry_ok_def)
    moreover from select_node_Inr [OF n] inv e have "\<exists>n \<in> set nodes. rp_nodeId p = Some (rn_nodeId n) \<and> node_serves e rq n" by auto
    ultimately show ?thesis using ok known dry e by (simp add: entry_ok_def)
  qed
  moreover have "verified_ref e rq (rp_nodeId p) verifier PromotionRef (rr_promotionRef rq)" if "ce_dataClass e \<noteq> DataPublic"
    using check_references_Inr(2) [OF r] g that e by simp
  moreover have "verified_ref e rq (rp_nodeId p) verifier AcceptanceRef (rr_acceptanceRef rq)" if "ce_inputOrigin e = OriginDropzone"
    using check_references_Inr(1) [OF r] g that e by simp
  ultimately show ?thesis using e' e by blast
qed

text \<open>
  Modifiers never widen. What a request with modifiers is allowed, the same request without modifiers is
  allowed too, on the same node and after the same checks of references; with modifiers it dispatches the same
  operation or none, its effective mutation level is no higher, and confirmation by a person is asked at least
  as often.
\<close>

theorem modifiers_never_widen:
  assumes "routeCommand M rq nodes verifier = Inr p"
  shows "\<exists>p0. routeCommand M (rq\<lparr>rr_modifiers := []\<rparr>) nodes verifier = Inr p0 \<and> rp_command p0 = rp_command p \<and> rp_nodeId p0 = rp_nodeId p \<and>
     rp_referencesVerified p0 = rp_referencesVerified p \<and> rp_reachOperation p \<in> {None, rp_reachOperation p0} \<and>
     level_rank (rp_effectiveMutationLevel p) \<le> level_rank (rp_effectiveMutationLevel p0) \<and>
     (rp_requiresHumanConfirmation p0 \<longrightarrow> rp_requiresHumanConfirmation p) \<and> \<not> rp_gatesSkipped p \<and> \<not> rp_authorityFromModifiers p"
proof -
  let ?rq = "rq\<lparr>rr_modifiers := []\<rparr>"
  from assms obtain e node verified where f: "List.find (\<lambda>e. ce_id e = rr_command rq) (lm_commands M) = Some e"
    and v: "\<not> wrong_version e rq" and n: "select_node e rq nodes = Inr node" and g: "\<not> (ce_inputOrigin e = OriginDropzone \<and> given (rr_acceptanceRef rq) = None)"
      "\<not> (ce_dataClass e \<noteq> DataPublic \<and> given (rr_promotionRef rq) = None)" and r: "check_references e rq node verifier = Inr verified"
    and k: "\<not> (ce_invokesReach e \<and> (case ce_reachOperation e of Some x \<Rightarrow> \<not> isKnownOperation x | None \<Rightarrow> True))"
    and p: "p = route_plan_of e (rr_modifiers rq) node verified"
    by (rule routeCommandD)
  have "wrong_version e ?rq = wrong_version e rq" "select_node e ?rq nodes = select_node e rq nodes"
    "check_references e ?rq node verifier = check_references e rq node verifier"
    by (simp_all add: wrong_version_def select_node_def check_references_def Let_def)
  with f v n g r k have "routeCommand M ?rq nodes verifier = Inr (route_plan_of e [] node verified)"
    by (simp add: routeCommand_def deny_def Let_def route_plan_of_def)
  then show ?thesis unfolding p by (auto simp: route_plan_of_def Let_def level_rank_def DEX_MUTATION_LEVELS_def)
qed

section \<open>Publishing a manifest and reading it back\<close>

definition command_json :: "canonical_command \<Rightarrow> json" where
  "command_json c = JObj [(''name'', JStr (ca_name c)), (''canonical'', JStr (ca_canonical c)), (''slash'', JStr (ca_slash c)),
     (''aliases'', JArr (map JStr (ca_aliases c))), (''commandClass'', JStr (class_string (ca_commandClass c))), (''scope'', JStr (scope_string (ca_scope c))),
     (''mutationLevel'', JStr (level_string (ca_mutationLevel c))), (''objectKinds'', JArr (map JStr (ca_objectKinds c))),
     (''supportedModifiers'', JArr (map (JStr \<circ> modifier_string) (ca_supportedModifiers c))), (''workflowId'', JStr (ca_workflowId c)),
     (''outputs'', JArr (map JStr (ca_outputs c))), (''skillBinding'', json_opt JStr (ca_skillBinding c)), (''effect'', JStr (ca_effect c)),
     (''appCommand'', json_opt JStr (ca_appCommand c)), (''trustDomain'', JStr (trust_string (ca_trustDomain c)))]"

definition manifest_json :: "canonical_manifest \<Rightarrow> json" where
  "manifest_json C = JObj [(''manifestVersion'', JStr (cm_manifestVersion C)), (''synthetic'', JBool (cm_synthetic C)),
     (''commands'', JArr (map command_json (cm_commands C)))]"

lemma isStringArray_map [simp]: "isStringArray (Some (JArr (map JStr xs))) = Some xs"
  by (simp add: isStringArray_def decode_all_map)

lemma oneOf_strings [simp]:
  "oneOf class_string DEX_COMMAND_CLASSES (Some (JStr (class_string a))) = Some a"
  "oneOf scope_string DEX_SCOPES (Some (JStr (scope_string b))) = Some b"
  "oneOf level_string DEX_MUTATION_LEVELS (Some (JStr (level_string c))) = Some c"
  "oneOf trust_string DEX_TRUST_DOMAINS (Some (JStr (trust_string d))) = Some d"
  "oneOf modifier_string DEX_MODIFIERS (Some (JStr (modifier_string m))) = Some m"
proof -
  show "oneOf class_string DEX_COMMAND_CLASSES (Some (JStr (class_string a))) = Some a"
    by (cases a) (simp_all add: oneOf_def DEX_COMMAND_CLASSES_def)
  show "oneOf scope_string DEX_SCOPES (Some (JStr (scope_string b))) = Some b"
    by (cases b) (simp_all add: oneOf_def DEX_SCOPES_def DEX_PRODUCT_SCOPES_def DEX_NON_PRODUCT_SCOPES_def)
  show "oneOf level_string DEX_MUTATION_LEVELS (Some (JStr (level_string c))) = Some c"
    by (cases c) (simp_all add: oneOf_def DEX_MUTATION_LEVELS_def)
  show "oneOf trust_string DEX_TRUST_DOMAINS (Some (JStr (trust_string d))) = Some d"
    by (cases d) (simp_all add: oneOf_def DEX_TRUST_DOMAINS_def)
  show "oneOf modifier_string DEX_MODIFIERS (Some (JStr (modifier_string m))) = Some m"
    by (cases m) (simp_all add: oneOf_def DEX_MODIFIERS_def)
qed

lemma text_or_null_opt [simp]: "text_or_null (Some (json_opt JStr v)) = Some v"
  by (cases v) (simp_all add: text_or_null_def)

lemma modifier_list_map: "distinct ms \<Longrightarrow> modifier_list (Some (JArr (map (JStr \<circ> modifier_string) ms))) = Some ms"
  by (simp add: modifier_list_def decode_all_map)

lemma command_head_json: "command_ok c \<Longrightarrow> command_head (command_json c) = Inr (ca_name c)"
  by (simp add: command_head_def command_json_def command_ok_def unknown_key_def ENTRY_KEYS_def deny_def need_def)

lemma command_body_json: "command_ok c \<Longrightarrow> command_body (ca_name c) (command_json c) = Inr c"
  unfolding command_body_def command_json_def
  by (simp add: command_ok_def deny_def need_def nonEmpty_def modifier_list_map list_all_iff subset_iff)

lemma load_commands_json:
  assumes "\<forall>c \<in> set cs. command_ok c" and "distinct (map ca_canonical (acc @ cs))" and "distinct (map ca_slash (acc @ cs))"
  shows "load_commands i acc (map command_json cs) = Inr (acc @ cs)"
  using assms
proof (induction cs arbitrary: i acc)
  case (Cons c cs)
  from Cons.prems(1) have "ca_canonical c = ''DEX//'' @ ca_name c" "ca_slash c = ''/'' @ to_lower (ca_name c)"
    by (simp_all add: command_ok_def)
  moreover from Cons.prems(2,3) have "\<forall>x \<in> set acc. ca_canonical x \<noteq> ca_canonical c \<and> ca_slash x \<noteq> ca_slash c"
    by (simp, metis imageI)
  ultimately have "\<not> (\<exists>x \<in> set acc. ca_canonical x = ''DEX//'' @ ca_name c \<or> ca_slash x = ''/'' @ to_lower (ca_name c))"
    by metis
  moreover from Cons.prems Cons.IH [of "acc @ [c]" "Suc i"] have "load_commands (Suc i) (acc @ [c]) (map command_json cs) = Inr (acc @ c # cs)" by simp
  ultimately show ?case using Cons.prems(1) by (simp add: command_head_json command_body_json)
qed simp

text \<open>
  A manifest that was loaded reads back unchanged from the document that publishes it.
\<close>

theorem manifest_reads_back:
  assumes "loadCanonicalManifest raw production = Inr C"
  shows "loadCanonicalManifest (manifest_json C) production = Inr C"
proof -
  note ok = canonical_manifest_ok [OF assms]
  have "load_commands 0 [] (map command_json (cm_commands C)) = Inr (cm_commands C)"
    using load_commands_json [of "cm_commands C" "[]" 0] ok(1-3) by simp
  then show ?thesis using ok(4-7)
    by (auto simp: loadCanonicalManifest_def manifest_json_def deny_def need_def isSemver_def unknown_key_def ENVELOPE_KEYS_def bad_flag_def)
qed

section \<open>Handoffs and search\<close>

definition handoff_verified :: "handoff_descriptor \<Rightarrow> handoff_options \<Rightarrow> reference_kind \<Rightarrow> string option \<Rightarrow> bool" where
  "handoff_verified h opt kind supplied = (\<exists>v r target. ho_verifier opt = Some v \<and> supplied = Some r \<and> r \<noteq> [] \<and> ho_targetId opt = Some target \<and> target \<noteq> [] \<and>
     v \<lparr>rq_kind = kind, rq_ref = r, rq_product = hd_sourceProduct h, rq_command = ''handoff:'' @ contract_of h, rq_targetId = target,
        rq_nodeId = None, rq_dataClass = DataPrivate\<rparr> = Some VERIFIED)"

lemma source_firewall_Inr:
  "source_firewall h opt = Inr refs \<longleftrightarrow>
     (hd_sourceProduct h = PPair \<and> (\<exists>r. given (ho_promotionRef opt) = Some r \<and> refs = [(PromotionRef, r)]) \<or>
      hd_sourceProduct h = PDropzone \<and> (\<exists>r. given (ho_acceptanceRef opt) = Some r \<and> refs = [(AcceptanceRef, r)]) \<or>
      hd_sourceProduct h \<noteq> PPair \<and> hd_sourceProduct h \<noteq> PDropzone \<and> refs = [])"
  by (auto simp: source_firewall_def need_Inr)

lemma validateHandoffD:
  assumes "validateHandoff raw receiver opt = Inr h"
  obtains refs where "decode_handoff raw = Inr (h, True)" and "\<not> (hd_sourceProduct h = PWitness \<and> hd_targetProduct h = PRemix)"
    and "hd_targetProduct h = hr_productId receiver" and "contract_of h \<in> set (hr_acceptedContracts receiver)"
    and "source_firewall h opt = Inr refs"
    and "refs = [] \<or> (\<exists>v target. ho_verifier opt = Some v \<and> given (ho_targetId opt) = Some target \<and>
          verifyReferences refs (\<lambda>kind ref. \<lparr>rq_kind = kind, rq_ref = ref, rq_product = hd_sourceProduct h,
             rq_command = ''handoff:'' @ contract_of h, rq_targetId = target, rq_nodeId = None, rq_dataClass = DataPrivate\<rparr>) v = None)"
proof -
  from assms obtain h' av where d: "decode_handoff raw = Inr (h', av)"
    by (cases "decode_handoff raw") (auto simp: validateHandoff_def)
  from assms obtain refs where "\<not> (hd_sourceProduct h' = PWitness \<and> hd_targetProduct h' = PRemix)" "\<not> hd_targetProduct h' \<noteq> hr_productId receiver"
    "\<not> contract_of h' \<notin> set (hr_acceptedContracts receiver)" "\<not> \<not> av" and f: "source_firewall h' opt = Inr refs"
    and k: "(if refs = [] then Inr h'
        else need (refuse REFERENCE_VERIFIER_UNAVAILABLE ''no authoritative product interface is available to verify references; the handoff is refused'')
          (ho_verifier opt) (\<lambda>v. need (refuse REFERENCE_WRONG_BINDING ''a reference cannot be bound without a target'') (given (ho_targetId opt)) (\<lambda>target.
            case verifyReferences refs (\<lambda>kind ref. \<lparr>rq_kind = kind, rq_ref = ref, rq_product = hd_sourceProduct h',
               rq_command = ''handoff:'' @ contract_of h', rq_targetId = target, rq_nodeId = None, rq_dataClass = DataPrivate\<rparr>) v of
              Some x \<Rightarrow> Inl x | None \<Rightarrow> Inr h'))) = Inr h"
    unfolding validateHandoff_def d sum.case prod.case deny_Inr case_sum_Inr by blast
  moreover from k have "h' = h \<and> (refs = [] \<or> (\<exists>v target. ho_verifier opt = Some v \<and> given (ho_targetId opt) = Some target \<and>
          verifyReferences refs (\<lambda>kind ref. \<lparr>rq_kind = kind, rq_ref = ref, rq_product = hd_sourceProduct h,
             rq_command = ''handoff:'' @ contract_of h, rq_targetId = target, rq_nodeId = None, rq_dataClass = DataPrivate\<rparr>) v = None))"
    by (cases "refs = []") (auto simp: need_Inr case_refusal_Inr)
  ultimately show thesis using d that [of refs] by simp
qed

text \<open>
  A validated handoff is available, names the receiver and a contract the receiver accepts, carries no
  field outside the closed descriptor, never goes from WITNESS to REMIX, and leaves PAIR only with a promotion
  and DROPZONE only with an acceptance that the authoritative interface confirmed for this contract and target.
\<close>

theorem handoff_firewalls:
  assumes "validateHandoff raw receiver opt = Inr h"
  shows "hd_targetProduct h = hr_productId receiver \<and> contract_of h \<in> set (hr_acceptedContracts receiver) \<and>
     \<not> (hd_sourceProduct h = PWitness \<and> hd_targetProduct h = PRemix) \<and> jget raw ''availability'' = Some (JStr ''AVAILABLE'') \<and>
     (\<forall>k \<in> set (own_keys raw). k \<in> set HANDOFF_KEYS) \<and>
     (hd_sourceProduct h = PPair \<longrightarrow> handoff_verified h opt PromotionRef (ho_promotionRef opt)) \<and>
     (hd_sourceProduct h = PDropzone \<longrightarrow> handoff_verified h opt AcceptanceRef (ho_acceptanceRef opt))"
proof -
  from assms obtain refs where d: "decode_handoff raw = Inr (h, True)" and h: "\<not> (hd_sourceProduct h = PWitness \<and> hd_targetProduct h = PRemix)"
    "hd_targetProduct h = hr_productId receiver" "contract_of h \<in> set (hr_acceptedContracts receiver)" and f: "source_firewall h opt = Inr refs"
    and v: "refs = [] \<or> (\<exists>v target. ho_verifier opt = Some v \<and> given (ho_targetId opt) = Some target \<and>
          verifyReferences refs (\<lambda>kind ref. \<lparr>rq_kind = kind, rq_ref = ref, rq_product = hd_sourceProduct h,
             rq_command = ''handoff:'' @ contract_of h, rq_targetId = target, rq_nodeId = None, rq_dataClass = DataPrivate\<rparr>) v = None)"
    by (rule validateHandoffD)
  from d have "jget raw ''availability'' = Some (JStr ''AVAILABLE'')" and "unknown_key HANDOFF_KEYS raw = None"
    unfolding decode_handoff_def need_Inr deny_Inr by auto
  moreover have "hd_sourceProduct h = PPair \<longrightarrow> handoff_verified h opt PromotionRef (ho_promotionRef opt)"
    "hd_sourceProduct h = PDropzone \<longrightarrow> handoff_verified h opt AcceptanceRef (ho_acceptanceRef opt)"
    using f v by (auto simp: source_firewall_Inr handoff_verified_def verifyReferences_None given_Some)
  ultimately show ?thesis using h by (simp add: unknown_key_None)
qed

text \<open>
  The search projection is a function of the sources and not of their order, and shows nothing that is not
  public or promoted: equal collections of sources with distinct ids give the same projection and digest, the
  entries are exactly the public and promoted sources, and the rest is counted.
\<close>

theorem projection_is_order_independent:
  assumes "mset xs = mset ys" and "distinct (map ss_id xs)"
  shows "projectSearchEntries sha xs promoted = projectSearchEntries sha ys promoted \<and>
     set (sp_entries (projectSearchEntries sha xs promoted)) = {s \<in> set xs. ss_dataClass s = DataPublic \<or> ss_id s \<in> set promoted} \<and>
     sp_excludedUnpromoted (projectSearchEntries sha xs promoted) + length (sp_entries (projectSearchEntries sha xs promoted)) = length xs"
proof -
  let ?k = "\<lambda>s. map code_of (ss_id s) :: nat list"
  have inj: "inj_on ?k (set xs)"
    using assms(2) by (auto simp: distinct_map inj_on_def dest: map_injective)
  have "sort_key ?k xs = sort_key ?k ys"
    by (rule sort_key_inj_key_eq) (use assms(1) inj in simp_all)
  moreover have "set (sort_key ?k xs) = set xs" "length (sort_key ?k xs) = length xs" by simp_all
  moreover have "length zs - length (filter P zs) + length (filter P zs) = length zs" for P :: "search_source \<Rightarrow> bool" and zs by simp
  ultimately show ?thesis unfolding projectSearchEntries_def Let_def search_projection.simps set_filter by metis
qed

section \<open>A concrete manifest\<close>

definition ex_peek :: canonical_command where
  "ex_peek = \<lparr>ca_name = ''PEEK'', ca_canonical = ''DEX//PEEK'', ca_slash = ''/peek'', ca_aliases = [], ca_commandClass = ClassRead, ca_scope = SPair,
     ca_mutationLevel = LevelNone, ca_objectKinds = [''artifact''], ca_supportedModifiers = [MFast, MDry], ca_workflowId = ''peek'', ca_outputs = [],
     ca_skillBinding = None, ca_effect = ''reads'', ca_appCommand = None, ca_trustDomain = TrustProduct\<rparr>"

definition ex_canonical :: canonical_manifest where
  "ex_canonical = \<lparr>cm_manifestVersion = ''1.2.0'', cm_synthetic = False,
     cm_commands = [ex_peek, ex_peek\<lparr>ca_name := ''HALT'', ca_canonical := ''DEX//HALT'', ca_slash := ''/halt'', ca_scope := SGlobal\<rparr>]\<rparr>"

definition ex_table :: json where
  "ex_table = JObj [(''schema'', JStr REACH_MAPPING_SCHEMA), (''version'', JStr ''1.0.0''), (''mappings'', JArr [JObj
     [(''command'', JStr ''DEX//PEEK''), (''authority'', JStr ''ADR-0004''), (''invokesReach'', JBool True), (''reachOperation'', JStr ''dex.file.read''),
      (''product'', JStr ''pair''), (''safetyClass'', JStr ''PURE_READ_IDEMPOTENT''), (''dataClass'', JStr ''PRIVATE''), (''inputOrigin'', JStr ''owner'')]])]"

definition ex_entry :: command_entry where
  "ex_entry = \<lparr>ce_id = ''DEX//PEEK'', ce_version = ''1.2.0'', ce_scope = SPair, ce_mutationLevel = LevelNone, ce_product = Some PPair,
     ce_safetyClass = PURE_READ_IDEMPOTENT, ce_dataClass = DataPrivate, ce_inputOrigin = OriginOwner, ce_invokesReach = True,
     ce_modifiers = [MFast, MDry], ce_reachOperation = Some ''dex.file.read''\<rparr>"

definition ex_manifest :: loaded_manifest where
  "ex_manifest = \<lparr>lm_contractVersion = ''1.2.0'', lm_synthetic = False, lm_commands = [ex_entry], lm_unroutable = [(''DEX//HALT'', SGlobal)], lm_canonicalCount = 2\<rparr>"

definition ex_router_node :: router_node where
  "ex_router_node = \<lparr>rn_nodeId = ''mac'', rn_enrolled = True, rn_online = True, rn_capabilities = JObj [(DEX_ROUTER_CAPABILITY, JBool True)],
     rn_productAdapters = [(PPair, ''1.0.3'')]\<rparr>"

definition ex_route :: route_request where
  "ex_route = \<lparr>rr_command = ''DEX//PEEK'', rr_commandVersion = Some ''1.0.0'', rr_nodeId = Some ''mac'', rr_targetId = Some ''letter'',
     rr_acceptanceRef = None, rr_promotionRef = Some ''ref-1'', rr_modifiers = [''+DRY'', ''+FAST'']\<rparr>"

definition ex_verifier :: reference_verifier where
  "ex_verifier q = (if rq_targetId q = ''letter'' \<and> rq_ref q = ''ref-1'' then Some VERIFIED else None)"

lemma ex_loaded: "loadCanonicalManifest (manifest_json ex_canonical) True = Inr ex_canonical"
  by code_simp

lemma ex_bound: "loadRoutableManifest (manifest_json ex_canonical) ex_table True = Inr ex_manifest"
  unfolding loadRoutableManifest_def ex_loaded by code_simp

lemma ex_routed: "routeCommand ex_manifest ex_route [ex_router_node] (Some ex_verifier) = Inr (route_plan_of ex_entry [''+DRY'', ''+FAST''] (Some ex_router_node) True)"
  by code_simp

theorem manifest_reads_back_witness: "loadCanonicalManifest (manifest_json ex_canonical) True = Inr ex_canonical"
  using manifest_reads_back [OF ex_loaded] .

theorem routable_manifest_is_well_formed_witness:
  "lm_canonicalCount ex_manifest = length (lm_commands ex_manifest) + length (lm_unroutable ex_manifest)"
  using routable_manifest_is_well_formed [OF ex_bound] by blast

theorem routed_plan_is_justified_witness:
  "verified_ref ex_entry ex_route (Some ''mac'') (Some ex_verifier) PromotionRef (Some ''ref-1'') \<and> isKnownOperation ''dex.file.read''"
  using routed_plan_is_justified [OF ex_bound ex_routed refl]
  by (simp add: route_plan_of_def Let_def ex_entry_def ex_router_node_def ex_route_def)

theorem modifiers_never_widen_witness:
  "\<exists>p0. routeCommand ex_manifest (ex_route\<lparr>rr_modifiers := []\<rparr>) [ex_router_node] (Some ex_verifier) = Inr p0 \<and> rp_nodeId p0 = Some ''mac''"
  using modifiers_never_widen [OF ex_routed] by (auto simp: route_plan_of_def Let_def ex_router_node_def)

definition ex_handoff :: json where
  "ex_handoff = JObj [(''sourceProduct'', JStr ''pair''), (''sourceObjectKind'', JStr ''artifact''), (''targetProduct'', JStr ''museum''),
     (''targetObjectKind'', JStr ''artifact''), (''contractSchema'', JStr ''dex.exhibit''), (''contractVersion'', JStr ''1.0.0''),
     (''availability'', JStr ''AVAILABLE''), (''reason'', JStr ''shown'')]"

definition ex_descriptor :: handoff_descriptor where
  "ex_descriptor = \<lparr>hd_sourceProduct = PPair, hd_sourceObjectKind = ''artifact'', hd_targetProduct = PMuseum, hd_targetObjectKind = ''artifact'',
     hd_contractSchema = ''dex.exhibit'', hd_contractVersion = ''1.0.0'', hd_reason = ''shown''\<rparr>"

definition ex_receiver :: handoff_receiver where
  "ex_receiver = \<lparr>hr_productId = PMuseum, hr_acceptedContracts = [''dex.exhibit@1.0.0'']\<rparr>"

definition ex_handoff_options :: handoff_options where
  "ex_handoff_options = \<lparr>ho_promotionRef = Some ''ref-1'', ho_acceptanceRef = None, ho_targetId = Some ''letter'', ho_verifier = Some ex_verifier\<rparr>"

theorem handoff_firewalls_witness:
  "handoff_verified ex_descriptor ex_handoff_options PromotionRef (Some ''ref-1'')"
proof -
  have "validateHandoff ex_handoff ex_receiver ex_handoff_options = Inr ex_descriptor" by code_simp
  from handoff_firewalls [OF this] show ?thesis by (simp add: ex_descriptor_def ex_handoff_options_def)
qed

theorem projection_is_order_independent_witness:
  "projectSearchEntries (\<lambda>j. []) [\<lparr>ss_id = ''b'', ss_product = PPair, ss_dataClass = DataSealed\<rparr>, \<lparr>ss_id = ''a'', ss_product = PMuseum, ss_dataClass = DataPublic\<rparr>] [] =
   projectSearchEntries (\<lambda>j. []) [\<lparr>ss_id = ''a'', ss_product = PMuseum, ss_dataClass = DataPublic\<rparr>, \<lparr>ss_id = ''b'', ss_product = PPair, ss_dataClass = DataSealed\<rparr>] []"
  by (rule conjunct1, rule projection_is_order_independent) simp_all

end
