(* ===== verification/Reach_OAuth.thy ===== *)
theory Reach_OAuth imports Reach_Ledger Reach_Requests
begin

text \<open>
  The OAuth surface of the gateway: the provider that keeps clients, consent tickets, authorization codes
  and tokens (\<open>src/src/gateway/auth.ts\<close>), the routes around it and the bounded store of the rate limiter
  (\<open>src/src/gateway/oauth-server.ts\<close>).

  Parameters are the hash of a token, the challenge of a verifier, the parser of URLs, the fetch of a client
  metadata document, the random values and the success of a write. A redirect is its target with the
  parameters set on it, an error without its description; the consent page keeps its ticket, client name and scopes and drops the markup. Each
  operation of the provider runs up to its write without interruption, so it is one step, and so is a whole
  route: what another request does while a route fetches a document or writes the file is not modelled. The
  file holds the snapshot of the last write that succeeded.
\<close>

section \<open>Data\<close>

record url =
  ur_text :: string
  ur_protocol :: string
  ur_hostname :: string

record oauth_env =
  oe_ownerUser :: string
  oe_ownerPassword :: string
  oe_resource :: string
  oe_issuer :: string
  oe_accessMs :: int
  oe_refreshMs :: int
  oe_tokenHash :: "string \<Rightarrow> string"
  oe_challenge :: "string \<Rightarrow> string"
  oe_url :: "string \<Rightarrow> url option"

text \<open>
  A client; the id and the redirect URIs are undefined in what a lookup by an inherited member name finds
  (see \<open>getClient\<close>).
\<close>

record oauth_client =
  oc_id :: "string option"
  oc_name :: "string option"
  oc_uris :: "string list option"
  oc_grants :: json
  oc_responses :: json

record token_record =
  tk_clientId :: string
  tk_scopes :: "string list"
  tk_expiresAt :: int
  tk_resource :: "string option"

record auth_params =
  ap_redirectUri :: string
  ap_codeChallenge :: string
  ap_scopes :: "string list option"
  ap_state :: "string option"
  ap_resource :: "string option"

record code_record =
  cd_client :: oauth_client
  cd_params :: auth_params
  cd_expiresAt :: int

record oauth_file =
  of_clients :: "oauth_client obj"
  of_access :: "token_record obj"
  of_refresh :: "token_record obj"

record oauth_state =
  oa_clients :: "oauth_client obj"
  oa_access :: "token_record obj"
  oa_refresh :: "token_record obj"
  oa_codes :: "code_record obj"
  oa_pending :: "code_record obj"
  oa_file :: "oauth_file stored"

datatype oauth_code =
  InvalidRequest | InvalidClient | InvalidGrant | InvalidScope | UnsupportedGrantType | TemporarilyUnavailable | InvalidToken | ServerError

text \<open>An OAuth error with its code, or any other exception.\<close>

datatype oauth_error = OAuthFault oauth_code string | Thrown string

record oauth_tokens =
  ot_access :: string
  ot_refresh :: string
  ot_expiresIn :: int
  ot_scope :: string

type_synonym 'a oauth_step = "oauth_state \<Rightarrow> (oauth_error + 'a) \<times> oauth_state"

definition REQUIRED_RESOURCE_SCOPE :: string where "REQUIRED_RESOURCE_SCOPE = ''mcp:tools''"
definition OFFLINE_ACCESS_SCOPE :: string where "OFFLINE_ACCESS_SCOPE = ''offline_access''"
definition SUPPORTED_SCOPES :: "string list" where "SUPPORTED_SCOPES = [REQUIRED_RESOURCE_SCOPE, OFFLINE_ACCESS_SCOPE]"
definition DEFAULT_AUTHORIZATION_SCOPES :: "string list" where "DEFAULT_AUTHORIZATION_SCOPES = [REQUIRED_RESOURCE_SCOPE]"
definition MAX_DYNAMIC_CLIENTS :: nat where "MAX_DYNAMIC_CLIENTS = 256"

definition empty_oauth_file :: oauth_file where
  "empty_oauth_file = \<lparr>of_clients = [], of_access = [], of_refresh = []\<rparr>"

definition empty_oauth :: oauth_state where
  "empty_oauth = \<lparr>oa_clients = [], oa_access = [], oa_refresh = [], oa_codes = [], oa_pending = [], oa_file = Absent\<rparr>"

section \<open>The provider\<close>

definition live_tokens :: "int \<Rightarrow> token_record obj \<Rightarrow> token_record obj" where
  "live_tokens now ts = filter (\<lambda>(k, t). \<not> tk_expiresAt t < now) ts"

definition live_codes :: "int \<Rightarrow> code_record obj \<Rightarrow> code_record obj" where
  "live_codes now cs = filter (\<lambda>(k, c). \<not> cd_expiresAt c < now) cs"

definition oauth_sweep :: "int \<Rightarrow> oauth_state \<Rightarrow> oauth_state" where
  "oauth_sweep now st = st\<lparr>oa_access := live_tokens now (oa_access st), oa_refresh := live_tokens now (oa_refresh st),
     oa_codes := live_codes now (oa_codes st), oa_pending := live_codes now (oa_pending st)\<rparr>"

definition oauth_persist :: "bool \<Rightarrow> int \<Rightarrow> unit oauth_step" where
  "oauth_persist written now st =
     (let st1 = oauth_sweep now st
      in if written then (Inr (), st1\<lparr>oa_file := Contents \<lparr>of_clients = oa_clients st1, of_access = oa_access st1, of_refresh = oa_refresh st1\<rparr>\<rparr>)
         else (Inl (Thrown ''write failed''), st1))"

text \<open>A new process: memory is the file, or empty where the file cannot be read.\<close>

definition oauth_initialize :: "int \<Rightarrow> oauth_state \<Rightarrow> oauth_state" where
  "oauth_initialize now st =
     (let f = (case oa_file st of Contents f \<Rightarrow> f | _ \<Rightarrow> empty_oauth_file)
      in oauth_sweep now \<lparr>oa_clients = of_clients f, oa_access = of_access f, oa_refresh = of_refresh f, oa_codes = [], oa_pending = [], oa_file = oa_file st\<rparr>)"

text \<open>A member of a plain object: an own member, or one inherited from \<open>Object.prototype\<close>, which is truthy.\<close>

definition OBJECT_MEMBERS :: "string list" where
  "OBJECT_MEMBERS = PROTOTYPE_KEYS @ [''__proto__'', ''__defineGetter__'', ''__defineSetter__'', ''__lookupGetter__'', ''__lookupSetter__'']"

definition inherited_member :: oauth_client where
  "inherited_member = \<lparr>oc_id = None, oc_name = None, oc_uris = None, oc_grants = JNull, oc_responses = JNull\<rparr>"

definition getClient :: "oauth_state \<Rightarrow> string \<Rightarrow> oauth_client option" where
  "getClient st i = (case map_of (oa_clients st) i of Some c \<Rightarrow> Some c | None \<Rightarrow> if i \<in> set OBJECT_MEMBERS then Some inherited_member else None)"

definition dynamicClientCount :: "oauth_state \<Rightarrow> nat" where
  "dynamicClientCount st = length (filter (\<lambda>(i, c). \<not> starts_with i ''https://'') (oa_clients st))"

definition saveClient :: "bool \<Rightarrow> int \<Rightarrow> string \<Rightarrow> oauth_client \<Rightarrow> unit oauth_step" where
  "saveClient written now i c st = oauth_persist written now (st\<lparr>oa_clients := obj_put i c (oa_clients st)\<rparr>)"

definition registerClient :: "bool \<Rightarrow> int \<Rightarrow> string \<Rightarrow> oauth_client \<Rightarrow> oauth_client oauth_step" where
  "registerClient written now uuid meta st =
     (if MAX_DYNAMIC_CLIENTS \<le> dynamicClientCount st then (Inl (OAuthFault TemporarilyUnavailable ''dynamic client registration capacity reached''), st)
      else (let c = meta\<lparr>oc_id := Some uuid\<rparr> in case saveClient written now uuid c st of
          (Inl e, st1) \<Rightarrow> (Inl e, st1)
        | (Inr _, st1) \<Rightarrow> (Inr c, st1)))"

text \<open>\<open>params.scopes?.length ? params.scopes : default\<close>.\<close>

definition given_scopes :: "string list option \<Rightarrow> string list \<Rightarrow> string list" where
  "given_scopes v dflt = (case v of None \<Rightarrow> dflt | Some s \<Rightarrow> if s = [] then dflt else s)"

definition provider_authorize :: "oauth_env \<Rightarrow> oauth_client \<Rightarrow> auth_params \<Rightarrow> string \<Rightarrow> int \<Rightarrow> (string \<times> string list) oauth_step" where
  "provider_authorize E c ps ticket now st =
     (case oc_uris c of
        None \<Rightarrow> (Inl (Thrown ''redirect_uris is undefined''), st)
      | Some uris \<Rightarrow>
          if ap_redirectUri ps \<notin> set uris then (Inl (Thrown ''unregistered redirect_uri''), st)
          else if ap_resource ps \<noteq> None \<and> ap_resource ps \<noteq> Some (oe_resource E) then (Inl (Thrown ''invalid resource''), st)
          else (let scopes = given_scopes (ap_scopes ps) DEFAULT_AUTHORIZATION_SCOPES
                in if \<not> set scopes \<subseteq> set SUPPORTED_SCOPES then (Inl (OAuthFault InvalidScope ''unsupported scope''), st)
                   else if REQUIRED_RESOURCE_SCOPE \<notin> set scopes then (Inl (OAuthFault InvalidScope ''mcp:tools scope is required''), st)
                   else (Inr (ticket, scopes),
                         st\<lparr>oa_pending := obj_put ticket \<lparr>cd_client = c, cd_params = ps\<lparr>ap_scopes := Some scopes\<rparr>, cd_expiresAt = now + 10 * 60 * 1000\<rparr> (oa_pending st)\<rparr>)))"

definition provider_approve :: "oauth_env \<Rightarrow> string \<Rightarrow> string \<Rightarrow> string \<Rightarrow> string \<Rightarrow> int \<Rightarrow> (string \<times> (string \<times> string) list) oauth_step" where
  "provider_approve E ticket user password code now st =
     (case map_of (oa_pending st) ticket of
        None \<Rightarrow> (Inl (Thrown ''authorization request expired''), st)
      | Some p \<Rightarrow>
          if cd_expiresAt p < now then (Inl (Thrown ''authorization request expired''), st)
          else if user \<noteq> oe_ownerUser E \<or> password \<noteq> oe_ownerPassword E then (Inl (Thrown ''invalid owner credentials''), st)
          else (let st1 = st\<lparr>oa_pending := obj_del ticket (oa_pending st),
                     oa_codes := obj_put code \<lparr>cd_client = cd_client p, cd_params = cd_params p, cd_expiresAt = now + 5 * 60 * 1000\<rparr> (oa_codes st)\<rparr>
                in case oe_url E (ap_redirectUri (cd_params p)) of
                     None \<Rightarrow> (Inl (Thrown ''invalid redirect''), st1)
                   | Some u \<Rightarrow> (Inr (ur_text u, [(''code'', code)] @ (case given (ap_state (cd_params p)) of Some s \<Rightarrow> [(''state'', s)] | None \<Rightarrow> []) @
                        [(''iss'', oe_issuer E)]), st1)))"

definition find_code :: "oauth_client \<Rightarrow> string \<Rightarrow> int \<Rightarrow> oauth_state \<Rightarrow> code_record option" where
  "find_code c code now st = (case map_of (oa_codes st) code of
      None \<Rightarrow> None
    | Some r \<Rightarrow> if cd_expiresAt r < now \<or> oc_id (cd_client r) \<noteq> oc_id c then None else Some r)"

definition challengeForAuthorizationCode :: "oauth_client \<Rightarrow> string \<Rightarrow> int \<Rightarrow> oauth_state \<Rightarrow> oauth_error + string" where
  "challengeForAuthorizationCode c code now st = (case find_code c code now st of
      None \<Rightarrow> Inl (OAuthFault InvalidGrant ''authorization code is invalid or expired'')
    | Some r \<Rightarrow> Inr (ap_codeChallenge (cd_params r)))"

definition client_key :: "oauth_client \<Rightarrow> string" where
  "client_key c = (case oc_id c of Some i \<Rightarrow> i | None \<Rightarrow> ''undefined'')"

definition issueAccessToken :: "oauth_env \<Rightarrow> oauth_client \<Rightarrow> string list \<Rightarrow> string option \<Rightarrow> string \<Rightarrow> string \<Rightarrow> bool \<Rightarrow> int \<Rightarrow> oauth_tokens oauth_step" where
  "issueAccessToken E c scopes resource refresh access written now st =
     (let target = (case given resource of Some r \<Rightarrow> r | None \<Rightarrow> oe_resource E);
          t = \<lparr>tk_clientId = client_key c, tk_scopes = scopes, tk_expiresAt = now + oe_accessMs E, tk_resource = Some target\<rparr>
      in case oauth_persist written now (st\<lparr>oa_access := obj_put (oe_tokenHash E access) t (oa_access st)\<rparr>) of
           (Inl e, st1) \<Rightarrow> (Inl e, st1)
         | (Inr _, st1) \<Rightarrow> (Inr \<lparr>ot_access = access, ot_refresh = refresh, ot_expiresIn = max 1 (oe_accessMs E div 1000), ot_scope = join_words scopes\<rparr>, st1))"

definition issueTokens :: "oauth_env \<Rightarrow> oauth_client \<Rightarrow> string list \<Rightarrow> string \<Rightarrow> string \<Rightarrow> string \<Rightarrow> bool \<Rightarrow> int \<Rightarrow> oauth_tokens oauth_step" where
  "issueTokens E c scopes resource refresh access written now st =
     (let target = (if resource = [] then oe_resource E else resource);
          t = \<lparr>tk_clientId = client_key c, tk_scopes = scopes, tk_expiresAt = now + oe_refreshMs E, tk_resource = Some target\<rparr>
      in issueAccessToken E c scopes (Some target) refresh access written now (st\<lparr>oa_refresh := obj_put (oe_tokenHash E refresh) t (oa_refresh st)\<rparr>))"

definition exchangeAuthorizationCode ::
  "oauth_env \<Rightarrow> oauth_client \<Rightarrow> string \<Rightarrow> string option \<Rightarrow> string option \<Rightarrow> string option \<Rightarrow> string \<Rightarrow> string \<Rightarrow> bool \<Rightarrow> int \<Rightarrow> oauth_tokens oauth_step" where
  "exchangeAuthorizationCode E c code verifier redirectUri resource refresh access written now st =
     (case find_code c code now st of
        None \<Rightarrow> (Inl (OAuthFault InvalidGrant ''authorization code is invalid or expired''), st)
      | Some r \<Rightarrow> (case given verifier of
            None \<Rightarrow> (Inl (OAuthFault InvalidGrant ''PKCE code verifier is required''), st)
          | Some v \<Rightarrow>
              (let ps = cd_params r; expected = (case given (ap_resource ps) of Some x \<Rightarrow> x | None \<Rightarrow> oe_resource E)
               in if oe_challenge E v \<noteq> ap_codeChallenge ps then (Inl (OAuthFault InvalidGrant ''PKCE verification failed''), st)
                  else if (case given redirectUri of Some u \<Rightarrow> u \<noteq> ap_redirectUri ps | None \<Rightarrow> False)
                    then (Inl (OAuthFault InvalidGrant ''redirect_uri does not match authorization request''), st)
                  else if resource \<noteq> None \<and> resource \<noteq> Some expected then (Inl (OAuthFault InvalidGrant ''authorization code resource does not match''), st)
                  else issueTokens E c (given_scopes (ap_scopes ps) DEFAULT_AUTHORIZATION_SCOPES) expected refresh access written now
                         (st\<lparr>oa_codes := obj_del code (oa_codes st)\<rparr>))))"

definition exchangeRefreshToken ::
  "oauth_env \<Rightarrow> oauth_client \<Rightarrow> string \<Rightarrow> string list option \<Rightarrow> string option \<Rightarrow> string \<Rightarrow> bool \<Rightarrow> int \<Rightarrow> oauth_tokens oauth_step" where
  "exchangeRefreshToken E c refresh scopes resource access written now st =
     (case map_of (oa_refresh st) (oe_tokenHash E refresh) of
        None \<Rightarrow> (Inl (OAuthFault InvalidGrant ''refresh token is invalid, expired, or revoked''), st)
      | Some t \<Rightarrow>
          if tk_expiresAt t < now \<or> Some (tk_clientId t) \<noteq> oc_id c then (Inl (OAuthFault InvalidGrant ''refresh token is invalid, expired, or revoked''), st)
          else (let requested = given_scopes scopes (tk_scopes t)
                in if \<not> set requested \<subseteq> set (tk_scopes t) then (Inl (OAuthFault InvalidScope ''refresh scope escalation is not permitted''), st)
                   else if resource \<noteq> None \<and> resource \<noteq> Some (case given (tk_resource t) of Some x \<Rightarrow> x | None \<Rightarrow> oe_resource E)
                     then (Inl (OAuthFault InvalidGrant ''refresh token resource does not match''), st)
                   else issueAccessToken E c requested (tk_resource t) refresh access written now st))"

definition verifyAccessToken :: "oauth_env \<Rightarrow> string \<Rightarrow> int \<Rightarrow> token_record oauth_step" where
  "verifyAccessToken E token now st =
     (let st1 = oauth_sweep now st
      in case map_of (oa_access st1) (oe_tokenHash E token) of
           None \<Rightarrow> (Inl (OAuthFault InvalidToken ''invalid or expired access token''), st1)
         | Some t \<Rightarrow> if tk_expiresAt t < now then (Inl (OAuthFault InvalidToken ''invalid or expired access token''), st1)
             else (Inr (t\<lparr>tk_expiresAt := tk_expiresAt t div 1000, tk_resource := (case given (tk_resource t) of Some r \<Rightarrow> Some r | None \<Rightarrow> Some (oe_resource E))\<rparr>), st1))"

definition revokeToken :: "oauth_env \<Rightarrow> string \<Rightarrow> bool \<Rightarrow> int \<Rightarrow> unit oauth_step" where
  "revokeToken E token written now st =
     (let k = oe_tokenHash E token
      in oauth_persist written now (st\<lparr>oa_access := obj_del k (oa_access st), oa_refresh := obj_del k (oa_refresh st)\<rparr>))"


section \<open>The routes\<close>

text \<open>A value of a query or form: missing, one string, or several under the same name.\<close>

datatype form_value = Missing | One string | Many "string list"

fun comma_list :: "string list \<Rightarrow> string" where
  "comma_list [] = []"
| "comma_list [s] = s"
| "comma_list (s # ss) = s @ '','' @ comma_list ss"

text \<open>\<open>String(value || '')\<close>.\<close>

fun form_text :: "form_value \<Rightarrow> string" where
  "form_text Missing = []"
| "form_text (One s) = s"
| "form_text (Many ss) = comma_list ss"

text \<open>\<open>typeof value === 'string'\<close>.\<close>

fun form_string :: "form_value \<Rightarrow> string option" where
  "form_string (One s) = Some s"
| "form_string _ = None"

datatype oauth_response =
    ErrorJson nat oauth_code
  | ErrorRedirect string oauth_code "string option" string
  | RedirectTo string "(string \<times> string) list"
  | ConsentPage string string "string list"
  | ClientCreated oauth_client
  | TokensIssued oauth_tokens
  | Revoked
  | AuthorizationDenied

definition oauthStatus :: "oauth_code \<Rightarrow> nat" where
  "oauthStatus c = (if c = TemporarilyUnavailable then 503 else if c = InvalidClient then 401 else 400)"

text \<open>An exception that is not an OAuth error is answered with a server error.\<close>

definition fault_json :: "oauth_error \<Rightarrow> oauth_response" where
  "fault_json e = (case e of OAuthFault c m \<Rightarrow> ErrorJson (oauthStatus c) c | Thrown m \<Rightarrow> ErrorJson 500 ServerError)"

definition parseScopes :: "form_value \<Rightarrow> oauth_error + string list option" where
  "parseScopes v = (case v of
      Missing \<Rightarrow> Inr None
    | Many ss \<Rightarrow> Inl (OAuthFault InvalidScope ''scope must be a space-delimited string'')
    | One s \<Rightarrow>
        if s = [] then Inr None
        else (let scopes = rev (remdups (rev (split_tokens is_space s)))
              in if \<not> set scopes \<subseteq> set SUPPORTED_SCOPES then Inl (OAuthFault InvalidScope ''unsupported scope'') else Inr (Some scopes)))"

definition parseResource :: "oauth_env \<Rightarrow> form_value \<Rightarrow> oauth_error + string option" where
  "parseResource E v = (case v of
      Missing \<Rightarrow> Inr None
    | Many ss \<Rightarrow> Inl (OAuthFault InvalidRequest ''resource must be a URL'')
    | One s \<Rightarrow>
        if s = [] then Inr None
        else (case oe_url E s of Some u \<Rightarrow> Inr (Some (ur_text u)) | None \<Rightarrow> Inl (OAuthFault InvalidRequest ''resource must be a URL'')))"

definition safe_redirect :: "url \<Rightarrow> bool" where
  "safe_redirect u = (ur_protocol u = ''https:'' \<or> ur_protocol u = ''http:'' \<and> ur_hostname u \<in> {''127.0.0.1'', ''localhost'', ''[::1]''})"

fun check_uris :: "oauth_env \<Rightarrow> string list \<Rightarrow> oauth_error option" where
  "check_uris E [] = None"
| "check_uris E (s # ss) = (case oe_url E s of
      None \<Rightarrow> Some (OAuthFault InvalidRequest ''redirect_uri is invalid'')
    | Some u \<Rightarrow> if safe_redirect u then check_uris E ss else Some (OAuthFault InvalidRequest ''redirect_uri must use HTTPS except for loopback clients''))"

definition validateRedirectUris :: "oauth_env \<Rightarrow> json option \<Rightarrow> oauth_error + string list" where
  "validateRedirectUris E v = (case v of
      Some (JArr xs) \<Rightarrow> (case decode_all json_string xs of
          Some uris \<Rightarrow> if uris = [] then Inl (OAuthFault InvalidRequest ''redirect_uris must be a non-empty string array'')
            else (case check_uris E uris of Some e \<Rightarrow> Inl e | None \<Rightarrow> Inr uris)
        | None \<Rightarrow> Inl (OAuthFault InvalidRequest ''redirect_uris must be a non-empty string array''))
    | _ \<Rightarrow> Inl (OAuthFault InvalidRequest ''redirect_uris must be a non-empty string array''))"

text \<open>The strings of an array, or the default where the member is not an array.\<close>

definition only_strings :: "json option \<Rightarrow> string list \<Rightarrow> string list" where
  "only_strings v dflt = (case v of Some (JArr xs) \<Rightarrow> List.map_filter json_string xs | _ \<Rightarrow> dflt)"

definition short_name :: "json \<Rightarrow> string \<Rightarrow> string" where
  "short_name body dflt = (case str_field body ''client_name'' of Some s \<Rightarrow> take 160 s | None \<Rightarrow> dflt)"

definition registrationMetadata :: "oauth_env \<Rightarrow> json \<Rightarrow> oauth_error + oauth_client" where
  "registrationMetadata E body = (case validateRedirectUris E (jget body ''redirect_uris'') of
      Inl e \<Rightarrow> Inl e
    | Inr uris \<Rightarrow>
        (let meth = (case str_field body ''token_endpoint_auth_method'' of Some s \<Rightarrow> s | None \<Rightarrow> ''none'');
             grants = only_strings (jget body ''grant_types'') [''authorization_code'', ''refresh_token''];
             responses = only_strings (jget body ''response_types'') [''code'']
         in if meth \<noteq> ''none'' then Inl (OAuthFault InvalidClient ''DEX//REACH supports public OAuth clients with token_endpoint_auth_method=none'')
            else if \<not> set grants \<subseteq> {''authorization_code'', ''refresh_token''} then Inl (OAuthFault InvalidRequest ''unsupported grant type in client metadata'')
            else if \<not> set responses \<subseteq> {''code''} then Inl (OAuthFault InvalidRequest ''unsupported response type in client metadata'')
            else Inr \<lparr>oc_id = None, oc_name = Some (short_name body ''OAuth client''), oc_uris = Some uris,
              oc_grants = JArr (map JStr grants), oc_responses = JArr (map JStr responses)\<rparr>))"

definition id_char :: "char \<Rightarrow> bool" where
  "id_char c = (is_alnum c \<or> c = CHR ''_'' \<or> c = CHR ''-'')"

definition CHATGPT_CIMD :: "string \<Rightarrow> bool" where
  "CHATGPT_CIMD s = (let p = ''https://chatgpt.com/oauth/''; r = drop (length p) s
     in starts_with s p \<and> (r = ''client.json'' \<or> takeWhile id_char r \<noteq> [] \<and> dropWhile id_char r = ''/client.json''))"

text \<open>What the fetch of a metadata document gives: an exception, a refusal, or the parsed body.\<close>

datatype fetched = FetchThrows | FetchNotOk | FetchBody json

definition cimd_methods :: "json \<Rightarrow> json list" where
  "cimd_methods body = (case jget body ''token_endpoint_auth_methods_supported'' of
      Some (JArr xs) \<Rightarrow> xs
    | _ \<Rightarrow> (case jget body ''token_endpoint_auth_method'' of Some v \<Rightarrow> [v] | None \<Rightarrow> []))"

definition nullish_or :: "json option \<Rightarrow> json \<Rightarrow> json" where
  "nullish_or v dflt = (case v of None \<Rightarrow> dflt | Some JNull \<Rightarrow> dflt | Some j \<Rightarrow> j)"

definition resolveChatGptCimdClient :: "oauth_env \<Rightarrow> (string \<Rightarrow> fetched) \<Rightarrow> string \<Rightarrow> bool \<Rightarrow> int \<Rightarrow> oauth_client oauth_step" where
  "resolveChatGptCimdClient E fetch clientId written now st =
     (if \<not> CHATGPT_CIMD clientId then (Inl (OAuthFault InvalidClient ''unknown OAuth client''), st)
      else (case fetch clientId of
          FetchThrows \<Rightarrow> (Inl (Thrown ''fetch failed''), st)
        | FetchNotOk \<Rightarrow> (Inl (OAuthFault InvalidClient ''client metadata document is unavailable''), st)
        | FetchBody body \<Rightarrow>
            if body = JNull then (Inl (Thrown ''body is null''), st)
            else (case validateRedirectUris E (jget body ''redirect_uris'') of
                Inl e \<Rightarrow> (Inl e, st)
              | Inr uris \<Rightarrow>
                  if JStr ''none'' \<notin> set (cimd_methods body)
                    then (Inl (OAuthFault InvalidClient ''ChatGPT client metadata does not support public-client token exchange''), st)
                  else (let c = \<lparr>oc_id = Some clientId, oc_name = Some (short_name body ''ChatGPT''), oc_uris = Some uris,
                          oc_grants = nullish_or (jget body ''grant_types'') (JArr [JStr ''authorization_code'', JStr ''refresh_token'']),
                          oc_responses = nullish_or (jget body ''response_types'') (JArr [JStr ''code''])\<rparr>
                        in case saveClient written now clientId c st of
                            (Inl e, st1) \<Rightarrow> (Inl e, st1)
                          | (Inr _, st1) \<Rightarrow> (Inr c, st1)))))"

definition resolveClient :: "oauth_env \<Rightarrow> (string \<Rightarrow> fetched) \<Rightarrow> string \<Rightarrow> bool \<Rightarrow> int \<Rightarrow> oauth_client oauth_step" where
  "resolveClient E fetch clientId written now st = (case getClient st clientId of
      Some c \<Rightarrow> (Inr c, st)
    | None \<Rightarrow> resolveChatGptCimdClient E fetch clientId written now st)"

text \<open>Run the rest of a handler on what a step gave.\<close>

definition oauth_bind :: "'a oauth_step \<Rightarrow> ('a \<Rightarrow> 'b oauth_step) \<Rightarrow> 'b oauth_step" where
  "oauth_bind f k st = (case f st of (Inl e, st1) \<Rightarrow> (Inl e, st1) | (Inr x, st1) \<Rightarrow> k x st1)"

definition oauth_check :: "oauth_error + 'a \<Rightarrow> 'a oauth_step" where
  "oauth_check r st = (r, st)"

definition oauth_refuse :: "bool \<Rightarrow> oauth_code \<Rightarrow> string \<Rightarrow> unit oauth_step" where
  "oauth_refuse c code why st = ((if c then Inl (OAuthFault code why) else Inr ()), st)"

definition oauth_answer :: "(oauth_error \<Rightarrow> oauth_response) \<Rightarrow> ('a \<Rightarrow> oauth_response) \<Rightarrow> 'a oauth_step \<Rightarrow> oauth_state \<Rightarrow> oauth_response \<times> oauth_state" where
  "oauth_answer bad good f st = (case f st of (Inl e, st1) \<Rightarrow> (bad e, st1) | (Inr x, st1) \<Rightarrow> (good x, st1))"

definition post_register :: "oauth_env \<Rightarrow> json \<Rightarrow> string \<Rightarrow> bool \<Rightarrow> int \<Rightarrow> oauth_state \<Rightarrow> oauth_response \<times> oauth_state" where
  "post_register E body uuid written now = oauth_answer fault_json ClientCreated
     (oauth_bind (oauth_check (registrationMetadata E body)) (registerClient written now uuid))"

record authorize_query =
  aq_clientId :: form_value
  aq_redirectUri :: form_value
  aq_state :: form_value
  aq_responseType :: form_value
  aq_challengeMethod :: form_value
  aq_codeChallenge :: form_value
  aq_resource :: form_value
  aq_scope :: form_value

text \<open>An error of the authorize route goes to the redirect URI of the request, wherever it came from.\<close>

definition authorizeError :: "oauth_env \<Rightarrow> string option \<Rightarrow> string option \<Rightarrow> oauth_error \<Rightarrow> oauth_response" where
  "authorizeError E redirectUri state e =
     (let c = (case e of OAuthFault c m \<Rightarrow> c | Thrown m \<Rightarrow> ServerError)
      in case given redirectUri of
           None \<Rightarrow> ErrorJson (oauthStatus c) c
         | Some raw \<Rightarrow> (case oe_url E raw of
               None \<Rightarrow> ErrorJson (oauthStatus c) c
             | Some u \<Rightarrow> ErrorRedirect (ur_text u) c (given state) (oe_issuer E)))"

definition authorize_step :: "oauth_env \<Rightarrow> (string \<Rightarrow> fetched) \<Rightarrow> authorize_query \<Rightarrow> string \<Rightarrow> bool \<Rightarrow> int \<Rightarrow> (oauth_client \<times> string \<times> string list) oauth_step" where
  "authorize_step E fetch q ticket written now =
     (let clientId = form_text (aq_clientId q); redirectUri = form_string (aq_redirectUri q)
      in oauth_bind (oauth_refuse (clientId = []) InvalidClient ''client_id is required'') (\<lambda>_.
         oauth_bind (resolveClient E fetch clientId written now) (\<lambda>c.
         case given redirectUri of
           None \<Rightarrow> oauth_check (Inl (OAuthFault InvalidGrant ''unregistered redirect_uri''))
         | Some uri \<Rightarrow> (case oc_uris c of
             None \<Rightarrow> oauth_check (Inl (Thrown ''redirect_uris is undefined''))
           | Some uris \<Rightarrow>
               oauth_bind (oauth_refuse (uri \<notin> set uris) InvalidGrant ''unregistered redirect_uri'') (\<lambda>_.
               oauth_bind (oauth_refuse (form_string (aq_responseType q) \<noteq> Some ''code'') InvalidRequest ''response_type must be code'') (\<lambda>_.
               oauth_bind (oauth_refuse (form_string (aq_challengeMethod q) \<noteq> Some ''S256'') InvalidRequest ''code_challenge_method must be S256'') (\<lambda>_.
               oauth_bind (oauth_refuse (form_text (aq_codeChallenge q) = []) InvalidRequest ''code_challenge is required'') (\<lambda>_.
               oauth_bind (oauth_check (parseResource E (aq_resource q))) (\<lambda>resource.
               oauth_bind (oauth_refuse (resource \<noteq> None \<and> resource \<noteq> Some (oe_resource E)) InvalidGrant ''invalid resource'') (\<lambda>_.
               oauth_bind (oauth_check (parseScopes (aq_scope q))) (\<lambda>scopes.
               oauth_bind (provider_authorize E c \<lparr>ap_redirectUri = uri, ap_codeChallenge = form_text (aq_codeChallenge q), ap_scopes = scopes,
                   ap_state = form_string (aq_state q), ap_resource = resource\<rparr> ticket now) (\<lambda>(t, ss). oauth_check (Inr (c, t, ss))))))))))))))"

definition get_authorize :: "oauth_env \<Rightarrow> (string \<Rightarrow> fetched) \<Rightarrow> authorize_query \<Rightarrow> string \<Rightarrow> bool \<Rightarrow> int \<Rightarrow> oauth_state \<Rightarrow> oauth_response \<times> oauth_state" where
  "get_authorize E fetch q ticket written now = oauth_answer (authorizeError E (form_string (aq_redirectUri q)) (form_string (aq_state q)))
     (\<lambda>(c, t, ss). ConsentPage t (case given (oc_name c) of Some n \<Rightarrow> n | None \<Rightarrow> client_key c) ss) (authorize_step E fetch q ticket written now)"

definition post_approve :: "oauth_env \<Rightarrow> form_value \<Rightarrow> form_value \<Rightarrow> form_value \<Rightarrow> string \<Rightarrow> int \<Rightarrow> oauth_state \<Rightarrow> oauth_response \<times> oauth_state" where
  "post_approve E ticket user password code now = oauth_answer (\<lambda>e. AuthorizationDenied) (\<lambda>(target, params). RedirectTo target params)
     (provider_approve E (form_text ticket) (form_text user) (form_text password) code now)"

record token_form =
  tf_grantType :: form_value
  tf_clientId :: form_value
  tf_resource :: form_value
  tf_code :: form_value
  tf_verifier :: form_value
  tf_redirectUri :: form_value
  tf_refreshToken :: form_value
  tf_scope :: form_value

definition token_step :: "oauth_env \<Rightarrow> (string \<Rightarrow> fetched) \<Rightarrow> token_form \<Rightarrow> string \<Rightarrow> string \<Rightarrow> bool \<Rightarrow> int \<Rightarrow> oauth_tokens oauth_step" where
  "token_step E fetch f refresh access written now =
     (let clientId = form_text (tf_clientId f)
      in oauth_bind (oauth_refuse (clientId = []) InvalidClient ''client_id is required'') (\<lambda>_.
         oauth_bind (resolveClient E fetch clientId written now) (\<lambda>c.
         oauth_bind (oauth_check (parseResource E (tf_resource f))) (\<lambda>resource.
         if form_text (tf_grantType f) = ''authorization_code'' then
           oauth_bind (oauth_refuse (form_text (tf_code f) = [] \<or> form_text (tf_verifier f) = [] \<or> form_text (tf_redirectUri f) = []) InvalidGrant
               ''code, code_verifier, and redirect_uri are required'') (\<lambda>_.
           exchangeAuthorizationCode E c (form_text (tf_code f)) (Some (form_text (tf_verifier f))) (Some (form_text (tf_redirectUri f))) resource refresh access written now)
         else if form_text (tf_grantType f) = ''refresh_token'' then
           oauth_bind (oauth_refuse (form_text (tf_refreshToken f) = []) InvalidGrant ''refresh_token is required'') (\<lambda>_.
           oauth_bind (oauth_check (parseScopes (tf_scope f))) (\<lambda>scopes.
           exchangeRefreshToken E c (form_text (tf_refreshToken f)) scopes resource access written now))
         else oauth_check (Inl (OAuthFault UnsupportedGrantType ''unsupported grant_type''))))))"

definition post_token :: "oauth_env \<Rightarrow> (string \<Rightarrow> fetched) \<Rightarrow> token_form \<Rightarrow> string \<Rightarrow> string \<Rightarrow> bool \<Rightarrow> int \<Rightarrow> oauth_state \<Rightarrow> oauth_response \<times> oauth_state" where
  "post_token E fetch f refresh access written now = oauth_answer fault_json TokensIssued (token_step E fetch f refresh access written now)"

definition post_revoke :: "oauth_env \<Rightarrow> (string \<Rightarrow> fetched) \<Rightarrow> form_value \<Rightarrow> form_value \<Rightarrow> bool \<Rightarrow> int \<Rightarrow> oauth_state \<Rightarrow> oauth_response \<times> oauth_state" where
  "post_revoke E fetch clientId token written now = oauth_answer fault_json (\<lambda>_. Revoked)
     (oauth_bind (oauth_refuse (form_text clientId = []) InvalidClient ''client_id is required'') (\<lambda>_.
      oauth_bind (resolveClient E fetch (form_text clientId) written now) (\<lambda>c.
      oauth_bind (oauth_refuse (form_text token = []) InvalidRequest ''token is required'') (\<lambda>_.
      revokeToken E (form_text token) written now))))"

section \<open>The store of the rate limiter\<close>

record window_store =
  ws_windowMs :: int
  ws_hits :: "int obj"
  ws_resetAt :: int
  ws_maxKeys :: nat

definition OAUTH_RATE_WINDOW_MS :: int where "OAUTH_RATE_WINDOW_MS = 60000"

definition new_window_store :: "nat \<Rightarrow> window_store" where
  "new_window_store n = \<lparr>ws_windowMs = OAUTH_RATE_WINDOW_MS, ws_hits = [], ws_resetAt = 0, ws_maxKeys = n\<rparr>"

definition window_roll :: "int \<Rightarrow> window_store \<Rightarrow> window_store" where
  "window_roll now w = (if ws_resetAt w \<le> now then w\<lparr>ws_hits := [], ws_resetAt := now + ws_windowMs w\<rparr> else w)"

definition window_get :: "string \<Rightarrow> int \<Rightarrow> window_store \<Rightarrow> int option \<times> window_store" where
  "window_get k now w = (let w1 = window_roll now w in (map_of (ws_hits w1) k, w1))"

definition window_increment :: "string \<Rightarrow> int \<Rightarrow> window_store \<Rightarrow> int \<times> window_store" where
  "window_increment k now w =
     (let w1 = window_roll now w
      in case map_of (ws_hits w1) k of
           None \<Rightarrow> if ws_maxKeys w1 \<le> length (ws_hits w1) then (9007199254740991, w1)
             else (1, w1\<lparr>ws_hits := obj_put k 1 (ws_hits w1)\<rparr>)
         | Some n \<Rightarrow> (n + 1, w1\<lparr>ws_hits := obj_put k (n + 1) (ws_hits w1)\<rparr>))"

definition window_decrement :: "string \<Rightarrow> window_store \<Rightarrow> window_store" where
  "window_decrement k w = (case map_of (ws_hits w) k of
      Some n \<Rightarrow> if n = 0 then w else w\<lparr>ws_hits := obj_put k (n - 1) (ws_hits w)\<rparr>
    | None \<Rightarrow> w)"

definition window_reset_key :: "string \<Rightarrow> window_store \<Rightarrow> window_store" where
  "window_reset_key k w = w\<lparr>ws_hits := obj_del k (ws_hits w)\<rparr>"


section \<open>Runs\<close>

datatype oauth_op =
    OpRegister json string bool
  | OpAuthorize "string \<Rightarrow> fetched" authorize_query string bool
  | OpApprove form_value form_value form_value string
  | OpToken "string \<Rightarrow> fetched" token_form string string bool
  | OpRevoke "string \<Rightarrow> fetched" form_value form_value bool
  | OpVerify string
  | OpRestart

fun oauth_exec :: "oauth_env \<Rightarrow> int \<Rightarrow> oauth_op \<Rightarrow> oauth_state \<Rightarrow> oauth_state" where
  "oauth_exec E now (OpRegister body uuid written) st = snd (post_register E body uuid written now st)"
| "oauth_exec E now (OpAuthorize fetch q ticket written) st = snd (get_authorize E fetch q ticket written now st)"
| "oauth_exec E now (OpApprove ticket user password code) st = snd (post_approve E ticket user password code now st)"
| "oauth_exec E now (OpToken fetch f refresh access written) st = snd (post_token E fetch f refresh access written now st)"
| "oauth_exec E now (OpRevoke fetch clientId token written) st = snd (post_revoke E fetch clientId token written now st)"
| "oauth_exec E now (OpVerify token) st = snd (verifyAccessToken E token now st)"
| "oauth_exec E now OpRestart st = oauth_initialize now st"

definition oauth_run :: "oauth_env \<Rightarrow> (int \<times> oauth_op) list \<Rightarrow> oauth_state \<Rightarrow> oauth_state" where
  "oauth_run E ops st = foldl (\<lambda>s (now, op). oauth_exec E now op s) st ops"

text \<open>What was typed into the consent form, with the request its ticket stands for; failed attempts are recorded too.\<close>

record consent =
  cs_user :: string
  cs_password :: string
  cs_client :: oauth_client
  cs_params :: auth_params

fun consents :: "oauth_op \<Rightarrow> oauth_state \<Rightarrow> consent list" where
  "consents (OpApprove ticket user password code) st = (case map_of (oa_pending st) (form_text ticket) of
      Some r \<Rightarrow> [\<lparr>cs_user = form_text user, cs_password = form_text password, cs_client = cd_client r, cs_params = cd_params r\<rparr>]
    | None \<Rightarrow> [])"
| "consents op st = []"

inductive oauth_reach :: "oauth_env \<Rightarrow> consent list \<Rightarrow> oauth_state \<Rightarrow> bool" for E where
  start: "oauth_reach E [] empty_oauth"
| step: "oauth_reach E cs st \<Longrightarrow> oauth_reach E (consents op st @ cs) (oauth_exec E now op st)"

section \<open>Reasoning about steps\<close>

text \<open>A step keeps a property of the state, and its result satisfies another.\<close>

definition triple :: "(oauth_state \<Rightarrow> bool) \<Rightarrow> 'a oauth_step \<Rightarrow> ('a \<Rightarrow> bool) \<Rightarrow> bool" where
  "triple P f Q = (\<forall>st. P st \<longrightarrow> P (snd (f st)) \<and> (\<forall>x. fst (f st) = Inr x \<longrightarrow> Q x))"

lemma triple_bind: "triple P f Q \<Longrightarrow> (\<And>x. Q x \<Longrightarrow> triple P (k x) R) \<Longrightarrow> triple P (oauth_bind f k) R"
  unfolding triple_def oauth_bind_def by (fastforce split: prod.splits sum.splits)

lemma triple_check: "(\<And>x. r = Inr x \<Longrightarrow> Q x) \<Longrightarrow> triple P (oauth_check r) Q"
  by (simp add: triple_def oauth_check_def)

lemma triple_refuse: "triple P (oauth_refuse c code why) (\<lambda>_. \<not> c)"
  by (simp add: triple_def oauth_refuse_def)

lemma triple_answer: "triple P f Q \<Longrightarrow> P st \<Longrightarrow> P (snd (oauth_answer bad good f st))"
  by (auto simp: triple_def oauth_answer_def split: prod.splits sum.splits)

lemma triple_weaken: "triple P f Q \<Longrightarrow> (\<And>x. Q x \<Longrightarrow> R x) \<Longrightarrow> triple P f R"
  by (auto simp: triple_def)

lemma cimd_cases:
  "snd (resolveChatGptCimdClient E fetch i written now st) = st \<and> (\<exists>e. fst (resolveChatGptCimdClient E fetch i written now st) = Inl e) \<or>
   (\<exists>c. resolveChatGptCimdClient E fetch i written now st = (case saveClient written now i c st of
      (Inl e, st1) \<Rightarrow> (Inl e, st1) | (Inr _, st1) \<Rightarrow> (Inr c, st1)) \<and> oc_id c = Some i \<and> CHATGPT_CIMD i)"
proof (cases "CHATGPT_CIMD i")
  case True
  show ?thesis
  proof (cases "fetch i")
    case (FetchBody body)
    show ?thesis
    proof (cases "body = JNull \<or> JStr ''none'' \<notin> set (cimd_methods body) \<or> (\<exists>e. validateRedirectUris E (jget body ''redirect_uris'') = Inl e)")
      case True
      with FetchBody \<open>CHATGPT_CIMD i\<close> show ?thesis by (auto simp: resolveChatGptCimdClient_def split: sum.split)
    next
      case False
      then obtain uris where "validateRedirectUris E (jget body ''redirect_uris'') = Inr uris" by (meson sum.exhaust)
      with False FetchBody \<open>CHATGPT_CIMD i\<close> have "resolveChatGptCimdClient E fetch i written now st = (let c = \<lparr>oc_id = Some i, oc_name = Some (short_name body ''ChatGPT''), oc_uris = Some uris,
            oc_grants = nullish_or (jget body ''grant_types'') (JArr [JStr ''authorization_code'', JStr ''refresh_token'']),
            oc_responses = nullish_or (jget body ''response_types'') (JArr [JStr ''code''])\<rparr>
          in case saveClient written now i c st of (Inl e, st1) \<Rightarrow> (Inl e, st1) | (Inr _, st1) \<Rightarrow> (Inr c, st1))"
        by (simp add: resolveChatGptCimdClient_def)
      note r = this [unfolded Let_def]
      show ?thesis by (rule disjI2, rule exI, rule conjI, rule r) (simp add: \<open>CHATGPT_CIMD i\<close>)
    qed
  qed (use True in \<open>simp_all add: resolveChatGptCimdClient_def\<close>)
qed (simp add: resolveChatGptCimdClient_def)

text \<open>
  The contract of a property of the provider's state: sweeping and writing the file keep it, and so does
  every update of a map that the routes make, under a condition on what is put there. The routes are then
  proved once, for any such property.
\<close>

locale oauth_custody =
  fixes E :: oauth_env
    and P :: "oauth_state \<Rightarrow> bool"
    and client_good :: "oauth_client \<Rightarrow> bool"
    and minted :: "string \<Rightarrow> bool"
  assumes sweep: "P st \<Longrightarrow> P (oauth_sweep now st)"
    and store: "P st \<Longrightarrow> P (st\<lparr>oa_file := Contents \<lparr>of_clients = oa_clients st, of_access = oa_access st, of_refresh = oa_refresh st\<rparr>\<rparr>)"
    and stored_client: "P st \<Longrightarrow> getClient st i = Some c \<Longrightarrow> client_good c"
    and new_client: "P st \<Longrightarrow> MAX_DYNAMIC_CLIENTS > dynamicClientCount st \<or> starts_with i ''https://'' \<Longrightarrow> oc_id c = Some i \<Longrightarrow>
      client_good c \<and> P (st\<lparr>oa_clients := obj_put i c (oa_clients st)\<rparr>)"
    and pend: "P st \<Longrightarrow> client_good c \<Longrightarrow> provider_authorize E c ps ticket now st = (Inr x, st') \<Longrightarrow> P st'"
    and code: "P st \<Longrightarrow> client_good c \<Longrightarrow> minted (oe_tokenHash E refresh) \<Longrightarrow> minted (oe_tokenHash E access) \<Longrightarrow> find_code c k now st = Some r \<Longrightarrow>
      P (st\<lparr>oa_codes := obj_del k (oa_codes st),
          oa_refresh := obj_put (oe_tokenHash E refresh) \<lparr>tk_clientId = client_key c, tk_scopes = given_scopes (ap_scopes (cd_params r)) DEFAULT_AUTHORIZATION_SCOPES,
            tk_expiresAt = expR, tk_resource = Some (case given (ap_resource (cd_params r)) of Some x \<Rightarrow> x | None \<Rightarrow> oe_resource E)\<rparr> (oa_refresh st),
          oa_access := obj_put (oe_tokenHash E access) \<lparr>tk_clientId = client_key c, tk_scopes = given_scopes (ap_scopes (cd_params r)) DEFAULT_AUTHORIZATION_SCOPES,
            tk_expiresAt = expA, tk_resource = Some (case given (ap_resource (cd_params r)) of Some x \<Rightarrow> x | None \<Rightarrow> oe_resource E)\<rparr> (oa_access st)\<rparr>)"
    and refreshed: "P st \<Longrightarrow> minted (oe_tokenHash E access) \<Longrightarrow> map_of (oa_refresh st) h = Some t \<Longrightarrow> Some (tk_clientId t) = oc_id c \<Longrightarrow> set requested \<subseteq> set (tk_scopes t) \<Longrightarrow>
      P (st\<lparr>oa_access := obj_put (oe_tokenHash E access) \<lparr>tk_clientId = client_key c, tk_scopes = requested, tk_expiresAt = expA,
          tk_resource = Some (case given (tk_resource t) of Some x \<Rightarrow> x | None \<Rightarrow> oe_resource E)\<rparr> (oa_access st)\<rparr>)"
    and dropped: "P st \<Longrightarrow> P (st\<lparr>oa_access := obj_del h (oa_access st), oa_refresh := obj_del h (oa_refresh st)\<rparr>)"
    and restart: "P st \<Longrightarrow> P (oauth_initialize now st)"
begin

lemma persist: "P st \<Longrightarrow> P (snd (oauth_persist written now st))"
  using sweep store by (simp add: oauth_persist_def Let_def)

lemma saved:
  assumes "P st" and "MAX_DYNAMIC_CLIENTS > dynamicClientCount st \<or> starts_with i ''https://''" and "oc_id c = Some i"
  shows "client_good c \<and> P (snd (saveClient written now i c st))"
  using new_client [OF assms] persist by (simp add: saveClient_def)

lemma register: "triple P (registerClient written now uuid c) (\<lambda>_. True)"
proof -
  have "registerClient written now uuid c st = (if MAX_DYNAMIC_CLIENTS \<le> dynamicClientCount st
      then (Inl (OAuthFault TemporarilyUnavailable ''dynamic client registration capacity reached''), st)
      else (case fst (saveClient written now uuid (c\<lparr>oc_id := Some uuid\<rparr>) st) of Inl e \<Rightarrow> Inl e | Inr _ \<Rightarrow> Inr (c\<lparr>oc_id := Some uuid\<rparr>),
        snd (saveClient written now uuid (c\<lparr>oc_id := Some uuid\<rparr>) st)))" for st
    by (simp add: registerClient_def Let_def split: prod.split sum.split)
  then show ?thesis using saved by (simp add: triple_def not_le)
qed

lemma resolve: "triple P (resolveClient E fetch i written now) client_good"
proof -
  have https: "starts_with i ''https://''" if "CHATGPT_CIMD i"
    using that unfolding CHATGPT_CIMD_def Let_def starts_with_iff by auto
  have "P (snd (resolveChatGptCimdClient E fetch i written now st)) \<and>
      (\<forall>x. fst (resolveChatGptCimdClient E fetch i written now st) = Inr x \<longrightarrow> client_good x)" if st: "P st" for st
    using cimd_cases [of E fetch i written now st]
  proof (elim disjE exE conjE)
    fix c assume r: "resolveChatGptCimdClient E fetch i written now st = (case saveClient written now i c st of
      (Inl e, st1) \<Rightarrow> (Inl e, st1) | (Inr _, st1) \<Rightarrow> (Inr c, st1))" and c: "oc_id c = Some i" "CHATGPT_CIMD i"
    from saved [OF st _ c(1)] https [OF c(2)] have "client_good c \<and> P (snd (saveClient written now i c st))" by blast
    then show ?thesis unfolding r by (cases "saveClient written now i c st"; cases "fst (saveClient written now i c st)") simp_all
  qed (use st in simp)
  with stored_client show ?thesis unfolding triple_def resolveClient_def by (auto split: option.split)
qed

lemma issued:
  "snd (issueAccessToken E c scopes resource refresh access written now st) =
     snd (oauth_persist written now (st\<lparr>oa_access := obj_put (oe_tokenHash E access) \<lparr>tk_clientId = client_key c, tk_scopes = scopes,
       tk_expiresAt = now + oe_accessMs E, tk_resource = Some (case given resource of Some r \<Rightarrow> r | None \<Rightarrow> oe_resource E)\<rparr> (oa_access st)\<rparr>))"
  by (simp add: issueAccessToken_def Let_def split: prod.split sum.split)

lemma exchange_code:
  assumes "client_good c" and "minted (oe_tokenHash E refresh)" and "minted (oe_tokenHash E access)"
  shows "triple P (exchangeAuthorizationCode E c k verifier redirectUri resource refresh access written now) (\<lambda>_. True)"
proof -
  have "P (snd (exchangeAuthorizationCode E c k verifier redirectUri resource refresh access written now st))" if st: "P st" for st
  proof (cases "find_code c k now st")
    case (Some r)
    let ?t = "case given (ap_resource (cd_params r)) of Some x \<Rightarrow> x | None \<Rightarrow> oe_resource E"
    have gt: "(case given (Some ?t) of Some x \<Rightarrow> x | None \<Rightarrow> oe_resource E) = ?t"
      by (cases "given (ap_resource (cd_params r))") (auto simp: given_def split: option.splits if_splits)
    have t: "(if ?t = [] then oe_resource E else ?t) = ?t" by (cases "given (ap_resource (cd_params r))") (auto simp: given_def split: option.splits if_splits)
    have "P (snd (issueTokens E c (given_scopes (ap_scopes (cd_params r)) DEFAULT_AUTHORIZATION_SCOPES) ?t refresh access written now
        (st\<lparr>oa_codes := obj_del k (oa_codes st)\<rparr>)))"
      unfolding issueTokens_def Let_def issued t gt
      using persist [OF code [OF st assms Some]] by simp
    with st Some show ?thesis by (simp add: exchangeAuthorizationCode_def Let_def split: option.split)
  qed (use st in \<open>simp add: exchangeAuthorizationCode_def\<close>)
  then show ?thesis by (simp add: triple_def)
qed

lemma exchange_refresh:
  assumes "minted (oe_tokenHash E access)"
  shows "triple P (exchangeRefreshToken E c refresh scopes resource access written now) (\<lambda>_. True)"
proof -
  have "P (snd (exchangeRefreshToken E c refresh scopes resource access written now st))" if st: "P st" for st
  proof (cases "map_of (oa_refresh st) (oe_tokenHash E refresh)")
    case (Some t)
    have "P (snd (issueAccessToken E c requested (tk_resource t) refresh access written now st))"
      if "Some (tk_clientId t) = oc_id c" "set requested \<subseteq> set (tk_scopes t)" for requested
      unfolding issued by (rule persist, rule refreshed [OF st assms Some that])
    with st Some show ?thesis by (simp add: exchangeRefreshToken_def Let_def)
  qed (use st in \<open>simp add: exchangeRefreshToken_def\<close>)
  then show ?thesis by (simp add: triple_def)
qed

lemma authorize: "client_good c \<Longrightarrow> triple P (provider_authorize E c ps ticket now) (\<lambda>_. True)"
  unfolding triple_def
proof (intro allI impI conjI TrueI)
  fix st assume "client_good c" and st: "P st"
  show "P (snd (provider_authorize E c ps ticket now st))"
  proof (cases "provider_authorize E c ps ticket now st")
    case (Pair r st')
    show ?thesis
    proof (cases r)
      case (Inl e)
      with Pair have "st' = st" by (auto simp: provider_authorize_def Let_def split: option.splits if_splits)
      with Pair st show ?thesis by simp
    next
      case (Inr x)
      with Pair pend [OF st \<open>client_good c\<close>] show ?thesis by simp
    qed
  qed
qed

lemma checked: "triple P (oauth_check r) (\<lambda>_. True)"
  by (simp add: triple_def oauth_check_def)

lemmas steps = triple_bind [OF triple_refuse] triple_bind [OF resolve] triple_bind [OF checked] checked

lemma consent_page:
  "client_good c \<Longrightarrow> triple P (oauth_bind (provider_authorize E c ps ticket now) (\<lambda>(t, ss). oauth_check (Inr (c, t, ss)))) (\<lambda>_. True)"
  by (rule triple_bind [OF authorize]) (auto intro: checked)

lemma authorize_route: "P st \<Longrightarrow> P (snd (get_authorize E fetch q ticket written now st))"
  unfolding get_authorize_def authorize_step_def Let_def
  by (rule triple_answer [where P = P and Q = "\<lambda>_. True"], intro steps)
    (auto split: option.split intro!: steps consent_page)

lemma token_route:
  assumes "minted (oe_tokenHash E refresh)" and "minted (oe_tokenHash E access)"
  shows "P st \<Longrightarrow> P (snd (post_token E fetch f refresh access written now st))"
  unfolding post_token_def token_step_def Let_def
  by (rule triple_answer [where P = P and Q = "\<lambda>_. True"], intro steps)
    (auto intro!: steps exchange_code exchange_refresh assms)

lemma revoke_step: "triple P (revokeToken E t written now) (\<lambda>_. True)"
  using persist dropped by (simp add: triple_def revokeToken_def Let_def)

lemma revoke_route: "P st \<Longrightarrow> P (snd (post_revoke E fetch i token written now st))"
  unfolding post_revoke_def by (rule triple_answer [where P = P and Q = "\<lambda>_. True"]) (intro steps revoke_step)

lemma register_route: "P st \<Longrightarrow> P (snd (post_register E body uuid written now st))"
  unfolding post_register_def by (rule triple_answer [where P = P and Q = "\<lambda>_. True"]) (intro steps register)

lemma verify_route: "P st \<Longrightarrow> P (snd (verifyAccessToken E token now st))"
  using sweep by (auto simp: verifyAccessToken_def Let_def split: option.split)

text \<open>Every route but the consent form keeps the property, as long as the tokens it mints are allowed.\<close>

lemma custody_exec:
  assumes "P st" and "\<And>t u p k. op \<noteq> OpApprove t u p k"
    and "\<And>fetch f refresh access w. op = OpToken fetch f refresh access w \<Longrightarrow> minted (oe_tokenHash E refresh) \<and> minted (oe_tokenHash E access)"
  shows "P (oauth_exec E now op st)"
  using assms register_route authorize_route token_route revoke_route verify_route restart by (cases op) auto

end

section \<open>Tokens come from the owner\<close>

text \<open>The owner's credentials were entered for a request of this client with these scopes, for this resource.\<close>

definition granted :: "oauth_env \<Rightarrow> consent list \<Rightarrow> token_record \<Rightarrow> bool" where
  "granted E cs t = (\<exists>c \<in> set cs. cs_user c = oe_ownerUser E \<and> cs_password c = oe_ownerPassword E \<and> oc_id (cs_client c) = Some (tk_clientId t) \<and>
     (\<exists>ss. ap_scopes (cs_params c) = Some ss \<and> set (tk_scopes t) \<subseteq> set ss \<and> set ss \<subseteq> set SUPPORTED_SCOPES) \<and> tk_resource t = Some (oe_resource E))"

definition asked :: "oauth_env \<Rightarrow> code_record \<Rightarrow> bool" where
  "asked E r = (\<exists>i ss. oc_id (cd_client r) = Some i \<and> ap_scopes (cd_params r) = Some ss \<and> ss \<noteq> [] \<and> set ss \<subseteq> set SUPPORTED_SCOPES \<and>
     ap_resource (cd_params r) \<in> {None, Some (oe_resource E)})"

definition consented :: "oauth_env \<Rightarrow> consent list \<Rightarrow> code_record \<Rightarrow> bool" where
  "consented E cs r = (\<exists>c \<in> set cs. cs_user c = oe_ownerUser E \<and> cs_password c = oe_ownerPassword E \<and> cs_client c = cd_client r \<and> cs_params c = cd_params r)"

definition dynamic_clients :: "oauth_client obj \<Rightarrow> nat" where
  "dynamic_clients m = length (filter (\<lambda>(i, c). \<not> starts_with i ''https://'') m)"

definition clients_ok :: "oauth_client obj \<Rightarrow> bool" where
  "clients_ok m = ((\<forall>(i, c) \<in> set m. oc_id c = Some i) \<and> dynamic_clients m \<le> MAX_DYNAMIC_CLIENTS)"

definition oauth_inv :: "oauth_env \<Rightarrow> consent list \<Rightarrow> oauth_state \<Rightarrow> bool" where
  "oauth_inv E cs st = ((\<forall>(k, r) \<in> set (oa_pending st). asked E r) \<and> (\<forall>(k, r) \<in> set (oa_codes st). asked E r \<and> consented E cs r) \<and>
     (\<forall>(k, t) \<in> set (oa_access st) \<union> set (oa_refresh st). granted E cs t) \<and> clients_ok (oa_clients st) \<and>
     (\<forall>f. oa_file st = Contents f \<longrightarrow> (\<forall>(k, t) \<in> set (of_access f) \<union> set (of_refresh f). granted E cs t) \<and> clients_ok (of_clients f)))"

lemmas obj_members = set_obj_put [THEN subsetD] set_obj_del

lemma set_live [simp]: "set (live_tokens now ts) \<subseteq> set ts" "set (live_codes now cs) \<subseteq> set cs"
  by (auto simp: live_tokens_def live_codes_def)

lemma dynamic_clients_put:
  "dynamic_clients (obj_put i c m) \<le> Suc (dynamic_clients m)" "starts_with i ''https://'' \<Longrightarrow> dynamic_clients (obj_put i c m) = dynamic_clients m"
proof -
  have "map fst (filter (\<lambda>(i, c). \<not> starts_with i ''https://'') (map (\<lambda>(k', v'). if k' = i then (k', c) else (k', v')) m)) =
      map fst (filter (\<lambda>(i, c). \<not> starts_with i ''https://'') m)"
    by (induction m) (auto split: if_splits)
  from this [THEN arg_cong, of length]
  show "dynamic_clients (obj_put i c m) \<le> Suc (dynamic_clients m)" "starts_with i ''https://'' \<Longrightarrow> dynamic_clients (obj_put i c m) = dynamic_clients m"
    by (auto simp: dynamic_clients_def obj_put_def)
qed

lemma consent_mono: "granted E cs t \<Longrightarrow> granted E (xs @ cs) t" "consented E cs r \<Longrightarrow> consented E (xs @ cs) r"
  by (auto simp: granted_def consented_def)

lemma oauth_inv_mono: "oauth_inv E cs st \<Longrightarrow> oauth_inv E (xs @ cs) st"
  unfolding oauth_inv_def using consent_mono by fast

lemma oauth_inv_put:
  assumes "oauth_inv E cs st"
  shows "granted E cs t \<Longrightarrow> oauth_inv E cs (st\<lparr>oa_access := obj_put h t (oa_access st)\<rparr>)"
    and "granted E cs t \<Longrightarrow> oauth_inv E cs (st\<lparr>oa_refresh := obj_put h t (oa_refresh st)\<rparr>)"
    and "asked E r \<Longrightarrow> oauth_inv E cs (st\<lparr>oa_pending := obj_put k r (oa_pending st)\<rparr>)"
    and "asked E r \<Longrightarrow> consented E cs r \<Longrightarrow> oauth_inv E cs (st\<lparr>oa_codes := obj_put k r (oa_codes st)\<rparr>)"
    and "oauth_inv E cs (st\<lparr>oa_codes := obj_del k (oa_codes st)\<rparr>)"
    and "oauth_inv E cs (st\<lparr>oa_pending := obj_del k (oa_pending st)\<rparr>)"
    and "oauth_inv E cs (st\<lparr>oa_access := obj_del h (oa_access st), oa_refresh := obj_del h (oa_refresh st)\<rparr>)"
    and "clients_ok m \<Longrightarrow> oauth_inv E cs (st\<lparr>oa_clients := m\<rparr>)"
  using assms unfolding oauth_inv_def by (auto simp: set_obj_del dest!: set_obj_put [THEN subsetD])

lemma oauth_inv_sweep: "oauth_inv E cs st \<Longrightarrow> oauth_inv E cs (oauth_sweep now st)"
  unfolding oauth_inv_def oauth_sweep_def using set_live by (fastforce simp: live_tokens_def live_codes_def)

lemma oauth_inv_restart: "oauth_inv E cs st \<Longrightarrow> oauth_inv E cs (oauth_initialize now st)"
  unfolding oauth_initialize_def Let_def
  by (rule oauth_inv_sweep)
    (auto simp: oauth_inv_def empty_oauth_file_def clients_ok_def dynamic_clients_def split: stored.splits)

text \<open>Everything the routes do, consent aside, keeps the invariant.\<close>

interpretation owner: oauth_custody E "oauth_inv E cs" "\<lambda>c. oc_uris c \<noteq> None \<longrightarrow> (\<exists>i. oc_id c = Some i)" "\<lambda>_. True" for E cs
proof (unfold_locales, goal_cases)
  case (1 st now)
  then show ?case by (rule oauth_inv_sweep)
next
  case (2 st)
  then show ?case by (auto simp: oauth_inv_def)
next
  case (3 st i c)
  then show ?case by (auto simp: oauth_inv_def clients_ok_def getClient_def inherited_member_def dest!: map_of_SomeD split: option.splits if_splits)
next
  case (4 st i c)
  from 4(1) have "clients_ok (oa_clients st)" by (simp add: oauth_inv_def)
  moreover have "dynamic_clients (obj_put i c (oa_clients st)) \<le> MAX_DYNAMIC_CLIENTS"
    using 4(2) \<open>clients_ok (oa_clients st)\<close> dynamic_clients_put [of i c "oa_clients st"]
    by (auto simp: dynamicClientCount_def dynamic_clients_def clients_ok_def)
  ultimately have "clients_ok (obj_put i c (oa_clients st))"
    using 4(3) by (fastforce simp: clients_ok_def dest: set_obj_put [THEN subsetD])
  with 4 show ?case by (auto intro: oauth_inv_put)
next
  case (5 st c ps ticket now x st')
  then show ?case
    by (auto simp: provider_authorize_def Let_def given_scopes_def DEFAULT_AUTHORIZATION_SCOPES_def asked_def split: option.splits if_splits intro!: oauth_inv_put)
next
  case (6 st c refresh access k now r expR expA)
  from 6(5) have k: "(k, r) \<in> set (oa_codes st)" and c: "oc_id (cd_client r) = oc_id c"
    by (auto simp: find_code_def dest: map_of_SomeD split: option.splits if_splits)
  from k 6(1) have a: "asked E r" and s: "consented E cs r" by (auto simp: oauth_inv_def)
  from a have "(case given (ap_resource (cd_params r)) of Some x \<Rightarrow> x | None \<Rightarrow> oe_resource E) = oe_resource E"
    by (auto simp: asked_def given_def)
  with a s c have g: "granted E cs \<lparr>tk_clientId = client_key c, tk_scopes = given_scopes (ap_scopes (cd_params r)) DEFAULT_AUTHORIZATION_SCOPES,
      tk_expiresAt = e, tk_resource = Some (case given (ap_resource (cd_params r)) of Some x \<Rightarrow> x | None \<Rightarrow> oe_resource E)\<rparr>" for e
    by (fastforce simp: granted_def consented_def asked_def given_scopes_def client_key_def)
  show ?case
    using oauth_inv_put(1) [OF oauth_inv_put(2) [OF oauth_inv_put(5) [OF 6(1)] g] g] by simp
next
  case (7 st access h t c requested expA)
  from 7(1,3) have "granted E cs t" by (auto simp: oauth_inv_def dest: map_of_SomeD)
  then have "granted E cs \<lparr>tk_clientId = client_key c, tk_scopes = requested, tk_expiresAt = expA,
      tk_resource = Some (case given (tk_resource t) of Some x \<Rightarrow> x | None \<Rightarrow> oe_resource E)\<rparr>"
    using 7(4,5) by (fastforce simp: granted_def client_key_def given_def split: option.splits)
  with 7(1) show ?case by (rule oauth_inv_put(1))
next
  case (8 st h)
  then show ?case by (rule oauth_inv_put(7))
next
  case (9 st now)
  then show ?case by (rule oauth_inv_restart)
qed

text \<open>The consent form changes nothing, or turns its ticket into a code.\<close>

lemma approve_effect:
  "(oauth_exec E now (OpApprove t u p k) st = st) \<or>
   (\<exists>r. map_of (oa_pending st) (form_text t) = Some r \<and> form_text u = oe_ownerUser E \<and> form_text p = oe_ownerPassword E \<and>
     oauth_exec E now (OpApprove t u p k) st = st\<lparr>oa_pending := obj_del (form_text t) (oa_pending st),
       oa_codes := obj_put k \<lparr>cd_client = cd_client r, cd_params = cd_params r, cd_expiresAt = now + 5 * 60 * 1000\<rparr> (oa_codes st)\<rparr>)"
proof (cases "map_of (oa_pending st) (form_text t)")
  case (Some r)
  then show ?thesis
    by (cases "cd_expiresAt r < now \<or> form_text u \<noteq> oe_ownerUser E \<or> form_text p \<noteq> oe_ownerPassword E")
      (auto simp: post_approve_def oauth_answer_def provider_approve_def Let_def split: option.split)
qed (simp add: post_approve_def oauth_answer_def provider_approve_def)

lemma approve_keeps:
  assumes "oauth_inv E cs st"
  shows "oauth_inv E (consents (OpApprove t u p k) st @ cs) (oauth_exec E now (OpApprove t u p k) st)"
  using approve_effect [of E now t u p k st]
proof (elim disjE exE conjE)
  fix r :: code_record
  let ?cs = "consents (OpApprove t u p k) st @ cs"
  let ?new = "\<lparr>cd_client = cd_client r, cd_params = cd_params r, cd_expiresAt = now + 5 * 60 * 1000\<rparr>"
  assume r: "map_of (oa_pending st) (form_text t) = Some r" "form_text u = oe_ownerUser E" "form_text p = oe_ownerPassword E"
    and e: "oauth_exec E now (OpApprove t u p k) st = st\<lparr>oa_pending := obj_del (form_text t) (oa_pending st), oa_codes := obj_put k ?new (oa_codes st)\<rparr>"
  from r assms have "asked E ?new" by (auto simp: oauth_inv_def asked_def dest!: map_of_SomeD)
  moreover from r have "consented E ?cs ?new" by (simp add: consented_def)
  ultimately show ?thesis
    using oauth_inv_put(4) [OF oauth_inv_put(6) [OF oauth_inv_mono [OF assms]], of ?new] unfolding e by simp
qed (simp only: oauth_inv_mono [OF assms])

lemma oauth_reach_inv: "oauth_reach E cs st \<Longrightarrow> oauth_inv E cs st"
proof (induction rule: oauth_reach.induct)
  case start
  show ?case by (simp add: oauth_inv_def empty_oauth_def clients_ok_def dynamic_clients_def)
next
  case (step cs st op now)
  show ?case
  proof (cases "\<exists>t u p k. op = OpApprove t u p k")
    case True
    with step.IH show ?thesis using approve_keeps by blast
  next
    case False
    then have "consents op st = []" by (cases op) auto
    with owner.custody_exec [OF step.IH] False show ?thesis by auto
  qed
qed

text \<open>
  C34: Every token comes from the owner. In every state the provider can reach, through any sequence of
  requests, restarts and failed writes, an access token that verifies is unexpired and was granted: the owner's
  name and password were entered on the consent form for a request of that same client, the scopes of the token
  are among the scopes of that request, all of them supported, and the token is for this resource. Refreshing
  never adds a scope.
\<close>

theorem tokens_need_owner_consent:
  assumes "oauth_reach E cs st" and "verifyAccessToken E token now st = (Inr t, st')"
  shows "granted E cs t \<and> (\<exists>t0. (oe_tokenHash E token, t0) \<in> set (oa_access st) \<and> now \<le> tk_expiresAt t0)"
proof -
  from assms(2) obtain t0 where t0: "map_of (live_tokens now (oa_access st)) (oe_tokenHash E token) = Some t0"
    and t: "t = t0\<lparr>tk_expiresAt := tk_expiresAt t0 div 1000, tk_resource := (case given (tk_resource t0) of Some r \<Rightarrow> Some r | None \<Rightarrow> Some (oe_resource E))\<rparr>"
    by (auto simp: verifyAccessToken_def oauth_sweep_def Let_def split: option.splits if_splits)
  then have live: "now \<le> tk_expiresAt t0" by (auto simp: live_tokens_def dest: map_of_SomeD)
  from oauth_reach_inv [OF assms(1)] have inv: "oauth_inv E cs (oauth_sweep now st)" by (rule oauth_inv_sweep)
  from t0 inv have "granted E cs t0" by (auto simp: oauth_inv_def oauth_sweep_def dest: map_of_SomeD)
  then have "granted E cs t" by (auto simp: t granted_def given_def split: option.splits)
  moreover from t0 have "(oe_tokenHash E token, t0) \<in> set (oa_access st)"
    by (auto simp: live_tokens_def dest: map_of_SomeD)
  ultimately show ?thesis using live by blast
qed

text \<open>
  At most 256 clients can register themselves, whatever sequence of requests and restarts leads to the state.
\<close>

theorem dynamic_clients_bounded:
  assumes "oauth_reach E cs st"
  shows "dynamicClientCount st \<le> 256"
  using oauth_reach_inv [OF assms] by (simp add: oauth_inv_def clients_ok_def dynamicClientCount_def dynamic_clients_def MAX_DYNAMIC_CLIENTS_def)

section \<open>Codes and revocation\<close>

text \<open>A code that is gone stays gone, whatever the routes do.\<close>

interpretation spent: oauth_custody E "\<lambda>st. k \<notin> fst ` set (oa_codes st)" "\<lambda>_. True" "\<lambda>_. True" for E k
proof (unfold_locales, goal_cases)
  case (1 st now)
  then show ?case by (auto simp: oauth_sweep_def live_codes_def)
next
  case (5 st c ps ticket now x st')
  then show ?case by (auto simp: provider_authorize_def Let_def split: option.splits if_splits)
next
  case (9 st now)
  then show ?case by (auto simp: oauth_initialize_def oauth_sweep_def live_codes_def Let_def)
qed (auto simp: set_obj_del)

lemma spent_run:
  assumes "k \<notin> fst ` set (oa_codes st)" and "\<forall>(now, op) \<in> set ops. \<forall>t u p. op \<noteq> OpApprove t u p k"
  shows "k \<notin> fst ` set (oa_codes (oauth_run E ops st))"
  using assms
proof (induction ops arbitrary: st)
  case (Cons o1 ops)
  obtain now op where o1: "o1 = (now, op)" by (cases o1)
  have "k \<notin> fst ` set (oa_codes (oauth_exec E now op st))"
  proof (cases "\<exists>t u p k'. op = OpApprove t u p k'")
    case True
    then obtain t u p k' where op: "op = OpApprove t u p k'" by blast
    with Cons.prems(2) o1 have "k' \<noteq> k" by auto
    with approve_effect [of E now t u p k' st] Cons.prems(1) show ?thesis unfolding op by (auto dest!: set_obj_put [THEN subsetD])
  next
    case False
    with Cons.prems(1) show ?thesis by (intro spent.custody_exec) auto
  qed
  with Cons.IH Cons.prems(2) show ?case by (simp add: oauth_run_def o1)
qed (simp add: oauth_run_def)

text \<open>
  C35: An authorization code buys tokens once, for the client it was issued to and the holder of the PKCE
  verifier. When an exchange succeeds the code was live and issued to this client, the verifier hashes to the
  challenge of the request, and a redirect URI that is given is the one of the request; after it, no exchange
  of that code succeeds again, in any later run in which the consent form does not mint the same code anew.
\<close>

theorem code_is_single_use:
  assumes "exchangeAuthorizationCode E c k verifier uri resource refresh access written now st = (Inr t, st')"
    and "\<forall>(now, op) \<in> set ops. \<forall>t u p. op \<noteq> OpApprove t u p k"
  shows "\<exists>r v. map_of (oa_codes st) k = Some r \<and> now \<le> cd_expiresAt r \<and> oc_id (cd_client r) = oc_id c \<and> verifier = Some v \<and>
     oe_challenge E v = ap_codeChallenge (cd_params r) \<and> (\<forall>u. given uri = Some u \<longrightarrow> u = ap_redirectUri (cd_params r)) \<and>
     fst (exchangeAuthorizationCode E c2 k v2 uri2 res2 f2 a2 w2 now2 (oauth_run E ops st')) = Inl (OAuthFault InvalidGrant ''authorization code is invalid or expired'')"
proof -
  from assms(1) obtain r where f: "find_code c k now st = Some r"
    by (cases "find_code c k now st") (auto simp: exchangeAuthorizationCode_def)
  from assms(1) f obtain v where v: "given verifier = Some v"
    by (cases "given verifier") (auto simp: exchangeAuthorizationCode_def)
  let ?x = "case given (ap_resource (cd_params r)) of Some x \<Rightarrow> x | None \<Rightarrow> oe_resource E"
  from assms(1) have e: "oe_challenge E v = ap_codeChallenge (cd_params r)" "\<forall>u. given uri = Some u \<longrightarrow> u = ap_redirectUri (cd_params r)"
    and i: "issueTokens E c (given_scopes (ap_scopes (cd_params r)) DEFAULT_AUTHORIZATION_SCOPES) ?x refresh access written now
      (st\<lparr>oa_codes := obj_del k (oa_codes st)\<rparr>) = (Inr t, st')"
    by (auto simp: exchangeAuthorizationCode_def f v Let_def split: if_splits option.splits)
  from i have "k \<notin> fst ` set (oa_codes st')"
    by (auto simp: issueTokens_def issueAccessToken_def oauth_persist_def oauth_sweep_def live_codes_def set_obj_del Let_def split: if_splits)
  then have "find_code c2 k now2 (oauth_run E ops st') = None"
    using spent_run [OF _ assms(2)] unfolding find_code_def by (metis (no_types, lifting) image_eqI map_of_SomeD not_None_eq option.simps(4) fst_conv)
  moreover from f have "map_of (oa_codes st) k = Some r" "now \<le> cd_expiresAt r" "oc_id (cd_client r) = oc_id c"
    by (auto simp: find_code_def split: option.splits if_splits)
  moreover from v have "verifier = Some v" by (auto simp: given_def split: option.splits if_splits)
  ultimately show ?thesis using e by (auto simp: exchangeAuthorizationCode_def)
qed

definition token_gone :: "string \<Rightarrow> oauth_state \<Rightarrow> bool" where
  "token_gone h st = (h \<notin> fst ` set (oa_access st) \<and> h \<notin> fst ` set (oa_refresh st) \<and>
     (\<forall>f. oa_file st = Contents f \<longrightarrow> h \<notin> fst ` set (of_access f) \<and> h \<notin> fst ` set (of_refresh f)))"

interpretation revoked: oauth_custody E "token_gone h" "\<lambda>_. True" "\<lambda>h'. h' \<noteq> h" for E h
proof (unfold_locales, goal_cases)
  case (1 st now)
  then show ?case by (auto simp: token_gone_def oauth_sweep_def live_tokens_def)
next
  case (5 st c ps ticket now x st')
  then show ?case by (auto simp: token_gone_def provider_authorize_def Let_def split: option.splits if_splits)
next
  case (9 st now)
  then show ?case by (auto simp: token_gone_def oauth_initialize_def oauth_sweep_def live_tokens_def empty_oauth_file_def Let_def split: stored.splits)
qed (auto simp: token_gone_def set_obj_del fst_obj_put)

lemma revoked_run:
  assumes "token_gone h st"
    and "\<forall>(now, op) \<in> set ops. \<forall>fetch f r a w. op = OpToken fetch f r a w \<longrightarrow> oe_tokenHash E r \<noteq> h \<and> oe_tokenHash E a \<noteq> h"
  shows "token_gone h (oauth_run E ops st)"
  using assms
proof (induction ops arbitrary: st)
  case (Cons o1 ops)
  obtain now op where o1: "o1 = (now, op)" by (cases o1)
  have "token_gone h (oauth_exec E now op st)"
  proof (cases "\<exists>t u p k'. op = OpApprove t u p k'")
    case True
    then obtain t u p k' where op: "op = OpApprove t u p k'" by blast
    from approve_effect [of E now t u p k' st] Cons.prems(1) show ?thesis unfolding op by (auto simp: token_gone_def)
  next
    case False
    with Cons.prems o1 show ?thesis by (intro revoked.custody_exec) auto
  qed
  with Cons.IH Cons.prems(2) show ?case by (simp add: oauth_run_def o1)
qed (simp add: oauth_run_def)

lemma oauth_bind_Inr: "oauth_bind f k st = (Inr y, st') \<longleftrightarrow> (\<exists>x st1. f st = (Inr x, st1) \<and> k x st1 = (Inr y, st'))"
  by (auto simp: oauth_bind_def split: prod.splits sum.splits)

lemma post_revoke_Revoked:
  assumes "post_revoke E fetch i token written now st = (Revoked, st')"
  shows "token_gone (oe_tokenHash E (form_text token)) st'"
proof -
  from assms have "fst (post_revoke E fetch i token written now st) = Revoked" "snd (post_revoke E fetch i token written now st) = st'" by simp_all
  then obtain st1 where "revokeToken E (form_text token) written now st1 = (Inr (), st')"
    unfolding post_revoke_def oauth_answer_def
    by (auto simp: fault_json_def oauth_bind_Inr oauth_refuse_def split: prod.splits sum.splits oauth_error.splits)
  then show ?thesis
    by (auto simp: revokeToken_def oauth_persist_def oauth_sweep_def live_tokens_def token_gone_def set_obj_del Let_def split: if_splits)
qed

text \<open>
  C36: A revoked token stays revoked. After the revoke route has answered success, no later access check accepts
  the token and no refresh with it succeeds, through any run of requests and restarts that does not mint a token
  with the same hash.
\<close>

theorem revoked_token_stays_revoked:
  assumes "post_revoke E fetch i (One token) written now st = (Revoked, st')"
    and "\<forall>(now, op) \<in> set ops. \<forall>fetch f r a w. op = OpToken fetch f r a w \<longrightarrow>
           oe_tokenHash E r \<noteq> oe_tokenHash E token \<and> oe_tokenHash E a \<noteq> oe_tokenHash E token"
  shows "fst (verifyAccessToken E token now' (oauth_run E ops st')) = Inl (OAuthFault InvalidToken ''invalid or expired access token'') \<and>
     fst (exchangeRefreshToken E c token scopes resource access written' now' (oauth_run E ops st')) =
       Inl (OAuthFault InvalidGrant ''refresh token is invalid, expired, or revoked'')"
proof -
  let ?h = "oe_tokenHash E token" and ?s = "oauth_run E ops st'"
  have "token_gone ?h ?s" using revoked_run [OF _ assms(2)] post_revoke_Revoked [OF assms(1)] by simp
  then have "map_of (oa_refresh ?s) ?h = None" "map_of (live_tokens now' (oa_access ?s)) ?h = None"
    by (auto simp: token_gone_def map_of_eq_None_iff live_tokens_def)
  then show ?thesis by (simp add: verifyAccessToken_def exchangeRefreshToken_def oauth_sweep_def Let_def)
qed

text \<open>Revoking a refresh token leaves the access tokens that came with it.\<close>

theorem revocation_keeps_sibling_tokens:
  assumes "revokeToken E token True now st = (Inr (), st')" and "map_of (oa_access st) (oe_tokenHash E sibling) = Some t"
    and "oe_tokenHash E sibling \<noteq> oe_tokenHash E token" and "now \<le> tk_expiresAt t" and "now' \<le> tk_expiresAt t"
  shows "\<exists>t' st''. verifyAccessToken E sibling now' st' = (Inr t', st'')"
proof -
  have keep: "map_of m k = Some r \<Longrightarrow> P (k, r) \<Longrightarrow> map_of (filter P m) k = Some r" for m :: "token_record obj" and k r P
    by (induction m) auto
  from assms have "map_of (oa_access st') (oe_tokenHash E sibling) = Some t"
    by (auto simp: revokeToken_def oauth_persist_def oauth_sweep_def live_tokens_def Let_def map_of_obj_del intro!: keep)
  then have "map_of (live_tokens now' (oa_access st')) (oe_tokenHash E sibling) = Some t"
    unfolding live_tokens_def using assms(5) by (intro keep) auto
  with assms(5) show ?thesis by (simp add: verifyAccessToken_def oauth_sweep_def Let_def)
qed

text \<open>An error of the authorize route is sent to whatever URI the request names, registered or not.\<close>

theorem unregistered_redirect_is_followed:
  assumes "aq_redirectUri q = One uri" and "uri \<noteq> []" and "oe_url E uri = Some u" and "form_text (aq_clientId q) = i" and "i \<noteq> []"
    and "map_of (oa_clients st) i = Some c" and "oc_uris c = Some uris" and "uri \<notin> set uris"
  shows "get_authorize E fetch q ticket written now st = (ErrorRedirect (ur_text u) InvalidGrant (given (form_string (aq_state q))) (oe_issuer E), st)"
  using assms by (simp add: get_authorize_def authorize_step_def oauth_answer_def oauth_bind_def oauth_refuse_def resolveClient_def getClient_def
      given_def authorizeError_def Let_def)

section \<open>The rate limiter's store\<close>

fun window_run :: "(string \<times> int) list \<Rightarrow> window_store \<Rightarrow> int list \<times> window_store" where
  "window_run [] w = ([], w)"
| "window_run ((k, now) # es) w = (let (n, w1) = window_increment k now w; (ns, w2) = window_run es w1 in (n # ns, w2))"

definition hits_of :: "string \<Rightarrow> window_store \<Rightarrow> int" where
  "hits_of k w = (case map_of (ws_hits w) k of Some n \<Rightarrow> n | None \<Rightarrow> 0)"

definition admitted :: "string \<Rightarrow> int \<Rightarrow> (string \<times> int) list \<Rightarrow> int list \<Rightarrow> nat" where
  "admitted k limit es ns = length (filter (\<lambda>((k', t), n). k' = k \<and> n \<le> limit) (zip es ns))"

lemma window_increment_effect:
  assumes "now < ws_resetAt w" and "window_increment k now w = (n, w1)"
  shows "ws_resetAt w1 = ws_resetAt w \<and> ws_maxKeys w1 = ws_maxKeys w \<and> (k' \<noteq> k \<longrightarrow> hits_of k' w1 = hits_of k' w) \<and>
     (n = 9007199254740991 \<and> w1 = w \<or> n = hits_of k w + 1 \<and> hits_of k w1 = n) \<and>
     (length (ws_hits w) \<le> ws_maxKeys w \<longrightarrow> length (ws_hits w1) \<le> ws_maxKeys w1)"
proof -
  have l: "length (obj_put k v m) = (if map_of m k = None then Suc (length m) else length m)" for v and m :: "int obj"
    by (simp add: obj_put_def map_of_eq_None_iff)
  from assms show ?thesis
    by (auto simp: window_increment_def window_roll_def hits_of_def map_of_obj_put l Let_def split: option.splits if_splits)
qed

text \<open>
  The bounded window store of the rate limiter is exact and bounded: within one window, of all the requests
  of one client at most the limit are told a count within the limit, however they interleave with others, and
  the number of keys kept never exceeds the ceiling.
\<close>

theorem window_store_limits:
  assumes "\<forall>(k', now) \<in> set es. now < ws_resetAt w" and "window_run es w = (ns, w')" and "limit < 9007199254740991"
    and "length (ws_hits w) \<le> ws_maxKeys w"
  shows "int (admitted k limit es ns) \<le> max 0 (limit - hits_of k w) \<and> length (ws_hits w') \<le> ws_maxKeys w'"
  using assms
proof (induction es arbitrary: w ns)
  case (Cons e es)
  obtain k1 now where e: "e = (k1, now)" by (cases e)
  obtain n w1 where i: "window_increment k1 now w = (n, w1)" by (cases "window_increment k1 now w")
  obtain ns1 where r: "window_run es w1 = (ns1, w')" and ns: "ns = n # ns1"
    using Cons.prems(2) by (auto simp: e i Let_def split: prod.splits)
  have "now < ws_resetAt w" using Cons.prems(1) e by simp
  note eff = window_increment_effect [OF this i, of k]
  have IH: "int (admitted k limit es ns1) \<le> max 0 (limit - hits_of k w1) \<and> length (ws_hits w') \<le> ws_maxKeys w'"
    using Cons.IH [of w1 ns1] Cons.prems r eff by auto
  have step: "admitted k limit (e # es) ns = (if k1 = k \<and> n \<le> limit then 1 else 0) + admitted k limit es ns1"
    by (simp add: admitted_def ns e)
  show ?case
  proof (cases "k1 = k")
    case True
    then show ?thesis using IH step eff Cons.prems(3) by auto
  next
    case False
    with IH step eff show ?thesis by auto
  qed
qed (simp add: admitted_def)

section \<open>The claims on a sample deployment\<close>

definition sample_oauth :: oauth_env where
  "sample_oauth = \<lparr>oe_ownerUser = ''owner'', oe_ownerPassword = ''secret'', oe_resource = ''https://dex.example/mcp'', oe_issuer = ''https://dex.example/'',
     oe_accessMs = 3600000, oe_refreshMs = 86400000, oe_tokenHash = (\<lambda>s. ''#'' @ s), oe_challenge = (\<lambda>s. ''S'' @ s),
     oe_url = (\<lambda>s. Some \<lparr>ur_text = s, ur_protocol = ''https:'', ur_hostname = ''dex.example''\<rparr>)\<rparr>"

definition sample_query :: authorize_query where
  "sample_query = \<lparr>aq_clientId = One ''c1'', aq_redirectUri = One ''https://app.example/cb'', aq_state = One ''xyz'', aq_responseType = One ''code'',
     aq_challengeMethod = One ''S256'', aq_codeChallenge = One ''Sv1'', aq_resource = Missing, aq_scope = One ''mcp:tools offline_access''\<rparr>"

definition sample_token_form :: token_form where
  "sample_token_form = \<lparr>tf_grantType = One ''authorization_code'', tf_clientId = One ''c1'', tf_resource = Missing, tf_code = One ''k1'', tf_verifier = One ''v1'',
     tf_redirectUri = One ''https://app.example/cb'', tf_refreshToken = Missing, tf_scope = Missing\<rparr>"

definition sample_requests :: "(int \<times> oauth_op) list" where
  "sample_requests =
     [(1000, OpRegister (JObj [(''redirect_uris'', JArr [JStr ''https://app.example/cb''])]) ''c1'' True),
      (2000, OpAuthorize (\<lambda>_. FetchThrows) sample_query ''t1'' True),
      (3000, OpApprove (One ''t1'') (One ''owner'') (One ''secret'') ''k1'')]"

definition sample_exchange :: "(int \<times> oauth_op) list" where
  "sample_exchange = [(4000, OpToken (\<lambda>_. FetchThrows) sample_token_form ''r1'' ''a1'' True)]"

definition sample_signed_in :: oauth_state where
  "sample_signed_in = oauth_run sample_oauth (sample_requests @ sample_exchange @ [(5000, OpRestart)]) empty_oauth"

lemma run_is_reachable: "\<exists>cs. oauth_reach E cs (oauth_run E ops empty_oauth)"
proof (induction ops rule: rev_induct)
  case (snoc e ops)
  obtain now op where e: "e = (now, op)" by (cases e)
  from snoc obtain cs where "oauth_reach E cs (oauth_run E ops empty_oauth)" by blast
  from oauth_reach.step [OF this, of op now] show ?case by (auto simp: oauth_run_def e)
qed (auto simp: oauth_run_def intro: oauth_reach.start)

theorem tokens_need_owner_consent_witness:
  "\<exists>cs t. oauth_reach sample_oauth cs sample_signed_in \<and> fst (verifyAccessToken sample_oauth ''a1'' 6000 sample_signed_in) = Inr t \<and>
     tk_scopes t = [''mcp:tools'', ''offline_access''] \<and> granted sample_oauth cs t"
proof -
  obtain cs where r: "oauth_reach sample_oauth cs sample_signed_in" using run_is_reachable unfolding sample_signed_in_def by blast
  let ?v = "verifyAccessToken sample_oauth ''a1'' 6000 sample_signed_in"
  have "(case fst ?v of Inr t \<Rightarrow> tk_scopes t = [''mcp:tools'', ''offline_access''] | Inl _ \<Rightarrow> False)" by code_simp
  then obtain t where t: "fst ?v = Inr t" "tk_scopes t = [''mcp:tools'', ''offline_access'']" by (auto split: sum.splits)
  then have "?v = (Inr t, snd ?v)" by (cases ?v) simp
  from tokens_need_owner_consent [OF r this] r t show ?thesis by blast
qed

theorem dynamic_clients_bounded_witness: "dynamicClientCount sample_signed_in \<le> 256 \<and> dynamicClientCount sample_signed_in = 1"
proof (rule conjI)
  obtain cs where "oauth_reach sample_oauth cs sample_signed_in" using run_is_reachable unfolding sample_signed_in_def by blast
  from dynamic_clients_bounded [OF this] show "dynamicClientCount sample_signed_in \<le> 256" .
  show "dynamicClientCount sample_signed_in = 1" by code_simp
qed

definition sample_client :: oauth_client where
  "sample_client = \<lparr>oc_id = Some ''c1'', oc_name = None, oc_uris = Some [''https://app.example/cb''], oc_grants = JNull, oc_responses = JNull\<rparr>"

theorem code_is_single_use_witness:
  "\<exists>t st'. exchangeAuthorizationCode sample_oauth sample_client ''k1'' (Some ''v1'') None None ''r1'' ''a1'' True 4000 (oauth_run sample_oauth sample_requests empty_oauth) = (Inr t, st') \<and>
     fst (exchangeAuthorizationCode sample_oauth sample_client ''k1'' (Some ''v1'') None None ''r2'' ''a2'' True 4100 (oauth_run sample_oauth [(4050, OpRestart)] st')) =
       Inl (OAuthFault InvalidGrant ''authorization code is invalid or expired'')"
proof -
  let ?v = "exchangeAuthorizationCode sample_oauth sample_client ''k1'' (Some ''v1'') None None ''r1'' ''a1'' True 4000 (oauth_run sample_oauth sample_requests empty_oauth)"
  have "(case fst ?v of Inr t \<Rightarrow> ot_access t = ''a1'' | Inl _ \<Rightarrow> False)" by code_simp
  then obtain t where "fst ?v = Inr t" by (auto split: sum.splits)
  then have v: "?v = (Inr t, snd ?v)" by (cases ?v) simp
  from code_is_single_use [OF v, of "[(4050, OpRestart)]" sample_client "Some ''v1''" None None "''r2''" "''a2''" True 4100] v show ?thesis by auto
qed

theorem revoked_token_stays_revoked_witness:
  "\<exists>st'. post_revoke sample_oauth (\<lambda>_. FetchThrows) (One ''c1'') (One ''a1'') True 6000 sample_signed_in = (Revoked, st') \<and>
     fst (verifyAccessToken sample_oauth ''a1'' 8000 (oauth_run sample_oauth [(7000, OpRestart), (7500, OpVerify ''a1'')] st')) =
       Inl (OAuthFault InvalidToken ''invalid or expired access token'')"
proof -
  let ?v = "post_revoke sample_oauth (\<lambda>_. FetchThrows) (One ''c1'') (One ''a1'') True 6000 sample_signed_in"
  have "fst ?v = Revoked" by code_simp
  then have v: "?v = (Revoked, snd ?v)" by (cases ?v) simp
  from revoked_token_stays_revoked [OF v, of "[(7000, OpRestart), (7500, OpVerify ''a1'')]"] v show ?thesis by auto
qed

theorem window_store_limits_witness:
  "\<exists>ns w'. window_run [(''ip1'', 10), (''ip2'', 20), (''ip1'', 30), (''ip1'', 40)] ((new_window_store 2)\<lparr>ws_resetAt := 60000\<rparr>) = (ns, w') \<and> ns = [1, 1, 2, 3] \<and>
     int (admitted ''ip1'' 2 [(''ip1'', 10), (''ip2'', 20), (''ip1'', 30), (''ip1'', 40)] ns) \<le> 2 \<and> length (ws_hits w') \<le> 2"
proof -
  let ?es = "[(''ip1'', 10), (''ip2'', 20), (''ip1'', 30), (''ip1'', 40)]" and ?w = "((new_window_store 2)\<lparr>ws_resetAt := 60000\<rparr>)"
  obtain ns w' where r: "window_run ?es ?w = (ns, w')" by fastforce
  have "fst (window_run ?es ?w) = [1, 1, 2, 3]" by code_simp
  with r have ns: "ns = [1, 1, 2, 3]" by simp
  have w: "ws_maxKeys w' = 2"
  proof -
    have "ws_maxKeys (snd (window_run ?es ?w)) = 2" by code_simp
    with r show ?thesis by simp
  qed
  have "int (admitted ''ip1'' 2 ?es ns) \<le> max 0 (2 - hits_of ''ip1'' ?w) \<and> length (ws_hits w') \<le> ws_maxKeys w'"
    by (rule window_store_limits [OF _ r]) (simp_all add: new_window_store_def)
  with r ns w show ?thesis by (auto simp: hits_of_def new_window_store_def)
qed

end
