(* ===== verification/Reach_Secrets.thy ===== *)
theory Reach_Secrets
  imports Reach_Security "HOL-Library.AList" "HOL-Library.List_Lexorder"
begin

text \<open>
  The secret broker, \<open>src/src/shared/secrets.ts\<close>: the node-local store of named values, its operations, the
  resolution of the aliases a request names, and the scrubbing of values from what a command prints. The
  checks of a request by profile and operation are in \<open>Reach_Security\<close>.

  The file is a \<open>json stored\<close>; the clock, the random key of a fresh store and the keyed hash are the parameter
  of type \<open>secret_env\<close>. Aliases hold lower-case letters, digits and hyphens only, on which the collation of
  \<open>localeCompare\<close> is the order of the codes. Not modelled is \<open>scrubSecretsDeep\<close>, which nothing calls.
\<close>

section \<open>The store\<close>

record stored_secret =
  ss_alias :: string
  ss_env :: string
  ss_value :: string
  ss_createdAt :: timestamp
  ss_updatedAt :: timestamp

record secret_store =
  sf_fingerprintKey :: string
  sf_secrets :: "stored_secret list"

record secret_env =
  se_key :: string
  se_now :: int
  se_hmac :: "string \<Rightarrow> string \<Rightarrow> string"

datatype secret_error =
    StoreCorrupt
  | BadAlias
  | BadEnvName
  | ForbiddenEnvName string
  | EmptyValue
  | MultilineValue
  | ShortValue
  | AliasesNotArray
  | BadAliasInRequest json
  | NoSuchAlias string

definition ENV_NAME :: "string \<Rightarrow> bool" where
  "ENV_NAME s = (case s of [] \<Rightarrow> False
    | c # r \<Rightarrow> is_upper c \<and> length r \<le> 63 \<and> list_all (\<lambda>d. is_upper d \<or> is_digit d \<or> d = CHR ''_'') r)"

definition ALIAS_NAME :: "string \<Rightarrow> bool" where
  "ALIAS_NAME s = (case s of [] \<Rightarrow> False
    | c # r \<Rightarrow> is_lower c \<and> length r \<le> 63 \<and> list_all (\<lambda>d. is_lower d \<or> is_digit d \<or> d = CHR ''-'') r)"

definition FORBIDDEN_ENV :: "string \<Rightarrow> bool" where
  "FORBIDDEN_ENV s =
     (s \<in> set [''PATH'', ''HOME'', ''SHELL'', ''IFS'', ''ENV'', ''BASH_ENV'', ''NODE_OPTIONS'', ''PYTHONPATH'', ''PERL5LIB''] \<or>
      list_ex (\<lambda>p. starts_with s p \<and> list_all (\<lambda>c. is_upper c \<or> c = CHR ''_'') (drop (length p) s)) [''LD_'', ''DYLD_'', ''GIT_'', ''DEX_REACH_''])"

definition MIN_SCRUBBABLE_SECRET_LENGTH :: nat where
  "MIN_SCRUBBABLE_SECRET_LENGTH = 6"

fun isSecretAlias :: "json \<Rightarrow> string option" where
  "isSecretAlias (JStr s) = (if ALIAS_NAME s then Some s else None)"
| "isSecretAlias j = None"

definition secretEnvNameRefusal :: "string \<Rightarrow> secret_error option" where
  "secretEnvNameRefusal e = (if \<not> ENV_NAME e then Some BadEnvName else if FORBIDDEN_ENV e then Some (ForbiddenEnvName e) else None)"

definition emptyStore :: "secret_env \<Rightarrow> secret_store" where
  "emptyStore E = \<lparr>sf_fingerprintKey = se_key E, sf_secrets = []\<rparr>"

definition decode_secret :: "json \<Rightarrow> stored_secret option" where
  "decode_secret j =
     Option.bind (Option.bind (jget j ''alias'') isSecretAlias) (\<lambda>a.
     Option.bind (str_field j ''env'') (\<lambda>e. if secretEnvNameRefusal e \<noteq> None then None else
     Option.bind (str_field j ''value'') (\<lambda>v. if v = [] then None else
     Option.bind (stamp_field j ''createdAt'') (\<lambda>c.
     Option.bind (stamp_field j ''updatedAt'') (\<lambda>u.
     Some \<lparr>ss_alias = a, ss_env = e, ss_value = v, ss_createdAt = c, ss_updatedAt = u\<rparr>)))))"

fun decode_secrets :: "string list \<Rightarrow> json list \<Rightarrow> stored_secret list option" where
  "decode_secrets seen [] = Some []"
| "decode_secrets seen (j # js) = (case decode_secret j of
      None \<Rightarrow> None
    | Some s \<Rightarrow> if ss_alias s \<in> set seen then None else map_option (\<lambda>ss. s # ss) (decode_secrets (ss_alias s # seen) js))"

definition decodeStore :: "json \<Rightarrow> secret_store option" where
  "decodeStore j = (if \<not> version_is_1 j then None else
     Option.bind (str_field j ''fingerprintKey'') (\<lambda>k. if k = [] then None else
     Option.bind (arr_field j ''secrets'') (\<lambda>js.
     Option.bind (decode_secrets [] js) (\<lambda>ss.
     Some \<lparr>sf_fingerprintKey = k, sf_secrets = ss\<rparr>))))"

definition encode_secret :: "stored_secret \<Rightarrow> json" where
  "encode_secret s = JObj [(''alias'', JStr (ss_alias s)), (''env'', JStr (ss_env s)), (''value'', JStr (ss_value s)),
     (''createdAt'', stamp_json (ss_createdAt s)), (''updatedAt'', stamp_json (ss_updatedAt s))]"

definition encode_store :: "secret_store \<Rightarrow> json" where
  "encode_store st = JObj [(''version'', JNum 1), (''fingerprintKey'', JStr (sf_fingerprintKey st)), (''secrets'', JArr (map encode_secret (sf_secrets st)))]"

text \<open>A file that cannot be read or decoded is an error, never an empty store.\<close>

definition readStore :: "secret_env \<Rightarrow> json stored \<Rightarrow> secret_error + secret_store" where
  "readStore E f = (case f of
      Absent \<Rightarrow> Inr (emptyStore E)
    | Unreadable \<Rightarrow> Inl StoreCorrupt
    | Contents j \<Rightarrow> (case decodeStore j of None \<Rightarrow> Inl StoreCorrupt | Some st \<Rightarrow> Inr st))"

section \<open>Operations of the owner\<close>

record alias_info =
  ai_alias :: string
  ai_env :: string
  ai_createdAt :: timestamp
  ai_updatedAt :: timestamp
  ai_fingerprint :: string

definition fingerprint :: "secret_env \<Rightarrow> string \<Rightarrow> string \<Rightarrow> string" where
  "fingerprint E key v = take 16 (se_hmac E key v)"

definition describe_secret :: "secret_env \<Rightarrow> secret_store \<Rightarrow> stored_secret \<Rightarrow> alias_info" where
  "describe_secret E st s = \<lparr>ai_alias = ss_alias s, ai_env = ss_env s, ai_createdAt = ss_createdAt s, ai_updatedAt = ss_updatedAt s,
     ai_fingerprint = fingerprint E (sf_fingerprintKey st) (ss_value s)\<rparr>"

definition listSecretAliases :: "secret_env \<Rightarrow> json stored \<Rightarrow> secret_error + alias_info list" where
  "listSecretAliases E f = (case readStore E f of
      Inl e \<Rightarrow> Inl e
    | Inr st \<Rightarrow> Inr (sort_key (map code_of \<circ> ai_alias) (map (describe_secret E st) (sf_secrets st))))"

definition find_secret :: "string \<Rightarrow> secret_store \<Rightarrow> stored_secret option" where
  "find_secret a st = List.find (\<lambda>s. ss_alias s = a) (sf_secrets st)"

definition value_refusal :: "string \<Rightarrow> secret_error option" where
  "value_refusal v =
     (if v = [] then Some EmptyValue
      else if list_ex (\<lambda>c. code_of c \<in> set [10, 13, 0 :: nat]) v then Some MultilineValue
      else if length v < MIN_SCRUBBABLE_SECRET_LENGTH then Some ShortValue else None)"

definition put_secret :: "int \<Rightarrow> string \<Rightarrow> string \<Rightarrow> string \<Rightarrow> secret_store \<Rightarrow> stored_secret \<times> secret_store" where
  "put_secret now a e v st = (case find_secret a st of
      Some old \<Rightarrow> (let new = old\<lparr>ss_env := e, ss_value := v, ss_updatedAt := Iso now\<rparr>
        in (new, st\<lparr>sf_secrets := map (\<lambda>s. if ss_alias s = a then new else s) (sf_secrets st)\<rparr>))
    | None \<Rightarrow> (let new = \<lparr>ss_alias = a, ss_env = e, ss_value = v, ss_createdAt = Iso now, ss_updatedAt = Iso now\<rparr>
        in (new, st\<lparr>sf_secrets := sf_secrets st @ [new]\<rparr>)))"

definition setSecret :: "secret_env \<Rightarrow> string \<Rightarrow> string \<Rightarrow> string \<Rightarrow> json stored \<Rightarrow> (secret_error + alias_info \<times> bool) \<times> json stored" where
  "setSecret E a e v f =
     (if \<not> ALIAS_NAME a then (Inl BadAlias, f)
      else (case secretEnvNameRefusal e of Some r \<Rightarrow> (Inl r, f) | None \<Rightarrow>
       (case value_refusal v of Some r \<Rightarrow> (Inl r, f) | None \<Rightarrow>
        (case readStore E f of Inl r \<Rightarrow> (Inl r, f) | Inr st \<Rightarrow>
          (let (new, st') = put_secret (se_now E) a e v st
           in (Inr (describe_secret E st' new, find_secret a st \<noteq> None), Contents (encode_store st')))))))"

definition drop_secret :: "string \<Rightarrow> secret_store \<Rightarrow> secret_store" where
  "drop_secret a st = st\<lparr>sf_secrets := filter (\<lambda>s. ss_alias s \<noteq> a) (sf_secrets st)\<rparr>"

definition removeSecret :: "secret_env \<Rightarrow> string \<Rightarrow> json stored \<Rightarrow> (secret_error + bool) \<times> json stored" where
  "removeSecret E a f = (case readStore E f of
      Inl r \<Rightarrow> (Inl r, f)
    | Inr st \<Rightarrow> if \<not> list_ex (\<lambda>s. ss_alias s = a) (sf_secrets st) then (Inr False, f)
        else (Inr True, Contents (encode_store (drop_secret a st))))"

section \<open>Resolution\<close>

text \<open>The aliases a request names, each once; anything malformed is refused.\<close>

fun collect_aliases :: "string list \<Rightarrow> json list \<Rightarrow> secret_error + string list" where
  "collect_aliases got [] = Inr got"
| "collect_aliases got (j # js) = (case isSecretAlias j of
      None \<Rightarrow> Inl (BadAliasInRequest j)
    | Some a \<Rightarrow> collect_aliases (if a \<in> set got then got else got @ [a]) js)"

definition requestedSecretAliases :: "json \<Rightarrow> secret_error + string list" where
  "requestedSecretAliases args = (case jget args ''secrets'' of
      None \<Rightarrow> Inr []
    | Some JNull \<Rightarrow> Inr []
    | Some (JArr js) \<Rightarrow> collect_aliases [] js
    | Some j \<Rightarrow> Inl AliasesNotArray)"

record resolved_secrets =
  rs_env :: "(string \<times> string) list"
  rs_values :: "string list"
  rs_aliases :: "string list"

definition NO_SECRETS :: resolved_secrets where
  "NO_SECRETS = \<lparr>rs_env = [], rs_values = [], rs_aliases = []\<rparr>"

text \<open>The environment is an object: a later alias with the same variable replaces the value in place.\<close>

fun resolve_each :: "secret_store \<Rightarrow> string list \<Rightarrow> (string \<times> string) list \<Rightarrow> string list \<Rightarrow> secret_error + (string \<times> string) list \<times> string list" where
  "resolve_each st [] env vs = Inr (env, vs)"
| "resolve_each st (a # as) env vs = (case find_secret a st of
      None \<Rightarrow> Inl (NoSuchAlias a)
    | Some s \<Rightarrow> (case secretEnvNameRefusal (ss_env s) of
        Some r \<Rightarrow> Inl r
      | None \<Rightarrow> resolve_each st as (AList.update (ss_env s) (ss_value s) env) (vs @ [ss_value s])))"

definition resolveSecrets :: "secret_env \<Rightarrow> string list \<Rightarrow> json stored \<Rightarrow> secret_error + resolved_secrets" where
  "resolveSecrets E as f =
     (if as = [] then Inr NO_SECRETS
      else (case readStore E f of
        Inl e \<Rightarrow> Inl e
      | Inr st \<Rightarrow> (case resolve_each st as [] [] of
          Inl e \<Rightarrow> Inl e
        | Inr (env, vs) \<Rightarrow> Inr \<lparr>rs_env = env, rs_values = vs, rs_aliases = as\<rparr>)))"

section \<open>Scrubbing\<close>

definition SCRUB_MARK :: string where
  "SCRUB_MARK = ''[REDACTED]''"

text \<open>\<open>text.split(v).join('[REDACTED]')\<close> for a nonempty \<open>v\<close>.\<close>

function replace_all :: "string \<Rightarrow> string \<Rightarrow> string" where
  "replace_all v [] = []"
| "replace_all v (c # s) =
     (if v \<noteq> [] \<and> starts_with (c # s) v then SCRUB_MARK @ replace_all v (drop (length v) (c # s)) else c # replace_all v s)"
  by pat_completeness auto
termination
  by (relation "measure (\<lambda>(v, s). length s)") auto

definition scrubSecretValues :: "string \<Rightarrow> string list \<Rightarrow> string" where
  "scrubSecretValues out vs =
     foldl (\<lambda>t v. replace_all v t) out (sort_key (\<lambda>v. - int (length v)) (filter (\<lambda>v. MIN_SCRUBBABLE_SECRET_LENGTH \<le> length v) vs))"

section \<open>Scrubbed text\<close>

lemma str_includes_iff: "str_includes s p \<longleftrightarrow> (\<exists>a b. s = a @ p @ b)"
proof (induction s)
  case (Cons c s)
  show ?case
  proof
    assume "str_includes (c # s) p"
    then consider r where "c # s = p @ r" | "str_includes s p" by (auto simp: starts_with_iff)
    then show "\<exists>a b. c # s = a @ p @ b"
    proof cases
      case (1 r)
      then have "c # s = [] @ p @ r" by simp
      then show ?thesis by blast
    next
      case 2
      with Cons obtain a b where "c # s = (c # a) @ p @ b" by auto
      then show ?thesis by blast
    qed
  next
    assume "\<exists>a b. c # s = a @ p @ b"
    then obtain a b where ab: "c # s = a @ p @ b" by blast
    show "str_includes (c # s) p"
    proof (cases a)
      case Nil
      with ab have "starts_with (c # s) p" by (simp add: starts_with_iff)
      then show ?thesis by simp
    next
      case c': (Cons d a')
      with ab have "s = a' @ p @ b" by simp
      then have "str_includes s p" using Cons.IH by blast
      then show ?thesis by simp
    qed
  qed
qed auto

text \<open>A text without a separator inside a joined text is inside one of its parts.\<close>

lemma includes_around:
  assumes "m \<notin> set v" and "str_includes (x @ m # y) v"
  shows "str_includes x v \<or> str_includes y v"
proof -
  from assms(2) obtain a b where e: "x @ m # y = a @ v @ b" by (auto simp: str_includes_iff)
  then consider (left) us where "a = x @ us" "us @ v @ b = m # y" | (right) us where "x = a @ us" "us @ m # y = v @ b"
    by (auto simp: append_eq_append_conv2)
  then show ?thesis
  proof cases
    case left
    show ?thesis
    proof (cases us)
      case Nil
      with left assms(1) have "v = []" by (cases v) auto
      then have "y = [] @ v @ y" by simp
      then show ?thesis unfolding str_includes_iff by blast
    next
      case (Cons u us')
      with left have "y = us' @ v @ b" by simp
      then show ?thesis unfolding str_includes_iff by blast
    qed
  next
    case right
    then consider w where "us = v @ w" | w where "v = us @ w" "w @ b = m # y"
      by (auto simp: append_eq_append_conv2)
    then show ?thesis
    proof cases
      case (1 w)
      with right have "x = a @ v @ w" by simp
      then show ?thesis unfolding str_includes_iff by blast
    next
      case (2 w)
      with assms(1) have "w = []" by (cases w) auto
      with 2 right have "x = a @ v @ []" by simp
      then show ?thesis unfolding str_includes_iff by blast
    qed
  qed
qed

definition clear_of_mark :: "string \<Rightarrow> bool" where
  "clear_of_mark v = (CHR ''['' \<notin> set v \<and> CHR '']'' \<notin> set v \<and> \<not> str_includes ''REDACTED'' v)"

lemma clear_nonempty: "clear_of_mark v \<Longrightarrow> v \<noteq> []"
  by (auto simp: clear_of_mark_def starts_with_def)

lemma mark_parts: "SCRUB_MARK @ r = [] @ CHR ''['' # (''REDACTED'' @ CHR '']'' # r)"
  by (simp add: SCRUB_MARK_def)

lemma includes_after_mark:
  assumes "clear_of_mark v" and "str_includes (SCRUB_MARK @ r) v"
  shows "str_includes r v"
proof -
  have "CHR ''['' \<notin> set v" "CHR '']'' \<notin> set v" "\<not> str_includes ''REDACTED'' v" "\<not> str_includes [] v"
    using assms(1) clear_nonempty by (auto simp: clear_of_mark_def)
  with assms(2) show ?thesis unfolding mark_parts by (blast dest: includes_around)
qed

lemma prefix_kept:
  assumes "CHR ''['' \<notin> set v" shows "starts_with (replace_all w s) v \<Longrightarrow> starts_with s v"
  using assms
proof (induction w s arbitrary: v rule: replace_all.induct)
  case (2 w c s)
  show ?case
  proof (cases "v = [] \<or> (w \<noteq> [] \<and> starts_with (c # s) w)")
    case True
    with 2 have "v = []" by (cases v) (auto simp: SCRUB_MARK_def starts_with_iff)
    then show ?thesis by (simp add: starts_with_def)
  next
    case False
    with 2(3) obtain v' where v: "v = c # v'" "starts_with (replace_all w s) v'" by (cases v) (auto simp: starts_with_iff)
    with False 2 have "starts_with s v'" by simp
    with v show ?thesis by (simp add: starts_with_iff)
  qed
qed simp

lemma includes_kept:
  assumes "clear_of_mark v" shows "str_includes (replace_all w s) v \<Longrightarrow> str_includes s v"
proof (induction w s rule: replace_all.induct)
  case (2 w c s)
  show ?case
  proof (cases "w \<noteq> [] \<and> starts_with (c # s) w")
    case True
    then have "str_includes (drop (length w) (c # s)) v" using 2 includes_after_mark [OF assms] by simp
    then obtain a b where "drop (length w) (c # s) = a @ v @ b" by (auto simp: str_includes_iff)
    then have "c # s = (take (length w) (c # s) @ a) @ v @ b" by (metis append_assoc append_take_drop_id)
    then show ?thesis unfolding str_includes_iff by blast
  next
    case False
    then have r: "replace_all w (c # s) = c # replace_all w s" by auto
    from 2(3) have "str_includes (c # replace_all w s) v" by (simp only: r)
    then have "starts_with (replace_all w (c # s)) v \<or> str_includes (replace_all w s) v" unfolding r by simp
    then show ?thesis using prefix_kept [of v w "c # s"] 2(2) [OF False] assms by (auto simp: clear_of_mark_def)
  qed
qed simp

lemma replaced_gone: "clear_of_mark v \<Longrightarrow> \<not> str_includes (replace_all v s) v"
proof (induction v s rule: replace_all.induct)
  case (2 v c s)
  note ne = clear_nonempty [OF 2(3)]
  show ?case
  proof (cases "starts_with (c # s) v")
    case True
    with ne have r: "replace_all v (c # s) = SCRUB_MARK @ replace_all v (drop (length v) (c # s))" by simp
    have "\<not> str_includes (replace_all v (drop (length v) (c # s))) v" using 2(1,3) ne True by blast
    then show ?thesis unfolding r using includes_after_mark [OF 2(3)] by blast
  next
    case False
    then have r: "replace_all v (c # s) = c # replace_all v s" by simp
    have "\<not> starts_with (c # replace_all v s) v" using prefix_kept [of v v "c # s"] False 2(3) unfolding r by (auto simp: clear_of_mark_def)
    moreover have "\<not> str_includes (replace_all v s) v" using 2(2,3) False by blast
    ultimately show ?thesis unfolding r by simp
  qed
qed (simp add: clear_nonempty)

lemma scrub_keeps_clear: "clear_of_mark v \<Longrightarrow> \<not> str_includes t v \<Longrightarrow> \<not> str_includes (foldl (\<lambda>t v. replace_all v t) t ws) v"
  by (induction ws arbitrary: t) (auto dest: includes_kept)

lemma scrub_removes: "clear_of_mark v \<Longrightarrow> v \<in> set ws \<Longrightarrow> \<not> str_includes (foldl (\<lambda>t v. replace_all v t) t ws) v"
  by (induction ws arbitrary: t) (auto simp: replaced_gone scrub_keeps_clear)


text \<open>The exception is real: a value with a bracket can be assembled from the text around a marker.\<close>

theorem scrubbing_can_assemble_a_value:
  "\<not> str_includes ''xsecret'' ''x[REDACT'' \<and> str_includes (scrubSecretValues ''xsecret'' [''x[REDACT'', ''secret'']) ''x[REDACT''"
  by code_simp

text \<open>A variable of the loader whose name has a digit is not among the forbidden names.\<close>

theorem loader_variable_with_digit_is_accepted:
  "secretEnvNameRefusal ''LD_PRELOAD'' = Some (ForbiddenEnvName ''LD_PRELOAD'') \<and> secretEnvNameRefusal ''LD_32_PRELOAD'' = None"
  by code_simp



section \<open>The store as a map\<close>

text \<open>What decoding establishes and encoding relies on.\<close>

definition secret_ok :: "stored_secret \<Rightarrow> bool" where
  "secret_ok s = (ALIAS_NAME (ss_alias s) \<and> secretEnvNameRefusal (ss_env s) = None \<and> ss_value s \<noteq> [])"

definition secrets_ok :: "secret_store \<Rightarrow> bool" where
  "secrets_ok st = (sf_fingerprintKey st \<noteq> [] \<and> distinct (map ss_alias (sf_secrets st)) \<and> list_all secret_ok (sf_secrets st))"

lemma decode_secret_ok: "decode_secret j = Some s \<Longrightarrow> secret_ok s"
  by (auto simp: decode_secret_def secret_ok_def bind_eq_Some_conv elim!: isSecretAlias.elims split: if_splits)

lemma decode_secrets_ok: "decode_secrets seen js = Some ss \<Longrightarrow>
   list_all secret_ok ss \<and> distinct (map ss_alias ss) \<and> set seen \<inter> set (map ss_alias ss) = {}"
  by (induction seen js arbitrary: ss rule: decode_secrets.induct) (force split: option.splits if_splits dest: decode_secret_ok)+

lemma decodeStore_ok: "decodeStore j = Some st \<Longrightarrow> secrets_ok st"
  by (auto simp: decodeStore_def secrets_ok_def bind_eq_Some_conv dest!: decode_secrets_ok split: if_splits)

lemma decode_encode_secret: "secret_ok s \<Longrightarrow> decode_secret (encode_secret s) = Some s"
  by (simp add: decode_secret_def encode_secret_def secret_ok_def)

lemma decode_encode_secrets: "list_all secret_ok ss \<Longrightarrow> distinct (map ss_alias ss) \<Longrightarrow> set seen \<inter> set (map ss_alias ss) = {} \<Longrightarrow>
   decode_secrets seen (map encode_secret ss) = Some ss"
  by (induction ss arbitrary: seen) (auto simp: decode_encode_secret)

lemma decode_encode_store: "secrets_ok st \<Longrightarrow> decodeStore (encode_store st) = Some st"
  by (simp add: decodeStore_def encode_store_def secrets_ok_def version_is_1_def decode_encode_secrets)

text \<open>The names, variables and values a file holds.\<close>

definition held_secrets :: "secret_store \<Rightarrow> string \<Rightarrow> (string \<times> string) option" where
  "held_secrets st a = map_option (\<lambda>s. (ss_env s, ss_value s)) (find_secret a st)"

definition secrets_of :: "json stored \<Rightarrow> string \<Rightarrow> (string \<times> string) option" where
  "secrets_of f = (case f of Contents j \<Rightarrow> (case decodeStore j of Some st \<Rightarrow> held_secrets st | None \<Rightarrow> (\<lambda>_. None)) | _ \<Rightarrow> (\<lambda>_. None))"

definition readable :: "json stored \<Rightarrow> bool" where
  "readable f = (f = Absent \<or> (\<exists>j st. f = Contents j \<and> decodeStore j = Some st))"

datatype secret_op = SetSecret secret_env string string string | RemoveSecret secret_env string

fun secret_exec :: "secret_op \<Rightarrow> json stored \<Rightarrow> json stored" where
  "secret_exec (SetSecret E a e v) f = snd (setSecret E a e v f)"
| "secret_exec (RemoveSecret E a) f = snd (removeSecret E a f)"

fun op_key :: "secret_op \<Rightarrow> string" where
  "op_key (SetSecret E a e v) = se_key E"
| "op_key (RemoveSecret E a) = se_key E"

text \<open>The map the owner has in mind: a valid name, variable and value are stored, anything else changes nothing.\<close>

fun secret_spec :: "secret_op \<Rightarrow> (string \<Rightarrow> (string \<times> string) option) \<Rightarrow> string \<Rightarrow> (string \<times> string) option" where
  "secret_spec (SetSecret E a e v) m = (if ALIAS_NAME a \<and> secretEnvNameRefusal e = None \<and> value_refusal v = None then m(a \<mapsto> (e, v)) else m)"
| "secret_spec (RemoveSecret E a) m = m(a := None)"

definition resolve_by :: "(string \<Rightarrow> (string \<times> string) option) \<Rightarrow> string list \<Rightarrow> secret_error + resolved_secrets" where
  "resolve_by m as = (case List.find (\<lambda>a. m a = None) as of
      Some a \<Rightarrow> Inl (NoSuchAlias a)
    | None \<Rightarrow> Inr \<lparr>rs_env = fold (\<lambda>a. AList.update (fst (the (m a))) (snd (the (m a)))) as [], rs_values = map (\<lambda>a. snd (the (m a))) as, rs_aliases = as\<rparr>)"

text \<open>A file that is rewritten by operations and read through an abstraction.\<close>

locale simulated_store =
  fixes step :: "'op \<Rightarrow> 'f \<Rightarrow> 'f" and good :: "'op \<Rightarrow> bool" and inv :: "'f \<Rightarrow> bool" and look :: "'f \<Rightarrow> 'm" and spec :: "'op \<Rightarrow> 'm \<Rightarrow> 'm"
  assumes keeps: "good x \<Longrightarrow> inv f \<Longrightarrow> inv (step x f)"
    and sim: "good x \<Longrightarrow> inv f \<Longrightarrow> look (step x f) = spec x (look f)"
begin

lemma run: "inv f \<Longrightarrow> (\<And>x. x \<in> set xs \<Longrightarrow> good x) \<Longrightarrow> inv (fold step xs f) \<and> look (fold step xs f) = fold spec xs (look f)"
  by (induction xs arbitrary: f) (simp_all add: keeps sim)

end

lemma find_secret_put: "find_secret b (snd (put_secret t a e v st)) =
   (if b = a then Some (fst (put_secret t a e v st)) else find_secret b st)"
proof (cases "find_secret a st")
  case None
  have "List.find (\<lambda>s. ss_alias s = b) (xs @ [n]) = (case List.find (\<lambda>s. ss_alias s = b) xs of None \<Rightarrow> if ss_alias n = b then Some n else None | r \<Rightarrow> r)" for xs and n :: stored_secret
    by (induction xs) auto
  with None show ?thesis by (auto simp: put_secret_def find_secret_def Let_def split: option.split)
next
  case (Some old)
  let ?new = "old\<lparr>ss_env := e, ss_value := v, ss_updatedAt := Iso t\<rparr>"
  have "ss_alias old = a" using Some by (auto simp: find_secret_def dest: find_SomeD)
  then have "List.find (\<lambda>s. ss_alias s = b) (map (\<lambda>s. if ss_alias s = a then ?new else s) xs) =
      (if b = a then map_option (\<lambda>_. ?new) (List.find (\<lambda>s. ss_alias s = a) xs) else List.find (\<lambda>s. ss_alias s = b) xs)" for xs :: "stored_secret list"
    by (induction xs) auto
  with Some show ?thesis by (simp add: put_secret_def find_secret_def Let_def)
qed

lemma put_secret_fields: "ss_env (fst (put_secret t a e v st)) = e" "ss_value (fst (put_secret t a e v st)) = v"
  by (simp_all add: put_secret_def Let_def split: option.split)

lemma held_put: "held_secrets (snd (put_secret t a e v st)) = (held_secrets st)(a \<mapsto> (e, v))"
  by (auto simp: held_secrets_def find_secret_put put_secret_fields)

lemma find_secret_drop: "find_secret b (drop_secret a st) = (if b = a then None else find_secret b st)"
proof -
  have "List.find (\<lambda>s. ss_alias s = b) (filter (\<lambda>s. ss_alias s \<noteq> a) xs) = (if b = a then None else List.find (\<lambda>s. ss_alias s = b) xs)" for xs :: "stored_secret list"
    by (induction xs) auto
  then show ?thesis by (simp add: find_secret_def drop_secret_def)
qed

lemma held_drop: "held_secrets (drop_secret a st) = (held_secrets st)(a := None)"
  by (auto simp: held_secrets_def find_secret_drop)

lemma put_secret_ok:
  assumes "secrets_ok st" and "ALIAS_NAME a" and "secretEnvNameRefusal e = None" and "v \<noteq> []"
  shows "secrets_ok (snd (put_secret t a e v st))"
proof (cases "find_secret a st")
  case None
  then have "a \<notin> ss_alias ` set (sf_secrets st)" by (auto simp: find_secret_def find_None_iff_all)
  with None assms show ?thesis by (simp add: put_secret_def Let_def secrets_ok_def secret_ok_def)
next
  case (Some old)
  then have o: "ss_alias old = a" by (auto simp: find_secret_def dest: find_SomeD)
  have "map ss_alias (map (\<lambda>s. if ss_alias s = a then old\<lparr>ss_env := e, ss_value := v, ss_updatedAt := Iso t\<rparr> else s) xs) = map ss_alias xs" for xs :: "stored_secret list"
    by (induction xs) (auto simp: o)
  with Some o assms show ?thesis by (auto simp del: map_map simp: put_secret_def Let_def secrets_ok_def secret_ok_def list_all_iff)
qed

lemma drop_secret_ok: "secrets_ok st \<Longrightarrow> secrets_ok (drop_secret a st)"
  by (auto simp: drop_secret_def secrets_ok_def list_all_iff distinct_map_filter)

text \<open>A readable file reads as a well-formed store that holds what the file holds.\<close>

lemma readable_store:
  assumes "readable f" and "se_key E \<noteq> []"
  shows "\<exists>st. readStore E f = Inr st \<and> secrets_ok st \<and> held_secrets st = secrets_of f"
  using assms decodeStore_ok
  by (auto simp: readable_def readStore_def emptyStore_def secrets_ok_def secrets_of_def held_secrets_def find_secret_def fun_eq_iff)

lemma written_store: "secrets_ok st \<Longrightarrow> readable (Contents (encode_store st)) \<and> secrets_of (Contents (encode_store st)) = held_secrets st"
  by (simp add: readable_def secrets_of_def decode_encode_store)

lemma secret_exec_sim:
  assumes "op_key x \<noteq> []" and "readable f"
  shows "readable (secret_exec x f) \<and> secrets_of (secret_exec x f) = secret_spec x (secrets_of f)"
proof (cases x)
  case (SetSecret E a e v)
  with assms obtain st where st: "readStore E f = Inr st" "secrets_ok st" "held_secrets st = secrets_of f"
    using readable_store [of f E] by auto
  show ?thesis
  proof (cases "ALIAS_NAME a \<and> secretEnvNameRefusal e = None \<and> value_refusal v = None")
    case True
    then have "v \<noteq> []" by (auto simp: value_refusal_def)
    with True st written_store [OF put_secret_ok] show ?thesis
      by (auto simp: SetSecret setSecret_def held_put split: prod.split) (metis held_put snd_conv)+
  next
    case False
    with assms(2) show ?thesis by (auto simp: SetSecret setSecret_def split: option.split)
  qed
next
  case (RemoveSecret E a)
  with assms obtain st where st: "readStore E f = Inr st" "secrets_ok st" "held_secrets st = secrets_of f"
    using readable_store [of f E] by auto
  show ?thesis
  proof (cases "list_ex (\<lambda>s. ss_alias s = a) (sf_secrets st)")
    case True
    with st written_store [OF drop_secret_ok] show ?thesis by (simp add: RemoveSecret removeSecret_def held_drop)
  next
    case False
    then have "held_secrets st a = None" by (auto simp: held_secrets_def find_secret_def find_None_iff_all list_ex_iff)
    with False st assms(2) show ?thesis by (auto simp: RemoveSecret removeSecret_def fun_eq_iff)
  qed
qed

interpretation broker: simulated_store secret_exec "\<lambda>x. op_key x \<noteq> []" readable secrets_of secret_spec
  by unfold_locales (simp_all add: secret_exec_sim)

lemma resolve_each_held:
  assumes "secrets_ok st"
  shows "resolve_each st as env vs = (case List.find (\<lambda>a. held_secrets st a = None) as of
      Some a \<Rightarrow> Inl (NoSuchAlias a)
    | None \<Rightarrow> Inr (fold (\<lambda>a. AList.update (fst (the (held_secrets st a))) (snd (the (held_secrets st a)))) as env, vs @ map (\<lambda>a. snd (the (held_secrets st a))) as))"
proof (induction as arbitrary: env vs)
  case (Cons a as)
  show ?case
  proof (cases "find_secret a st")
    case (Some s)
    then have "s \<in> set (sf_secrets st)" by (auto simp: find_secret_def dest: find_SomeD)
    with assms have "secretEnvNameRefusal (ss_env s) = None" by (auto simp: secrets_ok_def secret_ok_def list_all_iff)
    with Some Cons show ?thesis by (simp add: held_secrets_def cong: option.case_cong)
  qed (simp add: held_secrets_def)
qed simp

lemma resolveSecrets_readable:
  assumes "readable f" and "se_key E \<noteq> []"
  shows "resolveSecrets E as f = resolve_by (secrets_of f) as"
proof -
  from readable_store [OF assms] obtain st where st: "readStore E f = Inr st" "secrets_ok st" "held_secrets st = secrets_of f" by blast
  show ?thesis
  proof (cases as)
    case (Cons a as')
    then show ?thesis using st resolve_each_held [OF st(2), of as "[]" "[]"]
      by (auto simp: resolveSecrets_def resolve_by_def split: option.split)
  qed (simp add: resolveSecrets_def resolve_by_def NO_SECRETS_def)
qed

text \<open>Every variable that is injected has an admissible name, also when the file was edited by hand.\<close>

lemma resolve_each_names: "resolve_each st as env vs = Inr (env', vs') \<Longrightarrow> (\<forall>e \<in> fst ` set env. secretEnvNameRefusal e = None) \<Longrightarrow>
   (\<forall>e \<in> fst ` set env'. secretEnvNameRefusal e = None)"
proof (induction st as env vs rule: resolve_each.induct)
  case (2 st a as env vs)
  then obtain s where s: "find_secret a st = Some s" "secretEnvNameRefusal (ss_env s) = None"
    by (auto split: option.splits)
  have "\<forall>e \<in> set (map fst (AList.update (ss_env s) (ss_value s) env)). secretEnvNameRefusal e = None"
    using 2(3) s(2) unfolding AList.update_keys by auto
  with 2(1) [OF s] 2(2) s show ?case by simp
qed simp

lemma resolveSecrets_names: "resolveSecrets E as f = Inr rs \<Longrightarrow> (e, v) \<in> set (rs_env rs) \<Longrightarrow> secretEnvNameRefusal e = None"
  by (force simp: resolveSecrets_def NO_SECRETS_def split: if_splits sum.splits dest: resolve_each_names)

text \<open>
  C21: The secret store is a map. From any readable file, after any sequence of the owner's operations, accepted or
  refused, the file reads back, and resolving any aliases gives exactly what a map of the accepted operations holds:
  the last value stored under each alias in its variable, or the first alias that is not there.
\<close>

theorem secret_store_refines_map:
  assumes "readable f" and "\<And>x. x \<in> set ops \<Longrightarrow> op_key x \<noteq> []" and "se_key E \<noteq> []"
  shows "readable (fold secret_exec ops f) \<and> resolveSecrets E as (fold secret_exec ops f) = resolve_by (fold secret_spec ops (secrets_of f)) as"
proof -
  have "readable (fold secret_exec ops f) \<and> secrets_of (fold secret_exec ops f) = fold secret_spec ops (secrets_of f)"
    using assms(1,2) by (rule broker.run)
  with resolveSecrets_readable [OF _ assms(3)] show ?thesis by simp
qed

text \<open>A corrupt store is never overwritten and never injects.\<close>

theorem corrupt_store_is_kept:
  assumes "\<not> readable f"
  shows "secret_exec x f = f \<and> readStore E f = Inl StoreCorrupt \<and> (as \<noteq> [] \<longrightarrow> resolveSecrets E as f = Inl StoreCorrupt)"
proof -
  have r: "readStore E' f = Inl StoreCorrupt" for E'
    using assms by (auto simp: readable_def readStore_def split: stored.split option.split)
  then show ?thesis by (cases x) (simp_all add: setSecret_def removeSecret_def resolveSecrets_def split: option.split)
qed

definition sample_broker :: secret_env where
  "sample_broker = \<lparr>se_key = ''k'', se_now = 0, se_hmac = (\<lambda>_ v. v)\<rparr>"

theorem secret_store_refines_map_witness:
  "resolveSecrets sample_broker [''b'', ''a''] (fold secret_exec [SetSecret sample_broker ''a'' ''TOKEN'' ''hunter2'',
      SetSecret sample_broker ''b'' ''LD_PRELOAD'' ''hunter3'', SetSecret sample_broker ''b'' ''OTHER'' ''hunter4'',
      SetSecret sample_broker ''a'' ''TOKEN'' ''hunter5''] Absent) =
    Inr \<lparr>rs_env = [(''OTHER'', ''hunter4''), (''TOKEN'', ''hunter5'')], rs_values = [''hunter4'', ''hunter5''], rs_aliases = [''b'', ''a'']\<rparr>"
proof -
  let ?ops = "[SetSecret sample_broker ''a'' ''TOKEN'' ''hunter2'', SetSecret sample_broker ''b'' ''LD_PRELOAD'' ''hunter3'',
      SetSecret sample_broker ''b'' ''OTHER'' ''hunter4'', SetSecret sample_broker ''a'' ''TOKEN'' ''hunter5'']"
  have "resolveSecrets sample_broker [''b'', ''a''] (fold secret_exec ?ops Absent) = resolve_by (fold secret_spec ?ops (secrets_of Absent)) [''b'', ''a'']"
    by (rule secret_store_refines_map [THEN conjunct2]) (auto simp: readable_def sample_broker_def)
  also have "\<dots> = Inr \<lparr>rs_env = [(''OTHER'', ''hunter4''), (''TOKEN'', ''hunter5'')], rs_values = [''hunter4'', ''hunter5''], rs_aliases = [''b'', ''a'']\<rparr>"
    by code_simp
  finally show ?thesis .
qed

end
