(* ===== verification/Reach_Adapters.thy ===== *)
theory Reach_Adapters
  imports Reach_Ledger Reach_Requests "HOL-Library.Multiset"
begin

text \<open>
  Capability adapters: the manifest an adapter declares, its admission against the catalogue and the
  registry of installed adapters (\<open>src/src/shared/adapter-contract.ts\<close>), the shipped manifest
  (\<open>src/src/node/adapters/desktop-commander.manifest.ts\<close>) and what the Desktop Commander adapter does with
  both: its start and the bound on the arguments it forwards
  (\<open>src/src/node/adapters/desktop-commander.ts\<close>).

  A declaration keeps the raw JSON of the members that the decoder only compares after \<open>String(...)\<close>. A
  refusal is a constructor with the names the message quotes. The child process, the protocol it speaks and
  the configuration it reports are parameters.
\<close>

section \<open>Declarations and manifests\<close>

record tool_declaration =
  td_tool :: string
  td_capability :: json
  td_risk :: json
  td_mutation :: bool
  td_network :: bool
  td_pathArguments :: "string list"
  td_workspaceSafeAllowed :: bool
  td_supportsPlan :: bool
  td_remoteBlocked :: bool
  td_reversibility :: json
  td_checkpointStrategy :: json

record adapter_manifest =
  am_adapter :: string
  am_version :: string
  am_source :: string
  am_sourceHash :: "string option"
  am_tools :: "tool_declaration list"

datatype fact = FactCapability | FactRisk | FactMutation | FactNetwork | FactWorkspaceSafe | FactSupportsPlan | FactRemoteBlocked | FactCheckpointStrategy

datatype mismatch = FactDiffers fact | PathsDiffer "string list" "string list" | MutatesWithoutReversal | ContradictsCheckpoint

datatype adapter_refusal =
    NotClassified string
  | BelongsTo string string
  | Mismatch string mismatch
  | NotDeclared string
  | AlreadyProvided string string
  | ManifestMalformed

record adapter_admission =
  aa_manifest :: adapter_manifest
  aa_admitted :: "tool_declaration list"
  aa_refusals :: "adapter_refusal list"

definition REVERSIBILITY :: "string list" where
  "REVERSIBILITY = [''none'', ''checkpoint'', ''irreversible'']"

fun checkpoint_string :: "checkpoint_strategy \<Rightarrow> string" where
  "checkpoint_string CsNone = ''none''"
| "checkpoint_string CsGitIfAvailable = ''git-if-available''"
| "checkpoint_string CsRequired = ''required''"

definition CHECKPOINT_STRATEGIES :: "string list" where
  "CHECKPOINT_STRATEGIES = map checkpoint_string [CsNone, CsGitIfAvailable, CsRequired]"

definition nonempty_string :: "json option \<Rightarrow> string option" where
  "nonempty_string v = (case v of Some (JStr s) \<Rightarrow> if js_trim s = [] then None else Some s | _ \<Rightarrow> None)"

definition argument_names :: "json option \<Rightarrow> string list option" where
  "argument_names v = (case v of
      Some (JArr xs) \<Rightarrow> (case decode_all json_string xs of Some ss \<Rightarrow> if [] \<in> set ss then None else Some ss | None \<Rightarrow> None)
    | _ \<Rightarrow> None)"

text \<open>
  \<open>names.includes(String(v))\<close> for names without commas: a string, or an array of one value whose text is a
  name. The text of no other value is one of the names compared here.
\<close>

fun text_among :: "string list \<Rightarrow> json \<Rightarrow> bool" where
  "text_among names (JStr s) = (s \<in> set names)"
| "text_among names (JArr [v]) = text_among names v"
| "text_among names v = False"

definition named_value :: "string list \<Rightarrow> json option \<Rightarrow> json option" where
  "named_value names v = (case v of Some j \<Rightarrow> if text_among names j then Some j else None | None \<Rightarrow> None)"

definition decodeAdapterToolDeclaration :: "json \<Rightarrow> tool_declaration option" where
  "decodeAdapterToolDeclaration v =
     Option.bind (nonempty_string (jget v ''tool'')) (\<lambda>t.
     Option.bind (named_value (map capability_string REACH_CAPABILITIES) (jget v ''capability'')) (\<lambda>cap.
     Option.bind (named_value (map risk_string OPERATION_RISK_ORDER) (jget v ''risk'')) (\<lambda>risk.
     Option.bind (bool_field v ''mutation'') (\<lambda>mutation.
     Option.bind (bool_field v ''network'') (\<lambda>network.
     Option.bind (argument_names (jget v ''pathArguments'')) (\<lambda>paths.
     Option.bind (bool_field v ''workspaceSafeAllowed'') (\<lambda>safe.
     Option.bind (bool_field v ''supportsPlan'') (\<lambda>plan.
     Option.bind (bool_field v ''remoteBlocked'') (\<lambda>blocked.
     Option.bind (named_value REVERSIBILITY (jget v ''reversibility'')) (\<lambda>reversal.
     Option.bind (named_value CHECKPOINT_STRATEGIES (jget v ''checkpointStrategy'')) (\<lambda>cs.
     Some \<lparr>td_tool = t, td_capability = cap, td_risk = risk, td_mutation = mutation, td_network = network, td_pathArguments = paths,
       td_workspaceSafeAllowed = safe, td_supportsPlan = plan, td_remoteBlocked = blocked, td_reversibility = reversal, td_checkpointStrategy = cs\<rparr>)))))))))))"

text \<open>One malformed or repeated declaration makes the whole manifest malformed.\<close>

fun decode_tools :: "string list \<Rightarrow> json list \<Rightarrow> tool_declaration list option" where
  "decode_tools seen [] = Some []"
| "decode_tools seen (j # js) = (case decodeAdapterToolDeclaration j of
      None \<Rightarrow> None
    | Some d \<Rightarrow> if td_tool d \<in> set seen then None
        else map_option (\<lambda>ds. d # ds) (decode_tools (td_tool d # seen) js))"

definition decodeAdapterManifest :: "json \<Rightarrow> adapter_manifest option" where
  "decodeAdapterManifest v =
     Option.bind (nonempty_string (jget v ''adapter'')) (\<lambda>adapter.
     Option.bind (nonempty_string (jget v ''version'')) (\<lambda>version.
     Option.bind (nonempty_string (jget v ''source'')) (\<lambda>source.
     Option.bind (if jget v ''sourceHash'' = Some JNull then Some None else map_option Some (nonempty_string (jget v ''sourceHash''))) (\<lambda>hash.
     Option.bind (arr_field v ''tools'') (\<lambda>ts.
     Option.bind (decode_tools [] ts) (\<lambda>tools.
     Some \<lparr>am_adapter = adapter, am_version = version, am_source = source, am_sourceHash = hash, am_tools = tools\<rparr>))))))"

section \<open>Admission\<close>

text \<open>The authority facts, in the order the refusals list them.\<close>

definition fact_agrees :: "tool_declaration \<Rightarrow> compatibility_tool_descriptor \<Rightarrow> fact \<Rightarrow> bool" where
  "fact_agrees d k f = (case f of
      FactCapability \<Rightarrow> td_capability d = JStr (capability_string (ct_capability k))
    | FactRisk \<Rightarrow> td_risk d = JStr (risk_string (ct_risk k))
    | FactMutation \<Rightarrow> td_mutation d = ct_mutation k
    | FactNetwork \<Rightarrow> td_network d = ct_network k
    | FactWorkspaceSafe \<Rightarrow> td_workspaceSafeAllowed d = ct_workspaceSafeAllowed k
    | FactSupportsPlan \<Rightarrow> td_supportsPlan d = ct_supportsPlan k
    | FactRemoteBlocked \<Rightarrow> td_remoteBlocked d = ct_remoteBlocked k
    | FactCheckpointStrategy \<Rightarrow> td_checkpointStrategy d = JStr (checkpoint_string (ct_checkpointStrategy k)))"

definition AUTHORITY_FACTS :: "fact list" where
  "AUTHORITY_FACTS = [FactCapability, FactRisk, FactMutation, FactNetwork, FactWorkspaceSafe, FactSupportsPlan, FactRemoteBlocked, FactCheckpointStrategy]"

definition sort_names :: "string list \<Rightarrow> string list" where
  "sort_names ss = sort_key (map code_of) ss"

definition factsDisagree :: "tool_declaration \<Rightarrow> compatibility_tool_descriptor \<Rightarrow> mismatch list" where
  "factsDisagree d k =
     (let knownPaths = sort_names (ct_pathArguments k); declaredPaths = sort_names (td_pathArguments d)
      in map FactDiffers (filter (\<lambda>f. \<not> fact_agrees d k f) AUTHORITY_FACTS) @
         (if knownPaths \<noteq> declaredPaths then [PathsDiffer declaredPaths knownPaths] else []) @
         (if td_mutation d \<and> td_reversibility d = JStr ''none'' then [MutatesWithoutReversal] else []) @
         (if ct_checkpointStrategy k = CsRequired \<and> td_reversibility d = JStr ''none'' then [ContradictsCheckpoint] else []))"

text \<open>What one declaration gives: it is admitted, or the reasons it is not.\<close>

definition judge_tool :: "string \<Rightarrow> tool_declaration \<Rightarrow> adapter_refusal list" where
  "judge_tool adapter d = (case describeCompatibilityTool (td_tool d) of
      None \<Rightarrow> [NotClassified (td_tool d)]
    | Some k \<Rightarrow> if ct_adapter k \<noteq> adapter then [BelongsTo (td_tool d) (ct_adapter k)] else map (Mismatch (td_tool d)) (factsDisagree d k))"

definition admitAdapterManifest :: "adapter_manifest \<Rightarrow> adapter_admission" where
  "admitAdapterManifest m =
     \<lparr>aa_manifest = m, aa_admitted = filter (\<lambda>d. judge_tool (am_adapter m) d = []) (am_tools m),
      aa_refusals = concat (map (judge_tool (am_adapter m)) (am_tools m)) @
        map (\<lambda>k. NotDeclared (ct_tool k)) (filter (\<lambda>k. ct_adapter k = am_adapter m \<and> ct_tool k \<notin> td_tool ` set (am_tools m)) COMPATIBILITY_TOOLS)\<rparr>"

section \<open>The registry\<close>

text \<open>A map in the order of first insertion.\<close>

type_synonym adapter_registry = "adapter_admission obj"

definition provides :: "string \<Rightarrow> adapter_admission \<Rightarrow> bool" where
  "provides t a = list_ex (\<lambda>d. td_tool d = t) (aa_admitted a)"

definition providerOf :: "adapter_registry \<Rightarrow> string \<Rightarrow> adapter_manifest option" where
  "providerOf reg t = map_option (\<lambda>(i, a). aa_manifest a) (List.find (\<lambda>(i, a). provides t a) reg)"

definition resolveTool :: "adapter_registry \<Rightarrow> string \<Rightarrow> compatibility_tool_descriptor option" where
  "resolveTool reg t = (case List.find (\<lambda>(i, a). provides t a) reg of Some _ \<Rightarrow> describeCompatibilityTool t | None \<Rightarrow> None)"

definition install_adapter :: "adapter_manifest \<Rightarrow> adapter_registry \<Rightarrow> (adapter_refusal list + adapter_admission) \<times> adapter_registry" where
  "install_adapter m reg =
     (let a = admitAdapterManifest m;
          clashes = concat (map (\<lambda>d. case providerOf reg (td_tool d) of
              Some e \<Rightarrow> if am_adapter e \<noteq> am_adapter m then [AlreadyProvided (td_tool d) (am_adapter e)] else []
            | None \<Rightarrow> []) (aa_admitted a));
          refusals = aa_refusals a @ clashes
      in if refusals \<noteq> [] then (Inl refusals, reg) else (Inr a, obj_put (am_adapter m) a reg))"

definition installFrom :: "json \<Rightarrow> adapter_registry \<Rightarrow> (adapter_refusal list + adapter_admission) \<times> adapter_registry" where
  "installFrom v reg = (case decodeAdapterManifest v of None \<Rightarrow> (Inl [ManifestMalformed], reg) | Some m \<Rightarrow> install_adapter m reg)"

definition installed :: "adapter_registry \<Rightarrow> adapter_manifest list" where
  "installed reg = map (\<lambda>(i, a). aa_manifest a) reg"

definition remoteToolSurface :: "adapter_registry \<Rightarrow> string list" where
  "remoteToolSurface reg = sort_names (remdups (concat (map (\<lambda>(i, a). map td_tool (filter (\<lambda>d. \<not> td_remoteBlocked d) (aa_admitted a))) reg)))"

record identity_evidence =
  ie_adapter :: string
  ie_version :: string
  ie_source :: string
  ie_sourceHash :: "string option"
  ie_tools :: nat
  ie_remoteTools :: nat

definition identityEvidence :: "adapter_registry \<Rightarrow> identity_evidence list" where
  "identityEvidence reg = map (\<lambda>(i, a). \<lparr>ie_adapter = am_adapter (aa_manifest a), ie_version = am_version (aa_manifest a),
      ie_source = am_source (aa_manifest a), ie_sourceHash = am_sourceHash (aa_manifest a), ie_tools = length (aa_admitted a),
      ie_remoteTools = length (filter (\<lambda>d. \<not> td_remoteBlocked d) (aa_admitted a))\<rparr>) reg"

text \<open>Whether a remote client may not name the tool; absent and blocked tools are refused alike.\<close>

definition remoteAdapterToolRefusal :: "adapter_registry \<Rightarrow> string \<Rightarrow> bool" where
  "remoteAdapterToolRefusal reg t = (case resolveTool reg t of None \<Rightarrow> True | Some k \<Rightarrow> ct_remoteBlocked k)"

section \<open>The bound on arguments\<close>

datatype compat_error = NotAnObject | TooManyItems | TooDeep | CollectionTooLong | TooManyProperties | TooManyBytes

record compat_limits =
  cl_bytes :: rat
  cl_collectionItems :: nat
  cl_objectProperties :: nat
  cl_nodes :: nat
  cl_depth :: nat

definition COMPAT_ARGUMENT_LIMITS :: compat_limits where
  "COMPAT_ARGUMENT_LIMITS = \<lparr>cl_bytes = 256 * 1024, cl_collectionItems = 256, cl_objectProperties = 256, cl_nodes = 4096, cl_depth = 24\<rparr>"

text \<open>The children of a value and the bytes it adds; a time stamp is a string of 24 characters.\<close>

fun children :: "json \<Rightarrow> json list" where
  "children (JArr xs) = xs"
| "children (JObj kvs) = map snd kvs"
| "children _ = []"

fun own_bytes :: "json \<Rightarrow> rat" where
  "own_bytes (JStr s) = utf8_length s + 2"
| "own_bytes (JIso t) = 26"
| "own_bytes (JObj kvs) = sum_list (map (\<lambda>(k, v). utf8_length k + 3) kvs)"
| "own_bytes _ = 0"

fun too_wide :: "json \<Rightarrow> compat_error option" where
  "too_wide (JArr xs) = (if cl_collectionItems COMPAT_ARGUMENT_LIMITS < length xs then Some CollectionTooLong else None)"
| "too_wide (JObj kvs) = (if cl_objectProperties COMPAT_ARGUMENT_LIMITS < length kvs then Some TooManyProperties else None)"
| "too_wide _ = None"

lemma size_children: "sum_list (map (\<lambda>c. Suc (size c)) (children j)) \<le> size j"
proof (cases j)
  case (JArr xs)
  have "sum_list (map (\<lambda>c. Suc (size c)) xs) = size_list size xs" for xs :: "json list" by (induction xs) simp_all
  with JArr show ?thesis by simp
next
  case (JObj kvs)
  have "sum_list (map (\<lambda>c. Suc (size c)) (map snd kvs)) \<le> size_list (size_prod (\<lambda>_. 0) size) kvs" for kvs :: "(string \<times> json) list"
    by (induction kvs) auto
  then show ?thesis using JObj by (simp add: le_SucI)
qed simp_all

text \<open>The stack of values still to visit, the last pushed child first.\<close>

function visit :: "(json \<times> nat) list \<Rightarrow> nat \<Rightarrow> rat \<Rightarrow> compat_error option" where
  "visit [] n b = None"
| "visit ((j, d) # stack) n b =
     (if cl_nodes COMPAT_ARGUMENT_LIMITS < Suc n then Some TooManyItems
      else if cl_depth COMPAT_ARGUMENT_LIMITS < d then Some TooDeep
      else (case too_wide j of
          Some e \<Rightarrow> Some e
        | None \<Rightarrow>
            if cl_bytes COMPAT_ARGUMENT_LIMITS < b + own_bytes j then Some TooManyBytes
            else visit (rev (map (\<lambda>c. (c, Suc d)) (children j)) @ stack) (Suc n) (b + own_bytes j)))"
  by pat_completeness auto
termination
proof (relation "measure (\<lambda>(stack, n, b). sum_list (map (\<lambda>(j, d). Suc (size j)) stack))", goal_cases)
  case (2 j d stack n b)
  have "sum_list (map (\<lambda>(j, d). Suc (size j)) (rev (map (\<lambda>c. (c, Suc d)) (children j)))) = sum_list (map (\<lambda>c. Suc (size c)) (children j))"
    by (simp add: rev_map [symmetric] sum_list_rev o_def)
  with size_children [of j] show ?case by simp
qed simp

definition validateCompatibilityArguments :: "json \<Rightarrow> compat_error option" where
  "validateCompatibilityArguments v = (case v of JObj kvs \<Rightarrow> visit [(v, 0)] 0 2 | _ \<Rightarrow> Some NotAnObject)"

section \<open>The shipped adapter\<close>

definition tool_data :: "string \<Rightarrow> string \<Rightarrow> string \<Rightarrow> bool \<Rightarrow> bool \<Rightarrow> string list \<Rightarrow> bool \<Rightarrow> bool \<Rightarrow> bool \<Rightarrow> string \<Rightarrow> string \<Rightarrow> json" where
  "tool_data t cap risk mutation network paths safe plan blocked reversal cs =
     JObj [(''tool'', JStr t), (''capability'', JStr cap), (''risk'', JStr risk), (''mutation'', JBool mutation), (''network'', JBool network),
       (''pathArguments'', JArr (map JStr paths)), (''workspaceSafeAllowed'', JBool safe), (''supportsPlan'', JBool plan),
       (''remoteBlocked'', JBool blocked), (''reversibility'', JStr reversal), (''checkpointStrategy'', JStr cs)]"

definition DESKTOP_COMMANDER_MANIFEST_DATA :: json where
  "DESKTOP_COMMANDER_MANIFEST_DATA = JObj [(''adapter'', JStr ''desktop-commander''), (''version'', JStr ''0.0.0-resolved-at-load''),
     (''source'', JStr ''@wonderwhy-er/desktop-commander''), (''sourceHash'', JNull),
     (''tools'', JArr [
      tool_data ''get_config'' ''inspect'' ''inspect'' False False [] True False False ''none'' ''none'',
      tool_data ''get_file_info'' ''file.read'' ''inspect'' False False [''path''] True False False ''none'' ''none'',
      tool_data ''get_usage_stats'' ''inspect'' ''inspect'' False False [] True False False ''none'' ''none'',
      tool_data ''list_directory'' ''file.read'' ''inspect'' False False [''path''] True False False ''none'' ''none'',
      tool_data ''read_file'' ''file.read'' ''inspect'' False True [''path''] True False False ''none'' ''none'',
      tool_data ''read_multiple_files'' ''file.read'' ''inspect'' False False [''paths''] True False False ''none'' ''none'',
      tool_data ''start_search'' ''file.read'' ''inspect'' False False [''path''] True False False ''none'' ''none'',
      tool_data ''get_more_search_results'' ''file.read'' ''inspect'' False False [] True False False ''none'' ''none'',
      tool_data ''list_searches'' ''inspect'' ''inspect'' False False [] True False False ''none'' ''none'',
      tool_data ''stop_search'' ''inspect'' ''inspect'' False False [] True False False ''none'' ''none'',
      tool_data ''create_directory'' ''file.write'' ''typed-mutate'' True False [''path''] True True False ''checkpoint'' ''git-if-available'',
      tool_data ''move_file'' ''file.write'' ''typed-mutate'' True False [''source'', ''destination''] True True False ''checkpoint'' ''git-if-available'',
      tool_data ''write_file'' ''file.write'' ''typed-mutate'' True False [''path''] True True False ''checkpoint'' ''git-if-available'',
      tool_data ''write_pdf'' ''file.write'' ''typed-mutate'' True False [''path'', ''outputPath''] True True False ''checkpoint'' ''git-if-available'',
      tool_data ''edit_block'' ''file.write'' ''typed-mutate'' True False [''file_path''] True True False ''checkpoint'' ''git-if-available'',
      tool_data ''start_process'' ''process.shell'' ''shell'' True False [] False True False ''irreversible'' ''git-if-available'',
      tool_data ''interact_with_process'' ''process.shell'' ''shell'' True False [] False True False ''irreversible'' ''git-if-available'',
      tool_data ''read_process_output'' ''process.shell'' ''inspect'' False False [] False False False ''none'' ''none'',
      tool_data ''list_processes'' ''inspect'' ''inspect'' False False [] False False False ''none'' ''none'',
      tool_data ''list_sessions'' ''inspect'' ''inspect'' False False [] False False False ''none'' ''none'',
      tool_data ''force_terminate'' ''process.shell'' ''destructive'' True False [] False False False ''irreversible'' ''none'',
      tool_data ''kill_process'' ''process.shell'' ''destructive'' True False [] False False False ''irreversible'' ''none'',
      tool_data ''set_config_value'' ''compat'' ''privileged'' True False [] False False True ''irreversible'' ''none'',
      tool_data ''get_recent_tool_calls'' ''compat'' ''privileged'' False False [] False False True ''none'' ''none'',
      tool_data ''give_feedback_to_desktop_commander'' ''compat'' ''network'' False True [] False False True ''none'' ''none'',
      tool_data ''get_prompts'' ''compat'' ''privileged'' False False [] False False True ''none'' ''none''])]"

record adapter_source =
  ar_version :: string
  ar_sourceHash :: "string option"

definition loadDesktopCommanderManifest :: "adapter_source \<Rightarrow> adapter_manifest option" where
  "loadDesktopCommanderManifest s = map_option (\<lambda>m. m\<lparr>am_version := ar_version s, am_source := ''@wonderwhy-er/desktop-commander'', am_sourceHash := ar_sourceHash s\<rparr>)
     (decodeAdapterManifest DESKTOP_COMMANDER_MANIFEST_DATA)"

text \<open>What the child process reports of its configuration: the telemetry flag and the directories, where they are present.\<close>

record backend_config =
  bc_telemetryEnabled :: "json option"
  bc_allowedDirectories :: "string list"

datatype start_error = StartManifest | StartRefused "adapter_refusal list" | StartMissingTools "string list" | StartWidened | StartArguments compat_error | StartNoConfig | StartTelemetry | StartRoots

text \<open>The backend a node runs: the adapter itself or the packaged one that extends it.\<close>

datatype node_backend = IncumbentBackend | NativeBackend

definition manifestForSource :: "node_backend \<Rightarrow> adapter_source \<Rightarrow> adapter_manifest option" where
  "manifestForSource b s = (case b of
      IncumbentBackend \<Rightarrow> loadDesktopCommanderManifest s
    | NativeBackend \<Rightarrow> map_option (\<lambda>m. m\<lparr>am_source := ''@dex-reach/native-backend''\<rparr>) (loadDesktopCommanderManifest s))"

definition verifyOfferedTools :: "node_backend \<Rightarrow> string list \<Rightarrow> string list \<Rightarrow> start_error + unit" where
  "verifyOfferedTools b offered admitted =
     (let missing = filter (\<lambda>n. n \<notin> set offered) admitted
      in if missing \<noteq> [] then Inl (StartMissingTools missing)
         else if b = NativeBackend \<and> (length offered \<noteq> 22 \<or> list_ex (\<lambda>n. n \<notin> set admitted) offered) then Inl StartWidened
         else Inr ())"

text \<open>The arguments with which the adapter sets the allowed roots; the packaged backend gets them in its environment.\<close>

definition configure_roots :: "node_backend \<Rightarrow> string list \<Rightarrow> compat_error option" where
  "configure_roots b roots = (if b = IncumbentBackend
     then validateCompatibilityArguments (JObj [(''key'', JStr ''allowedDirectories''), (''value'', JArr (map JStr roots))]) else None)"

text \<open>The start of the adapter: the tools a client will see, or the reason the node does not come up.\<close>

definition startRuntime :: "node_backend \<Rightarrow> adapter_source \<Rightarrow> string list \<Rightarrow> backend_config option \<Rightarrow> string list \<Rightarrow> adapter_registry \<Rightarrow> (start_error + string list) \<times> adapter_registry" where
  "startRuntime b s offered config roots reg = (case manifestForSource b s of
      None \<Rightarrow> (Inl StartManifest, reg)
    | Some m \<Rightarrow> (case install_adapter m reg of
        (Inl e, r1) \<Rightarrow> (Inl (StartRefused e), r1)
      | (Inr a, r1) \<Rightarrow> (let surface = remoteToolSurface r1 in
          (case verifyOfferedTools b offered surface of
             Inl e \<Rightarrow> Inl e
           | Inr _ \<Rightarrow> (case configure_roots b roots of
                 Some e \<Rightarrow> Inl (StartArguments e)
               | None \<Rightarrow> (case config of
                 None \<Rightarrow> Inl StartNoConfig
               | Some c \<Rightarrow>
                   if bc_telemetryEnabled c \<noteq> Some (JBool False) then Inl StartTelemetry
                   else if length (bc_allowedDirectories c) \<noteq> length roots \<or> \<not> set roots \<subseteq> set (bc_allowedDirectories c) then Inl StartRoots
                   else Inr (filter (\<lambda>t. t \<in> set surface) offered))), r1))))"

section \<open>The bound is exact\<close>

lemma size_child: "c \<in> set (children j) \<Longrightarrow> size c < size j"
proof -
  assume "c \<in> set (children j)"
  then have "Suc (size c) \<le> sum_list (map (\<lambda>c. Suc (size c)) (children j))"
    by (intro member_le_sum_list) auto
  with size_children [of j] show ?thesis by simp
qed

text \<open>Every value inside a value, with its depth.\<close>

function json_nodes :: "nat \<Rightarrow> json \<Rightarrow> (json \<times> nat) list" where
  "json_nodes d j = (j, d) # concat (map (json_nodes (Suc d)) (children j))"
  by pat_completeness auto
termination by (relation "measure (\<lambda>(d, j). size j)") (auto simp: size_child)

declare json_nodes.simps [simp del]

definition arguments_bounded :: "json \<Rightarrow> bool" where
  "arguments_bounded v = (let ns = json_nodes 0 v
     in length ns \<le> 4096 \<and> list_all (\<lambda>(j, d). d \<le> 24 \<and> length (children j) \<le> 256) ns \<and> 2 + sum_list (map (\<lambda>(j, d). own_bytes j) ns) \<le> 262144)"

lemma own_bytes_nonneg: "0 \<le> own_bytes j"
proof -
  have "0 \<le> sum_list (map (\<lambda>(k, v). utf8_length k + 3) kvs)" for kvs :: "(string \<times> json) list"
    by (rule sum_list_nonneg) auto
  then show ?thesis by (cases j) simp_all
qed

lemma too_wide_None: "too_wide j = None \<longleftrightarrow> length (children j) \<le> 256"
  by (cases j) (simp_all add: COMPAT_ARGUMENT_LIMITS_def not_less)

lemma mset_concat_rev: "mset (concat (map f (rev xs))) = mset (concat (map f xs))"
  by (induction xs) simp_all

text \<open>The rest of the bound, for what is still on the stack.\<close>

definition fits :: "nat \<Rightarrow> rat \<Rightarrow> (json \<times> nat) multiset \<Rightarrow> bool" where
  "fits n b M = (n + size M \<le> 4096 \<and> (\<forall>(j, d) \<in># M. d \<le> 24 \<and> length (children j) \<le> 256) \<and> b + sum_mset (image_mset (\<lambda>(j, d). own_bytes j) M) \<le> 262144)"

lemma fits_add: "fits n b (add_mset (j, d) M) \<longleftrightarrow> Suc n \<le> 4096 \<and> d \<le> 24 \<and> length (children j) \<le> 256 \<and> b + own_bytes j \<le> 262144 \<and> fits (Suc n) (b + own_bytes j) M"
proof -
  have "0 \<le> (\<Sum>(j, d) \<in># M. own_bytes j)" by (induction M) (auto simp: own_bytes_nonneg)
  then show ?thesis by (auto simp: fits_def add.assoc)
qed

lemma visit_fits: "n \<le> 4096 \<Longrightarrow> b \<le> 262144 \<Longrightarrow> visit stack n b = None \<longleftrightarrow> fits n b (mset (concat (map (\<lambda>(j, d). json_nodes d j) stack)))"
proof (induction stack n b rule: visit.induct)
  case (1 n b)
  then show ?case by (simp add: fits_def)
next
  case (2 j d stack n b)
  let ?nodes = "\<lambda>st. mset (concat (map (\<lambda>(j, d). json_nodes d j) st))"
  have split: "?nodes ((j, d) # stack) = add_mset (j, d) (?nodes (rev (map (\<lambda>c. (c, Suc d)) (children j)) @ stack))"
    using mset_concat_rev [of "json_nodes (Suc d)" "children j"] by (simp add: json_nodes.simps [of d j] rev_map [symmetric] o_def)
  have limits: "cl_nodes COMPAT_ARGUMENT_LIMITS = 4096" "cl_depth COMPAT_ARGUMENT_LIMITS = 24" "cl_bytes COMPAT_ARGUMENT_LIMITS = 262144"
    by (simp_all add: COMPAT_ARGUMENT_LIMITS_def)
  show ?case
  proof (cases "Suc n \<le> 4096 \<and> d \<le> 24 \<and> length (children j) \<le> 256 \<and> b + own_bytes j \<le> 262144")
    case True
    then have "visit ((j, d) # stack) n b = visit (rev (map (\<lambda>c. (c, Suc d)) (children j)) @ stack) (Suc n) (b + own_bytes j)"
      using too_wide_None [of j] by (simp add: limits)
    moreover have "\<dots> = None \<longleftrightarrow> fits (Suc n) (b + own_bytes j) (?nodes (rev (map (\<lambda>c. (c, Suc d)) (children j)) @ stack))"
      using True too_wide_None [of j] by (intro 2) (simp_all add: limits)
    ultimately show ?thesis unfolding split fits_add using True by simp
  next
    case False
    then have "visit ((j, d) # stack) n b \<noteq> None" using too_wide_None [of j] by (auto simp: limits split: option.split)
    with False show ?thesis unfolding split fits_add by blast
  qed
qed

text \<open>
  C40: The bound on compatibility arguments is exact: the walk over the stack accepts a value exactly when it is
  an object of at most 4096 values in all, nested at most 24 deep, with no array or object wider than 256 and at
  most 256 KiB of text, whatever their order.
\<close>

theorem argument_bound_is_exact:
  "validateCompatibilityArguments v = None \<longleftrightarrow> is_object v \<and> \<not> is_array v \<and> arguments_bounded v"
proof -
  have "fits 0 2 (mset (json_nodes 0 v)) \<longleftrightarrow> arguments_bounded v"
    by (simp add: fits_def arguments_bounded_def Let_def list_all_iff sum_mset_sum_list [symmetric])
  then show ?thesis using visit_fits [of 0 2 "[(v, 0)]"] by (cases v) (simp_all add: validateCompatibilityArguments_def)
qed

section \<open>Installed adapters\<close>

text \<open>What installation establishes for one adapter.\<close>

definition corroborated :: "string \<Rightarrow> tool_declaration \<Rightarrow> bool" where
  "corroborated adapter d = (\<exists>k. describeCompatibilityTool (td_tool d) = Some k \<and> ct_adapter k = adapter \<and> factsDisagree d k = [])"

lemma judge_tool_Nil: "judge_tool adapter d = [] \<longleftrightarrow> corroborated adapter d"
  by (auto simp: judge_tool_def corroborated_def split: option.split)

definition admission_ok :: "string \<Rightarrow> adapter_admission \<Rightarrow> bool" where
  "admission_ok i a = (i = am_adapter (aa_manifest a) \<and> aa_admitted a = am_tools (aa_manifest a) \<and> (\<forall>d \<in> set (aa_admitted a). corroborated i d) \<and>
     (\<forall>k \<in> set COMPATIBILITY_TOOLS. ct_adapter k = i \<longrightarrow> provides (ct_tool k) a))"

definition registry_ok :: "adapter_registry \<Rightarrow> bool" where
  "registry_ok reg = (distinct (map fst reg) \<and> (\<forall>(i, a) \<in> set reg. admission_ok i a))"

inductive adapter_reach :: "adapter_registry \<Rightarrow> bool" where
  none: "adapter_reach []"
| install: "adapter_reach reg \<Longrightarrow> adapter_reach (snd (installFrom v reg))"
| start: "adapter_reach reg \<Longrightarrow> adapter_reach (snd (startRuntime b s offered config roots reg))"

lemma provides_iff: "provides t a \<longleftrightarrow> t \<in> td_tool ` set (aa_admitted a)"
  by (auto simp: provides_def list_ex_iff)

lemma admitted_ok: "aa_refusals (admitAdapterManifest m) = [] \<Longrightarrow> admission_ok (am_adapter m) (admitAdapterManifest m)"
  by (auto simp: admitAdapterManifest_def admission_ok_def judge_tool_Nil provides_iff filter_id_conv filter_empty_conv)

lemma install_ok: "registry_ok reg \<Longrightarrow> registry_ok (snd (install_adapter m reg))"
  using admitted_ok [of m] distinct_obj_put [of reg] set_obj_put [of "am_adapter m" "admitAdapterManifest m" reg]
  by (fastforce simp: install_adapter_def Let_def registry_ok_def)

lemma reach_ok: "adapter_reach reg \<Longrightarrow> registry_ok reg"
proof (induction rule: adapter_reach.induct)
  case none
  show ?case by (simp add: registry_ok_def)
next
  case (install reg v)
  then show ?case by (simp add: installFrom_def install_ok split: option.split)
next
  case (start reg b s offered config roots)
  have "snd (startRuntime b s offered config roots reg) \<in> {reg} \<union> {snd (install_adapter m reg) | m. True}"
    by (auto simp: startRuntime_def Let_def split: option.split prod.split sum.split) (metis snd_conv)+
  with start install_ok show ?case by auto
qed

text \<open>In such a registry a tool has one provider: the adapter the catalogue names.\<close>

lemma provider_is_catalogued:
  assumes "registry_ok reg" and "(i, a) \<in> set reg" and "provides t a"
  shows "\<exists>k. describeCompatibilityTool t = Some k \<and> ct_adapter k = i"
  using assms by (fastforce simp: registry_ok_def admission_ok_def provides_iff corroborated_def)

lemma find_provider:
  assumes "registry_ok reg" and "(i, a) \<in> set reg" and "provides t a"
  shows "List.find (\<lambda>(i, a). provides t a) reg = Some (i, a)"
proof -
  obtain k where k: "describeCompatibilityTool t = Some k" "ct_adapter k = i" using provider_is_catalogued [OF assms] by blast
  obtain j b where f: "List.find (\<lambda>(i, a). provides t a) reg = Some (j, b)"
    using assms(2,3) by (cases "List.find (\<lambda>(i, a). provides t a) reg") (auto simp: find_None_iff)
  then have jb: "(j, b) \<in> set reg" "provides t b" by (auto dest: find_SomeD)
  then have "j = i" using provider_is_catalogued [OF assms(1) jb] k by auto
  moreover have "distinct (map fst reg)" using assms(1) by (simp add: registry_ok_def)
  ultimately show ?thesis using f jb assms(2) by (metis eq_key_imp_eq_value)
qed

lemma remote_surface_iff:
  assumes "registry_ok reg"
  shows "t \<in> set (remoteToolSurface reg) \<longleftrightarrow> \<not> remoteAdapterToolRefusal reg t"
proof
  assume "t \<in> set (remoteToolSurface reg)"
  then obtain i a d where r: "(i, a) \<in> set reg" "d \<in> set (aa_admitted a)" "\<not> td_remoteBlocked d" "t = td_tool d"
    by (auto simp: remoteToolSurface_def sort_names_def)
  then have p: "provides t a" by (auto simp: provides_iff)
  from assms r have "corroborated i d" by (auto simp: registry_ok_def admission_ok_def)
  then obtain k where k: "describeCompatibilityTool t = Some k" "factsDisagree d k = []" using r by (auto simp: corroborated_def)
  then have "fact_agrees d k FactRemoteBlocked" by (auto simp: factsDisagree_def Let_def AUTHORITY_FACTS_def split: if_splits)
  with r k show "\<not> remoteAdapterToolRefusal reg t"
    by (simp add: remoteAdapterToolRefusal_def resolveTool_def find_provider [OF assms r(1) p, unfolded r(4)] fact_agrees_def)
next
  assume "\<not> remoteAdapterToolRefusal reg t"
  then obtain i a k where f: "List.find (\<lambda>(i, a). provides t a) reg = Some (i, a)" and k: "describeCompatibilityTool t = Some k" "\<not> ct_remoteBlocked k"
    by (auto simp: remoteAdapterToolRefusal_def resolveTool_def split: option.splits)
  then have r: "(i, a) \<in> set reg" "provides t a" by (auto dest: find_SomeD)
  then obtain d where d: "d \<in> set (aa_admitted a)" "td_tool d = t" by (auto simp: provides_iff)
  with assms r k have "factsDisagree d k = []" by (fastforce simp: registry_ok_def admission_ok_def corroborated_def)
  then have "fact_agrees d k FactRemoteBlocked" by (auto simp: factsDisagree_def Let_def AUTHORITY_FACTS_def split: if_splits)
  with k have "\<not> td_remoteBlocked d" by (simp add: fact_agrees_def)
  with r d show "t \<in> set (remoteToolSurface reg)" by (force simp: remoteToolSurface_def sort_names_def)
qed


section \<open>The shipped manifest\<close>

lemma shipped_manifest: "\<exists>m. decodeAdapterManifest DESKTOP_COMMANDER_MANIFEST_DATA = Some m \<and> am_adapter m = ''desktop-commander'' \<and>
   aa_refusals (admitAdapterManifest m) = []"
proof -
  have "(case decodeAdapterManifest DESKTOP_COMMANDER_MANIFEST_DATA of None \<Rightarrow> False
      | Some m \<Rightarrow> am_adapter m = ''desktop-commander'' \<and> aa_refusals (admitAdapterManifest m) = [])" by code_simp
  then show ?thesis by (auto split: option.splits)
qed

lemma all_desktop: "list_all (\<lambda>k. ct_adapter k = ''desktop-commander'') COMPATIBILITY_TOOLS"
  by code_simp

lemma remote_described: "list_all (\<lambda>t. \<exists>k \<in> set COMPATIBILITY_TOOLS. describeCompatibilityTool t = Some k \<and> \<not> ct_remoteBlocked k) remoteCompatibilityTools"
  by code_simp

text \<open>The registry after its installation on a node without other adapters.\<close>

lemma shipped_registry:
  assumes m: "aa_refusals (admitAdapterManifest m) = []" "am_adapter m = ''desktop-commander''"
    and m': "m' = m\<lparr>am_version := v, am_source := z, am_sourceHash := h\<rparr>"
  shows "\<exists>a. install_adapter m' [] = (Inr a, [(''desktop-commander'', a)]) \<and> set (remoteToolSurface [(''desktop-commander'', a)]) = set remoteCompatibilityTools"
proof -
  let ?a = "admitAdapterManifest m'" and ?reg = "[(''desktop-commander'', admitAdapterManifest m')]"
  have n: "aa_refusals ?a = []" using m(1) by (simp add: admitAdapterManifest_def m')
  then have i: "install_adapter m' [] = (Inr ?a, ?reg)"
    by (simp add: install_adapter_def Let_def providerOf_def m(2) m' obj_put_def)
  from install_ok [of "[]" m'] have ok: "registry_ok ?reg" by (simp add: i registry_ok_def)
  have p: "provides (ct_tool k) ?a" if "k \<in> set COMPATIBILITY_TOOLS" for k
  proof -
    have "ct_adapter k = ''desktop-commander''" using that all_desktop by (simp add: list_all_iff)
    with ok that show ?thesis by (simp add: registry_ok_def admission_ok_def)
  qed
  have "t \<in> set (remoteToolSurface ?reg) \<longleftrightarrow> t \<in> set remoteCompatibilityTools" for t
  proof -
    have "\<not> remoteAdapterToolRefusal ?reg t \<longleftrightarrow> (\<exists>k. describeCompatibilityTool t = Some k \<and> \<not> ct_remoteBlocked k)"
      using describeCompatibilityTool_SomeD [of t] p by (auto simp: remoteAdapterToolRefusal_def resolveTool_def split: option.splits)
    also have "\<dots> \<longleftrightarrow> t \<in> set remoteCompatibilityTools"
      using remote_described by (force simp: list_all_iff remoteCompatibilityTools_def dest: describeCompatibilityTool_SomeD)
    finally show ?thesis using remote_surface_iff [OF ok, of t] by simp
  qed
  then show ?thesis using i by blast
qed

text \<open>
  The shipped manifest agrees with the catalogue. On a node without other adapters its installation is
  never refused, whatever source was found on disk, and if the adapter comes up then clients see exactly the
  unblocked tools of the catalogue (and the packaged backend offers nothing else), telemetry is off and every allowed root is configured.
\<close>

theorem shipped_adapter_serves_the_catalogue:
  "(\<exists>m a reg. manifestForSource b s = Some m \<and> install_adapter m [] = (Inr a, reg)) \<and>
   (case startRuntime b s offered config roots [] of
      (Inr tools, reg) \<Rightarrow> set tools = set remoteCompatibilityTools \<and> set tools \<subseteq> set offered \<and>
        (b = IncumbentBackend \<or> set offered = set tools \<and> length offered = 22) \<and>
        (\<exists>c. config = Some c \<and> bc_telemetryEnabled c = Some (JBool False) \<and> set roots \<subseteq> set (bc_allowedDirectories c))
    | (Inl e, reg) \<Rightarrow> e \<noteq> StartManifest \<and> (\<forall>rs. e \<noteq> StartRefused rs))"
proof -
  obtain m where m: "decodeAdapterManifest DESKTOP_COMMANDER_MANIFEST_DATA = Some m" "am_adapter m = ''desktop-commander''"
      "aa_refusals (admitAdapterManifest m) = []" using shipped_manifest by blast
  obtain z where l: "manifestForSource b s = Some (m\<lparr>am_version := ar_version s, am_source := z, am_sourceHash := ar_sourceHash s\<rparr>)"
    by (cases b; cases m) (auto simp: manifestForSource_def loadDesktopCommanderManifest_def m)
  let ?m = "m\<lparr>am_version := ar_version s, am_source := z, am_sourceHash := ar_sourceHash s\<rparr>"
  obtain a where i: "install_adapter ?m [] = (Inr a, [(''desktop-commander'', a)])"
    and surface: "set (remoteToolSurface [(''desktop-commander'', a)]) = set remoteCompatibilityTools"
    using shipped_registry [OF m(3,2) refl] by blast
  have v: "set (remoteToolSurface [(''desktop-commander'', a)]) \<subseteq> set offered \<and>
      (b = IncumbentBackend \<or> set offered \<subseteq> set (remoteToolSurface [(''desktop-commander'', a)]) \<and> length offered = 22)"
    if "verifyOfferedTools b offered (remoteToolSurface [(''desktop-commander'', a)]) = Inr u" for u
    using that by (cases b) (auto simp: verifyOfferedTools_def Let_def filter_empty_conv list_ex_iff split: if_splits)
  have r: "e \<noteq> StartManifest \<and> (\<forall>rs. e \<noteq> StartRefused rs)"
    if "verifyOfferedTools b offered (remoteToolSurface [(''desktop-commander'', a)]) = Inl e" for e
    using that by (auto simp: verifyOfferedTools_def Let_def split: if_splits)
  show ?thesis using l i v r unfolding startRuntime_def surface [symmetric]
    by (simp add: Let_def split: option.split sum.split if_split) blast
qed


text \<open>A declaration whose reversibility is wrapped in an array escapes the check against mutation.\<close>

theorem wrapped_reversibility_is_admitted:
  "\<exists>d. decodeAdapterToolDeclaration (JObj [(''tool'', JStr ''kill_process''), (''capability'', JStr ''process.shell''), (''risk'', JStr ''destructive''),
       (''mutation'', JBool True), (''network'', JBool False), (''pathArguments'', JArr []), (''workspaceSafeAllowed'', JBool False), (''supportsPlan'', JBool False),
       (''remoteBlocked'', JBool False), (''reversibility'', JArr [JStr ''none'']), (''checkpointStrategy'', JStr ''none'')]) = Some d \<and>
     td_mutation d \<and> judge_tool ''desktop-commander'' d = []"
proof -
  have "(case decodeAdapterToolDeclaration (JObj [(''tool'', JStr ''kill_process''), (''capability'', JStr ''process.shell''), (''risk'', JStr ''destructive''),
       (''mutation'', JBool True), (''network'', JBool False), (''pathArguments'', JArr []), (''workspaceSafeAllowed'', JBool False), (''supportsPlan'', JBool False),
       (''remoteBlocked'', JBool False), (''reversibility'', JArr [JStr ''none'']), (''checkpointStrategy'', JStr ''none'')]) of
     None \<Rightarrow> False | Some d \<Rightarrow> td_mutation d \<and> judge_tool ''desktop-commander'' d = [])" by code_simp
  then show ?thesis by (auto split: option.splits)
qed

end
