(* ===== verification/Reach_Executor.thy ===== *)
theory Reach_Executor
  imports Reach_Secrets Reach_Adapters Reach_Plans
begin

text \<open>
  What the node does for an operation, and what it checks first: the dispatcher's guards of
  \<open>executeOperation\<close> (\<open>src/src/node/main.ts\<close>), the native executor \<open>nativeCall\<close> with the opening of
  \<open>nativeProcess\<close> (\<open>src/src/node/native.ts\<close>), the operations a workspace worker may take over
  (\<open>src/src/shared/workspace-worker.ts\<close>) and the execution identity a plan is bound to
  (\<open>src/src/shared/execution-identity.ts\<close>).

  An effect names the call that leaves the model: a compatibility tool, the worker's socket, or one of the
  native functions with its final arguments. Deciding on an operation gives an error, an effect, or one of the
  three operations that only touch files of this development. The text of a value that is not a string is a
  parameter; the secrets a process gets are resolved by the broker of \<open>Reach_Secrets\<close>.
\<close>

section \<open>Effects\<close>

datatype exec_effect =
    EffTool string json
  | EffReport
  | EffWorker string json
  | EffFingerprint string
  | EffRepoInfo string
  | EffInspect string json
  | EffAdb
  | EffCheckpoint string
  | EffRead string "rat option"
  | EffWrite string string bool
  | EffProcess string string rat resolved_secrets

datatype exec_error =
    ExProfile profile_refusal
  | ExOperation op_error
  | ExSecrets secret_refusal
  | ExNotProvided string
  | ExGuard guard_refusal
  | ExArguments compat_error
  | ExReadOnly string
  | ExNotAbsolute string
  | ExOutsideRoots string
  | ExUnknownNative string
  | ExSecretStore secret_error
  | ExInjection reach_profile
  | ExTimeLimit

record exec_env =
  xe_node :: node_env
  xe_nodeId :: string
  xe_profile :: reach_profile
  xe_roots :: "string list"
  xe_registry :: adapter_registry
  xe_text :: "json \<Rightarrow> string"
  xe_broker :: secret_env
  xe_secretFile :: "json stored"

definition truthy :: "json \<Rightarrow> bool" where
  "truthy j = (j \<noteq> JNull \<and> j \<noteq> JBool False \<and> j \<noteq> JNum 0 \<and> j \<noteq> JStr [])"

text \<open>\<open>String(v || '')\<close> and \<open>Number(v || d)\<close>.\<close>

definition text_of :: "exec_env \<Rightarrow> json option \<Rightarrow> string" where
  "text_of E v = (case v of Some (JStr s) \<Rightarrow> s | Some j \<Rightarrow> if truthy j then xe_text E j else [] | None \<Rightarrow> [])"

definition number_of :: "json option \<Rightarrow> rat \<Rightarrow> rat option" where
  "number_of v d = (case v of Some j \<Rightarrow> if truthy j then js_to_number j else Some d | None \<Rightarrow> Some d)"

definition object_of :: "json option \<Rightarrow> json" where
  "object_of v = (case v of Some j \<Rightarrow> if truthy j then j else JObj [] | None \<Rightarrow> JObj [])"

text \<open>The first refusal of a list of checks.\<close>

fun first_refusal_of :: "'e option list \<Rightarrow> 'e option" where
  "first_refusal_of [] = None"
| "first_refusal_of (Some e # cs) = Some e"
| "first_refusal_of (None # cs) = first_refusal_of cs"

lemma first_refusal_None [simp]: "first_refusal_of cs = None \<longleftrightarrow> (\<forall>c \<in> set cs. c = None)"
  by (induction cs rule: first_refusal_of.induct) auto

definition unless :: "'e option list \<Rightarrow> 'e + 'a \<Rightarrow> 'e + 'a" where
  "unless cs r = (case first_refusal_of cs of Some e \<Rightarrow> Inl e | None \<Rightarrow> r)"

lemma unless_Inr [simp]: "unless cs r = Inr x \<longleftrightarrow> (\<forall>c \<in> set cs. c = None) \<and> r = Inr x"
  by (cases "first_refusal_of cs") (simp_all add: unless_def first_refusal_None [symmetric] del: first_refusal_None)

text \<open>A check that throws, refuses or passes.\<close>

definition refusal_of :: "('a \<Rightarrow> exec_error) \<Rightarrow> op_error + 'a option \<Rightarrow> exec_error option" where
  "refusal_of f r = (case r of Inl e \<Rightarrow> Some (ExOperation e) | Inr (Some x) \<Rightarrow> Some (f x) | Inr None \<Rightarrow> None)"

lemma refusal_of_None [simp]: "refusal_of f r = None \<longleftrightarrow> r = Inr None"
  by (auto simp: refusal_of_def split: sum.split option.split)

section \<open>The native executor\<close>

definition scope_of_path :: "exec_env \<Rightarrow> string \<Rightarrow> bool" where
  "scope_of_path E p = pathAllowed (ne_realpath (xe_node E)) (ne_stateDir (xe_node E)) p (xe_roots E)"

definition scopedPath :: "exec_env \<Rightarrow> json option \<Rightarrow> string \<Rightarrow> exec_error + string" where
  "scopedPath E v label = (case v of
      Some (JStr p) \<Rightarrow>
        if \<not> isAbsolute p then Inl (ExNotAbsolute label)
        else (case canonicalPathForScope (ne_realpath (xe_node E)) p of
            Some c \<Rightarrow> if c \<noteq> [] \<and> scope_of_path E c then Inr c else Inl (ExOutsideRoots p)
          | None \<Rightarrow> Inl (ExOutsideRoots p))
    | _ \<Rightarrow> Inl (ExNotAbsolute label))"

definition defaultCwd :: "exec_env \<Rightarrow> string" where
  "defaultCwd E = (let cwd = ne_cwd (xe_node E)
     in if scope_of_path E cwd then cwd else case xe_roots E of r # rs \<Rightarrow> r | [] \<Rightarrow> cwd)"

text \<open>The working directory of an operation: the argument when it is a string, else the default.\<close>

definition working_directory :: "exec_env \<Rightarrow> json \<Rightarrow> exec_error + string" where
  "working_directory E args = scopedPath E (Some (JStr (case str_field args ''cwd'' of Some c \<Rightarrow> c | None \<Rightarrow> defaultCwd E))) ''cwd''"

definition on_path :: "(string \<Rightarrow> exec_effect) \<Rightarrow> exec_error + string \<Rightarrow> exec_error + exec_effect" where
  "on_path f r = (case r of Inl e \<Rightarrow> Inl e | Inr p \<Rightarrow> Inr (f p))"

definition secret_check :: "string \<Rightarrow> reach_profile \<Rightarrow> json \<Rightarrow> exec_error option" where
  "secret_check op prof args = map_option ExSecrets (secretInjectionRefusal op prof args)"

text \<open>
  The opening of a process: its secrets are resolved, then the command is judged, then injection and the time
  limit; only then is anything recorded or started.
\<close>

definition secrets_for :: "exec_env \<Rightarrow> json \<Rightarrow> secret_error + resolved_secrets" where
  "secrets_for E args = (case requestedSecretAliases args of Inl e \<Rightarrow> Inl e | Inr as \<Rightarrow> resolveSecrets (xe_broker E) as (xe_secretFile E))"

definition process_effect :: "exec_env \<Rightarrow> json \<Rightarrow> reach_profile \<Rightarrow> string \<Rightarrow> exec_error + exec_effect" where
  "process_effect E args prof cwd =
     (case secrets_for E args of
        Inl e \<Rightarrow> Inl (ExSecretStore e)
      | Inr rs \<Rightarrow>
          (let command = text_of E (jget args ''command'')
           in unless [map_option ExGuard (commandGuard (ne_realpath (xe_node E)) (ne_stateDir (xe_node E)) command prof (xe_roots E)),
                      if rs_values rs \<noteq> [] \<and> (prof = ProfReadOnly \<or> prof = ProfWorkspaceSafe) then Some (ExInjection prof) else None]
                (case jget args ''timeoutMs'' of
                   None \<Rightarrow> Inr (EffProcess command cwd 15000 rs)
                 | Some (JNum t) \<Rightarrow> Inr (EffProcess command cwd t rs)
                 | Some _ \<Rightarrow> Inl ExTimeLimit)))"

definition nativeCall :: "exec_env \<Rightarrow> string \<Rightarrow> json \<Rightarrow> reach_profile \<Rightarrow> exec_error + exec_effect" where
  "nativeCall E op args prof =
     unless [if prof = ProfReadOnly \<and> (case describeOperation op of Some d \<Rightarrow> \<not> od_readOnlyAllowed d | None \<Rightarrow> False) then Some (ExReadOnly op) else None,
             refusal_of ExProfile (workspaceSafeOperationRefusal prof op None),
             secret_check op prof args]
       (if op = ''dex.fingerprint'' then on_path EffFingerprint (working_directory E args)
        else if op = ''dex.repoInfo'' then on_path (\<lambda>cwd. case jget args ''inspection'' of None \<Rightarrow> EffRepoInfo cwd | Some i \<Rightarrow> EffInspect cwd i) (working_directory E args)
        else if op = ''dex.adbDevices'' then Inr EffAdb
        else if op = ''dex.checkpoint'' then on_path EffCheckpoint (working_directory E args)
        else if op = ''dex.file.read'' then on_path (\<lambda>f. EffRead f (number_of (jget args ''maxBytes'') (1024 * 1024))) (scopedPath E (jget args ''path'') ''path'')
        else if op = ''dex.file.write'' then
          unless [if prof = ProfReadOnly then Some (ExReadOnly op) else None]
            (on_path (\<lambda>f. EffWrite f (case jget args ''text'' of Some (JStr s) \<Rightarrow> s | Some JNull \<Rightarrow> [] | Some j \<Rightarrow> xe_text E j | None \<Rightarrow> [])
                (jget args ''mode'' = Some (JStr ''append''))) (scopedPath E (jget args ''path'') ''path''))
        else if op = ''dex.process.run'' then
          (case working_directory E args of Inl e \<Rightarrow> Inl e | Inr cwd \<Rightarrow> process_effect E args prof cwd)
        else Inl (ExUnknownNative op))"

section \<open>The guards of the dispatcher\<close>

definition WORKSPACE_WORKER_OPERATIONS :: "string list" where
  "WORKSPACE_WORKER_OPERATIONS = [''dex.fingerprint'', ''dex.repoInfo'', ''dex.file.read'']"

definition workspaceWorkerEligible :: "string \<Rightarrow> json \<Rightarrow> bool" where
  "workspaceWorkerEligible op args = (op \<in> set WORKSPACE_WORKER_OPERATIONS \<and> jget args ''secrets'' = None \<and>
     \<not> (op = ''dex.repoInfo'' \<and> jget args ''inspection'' \<noteq> None))"

text \<open>The outcome of the guards. An eligible operation goes to the worker first, with the native decision as its fallback.\<close>

datatype choice =
    ChEffect exec_effect
  | ChWorker exec_effect "exec_error + exec_effect"
  | ChResult string "rat option" "rat option"
  | ChReceipts "rat option"
  | ChRequest new_capability_request

definition texts_of :: "exec_env \<Rightarrow> json option \<Rightarrow> json option \<Rightarrow> string list" where
  "texts_of E many one = (case many of
      Some (JArr xs) \<Rightarrow> map (\<lambda>x. case x of JStr s \<Rightarrow> s | _ \<Rightarrow> xe_text E x) xs
    | _ \<Rightarrow> (case one of Some (JStr s) \<Rightarrow> [s] | _ \<Rightarrow> []))"

text \<open>A duration or a ceiling that is not a number reads as 0, which the request refuses like \<open>NaN\<close>.\<close>

definition capability_input :: "exec_env \<Rightarrow> request_actor option \<Rightarrow> json \<Rightarrow> new_capability_request" where
  "capability_input E actor args =
     \<lparr>nr_client = actor_kind actor, nr_capabilities = texts_of E (jget args ''capabilities'') (jget args ''capability''),
      nr_roots = texts_of E (jget args ''roots'') (jget args ''root''),
      nr_durationMs = (case number_of (jget args ''durationMs'') 0 of Some d \<Rightarrow> d | None \<Rightarrow> 0),
      nr_maxUses = (case jget args ''maxUses'' of None \<Rightarrow> None | Some JNull \<Rightarrow> None
        | Some j \<Rightarrow> Some (case js_to_number j of Some n \<Rightarrow> n | None \<Rightarrow> 0)),
      nr_justification = text_of E (jget args ''justification''), nr_operation = str_field args ''operation'', nr_args = None\<rparr>"

definition tool_choice :: "exec_env \<Rightarrow> json \<Rightarrow> reach_profile \<Rightarrow> exec_error + choice" where
  "tool_choice E args prof =
     (let t = text_of E (jget args ''tool''); targs = object_of (jget args ''arguments'')
      in unless [if remoteAdapterToolRefusal (xe_registry E) t then Some (ExNotProvided t) else None,
                 refusal_of ExGuard (workspaceSafeToolRefusal (xe_profile E) t),
                 refusal_of ExGuard (toolGuard (ne_realpath (xe_node E)) (ne_stateDir (xe_node E)) t targs prof (xe_roots E)),
                 map_option ExArguments (validateCompatibilityArguments targs)]
           (Inr (ChEffect (EffTool t targs))))"

definition choose_effect :: "exec_env \<Rightarrow> string \<Rightarrow> json \<Rightarrow> request_actor option \<Rightarrow> reach_profile \<Rightarrow> exec_error + choice" where
  "choose_effect E op args actor prof =
     unless [refusal_of ExProfile (workspaceSafeOperationRefusal (xe_profile E) op None),
             secret_check op (xe_profile E) args, secret_check op prof args]
       (if op = ''dc.call'' then tool_choice E args prof
        else if op = ''dex.result.read'' then
          Inr (ChResult (text_of E (jget args ''handle'')) (number_of (jget args ''offset'') 0) (number_of (jget args ''length'') 65536))
        else if op = ''dex.trustReport'' then Inr (ChEffect EffReport)
        else if op = ''dex.receipts.list'' then Inr (ChReceipts (number_of (jget args ''limit'') 20))
        else if op = ''dex.capability.request'' then Inr (ChRequest (capability_input E actor args))
        else if workspaceWorkerEligible op args then Inr (ChWorker (EffWorker op args) (nativeCall E op args prof))
        else (case nativeCall E op args prof of Inl e \<Rightarrow> Inl e | Inr eff \<Rightarrow> Inr (ChEffect eff)))"

section \<open>Execution identity\<close>

definition EXECUTION_IDENTITY_FIELDS :: "string list" where
  "EXECUTION_IDENTITY_FIELDS = [''nodeId'', ''hostname'', ''platform'', ''arch'', ''user'', ''home'', ''cwd'', ''repositoryRoot'', ''branch'', ''remote'', ''nodeVersion'']"

definition comparableFingerprint :: "json \<Rightarrow> json" where
  "comparableFingerprint fp = JObj (List.map_filter (\<lambda>f. map_option (Pair f) (jget fp f)) EXECUTION_IDENTITY_FIELDS)"

definition executionIdentityHash :: "(json \<Rightarrow> string) \<Rightarrow> json \<Rightarrow> string" where
  "executionIdentityHash sha fp = hashValue sha (comparableFingerprint fp)"

datatype identity_error = IdentityNotObject | IdentityField string | IdentityValue string | IdentityEmpty | IdentityMismatch "string list" | IdentityChanged

definition string_or_null :: "json \<Rightarrow> bool" where
  "string_or_null j = (case j of JNull \<Rightarrow> True | JStr s \<Rightarrow> True | JIso t \<Rightarrow> True | _ \<Rightarrow> False)"

definition parseExecutionIdentityExpectation :: "json option \<Rightarrow> identity_error + (string \<times> json) list option" where
  "parseExecutionIdentityExpectation v = (case v of
      None \<Rightarrow> Inr None
    | Some JNull \<Rightarrow> Inr None
    | Some (JObj kvs) \<Rightarrow> (case List.find (\<lambda>k. k \<notin> set EXECUTION_IDENTITY_FIELDS) (map fst kvs) of
        Some k \<Rightarrow> Inl (IdentityField k)
      | None \<Rightarrow>
          (let named = filter (\<lambda>f. f \<in> fst ` set kvs) EXECUTION_IDENTITY_FIELDS; expectation = map (\<lambda>f. (f, the (map_of kvs f))) named
           in case List.find (\<lambda>(f, j). \<not> string_or_null j) expectation of
                Some (f, j) \<Rightarrow> Inl (IdentityValue f)
              | None \<Rightarrow> if expectation = [] then Inl IdentityEmpty else Inr (Some expectation)))
    | Some _ \<Rightarrow> Inl IdentityNotObject)"

definition value_or_null :: "json option \<Rightarrow> json" where
  "value_or_null v = (case v of Some j \<Rightarrow> j | None \<Rightarrow> JNull)"

definition compareExecutionIdentity :: "(string \<times> json) list \<Rightarrow> json \<Rightarrow> string list" where
  "compareExecutionIdentity expected actual = filter (\<lambda>f. f \<in> fst ` set expected \<and> value_or_null (map_of expected f) \<noteq> value_or_null (jget actual f)) EXECUTION_IDENTITY_FIELDS"

definition assertExecutionIdentityExpectation :: "(string \<times> json) list option \<Rightarrow> json \<Rightarrow> identity_error + unit" where
  "assertExecutionIdentityExpectation expected actual = (case expected of
      None \<Rightarrow> Inr ()
    | Some e \<Rightarrow> (let m = compareExecutionIdentity e actual in if m = [] then Inr () else Inl (IdentityMismatch m)))"

definition assertExecutionIdentityStable :: "(json \<Rightarrow> string) \<Rightarrow> json \<Rightarrow> json \<Rightarrow> identity_error + unit" where
  "assertExecutionIdentityStable sha planned current =
     (if executionIdentityHash sha planned = executionIdentityHash sha current then Inr () else Inl IdentityChanged)"

section \<open>What is decided before an effect\<close>

fun effects_of :: "choice \<Rightarrow> exec_effect list" where
  "effects_of (ChEffect eff) = [eff]"
| "effects_of (ChWorker w r) = w # (case r of Inr eff \<Rightarrow> [eff] | Inl e \<Rightarrow> [])"
| "effects_of (ChResult h a n) = []"
| "effects_of (ChReceipts n) = []"
| "effects_of (ChRequest r) = []"

text \<open>The checks an effect has passed, by the kind of effect.\<close>

definition effect_checked :: "exec_env \<Rightarrow> string \<Rightarrow> json \<Rightarrow> reach_profile \<Rightarrow> exec_effect \<Rightarrow> bool" where
  "effect_checked E op args prof eff = (case eff of
      EffTool t targs \<Rightarrow> op = ''dc.call'' \<and> \<not> remoteAdapterToolRefusal (xe_registry E) t \<and> workspaceSafeToolRefusal (xe_profile E) t = Inr None \<and>
        toolGuard (ne_realpath (xe_node E)) (ne_stateDir (xe_node E)) t targs prof (xe_roots E) = Inr None \<and> validateCompatibilityArguments targs = None
    | EffReport \<Rightarrow> op = ''dex.trustReport''
    | EffWorker w a \<Rightarrow> w = op \<and> a = args \<and> workspaceWorkerEligible op args
    | EffFingerprint cwd \<Rightarrow> op = ''dex.fingerprint'' \<and> scope_of_path E cwd
    | EffRepoInfo cwd \<Rightarrow> op = ''dex.repoInfo'' \<and> scope_of_path E cwd
    | EffInspect cwd i \<Rightarrow> op = ''dex.repoInfo'' \<and> scope_of_path E cwd
    | EffAdb \<Rightarrow> op = ''dex.adbDevices''
    | EffCheckpoint cwd \<Rightarrow> op = ''dex.checkpoint'' \<and> scope_of_path E cwd
    | EffRead f n \<Rightarrow> op = ''dex.file.read'' \<and> scope_of_path E f
    | EffWrite f tx app \<Rightarrow> op = ''dex.file.write'' \<and> scope_of_path E f \<and> prof \<noteq> ProfReadOnly
    | EffProcess c cwd t rs \<Rightarrow> op = ''dex.process.run'' \<and> scope_of_path E cwd \<and>
        commandGuard (ne_realpath (xe_node E)) (ne_stateDir (xe_node E)) c prof (xe_roots E) = None \<and>
        secrets_for E args = Inr rs \<and> (rs_values rs = [] \<or> prof \<noteq> ProfReadOnly \<and> prof \<noteq> ProfWorkspaceSafe) \<and>
        (\<forall>(e, v) \<in> set (rs_env rs). secretEnvNameRefusal e = None))"

lemma scopedPath_ok: "scopedPath E v l = Inr p \<Longrightarrow> scope_of_path E p"
  by (auto simp: scopedPath_def split: option.splits json.splits if_splits)

lemma working_directory_ok: "working_directory E args = Inr p \<Longrightarrow> scope_of_path E p"
  by (auto simp: working_directory_def intro: scopedPath_ok)

lemma on_path_Inr: "on_path f r = Inr eff \<longleftrightarrow> (\<exists>p. r = Inr p \<and> eff = f p)"
  by (auto simp: on_path_def split: sum.splits)

lemma process_effect_checked:
  assumes "process_effect E args prof cwd = Inr eff" and "scope_of_path E cwd"
  shows "effect_checked E ''dex.process.run'' args prof eff"
proof (cases "secrets_for E args")
  case (Inr rs)
  let ?c = "text_of E (jget args ''command'')"
  from Inr assms(1) have u: "commandGuard (ne_realpath (xe_node E)) (ne_stateDir (xe_node E)) ?c prof (xe_roots E) = None"
      "\<not> (rs_values rs \<noteq> [] \<and> (prof = ProfReadOnly \<or> prof = ProfWorkspaceSafe))"
    and r: "(case jget args ''timeoutMs'' of None \<Rightarrow> Inr (EffProcess ?c cwd 15000 rs) | Some (JNum t) \<Rightarrow> Inr (EffProcess ?c cwd t rs) | Some _ \<Rightarrow> Inl ExTimeLimit) = Inr eff"
    by (auto simp: process_effect_def Let_def split: if_splits)
  from r obtain t where "eff = EffProcess ?c cwd t rs" by (auto split: option.splits json.splits)
  moreover have "\<forall>(e, v) \<in> set (rs_env rs). secretEnvNameRefusal e = None"
    using Inr resolveSecrets_names by (auto simp: secrets_for_def split: sum.splits)
  ultimately show ?thesis using u assms(2) Inr by (auto simp: effect_checked_def)
qed (use assms in \<open>simp add: process_effect_def\<close>)

lemma nativeCall_checked:
  assumes "nativeCall E op args prof = Inr eff"
  shows "effect_checked E op args prof eff"
    and "prof = ProfReadOnly \<Longrightarrow> (case describeOperation op of Some d \<Rightarrow> od_readOnlyAllowed d | None \<Rightarrow> True)"
    and "workspaceSafeOperationRefusal prof op None = Inr None"
proof -
  from assms have g: "prof = ProfReadOnly \<Longrightarrow> (case describeOperation op of Some d \<Rightarrow> od_readOnlyAllowed d | None \<Rightarrow> True)"
      "workspaceSafeOperationRefusal prof op None = Inr None"
    by (auto simp: nativeCall_def split: if_splits option.splits)
  then show "prof = ProfReadOnly \<Longrightarrow> (case describeOperation op of Some d \<Rightarrow> od_readOnlyAllowed d | None \<Rightarrow> True)"
      "workspaceSafeOperationRefusal prof op None = Inr None" by blast+
  note n = assms [unfolded nativeCall_def unless_Inr, THEN conjunct2]
  consider "op = ''dex.fingerprint''" | "op = ''dex.repoInfo''" | "op = ''dex.adbDevices''" | "op = ''dex.checkpoint''" | "op = ''dex.file.read''"
    | "op = ''dex.file.write''" | "op = ''dex.process.run''" using n by (metis Inl_Inr_False)
  then show "effect_checked E op args prof eff"
  proof cases
    case 1
    with n show ?thesis by (auto simp: on_path_Inr effect_checked_def dest: working_directory_ok)
  next
    case 2
    with n show ?thesis by (auto simp: on_path_Inr effect_checked_def dest: working_directory_ok split: option.splits)
  next
    case 3
    with n show ?thesis by (auto simp: effect_checked_def)
  next
    case 4
    with n show ?thesis by (auto simp: on_path_Inr effect_checked_def dest: working_directory_ok)
  next
    case 5
    with n show ?thesis by (auto simp: on_path_Inr effect_checked_def dest: scopedPath_ok)
  next
    case 6
    with n show ?thesis by (auto simp: on_path_Inr effect_checked_def dest: scopedPath_ok split: if_splits)
  next
    case 7
    with n show ?thesis by (auto dest: working_directory_ok intro: process_effect_checked split: sum.splits)
  qed
qed

lemma choose_cases:
  assumes "choose_effect E op args actor prof = Inr ch"
  shows "op = ''dc.call'' \<and> tool_choice E args prof = Inr ch \<or> op = ''dex.trustReport'' \<and> ch = ChEffect EffReport \<or> effects_of ch = [] \<or>
     workspaceWorkerEligible op args \<and> ch = ChWorker (EffWorker op args) (nativeCall E op args prof) \<or>
     (\<exists>eff. nativeCall E op args prof = Inr eff \<and> ch = ChEffect eff)"
proof -
  define a b c d e where "a = (op = ''dc.call'')" and "b = (op = ''dex.result.read'')" and "c = (op = ''dex.trustReport'')"
    and "d = (op = ''dex.receipts.list'')" and "e = (op = ''dex.capability.request'')"
  note n = assms [unfolded choose_effect_def unless_Inr, folded a_def b_def c_def d_def e_def, THEN conjunct2]
  show ?thesis using n by (cases a; cases b; cases c; cases d; cases e) (auto simp: a_def c_def split: if_splits sum.splits)
qed

lemma tool_choice_checked:
  assumes "tool_choice E args prof = Inr ch" and "eff \<in> set (effects_of ch)"
  shows "effect_checked E ''dc.call'' args prof eff" and "\<exists>t targs. eff = EffTool t targs"
  using assms by (auto simp: tool_choice_def Let_def effect_checked_def split: if_splits)

lemma chosen_checks:
  assumes "choose_effect E op args actor prof = Inr ch" and "eff \<in> set (effects_of ch)"
  shows "effect_checked E op args prof eff \<and> workspaceSafeOperationRefusal (xe_profile E) op None = Inr None \<and>
     secretInjectionRefusal op (xe_profile E) args = None \<and> secretInjectionRefusal op prof args = None"
proof -
  from assms(1) have "workspaceSafeOperationRefusal (xe_profile E) op None = Inr None"
      "secretInjectionRefusal op (xe_profile E) args = None" "secretInjectionRefusal op prof args = None"
    by (simp_all add: choose_effect_def secret_check_def)
  moreover have "effect_checked E op args prof eff"
    using choose_cases [OF assms(1)]
  proof (elim disjE conjE exE)
    assume "workspaceWorkerEligible op args" "ch = ChWorker (EffWorker op args) (nativeCall E op args prof)"
    then show ?thesis using assms(2) nativeCall_checked(1) by (auto simp: effect_checked_def [of E op args prof "EffWorker op args"] split: sum.splits)
  qed (use assms(2) in \<open>auto simp: tool_choice_checked(1) nativeCall_checked(1) effect_checked_def [of E op' args prof EffReport for op']\<close>)
  ultimately show ?thesis by blast
qed


section \<open>Narrow profiles\<close>

text \<open>The effects that may change something on the machine.\<close>

definition may_change :: "exec_env \<Rightarrow> exec_effect \<Rightarrow> bool" where
  "may_change E eff = (case eff of
      EffTool t targs \<Rightarrow> (case describeCompatibilityTool t of Some k \<Rightarrow> ct_mutation k | None \<Rightarrow> True)
    | EffCheckpoint cwd \<Rightarrow> True
    | EffWrite f tx app \<Rightarrow> True
    | EffWorker w a \<Rightarrow> (case describeOperation w of Some d \<Rightarrow> od_mutation d | None \<Rightarrow> True)
    | EffProcess c cwd t rs \<Rightarrow> parseReadonlyCommand (ne_realpath (xe_node E)) (ne_stateDir (xe_node E)) c (xe_roots E) = None
    | _ \<Rightarrow> False)"

lemma read_only_tools: "t \<in> set READ_ONLY_TOOLS \<Longrightarrow> \<exists>k. describeCompatibilityTool t = Some k \<and> \<not> ct_mutation k"
proof -
  have "list_all (\<lambda>t. case describeCompatibilityTool t of Some k \<Rightarrow> \<not> ct_mutation k | None \<Rightarrow> False) READ_ONLY_TOOLS" by code_simp
  then show "t \<in> set READ_ONLY_TOOLS \<Longrightarrow> \<exists>k. describeCompatibilityTool t = Some k \<and> \<not> ct_mutation k"
    by (auto simp: list_all_iff split: option.splits)
qed

lemma checkpoint_not_read_only: "\<not> (case describeOperation ''dex.checkpoint'' of Some d \<Rightarrow> od_readOnlyAllowed d | None \<Rightarrow> True)"
  by code_simp

lemma commandGuard_narrow:
  assumes "commandGuard rp sd c prof roots = None"
  shows "prof = ProfReadOnly \<Longrightarrow> parseReadonlyCommand rp sd c roots \<noteq> None" "prof \<noteq> ProfWorkspaceSafe"
  using assms by (auto simp: commandGuard_def split: if_splits option.splits)

lemma no_process_when_workspace_safe: "workspaceSafeOperationRefusal ProfWorkspaceSafe ''dex.process.run'' None \<noteq> Inr None"
  by code_simp

lemma worker_operations_read: "list_all (\<lambda>w. case describeOperation w of Some d \<Rightarrow> \<not> od_mutation d | None \<Rightarrow> False) WORKSPACE_WORKER_OPERATIONS"
  by code_simp

lemma worker_reads: "workspaceWorkerEligible op args \<Longrightarrow> \<not> may_change E (EffWorker op a)"
  using worker_operations_read by (auto simp: workspaceWorkerEligible_def may_change_def list_all_iff split: option.splits)

text \<open>
  Narrow profiles narrow. Under a read-only decision no chosen effect may change anything: no write, no
  checkpoint, no mutating tool, and only processes of the read-only grammar. A node configured workspace-safe
  starts no process and calls no tool that is not marked workspace-safe, whatever profile the decision gave.
\<close>

theorem narrow_profiles_narrow:
  assumes "choose_effect E op args actor prof = Inr ch" and "eff \<in> set (effects_of ch)"
  shows "(prof = ProfReadOnly \<longrightarrow> \<not> may_change E eff) \<and>
     (xe_profile E = ProfWorkspaceSafe \<longrightarrow> (\<forall>c cwd t rs. eff \<noteq> EffProcess c cwd t rs) \<and>
        (\<forall>t targs. eff = EffTool t targs \<longrightarrow> (\<exists>k. describeCompatibilityTool t = Some k \<and> ct_workspaceSafeAllowed k)))"
proof (intro conjI impI)
  note c = chosen_checks [OF assms]
  show "\<not> may_change E eff" if "prof = ProfReadOnly"
  proof (cases eff)
    case (EffTool t targs)
    then have "t \<in> set READ_ONLY_TOOLS" using c that by (auto simp: effect_checked_def dest: toolGuard_passD(2))
    then show ?thesis using EffTool read_only_tools by (fastforce simp: may_change_def)
  next
    case (EffCheckpoint cwd)
    then have op: "op = ''dex.checkpoint''" using c by (simp add: effect_checked_def)
    have "nativeCall E op args prof = Inr eff"
      using choose_cases [OF assms(1)] assms(2) tool_choice_checked(2) [of E args prof ch eff] EffCheckpoint by (auto split: sum.splits)
    from nativeCall_checked(2) [OF this that] checkpoint_not_read_only show ?thesis unfolding op by blast
  next
    case (EffWorker w a)
    then show ?thesis using c worker_reads by (auto simp: effect_checked_def)
  next
    case (EffProcess cm cwd t rs)
    then show ?thesis using c that commandGuard_narrow(1) by (auto simp: effect_checked_def may_change_def)
  qed (use c that in \<open>auto simp: effect_checked_def may_change_def\<close>)
  show "(\<forall>c cwd t rs. eff \<noteq> EffProcess c cwd t rs)" if "xe_profile E = ProfWorkspaceSafe"
    using c that no_process_when_workspace_safe by (auto simp: effect_checked_def)
  show "\<forall>t targs. eff = EffTool t targs \<longrightarrow> (\<exists>k. describeCompatibilityTool t = Some k \<and> ct_workspaceSafeAllowed k)"
    if "xe_profile E = ProfWorkspaceSafe"
    using c that workspaceSafeToolRefusal_NoneD by (auto simp: effect_checked_def)
qed

text \<open>The input of a running process is not a command of the guard: no pattern that is always blocked applies to it.\<close>

lemma input_keys: "\<not> path_key ''pid''" "\<not> path_key ''input''"
  by code_simp+

theorem process_input_is_not_guarded:
  "toolGuard rp sd ''interact_with_process'' (JObj [(''pid'', JNum 7), (''input'', JStr c)]) ProfFullLocal roots = Inr None"
  by (simp add: toolGuard_def vendor_only_tools_def workspaceSafeToolRefusal_def isWorkspaceSafeNode_def input_keys)

section \<open>Witnesses\<close>

definition sample_exec :: exec_env where
  "sample_exec = \<lparr>xe_node = ex_env, xe_nodeId = ''n'', xe_profile = ProfWorkspaceSafe, xe_roots = [''/home/proj''], xe_registry = [],
     xe_text = (\<lambda>_. []), xe_broker = sample_broker, xe_secretFile = Absent\<rparr>"

definition sample_file :: json where
  "sample_file = JObj [(''path'', JStr ''/home/proj/a''), (''text'', JStr ''x'')]"


theorem narrow_profiles_narrow_witness:
  "\<not> may_change sample_exec (EffRead ''/data/proj/a'' (Some 1048576))"
proof -
  have "choose_effect sample_exec ''dex.file.read'' sample_file None ProfReadOnly =
      Inr (ChWorker (EffWorker ''dex.file.read'' sample_file) (Inr (EffRead ''/data/proj/a'' (Some 1048576))))"
    by code_simp
  from narrow_profiles_narrow [OF this, of "EffRead ''/data/proj/a'' (Some 1048576)"] show ?thesis by simp
qed

end
