(* ===== verification/Spec2Isabelle.thy ===== *)
theory Spec2Isabelle
  imports Reach_Budget Reach_Requests Reach_Coordination Reach_Lifecycle Reach_Durable Reach_Plans Reach_Admission Reach_Registry
    Reach_Recovery Reach_Router Reach_OAuth Reach_Executor
begin

text \<open>
  A verification library for DEX-REACH, the bridge that lets chat clients run operations on an owner's
  machine under a policy the owner controls.

  \<^bold>\<open>The program.\<close> A gateway (\<open>src/src/gateway\<close>) accepts clients over MCP and nodes over a socket; a
  node (\<open>src/src/node\<close>) receives an operation, decides whether the owner's policy allows it, creates a
  durable task, waits for a machine-wide work lease, runs the operation under path and command guards,
  and leaves a result, events and a receipt. Everything the node must remember lives in JSON files that
  are rewritten under a lock (\<open>src/src/shared\<close>). A call flows through the components in this order:
  registry (who may be asked) - access policy and budgets (may it run) - task store (what is running) -
  coordinator (when may it run) - guards and launch barrier (what may it touch) - result store, journal,
  receipts (what happened) - failure persistence and boot recovery (what if it did not finish).

  \<^bold>\<open>How code is represented.\<close> A file is a value of type \<open>json stored\<close> (absent, unreadable, or a
  document); reading it is a decoder with the checks of the source, writing it is an encoder. An object
  or class is a record, an enumeration or tagged union a datatype, a thrown error a constructor of the
  component's error type in the left of a sum. An operation that the source runs under a lock is one
  step \<open>state \<Rightarrow> (error + result) \<times> state\<close>; where the source awaits in the middle of an operation
  without a lock (the registry, plan consumers, the admission wait) the model has one step per segment
  and the properties quantify over every interleaving. Numbers are \<open>rat\<close> where JavaScript admits
  fractions and \<open>int\<close> where the code checks for integers. The clock, fresh identifiers, hashes, signature
  checks, the collation of \<open>localeCompare\<close>, the process table and the health of the host are parameters
  of the definitions; what the source relies on about them (a hash without collisions, a parser that
  reads back what the printer wrote) is a named hypothesis, instantiated in a witness.

  \<^bold>\<open>Theories and code.\<close>
  \<^item> \<open>Reach_Prelude\<close>: JSON values, files, time stamps, decoding combinators, character classes, the
    collection of list and option lemmas. \<open>Reach_Protocol\<close>: modes, clients, profiles (\<open>protocol.ts\<close>).
  \<^item> \<open>Reach_Operations\<close>: \<open>operations.ts\<close>, the catalogues, risk and requested cost of each operation,
    with the conversion of JavaScript strings to numbers. \<open>Reach_Budget\<close>: \<open>budget-policy.ts\<close> and
    \<open>budget-usage.ts\<close>, the rule file, rolling windows, reservation and release.
  \<^item> \<open>Reach_Security\<close>: \<open>security.ts\<close>, \<open>profiles.ts\<close>, \<open>capabilities.ts\<close> and the request checks of
    \<open>secrets.ts\<close>, whose store is in \<open>Reach_Secrets\<close>: path resolution and scope, the read-only grammar, tool guards, demanded capabilities.
  \<^item> \<open>Reach_Access\<close>: \<open>access.ts\<close> and \<open>policy-assertions.ts\<close>, the policy file, grants, authorization,
    reservation of a use. \<open>Reach_Requests\<close>: \<open>capability-requests.ts\<close>, from request to grant.
  \<^item> \<open>Reach_Capacity\<close>: \<open>machine-capacity.ts\<close>, \<open>work-bundle.ts\<close>, \<open>capacity-profile.ts\<close>.
    \<open>Reach_Coordinator\<close> has the operations of \<open>work-coordinator.ts\<close>, \<open>Reach_Coordination\<close> what they
    promise. \<open>Reach_Admission\<close>: \<open>task-admission.ts\<close>, the direct mode of \<open>coordinator/client.ts\<close> and
    \<open>coordinatorRequest\<close> of \<open>node/main.ts\<close>.
  \<^item> \<open>Reach_Durable\<close>: \<open>durable-execution.ts\<close>, \<open>process-outcome.ts\<close>, \<open>task-recovery.ts\<close>,
    \<open>request-deadlines.ts\<close>. \<open>Reach_Task_Events\<close>: \<open>task-events.ts\<close>. \<open>Reach_Tasks\<close> has the operations of
    \<open>node/task-store.ts\<close>, \<open>Reach_Lifecycle\<close> its specification and invariants.
  \<^item> \<open>Reach_Ledger\<close>: \<open>hash.ts\<close>, \<open>task-quarantine.ts\<close>, \<open>receipts.ts\<close>. \<open>Reach_Plans\<close>: \<open>plans.ts\<close>.
  \<^item> \<open>Reach_Node_Auth\<close>: \<open>node-transport-auth.ts\<close> and \<open>gateway/node-auth.ts\<close>. \<open>Reach_Registry\<close>:
    \<open>gateway/registry.ts\<close>, \<open>protocol-negotiation.ts\<close>, \<open>revoked-nodes.ts\<close>.
  \<^item> \<open>Reach_Results\<close>: \<open>node/result-store.ts\<close>. \<open>Reach_Activity\<close>: \<open>process-identity.ts\<close>, \<open>activity.ts\<close> and
    the launch part of \<open>nativeProcess\<close> in \<open>node/native.ts\<close>. \<open>Reach_Recovery\<close>: \<open>node/task-failure.ts\<close>,
    \<open>node/boot-recovery.ts\<close>, \<open>node/task-control.ts\<close>.
  \<^item> \<open>Reach_Router\<close>: \<open>dex-canonical-contract.ts\<close> and \<open>dex-command-router.ts\<close>, which turn a command of
    another product into a planned operation. \<open>Reach_OAuth\<close>: \<open>gateway/auth.ts\<close>, \<open>gateway/oauth-types.ts\<close> and
    \<open>gateway/oauth-server.ts\<close>, which admit chat clients with the owner's consent.
  \<^item> \<open>Reach_Adapters\<close>: \<open>adapter-contract.ts\<close>, the shipped manifest, and the start of the two backends and
    the argument bound of \<open>node/adapters/desktop-commander.ts\<close> and \<open>native-compatibility.ts\<close>.
    \<open>Reach_Executor\<close>: \<open>executeOperation\<close> of \<open>node/main.ts\<close> and \<open>nativeCall\<close> of \<open>node/native.ts\<close>, from an
    operation to the effect it may have, \<open>workspace-worker.ts\<close> (eligibility), \<open>execution-identity.ts\<close>.

  \<^bold>\<open>What the lemmas show.\<close>
  \<^item> Authority: an authorized operation has a grant, a mode and a budget that cover it; guards judge every
    path and pass only inspection programs; approvals never widen a request; uses stay under the ceiling;
    budget ceilings hold in every reachable usage file.
  \<^item> Scheduling: leases exclude each other and fit the machine, tickets are served in order, claims of live
    processes survive every operation of another, records of the coordinator read back, the wait always
    ends and a lease it reports is held.
  \<^item> Durability: the task store refines an abstract life of tasks, a key binds one task, listing through the
    index equals a scan, the journal is bounded and marks its gaps, results read back unchanged and their
    pages rebuild them, evidence of unfinished processes is never lost, a launch leaves evidence before the
    child runs, boot neither replays nor forgets a task, an effect that may have started is never written
    off, controls act only under a valid policy.
  \<^item> Evidence: both hash chains detect any change by someone without a collision, quarantined tasks are
    frozen, a plan is executed at most once.
  \<^item> Network: proofs are not replayed, the credential store refines the phases of a node, a revoked node
    stays out and gets no work, a caller is answered by the node it named and by no other, and every caller
    is accounted for.
  \<^item> Admission of clients: a token that verifies comes from a consent of the owner for that client and its
    scopes, a code is used once, a revoked token stays revoked, registrations and the keys of the rate
    limiter are bounded. The contract of an invariant of the provider is a locale, \<open>oauth_custody\<close>; its routes
    are proved in it once and it is interpreted for the custody of tokens, for spent codes and for revoked
    tokens.
  \<^item> Routing: a routable manifest is well formed, a plan is justified by the manifest, the mapping table and
    a node that serves the operation, references are verified, a handoff between products passes its
    firewalls, the merge of search projections does not depend on their order.
  \<^item> Adapters: whatever manifests are installed, an installed tool has one provider, its declaration agrees
    with the catalogue and clients may name exactly the unblocked tools; the shipped manifest is never refused;
    the walk over the arguments of a call accepts exactly the values within its four bounds, which is proved
    through the multiset of the values still on its stack.
  \<^item> Execution: every effect the node chooses has passed the checks of its kind, a read-only decision chooses
    no effect that changes anything. The secret store is a map from aliases to values under the owner's
    operations (a locale of stores read through an abstraction, interpreted for its file), a corrupt store is
    never overwritten, and scrubbed output holds no value that could be told from the marker.

  \<^bold>\<open>Bounds.\<close> The constants are those of the source and appear in the definitions: 64 steps up the process
  tree, 200 activity rows, 200 entries of history, 2000 task events, 240 characters of status, 4096 nonces
  of a node and 65536 in all, 2048 pending requests, 64 KiB inline results, 256 registered clients,
  4096 values of depth 24 in the arguments of a call. Two definitions take fuel:
  the wait of admission runs for \<open>30000 / 250 + 1 = 121\<close> polls, which the termination property shows to be
  enough because every poll sleeps until the deadline is reached; the reader of pages takes the length of
  the text plus one, which is enough because every page is nonempty. All other recursions are structural
  or have a measure.

  \<^bold>\<open>Not modelled.\<close> Code that only moves bytes: sockets, HTTP and MCP callbacks, child processes beyond
  the launch barrier, key generation, the command-line scripts, the vendored compatibility runtime. The
  dispatch of requests, plans and tasks around \<open>executeOperation\<close> in \<open>node/main.ts\<close>. The
  socket protocol of the coordinator daemon (the node's direct mode calls the same operations). Redaction of
  text for logs, which the model takes as a parameter of the journal. Reports computed from files of other
  components (traces, provenance, checkpoints, health) and the sampling of the host. Of the OAuth surface, the
  middleware that applies the rate limits, the discovery documents and the consent page's markup.
\<close>

end
